(* ===== verification/Munix_Prelude.thy ===== *)
theory Munix_Prelude
  imports Main "HOL-Library.Word"
begin

text \<open>
  Prelude of the Munix development: the collections of rewrite rules the component theories
  share, the type names of the C program (bytes, strings, memory, 32-bit machine words) and
  generic facts about lists and byte memories.

  A C \<open>char\<close> is a HOL \<^typ>\<open>char\<close> (eight bits). \<open>uchar\<close> reads it as \<open>unsigned char\<close>
  and \<open>schar\<close> as the plain \<open>char\<close> of i386 GCC, which is signed. A byte-addressed memory
  is a total function from addresses to bytes; a NUL-terminated string in memory is related to
  the list of its characters by \<open>cstr\<close>.
\<close>

named_theorems cmem \<open>reading and writing byte memories\<close>
named_theorems cdefs \<open>definitions that evaluate on concrete input\<close>

type_synonym mem = "nat \<Rightarrow> char"
type_synonym u8 = "8 word"
type_synonym u16 = "16 word"
type_synonym u32 = "32 word"
type_synonym u64 = "64 word"

abbreviation NUL :: char where "NUL \<equiv> CHR 0x00"

definition uchar :: "char \<Rightarrow> int" where
  "uchar c = of_char c"

definition schar :: "char \<Rightarrow> int" where
  "schar c = (let n = of_char c in if n < 128 then n else n - 256)"

text \<open>Conversion of an \<open>int\<close> to a \<open>char\<close> keeps the low eight bits.\<close>

definition to_char :: "int \<Rightarrow> char" where
  "to_char i = char_of i"

text \<open>\<open>mem_read m a n\<close> is the list of the \<open>n\<close> bytes at \<open>a\<close>; \<open>mem_write m a bs\<close> stores
  \<open>bs\<close> at \<open>a\<close>.\<close>

definition mem_read :: "mem \<Rightarrow> nat \<Rightarrow> nat \<Rightarrow> char list" where
  "mem_read m a n = map m [a..<a + n]"

definition mem_write :: "mem \<Rightarrow> nat \<Rightarrow> char list \<Rightarrow> mem" where
  "mem_write m a bs = (\<lambda>x. if a \<le> x \<and> x < a + length bs then bs ! (x - a) else m x)"

text \<open>\<open>cstr m a s\<close>: the NUL-terminated string \<open>s\<close> is stored at address \<open>a\<close>.\<close>

fun cstr :: "mem \<Rightarrow> nat \<Rightarrow> string \<Rightarrow> bool" where
  "cstr m a [] = (m a = NUL)"
| "cstr m a (c # s) = (m a = c \<and> c \<noteq> NUL \<and> cstr m (Suc a) s)"

lemma upd_eta [simp]: "(\<lambda>x. if x = a then v else m x) = m(a := v)"
  by (simp add: fun_upd_def)

lemma length_mem_read [simp]: "length (mem_read m a n) = n"
  by (simp add: mem_read_def)

lemma nth_mem_read [simp]: "i < n \<Longrightarrow> mem_read m a n ! i = m (a + i)"
  by (simp add: mem_read_def)

lemma mem_read_0 [simp]: "mem_read m a 0 = []"
  by (simp add: mem_read_def)

lemma mem_read_Suc: "mem_read m a (Suc n) = m a # mem_read m (Suc a) n"
  by (rule nth_equalityI) (auto simp: nth_Cons split: nat.split)

lemma mem_write_Nil [simp]: "mem_write m a [] = m"
  by (rule ext) (auto simp: mem_write_def)

lemma mem_write_Cons: "mem_write m a (b # bs) = mem_write (m(a := b)) (Suc a) bs"
  by (rule ext) (auto simp: mem_write_def nth_Cons')

lemma mem_write_snoc: "mem_write m a (bs @ [b]) = (mem_write m a bs)(a + length bs := b)"
  by (rule ext) (auto simp: mem_write_def nth_append less_Suc_eq)

lemma mem_write_append: "mem_write m a (xs @ ys) = mem_write (mem_write m a xs) (a + length xs) ys"
  by (rule ext) (auto simp: mem_write_def nth_append)

lemma mem_write_outside [cmem]: "x < a \<or> a + length bs \<le> x \<Longrightarrow> mem_write m a bs x = m x"
  by (auto simp: mem_write_def)

lemma mem_write_inside [cmem]: "i < length bs \<Longrightarrow> mem_write m a bs (a + i) = bs ! i"
  by (simp add: mem_write_def)

lemma mem_read_write_same [cmem]: "length bs = n \<Longrightarrow> mem_read (mem_write m a bs) a n = bs"
  by (rule nth_equalityI) (auto simp: mem_write_inside)

lemma mem_read_cong: "(\<And>x. a \<le> x \<Longrightarrow> x < a + n \<Longrightarrow> m x = m' x) \<Longrightarrow> mem_read m a n = mem_read m' a n"
  by (auto simp: mem_read_def)

lemma mem_read_write_disjoint [cmem]:
  "a + n \<le> b \<or> b + length bs \<le> a \<Longrightarrow> mem_read (mem_write m b bs) a n = mem_read m a n"
  by (rule mem_read_cong) (auto simp: mem_write_def)

lemma mem_read_write_id [simp]: "mem_write m a (mem_read m a n) = m"
  by (rule ext) (auto simp: mem_write_def)

lemma cstr_iff: "cstr m a s \<longleftrightarrow> mem_read m a (Suc (length s)) = s @ [NUL] \<and> NUL \<notin> set s"
proof (induction s arbitrary: a)
  case Nil
  then show ?case by (simp add: mem_read_Suc)
next
  case (Cons c s)
  then show ?case by (auto simp: mem_read_Suc [of m a])
qed

lemma cstr_write: "NUL \<notin> set s \<Longrightarrow> cstr (mem_write m a (s @ [NUL])) a s"
  by (simp add: cstr_iff mem_read_write_same)

lemma cstr_write_disjoint [cmem]:
  "a + length s < b \<or> b + length bs \<le> a \<Longrightarrow> cstr (mem_write m b bs) a s = cstr m a s"
  by (subst (1 2) cstr_iff) (auto simp: mem_read_write_disjoint)

lemma cstr_notin: "cstr m a s \<Longrightarrow> NUL \<notin> set s"
  by (simp add: cstr_iff)

lemma cstr_nth: "cstr m a s \<Longrightarrow> i \<le> length s \<Longrightarrow> m (a + i) = (s @ [NUL]) ! i"
  by (metis cstr_iff less_Suc_eq_le nth_mem_read)

lemma cstr_functional: "cstr m a s \<Longrightarrow> cstr m a t \<Longrightarrow> s = t"
proof (induction s arbitrary: a t)
  case Nil
  then show ?case by (cases t) auto
next
  case (Cons c s)
  then show ?case by (cases t) auto
qed

lemma takeWhile_cstr:
  assumes "cstr m a s" "length s < n"
  shows "takeWhile (\<lambda>c. c \<noteq> NUL) (mem_read m a n) = s"
proof -
  have "mem_read m a (Suc (length s)) = s @ [NUL]" "NUL \<notin> set s" using assms(1) by (auto simp: cstr_iff)
  moreover have "mem_read m a n = mem_read m a (Suc (length s)) @ drop (Suc (length s)) (mem_read m a n)"
    using assms(2) by (auto simp: list_eq_iff_nth_eq nth_append)
  ultimately obtain rest where "mem_read m a n = s @ NUL # rest" "NUL \<notin> set s" by auto
  then show ?thesis by (auto simp: takeWhile_append)
qed

lemma cstr_drop: "cstr m a s \<Longrightarrow> i \<le> length s \<Longrightarrow> cstr m (a + i) (drop i s)"
proof (induction i arbitrary: a s)
  case 0
  then show ?case by simp
next
  case (Suc i)
  then show ?case by (cases s) (auto simp flip: add_Suc)
qed

lemma uchar_range: "0 \<le> uchar c \<and> uchar c < 256"
proof -
  have "(of_char c :: nat) < 256" by (rule nat_of_char_less_256)
  then have "int (of_char c) < 256" by linarith
  moreover have "uchar c = int (of_char c)" by (simp add: uchar_def of_nat_of_char)
  ultimately show ?thesis by simp
qed

lemma uchar_inj: "uchar c = uchar d \<longleftrightarrow> c = d"
  by (simp add: uchar_def)

lemma schar_range: "- 128 \<le> schar c \<and> schar c < 128"
  using uchar_range [of c] by (auto simp: schar_def uchar_def Let_def)

lemma schar_inj: "schar c = schar d \<longleftrightarrow> c = d"
  using uchar_range [of c] uchar_range [of d] uchar_inj [of c d]
  by (auto simp: schar_def uchar_def Let_def split: if_splits)

lemma schar_NUL [simp]: "schar NUL = 0"
  by (simp add: schar_def)

lemma schar_0_iff [simp]: "schar c = 0 \<longleftrightarrow> c = NUL"
  using schar_inj [of c NUL] by simp

lemma to_char_uchar [simp]: "to_char (uchar c) = c"
  by (simp add: to_char_def uchar_def)

lemma uchar_to_char [simp]: "uchar (to_char i) = i mod 256"
  by (simp add: to_char_def uchar_def)

lemma to_char_schar [simp]: "to_char (schar c) = c"
proof -
  have "schar c mod 256 = uchar c"
    using uchar_range [of c] by (auto simp: schar_def uchar_def Let_def)
  then have "uchar (to_char (schar c)) = uchar c" by simp
  then show ?thesis by (simp only: uchar_inj)
qed

lemma schar_to_char: "- 128 \<le> i \<Longrightarrow> i < 128 \<Longrightarrow> schar (to_char i) = i"
proof -
  assume i: "- 128 \<le> i" "i < 128"
  have neg: "i mod 256 = i + 256" if "i < 0"
  proof -
    have "i mod 256 = (i + 256) mod 256" by simp
    also have "\<dots> = i + 256" using that i by (intro mod_pos_pos_trivial) auto
    finally show ?thesis .
  qed
  have "of_char (to_char i) = i mod 256" by (simp add: to_char_def)
  then show ?thesis using i neg by (cases "i < 0") (simp_all add: schar_def)
qed

text \<open>Association of a list with a fixed number of slots, as a C array of fixed length.\<close>

lemma nth_list_update_if: "i < length xs \<Longrightarrow> xs[j := v] ! i = (if i = j then v else xs ! i)"
  by (simp add: nth_list_update)

end
