(* ===== verification/Linked_List.thy ===== *)
theory Linked_List
  imports Munix_Prelude "HOL-Library.Multiset"
begin

text \<open>
  The intrusive circular doubly linked list of \<open>core/list.h\<close>.

  A \<open>struct list_head\<close> lives inside another object and is identified by its address, of any
  type \<open>'a\<close>. The heap maps every address to its \<open>next\<close> and \<open>prev\<close> pointers, which may be
  NULL (\<^const>\<open>None\<close>). An operation that would dereference a NULL pointer returns \<^const>\<open>None\<close>.
  The stores of each operation are performed one after the other, as in the code, because source
  and destination nodes may coincide.

  The abstraction \<open>clist h head xs\<close> says that the nodes \<open>xs\<close>, in this order, form the circular
  list with head node \<open>head\<close>. Every operation is shown to implement an operation on \<open>xs\<close>; the
  locale \<open>intrusive_queue\<close> is the interface its clients (the scheduler's ready queue) use.
\<close>

record 'a lheap =
  lh_next :: "'a \<Rightarrow> 'a option"
  lh_prev :: "'a \<Rightarrow> 'a option"

definition set_next :: "'a lheap \<Rightarrow> 'a \<Rightarrow> 'a option \<Rightarrow> 'a lheap" where
  "set_next h a p = h\<lparr>lh_next := (lh_next h)(a := p)\<rparr>"

definition set_prev :: "'a lheap \<Rightarrow> 'a \<Rightarrow> 'a option \<Rightarrow> 'a lheap" where
  "set_prev h a p = h\<lparr>lh_prev := (lh_prev h)(a := p)\<rparr>"

section \<open>Construction and checks\<close>

definition INIT_LIST_HEAD :: "'a lheap \<Rightarrow> 'a \<Rightarrow> 'a lheap" where
  "INIT_LIST_HEAD h l = set_prev (set_next h l (Some l)) l (Some l)"

definition list_ensure_init :: "'a lheap \<Rightarrow> 'a \<Rightarrow> 'a lheap" where
  "list_ensure_init h l = (if lh_next h l = None then INIT_LIST_HEAD h l else h)"

definition list_empty :: "'a lheap \<Rightarrow> 'a \<Rightarrow> bool" where
  "list_empty h head \<longleftrightarrow> lh_next h head = None \<or> lh_next h head = Some head"

definition list_is_head :: "'a \<Rightarrow> 'a \<Rightarrow> bool" where
  "list_is_head l head \<longleftrightarrow> l = head"

definition list_is_first :: "'a lheap \<Rightarrow> 'a \<Rightarrow> 'a \<Rightarrow> bool" where
  "list_is_first h l head \<longleftrightarrow> lh_prev h l = Some head"

definition list_is_last :: "'a lheap \<Rightarrow> 'a \<Rightarrow> 'a \<Rightarrow> bool" where
  "list_is_last h l head \<longleftrightarrow> lh_next h l = Some head"

section \<open>Adding and removing\<close>

fun list_add_inner :: "'a lheap \<Rightarrow> 'a \<Rightarrow> 'a option \<Rightarrow> 'a option \<Rightarrow> 'a lheap option" where
  "list_add_inner h new (Some a) (Some b) =
    (let h1 = set_next h a (Some new);
         h2 = set_prev h1 new (Some a);
         h3 = set_next h2 new (Some b)
     in Some (set_prev h3 b (Some new)))"
| "list_add_inner h new _ _ = None"

definition list_add :: "'a lheap \<Rightarrow> 'a \<Rightarrow> 'a \<Rightarrow> 'a lheap option" where
  "list_add h new head =
    (let h1 = list_ensure_init h head in list_add_inner h1 new (Some head) (lh_next h1 head))"

definition list_add_tail :: "'a lheap \<Rightarrow> 'a \<Rightarrow> 'a \<Rightarrow> 'a lheap option" where
  "list_add_tail h new head =
    (let h1 = list_ensure_init h head in list_add_inner h1 new (lh_prev h1 head) (Some head))"

definition list_del :: "'a lheap \<Rightarrow> 'a \<Rightarrow> 'a lheap option" where
  "list_del h item =
    (case lh_prev h item of
       None \<Rightarrow> None
     | Some p \<Rightarrow>
         (let h1 = set_next h p (lh_next h item)
          in case lh_next h1 item of
               None \<Rightarrow> None
             | Some n \<Rightarrow>
                 (let h2 = set_prev h1 n (lh_prev h1 item);
                      h3 = set_next h2 item None
                  in Some (set_prev h3 item None))))"

section \<open>Entry retrieval and rotation\<close>

text \<open>An entry is identified with the node embedded in it; \<open>container_of\<close> keeps NULL.\<close>

definition list_first_entry :: "'a lheap \<Rightarrow> 'a \<Rightarrow> 'a option" where
  "list_first_entry h ptr = lh_next h ptr"

definition list_last_entry :: "'a lheap \<Rightarrow> 'a \<Rightarrow> 'a option" where
  "list_last_entry h ptr = lh_prev h ptr"

definition list_next_entry :: "'a lheap \<Rightarrow> 'a \<Rightarrow> 'a option" where
  "list_next_entry h pos = lh_next h pos"

definition list_prev_entry :: "'a lheap \<Rightarrow> 'a \<Rightarrow> 'a option" where
  "list_prev_entry h pos = lh_prev h pos"

definition list_entry_is_head :: "'a \<Rightarrow> 'a \<Rightarrow> bool" where
  "list_entry_is_head pos head \<longleftrightarrow> list_is_head pos head"

text \<open>\<open>list_shift\<close>: the node taken from the front (NULL when the list is empty) and the heap.\<close>

definition list_shift :: "'a lheap \<Rightarrow> 'a \<Rightarrow> ('a option \<times> 'a lheap) option" where
  "list_shift h head =
    (if list_empty h head then Some (None, h)
     else case lh_next h head of
            None \<Rightarrow> None
          | Some first \<Rightarrow> map_option (\<lambda>h'. (Some first, h')) (list_del h first))"

definition list_rotate_left :: "'a lheap \<Rightarrow> 'a \<Rightarrow> 'a lheap option" where
  "list_rotate_left h head =
    (if list_empty h head then Some h
     else case lh_next h head of
            None \<Rightarrow> None
          | Some first \<Rightarrow>
              (case list_del h head of
                 None \<Rightarrow> None
               | Some h1 \<Rightarrow> list_add h1 head first))"

section \<open>Iteration\<close>

text \<open>
  The nodes a \<open>list_for_each\<close> loop visits, from the cursor \<open>pos\<close> on. The loop ends only at
  the head, so it is partial: a NULL pointer or a cycle that misses the head gives \<^const>\<open>None\<close>.
\<close>

partial_function (option) list_for_each_from :: "'a lheap \<Rightarrow> 'a \<Rightarrow> 'a option \<Rightarrow> 'a list option" where
  "list_for_each_from h head pos =
    (case pos of
       None \<Rightarrow> None
     | Some p \<Rightarrow>
         (if list_is_head p head then Some []
          else Option.bind (list_for_each_from h head (lh_next h p)) (\<lambda>ps. Some (p # ps))))"

definition list_for_each :: "'a lheap \<Rightarrow> 'a \<Rightarrow> 'a list option" where
  "list_for_each h head = list_for_each_from h head (lh_next h head)"

definition list_for_each_entry :: "'a lheap \<Rightarrow> 'a \<Rightarrow> 'a list option" where
  "list_for_each_entry h head = list_for_each_from h head (list_first_entry h head)"

partial_function (option) list_for_each_prev_from ::
    "'a lheap \<Rightarrow> 'a \<Rightarrow> 'a option \<Rightarrow> 'a list option" where
  "list_for_each_prev_from h head pos =
    (case pos of
       None \<Rightarrow> None
     | Some p \<Rightarrow>
         (if list_entry_is_head p head then Some []
          else Option.bind (list_for_each_prev_from h head (list_prev_entry h p)) (\<lambda>ps. Some (p # ps))))"

definition list_for_each_entry_prev :: "'a lheap \<Rightarrow> 'a \<Rightarrow> 'a list option" where
  "list_for_each_entry_prev h head = list_for_each_prev_from h head (list_last_entry h head)"

section \<open>The abstraction: circular lists\<close>

fun chain :: "'a lheap \<Rightarrow> 'a list \<Rightarrow> bool" where
  "chain h (a # b # zs) \<longleftrightarrow> lh_next h a = Some b \<and> lh_prev h b = Some a \<and> chain h (b # zs)"
| "chain h _ \<longleftrightarrow> True"

definition clist :: "'a lheap \<Rightarrow> 'a \<Rightarrow> 'a list \<Rightarrow> bool" where
  "clist h head xs \<longleftrightarrow> distinct (head # xs) \<and> chain h (head # xs @ [head])"

text \<open>A list head that may still be zero-initialised static storage.\<close>

definition clist0 :: "'a lheap \<Rightarrow> 'a \<Rightarrow> 'a list \<Rightarrow> bool" where
  "clist0 h head xs \<longleftrightarrow> (lh_next h head = None \<and> xs = []) \<or> clist h head xs"

lemma lh_set [simp]:
  "lh_next (set_next h a p) = (lh_next h)(a := p)" "lh_prev (set_next h a p) = lh_prev h"
  "lh_prev (set_prev h a p) = (lh_prev h)(a := p)" "lh_next (set_prev h a p) = lh_next h"
  by (simp_all add: set_next_def set_prev_def)

lemma chain_append: "chain h (xs @ y # ys) \<longleftrightarrow> chain h (xs @ [y]) \<and> chain h (y # ys)"
proof (induction xs)
  case (Cons x xs)
  then show ?case by (cases xs) auto
qed simp

lemma chain_cong:
  "(\<And>z. z \<in> set (butlast zs) \<Longrightarrow> lh_next h' z = lh_next h z) \<Longrightarrow>
   (\<And>z. z \<in> set (tl zs) \<Longrightarrow> lh_prev h' z = lh_prev h z) \<Longrightarrow> chain h' zs = chain h zs"
  by (induction h zs rule: chain.induct) auto

lemma clist_cong:
  assumes "\<And>z. z \<in> set (head # xs) \<Longrightarrow> lh_next h' z = lh_next h z \<and> lh_prev h' z = lh_prev h z"
  shows "clist h' head xs = clist h head xs"
proof -
  have "chain h' (head # xs @ [head]) = chain h (head # xs @ [head])"
    by (rule chain_cong) (use assms in \<open>auto simp: butlast_append split: if_splits\<close>)
  then show ?thesis by (simp add: clist_def)
qed

text \<open>Where the cycle is cut between two neighbours, the two sides do not meet again.\<close>

lemma cycle_split:
  assumes "distinct (head # xs)" "head # xs @ [head] = us @ a # b # vs"
  shows "a \<notin> set us" "a \<notin> set (butlast (b # vs))" "b \<notin> set vs" "b \<notin> set (tl (us @ [a]))"
proof -
  have "head # xs = us @ a # butlast (b # vs)"
    using arg_cong [OF assms(2), of butlast] by (simp add: butlast_append)
  with assms(1) show "a \<notin> set us" "a \<notin> set (butlast (b # vs))"
    by (metis distinct_append distinct.simps(2) disjoint_insert(1) list.set(2) not_distinct_conv_prefix)
      (metis \<open>head # xs = us @ a # butlast (b # vs)\<close> assms(1) distinct.simps(2) distinct_append)
  have tl: "xs @ [head] = tl (us @ [a]) @ b # vs"
    using arg_cong [OF assms(2), of tl] by (cases us) auto
  moreover have "distinct (xs @ [head])" using assms(1) by simp
  ultimately have "distinct (tl (us @ [a]) @ b # vs)" by metis
  then show "b \<notin> set vs" "b \<notin> set (tl (us @ [a]))" by auto
qed

lemma tl_snocD: "z \<in> set (tl (us @ [a])) \<Longrightarrow> z = a \<or> z \<in> set us"
  by (cases us) auto

lemma chain_insert:
  assumes "chain h (us @ a # b # vs)" "a \<notin> set us" "a \<notin> set (butlast (b # vs))"
    "b \<notin> set vs" "b \<notin> set (tl (us @ [a]))" "new \<notin> set (us @ a # b # vs)"
    "list_add_inner h new (Some a) (Some b) = Some h'"
  shows "chain h' (us @ a # new # b # vs)"
proof -
  have h': "lh_next h' = (lh_next h)(a := Some new, new := Some b)"
      "lh_prev h' = (lh_prev h)(new := Some a, b := Some new)"
    using assms(7) by (auto simp: Let_def)
  have "chain h (us @ [a])" "chain h (b # vs)"
    using assms(1) unfolding chain_append [of h us a "b # vs"] by simp_all
  moreover have "chain h' (us @ [a]) = chain h (us @ [a])"
    by (rule chain_cong) (use assms in \<open>auto simp: h' dest: tl_snocD\<close>)
  moreover have "chain h' (b # vs) = chain h (b # vs)"
    by (rule chain_cong) (use assms in \<open>auto simp: h' dest: in_set_butlastD split: if_splits\<close>)
  moreover have "a \<noteq> new" "b \<noteq> new" using assms(6) by auto
  ultimately show ?thesis unfolding chain_append [of h' us a "new # b # vs"] by (simp add: h')
qed

lemma chain_remove:
  assumes "chain h (us @ a # x # b # vs)" "a \<notin> set us" "a \<notin> set (butlast (b # vs))"
    "b \<notin> set vs" "b \<notin> set (tl (us @ [a]))" "x \<notin> set (us @ a # b # vs)"
  shows "\<exists>h'. list_del h x = Some h' \<and> chain h' (us @ a # b # vs) \<and>
    lh_next h' = (lh_next h)(a := Some b, x := None) \<and> lh_prev h' = (lh_prev h)(b := Some a, x := None)"
proof -
  have ax: "lh_next h a = Some x" "lh_prev h x = Some a" "lh_next h x = Some b"
    and ch: "chain h (us @ [a])" "chain h (b # vs)"
    using assms(1) unfolding chain_append [of h us a "x # b # vs"] by simp_all
  define h' where "h' = set_prev (set_next (set_prev (set_next h a (Some b)) b (Some a)) x None) x None"
  have h': "lh_next h' = (lh_next h)(a := Some b, x := None)"
      "lh_prev h' = (lh_prev h)(b := Some a, x := None)"
    by (simp_all add: h'_def)
  have "list_del h x = Some h'"
    using assms(6) ax by (auto simp: list_del_def h'_def Let_def)
  moreover have "chain h' (us @ [a]) = chain h (us @ [a])"
    by (rule chain_cong) (use assms in \<open>auto simp: h' dest: tl_snocD\<close>)
  moreover have "chain h' (b # vs) = chain h (b # vs)"
    by (rule chain_cong) (use assms in \<open>auto simp: h' dest: in_set_butlastD split: if_splits\<close>)
  moreover have "a \<noteq> x" "b \<noteq> x" using assms(6) by auto
  ultimately have "list_del h x = Some h' \<and> chain h' (us @ a # b # vs)"
    unfolding chain_append [of h' us a "b # vs"] using ch by (simp add: h')
  then show ?thesis using h' by blast
qed

section \<open>Operations on circular lists\<close>

lemma clist_next: "clist h head (x # xs) \<Longrightarrow> lh_next h head = Some x"
  by (simp add: clist_def)

lemma clist_Nil: "clist h head [] \<longleftrightarrow> lh_next h head = Some head \<and> lh_prev h head = Some head"
  by (auto simp: clist_def)

lemma clist_prev: "clist h head (xs @ [x]) \<Longrightarrow> lh_prev h head = Some x"
  using chain_append [of h "head # xs" x "[head]"] by (simp add: clist_def)

lemma clist_INIT: "clist (INIT_LIST_HEAD h head) head []"
  by (simp add: clist_Nil INIT_LIST_HEAD_def)

lemma clist_ensure_init: "clist0 h head xs \<Longrightarrow> clist (list_ensure_init h head) head xs"
  by (cases xs) (auto simp: clist0_def list_ensure_init_def clist_Nil INIT_LIST_HEAD_def dest: clist_next)

lemma list_empty_clist0: "clist0 h head xs \<Longrightarrow> list_empty h head \<longleftrightarrow> xs = []"
  by (cases xs) (auto simp: clist0_def list_empty_def clist_Nil clist_def)

lemma clist_insert:
  assumes "clist h head xs" "head # xs @ [head] = us @ a # b # vs" "new \<notin> set (head # xs)"
    "us @ a # new # b # vs = head # ys @ [head]"
  shows "\<exists>h'. list_add_inner h new (Some a) (Some b) = Some h' \<and> clist h' head ys"
proof -
  obtain h' where h': "list_add_inner h new (Some a) (Some b) = Some h'" by (simp add: Let_def)
  have ch: "chain h (us @ a # b # vs)" and d: "distinct (head # xs)"
    using assms(1,2) by (auto simp: clist_def)
  have new: "new \<notin> set (us @ a # b # vs)" using assms(3) unfolding assms(2) [symmetric] by auto
  have "chain h' (us @ a # new # b # vs)"
    by (rule chain_insert [OF ch _ _ _ _ new h']) (rule cycle_split [OF d assms(2)])+
  moreover have "distinct (head # ys)"
  proof -
    have "mset (us @ a # new # b # vs) = add_mset new (mset (head # xs @ [head]))"
      unfolding assms(2) by simp
    then have "mset (head # ys) = add_mset new (mset (head # xs))"
      unfolding assms(4) by simp
    then have "mset (head # ys) = mset (new # head # xs)" by simp
    moreover have "distinct (new # head # xs)" using d assms(3) by simp
    ultimately show ?thesis by (metis mset_eq_imp_distinct_iff)
  qed
  ultimately show ?thesis using h' assms(4) by (auto simp: clist_def)
qed

lemma list_add_clist:
  assumes "clist0 h head xs" "new \<notin> set (head # xs)"
  shows "\<exists>h'. list_add h new head = Some h' \<and> clist h' head (new # xs)"
proof -
  let ?h = "list_ensure_init h head"
  have c: "clist ?h head xs" by (rule clist_ensure_init) fact
  obtain b vs where bv: "xs @ [head] = b # vs" by (cases "xs @ [head]") auto
  have "lh_next ?h head = Some b" using c bv by (auto simp: clist_def)
  moreover have "\<exists>h'. list_add_inner ?h new (Some head) (Some b) = Some h' \<and> clist h' head (new # xs)"
    by (rule clist_insert [OF c _ assms(2), of "[]" head b vs]) (simp_all add: bv)
  ultimately show ?thesis by (simp add: list_add_def Let_def)
qed

lemma list_add_tail_clist:
  assumes "clist0 h head xs" "new \<notin> set (head # xs)"
  shows "\<exists>h'. list_add_tail h new head = Some h' \<and> clist h' head (xs @ [new])"
proof -
  let ?h = "list_ensure_init h head"
  have c: "clist ?h head xs" by (rule clist_ensure_init) fact
  obtain us a where ua: "head # xs = us @ [a]" by (metis append_butlast_last_id list.distinct(1))
  have "chain ?h (us @ a # [head])"
    using c ua by (metis append.assoc append_Cons append_Nil clist_def)
  then have "lh_prev ?h head = Some a" using chain_append [of ?h us a "[head]"] by simp
  moreover have "\<exists>h'. list_add_inner ?h new (Some a) (Some head) = Some h' \<and> clist h' head (xs @ [new])"
    by (rule clist_insert [OF c _ assms(2), of us a head "[]"]) (use ua in \<open>simp_all flip: append_Cons\<close>)
  ultimately show ?thesis by (simp add: list_add_tail_def Let_def)
qed

lemma list_del_clist:
  assumes "clist h head (ys @ x # zs)"
  shows "\<exists>h'. list_del h x = Some h' \<and> clist h' head (ys @ zs) \<and> lh_next h' x = None \<and> lh_prev h' x = None"
proof -
  obtain us a where ua: "head # ys = us @ [a]" by (metis append_butlast_last_id list.distinct(1))
  obtain b vs where bv: "zs @ [head] = b # vs" by (cases "zs @ [head]") auto
  have eq: "head # (ys @ zs) @ [head] = us @ a # b # vs"
    using ua bv by (metis append.assoc append_Cons append_Nil)
  have eqx: "head # (ys @ x # zs) @ [head] = us @ a # x # b # vs"
    using ua bv by (metis append.assoc append_Cons append_Nil)
  have d: "distinct (head # ys @ zs)" and ch: "chain h (us @ a # x # b # vs)"
    and xn: "x \<notin> set (head # (ys @ zs) @ [head])"
    using assms by (auto simp: clist_def eqx [simplified])
  have xn': "x \<notin> set (us @ a # b # vs)" using xn unfolding eq .
  from chain_remove [OF ch cycle_split [OF d eq] xn'] obtain h' where
    "list_del h x = Some h'" "chain h' (us @ a # b # vs)" "lh_next h' x = None" "lh_prev h' x = None"
    by auto
  with d eq show ?thesis by (auto simp: clist_def)
qed

lemma list_shift_clist0:
  assumes "clist0 h head xs"
  shows "\<exists>h'. list_shift h head = Some (if xs = [] then None else Some (xs ! 0), h') \<and> clist0 h' head (tl xs)"
proof (cases xs)
  case Nil
  with assms show ?thesis by (simp add: list_shift_def list_empty_clist0)
next
  case (Cons x ys)
  then have c: "clist h head (x # ys)" using assms by (simp add: clist0_def)
  from list_del_clist [of h head "[]" x ys] c obtain h' where
    "list_del h x = Some h'" "clist h' head ys" by auto
  with assms Cons show ?thesis
    by (auto simp: list_shift_def list_empty_clist0 clist_next [OF c] clist0_def)
qed

text \<open>Rotation of the head seen from the first node: the same cycle, entered one node later.\<close>

lemma clist_rehead: "clist h head (x # xs) \<Longrightarrow> clist h x (xs @ [head])"
  using chain_append [of h "x # xs" head "[x]"] by (auto simp: clist_def)

lemma clist_rehead_back: "clist h x (xs @ [head]) \<Longrightarrow> clist h head (x # xs)"
  using chain_append [of h "x # xs" head "[x]"] by (auto simp: clist_def)

lemma list_rotate_left_clist:
  assumes "clist h head (x # xs)"
  shows "\<exists>h'. list_rotate_left h head = Some h' \<and> clist h' head (xs @ [x])"
proof -
  have e: "\<not> list_empty h head"
    using assms list_empty_clist0 [of h head "x # xs"] by (simp add: clist0_def)
  from list_del_clist [of h x xs head "[]"] clist_rehead [OF assms] obtain h1 where
    h1: "list_del h head = Some h1" "clist h1 x xs" by auto
  have "head \<notin> set (x # xs)" using assms by (auto simp: clist_def)
  with list_add_clist [of h1 x xs head] h1(2) obtain h2 where
    h2: "list_add h1 head x = Some h2" "clist h2 x (head # xs)" by (auto simp: clist0_def)
  have "clist h2 head (xs @ [x])" using h2(2) by (rule clist_rehead)
  with h1 h2 e show ?thesis by (simp add: list_rotate_left_def clist_next [OF assms])
qed

lemma list_for_each_from_chain:
  "distinct zs \<Longrightarrow> head \<notin> set zs \<Longrightarrow> chain h (zs @ [head]) \<Longrightarrow>
   list_for_each_from h head (Some ((zs @ [head]) ! 0)) = Some zs"
proof (induction zs)
  case Nil
  then show ?case by (simp add: list_for_each_from.simps list_is_head_def)
next
  case (Cons z zs)
  have "lh_next h z = Some ((zs @ [head]) ! 0)" "chain h (zs @ [head])"
    using Cons.prems(3) by (cases zs; simp)+
  with Cons show ?case
    by (auto simp: list_for_each_from.simps [of h head "Some z"] list_is_head_def)
qed

lemma list_for_each_clist: "clist h head xs \<Longrightarrow> list_for_each h head = Some xs"
proof -
  assume c: "clist h head xs"
  then have "chain h (xs @ [head])" "lh_next h head = Some ((xs @ [head]) ! 0)"
    by (cases xs; simp add: clist_def)+
  with c list_for_each_from_chain [of xs head h] show ?thesis
    by (simp add: list_for_each_def clist_def)
qed

lemma list_for_each_prev_from_chain:
  "head \<notin> set zs \<Longrightarrow> chain h (head # zs) \<Longrightarrow>
   list_for_each_prev_from h head (Some (last (head # zs))) = Some (rev zs)"
proof (induction zs rule: rev_induct)
  case Nil
  then show ?case
    by (simp add: list_for_each_prev_from.simps list_entry_is_head_def list_is_head_def)
next
  case (snoc z zs)
  obtain us a where ua: "head # zs = us @ [a]" by (metis append_butlast_last_id list.distinct(1))
  have "chain h (us @ a # [z])" using snoc.prems(2) ua by (metis append.assoc append_Cons append_Nil)
  then have "chain h (head # zs)" "lh_prev h z = Some (last (head # zs))"
    unfolding ua using chain_append [of h us a "[z]"] by auto
  with snoc show ?case
    by (auto simp: list_for_each_prev_from.simps [of h head "Some z"] list_entry_is_head_def
        list_is_head_def list_prev_entry_def)
qed

lemma list_for_each_entry_prev_clist:
  "clist h head xs \<Longrightarrow> list_for_each_entry_prev h head = Some (rev xs)"
proof -
  assume c: "clist h head xs"
  obtain us a where ua: "head # xs = us @ [a]" by (metis append_butlast_last_id list.distinct(1))
  have "chain h (us @ a # [head])"
    using c ua by (metis append.assoc append_Cons append_Nil clist_def)
  then have "lh_prev h head = Some (last (head # xs))" "chain h (head # xs)"
    unfolding ua using chain_append [of h us a "[head]"] by auto
  with c list_for_each_prev_from_chain [of head xs h] show ?thesis
    by (simp add: list_for_each_entry_prev_def list_last_entry_def clist_def)
qed

section \<open>Frame conditions\<close>

text \<open>The neighbours of a node are nodes of the same list, so the operations change no other node.\<close>

lemma chain_next_in: "chain h zs \<Longrightarrow> z \<in> set (butlast zs) \<Longrightarrow> \<exists>n \<in> set (tl zs). lh_next h z = Some n"
  by (induction h zs rule: chain.induct) (auto split: if_splits)

lemma chain_prev_in: "chain h zs \<Longrightarrow> z \<in> set (tl zs) \<Longrightarrow> \<exists>p \<in> set (butlast zs). lh_prev h z = Some p"
  by (induction h zs rule: chain.induct) auto

lemma clist_next_in: "clist h head xs \<Longrightarrow> z \<in> set (head # xs) \<Longrightarrow> \<exists>n \<in> set (head # xs). lh_next h z = Some n"
  using chain_next_in [of h "head # xs @ [head]" z] by (auto simp: clist_def butlast_append)

lemma clist_prev_in: "clist h head xs \<Longrightarrow> z \<in> set (head # xs) \<Longrightarrow> \<exists>p \<in> set (head # xs). lh_prev h z = Some p"
  using chain_prev_in [of h "head # xs @ [head]" z] by (auto simp: clist_def butlast_append)

lemma list_del_frame:
  assumes "clist h head xs" "x \<in> set xs" "list_del h x = Some h'" "z \<notin> set (head # xs)"
  shows "lh_next h' z = lh_next h z \<and> lh_prev h' z = lh_prev h z"
proof -
  obtain p where p: "lh_prev h x = Some p" "p \<in> set (head # xs)" using clist_prev_in [OF assms(1), of x] assms(2) by auto
  obtain n where n: "lh_next h x = Some n" "n \<in> set (head # xs)" using clist_next_in [OF assms(1), of x] assms(2) by auto
  have "p \<noteq> z" "n \<noteq> z" "x \<noteq> z" using p n assms by auto
  with p n assms(3) show ?thesis by (auto simp: list_del_def Let_def split: if_splits option.splits)
qed

lemma list_add_inner_frame:
  assumes "list_add_inner h new (Some a) (Some b) = Some h'" "z \<noteq> a" "z \<noteq> b" "z \<noteq> new"
  shows "lh_next h' z = lh_next h z \<and> lh_prev h' z = lh_prev h z"
  using assms by (auto simp: Let_def)

lemma list_ensure_init_frame:
  "z \<noteq> head \<Longrightarrow> lh_next (list_ensure_init h head) z = lh_next h z \<and> lh_prev (list_ensure_init h head) z = lh_prev h z"
  by (simp add: list_ensure_init_def INIT_LIST_HEAD_def)

lemma list_add_tail_frame:
  assumes "clist0 h head xs" "list_add_tail h new head = Some h'" "z \<notin> set (new # head # xs)"
  shows "lh_next h' z = lh_next h z \<and> lh_prev h' z = lh_prev h z"
proof -
  let ?h = "list_ensure_init h head"
  obtain p where p: "lh_prev ?h head = Some p" "p \<in> set (head # xs)"
    using clist_prev_in [OF clist_ensure_init [OF assms(1)], of head] by auto
  have "list_add_inner ?h new (Some p) (Some head) = Some h'"
    using assms(2) p(1) by (simp add: list_add_tail_def Let_def)
  from list_add_inner_frame [OF this, of z] list_ensure_init_frame [of z head h] p(2) assms(3) show ?thesis by auto
qed

lemma list_add_frame:
  assumes "clist0 h head xs" "list_add h new head = Some h'" "z \<notin> set (new # head # xs)"
  shows "lh_next h' z = lh_next h z \<and> lh_prev h' z = lh_prev h z"
proof -
  let ?h = "list_ensure_init h head"
  obtain n where n: "lh_next ?h head = Some n" "n \<in> set (head # xs)"
    using clist_next_in [OF clist_ensure_init [OF assms(1)], of head] by auto
  have "list_add_inner ?h new (Some head) (Some n) = Some h'"
    using assms(2) n(1) by (simp add: list_add_def Let_def)
  from list_add_inner_frame [OF this, of z] list_ensure_init_frame [of z head h] n(2) assms(3) show ?thesis by auto
qed

lemma list_add_total: "\<exists>h'. list_add h new head = Some h'"
  by (cases "lh_next h head") (simp_all add: list_add_def list_ensure_init_def INIT_LIST_HEAD_def Let_def)

section \<open>The interface of a queue of embedded nodes\<close>

text \<open>Repeating a partial operation.\<close>

primrec iter_opt :: "nat \<Rightarrow> ('h \<Rightarrow> 'h option) \<Rightarrow> 'h \<Rightarrow> 'h option" where
  "iter_opt 0 f h = Some h"
| "iter_opt (Suc n) f h = Option.bind (f h) (iter_opt n f)"

locale intrusive_queue =
  fixes repr :: "'h \<Rightarrow> 'a list \<Rightarrow> bool"
    and front :: "'h \<Rightarrow> 'a option"
    and enq :: "'h \<Rightarrow> 'a \<Rightarrow> 'h option"
    and remove :: "'h \<Rightarrow> 'a \<Rightarrow> 'h option"
    and rot :: "'h \<Rightarrow> 'h option"
    and node_ok :: "'a \<Rightarrow> bool"
  assumes repr_front: "repr h (x # xs) \<Longrightarrow> front h = Some x"
    and repr_enq: "repr h xs \<Longrightarrow> node_ok x \<Longrightarrow> x \<notin> set xs \<Longrightarrow> \<exists>h'. enq h x = Some h' \<and> repr h' (xs @ [x])"
    and repr_remove: "repr h (ys @ x # zs) \<Longrightarrow> \<exists>h'. remove h x = Some h' \<and> repr h' (ys @ zs)"
    and repr_rot: "repr h (x # xs) \<Longrightarrow> \<exists>h'. rot h = Some h' \<and> repr h' (xs @ [x])"
begin

lemma rot_to_front:
  "repr h (ys @ x # zs) \<Longrightarrow> \<exists>h'. iter_opt (length ys) rot h = Some h' \<and> repr h' (x # zs @ ys)"
proof (induction ys arbitrary: h zs)
  case Nil
  then show ?case by simp
next
  case (Cons y ys)
  from repr_rot [of h y "ys @ x # zs"] Cons.prems obtain h1 where
    h1: "rot h = Some h1" "repr h1 (ys @ x # (zs @ [y]))" by auto
  from Cons.IH [OF h1(2)] h1(1) show ?case by simp
qed

lemma rot_round: "repr h xs \<Longrightarrow> \<exists>h'. iter_opt (length xs) rot h = Some h' \<and> repr h' xs"
proof -
  have "repr h (xs @ ys) \<Longrightarrow> \<exists>h'. iter_opt (length xs) rot h = Some h' \<and> repr h' (ys @ xs)" for ys
  proof (induction xs arbitrary: h ys)
    case Nil
    then show ?case by simp
  next
    case (Cons x xs)
    from repr_rot [of h x "xs @ ys"] Cons.prems obtain h1 where
      h1: "rot h = Some h1" "repr h1 (xs @ (ys @ [x]))" by auto
    from Cons.IH [OF h1(2)] h1(1) show ?case by simp
  qed
  from this [of "[]"] show "repr h xs \<Longrightarrow> ?thesis" by simp
qed

lemma enq_remove_front:
  assumes "repr h (x # xs)" "node_ok y" "y \<notin> set (x # xs)"
  shows "\<exists>h1 h2. enq h y = Some h1 \<and> front h1 = Some x \<and> remove h1 x = Some h2 \<and> repr h2 (xs @ [y])"
proof -
  from repr_enq [OF assms] obtain h1 where h1: "enq h y = Some h1" "repr h1 (x # xs @ [y])" by auto
  from repr_remove [of h1 "[]" x "xs @ [y]"] h1(2) obtain h2 where
    "remove h1 x = Some h2" "repr h2 (xs @ [y])" by auto
  with h1 repr_front [OF h1(2)] show ?thesis by blast
qed

end

interpretation lq: intrusive_queue "\<lambda>h. clist h head" "\<lambda>h. list_first_entry h head"
  "\<lambda>h x. list_add_tail h x head" list_del "\<lambda>h. list_rotate_left h head" "\<lambda>x. x \<noteq> head" for head
proof unfold_locales
  show "clist h head (x # xs) \<Longrightarrow> list_first_entry h head = Some x" for h x xs
    by (simp add: list_first_entry_def clist_next)
  show "clist h head xs \<Longrightarrow> x \<noteq> head \<Longrightarrow> x \<notin> set xs \<Longrightarrow>
      \<exists>h'. list_add_tail h x head = Some h' \<and> clist h' head (xs @ [x])" for h x xs
    by (rule list_add_tail_clist) (auto simp: clist0_def)
  show "clist h head (ys @ x # zs) \<Longrightarrow> \<exists>h'. list_del h x = Some h' \<and> clist h' head (ys @ zs)" for h ys x zs
    using list_del_clist [of h head ys x zs] by blast
  show "clist h head (x # xs) \<Longrightarrow> \<exists>h'. list_rotate_left h head = Some h' \<and> clist h' head (xs @ [x])" for h x xs
    by (rule list_rotate_left_clist)
qed

section \<open>Properties\<close>

text \<open>
  Property C26. The insertion and removal operations of \<open>list.h\<close> implement the operations of a
  sequence on every circular list whose head is initialised or still zero: \<open>list_add\<close> puts a fresh
  node in front, \<open>list_add_tail\<close> at the back, \<open>list_shift\<close> takes the front node (NULL exactly when
  the list is empty), none of them fails, and the result is again a well-formed circular list.
\<close>

theorem list_ops_refine:
  assumes "clist0 h head xs" and "new \<notin> set (head # xs)"
  shows "(\<exists>h'. list_add h new head = Some h' \<and> clist h' head (new # xs)) \<and>
    (\<exists>h'. list_add_tail h new head = Some h' \<and> clist h' head (xs @ [new])) \<and>
    (\<exists>h'. list_shift h head = Some (if xs = [] then None else Some (xs ! 0), h') \<and> clist0 h' head (tl xs))"
  using list_add_clist [OF assms] list_add_tail_clist [OF assms] list_shift_clist0 [OF assms(1)] by blast

theorem list_ops_refine_witness:
  "\<exists>h'. list_add_tail \<lparr>lh_next = (\<lambda>_. None), lh_prev = (\<lambda>_. None)\<rparr> (1::nat) 0 = Some h' \<and> clist h' 0 [1]"
proof -
  have "clist0 \<lparr>lh_next = (\<lambda>_. None), lh_prev = (\<lambda>_. None)\<rparr> (0::nat) []" by (simp add: clist0_def)
  from list_ops_refine [OF this, of 1] show ?thesis by simp
qed

text \<open>
  \<open>list_del\<close> takes a node out of the middle of any circular list, keeps the order of the
  others, and leaves the removed node with both pointers NULL.
\<close>

theorem list_del_refines:
  assumes "clist h head (ys @ x # zs)"
  shows "\<exists>h'. list_del h x = Some h' \<and> clist h' head (ys @ zs) \<and> lh_next h' x = None \<and> lh_prev h' x = None"
  using assms by (rule list_del_clist)

definition ring3 :: "nat lheap" where
  "ring3 = \<lparr>lh_next = (\<lambda>_. None)(0 := Some 1, 1 := Some 2, 2 := Some 0),
            lh_prev = (\<lambda>_. None)(1 := Some 0, 2 := Some 1, 0 := Some 2)\<rparr>"

theorem list_del_refines_witness: "\<exists>h'. list_del ring3 1 = Some h' \<and> clist h' 0 [2]"
proof -
  have "clist ring3 0 ([] @ 1 # [2])" by (simp add: clist_def ring3_def)
  from list_del_refines [OF this] show ?thesis by auto
qed

text \<open>
  \<open>list_rotate_left\<close> is a round robin: as many rotations as there are nodes before a
  node bring it to the front, and a full round of rotations restores the order.
\<close>

theorem list_rotate_left_round_robin:
  assumes "clist h head (ys @ x # zs)"
  shows "(\<exists>h'. iter_opt (length ys) (\<lambda>h. list_rotate_left h head) h = Some h' \<and> clist h' head (x # zs @ ys)) \<and>
    (\<exists>h'. iter_opt (length (ys @ x # zs)) (\<lambda>h. list_rotate_left h head) h = Some h' \<and> clist h' head (ys @ x # zs))"
  using lq.rot_to_front [OF assms] lq.rot_round [OF assms] by blast

theorem list_rotate_left_round_robin_witness:
  "\<exists>h'. iter_opt 1 (\<lambda>h. list_rotate_left h 0) ring3 = Some h' \<and> clist h' 0 [2, 1]"
proof -
  have "clist ring3 0 ([1] @ 2 # [])" by (simp add: clist_def ring3_def)
  from list_rotate_left_round_robin [OF this] show ?thesis by simp
qed

text \<open>
  Property C36. The iteration macros terminate on every circular list and visit its nodes exactly
  once: \<open>list_for_each\<close> in list order and \<open>list_for_each_entry_prev\<close> in reverse order.
\<close>

theorem list_for_each_visits:
  assumes "clist h head xs"
  shows "list_for_each h head = Some xs \<and> list_for_each_entry_prev h head = Some (rev xs)"
  using list_for_each_clist [OF assms] list_for_each_entry_prev_clist [OF assms] by simp

theorem list_for_each_visits_witness: "list_for_each ring3 0 = Some [1, 2]"
proof -
  have "clist ring3 0 [1, 2]" by (simp add: clist_def ring3_def)
  from list_for_each_visits [OF this] show ?thesis by simp
qed

end
