(* ===== verification/C_Base.thy ===== *)
theory C_Base
  imports Munix_Prelude
begin

text \<open>
  The header-level vocabulary of the kernel: error numbers (\<open>core/errno.h\<close>) and their names
  (\<open>core/string_strerror.c\<close>), character classes (\<open>core/ctype.h\<close>), the arithmetic macros
  (\<open>core/macros.h\<close>) and device numbers (\<open>core/types.h\<close>).

  A C function that reports failure returns the negated error number; \<open>err e\<close> is that value.
  The alignment macros work on 32-bit machine words and wrap around as the C code does.
\<close>

unbundle bit_operations_syntax

section \<open>Error numbers\<close>

datatype errno =
    EDOM | EILSEQ | ERANGE
  | EFAULT | ENOMEM | EOVERFLOW
  | ENOSYS | ENOTSUP
  | EINVAL | E2BIG | EPERM | EBUSY | EDEADLK | EINTR
  | EAGAIN
  | ECHILD | ESRCH
  | EIO | ENOBUFS
  | EBADF | EMFILE | ENFILE
  | ENODEV
  | EISDIR | ENOENT | ENOTDIR
  | ENOEXEC
  | ENOTTY

fun errno_code :: "errno \<Rightarrow> int" where
  "errno_code EDOM = 1"
| "errno_code EILSEQ = 2"
| "errno_code ERANGE = 3"
| "errno_code EFAULT = 4"
| "errno_code ENOMEM = 5"
| "errno_code EOVERFLOW = 6"
| "errno_code ENOSYS = 7"
| "errno_code ENOTSUP = 8"
| "errno_code EINVAL = 9"
| "errno_code E2BIG = 10"
| "errno_code EPERM = 11"
| "errno_code EBUSY = 12"
| "errno_code EDEADLK = 13"
| "errno_code EINTR = 14"
| "errno_code EAGAIN = 15"
| "errno_code ECHILD = 18"
| "errno_code ESRCH = 19"
| "errno_code EIO = 20"
| "errno_code ENOBUFS = 21"
| "errno_code EBADF = 23"
| "errno_code EMFILE = 24"
| "errno_code ENFILE = 25"
| "errno_code ENODEV = 26"
| "errno_code EISDIR = 31"
| "errno_code ENOENT = 33"
| "errno_code ENOTDIR = 35"
| "errno_code ENOEXEC = 41"
| "errno_code ENOTTY = 45"

abbreviation err :: "errno \<Rightarrow> int" where "err e \<equiv> - errno_code e"

text \<open>\<open>known_constant\<close>: the switch from a number to the constant's name; NULL is \<^const>\<open>None\<close>.\<close>

definition known_constant :: "int \<Rightarrow> string option" where
  "known_constant errnum =
    (if errnum = errno_code EDOM then Some ''EDOM''
     else if errnum = errno_code EILSEQ then Some ''EILSEQ''
     else if errnum = errno_code ERANGE then Some ''ERANGE''
     else if errnum = errno_code EFAULT then Some ''EFAULT''
     else if errnum = errno_code ENOMEM then Some ''ENOMEM''
     else if errnum = errno_code EOVERFLOW then Some ''EOVERFLOW''
     else if errnum = errno_code ENOSYS then Some ''ENOSYS''
     else if errnum = errno_code ENOTSUP then Some ''ENOTSUP''
     else if errnum = errno_code EINVAL then Some ''EINVAL''
     else if errnum = errno_code E2BIG then Some ''E2BIG''
     else if errnum = errno_code EPERM then Some ''EPERM''
     else if errnum = errno_code EBUSY then Some ''EBUSY''
     else if errnum = errno_code EDEADLK then Some ''EDEADLK''
     else if errnum = errno_code EINTR then Some ''EINTR''
     else if errnum = errno_code EAGAIN then Some ''EAGAIN''
     else if errnum = errno_code ECHILD then Some ''ECHILD''
     else if errnum = errno_code ESRCH then Some ''ESRCH''
     else if errnum = errno_code EIO then Some ''EIO''
     else if errnum = errno_code ENOBUFS then Some ''ENOBUFS''
     else if errnum = errno_code EBADF then Some ''EBADF''
     else if errnum = errno_code EMFILE then Some ''EMFILE''
     else if errnum = errno_code ENFILE then Some ''ENFILE''
     else if errnum = errno_code ENODEV then Some ''ENODEV''
     else if errnum = errno_code EISDIR then Some ''EISDIR''
     else if errnum = errno_code ENOENT then Some ''ENOENT''
     else if errnum = errno_code ENOTDIR then Some ''ENOTDIR''
     else if errnum = errno_code ENOEXEC then Some ''ENOEXEC''
     else if errnum = errno_code ENOTTY then Some ''ENOTTY''
     else None)"

section \<open>Character classes\<close>

text \<open>The \<open>ctype\<close> functions take an \<open>int\<close>; a plain \<open>char\<close> argument is passed as its
  signed value.\<close>

definition isdigit :: "int \<Rightarrow> bool" where
  "isdigit c \<longleftrightarrow> 48 \<le> c \<and> c \<le> 57"

definition islower :: "int \<Rightarrow> bool" where
  "islower c \<longleftrightarrow> 97 \<le> c \<and> c \<le> 122"

definition isupper :: "int \<Rightarrow> bool" where
  "isupper c \<longleftrightarrow> 65 \<le> c \<and> c \<le> 90"

definition isalpha :: "int \<Rightarrow> bool" where
  "isalpha c \<longleftrightarrow> isupper c \<or> islower c"

definition isalnum :: "int \<Rightarrow> bool" where
  "isalnum c \<longleftrightarrow> isdigit c \<or> isalpha c"

definition isprint :: "int \<Rightarrow> bool" where
  "isprint c \<longleftrightarrow> 0x20 \<le> c \<and> c \<le> 0x7e"

definition isgraph :: "int \<Rightarrow> bool" where
  "isgraph c \<longleftrightarrow> 0x21 \<le> c \<and> c \<le> 0x7e"

definition ispunct :: "int \<Rightarrow> bool" where
  "ispunct c \<longleftrightarrow> isgraph c \<and> \<not> isalnum c"

definition iscntrl :: "int \<Rightarrow> bool" where
  "iscntrl c \<longleftrightarrow> \<not> isprint c"

definition isspace :: "int \<Rightarrow> bool" where
  "isspace c \<longleftrightarrow> c = 32 \<or> c = 9 \<or> c = 10 \<or> c = 13 \<or> c = 12 \<or> c = 11"

definition isxdigit :: "int \<Rightarrow> bool" where
  "isxdigit c \<longleftrightarrow> (48 \<le> c \<and> c \<le> 57) \<or> (65 \<le> c \<and> c \<le> 70) \<or> (97 \<le> c \<and> c \<le> 102)"

definition tolower :: "int \<Rightarrow> int" where
  "tolower c = (if isupper c then c - 65 + 97 else c)"

definition toupper :: "int \<Rightarrow> int" where
  "toupper c = (if islower c then c - 97 + 65 else c)"

lemmas ctype_defs = isdigit_def islower_def isupper_def isalpha_def isalnum_def isprint_def
  isgraph_def ispunct_def iscntrl_def isspace_def isxdigit_def tolower_def toupper_def

section \<open>Arithmetic macros\<close>

definition FLAGS_ALL :: "u32 \<Rightarrow> u32 \<Rightarrow> bool" where
  "FLAGS_ALL val flags \<longleftrightarrow> val AND flags = flags"

definition FLAGS_NONE :: "u32 \<Rightarrow> u32 \<Rightarrow> bool" where
  "FLAGS_NONE val flags \<longleftrightarrow> \<not> (val AND flags \<noteq> 0)"

definition IS_ALIGNED :: "u32 \<Rightarrow> u32 \<Rightarrow> bool" where
  "IS_ALIGNED x a \<longleftrightarrow> \<not> (x AND (a - 1) \<noteq> 0)"

definition ALIGN_DOWN :: "u32 \<Rightarrow> u32 \<Rightarrow> u32" where
  "ALIGN_DOWN x a = x AND NOT (a - 1)"

definition ALIGN_UP :: "u32 \<Rightarrow> u32 \<Rightarrow> u32" where
  "ALIGN_UP x a = (x + (a - 1)) AND NOT (a - 1)"

definition BUFREM :: "nat \<Rightarrow> nat \<Rightarrow> nat" where
  "BUFREM pos end' = (if pos < end' then end' - pos else 0)"

section \<open>Device numbers\<close>

definition MAKEDEV :: "u32 \<Rightarrow> u32 \<Rightarrow> u32" where
  "MAKEDEV maj mnr = push_bit 8 maj OR mnr"

definition MAJOR :: "u32 \<Rightarrow> u32" where
  "MAJOR dev = drop_bit 8 dev"

definition MINOR :: "u32 \<Rightarrow> u32" where
  "MINOR dev = dev AND 0xff"

section \<open>Facts\<close>

lemma errno_code_inj: "errno_code a = errno_code b \<longleftrightarrow> a = b"
  by (cases a; cases b; simp)

lemma errno_code_pos: "0 < errno_code e"
  by (cases e) simp_all

lemma err_neg [simp]: "err e < 0"
  using errno_code_pos [of e] by simp

lemma toupper_tolower: "isalpha c \<Longrightarrow> toupper (tolower c) = toupper c"
  by (auto simp: ctype_defs)

text \<open>The low \<open>k\<close> bits are cleared by masking with the complement of \<open>2^k - 1\<close>.\<close>

lemma unat_exp: "k < 32 \<Longrightarrow> unat (2 ^ k :: u32) = 2 ^ k"
proof -
  assume "k < 32"
  then have "(2 :: nat) ^ k < 2 ^ 32" by (rule power_strict_increasing) simp
  then have "unat (of_nat (2 ^ k) :: u32) = 2 ^ k" by (simp only: unat_of_nat) simp
  then show ?thesis by simp
qed

lemma and_not_mask_unat:
  fixes x :: u32
  assumes "k < 32"
  shows "unat (x AND NOT (2 ^ k - 1)) = unat x div 2 ^ k * 2 ^ k"
proof -
  have eq: "x AND NOT (2 ^ k - 1) = push_bit k (drop_bit k x)"
    by (rule bit_eqI) (auto simp: bit_simps simp flip: mask_eq_exp_minus_1)
  have "unat x div 2 ^ k * 2 ^ k \<le> unat x" by simp
  also have "unat x < 2 ^ 32" using unsigned_less [of x] by simp
  finally have small: "unat x div 2 ^ k * 2 ^ k < 2 ^ 32" .
  have "unat (push_bit k (drop_bit k x)) = (unat x div 2 ^ k * 2 ^ k) mod 2 ^ 32"
    using assms by (simp add: push_bit_eq_mult unat_word_ariths unat_drop_bit_eq drop_bit_eq_div
        unat_exp mult.commute mod_mult_right_eq del: unat_div)
  with eq small show ?thesis by simp
qed

lemma unat_ALIGN_DOWN: "k < 32 \<Longrightarrow> unat (ALIGN_DOWN x (2 ^ k)) = unat x div 2 ^ k * 2 ^ k"
  by (simp add: ALIGN_DOWN_def and_not_mask_unat)

lemma unat_exp_minus_1: "k < 32 \<Longrightarrow> unat (2 ^ k - 1 :: u32) = 2 ^ k - 1"
  using unat_exp [of k] by (subst unat_minus_one) auto

lemma take_bit_u32_self: "unat (x :: u32) < 2 ^ k \<Longrightarrow> take_bit k x = x"
  by (simp add: word_unat_eq_iff unsigned_take_bit_eq take_bit_nat_eq_self)

lemma unat_ALIGN_UP:
  assumes "k < 32" "unat x + (2 ^ k - 1) < 2 ^ 32"
  shows "unat (ALIGN_UP x (2 ^ k)) = (unat x + (2 ^ k - 1)) div 2 ^ k * 2 ^ k"
proof -
  have "unat (x + (2 ^ k - 1)) = unat x + (2 ^ k - 1)"
    using assms by (simp add: unat_word_ariths unat_exp_minus_1)
  then show ?thesis using assms(1) by (simp add: ALIGN_UP_def and_not_mask_unat)
qed

text \<open>The smallest multiple of \<open>b\<close> that is not below \<open>n\<close>.\<close>

lemma round_up_least:
  fixes n b :: nat
  assumes "0 < b"
  shows "n \<le> (n + (b - 1)) div b * b" and "(n + (b - 1)) div b * b < n + b"
    and "b dvd m \<Longrightarrow> n \<le> m \<Longrightarrow> (n + (b - 1)) div b * b \<le> m"
proof -
  let ?q = "(n + (b - 1)) div b"
  have split: "?q * b + (n + (b - 1)) mod b = n + (b - 1)" by simp
  have "(n + (b - 1)) mod b < b" using assms by simp
  with split show "n \<le> ?q * b" by linarith
  from split assms show "?q * b < n + b" by linarith
  assume "b dvd m" "n \<le> m"
  then obtain j where j: "m = j * b" by (auto simp: dvd_def mult.commute)
  have "n + (b - 1) < Suc j * b" using j \<open>n \<le> m\<close> assms by simp
  then have "?q \<le> j" using less_mult_imp_div_less less_Suc_eq_le by blast
  then show "?q * b \<le> m" unfolding j by (rule mult_right_mono) simp
qed

text \<open>
  \<open>ALIGN_UP\<close> with a power-of-two alignment rounds up to the next multiple: unless
  the addition overflows 32 bits, the result is a multiple of the alignment, is not below the
  argument, and is the smallest such multiple.
\<close>

theorem ALIGN_UP_least_multiple:
  assumes "k < 32" and "unat x + (2 ^ k - 1) < 2 ^ 32"
  shows "2 ^ k dvd unat (ALIGN_UP x (2 ^ k)) \<and> unat x \<le> unat (ALIGN_UP x (2 ^ k)) \<and>
    (\<forall>m. 2 ^ k dvd m \<and> unat x \<le> m \<longrightarrow> unat (ALIGN_UP x (2 ^ k)) \<le> m)"
proof -
  have pos: "0 < (2 ^ k :: nat)" by simp
  show ?thesis
    unfolding unat_ALIGN_UP [OF assms]
    using round_up_least(1) [OF pos, of "unat x"] round_up_least(3) [OF pos, of _ "unat x"]
    by (intro conjI allI impI) simp_all
qed

theorem ALIGN_UP_least_multiple_witness:
  "unat (0x4321 :: u32) \<le> unat (ALIGN_UP 0x4321 (2 ^ 12)) \<and> ALIGN_UP 0x4321 (2 ^ 12) = 0x5000"
  using ALIGN_UP_least_multiple [of 12 "0x4321"] by (simp add: ALIGN_UP_def)

text \<open>
  Device numbers round trip: splitting a number made by \<open>MAKEDEV\<close> gives back the
  major and minor numbers, provided the minor number fits in its eight bits and the major number
  in the remaining twenty-four.
\<close>

theorem MAKEDEV_roundtrip:
  assumes "unat mnr < 2 ^ 8" and "unat maj < 2 ^ 24"
  shows "MAJOR (MAKEDEV maj mnr) = maj \<and> MINOR (MAKEDEV maj mnr) = mnr"
proof -
  have mnr: "take_bit 8 mnr = mnr"
    using assms(1) by (rule take_bit_u32_self)
  have maj: "take_bit 24 maj = maj"
    using assms(2) by (rule take_bit_u32_self)
  have bm: "bit mnr n \<Longrightarrow> n < 8" for n using mnr by (metis bit_take_bit_iff)
  have bj: "bit maj n \<Longrightarrow> n < 24" for n using maj by (metis bit_take_bit_iff)
  have ff: "(0xff :: u32) = mask 8" by (simp add: mask_eq_exp_minus_1)
  have "MAJOR (MAKEDEV maj mnr) = maj"
    unfolding MAJOR_def MAKEDEV_def
    by (rule bit_eqI) (auto simp: bit_simps dest: bm bj)
  moreover have "MINOR (MAKEDEV maj mnr) = mnr"
    unfolding MINOR_def MAKEDEV_def ff
    by (rule bit_eqI) (auto simp: bit_simps dest: bm)
  ultimately show ?thesis ..
qed

theorem MAKEDEV_roundtrip_witness: "MAJOR (MAKEDEV 3 1) = 3 \<and> MINOR (MAKEDEV 3 1) = 1"
  using MAKEDEV_roundtrip [of 1 3] by simp

text \<open>
  Every error constant of \<open>errno.h\<close> has a name in \<open>known_constant\<close>, and no other
  number has one: a number is named exactly when it is the code of some constant.
\<close>

theorem known_constant_complete:
  "(known_constant n \<noteq> None) = (\<exists>e. errno_code e = n)"
proof
  assume "\<exists>e. errno_code e = n"
  then obtain e where "errno_code e = n" ..
  then show "known_constant n \<noteq> None" by (cases e) (auto simp: known_constant_def)
next
  assume "known_constant n \<noteq> None"
  then show "\<exists>e. errno_code e = n"
    unfolding known_constant_def by (auto split: if_splits simp del: errno_code.simps)
qed

end
