(* ===== verification/C_String.thy ===== *)
theory C_String
  imports C_Base
begin

text \<open>
  The string library \<open>core/string.c\<close> and \<open>atoi\<close> of \<open>core/stdlib.c\<close>.

  The functions work on a byte memory and addresses; a function that returns its destination
  pointer is modelled by the memory it leaves. A loop that stops only at a NUL byte is partial
  (\<^const>\<open>None\<close> when it never meets one). The facts relate each function to an operation on the
  character lists that \<^const>\<open>cstr\<close> finds in memory; \<open>strcmp_s\<close>, \<open>strncmp_s\<close> and \<open>strstr_s\<close> are
  those list-level operations, which the path, file-system and shell models use.
\<close>

section \<open>Memory blocks\<close>

fun memcpy :: "mem \<Rightarrow> nat \<Rightarrow> nat \<Rightarrow> nat \<Rightarrow> mem" where
  "memcpy m dest src 0 = m"
| "memcpy m dest src (Suc count) = memcpy (m(dest := m src)) (Suc dest) (Suc src) count"

text \<open>The two loops of \<open>memmove\<close>: low to high, and high to low from the end pointers.\<close>

fun copy_up :: "mem \<Rightarrow> nat \<Rightarrow> nat \<Rightarrow> nat \<Rightarrow> mem" where
  "copy_up m d s 0 = m"
| "copy_up m d s (Suc n) = copy_up (m(d := m s)) (Suc d) (Suc s) n"

fun copy_down :: "mem \<Rightarrow> nat \<Rightarrow> nat \<Rightarrow> nat \<Rightarrow> mem" where
  "copy_down m d s 0 = m"
| "copy_down m d s (Suc n) = copy_down (m(d - 1 := m (s - 1))) (d - 1) (s - 1) n"

definition memmove :: "mem \<Rightarrow> nat \<Rightarrow> nat \<Rightarrow> nat \<Rightarrow> mem" where
  "memmove m dest src n =
    (if n = 0 \<or> src = dest then m
     else if src > dest then copy_up m dest src n
     else copy_down m (dest + n) (src + n) n)"

fun memset :: "mem \<Rightarrow> nat \<Rightarrow> int \<Rightarrow> nat \<Rightarrow> mem" where
  "memset m s c 0 = m"
| "memset m s c (Suc n) = memset (m(s := to_char c)) (Suc s) c n"

fun memcmp :: "mem \<Rightarrow> nat \<Rightarrow> nat \<Rightarrow> nat \<Rightarrow> int" where
  "memcmp m b1 b2 0 = 0"
| "memcmp m b1 b2 (Suc n) =
    (if uchar (m b1) < uchar (m b2) then - 1
     else if uchar (m b1) > uchar (m b2) then 1
     else memcmp m (Suc b1) (Suc b2) n)"

section \<open>Copying and concatenating strings\<close>

partial_function (option) strcpy :: "mem \<Rightarrow> nat \<Rightarrow> nat \<Rightarrow> mem option" where
  "strcpy m dest src =
    (let copiedchar = m src; m' = m(dest := copiedchar)
     in if copiedchar = NUL then Some m' else strcpy m' (Suc dest) (Suc src))"

text \<open>Both filling loops of \<open>strncpy\<close> write zeroes; the second finds nothing left to do.\<close>

fun strncpy :: "mem \<Rightarrow> nat \<Rightarrow> nat \<Rightarrow> nat \<Rightarrow> mem" where
  "strncpy m dest src 0 = m"
| "strncpy m dest src (Suc n) =
    (if m src \<noteq> NUL then strncpy (m(dest := m src)) (Suc dest) (Suc src) n
     else memset m dest 0 (Suc n))"

partial_function (option) find_end :: "mem \<Rightarrow> nat \<Rightarrow> nat option" where
  "find_end m dest = (if m dest \<noteq> NUL then find_end m (Suc dest) else Some dest)"

partial_function (option) cat_copy :: "mem \<Rightarrow> nat \<Rightarrow> nat \<Rightarrow> mem option" where
  "cat_copy m dest src =
    (if m src \<noteq> NUL then cat_copy (m(dest := m src)) (Suc dest) (Suc src)
     else Some (m(dest := NUL)))"

definition strcat :: "mem \<Rightarrow> nat \<Rightarrow> nat \<Rightarrow> mem option" where
  "strcat m dest src = Option.bind (find_end m dest) (\<lambda>d. cat_copy m d src)"

fun ncat_copy :: "mem \<Rightarrow> nat \<Rightarrow> nat \<Rightarrow> nat \<Rightarrow> mem" where
  "ncat_copy m dest src 0 = m(dest := NUL)"
| "ncat_copy m dest src (Suc n) =
    (if m src \<noteq> NUL then ncat_copy (m(dest := m src)) (Suc dest) (Suc src) n
     else m(dest := NUL))"

definition strncat :: "mem \<Rightarrow> nat \<Rightarrow> nat \<Rightarrow> nat \<Rightarrow> mem option" where
  "strncat m dest src n = Option.bind (find_end m dest) (\<lambda>d. Some (ncat_copy m d src n))"

section \<open>Comparing and searching\<close>

partial_function (option) strcmp :: "mem \<Rightarrow> nat \<Rightarrow> nat \<Rightarrow> int option" where
  "strcmp m s t =
    (if m s \<noteq> NUL \<and> m t \<noteq> NUL \<and> m s = m t then strcmp m (Suc s) (Suc t)
     else if schar (m s) < schar (m t) then Some (- 1)
     else if m s = m t then Some 0
     else Some 1)"

fun strncmp :: "mem \<Rightarrow> nat \<Rightarrow> nat \<Rightarrow> nat \<Rightarrow> int" where
  "strncmp m s t 0 = 0"
| "strncmp m s t (Suc n) =
    (if m s \<noteq> NUL \<and> m t \<noteq> NUL \<and> m s = m t then strncmp m (Suc s) (Suc t) n
     else if schar (m s) < schar (m t) then - 1
     else if m s = m t then 0
     else 1)"

partial_function (option) strlen_from :: "mem \<Rightarrow> nat \<Rightarrow> nat \<Rightarrow> nat option" where
  "strlen_from m s n = (if m s \<noteq> NUL then strlen_from m (Suc s) (Suc n) else Some n)"

definition strlen :: "mem \<Rightarrow> nat \<Rightarrow> nat option" where
  "strlen m s = strlen_from m s 0"

text \<open>The result of a search is an address, or NULL (the inner \<^const>\<open>None\<close>).\<close>

partial_function (option) strchr :: "mem \<Rightarrow> nat \<Rightarrow> int \<Rightarrow> nat option option" where
  "strchr m str ch =
    (if m str = to_char ch then Some (Some str)
     else if m str = NUL then Some None
     else strchr m (Suc str) ch)"

partial_function (option) strstr_from :: "mem \<Rightarrow> nat \<Rightarrow> nat \<Rightarrow> nat \<Rightarrow> nat option option" where
  "strstr_from m str substr substrlen =
    (if m str = NUL then Some None
     else if strncmp m str substr substrlen = 0 then Some (Some str)
     else strstr_from m (Suc str) substr substrlen)"

definition strstr :: "mem \<Rightarrow> nat \<Rightarrow> nat \<Rightarrow> nat option option" where
  "strstr m str substr = Option.bind (strlen m substr) (strstr_from m str substr)"

section \<open>List-level string operations\<close>

definition ch0 :: "string \<Rightarrow> char" where
  "ch0 s = (case s of [] \<Rightarrow> NUL | c # _ \<Rightarrow> c)"

fun strcmp_s :: "string \<Rightarrow> string \<Rightarrow> int" where
  "strcmp_s (a # s) (b # t) =
    (if a = b then strcmp_s s t else if schar a < schar b then - 1 else 1)"
| "strcmp_s s t = (if schar (ch0 s) < schar (ch0 t) then - 1 else if ch0 s = ch0 t then 0 else 1)"

fun strncmp_s :: "string \<Rightarrow> string \<Rightarrow> nat \<Rightarrow> int" where
  "strncmp_s s t 0 = 0"
| "strncmp_s (a # s) (b # t) (Suc n) =
    (if a = b then strncmp_s s t n else if schar a < schar b then - 1 else 1)"
| "strncmp_s s t (Suc n) = (if schar (ch0 s) < schar (ch0 t) then - 1 else if ch0 s = ch0 t then 0 else 1)"

text \<open>\<open>strstr_s\<close>: the offset of the match. The loop does not try the empty suffix.\<close>

fun strstr_s :: "string \<Rightarrow> string \<Rightarrow> nat option" where
  "strstr_s [] sub = None"
| "strstr_s (c # s) sub =
    (if strncmp_s (c # s) sub (length sub) = 0 then Some 0 else map_option Suc (strstr_s s sub))"

section \<open>atoi\<close>

fun skip_spaces :: "string \<Rightarrow> string" where
  "skip_spaces [] = []"
| "skip_spaces (c # a) = (if c = CHR '' '' then skip_spaces a else c # a)"

fun atoi_digits :: "u32 \<Rightarrow> u32 \<Rightarrow> string \<Rightarrow> u32" where
  "atoi_digits base i [] = i"
| "atoi_digits base i (c # a) =
    (if isxdigit (schar c) then
       (let i1 = (if 48 \<le> schar c \<and> schar c \<le> 57 then i * base + of_int (schar c - 48) else i);
            i2 = (if 97 \<le> schar c \<and> schar c \<le> 102 then i1 * base + of_int (schar c - 97 + 0xa) else i1);
            i3 = (if 65 \<le> schar c \<and> schar c \<le> 70 then i2 * base + of_int (schar c - 65 + 0xa) else i2)
        in atoi_digits base i3 a)
     else i)"

definition atoi :: "string \<Rightarrow> int" where
  "atoi a =
    (let a1 = skip_spaces a
     in case a1 of
          z # x # rest \<Rightarrow>
            (if z = CHR ''0'' \<and> (x = CHR ''x'' \<or> x = CHR ''X'') then sint (atoi_digits 16 0 rest)
             else sint (atoi_digits 10 0 a1))
        | _ \<Rightarrow> sint (atoi_digits 10 0 a1))"

section \<open>Facts about memory blocks\<close>

lemma copy_up_eq: "dest \<le> src \<or> src + n \<le> dest \<Longrightarrow> copy_up m dest src n = mem_write m dest (mem_read m src n)"
proof (induction n arbitrary: m dest src)
  case 0
  then show ?case by simp
next
  case (Suc n)
  have rd: "mem_read (m(dest := m src)) (Suc src) n = mem_read m (Suc src) n"
    by (rule mem_read_cong) (use Suc.prems in auto)
  have "copy_up m dest src (Suc n) = copy_up (m(dest := m src)) (Suc dest) (Suc src) n" by simp
  also have "\<dots> = mem_write (m(dest := m src)) (Suc dest) (mem_read (m(dest := m src)) (Suc src) n)"
    by (rule Suc.IH) (use Suc.prems in auto)
  finally show ?case by (simp add: rd mem_read_Suc mem_write_Cons)
qed

lemma memcpy_copy_up: "memcpy m dest src n = copy_up m dest src n"
  by (induction n arbitrary: m dest src) auto

lemma mem_read_snoc: "mem_read m a (Suc n) = mem_read m a n @ [m (a + n)]"
  by (simp add: mem_read_def)

lemma copy_down_eq: "src \<le> dest \<Longrightarrow> copy_down m (dest + n) (src + n) n = mem_write m dest (mem_read m src n)"
proof (induction n arbitrary: m)
  case 0
  then show ?case by simp
next
  case (Suc n)
  let ?m = "m(dest + n := m (src + n))"
  have rd: "mem_read ?m src n = mem_read m src n"
    by (rule mem_read_cong) (use Suc.prems in auto)
  have "copy_down m (dest + Suc n) (src + Suc n) (Suc n) = copy_down ?m (dest + n) (src + n) n" by simp
  also have "\<dots> = mem_write ?m dest (mem_read m src n)" using Suc by (simp add: rd)
  also have "\<dots> = (mem_write m dest (mem_read m src n))(dest + n := m (src + n))"
    by (rule ext) (auto simp: mem_write_def)
  finally show ?case by (simp add: mem_read_snoc mem_write_snoc)
qed

lemma memset_eq: "memset m s c n = mem_write m s (replicate n (to_char c))"
  by (induction n arbitrary: m s) (auto simp: mem_write_Cons)

lemma memcmp_0_iff: "memcmp m a b n = 0 \<longleftrightarrow> mem_read m a n = mem_read m b n"
proof (induction m a b n rule: memcmp.induct)
  case (2 m b1 b2 n)
  then show ?case using uchar_inj [of "m b1" "m b2"] by (auto simp: mem_read_Suc)
qed simp

section \<open>Facts about strings in memory\<close>

lemma strlen_from_cstr: "cstr m a s \<Longrightarrow> strlen_from m a n = Some (n + length s)"
proof (induction s arbitrary: a n)
  case Nil
  then show ?case by (simp add: strlen_from.simps)
next
  case (Cons c s)
  then show ?case by (simp add: strlen_from.simps [of m a])
qed

lemma strlen_cstr: "cstr m a s \<Longrightarrow> strlen m a = Some (length s)"
  by (simp add: strlen_def strlen_from_cstr)

lemma cstr_upd_disjoint: "x < a \<or> a + length s < x \<Longrightarrow> cstr (m(x := v)) a s = cstr m a s"
  using cstr_write_disjoint [of a s x "[v]" m] by (auto simp: mem_write_Cons)

lemma strcpy_unfold:
  "strcpy m dest src =
    (if m src = NUL then Some (m(dest := NUL)) else strcpy (m(dest := m src)) (Suc dest) (Suc src))"
  by (subst strcpy.simps) (simp add: Let_def)

lemma cat_copy_unfold:
  "cat_copy m dest src =
    (if m src \<noteq> NUL then cat_copy (m(dest := m src)) (Suc dest) (Suc src) else Some (m(dest := NUL)))"
  by (subst cat_copy.simps) simp

lemma to_char_0 [simp]: "to_char 0 = NUL"
  using to_char_schar [of NUL] by simp

lemma strcpy_cstr:
  "cstr m src s \<Longrightarrow> dest + length s < src \<or> src + length s < dest \<Longrightarrow>
   strcpy m dest src = Some (mem_write m dest (s @ [NUL]))"
proof (induction s arbitrary: m dest src)
  case Nil
  then show ?case by (simp add: strcpy_unfold mem_write_Cons)
next
  case (Cons c s)
  then have "cstr (m(dest := c)) (Suc src) s"
    and "Suc dest + length s < Suc src \<or> Suc src + length s < Suc dest"
    by (auto simp: cstr_upd_disjoint)
  from Cons.IH [OF this] Cons.prems show ?case
    by (simp add: strcpy_unfold [of m dest src] mem_write_Cons)
qed

lemma strncpy_cstr:
  "cstr m src s \<Longrightarrow> dest + n \<le> src \<or> src + length s < dest \<Longrightarrow>
   strncpy m dest src n = mem_write m dest (take n (s @ replicate n NUL))"
proof (induction s arbitrary: m dest src n)
  case Nil
  then show ?case by (cases n) (simp_all add: memset_eq mem_write_Cons)
next
  case (Cons c s)
  show ?case
  proof (cases n)
    case (Suc k)
    with Cons.prems have "cstr (m(dest := c)) (Suc src) s"
      and "Suc dest + k \<le> Suc src \<or> Suc src + length s < Suc dest" by (auto simp: cstr_upd_disjoint)
    from Cons.IH [OF this] Cons.prems Suc
    have "strncpy m dest src n = mem_write m dest (c # take k (s @ replicate k NUL))"
      by (simp add: mem_write_Cons)
    moreover have "take k (s @ replicate k NUL) = take k (s @ replicate (Suc k) NUL)"
      by (simp add: take_replicate del: replicate_Suc)
    ultimately show ?thesis using Suc by simp
  qed simp
qed

lemma find_end_cstr: "cstr m a s \<Longrightarrow> find_end m a = Some (a + length s)"
proof (induction s arbitrary: a)
  case Nil
  then show ?case by (simp add: find_end.simps)
next
  case (Cons c s)
  then show ?case by (simp add: find_end.simps [of m a])
qed

lemma cat_copy_cstr:
  "cstr m src s \<Longrightarrow> dest + length s < src \<or> src + length s < dest \<Longrightarrow>
   cat_copy m dest src = Some (mem_write m dest (s @ [NUL]))"
proof (induction s arbitrary: m dest src)
  case Nil
  then show ?case by (simp add: cat_copy_unfold mem_write_Cons)
next
  case (Cons c s)
  then have "cstr (m(dest := c)) (Suc src) s"
    and "Suc dest + length s < Suc src \<or> Suc src + length s < Suc dest"
    by (auto simp: cstr_upd_disjoint)
  from Cons.IH [OF this] Cons.prems show ?case
    by (simp add: cat_copy_unfold [of m dest src] mem_write_Cons)
qed

lemma ncat_copy_cstr:
  "cstr m src s \<Longrightarrow> dest + min n (length s) < src \<or> src + length s < dest \<Longrightarrow>
   ncat_copy m dest src n = mem_write m dest (take n s @ [NUL])"
proof (induction s arbitrary: m dest src n)
  case Nil
  then show ?case by (cases n) (simp_all add: mem_write_Cons)
next
  case (Cons c s)
  show ?case
  proof (cases n)
    case (Suc k)
    with Cons.prems have "cstr (m(dest := c)) (Suc src) s"
      and "Suc dest + min k (length s) < Suc src \<or> Suc src + length s < Suc dest"
      by (auto simp: cstr_upd_disjoint)
    from Cons.IH [OF this] Cons.prems Suc show ?thesis by (simp add: mem_write_Cons)
  qed (simp add: mem_write_Cons)
qed

lemma cstr_append_write:
  assumes "cstr m a s" "NUL \<notin> set t"
  shows "cstr (mem_write m (a + length s) (t @ [NUL])) a (s @ t)"
proof -
  have "mem_read (mem_write m (a + length s) (t @ [NUL])) a (Suc (length (s @ t))) = s @ t @ [NUL]"
  proof (rule nth_equalityI)
    fix i assume i: "i < length (mem_read (mem_write m (a + length s) (t @ [NUL])) a (Suc (length (s @ t))))"
    show "mem_read (mem_write m (a + length s) (t @ [NUL])) a (Suc (length (s @ t))) ! i = (s @ t @ [NUL]) ! i"
      using i cstr_nth [OF assms(1), of i] by (auto simp: mem_write_def nth_append)
  qed simp
  moreover have "NUL \<notin> set s" using assms(1) by (rule cstr_notin)
  ultimately show ?thesis using assms(2) by (simp add: cstr_iff)
qed

lemma strcmp_cstr: "cstr m s a \<Longrightarrow> cstr m t b \<Longrightarrow> strcmp m s t = Some (strcmp_s a b)"
proof (induction a b arbitrary: s t rule: strcmp_s.induct [case_names both nil1 nil2])
  case (both a s' b t')
  then show ?case by (auto simp: strcmp.simps [of m s t])
next
  case (nil1 t')
  then show ?case by (cases t') (auto simp: strcmp.simps [of m s t] ch0_def)
next
  case (nil2 s')
  then show ?case by (cases s') (auto simp: strcmp.simps [of m s t] ch0_def)
qed

lemma strncmp_cstr: "cstr m s a \<Longrightarrow> cstr m t b \<Longrightarrow> strncmp m s t n = strncmp_s a b n"
proof (induction a b n arbitrary: s t rule: strncmp_s.induct [case_names zero both nil1 nil2])
  case (both a s' b t' n)
  then show ?case by auto
next
  case (nil1 t' n)
  then show ?case by (cases t') (auto simp: ch0_def)
next
  case (nil2 s' n)
  then show ?case by (cases s') (auto simp: ch0_def)
qed simp

lemma strcmp_s_0_iff: "NUL \<notin> set a \<Longrightarrow> NUL \<notin> set b \<Longrightarrow> strcmp_s a b = 0 \<longleftrightarrow> a = b"
proof (induction a b rule: strcmp_s.induct [case_names both nil1 nil2])
  case (nil1 t)
  then show ?case by (cases t) (auto simp: ch0_def)
next
  case (nil2 s)
  then show ?case by (cases s) (auto simp: ch0_def)
qed auto

lemma strncmp_s_0_iff:
  "NUL \<notin> set a \<Longrightarrow> NUL \<notin> set b \<Longrightarrow> strncmp_s a b n = 0 \<longleftrightarrow> take n a = take n b"
proof (induction a b n rule: strncmp_s.induct [case_names zero both nil1 nil2])
  case (nil1 t n)
  then show ?case by (cases t) (auto simp: ch0_def)
next
  case (nil2 s n)
  then show ?case by (cases s) (auto simp: ch0_def)
qed auto

lemma strchr_cstr:
  "cstr m a s \<Longrightarrow> strchr m a ch =
    Some (if to_char ch \<in> set (s @ [NUL]) then Some (a + length (takeWhile (\<lambda>c. c \<noteq> to_char ch) s)) else None)"
proof (induction s arbitrary: a)
  case Nil
  then show ?case by (auto simp: strchr.simps [of m a])
next
  case (Cons c s)
  then show ?case by (auto simp: strchr.simps [of m a])
qed

lemma strstr_from_cstr:
  "cstr m a s \<Longrightarrow> cstr m b t \<Longrightarrow>
   strstr_from m a b (length t) = Some (map_option (\<lambda>i. a + i) (strstr_s s t))"
proof (induction s arbitrary: a)
  case Nil
  then show ?case by (simp add: strstr_from.simps [of m a])
next
  case (Cons c s)
  have eq: "strncmp m a b (length t) = strncmp_s (c # s) t (length t)"
    using Cons.prems by (rule strncmp_cstr)
  from Cons.IH [of "Suc a"] Cons.prems show ?case
    by (auto simp: strstr_from.simps [of m a] eq option.map_comp comp_def)
qed

lemma strstr_cstr:
  "cstr m a s \<Longrightarrow> cstr m b t \<Longrightarrow> strstr m a b = Some (map_option (\<lambda>i. a + i) (strstr_s s t))"
  by (simp add: strstr_def strlen_cstr strstr_from_cstr)

text \<open>A match at offset 0 is a prefix.\<close>

lemma strncmp_s_prefix:
  "NUL \<notin> set s \<Longrightarrow> NUL \<notin> set t \<Longrightarrow> strncmp_s s t (length t) = 0 \<longleftrightarrow> take (length t) s = t"
  by (simp add: strncmp_s_0_iff)

lemma strstr_s_0_iff:
  "NUL \<notin> set s \<Longrightarrow> NUL \<notin> set t \<Longrightarrow> strstr_s s t = Some 0 \<longleftrightarrow> s \<noteq> [] \<and> take (length t) s = t"
  by (cases s) (auto simp: strncmp_s_prefix)

lemma strstr_s_first:
  assumes "NUL \<notin> set s" "NUL \<notin> set t"
  shows "(strstr_s s t = Some i \<longleftrightarrow>
      i < length s \<and> take (length t) (drop i s) = t \<and> (\<forall>j<i. take (length t) (drop j s) \<noteq> t)) \<and>
    (strstr_s s t = None \<longleftrightarrow> (\<forall>i<length s. take (length t) (drop i s) \<noteq> t))"
  using assms(1)
proof (induction s arbitrary: i)
  case (Cons c s)
  have all: "(\<forall>j<Suc n. P j) \<longleftrightarrow> P 0 \<and> (\<forall>j<n. P (Suc j))" for P n by (metis less_Suc_eq_0_disj)
  have pre: "strncmp_s (c # s) t (length t) = 0 \<longleftrightarrow> take (length t) (c # s) = t"
    using Cons.prems assms(2) by (rule strncmp_s_prefix)
  have IH: "(strstr_s s t = Some i \<longleftrightarrow>
      i < length s \<and> take (length t) (drop i s) = t \<and> (\<forall>j<i. take (length t) (drop j s) \<noteq> t))"
    "(strstr_s s t = None \<longleftrightarrow> (\<forall>i<length s. take (length t) (drop i s) \<noteq> t))" for i
    using Cons by auto
  show ?case
  proof (cases i)
    case 0
    then show ?thesis using IH(2) by (auto simp: pre all)
  next
    case (Suc k)
    then show ?thesis using IH(1) [of k] IH(2) by (auto simp: pre all)
  qed
qed simp

section \<open>Facts about atoi\<close>

text \<open>The digit string \<open>ds\<close> in base \<open>b\<close>, most significant digit first.\<close>

definition digit_char :: "nat \<Rightarrow> char" where
  "digit_char d = (if d < 10 then char_of (48 + d) else char_of (87 + d))"

definition horner :: "nat \<Rightarrow> nat \<Rightarrow> nat list \<Rightarrow> nat" where
  "horner b i ds = foldl (\<lambda>acc d. acc * b + d) i ds"

lemma horner_Nil [simp]: "horner b i [] = i"
  by (simp add: horner_def)

lemma horner_Cons [simp]: "horner b i (d # ds) = horner b (i * b + d) ds"
  by (simp add: horner_def)

lemma horner_append: "horner b i (xs @ ys) = horner b (horner b i xs) ys"
  by (simp add: horner_def)

lemma schar_char_of: "n < 128 \<Longrightarrow> schar (char_of n) = int n"
proof -
  assume "n < 128"
  then have "of_char (char_of n) = int n"
    using of_char_of [of n] of_nat_of_char [of "char_of n", where ?'a = int] by simp
  with \<open>n < 128\<close> show ?thesis by (simp add: schar_def)
qed

lemma schar_digit_char: "d < 16 \<Longrightarrow> schar (digit_char d) = (if d < 10 then 48 + int d else 87 + int d)"
  by (simp add: digit_char_def schar_char_of)

lemma atoi_digits_horner:
  "(\<And>d. d \<in> set ds \<Longrightarrow> d < 16) \<Longrightarrow>
   atoi_digits (of_nat b) (of_nat i) (map digit_char ds) = of_nat (horner b i ds)"
proof (induction ds arbitrary: i)
  case Nil
  then show ?case by simp
next
  case (Cons d ds)
  have d: "d < 16" and IH: "\<And>i. atoi_digits (of_nat b) (of_nat i) (map digit_char ds) = of_nat (horner b i ds)"
    using Cons by auto
  have "atoi_digits (of_nat b) (of_nat i) (map digit_char (d # ds)) =
      atoi_digits (of_nat b) (of_nat (i * b + d)) (map digit_char ds)"
    using d by (auto simp: schar_digit_char isxdigit_def Let_def)
  then show ?case by (simp only: IH horner_Cons)
qed

lemma skip_spaces_append: "skip_spaces (replicate n (CHR '' '') @ a) = skip_spaces a"
  by (induction n) auto

lemma atoi_decimal:
  assumes "skip_spaces a = a1" "\<And>z x r. a1 = z # x # r \<Longrightarrow> x \<notin> {CHR ''x'', CHR ''X''}"
  shows "atoi a = sint (atoi_digits 10 0 a1)"
  using assms by (cases a1 rule: remdups_adj.cases) (auto simp: atoi_def)

section \<open>Properties\<close>

text \<open>
  \<open>memmove\<close> copies a block correctly whatever the overlap: after the call the destination
  holds exactly the bytes the source held before it, and no byte outside the destination changed.
\<close>

theorem memmove_correct: "memmove m dest src n = mem_write m dest (mem_read m src n)"
  by (auto simp: memmove_def copy_up_eq copy_down_eq)

text \<open>
  \<open>memcpy\<close> agrees with \<open>memmove\<close> when the two blocks do not overlap, or when the
  destination starts at or below the source.
\<close>

theorem memcpy_eq_memmove:
  assumes "dest \<le> src \<or> src + n \<le> dest"
  shows "memcpy m dest src n = memmove m dest src n"
  using assms by (auto simp: memcpy_copy_up memmove_def copy_up_eq copy_down_eq)

theorem memcpy_eq_memmove_witness:
  "memcpy ((\<lambda>_. NUL)(10 := CHR ''a'')) 100 10 1 = memmove ((\<lambda>_. NUL)(10 := CHR ''a'')) 100 10 1"
  by (rule memcpy_eq_memmove) simp

text \<open>
  \<open>memcmp\<close> decides the lexicographic order of the two blocks read as unsigned bytes:
  it returns 0 exactly for equal blocks, and otherwise the sign is that of the first difference.
\<close>

theorem memcmp_lexicographic:
  "(memcmp m a b n = 0 \<longleftrightarrow> mem_read m a n = mem_read m b n) \<and>
   (memcmp m a b n = - 1 \<longleftrightarrow>
     (\<exists>i<n. mem_read m a i = mem_read m b i \<and> uchar (m (a + i)) < uchar (m (b + i)))) \<and>
   (memcmp m a b n = 1 \<longleftrightarrow>
     (\<exists>i<n. mem_read m a i = mem_read m b i \<and> uchar (m (b + i)) < uchar (m (a + i))))"
proof (induction n arbitrary: a b)
  case (Suc n)
  have ex: "(\<exists>i<Suc n. P i) \<longleftrightarrow> P 0 \<or> (\<exists>i<n. P (Suc i))" for P
    by (metis less_Suc_eq_0_disj)
  show ?case
    unfolding ex using Suc [of "Suc a" "Suc b"] uchar_inj [of "m a" "m b"]
    by (auto simp: mem_read_Suc)
qed simp

text \<open>
  The copying functions on NUL-terminated strings that do not overlap: \<open>strcpy\<close> stores the
  string with its terminator, \<open>strncpy\<close> exactly \<open>n\<close> bytes, cut or filled with zeroes, and \<open>strcat\<close>
  leaves the concatenation at the destination. They terminate, and write nothing else.
\<close>

theorem strcpy_strncpy_strcat_correct:
  assumes "cstr m src s" and "cstr m dest d"
    and "dest + length d + length s < src \<or> src + length s < dest"
  shows "strcpy m dest src = Some (mem_write m dest (s @ [NUL])) \<and>
    (n \<le> length d + length s \<longrightarrow> strncpy m dest src n = mem_write m dest (take n (s @ replicate n NUL))) \<and>
    strcat m dest src = Some (mem_write m (dest + length d) (s @ [NUL])) \<and>
    cstr (mem_write m (dest + length d) (s @ [NUL])) dest (d @ s)"
proof (intro conjI impI)
  show "strcpy m dest src = Some (mem_write m dest (s @ [NUL]))"
    by (rule strcpy_cstr [OF assms(1)]) (use assms(3) in auto)
  show "strncpy m dest src n = mem_write m dest (take n (s @ replicate n NUL))"
    if "n \<le> length d + length s"
    by (rule strncpy_cstr [OF assms(1)]) (use assms(3) that in auto)
  have "cat_copy m (dest + length d) src = Some (mem_write m (dest + length d) (s @ [NUL]))"
    by (rule cat_copy_cstr [OF assms(1)]) (use assms(3) in auto)
  then show "strcat m dest src = Some (mem_write m (dest + length d) (s @ [NUL]))"
    by (simp add: strcat_def find_end_cstr [OF assms(2)])
  show "cstr (mem_write m (dest + length d) (s @ [NUL])) dest (d @ s)"
    by (rule cstr_append_write [OF assms(2) cstr_notin [OF assms(1)]])
qed

definition mem_ab :: mem where
  "mem_ab = (\<lambda>_. NUL)(10 := CHR ''a'', 20 := CHR ''b'')"

theorem strcpy_strncpy_strcat_correct_witness:
  "strcat mem_ab 10 20 = Some (mem_write mem_ab 11 [CHR ''b'', NUL])"
proof -
  have "cstr mem_ab 20 ''b''" "cstr mem_ab 10 ''a''" by (simp_all add: mem_ab_def)
  from strcpy_strncpy_strcat_correct [OF this] show ?thesis by simp
qed

text \<open>
  \<open>strcmp\<close> and \<open>strncmp\<close> on NUL-terminated strings terminate and decide equality:
  \<open>strcmp\<close> is 0 exactly for equal strings, \<open>strncmp\<close> exactly when the first \<open>n\<close> characters agree.
\<close>

theorem strcmp_strncmp_decide:
  assumes "cstr m s a" and "cstr m t b"
  shows "(\<exists>r. strcmp m s t = Some r \<and> (r = 0 \<longleftrightarrow> a = b)) \<and>
    (strncmp m s t n = 0 \<longleftrightarrow> take n a = take n b)"
  using strcmp_cstr [OF assms] strncmp_cstr [OF assms] cstr_notin [OF assms(1)] cstr_notin [OF assms(2)]
  by (simp add: strcmp_s_0_iff strncmp_s_0_iff)

theorem strcmp_strncmp_decide_witness:
  "(\<exists>r. strcmp mem_ab 10 20 = Some r \<and> (r = 0 \<longleftrightarrow> ''a'' = ''b'')) \<and> strncmp mem_ab 10 20 1 \<noteq> 0"
proof -
  have "cstr mem_ab 10 ''a''" "cstr mem_ab 20 ''b''" by (simp_all add: mem_ab_def)
  from strcmp_strncmp_decide [OF this, of 1] show ?thesis by simp
qed

text \<open>
  \<open>strstr\<close> on NUL-terminated strings terminates and finds the first match: the address it
  returns is the first position of a non-empty suffix at which the substring starts, and NULL means
  there is none.
\<close>

theorem strstr_first_match:
  assumes "cstr m a s" and "cstr m b t"
  shows "(strstr m a b = Some (Some p) \<longleftrightarrow>
      (\<exists>i<length s. p = a + i \<and> take (length t) (drop i s) = t \<and>
        (\<forall>j<i. take (length t) (drop j s) \<noteq> t))) \<and>
    (strstr m a b = Some None \<longleftrightarrow> (\<forall>i<length s. take (length t) (drop i s) \<noteq> t))"
proof -
  have first: "(strstr_s s t = Some i \<longleftrightarrow>
       i < length s \<and> take (length t) (drop i s) = t \<and> (\<forall>j<i. take (length t) (drop j s) \<noteq> t)) \<and>
     (strstr_s s t = None \<longleftrightarrow> (\<forall>i<length s. take (length t) (drop i s) \<noteq> t))" for i
    using strstr_s_first [OF cstr_notin [OF assms(1)] cstr_notin [OF assms(2)]] by blast
  have "strstr m a b = Some (Some p) \<longleftrightarrow> (\<exists>i. p = a + i \<and> strstr_s s t = Some i)"
    by (auto simp: strstr_cstr [OF assms])
  moreover have "strstr m a b = Some None \<longleftrightarrow> strstr_s s t = None"
    by (simp add: strstr_cstr [OF assms])
  ultimately show ?thesis using first by auto
qed

theorem strstr_first_match_witness: "strstr mem_ab 10 20 = Some None"
proof -
  have "cstr mem_ab 10 ''a''" "cstr mem_ab 20 ''b''" by (simp_all add: mem_ab_def)
  from strstr_first_match [OF this] show ?thesis by simp
qed

lemma atoi_decimal_digits:
  assumes "\<forall>d\<in>set ds. d < 10"
  shows "atoi (replicate k (CHR '' '') @ map digit_char ds) = sint (of_nat (horner 10 0 ds) :: u32)"
proof -
  have dd: "atoi_digits 10 0 (map digit_char ds) = of_nat (horner 10 0 ds)"
    using atoi_digits_horner [of ds 10 0] assms by fastforce
  have nx: "d \<in> set ds \<Longrightarrow> digit_char d \<notin> {CHR ''x'', CHR ''X'', CHR '' ''}" for d
    using assms schar_digit_char [of d] by (auto simp: schar_def Let_def)
  then have sp: "skip_spaces (map digit_char ds) = map digit_char ds" by (cases ds) auto
  show ?thesis
    unfolding dd [symmetric] by (rule atoi_decimal) (use nx in \<open>auto simp: skip_spaces_append sp\<close>)
qed

lemma atoi_hex_digits:
  assumes "\<forall>x\<in>set xs. x < 16"
  shows "atoi (replicate k (CHR '' '') @ ''0x'' @ map digit_char xs) = sint (of_nat (horner 16 0 xs) :: u32)"
proof -
  have "atoi_digits 16 0 (map digit_char xs) = of_nat (horner 16 0 xs)"
    using atoi_digits_horner [of xs 16 0] assms by fastforce
  then show ?thesis by (simp add: atoi_def skip_spaces_append)
qed

text \<open>
  \<open>atoi\<close> reads a number back: after any spaces, a string of decimal digits, or \<open>0x\<close> and
  a string of hexadecimal digits, gives the number it denotes modulo \<open>2^32\<close>, as a signed \<open>int\<close>.
\<close>

theorem atoi_reads_number:
  assumes "\<forall>d\<in>set ds. d < 10" and "\<forall>x\<in>set xs. x < 16"
  shows "atoi (replicate k (CHR '' '') @ map digit_char ds) = sint (of_nat (horner 10 0 ds) :: u32) \<and>
    atoi (replicate k (CHR '' '') @ ''0x'' @ map digit_char xs) = sint (of_nat (horner 16 0 xs) :: u32)"
  using atoi_decimal_digits [OF assms(1)] atoi_hex_digits [OF assms(2)] by blast

theorem atoi_reads_number_witness: "atoi ''  42'' = 42 \<and> atoi ''0x2a'' = 42"
proof -
  have "map digit_char [4, 2] = ''42''" "map digit_char [2, 10] = ''2a''" by code_simp+
  then show ?thesis
    using atoi_reads_number [of "[4, 2]" "[2, 10]" 2] atoi_reads_number [of "[4, 2]" "[2, 10]" 0]
    by (simp add: numeral_2_eq_2)
qed

end
