(* ===== verification/Sprintf.thy ===== *)
theory Sprintf
  imports C_String
begin

text \<open>
  The formatted output functions of \<open>core/sprintf.c\<close>, for the i386 target.

  All output goes through \<open>outchar\<close>, which stores a character only below the end pointer \<open>t\<close> but
  always advances the position \<open>s\<close>; positions are addresses modulo \<open>2^32\<close>. The variadic arguments
  are the 32-bit stack slots of the i386 calling convention; a slot that holds a string pointer
  carries the characters it points to, which the output buffer must not overlap. Where the C code
  has undefined behaviour (no argument left, a \<open>%s\<close> slot that is not a string, signed overflow of a
  width or precision, overflow of an internal buffer) the result is \<open>UB\<close>.

  \<open>printf_text\<close> is the reference: the text a format produces, computed without any buffer. The
  main property says that \<open>snprintf\<close> stores the longest prefix of that text that fits, terminates it
  and returns the length of the whole text.
\<close>

section \<open>Settings and types\<close>

definition FMTCPYSZ :: nat where "FMTCPYSZ = 32"
definition DIGITBUFSZ :: nat where "DIGITBUFSZ = 128"
definition WP_NONE :: int where "WP_NONE = - 1"
definition INT_MAX :: int where "INT_MAX = 2147483647"
definition UINTPTR_MAX :: nat where "UINTPTR_MAX = 4294967295"
definition SIZE_MAX :: nat where "SIZE_MAX = 4294967295"

record fmtspec =
  fs_left :: bool
  fs_plus :: bool
  fs_space :: bool
  fs_alt :: bool
  fs_zero :: bool
  fs_w :: int
  fs_p :: int
  fs_lenmodsz :: nat

definition fmtspec_init :: fmtspec where
  "fmtspec_init = \<lparr>fs_left = False, fs_plus = False, fs_space = False, fs_alt = False, fs_zero = False,
     fs_w = WP_NONE, fs_p = WP_NONE, fs_lenmodsz = 0\<rparr>"

datatype va_slot = VWord u32 | VStr u32 string

datatype 'a conv = UB | Unsupported | Done 'a

section \<open>Character and string output\<close>

definition outchar :: "mem \<Rightarrow> nat \<Rightarrow> nat \<Rightarrow> char \<Rightarrow> mem \<times> nat" where
  "outchar m s t c = ((if s < t then m(s := c) else m), (s + 1) mod 2 ^ 32)"

fun outpad :: "mem \<Rightarrow> nat \<Rightarrow> nat \<Rightarrow> char \<Rightarrow> nat \<Rightarrow> mem \<times> nat" where
  "outpad m s t c 0 = (m, s)"
| "outpad m s t c (Suc len) = (let (m', s') = outchar m s t c in outpad m' s' t c len)"

fun outstr :: "mem \<Rightarrow> nat \<Rightarrow> nat \<Rightarrow> string \<Rightarrow> mem \<times> nat" where
  "outstr m s t [] = (m, s)"
| "outstr m s t (c # str) = (let (m', s') = outchar m s t c in outstr m' s' t str)"

definition outpadded :: "mem \<Rightarrow> nat \<Rightarrow> nat \<Rightarrow> fmtspec \<Rightarrow> string \<Rightarrow> string \<Rightarrow> mem \<times> nat" where
  "outpadded m s t spec prefix valstr =
    (let needwidth = length prefix + length valstr;
         w = (if fs_w spec \<noteq> WP_NONE then nat (fs_w spec) else 0);
         padlen = (if w > needwidth then w - needwidth else 0);
         (m, s) = (if \<not> fs_left spec \<and> \<not> fs_zero spec then outpad m s t (CHR '' '') padlen else (m, s));
         (m, s) = outstr m s t prefix;
         (m, s) = (if \<not> fs_left spec \<and> fs_zero spec then outpad m s t (CHR ''0'') padlen else (m, s));
         (m, s) = outstr m s t valstr
     in (if fs_left spec then outpad m s t (CHR '' '') padlen else (m, s)))"

section \<open>Helpers and number conversion\<close>

definition sign_prefix :: "fmtspec \<Rightarrow> bool \<Rightarrow> string" where
  "sign_prefix spec isneg =
    (if isneg then ''-'' else if fs_plus spec then ''+'' else if fs_space spec then '' '' else '''')"

definition strtoupper :: "string \<Rightarrow> string" where
  "strtoupper s = map (\<lambda>c. to_char (toupper (schar c))) s"

definition hexdigit :: "nat \<Rightarrow> char" where
  "hexdigit d = (if d < 10 then char_of (48 + d) else char_of (97 + (d - 0xa)))"

text \<open>The digits, least significant first. The callers pass the bases 2, 8, 10 and 16.\<close>

fun itoa_digits :: "nat \<Rightarrow> nat \<Rightarrow> string" where
  "itoa_digits base uval =
    (if uval = 0 \<or> base \<le> 1 then [] else hexdigit (uval mod base) # itoa_digits base (uval div base))"

declare itoa_digits.simps [simp del]

text \<open>\<open>itoa\<close>: \<^const>\<open>None\<close> when the local digit buffer overflows.\<close>

definition itoa :: "nat \<Rightarrow> nat \<Rightarrow> nat \<Rightarrow> bool \<Rightarrow> string option" where
  "itoa uval base precision octalprefix =
    (let d = itoa_digits base uval;
         d = d @ replicate (precision - length d) (CHR ''0'');
         d = (if octalprefix \<and> (d = [] \<or> last d \<noteq> CHR ''0'') then d @ [CHR ''0''] else d)
     in if length d > DIGITBUFSZ then None else Some (rev d))"

section \<open>Parameter extraction\<close>

fun slot_word :: "va_slot \<Rightarrow> u32" where
  "slot_word (VWord w) = w"
| "slot_word (VStr a s) = a"

fun va_arg32 :: "va_slot list \<Rightarrow> (u32 \<times> va_slot list) option" where
  "va_arg32 [] = None"
| "va_arg32 (x # xs) = Some (slot_word x, xs)"

fun va_arg64 :: "va_slot list \<Rightarrow> (u64 \<times> va_slot list) option" where
  "va_arg64 (lo # hi # xs) = Some (ucast (slot_word lo) + 2 ^ 32 * ucast (slot_word hi), xs)"
| "va_arg64 _ = None"

fun va_arg_str :: "va_slot list \<Rightarrow> (string \<times> va_slot list) option" where
  "va_arg_str (VStr a s # xs) = Some (s, xs)"
| "va_arg_str _ = None"

definition va_arg_signed :: "nat \<Rightarrow> va_slot list \<Rightarrow> (u64 \<times> va_slot list) option" where
  "va_arg_signed sz args =
    (if sz = 0 then map_option (\<lambda>(v, r). (scast v, r)) (va_arg32 args)
     else if sz \<le> 1 then map_option (\<lambda>(v, r). (scast (ucast v :: u8), r)) (va_arg32 args)
     else if sz \<le> 2 then map_option (\<lambda>(v, r). (scast (ucast v :: u16), r)) (va_arg32 args)
     else if sz \<le> 4 then map_option (\<lambda>(v, r). (scast v, r)) (va_arg32 args)
     else va_arg64 args)"

definition va_arg_unsigned :: "nat \<Rightarrow> va_slot list \<Rightarrow> (u64 \<times> va_slot list) option" where
  "va_arg_unsigned sz args =
    (if sz = 0 then map_option (\<lambda>(v, r). (ucast v, r)) (va_arg32 args)
     else if sz \<le> 1 then map_option (\<lambda>(v, r). (ucast (ucast v :: u8), r)) (va_arg32 args)
     else if sz \<le> 2 then map_option (\<lambda>(v, r). (ucast (ucast v :: u16), r)) (va_arg32 args)
     else if sz \<le> 4 then map_option (\<lambda>(v, r). (ucast v, r)) (va_arg32 args)
     else va_arg64 args)"

section \<open>Conversions\<close>

text \<open>A conversion returns the memory, the new position and the remaining arguments.\<close>

type_synonym conv_result = "(mem \<times> nat \<times> va_slot list) conv"

text \<open>The size \<open>p + 1\<close> of the local array of \<open>format_str\<close> overflows for a precision of \<open>INT_MAX\<close>.\<close>

definition format_str :: "mem \<Rightarrow> nat \<Rightarrow> nat \<Rightarrow> fmtspec \<Rightarrow> va_slot list \<Rightarrow> conv_result" where
  "format_str m s t spec args =
    (case va_arg_str args of
       None \<Rightarrow> UB
     | Some (str, args') \<Rightarrow>
         (if fs_p spec = INT_MAX then UB
          else if fs_p spec \<noteq> WP_NONE
          then let pstr = take (nat (fs_p spec)) str; (m', s') = outpadded m s t spec '''' pstr
               in Done (m', s', args')
          else let (m', s') = outpadded m s t spec '''' str in Done (m', s', args')))"

text \<open>The one-character string of \<open>%c\<close> is empty when the character is NUL.\<close>

definition format_char :: "mem \<Rightarrow> nat \<Rightarrow> nat \<Rightarrow> fmtspec \<Rightarrow> va_slot list \<Rightarrow> conv_result" where
  "format_char m s t spec args =
    (case va_arg32 args of
       None \<Rightarrow> UB
     | Some (v, args') \<Rightarrow>
         (let c = to_char (uint v);
              convbuf = takeWhile (\<lambda>c. c \<noteq> NUL) [c];
              (m', s') = outpadded m s t spec '''' convbuf
          in Done (m', s', args')))"

text \<open>The smallest \<open>intmax_t\<close> has no negation.\<close>

definition format_signed :: "mem \<Rightarrow> nat \<Rightarrow> nat \<Rightarrow> fmtspec \<Rightarrow> nat \<Rightarrow> va_slot list \<Rightarrow> conv_result" where
  "format_signed m s t spec base args =
    (case va_arg_signed (fs_lenmodsz spec) args of
       None \<Rightarrow> UB
     | Some (val, args') \<Rightarrow> if sint val = - (2 ^ 63) then UB else
         (let sign = sign_prefix spec (sint val < 0);
              val = (if sint val < 0 then - val else val);
              spec = (if fs_p spec = WP_NONE then spec\<lparr>fs_p := 1\<rparr> else spec\<lparr>fs_zero := False\<rparr>)
          in case itoa (unat val) base (nat (fs_p spec)) False of
               None \<Rightarrow> UB
             | Some digitbuf \<Rightarrow>
                 (if length digitbuf + 1 > DIGITBUFSZ then UB
                  else let (m', s') = outpadded m s t spec sign digitbuf in Done (m', s', args'))))"

definition format_unsigned ::
    "mem \<Rightarrow> nat \<Rightarrow> nat \<Rightarrow> fmtspec \<Rightarrow> nat \<Rightarrow> bool \<Rightarrow> va_slot list \<Rightarrow> conv_result" where
  "format_unsigned m s t spec base up args =
    (case va_arg_unsigned (fs_lenmodsz spec) args of
       None \<Rightarrow> UB
     | Some (val, args') \<Rightarrow>
         (let octalprefix = (fs_alt spec \<and> base = 8);
              prefixbuf = (if fs_alt spec \<and> base = 8 then ''''
                           else if fs_alt spec \<and> base = 2 \<and> val \<noteq> 0 then ''0b''
                           else if fs_alt spec \<and> base = 16 \<and> val \<noteq> 0 then ''0x'' else '''');
              spec = (if fs_p spec = WP_NONE then spec\<lparr>fs_p := 1\<rparr> else spec\<lparr>fs_zero := False\<rparr>)
          in case itoa (unat val) base (nat (fs_p spec)) octalprefix of
               None \<Rightarrow> UB
             | Some digitbuf \<Rightarrow>
                 (if length digitbuf + 1 > DIGITBUFSZ then UB
                  else let prefixbuf = (if up then strtoupper prefixbuf else prefixbuf);
                           digitbuf = (if up then strtoupper digitbuf else digitbuf);
                           (m', s') = outpadded m s t spec prefixbuf digitbuf
                       in Done (m', s', args'))))"

definition format_pointer :: "mem \<Rightarrow> nat \<Rightarrow> nat \<Rightarrow> fmtspec \<Rightarrow> va_slot list \<Rightarrow> conv_result" where
  "format_pointer m s t spec args =
    (let uspec = \<lparr>fs_left = False, fs_plus = False, fs_space = False, fs_alt = True, fs_zero = False,
                   fs_w = fs_w spec, fs_p = fs_p spec, fs_lenmodsz = 4\<rparr>
     in format_unsigned m s t uspec 16 False args)"

section \<open>Parsing a conversion specifier\<close>

text \<open>The digit and star cases work on width or precision, wherever \<open>wp\<close> points.\<close>

definition get_wp :: "bool \<Rightarrow> fmtspec \<Rightarrow> int" where
  "get_wp wp_is_p spec = (if wp_is_p then fs_p spec else fs_w spec)"

definition set_wp :: "bool \<Rightarrow> fmtspec \<Rightarrow> int \<Rightarrow> fmtspec" where
  "set_wp wp_is_p spec v = (if wp_is_p then spec\<lparr>fs_p := v\<rparr> else spec\<lparr>fs_w := v\<rparr>)"

definition add_digit :: "bool \<Rightarrow> fmtspec \<Rightarrow> char \<Rightarrow> fmtspec option" where
  "add_digit wp_is_p spec ch =
    (let old = (if get_wp wp_is_p spec = WP_NONE then 0 else get_wp wp_is_p spec);
         new = old * 10 + (schar ch - 48)
     in if new > INT_MAX then None else Some (set_wp wp_is_p spec new))"

definition star_wp :: "bool \<Rightarrow> fmtspec \<Rightarrow> u32 \<Rightarrow> fmtspec option" where
  "star_wp wp_is_p spec v =
    (let spec = set_wp wp_is_p spec (sint v)
     in if \<not> wp_is_p \<and> sint v < 0
        then (if - sint v > INT_MAX then None else Some (spec\<lparr>fs_left := True, fs_w := - sint v\<rparr>))
        else if wp_is_p \<and> sint v < 0 then Some (spec\<lparr>fs_p := WP_NONE\<rparr>)
        else Some spec)"

text \<open>
  The cases of the switch that only record something and go on to the next character, on the
  consumed character, the peeked one and the state of the parse: the specification so far, whether
  \<open>wp\<close> points to the precision, \<open>zero_is_flag\<close>, and the arguments. \<open>PMore\<close> also says whether the peeked
  character is consumed too.
\<close>

datatype parse_step = PUB | PMore fmtspec bool bool bool "va_slot list" | PConv

definition parse_char :: "char \<Rightarrow> char \<Rightarrow> fmtspec \<Rightarrow> bool \<Rightarrow> bool \<Rightarrow> va_slot list \<Rightarrow> parse_step" where
  "parse_char ch nextchar spec wp zf args =
    (if ch = CHR ''-'' then PMore (spec\<lparr>fs_left := True\<rparr>) wp zf False args
     else if ch = CHR ''+'' then PMore (spec\<lparr>fs_plus := True\<rparr>) wp zf False args
     else if ch = CHR '' '' then PMore (spec\<lparr>fs_space := True\<rparr>) wp zf False args
     else if ch = CHR ''#'' then PMore (spec\<lparr>fs_alt := True\<rparr>) wp zf False args
     else if ch = CHR ''0'' \<and> zf then PMore (spec\<lparr>fs_zero := True\<rparr>) wp False False args
     else if isdigit (schar ch)
       then (case add_digit wp spec ch of None \<Rightarrow> PUB | Some spec' \<Rightarrow> PMore spec' wp False False args)
     else if ch = CHR ''*''
       then (case va_arg32 args of
               None \<Rightarrow> PUB
             | Some (v, args') \<Rightarrow>
                 (case star_wp wp spec v of None \<Rightarrow> PUB | Some spec' \<Rightarrow> PMore spec' wp zf False args'))
     else if ch = CHR ''.'' then PMore (spec\<lparr>fs_p := 0\<rparr>) True False False args
     else if ch = CHR ''h''
       then (if nextchar = CHR ''h'' then PMore (spec\<lparr>fs_lenmodsz := 1\<rparr>) wp zf True args
             else PMore (spec\<lparr>fs_lenmodsz := 2\<rparr>) wp zf False args)
     else if ch = CHR ''l''
       then (if nextchar = CHR ''l'' then PMore (spec\<lparr>fs_lenmodsz := 8\<rparr>) wp zf True args
             else PMore (spec\<lparr>fs_lenmodsz := 4\<rparr>) wp zf False args)
     else if ch = CHR ''j'' then PMore (spec\<lparr>fs_lenmodsz := 8\<rparr>) wp zf False args
     else if ch = CHR ''z'' then PMore (spec\<lparr>fs_lenmodsz := 4\<rparr>) wp zf False args
     else if ch = CHR ''t'' then PMore (spec\<lparr>fs_lenmodsz := 4\<rparr>) wp zf False args
     else if ch = CHR ''L'' then PMore (spec\<lparr>fs_lenmodsz := 12\<rparr>) wp zf False args
     else PConv)"

text \<open>The cases of the switch that return.\<close>

definition convert :: "mem \<Rightarrow> nat \<Rightarrow> nat \<Rightarrow> char \<Rightarrow> fmtspec \<Rightarrow> va_slot list \<Rightarrow> conv_result" where
  "convert m s t ch spec args =
    (if ch = CHR ''%'' then (let (m', s') = outchar m s t (CHR ''%'') in Done (m', s', args))
     else if ch = CHR ''s'' then format_str m s t spec args
     else if ch = CHR ''c'' then format_char m s t spec args
     else if ch = CHR ''d'' \<or> ch = CHR ''i'' then format_signed m s t spec 10 args
     else if ch = CHR ''u'' then format_unsigned m s t spec 10 False args
     else if ch = CHR ''o'' then format_unsigned m s t spec 8 False args
     else if ch = CHR ''x'' then format_unsigned m s t spec 16 False args
     else if ch = CHR ''X'' then format_unsigned m s t spec 16 True args
     else if ch = CHR ''b'' then format_unsigned m s t spec 2 False args
     else if ch = CHR ''B'' then format_unsigned m s t spec 2 True args
     else if ch = CHR ''p'' then format_pointer m s t spec args
     else Unsupported)"

text \<open>
  The loop of \<open>process_conversion\<close>, from the character after \<open>%\<close> on. \<open>nf\<close> counts the characters
  copied to \<open>fmtbuf\<close>. The end of the format string is the NUL character, which no case handles.
  The result also has the rest of the format.
\<close>

type_synonym step_result = "(mem \<times> nat \<times> string \<times> va_slot list) conv"

function conversion_loop ::
    "mem \<Rightarrow> nat \<Rightarrow> nat \<Rightarrow> string \<Rightarrow> va_slot list \<Rightarrow> fmtspec \<Rightarrow> bool \<Rightarrow> bool \<Rightarrow> nat \<Rightarrow> step_result" where
  "conversion_loop m s t [] args spec wp zf nf = (if nf \<ge> FMTCPYSZ then UB else Unsupported)"
| "conversion_loop m s t (ch # fmt) args spec wp zf nf =
    (if nf \<ge> FMTCPYSZ then UB
     else case parse_char ch (ch0 fmt) spec wp zf args of
            PUB \<Rightarrow> UB
          | PMore spec' wp' zf' skip args' \<Rightarrow>
              conversion_loop m s t (if skip then tl fmt else fmt) args' spec' wp' zf' (Suc nf)
          | PConv \<Rightarrow>
              (case convert m s t ch spec args of
                 UB \<Rightarrow> UB
               | Unsupported \<Rightarrow> Unsupported
               | Done (m', s', args') \<Rightarrow> Done (m', s', fmt, args')))"
  by pat_completeness auto
termination
  by (relation "measure (\<lambda>(m, s, t, fmt, args, spec, wp, zf, nf). length fmt)") (auto simp: less_Suc_eq_le)

definition process_conversion ::
    "mem \<Rightarrow> nat \<Rightarrow> nat \<Rightarrow> string \<Rightarrow> va_slot list \<Rightarrow> step_result" where
  "process_conversion m s t fmt args = conversion_loop m s t (tl fmt) args fmtspec_init False True 1"

text \<open>Every conversion consumes at least one character of the format.\<close>

lemma conversion_loop_shorter:
  "conversion_loop m s t fmt args spec wp zf nf = Done (m', s', fmt', args') \<Longrightarrow> length fmt' < length fmt"
proof (induction m s t fmt args spec wp zf nf rule: conversion_loop.induct)
  case (1 m s t args spec wp zf nf)
  then show ?case by (simp split: if_splits)
next
  case (2 m s t ch fmt args spec wp zf nf)
  from "2.prems" show ?case
    by (auto split: if_splits parse_step.splits conv.splits dest!: "2.IH")
qed

section \<open>The main loop and the public functions\<close>

text \<open>
  The loop of \<open>snprintf_impl\<close>: characters other than \<open>%\<close> are copied, a \<open>%\<close> starts a conversion. The
  result has no position when a conversion failed; the text before it has been written by then. The
  code takes a returned null pointer for the failure, so a position that reaches address 0 is one.
\<close>

function snprintf_loop :: "mem \<Rightarrow> nat \<Rightarrow> nat \<Rightarrow> string \<Rightarrow> va_slot list \<Rightarrow> (mem \<times> nat option) conv" where
  "snprintf_loop m s t fmt args =
    (case fmt of
       [] \<Rightarrow> Done (m, Some s)
     | c # fmt' \<Rightarrow>
         (if c \<noteq> CHR ''%'' then (let (m', s') = outchar m s t c in snprintf_loop m' s' t fmt' args)
          else case process_conversion m s t fmt args of
                 UB \<Rightarrow> UB
               | Unsupported \<Rightarrow> Done (m, None)
               | Done (m', s', fmt'', args') \<Rightarrow>
                   (if s' = 0 then Done (m', None) else snprintf_loop m' s' t fmt'' args')))"
  by pat_completeness auto
termination
  by (relation "measure (\<lambda>(m, s, t, fmt, args). length fmt)")
     (auto simp: process_conversion_def dest!: conversion_loop_shorter)

declare snprintf_loop.simps [simp del]

text \<open>\<open>snprintf_impl\<close>, on a buffer of \<open>n\<close> bytes at address \<open>s\<close>: the memory and the returned \<open>int\<close>.\<close>

definition snprintf_impl :: "mem \<Rightarrow> nat \<Rightarrow> nat \<Rightarrow> string \<Rightarrow> va_slot list \<Rightarrow> (mem \<times> int) conv" where
  "snprintf_impl m s n fmt args =
    (let bufstart = s;
         t = (s + n) mod 2 ^ 32;
         t = (if t < s then UINTPTR_MAX else t)
     in case snprintf_loop m s t fmt args of
          UB \<Rightarrow> UB
        | Unsupported \<Rightarrow> Unsupported
        | Done (m, None) \<Rightarrow> Done (m, err ENOTSUP)
        | Done (m, Some s) \<Rightarrow>
            (let m = (if n \<noteq> 0 then (if s < t then m(s := NUL) else m(t - 1 := NUL)) else m)
             in Done (m, sint (of_int (int s - int bufstart) :: u32))))"

definition vsnprintf :: "mem \<Rightarrow> nat \<Rightarrow> nat \<Rightarrow> string \<Rightarrow> va_slot list \<Rightarrow> (mem \<times> int) conv" where
  "vsnprintf m s n format args = snprintf_impl m s n format args"

definition snprintf :: "mem \<Rightarrow> nat \<Rightarrow> nat \<Rightarrow> string \<Rightarrow> va_slot list \<Rightarrow> (mem \<times> int) conv" where
  "snprintf m s n format args = snprintf_impl m s n format args"

definition vsprintf :: "mem \<Rightarrow> nat \<Rightarrow> string \<Rightarrow> va_slot list \<Rightarrow> (mem \<times> int) conv" where
  "vsprintf m s format args = vsnprintf m s SIZE_MAX format args"

definition sprintf :: "mem \<Rightarrow> nat \<Rightarrow> string \<Rightarrow> va_slot list \<Rightarrow> (mem \<times> int) conv" where
  "sprintf m s format args = vsprintf m s format args"

section \<open>Reference: the text of a format\<close>

text \<open>
  The same conversions as texts, with numbers as integers: no buffer, no position, no end pointer.
\<close>

definition pad_text :: "fmtspec \<Rightarrow> string \<Rightarrow> string \<Rightarrow> string" where
  "pad_text spec prefix valstr =
    (let padlen = nat (fs_w spec) - (length prefix + length valstr)
     in if fs_left spec then prefix @ valstr @ replicate padlen (CHR '' '')
        else if fs_zero spec then prefix @ replicate padlen (CHR ''0'') @ valstr
        else replicate padlen (CHR '' '') @ prefix @ valstr)"

definition number_text :: "fmtspec \<Rightarrow> string \<Rightarrow> nat \<Rightarrow> nat \<Rightarrow> bool \<Rightarrow> bool \<Rightarrow> string conv" where
  "number_text spec prefix uval base octalprefix up =
    (let p = (if fs_p spec = WP_NONE then 1 else nat (fs_p spec));
         digits = rev (itoa_digits base uval);
         digits = replicate (p - length digits) (CHR ''0'') @ digits;
         digits = (if octalprefix \<and> (digits = [] \<or> hd digits \<noteq> CHR ''0'') then CHR ''0'' # digits else digits);
         spec = spec\<lparr>fs_zero := fs_zero spec \<and> fs_p spec = WP_NONE\<rparr>
     in if length digits \<ge> DIGITBUFSZ then UB
        else Done (if up then pad_text spec (strtoupper prefix) (strtoupper digits)
                   else pad_text spec prefix digits))"

fun with_args :: "va_slot list \<Rightarrow> string conv \<Rightarrow> (string \<times> va_slot list) conv" where
  "with_args args UB = UB"
| "with_args args Unsupported = Unsupported"
| "with_args args (Done out) = Done (out, args)"

definition signed_text :: "fmtspec \<Rightarrow> va_slot list \<Rightarrow> (string \<times> va_slot list) conv" where
  "signed_text spec args =
    (case va_arg_signed (fs_lenmodsz spec) args of
       None \<Rightarrow> UB
     | Some (val, args') \<Rightarrow> if sint val = - (2 ^ 63) then UB else
         with_args args' (number_text spec (sign_prefix spec (sint val < 0)) (nat \<bar>sint val\<bar>) 10 False False))"

definition base_prefix :: "nat \<Rightarrow> string" where
  "base_prefix base = (if base = 2 then ''0b'' else if base = 16 then ''0x'' else '''')"

definition unsigned_text :: "fmtspec \<Rightarrow> nat \<Rightarrow> bool \<Rightarrow> va_slot list \<Rightarrow> (string \<times> va_slot list) conv" where
  "unsigned_text spec base up args =
    (case va_arg_unsigned (fs_lenmodsz spec) args of
       None \<Rightarrow> UB
     | Some (val, args') \<Rightarrow>
         with_args args' (number_text spec (if fs_alt spec \<and> val \<noteq> 0 then base_prefix base else '''')
           (unat val) base (fs_alt spec \<and> base = 8) up))"

definition conv_text :: "char \<Rightarrow> fmtspec \<Rightarrow> va_slot list \<Rightarrow> (string \<times> va_slot list) conv" where
  "conv_text ch spec args =
    (if ch = CHR ''%'' then Done (''%'', args)
     else if ch = CHR ''s''
       then (case va_arg_str args of
               None \<Rightarrow> UB
             | Some (str, args') \<Rightarrow>
                 if fs_p spec = INT_MAX then UB
                 else Done (pad_text spec '''' (if fs_p spec = WP_NONE then str else take (nat (fs_p spec)) str), args'))
     else if ch = CHR ''c''
       then (case va_arg32 args of
               None \<Rightarrow> UB
             | Some (v, args') \<Rightarrow>
                 Done (pad_text spec '''' (let c = to_char (uint v) in if c = NUL then '''' else [c]), args'))
     else if ch = CHR ''d'' \<or> ch = CHR ''i'' then signed_text spec args
     else if ch = CHR ''u'' then unsigned_text spec 10 False args
     else if ch = CHR ''o'' then unsigned_text spec 8 False args
     else if ch = CHR ''x'' then unsigned_text spec 16 False args
     else if ch = CHR ''X'' then unsigned_text spec 16 True args
     else if ch = CHR ''b'' then unsigned_text spec 2 False args
     else if ch = CHR ''B'' then unsigned_text spec 2 True args
     else if ch = CHR ''p''
       then unsigned_text (fmtspec_init\<lparr>fs_alt := True, fs_w := fs_w spec, fs_p := fs_p spec, fs_lenmodsz := 4\<rparr>)
              16 False args
     else Unsupported)"

function spec_text ::
    "string \<Rightarrow> va_slot list \<Rightarrow> fmtspec \<Rightarrow> bool \<Rightarrow> bool \<Rightarrow> nat \<Rightarrow> (string \<times> string \<times> va_slot list) conv" where
  "spec_text [] args spec wp zf nf = (if nf \<ge> FMTCPYSZ then UB else Unsupported)"
| "spec_text (ch # fmt) args spec wp zf nf =
    (if nf \<ge> FMTCPYSZ then UB
     else case parse_char ch (ch0 fmt) spec wp zf args of
            PUB \<Rightarrow> UB
          | PMore spec' wp' zf' skip args' \<Rightarrow>
              spec_text (if skip then tl fmt else fmt) args' spec' wp' zf' (Suc nf)
          | PConv \<Rightarrow>
              (case conv_text ch spec args of
                 UB \<Rightarrow> UB
               | Unsupported \<Rightarrow> Unsupported
               | Done (out, args') \<Rightarrow> Done (out, fmt, args')))"
  by pat_completeness auto
termination
  by (relation "measure (\<lambda>(fmt, args, spec, wp, zf, nf). length fmt)") (auto simp: less_Suc_eq_le)

lemma spec_text_shorter:
  "spec_text fmt args spec wp zf nf = Done (out, fmt', args') \<Longrightarrow> length fmt' < length fmt"
proof (induction fmt args spec wp zf nf rule: spec_text.induct)
  case (1 args spec wp zf nf)
  then show ?case by (simp split: if_splits)
next
  case (2 ch fmt args spec wp zf nf)
  from "2.prems" show ?case
    by (auto split: if_splits parse_step.splits conv.splits dest!: "2.IH")
qed

text \<open>The text of a format, and whether the whole format was processed.\<close>

fun prepend :: "string \<Rightarrow> (string \<times> bool) conv \<Rightarrow> (string \<times> bool) conv" where
  "prepend out1 UB = UB"
| "prepend out1 Unsupported = Unsupported"
| "prepend out1 (Done (out, ok)) = Done (out1 @ out, ok)"

function printf_text :: "string \<Rightarrow> va_slot list \<Rightarrow> (string \<times> bool) conv" where
  "printf_text fmt args =
    (case fmt of
       [] \<Rightarrow> Done ('''', True)
     | c # fmt' \<Rightarrow>
         (if c \<noteq> CHR ''%'' then prepend [c] (printf_text fmt' args)
          else case spec_text fmt' args fmtspec_init False True 1 of
                 UB \<Rightarrow> UB
               | Unsupported \<Rightarrow> Done ('''', False)
               | Done (out1, fmt'', args') \<Rightarrow> prepend out1 (printf_text fmt'' args')))"
  by pat_completeness auto
termination
  by (relation "measure (\<lambda>(fmt, args). length fmt)") (auto dest!: spec_text_shorter)

declare printf_text.simps [simp del]

section \<open>The code produces the text\<close>

lemma outstr_append: "outstr m s t (a @ b) = (case outstr m s t a of (m', s') \<Rightarrow> outstr m' s' t b)"
  by (induction a arbitrary: m s) (auto simp: Let_def split: prod.splits)

lemma outpad_outstr: "outpad m s t c n = outstr m s t (replicate n c)"
  by (induction n arbitrary: m s) auto

lemma outstr_char: "outstr m s t [c] = outchar m s t c"
  by (simp split: prod.splits)

lemma outpadded_text: "outpadded m s t spec prefix valstr = outstr m s t (pad_text spec prefix valstr)"
proof -
  have w: "(if fs_w spec \<noteq> WP_NONE then nat (fs_w spec) else 0) = nat (fs_w spec)" by (simp add: WP_NONE_def)
  have p: "(if b < a then a - b else 0) = a - b" for a b :: nat by simp
  show ?thesis
    unfolding outpadded_def pad_text_def w p Let_def
    by (cases "fs_left spec"; cases "fs_zero spec")
       (auto simp: outpad_outstr outstr_append split: prod.splits)
qed

text \<open>A conversion of the code outputs the text of the reference.\<close>

fun outputs :: "mem \<Rightarrow> nat \<Rightarrow> nat \<Rightarrow> (string \<times> va_slot list) conv \<Rightarrow> conv_result" where
  "outputs m s t UB = UB"
| "outputs m s t Unsupported = Unsupported"
| "outputs m s t (Done (out, args)) = (case outstr m s t out of (m', s') \<Rightarrow> Done (m', s', args))"

lemma itoa_text:
  "itoa uval base p oct =
    (let digits = rev (itoa_digits base uval);
         digits = replicate (p - length digits) (CHR ''0'') @ digits;
         digits = (if oct \<and> (digits = [] \<or> hd digits \<noteq> CHR ''0'') then CHR ''0'' # digits else digits)
     in if length digits > DIGITBUFSZ then None else Some digits)"
proof -
  define d where "d = itoa_digits base uval @ replicate (p - length (itoa_digits base uval)) (CHR ''0'')"
  have rev: "replicate (p - length (rev (itoa_digits base uval))) (CHR ''0'') @ rev (itoa_digits base uval) = rev d"
    by (simp add: d_def)
  show ?thesis
    unfolding itoa_def Let_def rev d_def [symmetric] by (cases "d = []") (auto simp: hd_rev)
qed

lemma unat_abs: "unat (if sint (v :: u64) < 0 then - v else v) = nat \<bar>sint v\<bar>"
proof (cases "sint v < 0")
  case False
  have "uint v = sint v mod 2 ^ 64" using uint_word_of_int [where ?'a = 64, of "sint v"] by simp
  with False sint_lt [of v] show ?thesis by (simp add: unat_eq_nat_uint)
next
  case True
  have r: "- (2 ^ 63) \<le> sint v" using sint_ge [of v] by simp
  have "uint (- v) = - sint v mod 2 ^ 64" using uint_word_of_int [where ?'a = 64, of "- sint v"] by simp
  also have "\<dots> = - sint v" using True r by simp
  finally show ?thesis using True by (simp add: unat_eq_nat_uint)
qed

lemma strtoupper_empty [simp]: "strtoupper '''' = ''''"
  by (simp add: strtoupper_def)

lemma length_strtoupper [simp]: "length (strtoupper s) = length s"
  by (simp add: strtoupper_def)

lemma default_precision:
  "(if fs_p spec = WP_NONE then spec\<lparr>fs_p := 1\<rparr> else spec\<lparr>fs_zero := False\<rparr>) =
   spec\<lparr>fs_p := (if fs_p spec = WP_NONE then 1 else fs_p spec), fs_zero := fs_zero spec \<and> fs_p spec = WP_NONE\<rparr>"
  by (cases spec) simp

lemma pad_text_p [simp]: "pad_text (spec\<lparr>fs_p := p, fs_zero := z\<rparr>) a b = pad_text (spec\<lparr>fs_zero := z\<rparr>) a b"
  by (simp add: pad_text_def Let_def)

lemma format_str_text: "format_str m s t spec args = outputs m s t (conv_text (CHR ''s'') spec args)"
  by (auto simp: format_str_def conv_text_def outpadded_text split: option.splits prod.splits)

lemma format_char_text: "format_char m s t spec args = outputs m s t (conv_text (CHR ''c'') spec args)"
  by (auto simp: format_char_def conv_text_def outpadded_text Let_def split: option.splits prod.splits)

text \<open>What both numeric conversions do with the digits of \<open>itoa\<close>.\<close>

lemma itoa_number_text:
  "(case itoa uval base (nat (if fs_p spec = WP_NONE then 1 else fs_p spec)) oct of
      None \<Rightarrow> UB
    | Some digitbuf \<Rightarrow>
        (if length digitbuf + 1 > DIGITBUFSZ then UB
         else (case outpadded m s t (spec\<lparr>fs_p := p, fs_zero := fs_zero spec \<and> fs_p spec = WP_NONE\<rparr>)
                  (if up then strtoupper prefix else prefix) (if up then strtoupper digitbuf else digitbuf) of
                (m', s') \<Rightarrow> Done (m', s', args)))) =
   outputs m s t (with_args args (number_text spec prefix uval base oct up))"
proof -
  have p: "nat (if fs_p spec = WP_NONE then 1 else fs_p spec) = (if fs_p spec = WP_NONE then 1 else nat (fs_p spec))"
    by simp
  show ?thesis
    unfolding itoa_text number_text_def Let_def p outpadded_text pad_text_p
    by (auto split: prod.splits)
qed

lemma format_signed_text: "format_signed m s t spec 10 args = outputs m s t (signed_text spec args)"
proof (cases "va_arg_signed (fs_lenmodsz spec) args")
  case None
  then show ?thesis by (simp add: format_signed_def signed_text_def)
next
  case (Some va)
  obtain val args' where va: "va = (val, args')" by fastforce
  show ?thesis
  proof (cases "sint val = - (2 ^ 63)")
    case True
    then show ?thesis by (simp add: format_signed_def signed_text_def Some va)
  next
    case False
    have i: "format_signed m s t spec 10 args =
      outputs m s t (with_args args' (number_text spec (sign_prefix spec (sint val < 0))
        (unat (if sint val < 0 then - val else val)) 10 False False))"
      unfolding format_signed_def default_precision Some va option.case prod.case if_not_P [OF False] itoa_number_text [symmetric, where p = "if fs_p spec = WP_NONE then 1 else fs_p spec"]
      by (simp add: Let_def cong: option.case_cong if_cong)
    then show ?thesis unfolding unat_abs signed_text_def Some va option.case prod.case if_not_P [OF False] .
  qed
qed

lemma format_unsigned_text:
  assumes "base \<in> {2, 8, 10, 16}"
  shows "format_unsigned m s t spec base up args = outputs m s t (unsigned_text spec base up args)"
proof (cases "va_arg_unsigned (fs_lenmodsz spec) args")
  case None
  then show ?thesis by (simp add: format_unsigned_def unsigned_text_def)
next
  case (Some va)
  obtain val args' where va: "va = (val, args')" by fastforce
  have pre: "(if fs_alt spec \<and> base = 8 then ''''
      else if fs_alt spec \<and> base = 2 \<and> val \<noteq> 0 then ''0b''
      else if fs_alt spec \<and> base = 16 \<and> val \<noteq> 0 then ''0x'' else '''') =
    (if fs_alt spec \<and> val \<noteq> 0 then base_prefix base else '''')"
    using assms by (auto simp: base_prefix_def)
  show ?thesis
    unfolding format_unsigned_def unsigned_text_def default_precision Some va option.case prod.case pre
      itoa_number_text [symmetric, where p = "if fs_p spec = WP_NONE then 1 else fs_p spec"]
    by (simp add: Let_def cong: option.case_cong if_cong)
qed

lemma format_pointer_text: "format_pointer m s t spec args = outputs m s t (conv_text (CHR ''p'') spec args)"
  unfolding format_pointer_def Let_def conv_text_def
  by (subst format_unsigned_text) (simp_all add: fmtspec_init_def)

lemma convert_text: "convert m s t ch spec args = outputs m s t (conv_text ch spec args)"
proof -
  have pct: "(let (m', s') = outchar m s t (CHR ''%'') in Done (m', s', args)) = outputs m s t (Done (''%'', args))"
    by (simp add: outstr_char del: outstr.simps)
  have s: "format_str m s t spec args = outputs m s t
      (case va_arg_str args of None \<Rightarrow> UB | Some (str, args') \<Rightarrow>
         if fs_p spec = INT_MAX then UB else Done (pad_text spec '''' (if fs_p spec = WP_NONE then str else take (nat (fs_p spec)) str), args'))"
    by (simp add: format_str_text conv_text_def)
  have c: "format_char m s t spec args = outputs m s t
      (case va_arg32 args of None \<Rightarrow> UB | Some (v, args') \<Rightarrow>
         Done (pad_text spec '''' (let c = to_char (uint v) in if c = NUL then '''' else [c]), args'))"
    by (simp add: format_char_text conv_text_def)
  have p: "format_pointer m s t spec args = outputs m s t
      (unsigned_text (fmtspec_init\<lparr>fs_alt := True, fs_w := fs_w spec, fs_p := fs_p spec, fs_lenmodsz := 4\<rparr>) 16 False args)"
    by (simp add: format_pointer_text conv_text_def)
  have u: "format_unsigned m s t spec 2 up args = outputs m s t (unsigned_text spec 2 up args)"
    "format_unsigned m s t spec 8 up args = outputs m s t (unsigned_text spec 8 up args)"
    "format_unsigned m s t spec 10 up args = outputs m s t (unsigned_text spec 10 up args)"
    "format_unsigned m s t spec 16 up args = outputs m s t (unsigned_text spec 16 up args)" for up
    by (simp_all add: format_unsigned_text)
  show ?thesis
    unfolding convert_def conv_text_def pct s c p u format_signed_text if_distrib [of "outputs m s t"] outputs.simps(2) ..
qed

lemma conversion_loop_text:
  "conversion_loop m s t fmt args spec wp zf nf =
    (case spec_text fmt args spec wp zf nf of
       UB \<Rightarrow> UB | Unsupported \<Rightarrow> Unsupported
     | Done (out, fmt', args') \<Rightarrow> (case outstr m s t out of (m', s') \<Rightarrow> Done (m', s', fmt', args')))"
proof (induction fmt args spec wp zf nf rule: spec_text.induct)
  case (1 args spec wp zf nf)
  then show ?case by simp
next
  case (2 ch fmt args spec wp zf nf)
  show ?case
  proof (cases "parse_char ch (ch0 fmt) spec wp zf args")
    case (PMore spec' wp' zf' skip args')
    then show ?thesis using "2.IH" [of spec' wp' zf' skip args'] by simp
  next
    case PConv
    then show ?thesis
      by (cases "conv_text ch spec args") (auto simp: convert_text split: prod.splits)
  qed simp
qed

lemma outstr_pos: "s + length out < 2 ^ 32 \<Longrightarrow> snd (outstr m s t out) = s + length out"
  by (induction out arbitrary: m s) (auto simp: outchar_def)

lemma outstr_mem: "s + length out < 2 ^ 32 \<Longrightarrow> fst (outstr m s t out) = mem_write m s (take (t - s) out)"
proof (induction out arbitrary: m s)
  case (Cons c out)
  have m: "Suc s mod 2 ^ 32 = Suc s" using Cons.prems by simp
  have IH: "fst (outstr m' (s + 1) t out) = mem_write m' (s + 1) (take (t - (s + 1)) out)" for m'
    using Cons.IH [of "s + 1" m'] Cons.prems by simp
  show ?case
  proof (cases "s < t")
    case True
    then have "t - s = Suc (t - (s + 1))" by simp
    with True show ?thesis using IH [of "m(s := c)"] by (simp add: outchar_def m mem_write_Cons del: power_numeral)
  next
    case False
    then show ?thesis using IH [of m] by (simp add: outchar_def m del: power_numeral)
  qed
qed simp

lemma outstr_eq:
  "s + length out < 2 ^ 32 \<Longrightarrow> outstr m s t out = (mem_write m s (take (t - s) out), s + length out)"
  by (metis outstr_pos outstr_mem prod.collapse)

lemma mem_write_take_append:
  "mem_write (mem_write m s (take (t - s) a)) (s + length a) (take (t - (s + length a)) b) =
   mem_write m s (take (t - s) (a @ b))"
  by (cases "length a \<le> t - s") (simp_all add: mem_write_append)

lemma prepend_Done: "prepend out1 r = Done (out, ok) \<Longrightarrow> \<exists>out2. r = Done (out2, ok) \<and> out = out1 @ out2"
  by (cases "(out1, r)" rule: prepend.cases) auto

lemma snprintf_loop_text:
  assumes "printf_text fmt args = Done (out, ok)" "0 < s" "s + length out < 2 ^ 32"
  shows "snprintf_loop m s t fmt args =
    Done (mem_write m s (take (t - s) out), if ok then Some (s + length out) else None)"
  using assms
proof (induction fmt args arbitrary: m s out rule: printf_text.induct)
  case (1 fmt args)
  show ?case
  proof (cases fmt)
    case Nil
    then show ?thesis using "1.prems" by (simp add: printf_text.simps [of "[]"] snprintf_loop.simps [of _ _ _ "[]"])
  next
    case (Cons c fmt')
    show ?thesis
    proof (cases "c = CHR ''%''")
      case False
      from "1.prems"(1) obtain out2 where o: "printf_text fmt' args = Done (out2, ok)" "out = c # out2"
        unfolding Cons printf_text.simps [of "c # fmt'"] using False by (auto dest!: prepend_Done)
      have IH: "snprintf_loop m' (s + 1) t fmt' args =
          Done (mem_write m' (s + 1) (take (t - (s + 1)) out2), if ok then Some (s + 1 + length out2) else None)" for m'
        by (rule "1.IH"(1) [OF Cons False o(1)]) (use "1.prems" o in auto)
      have oc: "outchar m s t c = (mem_write m s (take (t - s) [c]), s + 1)"
        using outstr_eq [of s "[c]" m t] "1.prems" o by (simp add: outstr_char)
      have "mem_write (mem_write m s (take (t - s) [c])) (s + 1) (take (t - (s + 1)) out2) = mem_write m s (take (t - s) out)"
        using mem_write_take_append [of m s t "[c]" out2] o(2) by simp
      then show ?thesis
        unfolding Cons snprintf_loop.simps [of m s t "c # fmt'"] using False o by (simp add: oc IH del: One_nat_def)
    next
      case True
      show ?thesis
      proof (cases "spec_text fmt' args fmtspec_init False True 1")
        case (Done r)
        obtain o1 fmt'' args' where r: "r = (o1, fmt'', args')" by (cases r)
        from "1.prems"(1) obtain o2 where o: "printf_text fmt'' args' = Done (o2, ok)" "out = o1 @ o2"
          unfolding Cons printf_text.simps [of "c # fmt'"] using True Done r by (auto dest!: prepend_Done)
        have IH: "snprintf_loop m' (s + length o1) t fmt'' args' =
            Done (mem_write m' (s + length o1) (take (t - (s + length o1)) o2),
                  if ok then Some (s + length o1 + length o2) else None)" for m'
          by (rule "1.IH"(2) [OF Cons _ Done r [symmetric] refl o(1)]) (use True "1.prems" o in auto)
        have "outstr m s t o1 = (mem_write m s (take (t - s) o1), s + length o1)"
          by (rule outstr_eq) (use "1.prems" o in simp)
        then have pc: "process_conversion m s t (c # fmt') args =
            Done (mem_write m s (take (t - s) o1), s + length o1, fmt'', args')"
          unfolding process_conversion_def conversion_loop_text by (simp add: Done r del: One_nat_def)
        have wr: "mem_write (mem_write m s (take (t - s) o1)) (s + length o1) (take (t - (s + length o1)) o2) =
            mem_write m s (take (t - s) out)" by (simp only: mem_write_take_append o(2))
        show ?thesis
          unfolding Cons snprintf_loop.simps [of m s t "c # fmt'"]
          using True "1.prems"(2) o(2) by (simp add: pc [unfolded True] IH wr)
      qed (use "1.prems" True in \<open>simp_all add: Cons printf_text.simps [of "CHR ''%'' # fmt'"]
            snprintf_loop.simps [of m s t "CHR ''%'' # fmt'"] process_conversion_def conversion_loop_text
            del: One_nat_def\<close>)
    qed
  qed
qed

section \<open>Digits\<close>

fun digits_of :: "nat \<Rightarrow> nat \<Rightarrow> nat list" where
  "digits_of base uval = (if uval = 0 \<or> base \<le> 1 then [] else uval mod base # digits_of base (uval div base))"

declare digits_of.simps [simp del]

lemma hexdigit_digit_char: "d < 16 \<Longrightarrow> hexdigit d = digit_char d"
  by (simp add: hexdigit_def digit_char_def)

lemma itoa_digits_map: "base \<le> 16 \<Longrightarrow> itoa_digits base uval = map digit_char (digits_of base uval)"
proof (induction base uval rule: digits_of.induct)
  case (1 base uval)
  show ?case
  proof (cases "uval = 0 \<or> base \<le> 1")
    case False
    have "uval mod base < base" using False by simp
    then have "uval mod base < 16" using 1(2) by linarith
    with 1 False show ?thesis
      by (simp add: itoa_digits.simps [of base uval] digits_of.simps [of base uval] hexdigit_digit_char)
  qed (simp add: itoa_digits.simps [of base uval] digits_of.simps [of base uval])
qed

lemma digits_of_bound: "d \<in> set (digits_of base uval) \<Longrightarrow> d < base"
proof (induction base uval rule: digits_of.induct)
  case (1 base uval)
  then show ?case by (subst (asm) digits_of.simps) (auto split: if_splits)
qed

lemma digits_of_length: "2 \<le> base \<Longrightarrow> uval < base ^ k \<Longrightarrow> length (digits_of base uval) \<le> k"
proof (induction k arbitrary: uval)
  case 0
  then show ?case by (simp add: digits_of.simps)
next
  case (Suc k)
  have "uval div base < base ^ k" using Suc.prems by (simp add: less_mult_imp_div_less mult.commute)
  then show ?case using Suc by (simp add: digits_of.simps [of base uval])
qed

lemma digits_of_value: "2 \<le> base \<Longrightarrow> horner base 0 (rev (digits_of base uval)) = uval"
proof (induction base uval rule: digits_of.induct)
  case (1 base uval)
  show ?case
  proof (cases "uval = 0")
    case False
    with 1 show ?thesis by (simp add: digits_of.simps [of base uval] horner_append)
  qed (simp add: digits_of.simps)
qed

lemma horner_zeros: "horner base 0 (replicate k 0 @ ds) = horner base 0 ds"
  by (induction k) auto

lemma digit_char_0: "digit_char 0 = CHR ''0''"
  by code_simp

lemma digits_of_64:
  assumes "2 \<le> base" "uval < 2 ^ 64"
  shows "length (digits_of base uval) \<le> 64"
proof -
  have "uval < base ^ 64" using assms power_mono [of 2 base 64] by linarith
  then show ?thesis by (rule digits_of_length [OF assms(1)])
qed

lemma sint_nat_u32: "k < 2 ^ 31 \<Longrightarrow> sint (of_nat k :: u32) = int k"
  by (simp add: signed_of_nat signed_take_bit_int_eq_self)

lemma terminate_write:
  assumes "n \<noteq> 0"
  shows "(if length out < n then (mem_write m s (take n out))(s + length out := NUL)
     else (mem_write m s (take n out))(s + n - 1 := NUL)) = mem_write m s (take (n - 1) out @ [NUL])"
proof (cases "length out < n")
  case True
  then have "take (n - 1) out = out" by simp
  then show ?thesis using True by (simp add: mem_write_snoc)
next
  case False
  define pre where "pre = take (n - Suc 0) out"
  have l: "length pre = n - 1" using False by (simp add: pre_def)
  have "take n out = pre @ [out ! (n - 1)]"
    using False assms take_Suc_conv_app_nth [of "n - 1" out] by (simp add: pre_def)
  then show ?thesis using False assms l by (simp add: mem_write_snoc pre_def [symmetric])
qed

lemma sprintf_text:
  assumes "printf_text fmt args = Done (out, True)" "0 < s" "s + length out < 2 ^ 32 - 1" "length out < 2 ^ 31"
  shows "sprintf m s fmt args = Done (mem_write m s (out @ [NUL]), int (length out))"
proof -
  have i: "sint (of_int (int (s + length out) - int s) :: u32) = int (length out)"
    using sint_nat_u32 [OF assms(4)] by simp
  have t: "(s + SIZE_MAX) mod 2 ^ 32 = s - 1"
    using assms(2,3) le_mod_geq [of "2 ^ 32" "s + SIZE_MAX"] by (simp add: SIZE_MAX_def)
  have "snprintf_loop m s UINTPTR_MAX fmt args = Done (mem_write m s out, Some (s + length out))"
    using snprintf_loop_text [OF assms(1,2), of m UINTPTR_MAX] assms(3) by (simp add: UINTPTR_MAX_def)
  then show ?thesis
    unfolding sprintf_def vsprintf_def vsnprintf_def snprintf_impl_def Let_def t
    using assms(2,3) i by (simp add: UINTPTR_MAX_def SIZE_MAX_def mem_write_snoc)
qed

text \<open>The digits of a 32-bit argument, with at least one digit.\<close>

definition min1_digits :: "nat \<Rightarrow> nat \<Rightarrow> nat list" where
  "min1_digits base uval = replicate (1 - length (digits_of base uval)) 0 @ rev (digits_of base uval)"

lemma min1_digits_props:
  assumes "2 \<le> base" "uval < 2 ^ 64"
  shows "\<forall>d\<in>set (min1_digits base uval). d < base" "horner base 0 (min1_digits base uval) = uval"
    "length (min1_digits base uval) \<le> 64"
  using digits_of_bound [of _ base uval] digits_of_value [of base uval] digits_of_64 [OF assms] assms(1)
  by (auto simp: min1_digits_def horner_zeros)

lemma digit_char_nonNUL: "\<forall>d\<in>set ds. d < 16 \<Longrightarrow> NUL \<notin> set (map digit_char ds)"
proof
  assume ds: "\<forall>d\<in>set ds. d < 16" and "NUL \<in> set (map digit_char ds)"
  then obtain d where "d \<in> set ds" "digit_char d = NUL" by auto
  with ds schar_digit_char [of d] show False by (simp split: if_splits)
qed

lemma number_text_plain:
  assumes "base \<in> {10, 16}" "uval < 2 ^ 64" "fs_w spec = - 1" "fs_p spec = - 1"
  shows "number_text spec prefix uval base False False = Done (prefix @ map digit_char (min1_digits base uval))"
proof -
  have b: "2 \<le> base" "base \<le> 16" using assms(1) by auto
  have d: "replicate (1 - length (rev (itoa_digits base uval))) (CHR ''0'') @ rev (itoa_digits base uval) =
      map digit_char (min1_digits base uval)"
    using b by (simp add: min1_digits_def itoa_digits_map rev_map digit_char_0)
  have p: "(if fs_p spec = WP_NONE then 1 else nat (fs_p spec)) = 1" using assms(4) by (simp add: WP_NONE_def)
  show ?thesis
    unfolding number_text_def Let_def p d
    using min1_digits_props(3) [OF b(1) assms(2)] assms(3,4) by (simp add: DIGITBUFSZ_def pad_text_def)
qed

lemma unat_u32_lt: "unat (v :: u32) < 4294967296"
  using unsigned_less [where ?'a = nat, of v] by simp

lemma unat_u64_ucast [simp]: "unat (ucast (v :: u32) :: u64) = unat v"
  using unat_u32_lt [of v] by (simp add: unsigned_ucast_eq take_bit_nat_eq_self)

lemma unat_u32_64: "unat (v :: u32) < 18446744073709551616"
  using unat_u32_lt [of v] by simp

lemma printf_u: "printf_text ''%u'' [VWord v] = Done (map digit_char (min1_digits 10 (unat v)), True)"
proof -
  have "spec_text ''u'' [VWord v] fmtspec_init False True 1 = Done (map digit_char (min1_digits 10 (unat v)), '''', [])"
    by (simp add: FMTCPYSZ_def parse_char_def isdigit_def schar_def Let_def conv_text_def unsigned_text_def
        fmtspec_init_def WP_NONE_def va_arg_unsigned_def number_text_plain unat_u32_64)
  then show ?thesis by (simp add: printf_text.simps [of "''%u''"] printf_text.simps [of "[]"] del: One_nat_def spec_text.simps)
qed

lemma printf_x:
  assumes "v \<noteq> 0"
  shows "printf_text ''%#x'' [VWord v] = Done (''0x'' @ map digit_char (min1_digits 16 (unat v)), True)"
proof -
  have "(ucast v :: u64) \<noteq> 0" using assms by (metis unat_u64_ucast unat_0 unat_eq_zero)
  then have "spec_text ''#x'' [VWord v] fmtspec_init False True 1 = Done (''0x'' @ map digit_char (min1_digits 16 (unat v)), '''', [])"
    by (simp add: FMTCPYSZ_def parse_char_def isdigit_def schar_def Let_def conv_text_def unsigned_text_def
        fmtspec_init_def WP_NONE_def va_arg_unsigned_def number_text_plain unat_u32_64 base_prefix_def)
  then show ?thesis by (simp add: printf_text.simps [of "''%#x''"] printf_text.simps [of "[]"] del: One_nat_def spec_text.simps)
qed

lemma sprintf_number:
  assumes "0 < s" "s + 128 < 2 ^ 32"
    and "printf_text fmt args = Done (prefix @ map digit_char (min1_digits base (unat (v :: u32))), True)"
    and "base = 10 \<and> prefix = '''' \<or> base = 16 \<and> prefix = ''0x''"
  shows "\<exists>m' d. sprintf m s fmt args = Done (m', int (length d)) \<and> cstr m' s d \<and> atoi d = sint v"
proof -
  let ?d = "prefix @ map digit_char (min1_digits base (unat v))"
  have b: "2 \<le> base" "base \<le> 16" using assms(4) by auto
  have "unat v < 2 ^ 64" using unat_u32_64 [of v] by simp
  note md = min1_digits_props [OF b(1) this]
  have len: "length ?d \<le> 66" using md(3) assms(4) by auto
  have "sprintf m s fmt args = Done (mem_write m s (?d @ [NUL]), int (length ?d))"
    by (rule sprintf_text) (use assms len in auto)
  moreover have "\<forall>d\<in>set (min1_digits base (unat v)). d < 16" using md(1) b by fastforce
  then have "NUL \<notin> set ?d" using digit_char_nonNUL assms(4) by auto
  then have "cstr (mem_write m s (?d @ [NUL])) s ?d" by (rule cstr_write)
  moreover have "atoi ?d = sint v"
    using assms(4) atoi_decimal_digits [of "min1_digits base (unat v)" 0] atoi_hex_digits [of "min1_digits base (unat v)" 0] md(1,2)
    by auto
  ultimately show ?thesis by blast
qed

lemma snprintf_text:
  assumes "printf_text fmt args = Done (out, True)" "0 < s" "s + n < 2 ^ 32" "s + length out < 2 ^ 32" "length out < 2 ^ 31"
  shows "snprintf m s n fmt args =
    Done (if n = 0 then m else mem_write m s (take (n - 1) out @ [NUL]), int (length out))"
proof -
  have i: "sint (of_int (int (s + length out) - int s) :: u32) = int (length out)"
    using sint_nat_u32 [OF assms(5)] by simp
  have l: "snprintf_loop m s (s + n) fmt args = Done (mem_write m s (take n out), Some (s + length out))"
    using snprintf_loop_text [OF assms(1,2,4), of m "s + n"] by simp
  have t: "(s + n) mod 2 ^ 32 = s + n" using assms(3) by simp
  show ?thesis
    unfolding snprintf_def snprintf_impl_def Let_def t if_not_P [OF not_add_less1] l conv.case prod.case option.case i
    using terminate_write [of n out m s] by simp
qed

section \<open>Properties\<close>

text \<open>
  Property C9. \<open>snprintf\<close> refines the reference text: on a format all of whose conversions are supported
  it stores the longest prefix of the text that fits in \<open>n - 1\<close> bytes, then a terminator, changes no
  other byte, and returns the length of the whole text, even when it does not fit. With \<open>n = 0\<close> it
  stores nothing.
\<close>

theorem snprintf_refines_text:
  assumes "printf_text fmt args = Done (out, True)" "0 < s" "s + n < 2 ^ 32" "s + length out < 2 ^ 32" "length out < 2 ^ 31"
  shows "snprintf m s n fmt args =
    Done (if n = 0 then m else mem_write m s (take (n - 1) out @ [NUL]), int (length out))"
  using snprintf_text [OF assms] .

theorem snprintf_refines_text_witness:
  "snprintf (\<lambda>a. NUL) 16 4 ''x=%d!'' [VWord (- 5)] =
     Done (mem_write (\<lambda>a. NUL) 16 (''x=-'' @ [NUL]), 5)"
proof -
  have "printf_text ''x=%d!'' [VWord (- 5)] = Done (''x=-5!'', True)" by code_simp
  from snprintf_refines_text [OF this, of 16 4] show ?thesis by simp
qed

text \<open>
  On an unsupported conversion \<open>snprintf\<close> returns \<open>-ENOTSUP\<close> and has stored, without a
  terminator, the part of the text before that conversion that fits in the buffer.
\<close>

theorem snprintf_unsupported:
  assumes "printf_text fmt args = Done (out, False)" "0 < s" "s + n < 2 ^ 32" "s + length out < 2 ^ 32"
  shows "snprintf m s n fmt args = Done (mem_write m s (take n out), err ENOTSUP)"
proof -
  have l: "snprintf_loop m s (s + n) fmt args = Done (mem_write m s (take n out), None)"
    using snprintf_loop_text [OF assms(1,2,4), of m "s + n"] by simp
  have t: "(s + n) mod 2 ^ 32 = s + n" using assms(3) by simp
  show ?thesis
    unfolding snprintf_def snprintf_impl_def Let_def t if_not_P [OF not_add_less1] l by simp
qed

theorem snprintf_unsupported_witness:
  "snprintf (\<lambda>a. NUL) 16 9 ''ab%f'' [VWord 0] = Done (mem_write (\<lambda>a. NUL) 16 ''ab'', err ENOTSUP)"
proof -
  have "printf_text ''ab%f'' [VWord 0] = Done (''ab'', False)" by code_simp
  from snprintf_unsupported [OF this, of 16 9] show ?thesis by simp
qed

text \<open>
  With the null buffer of a length query, a conversion that produces no text is taken for
  a failed one: \<open>snprintf(NULL, 0, "%s", "")\<close> returns \<open>-ENOTSUP\<close> and not 0.
\<close>

theorem snprintf_null_empty: "snprintf m 0 0 ''%s'' [VStr a ''''] = Done (m, err ENOTSUP)"
proof -
  have s: "spec_text ''s'' [VStr a ''''] fmtspec_init False True 1 = Done ('''', '''', [])"
    by (simp add: FMTCPYSZ_def parse_char_def isdigit_def conv_text_def pad_text_def fmtspec_init_def WP_NONE_def INT_MAX_def Let_def schar_def)
  show ?thesis
    unfolding snprintf_def snprintf_impl_def
    by (simp add: snprintf_loop.simps [of m 0 0 "''%s''"] process_conversion_def conversion_loop_text s
        del: One_nat_def spec_text.simps)
qed

text \<open>
  Property C38. \<open>itoa\<close> converts every 64-bit value in every base from 2 to 16 at any precision below its
  buffer size without overflowing the buffer. The result is a list of digits below the base whose
  value is the number; it is as long as the precision and the number need, except for one more
  leading zero that \<open>CF_OCTALPREFIX\<close> adds when there is none.
\<close>

theorem itoa_correct:
  assumes "2 \<le> base" "base \<le> 16" "uval < 2 ^ 64" "precision < DIGITBUFSZ"
  shows "\<exists>ds. itoa uval base precision oct = Some (map digit_char ds) \<and> (\<forall>d\<in>set ds. d < base) \<and>
    horner base 0 ds = uval \<and> (oct \<longrightarrow> ds \<noteq> [] \<and> hd ds = 0) \<and>
    length ds \<in> (\<lambda>k. max precision (length (digits_of base uval)) + k) ` {0, if oct then 1 else 0}"
proof -
  define ds0 where "ds0 = replicate (precision - length (digits_of base uval)) 0 @ rev (digits_of base uval)"
  define ds where "ds = (if oct \<and> (ds0 = [] \<or> hd ds0 \<noteq> 0) then 0 # ds0 else ds0)"
  have len0: "length ds0 = max precision (length (digits_of base uval))" by (simp add: ds0_def)
  have b: "d < base" if "d \<in> set ds0" for d using that assms(1) digits_of_bound [of d base uval] by (auto simp: ds0_def)
  have hd0: "digit_char (hd ds0) = CHR ''0'' \<longleftrightarrow> hd ds0 = 0" if "ds0 \<noteq> []"
    using b [of "hd ds0"] that assms(2) schar_digit_char [of "hd ds0"] digit_char_0
    by (auto simp: schar_def split: if_splits)
  have m: "replicate (precision - length (rev (itoa_digits base uval))) (CHR ''0'') @ rev (itoa_digits base uval) = map digit_char ds0"
    using assms(2) by (simp add: ds0_def itoa_digits_map rev_map digit_char_0)
  have "length ds \<le> DIGITBUFSZ"
    using digits_of_64 [OF assms(1,3)] assms(4) len0 by (auto simp: ds_def DIGITBUFSZ_def)
  then have "itoa uval base precision oct = Some (map digit_char ds)"
    unfolding itoa_text Let_def m using hd0 by (cases "ds0 = []") (auto simp: ds_def digit_char_0 hd_map)
  moreover have "horner base 0 ds = uval"
    using digits_of_value [OF assms(1)] by (simp add: ds_def ds0_def horner_zeros)
  ultimately show ?thesis using b len0 assms(1) by (intro exI [of _ ds]) (auto simp: ds_def)
qed

theorem itoa_correct_witness: "itoa 420 8 2 True = Some ''0644''"
proof -
  obtain ds where ds: "itoa 420 8 2 True = Some (map digit_char ds)" "horner 8 0 ds = 420"
      "ds \<noteq> []" "hd ds = 0" "length ds \<in> (\<lambda>k. max 2 (length (digits_of 8 420)) + k) ` {0, 1}"
    using itoa_correct [of 8 420 2 True] by (auto simp: DIGITBUFSZ_def)
  then show ?thesis by code_simp
qed

text \<open>
  Printing and reading back: \<open>sprintf\<close> with \<open>%u\<close> stores a terminated string from which
  \<open>atoi\<close> recovers the argument, for every 32-bit value, and with \<open>%#x\<close> for every value but 0.
\<close>

theorem sprintf_atoi_roundtrip:
  assumes "0 < s" "s + 128 < 2 ^ 32"
  shows "(\<exists>m' d. sprintf m s ''%u'' [VWord v] = Done (m', int (length d)) \<and> cstr m' s d \<and> atoi d = sint v) \<and>
    (v \<noteq> 0 \<longrightarrow> (\<exists>m' d. sprintf m s ''%#x'' [VWord v] = Done (m', int (length d)) \<and> cstr m' s d \<and> atoi d = sint v))"
  using sprintf_number [OF assms, of "''%u''" "[VWord v]" "''''" 10 v m]
    sprintf_number [OF assms, of "''%#x''" "[VWord v]" "''0x''" 16 v m] printf_u printf_x by simp

theorem sprintf_atoi_roundtrip_witness:
  "\<exists>m' d. sprintf (\<lambda>a. NUL) 4096 ''%u'' [VWord 42] = Done (m', int (length d)) \<and> cstr m' 4096 d \<and> atoi d = 42"
  using sprintf_atoi_roundtrip [of 4096 "\<lambda>a. NUL" 42] by simp

end
