(* ===== verification/Text_Util.thy ===== *)
theory Text_Util
  imports Sprintf
begin

text \<open>
  The clients of \<open>snprintf\<close> that build a text in a bounded buffer: \<open>core/path.c\<close>, the error strings of
  \<open>core/string_strerror.c\<close>, \<open>flagstr\<close> and the log lines of \<open>drivers/log.c\<close>, and \<open>vfprintf\<close> of
  \<open>mulibc/stdio.c\<close>.

  Most of them repeat \<open>pos += snprintf(pos, BUFREM(pos, end), ...)\<close>; this is \<open>bufprintf\<close>, and
  \<open>wrote\<close> is its invariant: the buffer holds the longest prefix of the text so far that fits, and \<open>pos\<close>
  counts the whole text. Strings passed in are values: they do not overlap the destination.
\<close>

section \<open>Appending to a bounded buffer\<close>

definition bufprintf :: "nat \<Rightarrow> string \<Rightarrow> va_slot list \<Rightarrow> mem \<times> nat \<Rightarrow> (mem \<times> nat) conv" where
  "bufprintf end' fmt args st =
    (case snprintf (fst st) (snd st) (BUFREM (snd st) end') fmt args of
       UB \<Rightarrow> UB
     | Unsupported \<Rightarrow> Unsupported
     | Done (m', res) \<Rightarrow> Done (m', nat ((int (snd st) + res) mod 2 ^ 32)))"

definition wrote :: "mem \<Rightarrow> nat \<Rightarrow> nat \<Rightarrow> string \<Rightarrow> mem \<times> nat \<Rightarrow> bool" where
  "wrote m0 buf n out st \<longleftrightarrow>
    st = (if n = 0 then m0 else mem_write m0 buf (take (n - 1) out @ [NUL]), buf + length out)"

definition fits_space :: "nat \<Rightarrow> nat \<Rightarrow> nat \<Rightarrow> bool" where
  "fits_space buf n len \<longleftrightarrow> 0 < buf \<and> buf + n < 2 ^ 32 \<and> buf + len < 2 ^ 32 \<and> len < 2 ^ 31"

fun conv_bind :: "'a conv \<Rightarrow> ('a \<Rightarrow> 'b conv) \<Rightarrow> 'b conv" where
  "conv_bind UB f = UB"
| "conv_bind Unsupported f = Unsupported"
| "conv_bind (Done x) f = f x"

lemma bufprintf_first:
  assumes "printf_text fmt args = Done (out, True)" "fits_space buf n (length out)"
  shows "bufprintf (buf + n) fmt args (m0, buf) =
    Done (if n = 0 then m0 else mem_write m0 buf (take (n - 1) out @ [NUL]), buf + length out)"
proof -
  have b: "BUFREM buf (buf + n) = n" by (simp add: BUFREM_def)
  have "snprintf m0 buf n fmt args = Done (if n = 0 then m0 else mem_write m0 buf (take (n - 1) out @ [NUL]), int (length out))"
    by (rule snprintf_text) (use assms in \<open>auto simp: fits_space_def\<close>)
  moreover have "nat ((int buf + int (length out)) mod 2 ^ 32) = buf + length out"
    using assms(2) by (simp add: fits_space_def nat_mod_distrib nat_add_distrib flip: of_nat_add)
  ultimately show ?thesis by (simp add: bufprintf_def b)
qed

lemma mem_write_over:
  assumes "0 < n"
  shows "(if n - length out = 0 then mem_write m buf (take (n - 1) out @ [NUL])
     else mem_write (mem_write m buf (take (n - 1) out @ [NUL])) (buf + length out) (take (n - length out - 1) o2 @ [NUL])) =
   mem_write m buf (take (n - 1) (out @ o2) @ [NUL])"
proof (cases "length out < n")
  case True
  let ?w = "take (n - length out - 1) o2"
  have t: "take (n - 1) out = out" using True by simp
  have "mem_write (mem_write m buf (out @ [NUL])) (buf + length out) (?w @ [NUL]) = mem_write m buf (out @ ?w @ [NUL])"
    by (cases "?w @ [NUL]") (auto simp: mem_write_append mem_write_Cons fun_upd_upd)
  then show ?thesis using True t by (simp add: diff_diff_left add.commute)
next
  case False
  then show ?thesis by simp
qed

lemma bufprintf_next:
  assumes "wrote m0 buf n out st" "printf_text fmt args = Done (o2, True)" "fits_space buf n (length out + length o2)"
  shows "\<exists>st'. bufprintf (buf + n) fmt args st = Done st' \<and> wrote m0 buf n (out @ o2) st'"
proof -
  let ?m = "if n = 0 then m0 else mem_write m0 buf (take (n - 1) out @ [NUL])"
  have st: "st = (?m, buf + length out)" using assms(1) by (simp add: wrote_def)
  have b: "BUFREM (buf + length out) (buf + n) = n - length out" by (simp add: BUFREM_def)
  have sn: "snprintf ?m (buf + length out) (n - length out) fmt args =
      Done (if n - length out = 0 then ?m else mem_write ?m (buf + length out) (take (n - length out - 1) o2 @ [NUL]), int (length o2))"
    by (rule snprintf_text [OF assms(2)]) (use assms(3) in \<open>auto simp: fits_space_def\<close>)
  have p: "nat ((int (buf + length out) + int (length o2)) mod 2 ^ 32) = buf + length (out @ o2)"
    using assms(3) by (simp add: fits_space_def nat_mod_distrib nat_add_distrib add.assoc flip: of_nat_add)
  have w: "(if n - length out = 0 then ?m else mem_write ?m (buf + length out) (take (n - length out - 1) o2 @ [NUL])) =
      (if n = 0 then m0 else mem_write m0 buf (take (n - 1) (out @ o2) @ [NUL]))"
  proof (cases "n = 0")
    case False
    then show ?thesis unfolding if_not_P [OF False] by (intro mem_write_over) simp
  qed simp
  show ?thesis
    unfolding bufprintf_def st fst_conv snd_conv b sn conv.case prod.case p w wrote_def by blast
qed

lemma wrote_first:
  assumes "printf_text fmt args = Done (out, True)" "fits_space buf n (length out)"
  shows "\<exists>st'. bufprintf (buf + n) fmt args (m0, buf) = Done st' \<and> wrote m0 buf n out st'"
  using bufprintf_first [OF assms] by (simp add: wrote_def)

section \<open>Paths: core/path.c\<close>

text \<open>A null pointer is \<^const>\<open>None\<close>. \<open>path_join\<close> gives the memory and the returned length.\<close>

definition path_join :: "mem \<Rightarrow> nat \<Rightarrow> nat \<Rightarrow> string option \<Rightarrow> string option \<Rightarrow> (mem \<times> int) conv" where
  "path_join m dst dstsz a b =
    (let end' = dst + dstsz;
         path_isabs = (case b of None \<Rightarrow> False | Some t \<Rightarrow> ch0 t = CHR ''/'');
         st = Done (m, dst);
         st = (case a of
                 Some s \<Rightarrow>
                   (if path_isabs then st
                    else conv_bind (conv_bind st (bufprintf end' ''%s'' [VStr 0 s]))
                      (\<lambda>(m, pos). if b \<noteq> None \<and> pos \<noteq> dst \<and> m (pos - 1) \<noteq> CHR ''/''
                                  then bufprintf end' ''%s'' [VStr 0 ''/''] (m, pos) else Done (m, pos)))
               | None \<Rightarrow> st);
         st = (case b of Some t \<Rightarrow> conv_bind st (bufprintf end' ''%s'' [VStr 0 t]) | None \<Rightarrow> st)
     in conv_bind st (\<lambda>(m, pos). Done (m, int pos - int dst)))"

text \<open>The pointers are addresses; the result is a position in \<open>path\<close>, or a null pointer.\<close>

definition path_strip_prefix :: "mem \<Rightarrow> nat option \<Rightarrow> nat option \<Rightarrow> nat option option" where
  "path_strip_prefix m path prefix =
    (case path of
       None \<Rightarrow> Some None
     | Some p \<Rightarrow>
         (case prefix of
            None \<Rightarrow> Some (Some p)
          | Some q \<Rightarrow>
              (case strlen m q of
                 None \<Rightarrow> None
               | Some prefixlen \<Rightarrow>
                   (if strncmp m p q prefixlen \<noteq> 0 then Some None
                    else let pos = p + prefixlen
                         in Some (Some (if m pos = CHR ''/'' then pos + 1 else pos))))))"

text \<open>The scan for the last and the second-to-last slash; positions are indices into the path.\<close>

fun scan_slashes :: "string \<Rightarrow> nat \<Rightarrow> nat \<Rightarrow> nat \<Rightarrow> nat \<times> nat \<times> nat" where
  "scan_slashes [] pos prevslash lastslash = (prevslash, lastslash, pos)"
| "scan_slashes (c # cs) pos prevslash lastslash =
    (if c = CHR ''/'' then scan_slashes cs (pos + 1) lastslash (pos + 1)
     else scan_slashes cs (pos + 1) prevslash lastslash)"

definition path_basename :: "mem \<Rightarrow> nat \<Rightarrow> nat \<Rightarrow> string option \<Rightarrow> (mem \<times> int) conv" where
  "path_basename m dst dstsz path =
    (case path of
       None \<Rightarrow> Done (m, 0)
     | Some p \<Rightarrow>
         (if p = ''/'' then snprintf m dst dstsz ''/'' []
          else let (prevslash, lastslash, pend) = scan_slashes p 0 0 0;
                   (nstart, nend) = (if lastslash = pend then (prevslash, int pend - 1) else (lastslash, int pend));
                   nlen = nend - int nstart
               in snprintf m dst dstsz ''%.*s'' [VWord (of_int nlen), VStr 0 (drop nstart p)]))"

section \<open>Error strings: core/string\_strerror.c\<close>

definition format_unknown :: "mem \<Rightarrow> nat \<Rightarrow> nat \<Rightarrow> int \<Rightarrow> (mem \<times> int) conv" where
  "format_unknown m dst n errnum = snprintf m dst n ''E%d'' [VWord (of_int errnum)]"

definition strerror_s :: "mem \<Rightarrow> nat \<Rightarrow> nat \<Rightarrow> int \<Rightarrow> (mem \<times> int) conv" where
  "strerror_s m dst n errnum =
    (case known_constant errnum of
       Some known \<Rightarrow> snprintf m dst n ''%s'' [VStr 0 known]
     | None \<Rightarrow> format_unknown m dst n errnum)"

text \<open>\<open>strerror\<close> returns a constant, or its static buffer of 10 bytes at \<open>err_buf\<close>.\<close>

definition strerror :: "mem \<Rightarrow> nat \<Rightarrow> int \<Rightarrow> (mem \<times> (string + nat)) conv" where
  "strerror m err_buf errnum =
    (case known_constant errnum of
       Some known \<Rightarrow> Done (m, Inl known)
     | None \<Rightarrow> conv_bind (format_unknown m err_buf 10 errnum) (\<lambda>(m, res). Done (m, Inr err_buf)))"

section \<open>Flag strings and log lines: drivers/log.c\<close>

fun flagstr_loop :: "nat \<Rightarrow> mem \<Rightarrow> nat \<Rightarrow> u32 \<Rightarrow> nat \<Rightarrow> string \<Rightarrow> string option \<Rightarrow> mem" where
  "flagstr_loop 0 m dest flags count src1 src0 = m"
| "flagstr_loop (Suc k) m dest flags count src1 src0 =
    (let i = count - Suc k;
         b = bit flags i;
         pos = count - 1 - i
     in flagstr_loop k (m(dest + pos := (if b then src1 ! pos else case src0 of Some s0 \<Rightarrow> s0 ! pos | None \<Rightarrow> CHR ''-'')))
          dest flags count src1 src0)"

text \<open>The loop runs \<open>i\<close> up to \<open>count\<close>; its recursion counts the iterations left.\<close>

definition flagstr :: "mem \<Rightarrow> nat \<Rightarrow> u32 \<Rightarrow> nat \<Rightarrow> string \<Rightarrow> string option \<Rightarrow> mem" where
  "flagstr m dest flags count src1 src0 = flagstr_loop count (m(dest + count := NUL)) dest flags count src1 src0"

datatype log_level = LOG_ERROR | LOG_WARN | LOG_INFO | LOG_DEBUG | LOG_TRACE

fun LVLSTRS :: "log_level \<Rightarrow> string" where
  "LVLSTRS LOG_ERROR = ''error''"
| "LVLSTRS LOG_WARN = ''warning''"
| "LVLSTRS LOG_INFO = ''info''"
| "LVLSTRS LOG_DEBUG = ''debug''"
| "LVLSTRS LOG_TRACE = ''trace''"

record log_extra =
  le_result :: "int option"
  le_postfix :: "string option"
  le_valname :: "string option"
  le_tblhw :: nat
  le_valdecode :: "string option"

definition DEFAULT_BUFSZ :: nat where "DEFAULT_BUFSZ = 256"

text \<open>
  \<open>errbuf\<close> is the address of the local buffer for the error name. Each call that returns a negative
  value ends the function with it; as a formatted length it is negative only on failure.
\<close>

fun log_step :: "nat \<Rightarrow> string \<Rightarrow> va_slot list \<Rightarrow> (mem \<times> nat, mem \<times> int) sum conv \<Rightarrow> (mem \<times> nat, mem \<times> int) sum conv" where
  "log_step end' fmt args (Done (Inl (m, pos))) =
    (case snprintf m pos (BUFREM pos end') fmt args of
       UB \<Rightarrow> UB
     | Unsupported \<Rightarrow> Unsupported
     | Done (m', res) \<Rightarrow>
         (if res < 0 then Done (Inr (m', res)) else Done (Inl (m', nat ((int pos + res) mod 2 ^ 32)))))"
| "log_step end' fmt args r = r"

fun log_result_step :: "nat \<Rightarrow> nat \<Rightarrow> int option \<Rightarrow> (mem \<times> nat, mem \<times> int) sum conv \<Rightarrow> (mem \<times> nat, mem \<times> int) sum conv" where
  "log_result_step end' errbuf None r = r"
| "log_result_step end' errbuf (Some res) r =
    (if res = 0 then log_step end' ''[OK] '' [] r
     else if res < 0 then
       (case r of
          Done (Inl (m, pos)) \<Rightarrow>
            (case strerror_s m errbuf DEFAULT_BUFSZ (- res) of
               UB \<Rightarrow> UB
             | Unsupported \<Rightarrow> Unsupported
             | Done (m', _) \<Rightarrow>
                 log_step end' ''[-%s] '' [VStr 0 (takeWhile (\<lambda>c. c \<noteq> NUL) (mem_read m' errbuf DEFAULT_BUFSZ))]
                   (Done (Inl (m', pos))))
        | _ \<Rightarrow> r)
     else log_step end' ''[%d] '' [VWord (of_int res)] r)"

definition log_vsnprintf ::
    "mem \<Rightarrow> nat \<Rightarrow> nat \<Rightarrow> nat \<Rightarrow> log_level \<Rightarrow> string \<Rightarrow> log_extra option \<Rightarrow> string \<Rightarrow> va_slot list \<Rightarrow> (mem \<times> int) conv" where
  "log_vsnprintf m buf n errbuf lvl prefix x fmt va =
    (let end' = buf + n;
         r = log_step end' ''%-7s: '' [VStr 0 (LVLSTRS lvl)] (Done (Inl (m, buf)));
         r = (case x of Some x \<Rightarrow> log_result_step end' errbuf (le_result x) r | None \<Rightarrow> r);
         r = log_step end' ''%s: '' [VStr 0 prefix] r;
         r = (case x of
                Some x \<Rightarrow> (case le_valname x of
                             Some v \<Rightarrow> log_step end' ''%-*s: '' [VWord (of_nat (le_tblhw x)), VStr 0 v] r
                           | None \<Rightarrow> r)
              | None \<Rightarrow> r);
         r = log_step end' fmt va r;
         r = (case x of
                Some x \<Rightarrow> (case le_valdecode x of Some v \<Rightarrow> log_step end' '' (%s)'' [VStr 0 v] r | None \<Rightarrow> r)
              | None \<Rightarrow> r);
         r = (case x of
                Some x \<Rightarrow> (case le_postfix x of Some v \<Rightarrow> log_step end' ''%s'' [VStr 0 v] r | None \<Rightarrow> r)
              | None \<Rightarrow> r)
     in case r of
          UB \<Rightarrow> UB
        | Unsupported \<Rightarrow> Unsupported
        | Done (Inl (m, pos)) \<Rightarrow> Done (m, int pos - int buf)
        | Done (Inr (m, res)) \<Rightarrow> Done (m, res))"

section \<open>The text of the formats in use\<close>

lemma printf_nil [simp]: "printf_text [] args = Done ('''', True)"
  by (simp add: printf_text.simps)

lemma printf_lit: "c \<noteq> CHR ''%'' \<Longrightarrow> printf_text (c # fmt) args = prepend [c] (printf_text fmt args)"
  by (simp add: printf_text.simps [of "c # fmt"])

lemma printf_conv:
  "spec_text fmt args fmtspec_init False True 1 = Done (out, fmt', args') \<Longrightarrow>
   printf_text (CHR ''%'' # fmt) args = prepend out (printf_text fmt' args')"
  by (simp add: printf_text.simps [of "CHR ''%'' # fmt"])

lemmas spec_text_eval = FMTCPYSZ_def parse_char_def isdigit_def schar_def conv_text_def
  fmtspec_init_def WP_NONE_def INT_MAX_def pad_text_def Let_def

lemma printf_s: "printf_text (CHR ''%'' # CHR ''s'' # fmt) (VStr a s # args) = prepend s (printf_text fmt args)"
  by (rule printf_conv) (simp add: spec_text_eval)

lemma printf_s7:
  "printf_text (CHR ''%'' # CHR ''-'' # CHR ''7'' # CHR ''s'' # fmt) (VStr a s # args) =
   prepend (s @ replicate (7 - length s) (CHR '' '')) (printf_text fmt args)"
  by (rule printf_conv) (simp add: spec_text_eval add_digit_def get_wp_def set_wp_def)

lemma sint_nonneg_nat: "k < 2 ^ 31 \<Longrightarrow> \<not> sint (of_nat k :: u32) < 0"
  by (simp add: sint_nat_u32)

lemma printf_sw:
  "w < 2 ^ 31 \<Longrightarrow> printf_text (CHR ''%'' # CHR ''-'' # CHR ''*'' # CHR ''s'' # fmt) (VWord (of_nat w) # VStr a s # args) =
   prepend (s @ replicate (w - length s) (CHR '' '')) (printf_text fmt args)"
  by (rule printf_conv) (simp add: spec_text_eval star_wp_def set_wp_def sint_nat_u32)

lemma printf_ps:
  "w < 2 ^ 31 - 1 \<Longrightarrow> printf_text (CHR ''%'' # CHR ''.'' # CHR ''*'' # CHR ''s'' # fmt) (VWord (of_nat w) # VStr a s # args) =
   prepend (take w s) (printf_text fmt args)"
  by (rule printf_conv) (simp add: spec_text_eval star_wp_def set_wp_def sint_nat_u32)

lemma printf_ps_neg:
  "printf_text (CHR ''%'' # CHR ''.'' # CHR ''*'' # CHR ''s'' # fmt) (VWord (- 1) # VStr a s # args) =
   prepend s (printf_text fmt args)"
  by (rule printf_conv) (simp add: spec_text_eval star_wp_def set_wp_def)

text \<open>The decimal text of a signed number.\<close>

definition dec_text :: "int \<Rightarrow> string" where
  "dec_text i = (if i < 0 then ''-'' else '''') @ map digit_char (min1_digits 10 (nat \<bar>i\<bar>))"

lemma sint_of_int_range: "- (2 ^ 31) \<le> i \<Longrightarrow> i < 2 ^ 31 \<Longrightarrow> sint (of_int i :: u32) = i"
  by (simp add: signed_of_int signed_take_bit_int_eq_self)

lemma sint_scast_64: "sint (scast (v :: u32) :: u64) = sint v"
proof -
  have "- (2 ^ 63) \<le> sint v" "sint v < 2 ^ 63" using sint_ge [of v] sint_lt [of v] by simp_all
  then show ?thesis by (simp add: signed_scast_eq signed_take_bit_int_eq_self)
qed

lemma printf_d:
  assumes "- (2 ^ 31) \<le> i" "i < 2 ^ 31"
  shows "printf_text (CHR ''%'' # CHR ''d'' # fmt) (VWord (of_int i) # args) = prepend (dec_text i) (printf_text fmt args)"
proof (rule printf_conv)
  have b: "nat \<bar>i\<bar> < 18446744073709551616" using assms by simp
  have s: "sint (scast (of_int i :: u32) :: u64) = i" using sint_scast_64 sint_of_int_range [OF assms] by simp
  show "spec_text (CHR ''d'' # fmt) (VWord (of_int i) # args) fmtspec_init False True 1 = Done (dec_text i, fmt, args)"
    using assms by (simp add: spec_text_eval signed_text_def va_arg_signed_def s sign_prefix_def number_text_plain b dec_text_def)
qed

lemma dec_text_props:
  assumes "- (2 ^ 31) \<le> i" "i < 2 ^ 31"
  shows "length (dec_text i) \<le> 65" "NUL \<notin> set (dec_text i)"
proof -
  have b: "nat \<bar>i\<bar> < 2 ^ 64" using assms by simp
  note md = min1_digits_props [of 10, OF _ b, simplified]
  have "\<forall>d\<in>set (min1_digits 10 (nat \<bar>i\<bar>)). d < 16" using md(1) by fastforce
  then show "NUL \<notin> set (dec_text i)" using digit_char_nonNUL by (simp add: dec_text_def)
  show "length (dec_text i) \<le> 65" using md(3) by (auto simp: dec_text_def)
qed

section \<open>Paths\<close>

text \<open>The joined path.\<close>

fun join_text :: "string option \<Rightarrow> string option \<Rightarrow> string" where
  "join_text a (Some b) =
    (if ch0 b = CHR ''/'' then b
     else case a of
       None \<Rightarrow> b
     | Some s \<Rightarrow> if s = '''' \<or> last s = CHR ''/'' then s @ b else s @ ''/'' @ b)"
| "join_text (Some a) None = a"
| "join_text None None = ''''"

lemma bufprintf_s_next:
  assumes "wrote m0 buf n out st" "fits_space buf n (length out + length s)"
  shows "\<exists>st'. bufprintf (buf + n) ''%s'' [VStr a s] st = Done st' \<and> wrote m0 buf n (out @ s) st'"
  by (rule bufprintf_next [OF assms(1)]) (use assms(2) in \<open>simp_all add: printf_s\<close>)

lemma bufprintf_s_first:
  assumes "fits_space buf n (length s)"
  shows "\<exists>st'. bufprintf (buf + n) ''%s'' [VStr a s] (m0, buf) = Done st' \<and> wrote m0 buf n s st'"
  by (rule wrote_first) (use assms in \<open>simp_all add: printf_s\<close>)

lemma fits_space_mono: "fits_space buf n k \<Longrightarrow> j \<le> k \<Longrightarrow> fits_space buf n j"
  by (auto simp: fits_space_def)

lemma wrote_last_char:
  assumes "wrote m0 buf n out (m, pos)" "length out < n" "out \<noteq> []"
  shows "m (pos - 1) = last out"
proof -
  have t: "take (n - 1) out = out" using assms(2) by simp
  have "mem_write m0 buf (out @ [NUL]) (buf + (length out - 1)) = (out @ [NUL]) ! (length out - 1)"
    by (rule mem_write_inside) simp
  moreover have "buf + length out - 1 = buf + (length out - 1)" using assms(3) by (cases out) auto
  ultimately show ?thesis using assms t by (auto simp: wrote_def nth_append last_conv_nth)
qed

lemma path_join_wrote:
  assumes "a \<noteq> None \<or> b \<noteq> None" "fits_space dst n (length (join_text a b))" "\<And>s. a = Some s \<Longrightarrow> length s < n"
  shows "\<exists>m'. path_join m dst n a b = Done (m', int (length (join_text a b))) \<and>
    wrote m dst n (join_text a b) (m', dst + length (join_text a b))"
proof -
  have fin: "\<exists>m'. conv_bind (Done st) (\<lambda>(m, pos). Done (m, int pos - int dst)) = Done (m', int (length out)) \<and>
      wrote m dst n out (m', dst + length out)" if "wrote m dst n out st" for st out
    using that by (auto simp: wrote_def)
  show ?thesis
  proof (cases "case a of None \<Rightarrow> True | Some s \<Rightarrow> (case b of None \<Rightarrow> False | Some t \<Rightarrow> ch0 t = CHR ''/'')")
    case True
    then obtain t where b: "b = Some t" and j: "join_text a b = t" using assms(1) by (auto split: option.splits)
    obtain st where st: "bufprintf (dst + n) ''%s'' [VStr 0 t] (m, dst) = Done st" "wrote m dst n t st"
      using bufprintf_s_first [of dst n t 0 m] assms(2) j by auto
    show ?thesis using fin [OF st(2)] True unfolding path_join_def j by (auto simp: b st(1) split: option.splits)
  next
    case False
    then obtain s where a: "a = Some s" and nabs: "\<And>t. b = Some t \<Longrightarrow> ch0 t \<noteq> CHR ''/''" by (auto split: option.splits)
    have js: "length s \<le> length (join_text a b)" unfolding a using nabs by (cases b) auto
    obtain st where st: "bufprintf (dst + n) ''%s'' [VStr 0 s] (m, dst) = Done st" "wrote m dst n s st"
      using bufprintf_s_first [of dst n s 0 m] fits_space_mono [OF assms(2) js] by auto
    obtain m1 where m1: "st = (m1, dst + length s)" using st(2) by (auto simp: wrote_def)
    show ?thesis
    proof (cases b)
      case None
      then show ?thesis using fin [OF st(2)] st(1) by (simp add: path_join_def a)
    next
      case (Some t)
      let ?sl = "s \<noteq> '''' \<and> last s \<noteq> CHR ''/''"
      let ?mid = "if ?sl then s @ ''/'' else s"
      have j: "join_text a b = ?mid @ t" using nabs Some by (auto simp: a)
      have lc: "s \<noteq> '''' \<Longrightarrow> m1 (dst + length s - 1) = last s"
        using wrote_last_char [OF st(2) [unfolded m1] assms(3) [OF a]] by simp
      have "\<exists>st2. (if b \<noteq> None \<and> dst + length s \<noteq> dst \<and> m1 (dst + length s - 1) \<noteq> CHR ''/''
            then bufprintf (dst + n) ''%s'' [VStr 0 ''/''] (m1, dst + length s) else Done (m1, dst + length s)) = Done st2 \<and>
          wrote m dst n ?mid st2"
      proof (cases ?sl)
        case True
        have "fits_space dst n (length s + length ''/'')"
          by (rule fits_space_mono [OF assms(2)]) (use True j in simp)
        then show ?thesis
          using bufprintf_s_next [OF st(2), of "''/''" 0] True lc Some by (simp add: m1)
      next
        case False
        then show ?thesis using st(2) lc Some by (auto simp: m1)
      qed
      then obtain st2 where st2: "(if b \<noteq> None \<and> dst + length s \<noteq> dst \<and> m1 (dst + length s - 1) \<noteq> CHR ''/''
            then bufprintf (dst + n) ''%s'' [VStr 0 ''/''] (m1, dst + length s) else Done (m1, dst + length s)) = Done st2"
          "wrote m dst n ?mid st2" by blast
      obtain st3 where st3: "bufprintf (dst + n) ''%s'' [VStr 0 t] st2 = Done st3" "wrote m dst n (?mid @ t) st3"
        using bufprintf_s_next [OF st2(2), of t 0] assms(2) j by auto
      have "path_join m dst n a b = conv_bind (Done st3) (\<lambda>(m, pos). Done (m, int pos - int dst))"
        using nabs [OF Some] st2(1) by (simp add: path_join_def a Some st(1) m1 st3(1))
      then show ?thesis using fin [OF st3(2)] unfolding j by simp
    qed
  qed
qed

lemma scan_slashes_no_slash:
  "CHR ''/'' \<notin> set cs \<Longrightarrow> scan_slashes cs pos p l = (p, l, pos + length cs)"
  by (induction cs arbitrary: pos) auto

lemma scan_slashes_append:
  "scan_slashes (xs @ ys) pos p l = (case scan_slashes xs pos p l of (p', l', pos') \<Rightarrow> scan_slashes ys pos' p' l')"
  by (induction xs arbitrary: pos p l) auto

lemma scan_slashes_dir:
  assumes "dir = '''' \<or> last dir = CHR ''/''"
  shows "\<exists>p. scan_slashes dir 0 0 0 = (p, length dir, length dir)"
proof -
  have pos: "snd (snd (scan_slashes cs pos p l)) = pos + length cs" for cs pos p l
    by (induction cs arbitrary: pos p l) auto
  show ?thesis
  proof (cases dir rule: rev_cases)
    case Nil
    then show ?thesis by simp
  next
    case (snoc d c)
    then have "c = CHR ''/''" using assms by simp
    then show ?thesis using pos [of d 0 0 0] by (cases "scan_slashes d 0 0 0") (auto simp: snoc scan_slashes_append)
  qed
qed

lemma basename_parts:
  assumes "dir = '''' \<or> last dir = CHR ''/''" "name \<noteq> ''''" "CHR ''/'' \<notin> set name"
  shows "\<exists>p. scan_slashes (dir @ name) 0 0 0 = (p, length dir, length dir + length name)"
    "scan_slashes (dir @ name @ ''/'') 0 0 0 = (length dir, length dir + length name + 1, length dir + length name + 1)"
proof -
  obtain p where "scan_slashes dir 0 0 0 = (p, length dir, length dir)" using scan_slashes_dir [OF assms(1)] ..
  then show "\<exists>p. scan_slashes (dir @ name) 0 0 0 = (p, length dir, length dir + length name)"
    "scan_slashes (dir @ name @ ''/'') 0 0 0 = (length dir, length dir + length name + 1, length dir + length name + 1)"
    using scan_slashes_no_slash [OF assms(3)] by (auto simp: scan_slashes_append)
qed

section \<open>Properties: paths\<close>

text \<open>
  \<open>path_join\<close> puts the joined path into the destination, cut to its size and terminated, and
  returns the length of the whole path: an absolute second path replaces the first, otherwise a slash
  is put between the two unless the first is empty or ends with one. The first path must fit in the
  buffer, because the code reads its last character back from there.
\<close>

theorem path_join_correct:
  assumes "a \<noteq> None \<or> b \<noteq> None" "fits_space dst n (length (join_text a b))" "\<forall>s. a = Some s \<longrightarrow> length s < n"
  shows "path_join m dst n a b =
    Done (if n = 0 then m else mem_write m dst (take (n - 1) (join_text a b) @ [NUL]), int (length (join_text a b)))"
proof -
  from path_join_wrote [OF assms(1,2)] assms(3) show ?thesis by (auto simp: wrote_def)
qed

theorem path_join_correct_witness:
  "path_join (\<lambda>a. NUL) 64 16 (Some ''/dev'') (Some ''tty'') = Done (mem_write (\<lambda>a. NUL) 64 (''/dev/tty'' @ [NUL]), 8)"
  using path_join_correct [of "Some ''/dev''" "Some ''tty''" 64 16 "\<lambda>a. NUL"]
  by (simp add: ch0_def fits_space_def)

text \<open>
  \<open>path_strip_prefix\<close> decides whether the first string is a prefix of the path and then points
  behind it and behind one slash that follows; otherwise it returns a null pointer.
\<close>

theorem path_strip_prefix_correct:
  assumes "cstr m p path" "cstr m q pre"
  shows "path_strip_prefix m (Some p) (Some q) =
    Some (if \<exists>rest. path = pre @ rest
          then Some (p + length pre + (if m (p + length pre) = CHR ''/'' then 1 else 0)) else None)"
proof -
  have n: "NUL \<notin> set path" "NUL \<notin> set pre" using assms by (auto dest: cstr_notin)
  have "strncmp m p q (length pre) = 0 \<longleftrightarrow> (\<exists>rest. path = pre @ rest)"
    using strncmp_cstr [OF assms] strncmp_s_prefix [of path pre] n
    by (auto dest: arg_cong [of _ _ length]) (metis append_take_drop_id)
  then show ?thesis
    by (simp add: path_strip_prefix_def strlen_cstr [OF assms(2)] Let_def)
qed

theorem path_strip_prefix_correct_witness:
  "path_strip_prefix (mem_write (mem_write (\<lambda>a. NUL) 10 ''/dev/tty'') 40 ''/dev'') (Some 10) (Some 40) = Some (Some 15)"
proof -
  let ?m = "mem_write (mem_write (\<lambda>a. NUL) 10 ''/dev/tty'') 40 ''/dev''"
  have "cstr ?m 10 ''/dev/tty''" "cstr ?m 40 ''/dev''" by (simp_all add: mem_write_Cons)
  from path_strip_prefix_correct [OF this] show ?thesis by (simp add: mem_write_Cons)
qed

text \<open>
  \<open>path_basename\<close> finds the last component of a path, with or without one trailing slash, and
  stores it like \<open>snprintf\<close>; the base name of the root is a slash.
\<close>

theorem path_basename_correct:
  assumes "dir = '''' \<or> last dir = CHR ''/''" "name \<noteq> ''''" "CHR ''/'' \<notin> set name"
    and "path = dir @ name \<or> path = dir @ name @ ''/''" and "fits_space dst n (length name)" "length name < 2 ^ 31 - 1"
  shows "path_basename m dst n (Some path) =
    Done (if n = 0 then m else mem_write m dst (take (n - 1) name @ [NUL]), int (length name))"
proof -
  have nr: "path \<noteq> ''/''" using assms(1-4) by (auto simp: append_eq_Cons_conv Cons_eq_append_conv)
  obtain r where r: "path_basename m dst n (Some path) =
      snprintf m dst n ''%.*s'' [VWord (of_int (int (length name))), VStr 0 (name @ r)]"
  proof (cases "path = dir @ name")
    case True
    obtain p where "scan_slashes path 0 0 0 = (p, length dir, length dir + length name)"
      using basename_parts(1) [OF assms(1-3)] True by auto
    then show thesis using that [of "''''"] nr assms(2) True by (simp add: path_basename_def)
  next
    case False
    then have "scan_slashes path 0 0 0 = (length dir, length dir + length name + 1, length dir + length name + 1)"
      using basename_parts(2) [OF assms(1-3)] assms(4) by auto
    then show thesis using that [of "''/''"] nr False assms(4) by (simp add: path_basename_def)
  qed
  have "printf_text ''%.*s'' [VWord (of_int (int (length name))), VStr 0 (name @ r)] = Done (name, True)"
    using assms(6) printf_ps [of "length name" "''''" 0 "name @ r" "[]"] by (simp add: fits_space_def)
  from snprintf_text [OF this] assms(5) show ?thesis unfolding r by (simp add: fits_space_def)
qed

theorem path_basename_correct_witness:
  "path_basename (\<lambda>a. NUL) 64 8 (Some ''/bin/sh/'') = Done (mem_write (\<lambda>a. NUL) 64 (''sh'' @ [NUL]), 2)"
  using path_basename_correct [of "''/bin/''" "''sh''" "''/bin/sh/''" 64 8 "\<lambda>a. NUL"]
  by (simp add: fits_space_def)

section \<open>Error strings and flag strings\<close>

definition error_name :: "int \<Rightarrow> string" where
  "error_name e = (case known_constant e of Some known \<Rightarrow> known | None \<Rightarrow> ''E'' @ dec_text e)"

lemma known_constant_props: "known_constant e = Some s \<Longrightarrow> length s \<le> 16 \<and> NUL \<notin> set s"
  by (auto simp: known_constant_def split: if_splits)

lemma error_name_props:
  assumes "- (2 ^ 31) \<le> e" "e < 2 ^ 31"
  shows "length (error_name e) \<le> 66" "NUL \<notin> set (error_name e)"
  using dec_text_props [OF assms] known_constant_props [of e] by (auto simp: error_name_def split: option.splits)

lemma strerror_s_text:
  assumes "- (2 ^ 31) \<le> e" "e < 2 ^ 31" "fits_space dst n 66"
  shows "strerror_s m dst n e =
    Done (if n = 0 then m else mem_write m dst (take (n - 1) (error_name e) @ [NUL]), int (length (error_name e)))"
proof -
  have f: "fits_space dst n (length (error_name e))" by (rule fits_space_mono [OF assms(3) error_name_props(1) [OF assms(1,2)]])
  show ?thesis
  proof (cases "known_constant e")
    case None
    then have en: "error_name e = ''E'' @ dec_text e" by (simp add: error_name_def)
    have "printf_text ''E%d'' [VWord (of_int e)] = Done (error_name e, True)"
      using assms(1,2) by (simp add: printf_lit printf_d en)
    from snprintf_text [OF this] f None show ?thesis by (simp add: strerror_s_def format_unknown_def fits_space_def)
  next
    case (Some known)
    then have "printf_text ''%s'' [VStr 0 known] = Done (error_name e, True)" by (simp add: printf_s error_name_def)
    from snprintf_text [OF this] f Some show ?thesis by (simp add: strerror_s_def fits_space_def)
  qed
qed

lemma mem_write_upd_end: "mem_write (m(a + length bs := v)) a bs = (mem_write m a bs)(a + length bs := v)"
  by (rule ext) (simp add: mem_write_def)

lemma flagstr_loop_eq:
  "k \<le> count \<Longrightarrow> flagstr_loop k m dest flags count src1 src0 =
    mem_write m dest (map (\<lambda>pos. if bit flags (count - 1 - pos) then src1 ! pos
      else case src0 of Some s0 \<Rightarrow> s0 ! pos | None \<Rightarrow> CHR ''-'') [0..<k])"
proof (induction k arbitrary: m)
  case (Suc k)
  let ?f = "\<lambda>pos. if bit flags (count - 1 - pos) then src1 ! pos else case src0 of Some s0 \<Rightarrow> s0 ! pos | None \<Rightarrow> CHR ''-''"
  have p: "count - 1 - (count - Suc k) = k" "count - 1 - k = count - Suc k" using Suc.prems by auto
  have "flagstr_loop (Suc k) m dest flags count src1 src0 = flagstr_loop k (m(dest + k := ?f k)) dest flags count src1 src0"
    by (simp only: flagstr_loop.simps Let_def p)
  also have "\<dots> = mem_write (m(dest + k := ?f k)) dest (map ?f [0..<k])" using Suc by simp
  also have "\<dots> = mem_write m dest (map ?f [0..<k] @ [?f k])"
    using mem_write_upd_end [of m dest "map ?f [0..<k]" "?f k"] mem_write_snoc [of m dest "map ?f [0..<k]" "?f k"]
    unfolding length_map length_upt diff_zero by (rule trans [OF _ sym])
  finally show ?case by simp
qed simp

text \<open>
  \<open>strerror_s\<close> stores the name of a known error code, or \<open>E\<close> and the decimal number of any
  other \<open>int\<close>, cut to the buffer and terminated, and returns the length of the name.
\<close>

theorem strerror_s_correct:
  assumes "- (2 ^ 31) \<le> e" "e < 2 ^ 31" "fits_space dst n 66"
  shows "strerror_s m dst n e =
    Done (if n = 0 then m else mem_write m dst (take (n - 1) (error_name e) @ [NUL]), int (length (error_name e)))"
  by (rule strerror_s_text [OF assms])

theorem strerror_s_correct_witness:
  "strerror_s (\<lambda>a. NUL) 64 16 (errno_code EINVAL) = Done (mem_write (\<lambda>a. NUL) 64 (''EINVAL'' @ [NUL]), 6)"
proof -
  have "error_name (errno_code EINVAL) = ''EINVAL''" by code_simp
  then show ?thesis using strerror_s_correct [of "errno_code EINVAL" 64 16 "\<lambda>a. NUL"] by (simp add: fits_space_def)
qed

text \<open>
  \<open>flagstr\<close> writes exactly \<open>count\<close> characters and a terminator: the character at position \<open>j\<close>
  is that of the first string when bit \<open>count - 1 - j\<close> is set, so bits read from the most significant one,
  and otherwise that of the second string, or a dash.
\<close>

theorem flagstr_correct:
  "flagstr m dest flags count src1 src0 =
    mem_write m dest (map (\<lambda>j. if bit flags (count - 1 - j) then src1 ! j
      else case src0 of Some s0 \<Rightarrow> s0 ! j | None \<Rightarrow> CHR ''-'') [0..<count] @ [NUL])"
  unfolding flagstr_def flagstr_loop_eq [OF order.refl] mem_write_snoc
  using mem_write_upd_end [of m dest "map _ [0..<count]" NUL] by simp

section \<open>Formatting into a buffer that grows: mulibc/stdio.c and drivers/log.c\<close>

text \<open>
  The \<open>try_format\<close> loop: format into a local buffer of \<open>bufsz\<close> bytes and, when the text was too big,
  start over with a buffer of the size reported. The result has the size of the last buffer.
\<close>

partial_function (option) try_format :: "(nat \<Rightarrow> (mem \<times> int) conv) \<Rightarrow> nat \<Rightarrow> (nat \<times> mem \<times> int) conv option" where
  "try_format f bufsz =
    (case f bufsz of
       UB \<Rightarrow> Some UB
     | Unsupported \<Rightarrow> Some Unsupported
     | Done (m, res) \<Rightarrow>
         (if res < 0 then Some (Done (bufsz, m, res))
          else if res \<ge> int bufsz then try_format f (nat (res + 1))
          else Some (Done (bufsz, m, res))))"

text \<open>
  The local buffer of size \<open>sz\<close> is at address \<open>bufaddr sz\<close>. The system call \<open>write\<close> is a parameter: it
  takes the descriptor and the bytes.
\<close>

definition vfprintf ::
    "(nat \<Rightarrow> string \<Rightarrow> int) \<Rightarrow> mem \<Rightarrow> (nat \<Rightarrow> nat) \<Rightarrow> nat \<Rightarrow> string \<Rightarrow> va_slot list \<Rightarrow> int conv option" where
  "vfprintf write m bufaddr fd fmt va =
    map_option (\<lambda>r. conv_bind r (\<lambda>(bufsz, m, res).
        Done (if res < 0 then res else write fd (mem_read m (bufaddr bufsz) (nat res)))))
      (try_format (\<lambda>bufsz. vsnprintf m (bufaddr bufsz) bufsz fmt va) 256)"

definition fprintf ::
    "(nat \<Rightarrow> string \<Rightarrow> int) \<Rightarrow> mem \<Rightarrow> (nat \<Rightarrow> nat) \<Rightarrow> nat \<Rightarrow> string \<Rightarrow> va_slot list \<Rightarrow> int conv option" where
  "fprintf write m bufaddr fd format args = vfprintf write m bufaddr fd format args"

definition stdout_fd :: nat where "stdout_fd = 1"

definition vprintf :: "(nat \<Rightarrow> string \<Rightarrow> int) \<Rightarrow> mem \<Rightarrow> (nat \<Rightarrow> nat) \<Rightarrow> string \<Rightarrow> va_slot list \<Rightarrow> int conv option" where
  "vprintf write m bufaddr format args = vfprintf write m bufaddr stdout_fd format args"

definition printf :: "(nat \<Rightarrow> string \<Rightarrow> int) \<Rightarrow> mem \<Rightarrow> (nat \<Rightarrow> nat) \<Rightarrow> string \<Rightarrow> va_slot list \<Rightarrow> int conv option" where
  "printf write m bufaddr format args = vfprintf write m bufaddr stdout_fd format args"

text \<open>\<open>_vlogf\<close>: \<open>write\<close> is \<open>file_write\<close> on the log file, if there is one.\<close>

definition vlogf ::
    "(string \<Rightarrow> int) option \<Rightarrow> mem \<Rightarrow> (nat \<Rightarrow> nat) \<Rightarrow> nat \<Rightarrow> log_level \<Rightarrow> string \<Rightarrow> log_extra option \<Rightarrow>
      string \<Rightarrow> va_slot list \<Rightarrow> int conv option" where
  "vlogf log_file m bufaddr errbuf lvl prefix x fmt va =
    (case log_file of
       None \<Rightarrow> Some (Done (err EBADF))
     | Some write \<Rightarrow>
         map_option (\<lambda>r. conv_bind r (\<lambda>(bufsz, m, res).
             Done (if res < 0 then res else write (mem_read m (bufaddr bufsz) (nat res)))))
           (try_format (\<lambda>bufsz. log_vsnprintf m (bufaddr bufsz) bufsz errbuf lvl prefix x fmt va) DEFAULT_BUFSZ))"

text \<open>A formatter that reports the length of one text and stores it when it fits is called at most twice.\<close>

lemma try_format_text:
  assumes "f bufsz = Done (m1, int len)" "f (Suc len) = Done (m2, int len)"
  shows "try_format f bufsz = Some (Done (if len < bufsz then (bufsz, m1, int len) else (Suc len, m2, int len)))"
proof (cases "len < bufsz")
  case True
  then show ?thesis by (subst try_format.simps) (simp add: assms(1))
next
  case False
  have "try_format f (Suc len) = Some (Done (Suc len, m2, int len))"
    by (subst try_format.simps) (simp add: assms(2))
  moreover have "nat (int len + 1) = Suc len" by simp
  ultimately show ?thesis using False by (subst try_format.simps) (simp add: assms(1))
qed

text \<open>
  Property C37. \<open>vfprintf\<close> always ends, after at most two attempts, and passes the complete formatted text
  to \<open>write\<close>, however long it is, returning what \<open>write\<close> returns.
\<close>

theorem vfprintf_writes_text:
  assumes "printf_text fmt va = Done (out, True)"
    and "fits_space (bufaddr 256) 256 (length out)" and "fits_space (bufaddr (Suc (length out))) (Suc (length out)) (length out)"
  shows "vfprintf write m bufaddr fd fmt va = Some (Done (write fd out))"
proof -
  have sn: "vsnprintf m (bufaddr n) n fmt va = Done (mem_write m (bufaddr n) (take (n - 1) out @ [NUL]), int (length out))"
    if "fits_space (bufaddr n) n (length out)" "n \<noteq> 0" for n
    using snprintf_text [OF assms(1), of "bufaddr n" n m] that by (simp add: fits_space_def vsnprintf_def snprintf_def)
  have rd: "mem_read (mem_write m a (out @ [NUL])) a (length out) = out" for a
    by (auto simp: list_eq_iff_nth_eq mem_write_inside nth_append)
  show ?thesis
    unfolding vfprintf_def try_format_text [of "\<lambda>bufsz. vsnprintf m (bufaddr bufsz) bufsz fmt va", OF sn sn, OF assms(2) _ assms(3), simplified]
    using rd by simp
qed

theorem vfprintf_writes_text_witness:
  "vfprintf (\<lambda>fd s. int (length s)) (\<lambda>a. NUL) (\<lambda>n. 4096) 1 ''%300s'' [VStr 0 ''x''] = Some (Done 300)"
proof -
  have "printf_text ''%300s'' [VStr 0 ''x''] = Done (replicate 299 (CHR '' '') @ ''x'', True)" by code_simp
  from vfprintf_writes_text [OF this, of "\<lambda>n. 4096"] show ?thesis by (simp add: fits_space_def)
qed

section \<open>Log lines\<close>

text \<open>The text of a log line, given the text of the message.\<close>

definition result_text :: "int option \<Rightarrow> string" where
  "result_text r =
    (case r of
       None \<Rightarrow> ''''
     | Some i \<Rightarrow> if i = 0 then ''[OK] '' else if i < 0 then ''[-'' @ error_name (- i) @ ''] '' else ''['' @ dec_text i @ ''] '')"

fun opt_text :: "(string \<Rightarrow> string) \<Rightarrow> string option \<Rightarrow> string" where
  "opt_text f None = ''''"
| "opt_text f (Some s) = f s"

definition log_text :: "log_level \<Rightarrow> string \<Rightarrow> log_extra option \<Rightarrow> string \<Rightarrow> string" where
  "log_text lvl prefix x msg =
    LVLSTRS lvl @ replicate (7 - length (LVLSTRS lvl)) (CHR '' '') @ '': '' @
    result_text (Option.bind x le_result) @ prefix @ '': '' @
    opt_text (\<lambda>v. v @ replicate (le_tblhw (the x) - length v) (CHR '' '') @ '': '') (Option.bind x le_valname) @ msg @
    opt_text (\<lambda>v. '' ('' @ v @ '')'') (Option.bind x le_valdecode) @ opt_text (\<lambda>v. v) (Option.bind x le_postfix)"

text \<open>The state between two calls: the position counts the text and the buffer holds what fits of it.\<close>

definition logged :: "nat \<Rightarrow> nat \<Rightarrow> string \<Rightarrow> (mem \<times> nat, mem \<times> int) sum conv \<Rightarrow> bool" where
  "logged buf n out r \<longleftrightarrow>
    (\<exists>m. r = Done (Inl (m, buf + length out)) \<and> mem_read m buf (min (n - 1) (length out)) = take (n - 1) out)"

lemma logged_step:
  assumes "logged buf n out r" "printf_text fmt args = Done (o2, True)" "fits_space buf n (length (out @ o2))"
  shows "logged buf n (out @ o2) (log_step (buf + n) fmt args r)"
proof -
  obtain m where r: "r = Done (Inl (m, buf + length out))"
    and rd: "mem_read m buf (min (n - 1) (length out)) = take (n - 1) out" using assms(1) by (auto simp: logged_def)
  have b: "BUFREM (buf + length out) (buf + n) = n - length out" by (simp add: BUFREM_def)
  define m' where "m' = (if n - length out = 0 then m else mem_write m (buf + length out) (take (n - length out - 1) o2 @ [NUL]))"
  have sn: "snprintf m (buf + length out) (n - length out) fmt args = Done (m', int (length o2))"
    unfolding m'_def by (rule snprintf_text [OF assms(2)]) (use assms(3) in \<open>auto simp: fits_space_def\<close>)
  have p: "nat ((int (buf + length out) + int (length o2)) mod 2 ^ 32) = buf + length (out @ o2)"
    using assms(3) by (simp add: fits_space_def nat_mod_distrib nat_add_distrib add.assoc flip: of_nat_add)
  have "mem_read m' buf (min (n - 1) (length (out @ o2))) = take (n - 1) (out @ o2)"
  proof (cases "length out < n")
    case False
    then show ?thesis using rd by (simp add: m'_def min_def split: if_splits)
  next
    case True
    let ?w = "take (n - length out - 1) o2 @ [NUL]"
    have "min (n - 1) (length out) = length out" using True by simp
    then have o: "mem_read m buf (length out) = out" using rd True by simp
    have m': "m' = mem_write m (buf + length out) ?w" using True by (simp add: m'_def)
    show ?thesis
    proof (rule nth_equalityI)
      fix i assume "i < length (mem_read m' buf (min (n - 1) (length (out @ o2))))"
      then have i: "i < n - 1" "i < length out + length o2" by simp_all
      show "mem_read m' buf (min (n - 1) (length (out @ o2))) ! i = take (n - 1) (out @ o2) ! i"
      proof (cases "i < length out")
        case True
        then show ?thesis using i arg_cong [OF o, of "\<lambda>xs. xs ! i"] by (simp add: m' mem_write_outside nth_append)
      next
        case False
        then have "m' (buf + length out + (i - length out)) = ?w ! (i - length out)"
          using i unfolding m' by (intro mem_write_inside) auto
        then show ?thesis using False i by (auto simp: nth_append)
      qed
    qed simp
  qed
  then show ?thesis unfolding logged_def r by (simp only: log_step.simps b sn conv.case prod.case p) simp
qed

lemma logged_result:
  assumes "logged buf n out r" "fits_space buf n (length (out @ result_text x))" "fits_space errbuf 256 66"
    and "errbuf + 256 \<le> buf \<or> buf + n \<le> errbuf" and "\<And>i. x = Some i \<Longrightarrow> - (2 ^ 31) < i \<and> i < 2 ^ 31"
  shows "logged buf n (out @ result_text x) (log_result_step (buf + n) errbuf x r)"
proof (cases x)
  case None
  then show ?thesis using assms(1) by (simp add: result_text_def)
next
  case (Some i)
  consider "i = 0" | "i < 0" | "i > 0" by linarith
  then show ?thesis
  proof cases
    case 1
    have "printf_text ''[OK] '' [] = Done (''[OK] '', True)" by (simp add: printf_lit)
    from logged_step [OF assms(1) this] assms(2) show ?thesis by (simp add: Some 1 result_text_def)
  next
    case 3
    have "printf_text ''[%d] '' [VWord (of_int i)] = Done (''['' @ dec_text i @ ''] '', True)"
      using assms(5) [OF Some] by (simp add: printf_lit printf_d)
    from logged_step [OF assms(1) this] assms(2) 3 show ?thesis by (simp add: Some result_text_def)
  next
    case 2
    obtain m where r: "r = Done (Inl (m, buf + length out))"
      and rd: "mem_read m buf (min (n - 1) (length out)) = take (n - 1) out" using assms(1) by (auto simp: logged_def)
    have e: "- (2 ^ 31) \<le> - i" "- i < 2 ^ 31" using assms(5) [OF Some] 2 by auto
    note nm = error_name_props [OF e]
    define m' where "m' = mem_write m errbuf (error_name (- i) @ [NUL])"
    have "strerror_s m errbuf DEFAULT_BUFSZ (- i) = Done (m', int (length (error_name (- i))))"
      using strerror_s_text [OF e, of errbuf DEFAULT_BUFSZ m] assms(3) nm(1) by (simp add: DEFAULT_BUFSZ_def m'_def)
    moreover have "takeWhile (\<lambda>c. c \<noteq> NUL) (mem_read m' errbuf DEFAULT_BUFSZ) = error_name (- i)"
      unfolding m'_def by (rule takeWhile_cstr [OF cstr_write [OF nm(2)]]) (use nm(1) in \<open>simp add: DEFAULT_BUFSZ_def\<close>)
    moreover have "logged buf n out (Done (Inl (m', buf + length out)))"
    proof -
      have "mem_read m' buf (min (n - 1) (length out)) = mem_read m buf (min (n - 1) (length out))"
        unfolding m'_def by (rule mem_read_cong) (use assms(4) nm(1) in \<open>auto simp: mem_write_def\<close>)
      then show ?thesis using rd by (simp add: logged_def)
    qed
    moreover have "printf_text ''[-%s] '' [VStr 0 (error_name (- i))] = Done (''[-'' @ error_name (- i) @ ''] '', True)"
      by (simp add: printf_lit printf_s)
    ultimately show ?thesis
      using logged_step [of buf n out "Done (Inl (m', buf + length out))"] assms(2) 2 by (simp add: Some r result_text_def)
  qed
qed

lemma logged_opt:
  assumes "logged buf n out r" "fits_space buf n (length (out @ opt_text f v))"
    and "\<And>s. v = Some s \<Longrightarrow> printf_text fmt (args s) = Done (f s, True)"
  shows "logged buf n (out @ opt_text f v) (case v of Some s \<Rightarrow> log_step (buf + n) fmt (args s) r | None \<Rightarrow> r)"
  using assms logged_step [OF assms(1)] by (cases v) auto

lemma opt_result_bind:
  "(case x of Some x \<Rightarrow> log_result_step e eb (le_result x) r | None \<Rightarrow> r) = log_result_step e eb (Option.bind x le_result) r"
  by (cases x) auto

lemma opt_case_bind:
  "(case x of Some x \<Rightarrow> (case g x of Some s \<Rightarrow> h x s | None \<Rightarrow> r) | None \<Rightarrow> r) =
   (case Option.bind x g of Some s \<Rightarrow> h (the x) s | None \<Rightarrow> r)"
  by (cases x) (auto split: option.splits)

lemma log_vsnprintf_text:
  assumes "printf_text fmt va = Done (msg, True)"
    and "fits_space buf n (length (log_text lvl prefix x msg))" "fits_space errbuf 256 66"
    and "errbuf + 256 \<le> buf \<or> buf + n \<le> errbuf"
    and "\<And>y i. x = Some y \<Longrightarrow> le_result y = Some i \<Longrightarrow> - (2 ^ 31) < i \<and> i < 2 ^ 31"
    and "\<And>y. x = Some y \<Longrightarrow> le_tblhw y < 2 ^ 31"
  shows "\<exists>m'. log_vsnprintf m buf n errbuf lvl prefix x fmt va = Done (m', int (length (log_text lvl prefix x msg))) \<and>
    mem_read m' buf (min (n - 1) (length (log_text lvl prefix x msg))) = take (n - 1) (log_text lvl prefix x msg)"
proof -
  let ?E = "buf + n" and ?out = "log_text lvl prefix x msg"
  let ?lv = "LVLSTRS lvl @ replicate (7 - length (LVLSTRS lvl)) (CHR '' '') @ '': ''"
  let ?valn = "\<lambda>v. v @ replicate (le_tblhw (the x) - length v) (CHR '' '') @ '': ''" and ?dec = "\<lambda>v. '' ('' @ v @ '')''"
  note fit = fits_space_mono [OF assms(2)]
  have "logged buf n '''' (Done (Inl (m, buf)))" by (simp add: logged_def)
  then have r1: "logged buf n ('''' @ ?lv) (log_step ?E ''%-7s: '' [VStr 0 (LVLSTRS lvl)] (Done (Inl (m, buf))))" (is "logged _ _ ?o1 ?r1")
    by (rule logged_step) (simp add: printf_s7 printf_lit, rule fit, simp add: log_text_def)
  have r2: "logged buf n (?o1 @ result_text (Option.bind x le_result)) (log_result_step ?E errbuf (Option.bind x le_result) ?r1)"
    (is "logged _ _ ?o2 ?r2")
    by (rule logged_result [OF r1 fit assms(3,4)]) (use assms(5) in \<open>auto simp: log_text_def bind_eq_Some_conv\<close>)
  have r3: "logged buf n (?o2 @ prefix @ '': '') (log_step ?E ''%s: '' [VStr 0 prefix] ?r2)" (is "logged _ _ ?o3 ?r3")
    by (rule logged_step [OF r2]) (simp add: printf_s printf_lit, rule fit, simp add: log_text_def)
  have r4: "logged buf n (?o3 @ opt_text ?valn (Option.bind x le_valname))
      (case Option.bind x le_valname of Some v \<Rightarrow> log_step ?E ''%-*s: '' [VWord (of_nat (le_tblhw (the x))), VStr 0 v] ?r3 | None \<Rightarrow> ?r3)"
    (is "logged _ _ ?o4 ?r4")
    by (rule logged_opt [OF r3]) (rule fit, simp add: log_text_def, use assms(6) in \<open>auto simp: printf_sw printf_lit bind_eq_Some_conv\<close>)
  have r5: "logged buf n (?o4 @ msg) (log_step ?E fmt va ?r4)" (is "logged _ _ ?o5 ?r5")
    by (rule logged_step [OF r4 assms(1)]) (rule fit, simp add: log_text_def)
  have r6: "logged buf n (?o5 @ opt_text ?dec (Option.bind x le_valdecode))
      (case Option.bind x le_valdecode of Some v \<Rightarrow> log_step ?E '' (%s)'' [VStr 0 v] ?r5 | None \<Rightarrow> ?r5)" (is "logged _ _ ?o6 ?r6")
    by (rule logged_opt [OF r5]) (rule fit, simp add: log_text_def, simp add: printf_s printf_lit)
  have r7: "logged buf n (?o6 @ opt_text (\<lambda>v. v) (Option.bind x le_postfix))
      (case Option.bind x le_postfix of Some v \<Rightarrow> log_step ?E ''%s'' [VStr 0 v] ?r6 | None \<Rightarrow> ?r6)" (is "logged _ _ ?o7 ?r7")
    by (rule logged_opt [OF r6]) (rule fit, simp add: log_text_def, simp add: printf_s)
  have out: "?o7 = ?out" by (simp add: log_text_def)
  obtain m' where m': "?r7 = Done (Inl (m', buf + length ?out))" "mem_read m' buf (min (n - 1) (length ?out)) = take (n - 1) ?out"
    using r7 unfolding out logged_def by blast
  have "log_vsnprintf m buf n errbuf lvl prefix x fmt va =
      (case ?r7 of UB \<Rightarrow> UB | Unsupported \<Rightarrow> Unsupported | Done (Inl (m, pos)) \<Rightarrow> Done (m, int pos - int buf) | Done (Inr (m, res)) \<Rightarrow> Done (m, res))"
    unfolding log_vsnprintf_def Let_def opt_result_bind opt_case_bind ..
  then show ?thesis using m' by simp
qed

text \<open>
  A log call ends and writes exactly one complete line to the log file, however long it is:
  the level padded to seven characters, the result if there is one (\<open>[OK]\<close>, the negated error's name, or
  the number), the prefix, the value's name padded to the table width, the formatted message, the
  decoded value in parentheses and the postfix. Without a log file it returns \<open>-EBADF\<close>.
\<close>

theorem vlogf_writes_line:
  assumes "printf_text fmt va = Done (msg, True)"
    and "\<forall>n. n = 256 \<or> n = Suc (length (log_text lvl prefix x msg)) \<longrightarrow>
           fits_space (bufaddr n) n (length (log_text lvl prefix x msg)) \<and> (errbuf + 256 \<le> bufaddr n \<or> bufaddr n + n \<le> errbuf)"
    and "fits_space errbuf 256 66"
    and "\<forall>y. x = Some y \<longrightarrow> le_tblhw y < 2 ^ 31 \<and> (\<forall>i. le_result y = Some i \<longrightarrow> - (2 ^ 31) < i \<and> i < 2 ^ 31)"
  shows "vlogf (Some write) m bufaddr errbuf lvl prefix x fmt va = Some (Done (write (log_text lvl prefix x msg))) \<and>
    vlogf None m bufaddr errbuf lvl prefix x fmt va = Some (Done (err EBADF))"
proof -
  let ?out = "log_text lvl prefix x msg"
  let ?f = "\<lambda>bufsz. log_vsnprintf m (bufaddr bufsz) bufsz errbuf lvl prefix x fmt va"
  have ex: "\<exists>m'. ?f n = Done (m', int (length ?out)) \<and> mem_read m' (bufaddr n) (min (n - 1) (length ?out)) = take (n - 1) ?out"
    if "n = 256 \<or> n = Suc (length ?out)" for n
    by (rule log_vsnprintf_text [OF assms(1)]) (use assms that in auto)
  obtain m1 where m1: "?f 256 = Done (m1, int (length ?out))" "mem_read m1 (bufaddr 256) (min 255 (length ?out)) = take 255 ?out"
    using ex [of 256] by auto
  obtain m2 where m2: "?f (Suc (length ?out)) = Done (m2, int (length ?out))" "mem_read m2 (bufaddr (Suc (length ?out))) (length ?out) = ?out"
    using ex [of "Suc (length ?out)"] by auto
  have "try_format ?f 256 = Some (Done (if length ?out < 256 then (256, m1, int (length ?out)) else (Suc (length ?out), m2, int (length ?out))))"
    by (rule try_format_text [OF m1(1) m2(1)])
  moreover have "length ?out < 256 \<Longrightarrow> mem_read m1 (bufaddr 256) (length ?out) = ?out"
    using m1(2) by (simp add: min_absorb2)
  ultimately show ?thesis using m2(2) by (simp add: vlogf_def DEFAULT_BUFSZ_def)
qed

theorem vlogf_writes_line_witness:
  "vlogf (Some (\<lambda>s. int (length s))) (\<lambda>a. NUL) (\<lambda>n. 4096) 1024 LOG_WARN ''vfs.c''
     (Some \<lparr>le_result = Some (err ENOENT), le_postfix = None, le_valname = None, le_tblhw = 0, le_valdecode = None\<rparr>)
     ''open %s'' [VStr 0 ''/x''] = Some (Done 33)"
proof -
  have "printf_text ''open %s'' [VStr 0 ''/x''] = Done (''open /x'', True)" by code_simp
  moreover have "log_text LOG_WARN ''vfs.c''
     (Some \<lparr>le_result = Some (err ENOENT), le_postfix = None, le_valname = None, le_tblhw = 0, le_valdecode = None\<rparr>)
     ''open /x'' = ''warning: [-ENOENT] vfs.c: open /x''" by code_simp
  ultimately show ?thesis
    using vlogf_writes_line [of "''open %s''" "[VStr 0 ''/x'']" "''open /x''" LOG_WARN "''vfs.c''"
      "Some \<lparr>le_result = Some (err ENOENT), le_postfix = None, le_valname = None, le_tblhw = 0, le_valdecode = None\<rparr>"
      "\<lambda>n. 4096" 1024 "\<lambda>s. int (length s)" "\<lambda>a. NUL"]
    by (simp add: fits_space_def)
qed

end
