(* ===== verification/Vfs.thy ===== *)
theory Vfs
  imports Linked_List Text_Util
begin

text \<open>
  The virtual file system: \<open>drivers/vfs.h\<close>, \<open>drivers/vfs_file.c\<close> and \<open>drivers/vfs_fs.c\<close>.

  A pointer to a table of operations is the name of the driver (\<open>driver\<close>, \<open>fsdriver\<close>); what the names
  mean is an argument \<open>D\<close> of every function that calls through such a pointer, a record with the tables
  of operations, whose entries are options because a table may leave an operation out. The theories of
  the drivers supply the tables. The state is a record that the drivers extend with their own static
  data. Paths and names are strings; a read returns the bytes it stores at its destination and a write
  takes the bytes of its source. An operation that may not return gives an option;
  reads and writes do, because a driver may wait for its device.
\<close>

section \<open>Data: vfs.h and devices.h\<close>

definition PATH_MAX :: nat where "PATH_MAX = 128"
definition DEBUGSTR_MAX :: nat where "DEBUGSTR_MAX = 64"

datatype dirtype = DT_UNKNOWN | DT_CHR | DT_DIR | DT_REG

datatype whence = SEEK_SET | SEEK_CUR | SEEK_END | SEEK_OTHER int

record dirent =
  d_type :: dirtype
  d_name :: string

datatype driver = SerialDrv | TtyDrv | RamdiskDrv | CpioFileDrv
datatype fsdriver = CpioFsDrv

text \<open>Device majors and file system types are the numbers of the enumerations.\<close>

definition MAJ_SERIAL :: nat where "MAJ_SERIAL = 2"
definition MAJ_TTY :: nat where "MAJ_TTY = 3"
definition MAJ_RAMDISK :: nat where "MAJ_RAMDISK = 4"
definition MAJORS_MAX :: nat where "MAJORS_MAX = 5"
definition FS_CPIO :: nat where "FS_CPIO = 3"
definition FSTYPES_MAX :: nat where "FSTYPES_MAX = 4"
definition SB_MAX :: nat where "SB_MAX = 4"

text \<open>\<open>f_driver_data\<close> is the index of the driver's own data; \<open>loff_t\<close> is a 32-bit \<open>long\<close>.\<close>

record fstat =
  f_ino :: nat
  f_type :: dirtype
  f_rdev :: u32
  f_size :: int

record vfile =
  f_stat :: fstat
  f_pos :: int
  f_op :: "driver option"
  f_driver_data :: "nat option"

record superblock =
  s_root_ino :: int
  s_bdev :: u32
  s_name :: string
  s_mountpath :: string
  s_op :: "fsdriver option"

definition fstat0 :: fstat where "fstat0 = \<lparr>f_ino = 0, f_type = DT_UNKNOWN, f_rdev = 0, f_size = 0\<rparr>"
definition file0 :: vfile where "file0 = \<lparr>f_stat = fstat0, f_pos = 0, f_op = None, f_driver_data = None\<rparr>"
definition superblock0 :: superblock where
  "superblock0 = \<lparr>s_root_ino = 0, s_bdev = 0, s_name = '''', s_mountpath = '''', s_op = None\<rparr>"

definition loff :: "int \<Rightarrow> int" where "loff i = sint (of_int i :: u32)"

datatype mnode = MountHead | MountSb nat

record vfs =
  chrdev_drivers :: "driver option list"
  fs_drivers :: "fsdriver option list"
  superblocks :: "superblock list"
  vfs_mount_list :: "mnode lheap"

record 's file_operations =
  op_name :: string
  op_open_dev :: "(vfile \<Rightarrow> nat \<Rightarrow> 's \<Rightarrow> vfile \<times> 's \<times> int) option"
  op_open_path :: "(vfile \<Rightarrow> nat \<Rightarrow> string \<Rightarrow> 's \<Rightarrow> (vfile \<times> 's \<times> int) option) option"
  op_release :: "(vfile \<Rightarrow> 's \<Rightarrow> 's \<times> int) option"
  op_debugstr :: "(vfile \<Rightarrow> 's \<Rightarrow> string) option"
  op_read :: "(vfile \<Rightarrow> nat \<Rightarrow> int \<Rightarrow> 's \<Rightarrow> (string \<times> int \<times> 's \<times> int) option) option"
  op_readdir :: "(vfile \<Rightarrow> 's \<Rightarrow> (dirent option \<times> 's \<times> int) option) option"
  op_write :: "(vfile \<Rightarrow> string \<Rightarrow> int \<Rightarrow> 's \<Rightarrow> (int \<times> 's \<times> int) option) option"
  op_lseek :: "(vfile \<Rightarrow> int \<Rightarrow> whence \<Rightarrow> 's \<Rightarrow> 's \<times> int) option"
  op_ioctl :: "(vfile \<Rightarrow> nat \<Rightarrow> u32 \<Rightarrow> 's \<Rightarrow> 's \<times> int) option"

record 's fs_operations =
  fso_name :: string
  fso_sb_open :: "(nat \<Rightarrow> 's \<Rightarrow> ('s \<times> int) option) option"
  fso_sb_release :: "(nat \<Rightarrow> 's \<Rightarrow> 's \<times> int) option"
  fso_file_ops :: "driver option"

record 's drivers =
  dr_ops :: "driver \<Rightarrow> 's file_operations"
  dr_fs :: "fsdriver \<Rightarrow> 's fs_operations"

section \<open>Character devices and files: vfs\_file.c\<close>

definition chrdev_register_inner :: "nat \<Rightarrow> driver \<Rightarrow> 'a vfs_scheme \<Rightarrow> 'a vfs_scheme \<times> int" where
  "chrdev_register_inner maj fops st =
    (if maj = 0 \<or> MAJORS_MAX \<le> maj then (st, err EINVAL)
     else case chrdev_drivers st ! maj of
            Some d \<Rightarrow> (st, if d = fops then 0 else err EBUSY)
          | None \<Rightarrow> (st\<lparr>chrdev_drivers := (chrdev_drivers st)[maj := Some fops]\<rparr>, 0))"

definition chrdev_register :: "nat \<Rightarrow> driver \<Rightarrow> 'a vfs_scheme \<Rightarrow> 'a vfs_scheme \<times> int" where
  "chrdev_register maj fops st = (let (st, res) = chrdev_register_inner maj fops st in (st, int maj))"

definition file_open_dev_inner ::
    "'a vfs_scheme drivers \<Rightarrow> vfile \<Rightarrow> u32 \<Rightarrow> 'a vfs_scheme \<Rightarrow> vfile \<times> 'a vfs_scheme \<times> int" where
  "file_open_dev_inner D file rdev st =
    (let maj = unat (MAJOR rdev); mi = unat (MINOR rdev)
     in if maj = 0 \<or> MAJORS_MAX \<le> maj then (file, st, err ENODEV)
        else case chrdev_drivers st ! maj of
               None \<Rightarrow> (file, st, err ENODEV)
             | Some ops \<Rightarrow>
                 (let file = file\<lparr>f_stat := (f_stat file)\<lparr>f_type := DT_CHR, f_rdev := rdev\<rparr>, f_op := Some ops\<rparr>
                  in case op_open_dev (dr_ops D ops) of
                       None \<Rightarrow> (file, st, 0)
                     | Some open_dev \<Rightarrow> open_dev file mi st))"

definition file_open_dev :: "'a vfs_scheme drivers \<Rightarrow> u32 \<Rightarrow> 'a vfs_scheme \<Rightarrow> vfile \<times> 'a vfs_scheme \<times> int" where
  "file_open_dev D rdev st = file_open_dev_inner D file0 rdev st"

text \<open>The operation of a file, if it has a driver and the driver has the operation.\<close>

definition has_op :: "'s drivers \<Rightarrow> ('s file_operations \<Rightarrow> 'b option) \<Rightarrow> vfile \<Rightarrow> 'b option" where
  "has_op D sel f = Option.bind (f_op f) (\<lambda>d. sel (dr_ops D d))"

definition file_close :: "'a vfs_scheme drivers \<Rightarrow> vfile \<Rightarrow> 'a vfs_scheme \<Rightarrow> 'a vfs_scheme \<times> int" where
  "file_close D file st = (case has_op D op_release file of Some release \<Rightarrow> release file st | None \<Rightarrow> (st, 0))"

definition fmt_text :: "string \<Rightarrow> va_slot list \<Rightarrow> string" where
  "fmt_text fmt args = (case printf_text fmt args of Done (out, ok) \<Rightarrow> out | _ \<Rightarrow> '''')"

text \<open>The text that \<open>file_debugstr\<close> formats, for a file struct at address \<open>faddr\<close>.\<close>

definition file_debugstr :: "'a vfs_scheme drivers \<Rightarrow> u32 \<Rightarrow> vfile option \<Rightarrow> 'a vfs_scheme \<Rightarrow> string" where
  "file_debugstr D faddr f st =
    (case f of
       None \<Rightarrow> ''file{NULL}''
     | Some f \<Rightarrow>
         (case f_op f of
            None \<Rightarrow> ''file{NULL}''
          | Some d \<Rightarrow>
              (case op_debugstr (dr_ops D d) of
                 Some debugstr \<Rightarrow> debugstr f st
               | None \<Rightarrow>
                   (if f_rdev (f_stat f) \<noteq> 0
                    then fmt_text ''%s%u'' [VStr 0 (op_name (dr_ops D d)), VWord (MINOR (f_rdev (f_stat f)))]
                    else fmt_text ''file{%p}'' [VWord faddr]))))"

definition file_write ::
    "'a vfs_scheme drivers \<Rightarrow> vfile \<Rightarrow> string \<Rightarrow> 'a vfs_scheme \<Rightarrow> (vfile \<times> 'a vfs_scheme \<times> int) option" where
  "file_write D f src st =
    (case has_op D op_write f of
       None \<Rightarrow> Some (f, st, err EINVAL)
     | Some write \<Rightarrow>
         (if src = [] then Some (f, st, 0)
          else map_option (\<lambda>(off, st, res). (f\<lparr>f_pos := off\<rparr>, st, res)) (write f src (f_pos f) st)))"

definition file_pwrite ::
    "'a vfs_scheme drivers \<Rightarrow> vfile \<Rightarrow> string \<Rightarrow> int \<Rightarrow> 'a vfs_scheme \<Rightarrow> ('a vfs_scheme \<times> int) option" where
  "file_pwrite D f src off st =
    (case has_op D op_write f of
       None \<Rightarrow> Some (st, err EINVAL)
     | Some write \<Rightarrow>
         (if src = [] then Some (st, 0)
          else map_option (\<lambda>(off, st, res). (st, res)) (write f src off st)))"

definition file_read ::
    "'a vfs_scheme drivers \<Rightarrow> vfile \<Rightarrow> nat \<Rightarrow> 'a vfs_scheme \<Rightarrow> (string \<times> vfile \<times> 'a vfs_scheme \<times> int) option" where
  "file_read D f cnt st =
    (case has_op D op_read f of
       None \<Rightarrow> Some ([], f, st, err EINVAL)
     | Some read \<Rightarrow>
         (if cnt = 0 then Some ([], f, st, 0)
          else map_option (\<lambda>(dst, off, st, res). (dst, f\<lparr>f_pos := off\<rparr>, st, res)) (read f cnt (f_pos f) st)))"

definition file_pread ::
    "'a vfs_scheme drivers \<Rightarrow> vfile \<Rightarrow> nat \<Rightarrow> int \<Rightarrow> 'a vfs_scheme \<Rightarrow> (string \<times> 'a vfs_scheme \<times> int) option" where
  "file_pread D f cnt off st =
    (case has_op D op_read f of
       None \<Rightarrow> Some ([], st, err EINVAL)
     | Some read \<Rightarrow>
         (if cnt = 0 then Some ([], st, 0)
          else map_option (\<lambda>(dst, off, st, res). (dst, st, res)) (read f cnt off st)))"

text \<open>
  The same calls with the caller's pointer. A NULL pointer has the effect of a count of 0 (\<open>if (!dst || !count) return 0\<close>).
  The callers whose buffer is a local array use \<open>file_read\<close> and \<open>file_write\<close>; a pointer that comes from outside the
  kernel, an address of an executable or the argument of a system call, is checked here.
\<close>

definition file_read_to ::
    "'a vfs_scheme drivers \<Rightarrow> vfile \<Rightarrow> u32 \<Rightarrow> nat \<Rightarrow> 'a vfs_scheme \<Rightarrow> (string \<times> vfile \<times> 'a vfs_scheme \<times> int) option" where
  "file_read_to D f dst cnt st = file_read D f (if dst = 0 then 0 else cnt) st"

definition file_write_from ::
    "'a vfs_scheme drivers \<Rightarrow> vfile \<Rightarrow> mem \<Rightarrow> u32 \<Rightarrow> nat \<Rightarrow> 'a vfs_scheme \<Rightarrow> (vfile \<times> 'a vfs_scheme \<times> int) option" where
  "file_write_from D f m src cnt st = file_write D f (if src = 0 then [] else mem_read m (unat src) cnt) st"

definition file_lseek ::
    "'a vfs_scheme drivers \<Rightarrow> vfile \<Rightarrow> int \<Rightarrow> whence \<Rightarrow> 'a vfs_scheme \<Rightarrow> vfile \<times> 'a vfs_scheme \<times> int" where
  "file_lseek D f off wh st =
    (case f_op f of
       None \<Rightarrow> (f, st, err EINVAL)
     | Some d \<Rightarrow>
         (let (st, res) = (case op_lseek (dr_ops D d) of Some lseek \<Rightarrow> lseek f off wh st | None \<Rightarrow> (st, 0))
          in if res < 0 then (f, st, res)
             else case wh of
                    SEEK_SET \<Rightarrow> (f\<lparr>f_pos := off\<rparr>, st, res)
                  | SEEK_CUR \<Rightarrow> (f\<lparr>f_pos := loff (f_pos f + off)\<rparr>, st, res)
                  | SEEK_END \<Rightarrow> (f\<lparr>f_pos := loff (f_size (f_stat f) + off)\<rparr>, st, res)
                  | SEEK_OTHER w \<Rightarrow> (f, st, err EINVAL)))"

definition file_ioctl :: "'a vfs_scheme drivers \<Rightarrow> vfile \<Rightarrow> nat \<Rightarrow> u32 \<Rightarrow> 'a vfs_scheme \<Rightarrow> 'a vfs_scheme \<times> int" where
  "file_ioctl D f cmd arg st =
    (case has_op D op_ioctl f of None \<Rightarrow> (st, err EINVAL) | Some ioctl \<Rightarrow> ioctl f cmd arg st)"

text \<open>\<open>file_readstr\<close> returns the string that it leaves in the buffer, or None when it stores nothing.\<close>

definition file_readstr ::
    "'a vfs_scheme drivers \<Rightarrow> vfile \<Rightarrow> nat \<Rightarrow> 'a vfs_scheme \<Rightarrow> (string option \<times> vfile \<times> 'a vfs_scheme \<times> int) option" where
  "file_readstr D f n st =
    (if n = 0 then Some (None, f, st, 0)
     else map_option (\<lambda>(dst, f, st, res).
            if res < 0 then (None, f, st, res) else (Some (take (nat res) dst @ [NUL]), f, st, res))
          (file_read D f (n - 1) st))"

text \<open>The loop of \<open>file_vprintf\<close> is \<open>try_format\<close>; its buffer of size \<open>sz\<close> is at \<open>bufaddr sz\<close> of memory \<open>m\<close>.\<close>

definition file_vprintf ::
    "'a vfs_scheme drivers \<Rightarrow> mem \<Rightarrow> (nat \<Rightarrow> nat) \<Rightarrow> vfile \<Rightarrow> string \<Rightarrow> va_slot list \<Rightarrow> 'a vfs_scheme \<Rightarrow>
      (vfile \<times> 'a vfs_scheme \<times> int) conv option" where
  "file_vprintf D m bufaddr f fmt va st =
    Option.bind (try_format (\<lambda>bufsz. vsnprintf m (bufaddr bufsz) bufsz fmt va) DEFAULT_BUFSZ) (\<lambda>r.
      case r of
        UB \<Rightarrow> Some UB
      | Unsupported \<Rightarrow> Some Unsupported
      | Done (bufsz, m, len) \<Rightarrow>
          (if len < 0 then Some (Done (f, st, len))
           else map_option Done (file_write D f (mem_read m (bufaddr bufsz) (nat len)) st)))"

definition file_printf ::
    "'a vfs_scheme drivers \<Rightarrow> mem \<Rightarrow> (nat \<Rightarrow> nat) \<Rightarrow> vfile \<Rightarrow> string \<Rightarrow> va_slot list \<Rightarrow> 'a vfs_scheme \<Rightarrow>
      (vfile \<times> 'a vfs_scheme \<times> int) conv option" where
  "file_printf D m bufaddr f fmt va st = file_vprintf D m bufaddr f fmt va st"

section \<open>File systems and mounts: vfs\_fs.c\<close>

definition fs_register_inner :: "nat \<Rightarrow> fsdriver \<Rightarrow> 'a vfs_scheme \<Rightarrow> 'a vfs_scheme \<times> int" where
  "fs_register_inner fstypeid ops st =
    (if fstypeid = 0 \<or> FSTYPES_MAX \<le> fstypeid then (st, err EINVAL)
     else case fs_drivers st ! fstypeid of
            Some d \<Rightarrow> (st, if d = ops then 0 else err EBUSY)
          | None \<Rightarrow> (st\<lparr>fs_drivers := (fs_drivers st)[fstypeid := Some ops]\<rparr>, 0))"

definition fs_register :: "nat \<Rightarrow> fsdriver \<Rightarrow> 'a vfs_scheme \<Rightarrow> 'a vfs_scheme \<times> int" where
  "fs_register fstypeid ops st = fs_register_inner fstypeid ops st"

fun sb_alloc_from :: "nat \<Rightarrow> nat \<Rightarrow> superblock list \<Rightarrow> nat option" where
  "sb_alloc_from 0 i sbs = None"
| "sb_alloc_from (Suc k) i sbs = (if s_op (sbs ! i) = None then Some i else sb_alloc_from k (Suc i) sbs)"

definition sb_alloc :: "'a vfs_scheme \<Rightarrow> nat option" where
  "sb_alloc st = sb_alloc_from SB_MAX 0 (superblocks st)"

definition upd_sb :: "nat \<Rightarrow> (superblock \<Rightarrow> superblock) \<Rightarrow> 'a vfs_scheme \<Rightarrow> 'a vfs_scheme" where
  "upd_sb i f st = st\<lparr>superblocks := (superblocks st)[i := f (superblocks st ! i)]\<rparr>"

definition sb_free :: "nat \<Rightarrow> 'a vfs_scheme \<Rightarrow> 'a vfs_scheme" where
  "sb_free sb st = upd_sb sb (\<lambda>s. s\<lparr>s_op := None\<rparr>) st"

text \<open>The type identifier indexes the driver array without a check; outside it the result is \<^const>\<open>None\<close>.\<close>

definition sb_open :: "'a vfs_scheme drivers \<Rightarrow> nat \<Rightarrow> u32 \<Rightarrow> nat \<Rightarrow> 'a vfs_scheme \<Rightarrow> ('a vfs_scheme \<times> int) option" where
  "sb_open D sb blockdev fstypeid st =
    (if FSTYPES_MAX \<le> fstypeid then None
     else case fs_drivers st ! fstypeid of
            None \<Rightarrow> Some (st, err ENODEV)
          | Some d \<Rightarrow>
              (let st = upd_sb sb (\<lambda>s. superblock0\<lparr>s_bdev := blockdev, s_op := Some d\<rparr>) st;
                   st = st\<lparr>vfs_mount_list := INIT_LIST_HEAD (vfs_mount_list st) (MountSb sb)\<rparr>
               in case fso_sb_open (dr_fs D d) of
                    None \<Rightarrow> Some (st, 0)
                  | Some drv_open \<Rightarrow>
                      (case drv_open sb st of
                         None \<Rightarrow> None
                       | Some (st, res) \<Rightarrow> Some (st, if res < 0 then res else 0))))"

definition sb_release :: "'a vfs_scheme drivers \<Rightarrow> nat \<Rightarrow> 'a vfs_scheme \<Rightarrow> 'a vfs_scheme \<times> int" where
  "sb_release D sb st =
    (case s_op (superblocks st ! sb) of
       None \<Rightarrow> (st, 0)
     | Some d \<Rightarrow> (case fso_sb_release (dr_fs D d) of Some rel \<Rightarrow> rel sb st | None \<Rightarrow> (st, 0)))"

text \<open>
  The loop of \<open>vfs_mount_list_add\<close> looks for the place that keeps the list sorted, but the result of the
  search is not used: the new entry always goes to the tail. What is left of the loop is that it ends.
\<close>

definition vfs_mount_list_add :: "nat \<Rightarrow> 'a vfs_scheme \<Rightarrow> 'a vfs_scheme option" where
  "vfs_mount_list_add sb st =
    (case list_for_each_entry (vfs_mount_list st) MountHead of
       None \<Rightarrow> None
     | Some visited \<Rightarrow>
         map_option (\<lambda>h. st\<lparr>vfs_mount_list := h\<rparr>) (list_add_tail (vfs_mount_list st) (MountSb sb) MountHead))"

definition fs_mountdev ::
    "'a vfs_scheme drivers \<Rightarrow> u32 \<Rightarrow> nat \<Rightarrow> string \<Rightarrow> 'a vfs_scheme \<Rightarrow> ('a vfs_scheme \<times> int) option" where
  "fs_mountdev D blockdev fstypeid mpath st =
    (case sb_alloc st of
       None \<Rightarrow> Some (st, err ENOMEM)
     | Some sb \<Rightarrow>
         (case sb_open D sb blockdev fstypeid st of
            None \<Rightarrow> None
          | Some (st, res) \<Rightarrow>
              (if res < 0 then Some (sb_free sb st, res)
               else let st = upd_sb sb (\<lambda>s. s\<lparr>s_mountpath := take (PATH_MAX - 1) mpath\<rparr>) st
                    in map_option (\<lambda>st. (st, 0)) (vfs_mount_list_add sb st))))"

fun mount_sb :: "mnode \<Rightarrow> nat" where
  "mount_sb (MountSb i) = i"
| "mount_sb MountHead = 0"

definition find_mount_for_path :: "string \<Rightarrow> 'a vfs_scheme \<Rightarrow> nat option option" where
  "find_mount_for_path abspath st =
    (case list_for_each_entry_prev (vfs_mount_list st) MountHead of
       None \<Rightarrow> None
     | Some nodes \<Rightarrow>
         Some (find (\<lambda>sb. strstr_s abspath (s_mountpath (superblocks st ! sb)) = Some 0) (map mount_sb nodes)))"

definition file_open_sb_path ::
    "'a vfs_scheme drivers \<Rightarrow> vfile \<Rightarrow> nat \<Rightarrow> string \<Rightarrow> 'a vfs_scheme \<Rightarrow> (vfile \<times> 'a vfs_scheme \<times> int) option" where
  "file_open_sb_path D file sb relpath st =
    (case s_op (superblocks st ! sb) of
       None \<Rightarrow> Some (file, st, err EINVAL)
     | Some d \<Rightarrow>
         (case Option.bind (fso_file_ops (dr_fs D d)) (\<lambda>o'. op_open_path (dr_ops D o')) of
            None \<Rightarrow> Some (file, st, err ENOTSUP)
          | Some open_path \<Rightarrow>
              (let file = file0\<lparr>f_op := fso_file_ops (dr_fs D d)\<rparr>
               in case open_path file sb relpath st of
                    None \<Rightarrow> None
                  | Some (file, st, res) \<Rightarrow> Some (file, st, if res < 0 then res else 0))))"

text \<open>The rest of a path behind a prefix and one slash, as \<open>path_strip_prefix\<close> finds it.\<close>

definition strip_prefix_text :: "string \<Rightarrow> string \<Rightarrow> string" where
  "strip_prefix_text path prefix =
    (let rest = drop (length prefix) path in if ch0 rest = CHR ''/'' then tl rest else rest)"

definition file_open_path_abs ::
    "'a vfs_scheme drivers \<Rightarrow> vfile \<Rightarrow> string \<Rightarrow> 'a vfs_scheme \<Rightarrow> (vfile \<times> 'a vfs_scheme \<times> int) option" where
  "file_open_path_abs D file abspath st =
    (case find_mount_for_path abspath st of
       None \<Rightarrow> None
     | Some None \<Rightarrow> Some (file, st, err ENOENT)
     | Some (Some sb) \<Rightarrow>
         (case Option.bind (s_op (superblocks st ! sb))
                 (\<lambda>d. Option.bind (fso_file_ops (dr_fs D d)) (\<lambda>o'. op_open_path (dr_ops D o'))) of
            None \<Rightarrow> Some (file, st, err ENOTSUP)
          | Some _ \<Rightarrow>
              file_open_sb_path D file sb (strip_prefix_text abspath (s_mountpath (superblocks st ! sb))) st))"

text \<open>The local path buffer holds what fits of the joined path.\<close>

definition file_open_path ::
    "'a vfs_scheme drivers \<Rightarrow> vfile \<Rightarrow> string option \<Rightarrow> string option \<Rightarrow> 'a vfs_scheme \<Rightarrow>
      (vfile \<times> 'a vfs_scheme \<times> int) option" where
  "file_open_path D file cwd path st = file_open_path_abs D file (take (PATH_MAX - 1) (join_text cwd path)) st"

definition file_stat ::
    "'a vfs_scheme drivers \<Rightarrow> string option \<Rightarrow> string option \<Rightarrow> 'a vfs_scheme \<Rightarrow>
      (fstat option \<times> 'a vfs_scheme \<times> int) option" where
  "file_stat D cwd path st =
    (case file_open_path D file0 cwd path st of
       None \<Rightarrow> None
     | Some (f, st, res) \<Rightarrow>
         (if res < 0 then Some (None, st, res)
          else let (st, r) = file_close D f st in Some (Some (f_stat f), st, res)))"

definition file_readdir ::
    "'a vfs_scheme drivers \<Rightarrow> vfile \<Rightarrow> 'a vfs_scheme \<Rightarrow> (dirent option \<times> 'a vfs_scheme \<times> int) option" where
  "file_readdir D f st =
    (case has_op D op_readdir f of
       None \<Rightarrow> Some (None, st, err EINVAL)
     | Some readdir \<Rightarrow> if f_type (f_stat f) \<noteq> DT_DIR then Some (None, st, err ENOTDIR) else readdir f st)"

section \<open>Devices that can be read\<close>

lemma loff_small: "- (2 ^ 31) \<le> i \<Longrightarrow> i < 2 ^ 31 \<Longrightarrow> loff i = i"
  by (simp add: loff_def signed_of_int signed_take_bit_int_eq_self)

text \<open>
  The contract between a device and a client that reads it through the VFS: reading \<open>n\<close> bytes at an
  offset gives the bytes of the content that are there, advances the offset by their number and
  changes nothing else, and the device does not take part in seeking. \<open>has f st c\<close> says that an open
  file \<open>f\<close> has the content \<open>c\<close> in the state \<open>st\<close>.
\<close>

locale readable_device =
  fixes D :: "('a vfs_scheme) drivers"
    and has :: "vfile \<Rightarrow> 'a vfs_scheme \<Rightarrow> string \<Rightarrow> bool"
  assumes has_read: "has f st c \<Longrightarrow> \<exists>read. has_op D op_read f = Some read \<and>
      (\<forall>n off. 0 \<le> off \<longrightarrow> 0 < n \<longrightarrow> read f n off st =
        Some (take n (drop (nat off) c), off + int (length (take n (drop (nat off) c))), st, int (length (take n (drop (nat off) c)))))"
    and has_seek: "has f st c \<Longrightarrow> \<exists>d. f_op f = Some d \<and> op_lseek (dr_ops D d) = None"
    and has_pos: "has f st c \<Longrightarrow> has (f\<lparr>f_pos := p\<rparr>) st c"
begin

lemma file_read_has:
  assumes "has f st c" "0 \<le> f_pos f"
  shows "file_read D f n st = Some (take n (drop (nat (f_pos f)) c),
      f\<lparr>f_pos := f_pos f + int (length (take n (drop (nat (f_pos f)) c)))\<rparr>, st, int (length (take n (drop (nat (f_pos f)) c))))"
proof -
  obtain read where r: "has_op D op_read f = Some read"
    "\<And>n off. 0 \<le> off \<Longrightarrow> 0 < n \<Longrightarrow> read f n off st =
      Some (take n (drop (nat off) c), off + int (length (take n (drop (nat off) c))), st, int (length (take n (drop (nat off) c))))"
    using has_read [OF assms(1)] by blast
  show ?thesis using r(2) [OF assms(2), of n] by (cases "n = 0") (simp_all add: file_read_def r(1))
qed

lemma file_pread_has:
  assumes "has f st c" "0 \<le> off"
  shows "file_pread D f n off st = Some (take n (drop (nat off) c), st, int (length (take n (drop (nat off) c))))"
proof -
  obtain read where r: "has_op D op_read f = Some read"
    "\<And>n off. 0 \<le> off \<Longrightarrow> 0 < n \<Longrightarrow> read f n off st =
      Some (take n (drop (nat off) c), off + int (length (take n (drop (nat off) c))), st, int (length (take n (drop (nat off) c))))"
    using has_read [OF assms(1)] by blast
  show ?thesis using r(2) [OF assms(2), of n] by (cases "n = 0") (simp_all add: file_pread_def r(1))
qed

lemma file_lseek_cur_has:
  assumes "has f st c"
  shows "file_lseek D f off SEEK_CUR st = (f\<lparr>f_pos := loff (f_pos f + off)\<rparr>, st, 0)"
    and "file_lseek D f off SEEK_SET st = (f\<lparr>f_pos := off\<rparr>, st, 0)"
  using has_seek [OF assms] by (auto simp: file_lseek_def)

lemma file_readstr_has:
  assumes "has f st c" "0 \<le> f_pos f" "0 < n"
  shows "map_option fst (file_readstr D f n st) = Some (Some (take (n - 1) (drop (nat (f_pos f)) c) @ [NUL]))"
  using file_read_has [OF assms(1,2), of "n - 1"] assms(3) by (auto simp: file_readstr_def Let_def min_def)

text \<open>Reading piece by piece gives the same bytes as one positioned read.\<close>

lemma file_read_twice:
  assumes "has f st c" "0 \<le> f_pos f" "file_read D f n st = Some (b1, f1, st1, r1)" "file_read D f1 k st1 = Some (b2, f2, st2, r2)"
  shows "file_pread D f (n + k) (f_pos f) st = Some (b1 @ b2, st, int (length (b1 @ b2)))"
proof -
  let ?p = "nat (f_pos f)"
  have 1: "b1 = take n (drop ?p c)" "f1 = f\<lparr>f_pos := f_pos f + int (length b1)\<rparr>" "st1 = st"
    using assms(3) file_read_has [OF assms(1,2), of n] by auto
  have h1: "has f1 st1 c" "0 \<le> f_pos f1" using has_pos [OF assms(1)] assms(2) 1 by auto
  have p1: "nat (f_pos f1) = ?p + length b1" using 1(2) assms(2) by simp
  have 2: "b2 = take k (drop (?p + length b1) c)" using assms(4) file_read_has [OF h1, of k] p1 by auto
  then have "b2 = take k (drop n (drop ?p c))"
    unfolding 1(1) by (cases "n \<le> length (drop ?p c)") (simp_all add: add.commute)
  then have "take (n + k) (drop ?p c) = b1 @ b2" using 1(1) take_add [of n k "drop ?p c"] by simp
  then show ?thesis using file_pread_has [OF assms(1,2), of "n + k"] by simp
qed

end

section \<open>Mounting\<close>

text \<open>The mount list has the mounted superblocks in the order of mounting.\<close>

definition mounts_ok :: "'a vfs_scheme \<Rightarrow> nat list \<Rightarrow> bool" where
  "mounts_ok st sbs \<longleftrightarrow> clist (vfs_mount_list st) MountHead (map MountSb sbs) \<and> distinct sbs \<and>
    length (superblocks st) = SB_MAX \<and> (\<forall>i\<in>set sbs. i < SB_MAX \<and> s_op (superblocks st ! i) \<noteq> None)"

text \<open>The superblock that serves a path: the last one mounted whose mount path is a prefix of it.\<close>

definition serves :: "'a vfs_scheme \<Rightarrow> string \<Rightarrow> nat \<Rightarrow> bool" where
  "serves st path i \<longleftrightarrow> strstr_s path (s_mountpath (superblocks st ! i)) = Some 0"

lemma find_mount_rev:
  assumes "mounts_ok st sbs"
  shows "find_mount_for_path path st = Some (find (serves st path) (rev sbs))"
proof -
  have "list_for_each_entry_prev (vfs_mount_list st) MountHead = Some (rev (map MountSb sbs))"
    using list_for_each_entry_prev_clist assms by (auto simp: mounts_ok_def)
  then show ?thesis by (simp add: find_mount_for_path_def serves_def [abs_def] rev_map comp_def)
qed

lemma sb_alloc_from_Some:
  "sb_alloc_from k i sbs = Some j \<Longrightarrow> i \<le> j \<and> j < i + k \<and> s_op (sbs ! j) = None"
  by (induction k i sbs rule: sb_alloc_from.induct) (auto split: if_splits)

lemma clist_INIT_other:
  assumes "x \<notin> set (head # xs)" "clist h head xs"
  shows "clist (INIT_LIST_HEAD h x) head xs"
proof -
  have "\<And>z. z \<in> set (head # xs) \<Longrightarrow> z \<noteq> x" using assms(1) by auto
  then have "clist (INIT_LIST_HEAD h x) head xs = clist h head xs"
    by (intro clist_cong) (simp add: INIT_LIST_HEAD_def)
  then show ?thesis using assms(2) by simp
qed

text \<open>
  The contract of a file system driver towards the mount table: opening a superblock leaves the list
  of mounts, the other superblocks and the superblock's own driver pointer alone.
\<close>

locale fs_driver =
  fixes D :: "('a vfs_scheme) drivers" and d :: fsdriver
  assumes sb_open_frame: "fso_sb_open (dr_fs D d) = Some drv \<Longrightarrow> drv sb st = Some (st', r) \<Longrightarrow>
    vfs_mount_list st' = vfs_mount_list st \<and> length (superblocks st') = length (superblocks st) \<and>
    (\<forall>i. i \<noteq> sb \<longrightarrow> superblocks st' ! i = superblocks st ! i) \<and>
    s_op (superblocks st' ! sb) = s_op (superblocks st ! sb)"
begin

lemma sb_open_mounts:
  assumes "mounts_ok st sbs" "sb < SB_MAX" "sb \<notin> set sbs" "ty < FSTYPES_MAX" "fs_drivers st ! ty = Some d"
    "sb_open D sb dev ty st = Some (st', r)" "0 \<le> r"
  shows "mounts_ok st' sbs \<and> s_op (superblocks st' ! sb) = Some d \<and> (\<forall>i. i \<noteq> sb \<longrightarrow> superblocks st' ! i = superblocks st ! i)"
proof -
  define st1 where "st1 = (upd_sb sb (\<lambda>s. superblock0\<lparr>s_bdev := dev, s_op := Some d\<rparr>) st)
    \<lparr>vfs_mount_list := INIT_LIST_HEAD (vfs_mount_list st) (MountSb sb)\<rparr>"
  have len: "length (superblocks st) = SB_MAX" using assms(1) by (simp add: mounts_ok_def)
  have sb1: "superblocks st1 ! sb = superblock0\<lparr>s_bdev := dev, s_op := Some d\<rparr>"
    "\<And>i. i \<noteq> sb \<Longrightarrow> superblocks st1 ! i = superblocks st ! i" "length (superblocks st1) = SB_MAX"
    using len assms(2) by (simp_all add: st1_def upd_sb_def)
  have ml: "clist (vfs_mount_list st1) MountHead (map MountSb sbs)"
    using assms(1,3) by (auto simp: st1_def mounts_ok_def intro!: clist_INIT_other)
  have op: "(fso_sb_open (dr_fs D d) = None \<and> st' = st1) \<or>
      (\<exists>drv r'. fso_sb_open (dr_fs D d) = Some drv \<and> drv sb st1 = Some (st', r'))"
    using assms(4-6) unfolding sb_open_def Let_def
    by (auto simp: st1_def upd_sb_def split: option.splits prod.splits)
  have fr: "vfs_mount_list st' = vfs_mount_list st1 \<and> length (superblocks st') = length (superblocks st1) \<and>
      (\<forall>i. i \<noteq> sb \<longrightarrow> superblocks st' ! i = superblocks st1 ! i) \<and> s_op (superblocks st' ! sb) = s_op (superblocks st1 ! sb)"
    using op sb_open_frame by blast
  have same: "\<And>i. i \<noteq> sb \<Longrightarrow> superblocks st' ! i = superblocks st ! i" using fr sb1(2) by simp
  have ne: "\<And>i. i \<in> set sbs \<Longrightarrow> i \<noteq> sb" using assms(3) by auto
  have "mounts_ok st' sbs" unfolding mounts_ok_def
    using ml fr sb1(3) assms(1) same [OF ne] by (simp add: mounts_ok_def)
  then show ?thesis using same fr sb1(1) by simp
qed

lemma fs_mountdev_mounts:
  assumes "mounts_ok st sbs" "ty < FSTYPES_MAX" "fs_drivers st ! ty = Some d"
    "fs_mountdev D dev ty mpath st = Some (st', 0)"
  shows "\<exists>sb. sb \<notin> set sbs \<and> mounts_ok st' (sbs @ [sb]) \<and> s_mountpath (superblocks st' ! sb) = take (PATH_MAX - 1) mpath \<and>
    (\<forall>i\<in>set sbs. superblocks st' ! i = superblocks st ! i)"
proof -
  obtain sb where sb: "sb_alloc st = Some sb"
    using assms(4) err_neg [of ENOMEM] by (auto simp: fs_mountdev_def split: option.splits)
  then have sbn: "sb < SB_MAX" "s_op (superblocks st ! sb) = None"
    using sb_alloc_from_Some [of SB_MAX 0 "superblocks st" sb] by (auto simp: sb_alloc_def)
  then have fresh: "sb \<notin> set sbs" using assms(1) by (auto simp: mounts_ok_def)
  from assms(4) sb obtain st1 r where o: "sb_open D sb dev ty st = Some (st1, r)" "0 \<le> r"
    and ml: "vfs_mount_list_add sb (upd_sb sb (\<lambda>s. s\<lparr>s_mountpath := take (PATH_MAX - 1) mpath\<rparr>) st1) = Some st'"
    by (auto simp: fs_mountdev_def Let_def split: option.splits if_splits)
  let ?st2 = "upd_sb sb (\<lambda>s. s\<lparr>s_mountpath := take (PATH_MAX - 1) mpath\<rparr>) st1"
  note m1 = sb_open_mounts [OF assms(1) sbn(1) fresh assms(2,3) o]
  have c: "clist (vfs_mount_list ?st2) MountHead (map MountSb sbs)" using m1 by (simp add: upd_sb_def mounts_ok_def)
  have "\<exists>h'. list_add_tail (vfs_mount_list ?st2) (MountSb sb) MountHead = Some h' \<and> clist h' MountHead (map MountSb sbs @ [MountSb sb])"
    by (rule list_add_tail_clist) (use c fresh in \<open>auto simp: clist0_def\<close>)
  then obtain h' where h': "list_add_tail (vfs_mount_list ?st2) (MountSb sb) MountHead = Some h'"
    "clist h' MountHead (map MountSb sbs @ [MountSb sb])" by blast
  then have st': "st' = ?st2\<lparr>vfs_mount_list := h'\<rparr>"
    using ml by (auto simp: vfs_mount_list_add_def split: option.splits)
  have len: "length (superblocks st1) = SB_MAX" using m1 by (simp add: mounts_ok_def)
  have "mounts_ok st' (sbs @ [sb])"
    using m1 h'(2) fresh sbn(1) len by (auto simp: st' mounts_ok_def upd_sb_def nth_list_update)
  moreover have "\<forall>i\<in>set sbs. superblocks st' ! i = superblocks st ! i"
  proof
    fix i assume "i \<in> set sbs"
    then have "sb \<noteq> i" using fresh by auto
    then show "superblocks st' ! i = superblocks st ! i" using m1 by (simp add: st' upd_sb_def)
  qed
  ultimately show ?thesis using fresh len sbn(1) by (auto simp: st' upd_sb_def)
qed

end

section \<open>Devices leave the mount table alone\<close>

definition same_vfs :: "'a vfs_scheme \<Rightarrow> 'a vfs_scheme \<Rightarrow> bool" where
  "same_vfs st st' \<longleftrightarrow> chrdev_drivers st' = chrdev_drivers st \<and> fs_drivers st' = fs_drivers st \<and>
    superblocks st' = superblocks st \<and> vfs_mount_list st' = vfs_mount_list st"

lemma same_vfs_refl [simp, intro]: "same_vfs st st"
  by (simp add: same_vfs_def)

lemma same_vfs_trans: "same_vfs st st1 \<Longrightarrow> same_vfs st1 st2 \<Longrightarrow> same_vfs st st2"
  by (simp add: same_vfs_def)

text \<open>The contract of the device drivers: whatever an operation does, the tables of the VFS stay as they are.\<close>

locale vfs_devices =
  fixes D :: "('a vfs_scheme) drivers"
  assumes open_same: "op_open_dev (dr_ops D d) = Some g \<Longrightarrow> g f mi st = (f', st', r) \<Longrightarrow> same_vfs st st'"
    and read_same: "op_read (dr_ops D d) = Some g2 \<Longrightarrow> g2 f n off st = Some (s, off', st', r) \<Longrightarrow> same_vfs st st'"
    and write_same: "op_write (dr_ops D d) = Some g3 \<Longrightarrow> g3 f s off st = Some (off', st', r) \<Longrightarrow> same_vfs st st'"
    and seek_same: "op_lseek (dr_ops D d) = Some g4 \<Longrightarrow> g4 f off wh st = (st', r) \<Longrightarrow> same_vfs st st'"
    and release_same: "op_release (dr_ops D d) = Some g5 \<Longrightarrow> g5 f st = (st', r) \<Longrightarrow> same_vfs st st'"
begin

lemma file_open_dev_same: "file_open_dev D rdev st = (f', st', r) \<Longrightarrow> same_vfs st st'"
  using open_same by (fastforce simp: file_open_dev_def file_open_dev_inner_def Let_def split: if_splits option.splits)

lemma file_read_same: "file_read D f n st = Some (s, f', st', r) \<Longrightarrow> same_vfs st st'"
  using read_same by (fastforce simp: file_read_def has_op_def split: if_splits option.splits bind_splits)

lemma file_pread_same: "file_pread D f n off st = Some (s, st', r) \<Longrightarrow> same_vfs st st'"
  using read_same by (fastforce simp: file_pread_def has_op_def split: if_splits option.splits bind_splits)

lemma file_write_same: "file_write D f s st = Some (f', st', r) \<Longrightarrow> same_vfs st st'"
  using write_same by (fastforce simp: file_write_def has_op_def split: if_splits option.splits bind_splits)

lemma file_lseek_same: "file_lseek D f off wh st = (f', st', r) \<Longrightarrow> same_vfs st st'"
proof (cases "f_op f")
  case (Some d)
  assume a: "file_lseek D f off wh st = (f', st', r)"
  show ?thesis
  proof (cases "op_lseek (dr_ops D d)")
    case None
    then show ?thesis using a Some by (auto simp: file_lseek_def split: whence.splits)
  next
    case (Some g)
    obtain st1 r1 where g: "g f off wh st = (st1, r1)" by force
    then have "st' = st1" using a Some \<open>f_op f = Some d\<close>
      by (auto simp: file_lseek_def split: whence.splits if_splits)
    then show ?thesis using seek_same [OF Some g] by simp
  qed
qed (auto simp: file_lseek_def)

lemma file_close_same: "file_close D f st = (st', r) \<Longrightarrow> same_vfs st st'"
  using release_same by (fastforce simp: file_close_def has_op_def split: option.splits bind_splits)

end

end
