(* ===== verification/Ramdisk.thy ===== *)
theory Ramdisk
  imports Vfs
begin

text \<open>
  The RAM disk driver (\<open>drivers/chrdev/ramdisk.c\<close>). A disk is a range of the kernel's memory, which is
  the byte array \<open>kmem\<close> of the state; the driver data of an open file is the index of its disk. The main
  facts: a disk that was created can be opened by its device number, and the open file meets the contract
  of a readable device with the disk's memory as its content.
\<close>

section \<open>The driver\<close>

definition RAMDISKS_MAX :: nat where "RAMDISKS_MAX = 4"

record ramdisk =
  rd_addr :: nat
  rd_size :: nat
  rd_name :: string

definition ramdisk0 :: ramdisk where "ramdisk0 = \<lparr>rd_addr = 0, rd_size = 0, rd_name = ''''\<rparr>"

record rdstate = vfs +
  ramdisks :: "ramdisk list"
  kmem :: mem

fun ramdisk_slot :: "nat \<Rightarrow> nat \<Rightarrow> ramdisk list \<Rightarrow> nat option" where
  "ramdisk_slot 0 i rds = None"
| "ramdisk_slot (Suc k) i rds = (if rd_addr (rds ! i) = 0 then Some i else ramdisk_slot k (Suc i) rds)"

definition ramdisk_create_inner :: "nat \<Rightarrow> nat \<Rightarrow> string \<Rightarrow> 'a rdstate_scheme \<Rightarrow> 'a rdstate_scheme \<times> int" where
  "ramdisk_create_inner addr sz name st =
    (if addr = 0 \<or> sz = 0 then (st, err EINVAL)
     else case ramdisk_slot RAMDISKS_MAX 0 (ramdisks st) of
            Some i \<Rightarrow> (st\<lparr>ramdisks := (ramdisks st)[i := \<lparr>rd_addr = addr, rd_size = sz, rd_name = name\<rparr>]\<rparr>, int i)
          | None \<Rightarrow> (st, err ENOMEM))"

definition ramdisk_create :: "nat \<Rightarrow> nat \<Rightarrow> string \<Rightarrow> 'a rdstate_scheme \<Rightarrow> 'a rdstate_scheme \<times> int" where
  "ramdisk_create addr sz name st = (let (st, res) = ramdisk_create_inner addr sz name st in (st, res))"

definition ramdisk_open_dev :: "vfile \<Rightarrow> nat \<Rightarrow> 'a rdstate_scheme \<Rightarrow> vfile \<times> 'a rdstate_scheme \<times> int" where
  "ramdisk_open_dev file mi st =
    (if RAMDISKS_MAX \<le> mi \<or> rd_addr (ramdisks st ! mi) = 0 then (file, st, err ENODEV)
     else (file\<lparr>f_driver_data := Some mi, f_stat := (f_stat file)\<lparr>f_size := loff (int (rd_size (ramdisks st ! mi)))\<rparr>\<rparr>, st, 0))"

definition ramdisk_debugstr :: "vfile \<Rightarrow> 'a rdstate_scheme \<Rightarrow> string" where
  "ramdisk_debugstr f st =
    (let rd = ramdisks st ! the (f_driver_data f)
     in fmt_text ''ramdisk{%s %p}'' [VStr 0 (rd_name rd), VWord (of_nat (rd_addr rd))])"

fun ramdisk_copy :: "mem \<Rightarrow> nat \<Rightarrow> int \<Rightarrow> nat \<Rightarrow> int \<Rightarrow> string \<times> int" where
  "ramdisk_copy m addr fsz 0 off = ([], off)"
| "ramdisk_copy m addr fsz (Suc n) off =
    (if off < fsz
     then let (bs, off') = ramdisk_copy m addr fsz n (off + 1) in (m (addr + nat off) # bs, off')
     else ([], off))"

text \<open>
  The loop of \<open>ramdisk_read\<close> stores each byte at \<open>dst\<close> before it reads the next. The drivers of this model hand the bytes
  that they read to their caller, which stores them: \<open>ramdisk_copy\<close> reads them all first. The lemma
  \<open>ramdisk_copy_to_bytes\<close> below shows that the two agree when the destination does not overlap the disk.
\<close>

fun ramdisk_copy_to :: "mem \<Rightarrow> nat \<Rightarrow> int \<Rightarrow> nat \<Rightarrow> nat \<Rightarrow> int \<Rightarrow> mem \<times> int" where
  "ramdisk_copy_to m addr fsz dst 0 off = (m, off)"
| "ramdisk_copy_to m addr fsz dst (Suc n) off =
    (if off < fsz then ramdisk_copy_to (m(dst := m (addr + nat off))) addr fsz (dst + 1) n (off + 1) else (m, off))"

definition ramdisk_read :: "vfile \<Rightarrow> nat \<Rightarrow> int \<Rightarrow> 'a rdstate_scheme \<Rightarrow> (string \<times> int \<times> 'a rdstate_scheme \<times> int) option" where
  "ramdisk_read f cnt off st =
    (let rd = ramdisks st ! the (f_driver_data f);
         off = (if off < 0 then 0 else off)
     in if f_size (f_stat f) \<le> off then Some ([], off, st, 0)
        else let (bs, off') = ramdisk_copy (kmem st) (rd_addr rd) (f_size (f_stat f)) cnt off
             in Some (bs, off', st, int (length bs)))"

definition ramdisk_ops :: "'a rdstate_scheme file_operations" where
  "ramdisk_ops = \<lparr>op_name = ''ramdisk'', op_open_dev = Some ramdisk_open_dev, op_open_path = None, op_release = None,
    op_debugstr = Some ramdisk_debugstr, op_read = Some ramdisk_read, op_readdir = None, op_write = None,
    op_lseek = None, op_ioctl = None\<rparr>"

definition init_driver_ramdisk :: "'a rdstate_scheme \<Rightarrow> 'a rdstate_scheme \<times> int" where
  "init_driver_ramdisk st = chrdev_register MAJ_RAMDISK RamdiskDrv st"

text \<open>The drivers of the kernel with the RAM disk's table in its place.\<close>

definition with_ramdisk :: "'a rdstate_scheme drivers \<Rightarrow> 'a rdstate_scheme drivers" where
  "with_ramdisk D = D\<lparr>dr_ops := (dr_ops D)(RamdiskDrv := ramdisk_ops)\<rparr>"

section \<open>Reading a disk\<close>

lemma ramdisk_copy_bytes:
  "0 \<le> off \<Longrightarrow> ramdisk_copy m addr fsz n off =
    (let k = Orderings.min n (nat (fsz - off)) in (mem_read m (addr + nat off) k, off + int k))"
proof (induction m addr fsz n off rule: ramdisk_copy.induct)
  case (2 m addr fsz n off)
  show ?case
  proof (cases "off < fsz")
    case True
    have k: "Orderings.min (Suc n) (nat (fsz - off)) = Suc (Orderings.min n (nat (fsz - (off + 1))))" using True by auto
    have "nat (off + 1) = Suc (nat off)" using 2(2) by simp
    then have r: "mem_read m (addr + nat off) (Suc (Orderings.min n (nat (fsz - (off + 1))))) =
        m (addr + nat off) # mem_read m (addr + nat (off + 1)) (Orderings.min n (nat (fsz - (off + 1))))"
      by (simp add: mem_read_def upt_conv_Cons map_Suc_upt [symmetric] comp_def del: upt_Suc)
    show ?thesis using 2(1) [OF True] 2(2) True by (simp add: Let_def k r)
  qed simp
qed (simp add: mem_read_def)

lemma ramdisk_copy_cong:
  "(\<And>a. addr \<le> a \<Longrightarrow> a < addr + nat fsz \<Longrightarrow> m' a = m a) \<Longrightarrow> 0 \<le> off \<Longrightarrow> ramdisk_copy m' addr fsz n off = ramdisk_copy m addr fsz n off"
  by (induction m addr fsz n off rule: ramdisk_copy.induct) auto

lemma ramdisk_copy_to_bytes:
  assumes "0 \<le> off" "addr + nat fsz \<le> dst \<or> dst + n \<le> addr"
  shows "ramdisk_copy_to m addr fsz dst n off = (let (bs, off') = ramdisk_copy m addr fsz n off in (mem_write m dst bs, off'))"
  using assms
proof (induction m addr fsz dst n off rule: ramdisk_copy_to.induct)
  case (1 m addr fsz dst off)
  have "mem_write m dst [] = m" by (rule ext) (auto simp: mem_write_def)
  then show ?case by simp
next
  case (2 m addr fsz dst n off)
  let ?m = "m(dst := m (addr + nat off))"
  have eq: "ramdisk_copy ?m addr fsz n (off + 1) = ramdisk_copy m addr fsz n (off + 1)"
    by (rule ramdisk_copy_cong) (use 2(2,3) in auto)
  have w: "mem_write ?m (dst + 1) bs = mem_write m dst (m (addr + nat off) # bs)" for bs
    using mem_write_append [of m dst "[m (addr + nat off)]" bs] by (simp add: mem_write_def fun_eq_iff)
  show ?case
  proof (cases "off < fsz")
    case True
    obtain bs off' where c: "ramdisk_copy m addr fsz n (off + 1) = (bs, off')" by fastforce
    have "ramdisk_copy_to ?m addr fsz (dst + 1) n (off + 1) = (mem_write ?m (dst + 1) bs, off')"
      using 2(1) [OF True] 2(2,3) by (auto simp: eq c)
    then show ?thesis using True c w by simp
  next
    case False
    have "mem_write m dst [] = m" by (rule ext) (auto simp: mem_write_def)
    then show ?thesis using False by simp
  qed
qed

text \<open>The memory \<open>lo\<close> up to \<open>hi\<close> holds no byte of a RAM disk.\<close>

definition disks_outside :: "'a rdstate_scheme \<Rightarrow> nat \<Rightarrow> nat \<Rightarrow> bool" where
  "disks_outside st lo hi \<longleftrightarrow>
    (\<forall>i<RAMDISKS_MAX. rd_addr (ramdisks st ! i) + rd_size (ramdisks st ! i) \<le> lo \<or> hi \<le> rd_addr (ramdisks st ! i))"

text \<open>The content of an open disk file: the disk's memory.\<close>

definition disk_file :: "vfile \<Rightarrow> 'a rdstate_scheme \<Rightarrow> string \<Rightarrow> bool" where
  "disk_file f st c \<longleftrightarrow> f_op f = Some RamdiskDrv \<and> f_size (f_stat f) = int (length c) \<and>
    (\<exists>i. f_driver_data f = Some i \<and> i < RAMDISKS_MAX \<and> c = mem_read (kmem st) (rd_addr (ramdisks st ! i)) (rd_size (ramdisks st ! i)))"

lemma take_drop_mem_read: "take n (drop k (mem_read m a sz)) = mem_read m (a + k) (Orderings.min n (sz - k))"
  by (rule nth_equalityI) (auto simp: mem_read_def add.assoc)

lemma ramdisk_read_disk:
  assumes "disk_file f st c" "0 \<le> off"
  shows "ramdisk_read f n off st =
    Some (take n (drop (nat off) c), off + int (length (take n (drop (nat off) c))), st, int (length (take n (drop (nat off) c))))"
proof -
  obtain i where i: "f_driver_data f = Some i" "c = mem_read (kmem st) (rd_addr (ramdisks st ! i)) (rd_size (ramdisks st ! i))"
    and sz: "f_size (f_stat f) = int (rd_size (ramdisks st ! i))"
    using assms(1) by (auto simp: disk_file_def)
  show ?thesis
  proof (cases "f_size (f_stat f) \<le> off")
    case True
    then have "drop (nat off) c = []" using i(2) sz by simp
    then show ?thesis using True assms(2) by (simp add: ramdisk_read_def)
  next
    case False
    have "nat (int (rd_size (ramdisks st ! i)) - off) = rd_size (ramdisks st ! i) - nat off" using assms(2) by simp
    then show ?thesis using False assms(2) ramdisk_copy_bytes [OF assms(2), of "kmem st" _ "f_size (f_stat f)" n]
      by (simp add: ramdisk_read_def i sz Let_def take_drop_mem_read)
  qed
qed

interpretation rd: readable_device "with_ramdisk D" disk_file for D :: "'a rdstate_scheme drivers"
proof
  fix f c p and st :: "'a rdstate_scheme" assume h: "disk_file f st c"
  show "\<exists>read. has_op (with_ramdisk D) op_read f = Some read \<and> (\<forall>n off. 0 \<le> off \<longrightarrow> 0 < n \<longrightarrow> read f n off st =
      Some (take n (drop (nat off) c), off + int (length (take n (drop (nat off) c))), st, int (length (take n (drop (nat off) c)))))"
    using ramdisk_read_disk [OF h] h by (intro exI [of _ ramdisk_read]) (simp add: disk_file_def has_op_def with_ramdisk_def ramdisk_ops_def)
  show "\<exists>d. f_op f = Some d \<and> op_lseek (dr_ops (with_ramdisk D) d) = None"
    using h by (simp add: disk_file_def with_ramdisk_def ramdisk_ops_def)
  show "disk_file (f\<lparr>f_pos := p\<rparr>) st c" using h by (simp add: disk_file_def)
qed

section \<open>Creating and opening a disk\<close>

definition disk_content :: "'a rdstate_scheme \<Rightarrow> nat \<Rightarrow> string" where
  "disk_content st i = mem_read (kmem st) (rd_addr (ramdisks st ! i)) (rd_size (ramdisks st ! i))"

definition disk_ok :: "'a rdstate_scheme \<Rightarrow> nat \<Rightarrow> bool" where
  "disk_ok st i \<longleftrightarrow> chrdev_drivers st ! MAJ_RAMDISK = Some RamdiskDrv \<and> i < RAMDISKS_MAX \<and>
    rd_addr (ramdisks st ! i) \<noteq> 0 \<and> rd_size (ramdisks st ! i) < 2 ^ 31"

lemma ramdisk_dev:
  assumes "i < RAMDISKS_MAX"
  shows "unat (MAJOR (MAKEDEV 4 (of_nat i))) = MAJ_RAMDISK" "unat (MINOR (MAKEDEV 4 (of_nat i))) = i"
proof -
  have "i = 0 \<or> i = 1 \<or> i = 2 \<or> i = 3" using assms by (auto simp: RAMDISKS_MAX_def)
  then show "unat (MAJOR (MAKEDEV 4 (of_nat i))) = MAJ_RAMDISK" "unat (MINOR (MAKEDEV 4 (of_nat i))) = i"
    by (auto simp: MAKEDEV_def MAJOR_def MINOR_def MAJ_RAMDISK_def)
qed

lemma ramdisk_open:
  assumes "disk_ok st i"
  shows "\<exists>f. file_open_dev (with_ramdisk D) (MAKEDEV 4 (of_nat i)) st = (f, st, 0) \<and>
    disk_file f st (disk_content st i) \<and> f_pos f = 0"
  using assms ramdisk_dev [of i]
  by (auto simp: file_open_dev_def file_open_dev_inner_def disk_ok_def MAJORS_MAX_def MAJ_RAMDISK_def with_ramdisk_def
      ramdisk_ops_def ramdisk_open_dev_def file0_def fstat0_def disk_file_def disk_content_def loff_small Let_def)

lemma ramdisk_close:
  "disk_file f st c \<Longrightarrow> file_close (with_ramdisk D) f st' = (st', 0)"
  by (simp add: disk_file_def file_close_def has_op_def with_ramdisk_def ramdisk_ops_def)

lemma ramdisk_slot_Some: "ramdisk_slot k i rds = Some j \<Longrightarrow> i \<le> j \<and> j < i + k \<and> rd_addr (rds ! j) = 0"
  by (induction k i rds rule: ramdisk_slot.induct) (auto split: if_splits)

text \<open>
  A RAM disk that was created successfully takes a free slot, leaves the other disks alone, and
  reading at any offset through the VFS, from a file opened by the device number with the returned index
  as its minor number, gives the bytes of its memory range.
\<close>

theorem ramdisk_create_read:
  assumes "ramdisk_create addr sz name st = (st', int i)" "length (ramdisks st) = RAMDISKS_MAX" "sz < 2 ^ 31"
    and "chrdev_drivers st ! MAJ_RAMDISK = Some RamdiskDrv"
  shows "rd_addr (ramdisks st ! i) = 0 \<and> (\<forall>j. j \<noteq> i \<longrightarrow> ramdisks st' ! j = ramdisks st ! j) \<and>
    (\<exists>f. file_open_dev (with_ramdisk D) (MAKEDEV 4 (of_nat i)) st' = (f, st', 0) \<and>
      (\<forall>n off. file_pread (with_ramdisk D) f n (int off) st' =
        Some (take n (drop off (mem_read (kmem st) addr sz)), st', int (Orderings.min n (sz - off)))))"
proof -
  have c: "addr \<noteq> 0" "sz \<noteq> 0" "ramdisk_slot RAMDISKS_MAX 0 (ramdisks st) = Some i"
    "st' = st\<lparr>ramdisks := (ramdisks st)[i := \<lparr>rd_addr = addr, rd_size = sz, rd_name = name\<rparr>]\<rparr>"
    using assms(1) by (auto simp: ramdisk_create_def ramdisk_create_inner_def split: if_splits option.splits)
  have i: "i < RAMDISKS_MAX" "rd_addr (ramdisks st ! i) = 0" using ramdisk_slot_Some [OF c(3)] by auto
  have ok: "disk_ok st' i" and dc: "disk_content st' i = mem_read (kmem st) addr sz"
    using assms(2-4) c(1,2) i(1) by (simp_all add: c(4) disk_ok_def disk_content_def)
  obtain f where f: "file_open_dev (with_ramdisk D) (MAKEDEV 4 (of_nat i)) st' = (f, st', 0)"
    "disk_file f st' (mem_read (kmem st) addr sz)"
    using ramdisk_open [OF ok, of D] unfolding dc by blast
  have "file_pread (with_ramdisk D) f n (int off) st' =
      Some (take n (drop off (mem_read (kmem st) addr sz)), st', int (Orderings.min n (sz - off)))" for n off
    using rd.file_pread_has [OF f(2), of "int off" D n] by (simp add: min.commute)
  moreover have "\<forall>j. j \<noteq> i \<longrightarrow> ramdisks st' ! j = ramdisks st ! j" by (simp add: c(4))
  ultimately show ?thesis using f(1) i(2) by blast
qed

definition rd_state :: rdstate where
  "rd_state = \<lparr>chrdev_drivers = (replicate MAJORS_MAX None)[MAJ_RAMDISK := Some RamdiskDrv],
    fs_drivers = replicate FSTYPES_MAX None, superblocks = replicate SB_MAX superblock0,
    vfs_mount_list = \<lparr>lh_next = (\<lambda>x. None), lh_prev = (\<lambda>x. None)\<rparr>,
    ramdisks = replicate RAMDISKS_MAX ramdisk0, kmem = (\<lambda>a. if a = 101 then CHR ''b'' else CHR ''a'')\<rparr>"

definition no_drivers :: "'s drivers" where
  "no_drivers = \<lparr>dr_ops = (\<lambda>d. \<lparr>op_name = '''', op_open_dev = None, op_open_path = None, op_release = None,
      op_debugstr = None, op_read = None, op_readdir = None, op_write = None, op_lseek = None, op_ioctl = None\<rparr>),
    dr_fs = (\<lambda>d. \<lparr>fso_name = '''', fso_sb_open = None, fso_sb_release = None, fso_file_ops = None\<rparr>)\<rparr>"

theorem ramdisk_create_read_witness:
  "let (st, i) = ramdisk_create 100 3 ''initrd'' rd_state
   in i = 0 \<and> map_option fst (file_pread (with_ramdisk no_drivers)
        (fst (file_open_dev (with_ramdisk no_drivers) (MAKEDEV 4 0) st)) 5 1 st) = Some ''ba''"
proof -
  define st where "st = fst (ramdisk_create 100 3 ''initrd'' rd_state)"
  have c: "ramdisk_create 100 3 ''initrd'' rd_state = (st, int 0)"
    by (simp add: st_def ramdisk_create_def ramdisk_create_inner_def rd_state_def ramdisk0_def RAMDISKS_MAX_def numeral_eq_Suc)
  have "\<exists>f. file_open_dev (with_ramdisk no_drivers) (MAKEDEV 4 0) st = (f, st, 0) \<and>
      (\<forall>n off. file_pread (with_ramdisk no_drivers) f n (int off) st =
        Some (take n (drop off (mem_read (kmem rd_state) 100 3)), st, int (Orderings.min n (3 - off))))"
    using ramdisk_create_read [OF c, of no_drivers]
    by (simp add: rd_state_def MAJ_RAMDISK_def MAJORS_MAX_def)
  then obtain f where f: "file_open_dev (with_ramdisk no_drivers) (MAKEDEV 4 0) st = (f, st, 0)"
    "file_pread (with_ramdisk no_drivers) f 5 (int 1) st = Some (take 5 (drop 1 (mem_read (kmem rd_state) 100 3)), st, int (Orderings.min 5 (3 - 1)))"
    by blast
  moreover have "drop 1 (mem_read (kmem rd_state) 100 3) = ''ba''"
    by (simp add: mem_read_def rd_state_def upt_rec numeral_eq_Suc)
  ultimately show ?thesis by (simp add: c)
qed

end
