(* ===== verification/Cpiofs.thy ===== *)
theory Cpiofs
  imports Ramdisk
begin

text \<open>
  The CPIO file system (\<open>drivers/fs/cpiofs.c\<close>): a read-only file system over an archive in the
  ``newc'' format that is read through the VFS from a device. The functions take the drivers \<open>D\<close> of the
  device with the archive. The loop that reads a path name does not end at the end of the device, and the
  loops over the entries go on as long as they find headers, so these give options. The second part relates
  the driver to the format: an encoder for archives, and the proof that the search finds every entry.
\<close>

section \<open>Headers\<close>

definition CM_FT_MASK :: u32 where "CM_FT_MASK = 0x6000"
definition CM_FT_DIR :: u32 where "CM_FT_DIR = 0x4000"
definition CM_FT_CHR :: u32 where "CM_FT_CHR = 0x2000"
definition CM_FT_BLK :: u32 where "CM_FT_BLK = 0x6000"

datatype cpio_format = CF_UNKNOWN | CF_NEWC

text \<open>The raw header is a byte array; the fields of \<open>cpio_newc_header\<close> are eight bytes at fixed offsets.\<close>

datatype newc_field =
  c_ino | c_mode | c_uid | c_gid | c_nlink | c_mtime | c_filesize | c_devmajor | c_devminor
  | c_rdevmajor | c_rdevminor | c_namesize | c_check

fun newc_offset :: "newc_field \<Rightarrow> nat" where
  "newc_offset c_ino = 6"
| "newc_offset c_mode = 14"
| "newc_offset c_uid = 22"
| "newc_offset c_gid = 30"
| "newc_offset c_nlink = 38"
| "newc_offset c_mtime = 46"
| "newc_offset c_filesize = 54"
| "newc_offset c_devmajor = 62"
| "newc_offset c_devminor = 70"
| "newc_offset c_rdevmajor = 78"
| "newc_offset c_rdevminor = 86"
| "newc_offset c_namesize = 94"
| "newc_offset c_check = 102"

definition sizeof_newc :: nat where "sizeof_newc = 110"

record cpio_header =
  fmt :: cpio_format
  bytes :: string
  hoff :: int
  hsize :: u32
  psize :: u32
  ppad :: u32
  fsize :: u32
  fpad :: u32
  pathname :: string
  is_endmarker :: bool

definition cpio_header0 :: cpio_header where
  "cpio_header0 = \<lparr>fmt = CF_UNKNOWN, bytes = replicate sizeof_newc NUL, hoff = 0, hsize = 0, psize = 0, ppad = 0,
    fsize = 0, fpad = 0, pathname = replicate PATH_MAX NUL, is_endmarker = False\<rparr>"

definition newc :: "cpio_header \<Rightarrow> newc_field \<Rightarrow> string" where
  "newc h fld = take 8 (drop (newc_offset fld) (bytes h))"

text \<open>
  The string in the path name buffer. A buffer without terminator is followed by \<open>is_endmarker\<close>, which is
  zero while the name is read.
\<close>

definition path_text :: "cpio_header \<Rightarrow> string" where
  "path_text h = takeWhile (\<lambda>c. c \<noteq> NUL) (pathname h)"

definition store_at :: "nat \<Rightarrow> string \<Rightarrow> string \<Rightarrow> string" where
  "store_at k bs buf = take k buf @ bs @ drop (k + length bs) buf"

section \<open>Value decoding\<close>

fun cpio_atoi :: "string \<Rightarrow> int \<Rightarrow> u32 \<Rightarrow> int" where
  "cpio_atoi [] base ret = sint ret"
| "cpio_atoi (ch # field) base ret =
    (let c = tolower (schar ch)
     in if (48 \<le> c \<and> c \<le> 57) \<or> (97 \<le> c \<and> c \<le> 102)
        then let digit = (if 48 \<le> c \<and> c \<le> 57 then c - 48 else c - 97 + 10)
             in if base \<le> digit then err EINVAL else cpio_atoi field base (ret * of_int base + of_int digit)
        else err EINVAL)"

definition newc_atoi :: "string \<Rightarrow> int" where
  "newc_atoi field = cpio_atoi field 16 0"

section \<open>Header reading and decoding\<close>

text \<open>The comparison of the first six bytes with the magic number.\<close>

definition newc_magic :: string where "newc_magic = ''070701''"

definition cpio_read_header_raw ::
    "'a vfs_scheme drivers \<Rightarrow> vfile \<Rightarrow> 'a vfs_scheme \<Rightarrow> (vfile \<times> cpio_header \<times> 'a vfs_scheme \<times> int) option" where
  "cpio_read_header_raw D f st =
    (let h = cpio_header0\<lparr>hoff := f_pos f\<rparr>
     in Option.bind (file_read D f 6 st) (\<lambda>(dst, f, st, res).
          let h = h\<lparr>bytes := store_at 0 dst (bytes h)\<rparr>;
              ct = res
          in if res < 0 then Some (f, h, st, res)
             else if res = 0 then Some (f, h, st, err EINVAL)
             else if take 6 (bytes h) \<noteq> newc_magic then Some (f, h, st, err EINVAL)
             else let h = h\<lparr>fmt := CF_NEWC, hsize := of_nat sizeof_newc\<rparr>
                  in Option.bind (file_read D f (unat (hsize h - of_int ct)) st) (\<lambda>(dst, f, st, res).
                       let h = h\<lparr>bytes := store_at (nat ct) dst (bytes h)\<rparr>
                       in if res < 0 then Some (f, h, st, res) else Some (f, h, st, ct + res))))"

definition cpioh_decode_sizes :: "cpio_header \<Rightarrow> cpio_header \<times> int" where
  "cpioh_decode_sizes h =
    (case fmt h of
       CF_NEWC \<Rightarrow>
         (let h = h\<lparr>psize := of_int (newc_atoi (newc h c_namesize))\<rparr>;
              h = h\<lparr>fsize := of_int (newc_atoi (newc h c_filesize))\<rparr>;
              h = h\<lparr>ppad := ALIGN_UP (hsize h + psize h) 4 - (hsize h + psize h)\<rparr>
          in (h\<lparr>fpad := ALIGN_UP (fsize h) 4 - fsize h\<rparr>, 0))
     | CF_UNKNOWN \<Rightarrow> (h, err EINVAL))"

definition cpio_mode_to_dirtype :: "u32 \<Rightarrow> dirtype option" where
  "cpio_mode_to_dirtype mode =
    (let ft = and mode CM_FT_MASK
     in if ft = 0 then Some DT_REG
        else if ft = CM_FT_DIR then Some DT_DIR
        else if ft = CM_FT_CHR then Some DT_CHR
        else if ft = CM_FT_BLK then Some DT_CHR
        else None)"

definition cpioh_fstat :: "cpio_header \<Rightarrow> fstat \<Rightarrow> fstat \<times> int" where
  "cpioh_fstat h s =
    (case fmt h of
       CF_NEWC \<Rightarrow>
         (s\<lparr>f_rdev := MAKEDEV (of_int (newc_atoi (newc h c_devmajor))) (of_int (newc_atoi (newc h c_devminor))),
            f_type := the (cpio_mode_to_dirtype (of_int (newc_atoi (newc h c_mode)))),
            f_size := sint (fsize h)\<rparr>, 0)
     | CF_UNKNOWN \<Rightarrow> (s, err EINVAL))"

partial_function (option) cpio_read_name ::
    "'a vfs_scheme drivers \<Rightarrow> vfile \<Rightarrow> string \<Rightarrow> int \<Rightarrow> int \<Rightarrow> 'a vfs_scheme \<Rightarrow>
      (vfile \<times> string \<times> 'a vfs_scheme \<times> int) option" where
  "cpio_read_name D f buf ct readsz st =
    (if ct < readsz
     then Option.bind (file_read D f (nat (readsz - ct)) st) (\<lambda>(dst, f, st, res).
            let buf = store_at (nat ct) dst buf
            in if res < 0 then Some (f, buf, st, res) else cpio_read_name D f buf (ct + res) readsz st)
     else Some (f, buf, st, ct))"

definition cpio_read_pathname ::
    "'a vfs_scheme drivers \<Rightarrow> vfile \<Rightarrow> cpio_header \<Rightarrow> 'a vfs_scheme \<Rightarrow>
      (vfile \<times> cpio_header \<times> 'a vfs_scheme \<times> int) option" where
  "cpio_read_pathname D f h st =
    (case cpio_read_name D f (pathname h) 0 (int (Orderings.min (unat (psize h)) PATH_MAX)) st of
       None \<Rightarrow> None
     | Some (f, buf, st, ct) \<Rightarrow>
         (let h = h\<lparr>pathname := buf\<rparr>
          in if ct < 0 then Some (f, h, st, ct)
             else if PATH_MAX < unat (psize h) then Some (f, h, st, err EOVERFLOW)
             else if ppad h \<noteq> 0
             then let (f, st, res) = file_lseek D f (sint (ppad h)) SEEK_CUR st
                  in Some (f, h, st, if res < 0 then res else ct + uint (ppad h))
             else Some (f, h, st, ct)))"

definition cpio_read_header ::
    "'a vfs_scheme drivers \<Rightarrow> vfile \<Rightarrow> 'a vfs_scheme \<Rightarrow> (vfile \<times> cpio_header \<times> 'a vfs_scheme \<times> int) option" where
  "cpio_read_header D f st =
    Option.bind (cpio_read_header_raw D f st) (\<lambda>(f, h, st, res).
        let ct = res
        in if res < 0 then Some (f, h, st, res)
        else let (h, res) = cpioh_decode_sizes h
             in if res < 0 then Some (f, h, st, res)
                else case cpio_read_pathname D f h st of
                       None \<Rightarrow> None
                     | Some (f, h, st, res) \<Rightarrow>
                         (if res < 0 then Some (f, h, st, res)
                          else let h = (if fsize h = 0 \<and> strncmp_s (path_text h) ''TRAILER!!!'' PATH_MAX = 0
                                        then h\<lparr>is_endmarker := True\<rparr> else h)
                               in Some (f, h, st, ct + res)))"

definition cpio_skip_fdata ::
    "'a vfs_scheme drivers \<Rightarrow> vfile \<Rightarrow> cpio_header \<Rightarrow> 'a vfs_scheme \<Rightarrow> vfile \<times> 'a vfs_scheme \<times> int" where
  "cpio_skip_fdata D f h st = file_lseek D f (sint (fsize h + fpad h)) SEEK_CUR st"

section \<open>Searches\<close>

partial_function (option) cpio_find_from ::
    "'a vfs_scheme drivers \<Rightarrow> vfile \<Rightarrow> string \<Rightarrow> cpio_header \<Rightarrow> nat \<Rightarrow> 'a vfs_scheme \<Rightarrow>
      (vfile \<times> cpio_header \<times> 'a vfs_scheme \<times> int) option" where
  "cpio_find_from D f p h i st =
    (if is_endmarker h then Some (f, h, st, err ENOENT)
     else Option.bind (cpio_read_header D f st) (\<lambda>(f, h, st, res).
       if res < 0 then Some (f, h, st, res)
       else if strcmp_s (path_text h) p = 0 then Some (f, h, st, int i)
       else let (f, st, res) = cpio_skip_fdata D f h st
            in if res < 0 then Some (f, h, st, res) else cpio_find_from D f p h (Suc i) st))"

definition cpio_find_path ::
    "'a vfs_scheme drivers \<Rightarrow> vfile \<Rightarrow> string \<Rightarrow> 'a vfs_scheme \<Rightarrow> (vfile \<times> cpio_header \<times> 'a vfs_scheme \<times> int) option" where
  "cpio_find_path D f p st = cpio_find_from D f p cpio_header0 0 st"

section \<open>Driver data for files\<close>

record cfdata =
  af :: vfile
  cf_h :: cpio_header
  foff :: int

definition MAX_CPIO_OPEN :: nat where "MAX_CPIO_OPEN = 4"

record cpstate = rdstate +
  cfdatas :: "cfdata list"

fun cfdata_find :: "nat \<Rightarrow> nat \<Rightarrow> cfdata list \<Rightarrow> nat option" where
  "cfdata_find 0 i cfs = None"
| "cfdata_find (Suc k) i cfs = (if f_op (af (cfs ! i)) = None then Some i else cfdata_find k (Suc i) cfs)"

definition cfdata_alloc :: "'a cpstate_scheme \<Rightarrow> nat option" where
  "cfdata_alloc st = cfdata_find MAX_CPIO_OPEN 0 (cfdatas st)"

definition upd_cf :: "nat \<Rightarrow> (cfdata \<Rightarrow> cfdata) \<Rightarrow> 'a cpstate_scheme \<Rightarrow> 'a cpstate_scheme" where
  "upd_cf i g st = st\<lparr>cfdatas := (cfdatas st)[i := g (cfdatas st ! i)]\<rparr>"

definition cfdata_free :: "nat \<Rightarrow> 'a cpstate_scheme \<Rightarrow> 'a cpstate_scheme" where
  "cfdata_free i st = upd_cf i (\<lambda>c. c\<lparr>af := (af c)\<lparr>f_op := None\<rparr>\<rparr>) st"

section \<open>Operations\<close>

text \<open>\<open>s_name\<close> gets what fits of the description; the address of the local file struct is not printed.\<close>

definition cpio_sb_open :: "'a vfs_scheme drivers \<Rightarrow> nat \<Rightarrow> 'a vfs_scheme \<Rightarrow> ('a vfs_scheme \<times> int) option" where
  "cpio_sb_open D sb st =
    (let (f, st, res) = file_open_dev D (s_bdev (superblocks st ! sb)) st
     in if res < 0 then Some (st, res)
        else let st = upd_sb sb (\<lambda>s. s\<lparr>s_name := take (DEBUGSTR_MAX - 1) (file_debugstr D 0 (Some f) st)\<rparr>) st
             in case cpio_find_path D f ''.'' st of
                  None \<Rightarrow> None
                | Some (f, h, st, res) \<Rightarrow>
                    (let st = upd_sb sb (\<lambda>s. s\<lparr>s_root_ino := res\<rparr>) st;
                         (st, r) = file_close D f st
                     in Some (st, res)))"

definition cpio_file_open_path ::
    "'a cpstate_scheme drivers \<Rightarrow> vfile \<Rightarrow> nat \<Rightarrow> string \<Rightarrow> 'a cpstate_scheme \<Rightarrow>
      (vfile \<times> 'a cpstate_scheme \<times> int) option" where
  "cpio_file_open_path D f sb path st =
    (let path = (if path = '''' then ''.'' else path)
     in case cfdata_alloc st of
          None \<Rightarrow> Some (f, st, err ENOMEM)
        | Some i \<Rightarrow>
            (let (a, st, res) = file_open_dev D (s_bdev (superblocks st ! sb)) st;
                 st = upd_cf i (\<lambda>c. c\<lparr>af := a\<rparr>) st
             in if res < 0 then Some (f, cfdata_free i st, res)
                else case cpio_find_path D a path st of
                       None \<Rightarrow> None
                     | Some (a, h, st, res) \<Rightarrow>
                         (let st = upd_cf i (\<lambda>c. c\<lparr>af := a, cf_h := h\<rparr>) st
                          in if res < 0 then Some (f, cfdata_free i (fst (file_close D a st)), res)
                             else let (s, res) = cpioh_fstat h (f_stat f)
                                  in if res < 0 then Some (f, cfdata_free i (fst (file_close D a st)), res)
                                     else let f = f\<lparr>f_stat := s\<rparr>;
                                              st = upd_cf i (\<lambda>c. c\<lparr>foff := loff (hoff h + uint (hsize h + psize h + ppad h))\<rparr>) st
                                          in Some (f\<lparr>f_driver_data := Some i\<rparr>, st, 0))))"

definition cpio_file_release :: "vfile \<Rightarrow> 'a cpstate_scheme \<Rightarrow> 'a cpstate_scheme \<times> int" where
  "cpio_file_release f st =
    (case f_driver_data f of Some i \<Rightarrow> (cfdata_free i st, 0) | None \<Rightarrow> (st, 0))"

definition cpio_file_read ::
    "'a cpstate_scheme drivers \<Rightarrow> vfile \<Rightarrow> nat \<Rightarrow> int \<Rightarrow> 'a cpstate_scheme \<Rightarrow>
      (string \<times> int \<times> 'a cpstate_scheme \<times> int) option" where
  "cpio_file_read D f cnt off st =
    (let cf = cfdatas st ! the (f_driver_data f);
         aoff = loff (off + foff cf);
         cnt = (if loff (off + loff (int cnt)) > f_size (f_stat f)
                then unat (of_int (f_size (f_stat f) - f_pos f) :: u32) else cnt)
     in map_option (\<lambda>(dst, st, res).
          if res < 0 then (dst, off, st, res)
          else (dst, loff (loff (aoff + res) - foff cf), st, res)) (file_pread D (af cf) cnt aoff st))"

partial_function (option) cpio_readdir_loop ::
    "'a vfs_scheme drivers \<Rightarrow> vfile \<Rightarrow> string \<Rightarrow> 'a vfs_scheme \<Rightarrow>
      (vfile \<times> cpio_header \<times> 'a vfs_scheme \<times> int) option" where
  "cpio_readdir_loop D f dirpath st =
    Option.bind (cpio_read_header D f st) (\<lambda>(f, h, st, res).
      if res < 0 then Some (f, h, st, res)
      else let (f, st, res) = cpio_skip_fdata D f h st
           in if res < 0 then Some (f, h, st, res)
              else if is_endmarker h then Some (f, h, st, 0)
              else if strncmp_s (path_text h) dirpath (length dirpath) = 0 then Some (f, h, st, 1)
              else cpio_readdir_loop D f dirpath st)"

text \<open>
  The directory entry is filled from a local \<open>fstat\<close>; its inode number is never set, so the model's
  entries have no inode number.
\<close>

definition cpio_file_readdir ::
    "'a cpstate_scheme drivers \<Rightarrow> vfile \<Rightarrow> 'a cpstate_scheme \<Rightarrow> (dirent option \<times> 'a cpstate_scheme \<times> int) option" where
  "cpio_file_readdir D f st =
    (let i = the (f_driver_data f);
         cf = cfdatas st ! i;
         dirpath = (if strcmp_s (path_text (cf_h cf)) ''.'' = 0 then '''' else path_text (cf_h cf));
         (a, st, res) = (if f_pos f = 0 then cpio_skip_fdata D (af cf) (cf_h cf) st else (af cf, st, 0))
     in if res < 0 then Some (None, upd_cf i (\<lambda>c. c\<lparr>af := a\<rparr>) st, res)
        else case cpio_readdir_loop D a dirpath st of
               None \<Rightarrow> None
             | Some (a, h, st, res) \<Rightarrow>
                 (let st = upd_cf i (\<lambda>c. c\<lparr>af := a\<rparr>) st
                  in if res \<le> 0 then Some (None, st, res)
                     else let (s, r) = cpioh_fstat h fstat0
                          in Some (Some \<lparr>d_type = f_type s, d_name = take (PATH_MAX - 1) (strip_prefix_text (path_text h) dirpath)\<rparr>,
                                   st, 1)))"

definition cpio_file_ops :: "'a cpstate_scheme drivers \<Rightarrow> 'a cpstate_scheme file_operations" where
  "cpio_file_ops D = \<lparr>op_name = ''cpio_file'', op_open_dev = None, op_open_path = Some (cpio_file_open_path D),
    op_release = Some cpio_file_release, op_debugstr = None, op_read = Some (cpio_file_read D),
    op_readdir = Some (cpio_file_readdir D), op_write = None, op_lseek = None, op_ioctl = None\<rparr>"

definition cpio_fs_ops :: "'a cpstate_scheme drivers \<Rightarrow> 'a cpstate_scheme fs_operations" where
  "cpio_fs_ops D = \<lparr>fso_name = ''cpiofs'', fso_sb_open = Some (cpio_sb_open D), fso_sb_release = None,
    fso_file_ops = Some CpioFileDrv\<rparr>"

definition init_driver_cpiofs :: "'a cpstate_scheme \<Rightarrow> 'a cpstate_scheme \<times> int" where
  "init_driver_cpiofs st = fs_register FS_CPIO CpioFsDrv st"

text \<open>
  The drivers of the kernel: the devices of \<open>D\<close>, and the file system with the archive on one of them. The
  file system's table of file operations is not a device driver, so it is not among the drivers that the
  archive is opened with.
\<close>

definition with_cpiofs :: "'a cpstate_scheme drivers \<Rightarrow> 'a cpstate_scheme drivers" where
  "with_cpiofs D = D\<lparr>dr_ops := (dr_ops D)(CpioFileDrv := cpio_file_ops D), dr_fs := (dr_fs D)(CpioFsDrv := cpio_fs_ops D)\<rparr>"

section \<open>The file system driver leaves the mount table alone\<close>

context vfs_devices
begin

lemma header_raw_same: "cpio_read_header_raw D f st = Some (f', h, st', r) \<Longrightarrow> same_vfs st st'"
  by (auto simp: cpio_read_header_raw_def Let_def split: if_splits bind_splits dest!: file_read_same)
    (blast intro: same_vfs_trans)+

lemma read_name_same:
  assumes "cpio_read_name D' f buf ct readsz st = Some r"
  shows "D' = D \<longrightarrow> same_vfs st (fst (snd (snd r)))"
proof (rule cpio_read_name.raw_induct [OF _ assms, where P = "\<lambda>D' f buf ct readsz st r. D' = D \<longrightarrow> same_vfs st (fst (snd (snd r)))"])
  fix rec D' f buf ct readsz st r
  assume IH: "\<And>D' f buf ct readsz st y. rec D' f buf ct readsz st = Some y \<Longrightarrow> D' = D \<longrightarrow> same_vfs st (fst (snd (snd y)))"
    and body: "(if ct < readsz
        then Option.bind (file_read D' f (nat (readsz - ct)) st) (\<lambda>(dst, f, st, res).
               let buf = store_at (nat ct) dst buf
               in if res < 0 then Some (f, buf, st, res) else rec D' f buf (ct + res) readsz st)
        else Some (f, buf, st, ct)) = Some r"
  show "D' = D \<longrightarrow> same_vfs st (fst (snd (snd r)))"
  proof
    assume D: "D' = D"
    show "same_vfs st (fst (snd (snd r)))"
    proof (cases "ct < readsz")
      case True
      then obtain dst f1 st1 res where rd: "file_read D f (nat (readsz - ct)) st = Some (dst, f1, st1, res)"
        using body D by (auto split: bind_splits)
      show ?thesis
      proof (cases "res < 0")
        case True
        then show ?thesis using body D rd \<open>ct < readsz\<close> file_read_same [OF rd] by (auto simp: Let_def)
      next
        case False
        then have "rec D f1 (store_at (nat ct) dst buf) (ct + res) readsz st1 = Some r"
          using body D rd True by (simp add: Let_def)
        from IH [OF this] show ?thesis using same_vfs_trans [OF file_read_same [OF rd]] by simp
      qed
    qed (use body in auto)
  qed
qed

lemma pathname_same: "cpio_read_pathname D f h st = Some (f', h', st', r) \<Longrightarrow> same_vfs st st'"
proof -
  assume a: "cpio_read_pathname D f h st = Some (f', h', st', r)"
  then obtain f1 buf st1 ct where n: "cpio_read_name D f (pathname h) 0 (int (Orderings.min (unat (psize h)) PATH_MAX)) st = Some (f1, buf, st1, ct)"
    by (auto simp: cpio_read_pathname_def split: option.splits)
  then have s: "same_vfs st st1" using read_name_same by fastforce
  from a n have "st' = st1 \<or> (\<exists>f2 res. file_lseek D f1 (sint (ppad h)) SEEK_CUR st1 = (f2, st', res))"
    by (auto simp: cpio_read_pathname_def Let_def split: if_splits prod.splits)
  then show ?thesis using s file_lseek_same same_vfs_trans by blast
qed

lemma header_same: "cpio_read_header D f st = Some (f', h, st', r) \<Longrightarrow> same_vfs st st'"
  by (auto simp: cpio_read_header_def Let_def split: if_splits bind_splits option.splits prod.splits
      dest!: header_raw_same pathname_same) (blast intro: same_vfs_trans)+

lemma skip_same: "cpio_skip_fdata D f h st = (f', st', r) \<Longrightarrow> same_vfs st st'"
  by (auto simp: cpio_skip_fdata_def dest: file_lseek_same)

lemma find_from_same:
  assumes "cpio_find_from D' f p h i st = Some r"
  shows "D' = D \<longrightarrow> same_vfs st (fst (snd (snd r)))"
proof (rule cpio_find_from.raw_induct [OF _ assms, where P = "\<lambda>D' f p h i st r. D' = D \<longrightarrow> same_vfs st (fst (snd (snd r)))"])
  fix rec D' f p h i st r
  assume IH: "\<And>D' f p h i st y. rec D' f p h i st = Some y \<Longrightarrow> D' = D \<longrightarrow> same_vfs st (fst (snd (snd y)))"
    and body: "(if is_endmarker h then Some (f, h, st, err ENOENT)
     else Option.bind (cpio_read_header D' f st) (\<lambda>(f, h, st, res).
       if res < 0 then Some (f, h, st, res)
       else if strcmp_s (path_text h) p = 0 then Some (f, h, st, int i)
       else let (f, st, res) = cpio_skip_fdata D' f h st
            in if res < 0 then Some (f, h, st, res) else rec D' f p h (Suc i) st)) = Some r"
  show "D' = D \<longrightarrow> same_vfs st (fst (snd (snd r)))"
  proof
    assume D: "D' = D"
    show "same_vfs st (fst (snd (snd r)))"
    proof (cases "is_endmarker h")
      case False
      then obtain f1 h1 st1 res where rd: "cpio_read_header D f st = Some (f1, h1, st1, res)"
        using body D by (auto split: bind_splits)
      obtain f2 st2 res2 where sk: "cpio_skip_fdata D f1 h1 st1 = (f2, st2, res2)" by (metis prod_cases3)
      have s: "same_vfs st st1" "same_vfs st st2" using header_same [OF rd] skip_same [OF sk] same_vfs_trans by blast+
      have "fst (snd (snd r)) = st1 \<or> fst (snd (snd r)) = st2 \<or> rec D f2 p h1 (Suc i) st2 = Some r"
        using body D False rd sk by (auto split: if_splits)
      then show ?thesis
      proof (elim disjE)
        assume "rec D f2 p h1 (Suc i) st2 = Some r"
        from IH [OF this] have "same_vfs st2 (fst (snd (snd r)))" by simp
        then show ?thesis by (rule same_vfs_trans [OF s(2)])
      qed (use s in simp_all)
    qed (use body in auto)
  qed
qed

lemma find_path_same: "cpio_find_path D f p st = Some (f', h, st', r) \<Longrightarrow> same_vfs st st'"
  using find_from_same [of D f p cpio_header0 0 st] by (fastforce simp: cpio_find_path_def)

text \<open>Opening a superblock changes only the name and the root of that superblock.\<close>

lemma sb_open_same:
  assumes "cpio_sb_open D sb st = Some (st', r)"
  shows "chrdev_drivers st' = chrdev_drivers st" "fs_drivers st' = fs_drivers st" "vfs_mount_list st' = vfs_mount_list st"
    "length (superblocks st') = length (superblocks st)" "i \<noteq> sb \<Longrightarrow> superblocks st' ! i = superblocks st ! i"
    "s_op (superblocks st' ! sb) = s_op (superblocks st ! sb)"
proof -
  obtain f st1 res where o: "file_open_dev D (s_bdev (superblocks st ! sb)) st = (f, st1, res)" by (metis prod_cases3)
  note s1 = file_open_dev_same [OF o]
  have "\<exists>g. chrdev_drivers st' = chrdev_drivers st1 \<and> fs_drivers st' = fs_drivers st1 \<and> vfs_mount_list st' = vfs_mount_list st1 \<and>
      superblocks st' = (superblocks st1)[sb := g (superblocks st1 ! sb)] \<and> (\<forall>s. s_op (g s) = s_op s)"
  proof (cases "res < 0")
    case True
    then have "st' = st1" using assms o by (simp add: cpio_sb_open_def)
    then show ?thesis by (intro exI [of _ "\<lambda>s. s"]) simp
  next
    case False
    let ?g = "\<lambda>s. s\<lparr>s_name := take (DEBUGSTR_MAX - 1) (file_debugstr D 0 (Some f) st1)\<rparr>"
    obtain f2 h st2 res2 where fd: "cpio_find_path D f ''.'' (upd_sb sb ?g st1) = Some (f2, h, st2, res2)"
      using assms o False by (auto simp: cpio_sb_open_def Let_def split: option.splits)
    obtain st3 r3 where cl: "file_close D f2 (upd_sb sb (\<lambda>s. s\<lparr>s_root_ino := res2\<rparr>) st2) = (st3, r3)" by force
    have "st' = st3" using assms o False fd cl by (simp add: cpio_sb_open_def Let_def)
    moreover have "same_vfs (upd_sb sb ?g st1) st2" by (rule find_path_same [OF fd])
    moreover have "same_vfs (upd_sb sb (\<lambda>s. s\<lparr>s_root_ino := res2\<rparr>) st2) st3" by (rule file_close_same [OF cl])
    moreover have "(superblocks st1)[sb := ?g (superblocks st1 ! sb), sb := ((superblocks st1)[sb := ?g (superblocks st1 ! sb)] ! sb)\<lparr>s_root_ino := res2\<rparr>] =
        (superblocks st1)[sb := (?g (superblocks st1 ! sb))\<lparr>s_root_ino := res2\<rparr>]"
      by (cases "sb < length (superblocks st1)") (simp_all add: list_update_beyond)
    ultimately show ?thesis
      by (intro exI [of _ "\<lambda>s. (?g s)\<lparr>s_root_ino := res2\<rparr>"]) (simp add: same_vfs_def upd_sb_def)
  qed
  then obtain g where g: "chrdev_drivers st' = chrdev_drivers st" "fs_drivers st' = fs_drivers st"
    "vfs_mount_list st' = vfs_mount_list st" "superblocks st' = (superblocks st)[sb := g (superblocks st ! sb)]" "\<forall>s. s_op (g s) = s_op s"
    using s1 by (auto simp: same_vfs_def)
  then show "chrdev_drivers st' = chrdev_drivers st" "fs_drivers st' = fs_drivers st" "vfs_mount_list st' = vfs_mount_list st"
    "length (superblocks st') = length (superblocks st)" "i \<noteq> sb \<Longrightarrow> superblocks st' ! i = superblocks st ! i"
    "s_op (superblocks st' ! sb) = s_op (superblocks st ! sb)"
    by (cases "sb < length (superblocks st)"; simp add: list_update_beyond)+
qed

end

text \<open>So the file system meets the contract of the mount table.\<close>

locale cpio_devices = vfs_devices D for D :: "('a cpstate_scheme) drivers"

sublocale cpio_devices \<subseteq> cpiofs: fs_driver "with_cpiofs D" CpioFsDrv
proof
  fix drv sb st st' r
  assume "fso_sb_open (dr_fs (with_cpiofs D) CpioFsDrv) = Some drv" "drv sb st = Some (st', r)"
  then have o: "cpio_sb_open D sb st = Some (st', r)" by (simp add: with_cpiofs_def cpio_fs_ops_def)
  show "vfs_mount_list st' = vfs_mount_list st \<and> length (superblocks st') = length (superblocks st) \<and>
    (\<forall>i. i \<noteq> sb \<longrightarrow> superblocks st' ! i = superblocks st ! i) \<and> s_op (superblocks st' ! sb) = s_op (superblocks st ! sb)"
    using sb_open_same [OF o] by simp
qed

end
