(* ===== verification/Cpio_Archive.thy ===== *)
theory Cpio_Archive
  imports Cpiofs
begin

text \<open>
  The archive format, as the manual page that \<open>cpiofs.c\<close> refers to describes it, written as an encoder, and
  what the driver of \<open>Cpiofs\<close> reads from an encoded archive. The header proofs are inside the contract of
  a readable device, so they hold for every device that meets it; the RAM disk does.
\<close>

section \<open>The encoder\<close>

fun hexn :: "nat \<Rightarrow> nat \<Rightarrow> nat list" where
  "hexn 0 n = []"
| "hexn (Suc k) n = hexn k (n div 16) @ [n mod 16]"

definition hex8 :: "nat \<Rightarrow> string" where "hex8 n = map digit_char (hexn 8 n)"

record centry =
  ce_name :: string
  ce_mode :: nat
  ce_devmajor :: nat
  ce_devminor :: nat
  ce_data :: string
  ce_rest :: "newc_field \<Rightarrow> nat"

fun ce_field :: "centry \<Rightarrow> newc_field \<Rightarrow> nat" where
  "ce_field e c_mode = ce_mode e"
| "ce_field e c_devmajor = ce_devmajor e"
| "ce_field e c_devminor = ce_devminor e"
| "ce_field e c_filesize = length (ce_data e)"
| "ce_field e c_namesize = length (ce_name e) + 1"
| "ce_field e fld = ce_rest e fld"

definition newc_fields :: "newc_field list" where
  "newc_fields = [c_ino, c_mode, c_uid, c_gid, c_nlink, c_mtime, c_filesize, c_devmajor, c_devminor,
    c_rdevmajor, c_rdevminor, c_namesize, c_check]"

definition encode_header :: "centry \<Rightarrow> string" where
  "encode_header e = newc_magic @ concat (map (\<lambda>fld. hex8 (ce_field e fld)) newc_fields)"

definition pad4 :: "nat \<Rightarrow> nat" where "pad4 n = (n + 3) div 4 * 4 - n"

definition encode_path :: "centry \<Rightarrow> string" where
  "encode_path e = ce_name e @ NUL # replicate (pad4 (sizeof_newc + length (ce_name e) + 1)) NUL"

definition encode :: "centry \<Rightarrow> string" where
  "encode e = encode_header e @ encode_path e @ ce_data e @ replicate (pad4 (length (ce_data e))) NUL"

definition trailer :: centry where
  "trailer = \<lparr>ce_name = ''TRAILER!!!'', ce_mode = 0, ce_devmajor = 0, ce_devminor = 0, ce_data = '''', ce_rest = (\<lambda>_. 0)\<rparr>"

definition archive :: "centry list \<Rightarrow> string" where
  "archive es = concat (map encode (es @ [trailer]))"

text \<open>The names fit the driver's buffer, the numbers fit their fields.\<close>

definition ce_ok :: "centry \<Rightarrow> bool" where
  "ce_ok e \<longleftrightarrow> NUL \<notin> set (ce_name e) \<and> length (ce_name e) < PATH_MAX \<and> (\<forall>fld. ce_field e fld < 2 ^ 32)"

definition is_trailer :: "centry \<Rightarrow> bool" where
  "is_trailer e \<longleftrightarrow> ce_data e = '''' \<and> ce_name e = ''TRAILER!!!''"

text \<open>The header that the driver decodes from an entry at an offset, and the place of the entry's data.\<close>

definition data_off :: "centry \<Rightarrow> nat" where
  "data_off e = length (encode_header e @ encode_path e)"

definition decoded :: "nat \<Rightarrow> centry \<Rightarrow> cpio_header" where
  "decoded pos e = \<lparr>fmt = CF_NEWC, bytes = encode_header e, hoff = int pos, hsize = of_nat sizeof_newc,
    psize = of_nat (length (ce_name e) + 1), ppad = of_nat (pad4 (sizeof_newc + length (ce_name e) + 1)),
    fsize = of_nat (length (ce_data e)), fpad = of_nat (pad4 (length (ce_data e))),
    pathname = ce_name e @ replicate (PATH_MAX - length (ce_name e)) NUL, is_endmarker = is_trailer e\<rparr>"

section \<open>Fields\<close>

lemma length_hexn [simp]: "length (hexn k n) = k"
  by (induction k n rule: hexn.induct) auto

lemma length_hex8 [simp]: "length (hex8 n) = 8"
  by (simp add: hex8_def)

lemma hexn_digits: "d \<in> set (hexn k n) \<Longrightarrow> d < 16"
  by (induction k n rule: hexn.induct) auto

lemma horner_hexn: "n < 16 ^ k \<Longrightarrow> horner 16 0 (hexn k n) = n"
proof (induction k n rule: hexn.induct)
  case (2 k n)
  then have "n div 16 < 16 ^ k" by (simp add: less_mult_imp_div_less mult.commute)
  with 2(1) show ?case by (simp add: horner_append)
qed simp

lemma cpio_atoi_digits:
  "(\<And>d. d \<in> set ds \<Longrightarrow> d < 16) \<Longrightarrow> cpio_atoi (map digit_char ds) 16 (of_nat i) = sint (of_nat (horner 16 i ds) :: u32)"
proof (induction ds arbitrary: i)
  case (Cons d ds)
  have d: "d < 16" and IH: "\<And>i. cpio_atoi (map digit_char ds) 16 (of_nat i) = sint (of_nat (horner 16 i ds) :: u32)"
    using Cons by auto
  have "cpio_atoi (map digit_char (d # ds)) 16 (of_nat i) = cpio_atoi (map digit_char ds) 16 (of_nat (i * 16 + d))"
    using d by (auto simp: schar_digit_char tolower_def isupper_def Let_def)
  then show ?case by (simp only: IH horner_Cons)
qed simp

lemma newc_atoi_hex8: "n < 2 ^ 32 \<Longrightarrow> newc_atoi (hex8 n) = sint (of_nat n :: u32)"
  using cpio_atoi_digits [of "hexn 8 n" 0] hexn_digits [of _ 8 n] horner_hexn [of n 8]
  by (simp add: newc_atoi_def hex8_def)

lemma length_encode_header [simp]: "length (encode_header e) = sizeof_newc"
  by (simp add: encode_header_def newc_fields_def newc_magic_def sizeof_newc_def)

lemma newc_encode_header: "bytes h = encode_header e \<Longrightarrow> newc h fld = hex8 (ce_field e fld)"
  by (cases fld) (simp_all add: newc_def encode_header_def newc_fields_def newc_magic_def)

lemma ALIGN_UP_4:
  assumes "n + 3 < 2 ^ 32"
  shows "ALIGN_UP (of_nat n) 4 - of_nat n = of_nat (pad4 n)"
proof -
  have u: "unat (of_nat n :: u32) = n" using assms by (simp add: unat_of_nat take_bit_nat_eq_self)
  have "unat (ALIGN_UP (of_nat n) (2 ^ 2)) = (n + (2 ^ 2 - 1)) div 2 ^ 2 * 2 ^ 2"
    using unat_ALIGN_UP [of 2 "of_nat n"] assms u by simp
  then have "unat (ALIGN_UP (of_nat n) 4) = (n + 3) div 4 * 4" by simp
  moreover have "ALIGN_UP (of_nat n) 4 = of_nat (unat (ALIGN_UP (of_nat n) 4))" by simp
  ultimately have "ALIGN_UP (of_nat n) 4 = of_nat ((n + 3) div 4 * 4)" by (simp only:)
  moreover have "n \<le> (n + 3) div 4 * 4" using round_up_least(1) [of 4 n] by simp
  ultimately show ?thesis by (simp only: pad4_def of_nat_diff)
qed

section \<open>Reading one header\<close>

lemma small_u32:
  assumes "n < 2 ^ 31"
  shows "unat (of_nat n :: u32) = n" "uint (of_nat n :: u32) = int n" "sint (of_nat n :: u32) = int n"
proof -
  show "unat (of_nat n :: u32) = n" "uint (of_nat n :: u32) = int n"
    using assms by (simp_all add: unat_of_nat take_bit_nat_eq_self uint_nat)
  have "sint (of_int (int n) :: u32) = int n" using loff_small [of "int n"] assms unfolding loff_def by simp
  then show "sint (of_nat n :: u32) = int n" by simp
qed

lemma encode_split: "encode e = (encode_header e @ encode_path e) @ ce_data e @ replicate (pad4 (length (ce_data e))) NUL"
  by (simp add: encode_def)

lemma length_encode: "length (encode e) = data_off e + length (ce_data e) + pad4 (length (ce_data e))"
  by (simp add: encode_def data_off_def)

lemma data_off_sum: "data_off e = sizeof_newc + (length (ce_name e) + 1) + pad4 (sizeof_newc + length (ce_name e) + 1)"
  by (simp add: data_off_def encode_path_def)

lemma decoded_sizes:
  assumes "ce_ok e" "length (ce_data e) < 2 ^ 31"
    and h: "fmt h = CF_NEWC" "bytes h = encode_header e" "hsize h = of_nat sizeof_newc"
  shows "cpioh_decode_sizes h = (h\<lparr>psize := of_nat (length (ce_name e) + 1), fsize := of_nat (length (ce_data e)),
    ppad := of_nat (pad4 (sizeof_newc + length (ce_name e) + 1)), fpad := of_nat (pad4 (length (ce_data e)))\<rparr>, 0)"
proof -
  have f: "\<And>fld. ce_field e fld < 2 ^ 32" using assms(1) by (simp add: ce_ok_def)
  have p: "of_int (newc_atoi (hex8 (ce_field e fld))) = (of_nat (ce_field e fld) :: u32)" for fld
    unfolding newc_atoi_hex8 [OF f] by simp
  have a: "ALIGN_UP (of_nat (sizeof_newc + length (ce_name e) + 1)) 4 - of_nat (sizeof_newc + length (ce_name e) + 1) =
      of_nat (pad4 (sizeof_newc + length (ce_name e) + 1))"
    using assms(1) by (intro ALIGN_UP_4) (simp add: ce_ok_def sizeof_newc_def PATH_MAX_def)
  have b: "ALIGN_UP (of_nat (length (ce_data e))) 4 - of_nat (length (ce_data e)) = of_nat (pad4 (length (ce_data e)))"
    using assms(2) by (intro ALIGN_UP_4) simp
  have s: "(of_nat sizeof_newc + of_nat (length (ce_name e) + 1) :: u32) = of_nat (sizeof_newc + length (ce_name e) + 1)"
    by simp
  have n: "newc (h\<lparr>psize := x\<rparr>) fld = newc h fld" for x fld by (simp add: newc_def)
  show ?thesis
    using p [of c_namesize] p [of c_filesize] a b s h
    by (simp add: cpioh_decode_sizes_def n newc_encode_header [OF h(2)] Let_def del: of_nat_add of_nat_Suc)
qed

lemma path_text_decoded: "ce_ok e \<Longrightarrow> path_text (decoded pos e) = ce_name e"
  by (cases "PATH_MAX - length (ce_name e)") (auto simp: path_text_def decoded_def ce_ok_def takeWhile_append)

context readable_device
begin

text \<open>A read of bytes that are there.\<close>

lemma file_read_exact:
  assumes "has f st c" "f_pos f = int pos" "drop pos c = xs @ rest" "n = length xs"
  shows "file_read D f n st = Some (xs, f\<lparr>f_pos := int (pos + length xs)\<rparr>, st, int (length xs))"
  using file_read_has [OF assms(1), of n] assms(2-4) by simp

lemma file_seek_exact:
  assumes "has f st c" "f_pos f = int pos" "pos + n < 2 ^ 31"
  shows "file_lseek D f (int n) SEEK_CUR st = (f\<lparr>f_pos := int (pos + n)\<rparr>, st, 0)"
  using file_lseek_cur_has(1) [OF assms(1), of "int n"] assms(2,3)
  by (simp add: loff_small)

lemma read_header_raw_encoded:
  assumes "has f st c" "f_pos f = int pos" "drop pos c = encode_header e @ rest"
  shows "cpio_read_header_raw D f st = Some (f\<lparr>f_pos := int (pos + sizeof_newc)\<rparr>,
    cpio_header0\<lparr>fmt := CF_NEWC, bytes := encode_header e, hoff := int pos, hsize := of_nat sizeof_newc\<rparr>, st, int sizeof_newc)"
proof -
  obtain tl where e: "encode_header e = newc_magic @ tl" and l: "length tl = 104"
    using length_encode_header [of e] by (auto simp: encode_header_def newc_magic_def sizeof_newc_def)
  have 1: "file_read D f 6 st = Some (newc_magic, f\<lparr>f_pos := int (pos + 6)\<rparr>, st, 6)"
    using file_read_exact [OF assms(1,2), of newc_magic "tl @ rest" 6] assms(3) e by (simp add: newc_magic_def)
  have d2: "drop (pos + 6) c = tl @ rest"
    using assms(3) e drop_drop [of 6 pos c] by (simp add: newc_magic_def add.commute)
  have 2: "file_read D (f\<lparr>f_pos := int (pos + 6)\<rparr>) 104 st = Some (tl, f\<lparr>f_pos := int (pos + 110)\<rparr>, st, 104)"
    using file_read_exact [OF has_pos [OF assms(1)] _ d2, of "int (pos + 6)" 104] l by (simp add: add.assoc)
  show ?thesis
    unfolding cpio_read_header_raw_def 1 Let_def
    using 2 l e assms(2) by (simp add: cpio_header0_def store_at_def newc_magic_def sizeof_newc_def)
qed

end

context readable_device
begin

lemma read_name_exact:
  assumes "has f st c" "f_pos f = int pos" "drop pos c = xs @ rest" "xs \<noteq> []"
  shows "cpio_read_name D f buf 0 (int (length xs)) st =
    Some (f\<lparr>f_pos := int (pos + length xs)\<rparr>, store_at 0 xs buf, st, int (length xs))"
  using file_read_exact [OF assms(1-3), of "length xs"] assms(4)
  by (simp add: cpio_read_name.simps [of D f] cpio_read_name.simps [of D "f\<lparr>f_pos := int pos + int (length xs)\<rparr>"])

lemma read_pathname_encoded:
  assumes "has f st c" "f_pos f = int pos" "drop pos c = encode_path e @ rest" "ce_ok e"
    and "psize h = of_nat (length (ce_name e) + 1)" "ppad h = of_nat (pad4 (sizeof_newc + length (ce_name e) + 1))"
    and "pos + length (encode_path e) < 2 ^ 31"
  shows "cpio_read_pathname D f h st = Some (f\<lparr>f_pos := int (pos + length (encode_path e))\<rparr>,
    h\<lparr>pathname := store_at 0 (ce_name e @ [NUL]) (pathname h)\<rparr>, st, int (length (encode_path e)))"
proof -
  let ?l = "length (ce_name e) + 1" and ?p = "pad4 (sizeof_newc + length (ce_name e) + 1)"
  have l: "?l \<le> PATH_MAX" using assms(4) by (simp add: ce_ok_def)
  have up: "unat (psize h) = ?l" unfolding assms(5) using l
    by (simp add: unat_of_nat take_bit_nat_eq_self PATH_MAX_def del: of_nat_Suc of_nat_add)
  have p4: "?p < 4" using round_up_least(2) [of 4 "sizeof_newc + length (ce_name e) + 1"] by (simp add: pad4_def)
  then have pp: "sint (ppad h) = int ?p" "uint (ppad h) = int ?p" "ppad h = 0 \<longleftrightarrow> ?p = 0"
    unfolding assms(6) using small_u32 [of ?p] by (auto simp del: of_nat_add of_nat_Suc dest: arg_cong [of _ _ unat])
  have len: "length (encode_path e) = ?l + ?p" by (simp add: encode_path_def)
  have n: "cpio_read_name D f (pathname h) 0 (int ?l) st =
      Some (f\<lparr>f_pos := int (pos + ?l)\<rparr>, store_at 0 (ce_name e @ [NUL]) (pathname h), st, int ?l)"
    using read_name_exact [OF assms(1,2), of "ce_name e @ [NUL]" "replicate ?p NUL @ rest"] assms(3)
    by (simp add: encode_path_def)
  have s: "file_lseek D (f\<lparr>f_pos := int (pos + ?l)\<rparr>) (int ?p) SEEK_CUR st = (f\<lparr>f_pos := int (pos + ?l + ?p)\<rparr>, st, 0)"
    using file_seek_exact [OF has_pos [OF assms(1)], of "int (pos + ?l)" "pos + ?l" ?p] assms(7) len by simp
  have m: "Orderings.min (unat (psize h)) PATH_MAX = ?l" using up l by simp
  show ?thesis
    unfolding cpio_read_pathname_def m n using s l up pp len
    by (cases "?p = 0") (simp_all add: Let_def ac_simps)
qed

end

lemma strncmp_trailer:
  assumes "NUL \<notin> set a" "length a < PATH_MAX"
  shows "strncmp_s a ''TRAILER!!!'' PATH_MAX = 0 \<longleftrightarrow> a = ''TRAILER!!!''"
  using strncmp_s_0_iff [OF assms(1), of "''TRAILER!!!''" PATH_MAX] assms(2) by (simp add: PATH_MAX_def)

lemma name_buffer: "length nm < PATH_MAX \<Longrightarrow>
    store_at 0 (nm @ [NUL]) (replicate PATH_MAX NUL) = nm @ replicate (PATH_MAX - length nm) NUL"
  by (simp add: store_at_def flip: replicate_Suc)

context readable_device
begin

lemma read_header_encoded:
  assumes "has f st c" "f_pos f = int pos" "drop pos c = encode e @ rest" "ce_ok e" "length c < 2 ^ 31"
  shows "cpio_read_header D f st = Some (f\<lparr>f_pos := int (pos + data_off e)\<rparr>, decoded pos e, st, int (data_off e))"
proof -
  define h where "h = cpio_header0\<lparr>fmt := CF_NEWC, bytes := encode_header e, hoff := int pos, hsize := of_nat sizeof_newc\<rparr>"
  define h1 where "h1 = h\<lparr>psize := of_nat (length (ce_name e) + 1), fsize := of_nat (length (ce_data e)),
    ppad := of_nat (pad4 (sizeof_newc + length (ce_name e) + 1)), fpad := of_nat (pad4 (length (ce_data e)))\<rparr>"
  have lc: "pos + length (encode e @ rest) \<le> length c"
    using assms(3) length_drop [of pos c] by (cases "pos \<le> length c") (simp_all add: encode_def sizeof_newc_def encode_header_def newc_magic_def)
  then have ld: "length (ce_data e) < 2 ^ 31" and lp: "pos + data_off e < 2 ^ 31" using assms(5) by (simp_all add: length_encode)
  have 1: "cpio_read_header_raw D f st = Some (f\<lparr>f_pos := int (pos + sizeof_newc)\<rparr>, h, st, int sizeof_newc)"
    using read_header_raw_encoded [OF assms(1,2)] assms(3) by (simp add: encode_def h_def)
  have 2: "cpioh_decode_sizes h = (h1, 0)" unfolding h1_def by (rule decoded_sizes [OF assms(4) ld]) (simp_all add: h_def)
  have d: "drop (pos + sizeof_newc) c = encode_path e @ ce_data e @ replicate (pad4 (length (ce_data e))) NUL @ rest"
    using assms(3) drop_drop [of sizeof_newc pos c] by (simp add: encode_def add.commute)
  have 3: "cpio_read_pathname D (f\<lparr>f_pos := int (pos + sizeof_newc)\<rparr>) h1 st =
      Some (f\<lparr>f_pos := int (pos + data_off e)\<rparr>, (decoded pos e)\<lparr>is_endmarker := False\<rparr>, st, int (length (encode_path e)))"
    using read_pathname_encoded [OF has_pos [OF assms(1)] _ d assms(4), of "int (pos + sizeof_newc)" h1] lp assms(4)
    by (simp add: data_off_def decoded_def h1_def h_def cpio_header0_def name_buffer ce_ok_def add.assoc)
  have t: "strncmp_s (ce_name e) ''TRAILER!!!'' PATH_MAX = 0 \<longleftrightarrow> ce_name e = ''TRAILER!!!''"
    using assms(4) by (intro strncmp_trailer) (simp_all add: ce_ok_def)
  have pt: "path_text ((decoded pos e)\<lparr>is_endmarker := False\<rparr>) = ce_name e"
    using path_text_decoded [OF assms(4), of pos] by (simp add: path_text_def)
  have z: "fsize (decoded pos e) = 0 \<longleftrightarrow> ce_data e = ''''"
    using small_u32(1) [OF ld] by (auto simp: decoded_def)
  have e: "is_endmarker (decoded pos e) = (is_trailer e)"
    by (simp add: decoded_def)
  have sel: "fsize ((decoded pos e)\<lparr>is_endmarker := False\<rparr>) = fsize (decoded pos e)" by simp
  show ?thesis unfolding cpio_read_header_def 1 bind.bind_lunit Let_def split 2
    unfolding fst_conv snd_conv 3 option.case split pt sel z t
    using e by (auto simp: data_off_def is_trailer_def)
qed

lemma skip_encoded:
  assumes "has f st c" "f_pos f = int (pos + data_off e)" "pos + length (encode e) < 2 ^ 31"
  shows "cpio_skip_fdata D f (decoded pos e) st = (f\<lparr>f_pos := int (pos + length (encode e))\<rparr>, st, 0)"
proof -
  let ?n = "length (ce_data e) + pad4 (length (ce_data e))"
  have n: "?n < 2 ^ 31" "pos + data_off e + ?n < 2 ^ 31" using assms(3) by (simp_all add: length_encode)
  have "sint (fsize (decoded pos e) + fpad (decoded pos e)) = int ?n"
    using small_u32(3) [OF n(1)] by (simp add: decoded_def)
  then show ?thesis using file_seek_exact [OF assms(1,2) n(2)]
    by (simp add: cpio_skip_fdata_def length_encode add.assoc)
qed

end

section \<open>Searching\<close>

abbreviation encode_all :: "centry list \<Rightarrow> string" where
  "encode_all es \<equiv> concat (map encode es)"

lemma strcmp_decoded:
  "ce_ok e \<Longrightarrow> NUL \<notin> set p \<Longrightarrow> strcmp_s (path_text (decoded pos e)) p = 0 \<longleftrightarrow> ce_name e = p"
  by (simp add: path_text_decoded strcmp_s_0_iff ce_ok_def)

lemma trailer_ok: "ce_ok trailer" "is_trailer trailer"
proof -
  have "ce_field trailer fld < 2 ^ 32" for fld by (cases fld) (simp_all add: trailer_def)
  then show "ce_ok trailer" "is_trailer trailer" by (simp_all add: ce_ok_def is_trailer_def trailer_def PATH_MAX_def)
qed

lemma encode_nonempty [simp]: "encode e \<noteq> []"
  by (simp add: encode_def encode_header_def newc_magic_def)

lemma drop_bound: "drop pos c = xs @ rest \<Longrightarrow> xs \<noteq> [] \<Longrightarrow> pos + length xs \<le> length c"
  using length_drop [of pos c] by (cases "pos \<le> length c") simp_all

lemma drop_next: "drop pos c = xs @ rest \<Longrightarrow> drop (pos + length xs) c = rest"
  using drop_drop [of "length xs" pos c] by (simp add: add.commute)

context readable_device
begin

lemma find_from_hit:
  assumes "has f st c" "f_pos f = int pos" "drop pos c = encode e @ rest" "length c < 2 ^ 31"
    and "ce_ok e" "ce_name e = p" "\<not> is_endmarker h"
  shows "cpio_find_from D f p h i st = Some (f\<lparr>f_pos := int (pos + data_off e)\<rparr>, decoded pos e, st, int i)"
proof -
  have "NUL \<notin> set p" using assms(5,6) by (auto simp: ce_ok_def)
  then show ?thesis using assms(5-7) read_header_encoded [OF assms(1-3,5,4)]
    by (simp add: cpio_find_from.simps [of D f] strcmp_decoded)
qed

lemma find_from_miss:
  assumes "has f st c" "f_pos f = int pos" "drop pos c = encode e @ rest" "length c < 2 ^ 31"
    and "ce_ok e" "ce_name e \<noteq> p" "NUL \<notin> set p" "\<not> is_endmarker h"
  shows "cpio_find_from D f p h i st =
    cpio_find_from D (f\<lparr>f_pos := int (pos + length (encode e))\<rparr>) p (decoded pos e) (Suc i) st"
proof -
  have "pos + length (encode e) < 2 ^ 31" using drop_bound [OF assms(3)] assms(4) by simp
  note s = skip_encoded [OF has_pos [OF assms(1)] _ this, of "int (pos + data_off e)"]
  show ?thesis using assms(5-8) read_header_encoded [OF assms(1-3,5,4)] s
    by (simp add: cpio_find_from.simps [of D f] strcmp_decoded)
qed

lemma find_from_skip:
  assumes "has f st c" "length c < 2 ^ 31" "NUL \<notin> set p"
    and "f_pos f = int pos" "drop pos c = encode_all xs @ rest" "\<not> is_endmarker h"
    and "\<And>e. e \<in> set xs \<Longrightarrow> ce_ok e \<and> ce_name e \<noteq> p \<and> \<not> is_trailer e"
  shows "\<exists>h'. \<not> is_endmarker h' \<and> cpio_find_from D f p h i st =
    cpio_find_from D (f\<lparr>f_pos := int (pos + length (encode_all xs))\<rparr>) p h' (i + length xs) st"
  using assms(1,4-7)
proof (induction xs arbitrary: f pos i h)
  case Nil
  then have e: "f\<lparr>f_pos := int pos\<rparr> = f" by simp
  show ?case using Nil.prems(4) by (intro exI [of _ h]) (simp add: e)
next
  case (Cons e xs)
  let ?f = "f\<lparr>f_pos := int (pos + length (encode e))\<rparr>"
  have e: "ce_ok e" "ce_name e \<noteq> p" "\<not> is_trailer e" using Cons.prems(5) [of e] by auto
  have d: "drop pos c = encode e @ encode_all xs @ rest" using Cons.prems(3) by simp
  have m: "cpio_find_from D f p h i st = cpio_find_from D ?f p (decoded pos e) (Suc i) st"
    using find_from_miss [OF Cons.prems(1,2) d assms(2) e(1,2) assms(3) Cons.prems(4)] .
  have "\<exists>h'. \<not> is_endmarker h' \<and> cpio_find_from D ?f p (decoded pos e) (Suc i) st =
      cpio_find_from D (?f\<lparr>f_pos := int (pos + length (encode e) + length (encode_all xs))\<rparr>) p h' (Suc i + length xs) st"
    by (rule Cons.IH [OF has_pos [OF Cons.prems(1)] _ drop_next [OF d]])
      (use Cons.prems(5) e(3) in \<open>auto simp: decoded_def\<close>)
  then show ?case using m by (simp add: add.assoc)
qed

lemma find_path_hit:
  assumes "has f st c" "f_pos f = 0" "length c < 2 ^ 31" "c = encode_all xs @ encode e @ rest"
    and "\<And>x. x \<in> set xs \<Longrightarrow> ce_ok x \<and> ce_name x \<noteq> ce_name e \<and> \<not> is_trailer x" and "ce_ok e"
  shows "cpio_find_path D f (ce_name e) st =
    Some (f\<lparr>f_pos := int (length (encode_all xs) + data_off e)\<rparr>, decoded (length (encode_all xs)) e, st, int (length xs))"
proof -
  let ?q = "length (encode_all xs)"
  have n: "NUL \<notin> set (ce_name e)" using assms(6) by (simp add: ce_ok_def)
  obtain h' where h': "\<not> is_endmarker h'" "cpio_find_path D f (ce_name e) st =
      cpio_find_from D (f\<lparr>f_pos := int ?q\<rparr>) (ce_name e) h' (length xs) st"
    using find_from_skip [OF assms(1,3) n, of 0 xs "encode e @ rest" cpio_header0 0] assms(2,4,5)
    by (auto simp: cpio_find_path_def cpio_header0_def)
  have "drop ?q c = encode e @ rest" using assms(4) by simp
  then show ?thesis
    using h' find_from_hit [OF has_pos [OF assms(1)] _ _ assms(3,6), of "int ?q" ?q rest "ce_name e" h' "length xs"] by simp
qed

lemma find_path_miss:
  assumes "has f st c" "f_pos f = 0" "length c < 2 ^ 31" "c = archive es @ rest" "NUL \<notin> set p"
    and "\<And>x. x \<in> set es \<Longrightarrow> ce_ok x \<and> ce_name x \<noteq> p \<and> \<not> is_trailer x" and "p \<noteq> ''TRAILER!!!''"
  shows "\<exists>x h. cpio_find_path D f p st = Some (f\<lparr>f_pos := x\<rparr>, h, st, err ENOENT)"
proof -
  let ?q = "length (encode_all es)"
  have c: "c = encode_all es @ encode trailer @ rest" using assms(4) by (simp add: archive_def)
  obtain h' where h': "\<not> is_endmarker h'" "cpio_find_path D f p st =
      cpio_find_from D (f\<lparr>f_pos := int ?q\<rparr>) p h' (length es) st"
    using find_from_skip [OF assms(1,3,5), of 0 es "encode trailer @ rest" cpio_header0 0] assms(2,6) c
    by (auto simp: cpio_find_path_def cpio_header0_def)
  have d: "drop ?q c = encode trailer @ rest" using c by simp
  have "ce_name trailer \<noteq> p" using assms(7) by (simp add: trailer_def)
  from find_from_miss [OF has_pos [OF assms(1)] _ d assms(3) trailer_ok(1) this assms(5) h'(1), of "int ?q" "length es"]
  moreover have "is_endmarker (decoded ?q trailer)" using trailer_ok(2) by (simp add: decoded_def)
  ultimately show ?thesis using h'(2) by (auto simp: cpio_find_from.simps [of D _ p "decoded ?q trailer"])
qed

end

section \<open>Opening and reading files of an archive on a RAM disk\<close>

lemma disk_file_upd_cf [simp]: "disk_file f (upd_cf k g st) c = disk_file f st c"
  by (simp add: disk_file_def upd_cf_def)

lemma cfdatas_upd_cf [simp]: "k < length (cfdatas st) \<Longrightarrow> cfdatas (upd_cf k g st) ! k = g (cfdatas st ! k)"
  and length_upd_cf [simp]: "length (cfdatas (upd_cf k g st)) = length (cfdatas st)"
  by (simp_all add: upd_cf_def)

lemma cfdata_find_Some: "cfdata_find n i cfs = Some j \<Longrightarrow> i \<le> j \<and> j < i + n"
  by (induction n i cfs rule: cfdata_find.induct) (auto split: if_splits)

lemma and_field_word: "and (x :: u32) (push_bit n (mask k)) = push_bit n (take_bit k (drop_bit n x))"
  by (rule bit_word_eqI) (auto simp: bit_simps)

lemma cpio_mode_to_dirtype_total: "\<exists>t. cpio_mode_to_dirtype mode = Some t"
proof -
  let ?v = "take_bit 2 (drop_bit 13 mode)"
  have m: "CM_FT_MASK = push_bit 13 (mask 2)" by (simp add: CM_FT_MASK_def mask_eq_exp_minus_1)
  have a: "and mode CM_FT_MASK = push_bit 13 ?v" unfolding m by (rule and_field_word)
  have "unat ?v < 4" using take_bit_nat_less_exp [of 2 "unat (drop_bit 13 mode)"] by (simp only: unsigned_take_bit_eq) simp
  then have "unat ?v = 0 \<or> unat ?v = 1 \<or> unat ?v = 2 \<or> unat ?v = 3" by linarith
  then have "?v = 0 \<or> ?v = 1 \<or> ?v = 2 \<or> ?v = 3" by (auto simp: word_unat_eq_iff)
  then show ?thesis unfolding cpio_mode_to_dirtype_def a
    by (elim disjE) (simp_all add: CM_FT_DIR_def CM_FT_CHR_def CM_FT_BLK_def)
qed

lemma fstat_decoded:
  assumes "ce_ok e" "length (ce_data e) < 2 ^ 31"
  shows "snd (cpioh_fstat (decoded pos e) s) = 0" and "f_size (fst (cpioh_fstat (decoded pos e) s)) = int (length (ce_data e))"
    and "Some (f_type (fst (cpioh_fstat (decoded pos e) s))) = cpio_mode_to_dirtype (of_nat (ce_mode e))"
proof -
  have f: "newc (decoded pos e) fld = hex8 (ce_field e fld)" for fld by (rule newc_encode_header) (simp add: decoded_def)
  have m: "ce_mode e < 2 ^ 32" using assms(1) unfolding ce_ok_def by (metis ce_field.simps(1))
  have fm: "fmt (decoded pos e) = CF_NEWC" "fsize (decoded pos e) = of_nat (length (ce_data e))" by (simp_all add: decoded_def)
  show "snd (cpioh_fstat (decoded pos e) s) = 0" "f_size (fst (cpioh_fstat (decoded pos e) s)) = int (length (ce_data e))"
    using small_u32(3) [OF assms(2)] by (simp_all add: cpioh_fstat_def fm)
  show "Some (f_type (fst (cpioh_fstat (decoded pos e) s))) = cpio_mode_to_dirtype (of_nat (ce_mode e))"
    using cpio_mode_to_dirtype_total [of "of_nat (ce_mode e)"] by (auto simp: cpioh_fstat_def fm f newc_atoi_hex8 [OF m])
qed

lemma foff_decoded:
  assumes "pos + data_off e < 2 ^ 31"
  shows "loff (hoff (decoded pos e) + uint (hsize (decoded pos e) + psize (decoded pos e) + ppad (decoded pos e))) = int (pos + data_off e)"
proof -
  have "hsize (decoded pos e) + psize (decoded pos e) + ppad (decoded pos e) = of_nat (data_off e)"
    by (simp add: decoded_def data_off_sum)
  then show ?thesis using assms small_u32(2) [of "data_off e"] loff_small [of "int (pos + data_off e)"]
    by (simp add: decoded_def)
qed

text \<open>An open file of the archive: its slot refers to the archive and to the place of the data.\<close>

definition cpio_file :: "vfile \<Rightarrow> 'a cpstate_scheme \<Rightarrow> string \<Rightarrow> bool" where
  "cpio_file f st dat \<longleftrightarrow> f_op f = Some CpioFileDrv \<and> f_size (f_stat f) = int (length dat) \<and>
    (\<exists>k pre suf. f_driver_data f = Some k \<and> disk_file (af (cfdatas st ! k)) st (pre @ dat @ suf) \<and>
      foff (cfdatas st ! k) = int (length pre) \<and> length pre + length dat < 2 ^ 31)"

lemma cpio_file_read_data:
  assumes "cpio_file f st dat" "f_pos f = int p" "p \<le> length dat" "p + n < 2 ^ 31"
  shows "cpio_file_read (with_ramdisk D) f n (int p) st =
    Some (take n (drop p dat), int (p + length (take n (drop p dat))), st, int (length (take n (drop p dat))))"
proof -
  obtain k pre suf where k: "f_driver_data f = Some k" "disk_file (af (cfdatas st ! k)) st (pre @ dat @ suf)"
    "foff (cfdatas st ! k) = int (length pre)" "length pre + length dat < 2 ^ 31" "f_size (f_stat f) = int (length dat)"
    using assms(1) by (auto simp: cpio_file_def)
  let ?m = "Orderings.min n (length dat - p)"
  have a: "loff (int p + foff (cfdatas st ! k)) = int (length pre + p)" using k assms(3) by (simp add: loff_small)
  have c: "loff (int p + loff (int n)) = int (p + n)" using assms(4) by (simp add: loff_small)
  have u: "unat (of_int (int (length dat) - int p) :: u32) = length dat - p"
    using small_u32(1) [of "length dat - p"] assms(3) k(4) by (simp add: of_nat_diff)
  have cnt: "(if loff (int p + loff (int n)) > f_size (f_stat f) then unat (of_int (f_size (f_stat f) - f_pos f) :: u32) else n) = ?m"
    using u assms(2,3) unfolding c k(5) by auto
  have t: "take ?m (drop (length pre + p) (pre @ dat @ suf)) = take n (drop p dat)"
    using assms(3) by (cases "n \<le> length dat - p") (simp_all add: min_def)
  have r: "file_pread (with_ramdisk D) (af (cfdatas st ! k)) ?m (int (length pre + p)) st =
      Some (take n (drop p dat), st, int (length (take n (drop p dat))))"
    using rd.file_pread_has [OF k(2), of "int (length pre + p)" D ?m] unfolding nat_int t by simp
  have l: "loff (int (length pre + p) + int (length (take n (drop p dat)))) = int (length pre + p) + int (length (take n (drop p dat)))"
    using k(4) assms(3) by (intro loff_small) auto
  have l2: "loff (int p + int (length (take n (drop p dat)))) = int p + int (length (take n (drop p dat)))"
    using k(4) assms(3) by (intro loff_small) auto
  show ?thesis
    unfolding cpio_file_read_def Let_def k(1) option.sel a cnt r split using l l2 by (simp add: k(3))
qed



lemma cpio_open_entry:
  fixes st :: "'a cpstate_scheme"
  assumes "disk_ok st i" "s_bdev (superblocks st ! sb) = MAKEDEV 4 (of_nat i)"
    and "cfdata_alloc st = Some k" "length (cfdatas st) = MAX_CPIO_OPEN" "f_op f = Some CpioFileDrv"
    and "disk_content st i = encode_all xs @ encode e @ rest"
    and "\<And>x. x \<in> set xs \<Longrightarrow> ce_ok x \<and> ce_name x \<noteq> ce_name e \<and> \<not> is_trailer x" and "ce_ok e"
    and "path = ce_name e \<or> path = '''' \<and> ce_name e = ''.''" "ce_name e \<noteq> ''''"
  shows "\<exists>f' st'. cpio_file_open_path (with_ramdisk D) f sb path st = Some (f', st', 0) \<and>
    cpio_file f' st' (ce_data e) \<and> f_pos f' = f_pos f \<and>
    Some (f_type (f_stat f')) = cpio_mode_to_dirtype (of_nat (ce_mode e)) \<and> f_driver_data f' = Some k \<and>
    (\<exists>c. st' = st\<lparr>cfdatas := (cfdatas st)[k := c]\<rparr>)"
proof -
  let ?q = "length (encode_all xs)" and ?c = "disk_content st i"
  have kl: "k < length (cfdatas st)" using cfdata_find_Some [of MAX_CPIO_OPEN 0] assms(3,4) by (auto simp: cfdata_alloc_def)
  obtain a where a: "file_open_dev (with_ramdisk D) (MAKEDEV 4 (of_nat i)) st = (a, st, 0)" "disk_file a st ?c" "f_pos a = 0"
    using ramdisk_open [OF assms(1)] by blast
  define st1 where "st1 = upd_cf k (\<lambda>c. c\<lparr>af := a\<rparr>) st"
  have lc: "length ?c < 2 ^ 31" using assms(1) by (simp add: disk_ok_def disk_content_def)
  have le: "length (ce_data e) < 2 ^ 31" "?q + data_off e < 2 ^ 31" "?q + data_off e + length (ce_data e) < 2 ^ 31"
    using lc unfolding assms(6) by (simp_all add: length_encode)
  have p: "(if path = '''' then ''.'' else path) = ce_name e" using assms(9,10) by auto
  have d1: "disk_file a st1 ?c" using a(2) by (simp add: st1_def)
  have find: "cpio_find_path (with_ramdisk D) a (ce_name e) st1 =
      Some (a\<lparr>f_pos := int (?q + data_off e)\<rparr>, decoded ?q e, st1, int (length xs))"
    by (rule rd.find_path_hit [OF d1 a(3) lc assms(6,7,8)])
  define a' where "a' = a\<lparr>f_pos := int (?q + data_off e)\<rparr>"
  define st2 where "st2 = upd_cf k (\<lambda>c. c\<lparr>foff := int (?q + data_off e)\<rparr>) (upd_cf k (\<lambda>c. c\<lparr>af := a', cf_h := decoded ?q e\<rparr>) st1)"
  define f' where "f' = f\<lparr>f_stat := fst (cpioh_fstat (decoded ?q e) (f_stat f)), f_driver_data := Some k\<rparr>"
  obtain s where s: "cpioh_fstat (decoded ?q e) (f_stat f) = (s, 0)" using fstat_decoded(1) [OF assms(8) le(1)] by (metis prod.collapse)
  have o: "cpio_file_open_path (with_ramdisk D) f sb path st = Some (f', st2, 0)"
    unfolding cpio_file_open_path_def Let_def p assms(2,3) option.case a(1) split
    using find s foff_decoded [OF le(2)] by (simp add: st1_def [symmetric] a'_def st2_def f'_def)
  have "?c = (encode_all xs @ encode_header e @ encode_path e) @ ce_data e @ replicate (pad4 (length (ce_data e))) NUL @ rest"
    unfolding assms(6) by (simp add: encode_def)
  moreover have "disk_file a' st2 ?c" using rd.has_pos [OF d1] by (simp add: st2_def a'_def)
  moreover have "af (cfdatas st2 ! k) = a'" "foff (cfdatas st2 ! k) = int (?q + data_off e)" using kl by (simp_all add: st2_def st1_def)
  ultimately have "cpio_file f' st2 (ce_data e)" unfolding cpio_file_def
    using assms(5) le(3) fstat_decoded(2) [OF assms(8) le(1)]
    by (intro conjI exI [of _ k] exI [of _ "encode_all xs @ encode_header e @ encode_path e"]
        exI [of _ "replicate (pad4 (length (ce_data e))) NUL @ rest"]) (simp_all add: f'_def data_off_def)
  moreover have "\<exists>c. st2 = st\<lparr>cfdatas := (cfdatas st)[k := c]\<rparr>" using kl by (auto simp: st2_def st1_def upd_cf_def)
  ultimately show ?thesis using o fstat_decoded(3) [OF assms(8) le(1)] by (auto simp: f'_def)
qed

lemma strip_join:
  "strip_prefix_text (mp @ CHR ''/'' # rel) mp = rel"
  "rel = '''' \<or> hd rel \<noteq> CHR ''/'' \<Longrightarrow> strip_prefix_text (mp @ rel) mp = rel"
  by (cases rel; simp add: strip_prefix_text_def ch0_def)+

lemma open_entry:
  fixes st :: "'a cpstate_scheme"
  assumes "mounts_ok st sbs" "find (serves st path) (rev sbs) = Some sb"
    and "s_op (superblocks st ! sb) = Some CpioFsDrv" "s_bdev (superblocks st ! sb) = MAKEDEV 4 (of_nat i)"
    and "disk_ok st i" "disk_content st i = archive (xs @ e # ys) @ rest"
    and "\<And>x. x \<in> set xs \<Longrightarrow> ce_ok x \<and> ce_name x \<noteq> ce_name e \<and> \<not> is_trailer x" and "ce_ok e"
    and "strip_prefix_text path (s_mountpath (superblocks st ! sb)) = ce_name e" "ce_name e \<noteq> ''''"
    and "cfdata_alloc st = Some k" "length (cfdatas st) = MAX_CPIO_OPEN"
  shows "\<exists>f st'. file_open_path_abs (with_cpiofs (with_ramdisk D)) f0 path st = Some (f, st', 0) \<and> cpio_file f st' (ce_data e) \<and>
    Some (f_type (f_stat f)) = cpio_mode_to_dirtype (of_nat (ce_mode e)) \<and> f_pos f = 0 \<and> f_driver_data f = Some k \<and>
    (\<exists>c. st' = st\<lparr>cfdatas := (cfdatas st)[k := c]\<rparr>)"
proof -
  let ?D = "with_cpiofs (with_ramdisk D)"
  have c: "disk_content st i = encode_all xs @ encode e @ encode_all (ys @ [trailer]) @ rest"
    using assms(6) by (simp add: archive_def)
  obtain f st' where f: "cpio_file_open_path (with_ramdisk D) (file0\<lparr>f_op := Some CpioFileDrv\<rparr>) sb (ce_name e) st = Some (f, st', 0)"
    "cpio_file f st' (ce_data e)" "f_pos f = 0" "Some (f_type (f_stat f)) = cpio_mode_to_dirtype (of_nat (ce_mode e))"
    "f_driver_data f = Some k" "\<exists>c. st' = st\<lparr>cfdatas := (cfdatas st)[k := c]\<rparr>"
    using cpio_open_entry [OF assms(5,4,11,12) _ c assms(7,8) _ assms(10), of "file0\<lparr>f_op := Some CpioFileDrv\<rparr>" "ce_name e" D]
    by (auto simp: file0_def)
  have "file_open_path_abs ?D f0 path st = Some (f, st', 0)"
    using f(1) by (simp add: file_open_path_abs_def find_mount_rev [OF assms(1)] assms(2,3,9) file_open_sb_path_def
        with_cpiofs_def cpio_fs_ops_def cpio_file_ops_def)
  then show ?thesis using f(2-6) by blast
qed

text \<open>A path that no entry has: the slot is free again afterwards.\<close>

lemma cpio_open_missing:
  fixes st :: "'a cpstate_scheme"
  assumes "disk_ok st i" "s_bdev (superblocks st ! sb) = MAKEDEV 4 (of_nat i)"
    and "cfdata_alloc st = Some k" "length (cfdatas st) = MAX_CPIO_OPEN"
    and "disk_content st i = archive es @ rest" "\<And>x. x \<in> set es \<Longrightarrow> ce_ok x \<and> ce_name x \<noteq> path \<and> \<not> is_trailer x"
    and "path \<noteq> ''''" "NUL \<notin> set path" "path \<noteq> ''TRAILER!!!''"
  shows "\<exists>c. cpio_file_open_path (with_ramdisk D) f sb path st = Some (f, st\<lparr>cfdatas := (cfdatas st)[k := c]\<rparr>, err ENOENT) \<and> f_op (af c) = None"
proof -
  have kl: "k < length (cfdatas st)" using cfdata_find_Some [of MAX_CPIO_OPEN 0] assms(3,4) by (auto simp: cfdata_alloc_def)
  obtain a where a: "file_open_dev (with_ramdisk D) (MAKEDEV 4 (of_nat i)) st = (a, st, 0)" "disk_file a st (disk_content st i)" "f_pos a = 0"
    using ramdisk_open [OF assms(1)] by blast
  let ?st1 = "upd_cf k (\<lambda>c. c\<lparr>af := a\<rparr>) st"
  have lc: "length (disk_content st i) < 2 ^ 31" using assms(1) by (simp add: disk_ok_def disk_content_def)
  have d1: "disk_file a ?st1 (disk_content st i)" using a(2) by simp
  obtain x h where m: "cpio_find_path (with_ramdisk D) a path ?st1 = Some (a\<lparr>f_pos := x\<rparr>, h, ?st1, err ENOENT)"
    using rd.find_path_miss [OF d1 a(3) lc assms(5,8,6,9), of D] by blast
  have c: "file_close (with_ramdisk D) (a\<lparr>f_pos := x\<rparr>) s = (s, 0)" for s :: "'a cpstate_scheme"
    by (rule ramdisk_close [OF rd.has_pos [OF d1]])
  show ?thesis
    unfolding cpio_file_open_path_def Let_def assms(2,3) option.case a(1) split if_not_P [OF assms(7)]
    using kl m c by (auto simp: cfdata_free_def upd_cf_def intro!: exI [of _ "(cfdatas st ! k)\<lparr>cf_h := h, af := a\<lparr>f_pos := x, f_op := None\<rparr>\<rparr>"])
qed

lemma open_missing:
  fixes st :: "'a cpstate_scheme"
  assumes "mounts_ok st sbs" "find (serves st path) (rev sbs) = Some sb"
    and "s_op (superblocks st ! sb) = Some CpioFsDrv" "s_bdev (superblocks st ! sb) = MAKEDEV 4 (of_nat i)"
    and "disk_ok st i" "disk_content st i = archive es @ rest" "\<And>x. x \<in> set es \<Longrightarrow> ce_ok x \<and> ce_name x \<noteq> rel \<and> \<not> is_trailer x"
    and "strip_prefix_text path (s_mountpath (superblocks st ! sb)) = rel" "rel \<noteq> ''''" "NUL \<notin> set rel" "rel \<noteq> ''TRAILER!!!''"
    and "cfdata_alloc st = Some k" "length (cfdatas st) = MAX_CPIO_OPEN"
  shows "\<exists>f c. file_open_path_abs (with_cpiofs (with_ramdisk D)) f0 path st = Some (f, st\<lparr>cfdatas := (cfdatas st)[k := c]\<rparr>, err ENOENT) \<and> f_op (af c) = None"
proof -
  obtain c where "cpio_file_open_path (with_ramdisk D) (file0\<lparr>f_op := Some CpioFileDrv\<rparr>) sb rel st =
      Some (file0\<lparr>f_op := Some CpioFileDrv\<rparr>, st\<lparr>cfdatas := (cfdatas st)[k := c]\<rparr>, err ENOENT)" "f_op (af c) = None"
    using cpio_open_missing [OF assms(5,4,12,13,6,7,9-11)] by blast
  then show ?thesis
    by (intro exI [of _ "file0\<lparr>f_op := Some CpioFileDrv\<rparr>"] exI [of _ c]) (simp add: file_open_path_abs_def find_mount_rev [OF assms(1)] assms(2,3,8) file_open_sb_path_def with_cpiofs_def cpio_fs_ops_def cpio_file_ops_def)
qed

text \<open>A slot that is free again is the next to be used.\<close>

lemma cfdata_find_upd:
  "cfdata_find n i cfs = Some k \<Longrightarrow> k < length cfs \<Longrightarrow> f_op (af c) = None \<Longrightarrow> cfdata_find n i (cfs[k := c]) = Some k"
  by (induction n i cfs rule: cfdata_find.induct) (auto simp: nth_list_update split: if_splits dest: cfdata_find_Some)

lemma cfdata_alloc_again:
  assumes "cfdata_alloc st = Some k" "length (cfdatas st) = MAX_CPIO_OPEN" "f_op (af c) = None"
  shows "cfdata_alloc (st\<lparr>cfdatas := (cfdatas st)[k := c]\<rparr>) = Some k"
  using assms cfdata_find_Some [of MAX_CPIO_OPEN 0 "cfdatas st" k] by (simp add: cfdata_alloc_def cfdata_find_upd)

lemma file_read_cpio:
  assumes "cpio_file f st c" "p \<le> length c" "p + n < 2 ^ 31"
  shows "file_read (with_cpiofs (with_ramdisk D)) (f\<lparr>f_pos := int p\<rparr>) n st =
    Some (take n (drop p c), f\<lparr>f_pos := int (p + length (take n (drop p c)))\<rparr>, st, int (length (take n (drop p c))))"
proof -
  have "cpio_file (f\<lparr>f_pos := int p\<rparr>) st c" using assms(1) by (simp add: cpio_file_def)
  then have "cpio_file_read (with_ramdisk D) (f\<lparr>f_pos := int p\<rparr>) n (int p) st =
      Some (take n (drop p c), int (p + length (take n (drop p c))), st, int (length (take n (drop p c))))"
    using assms(2,3) by (intro cpio_file_read_data) auto
  then show ?thesis using assms(1) by (simp add: file_read_def has_op_def cpio_file_def with_cpiofs_def cpio_file_ops_def)
qed

lemma open_read_entry:
  fixes st :: "'a cpstate_scheme"
  assumes "mounts_ok st sbs" "find (serves st path) (rev sbs) = Some sb"
    and "s_op (superblocks st ! sb) = Some CpioFsDrv" "s_bdev (superblocks st ! sb) = MAKEDEV 4 (of_nat i)"
    and "disk_ok st i" "disk_content st i = archive (xs @ e # ys) @ rest"
    and "\<And>x. x \<in> set xs \<Longrightarrow> ce_ok x \<and> ce_name x \<noteq> ce_name e \<and> \<not> is_trailer x" and "ce_ok e"
    and "strip_prefix_text path (s_mountpath (superblocks st ! sb)) = ce_name e" "ce_name e \<noteq> ''''"
    and "cfdata_alloc st = Some k" "length (cfdatas st) = MAX_CPIO_OPEN"
  shows "\<exists>f st'. file_open_path_abs (with_cpiofs (with_ramdisk D)) f0 path st = Some (f, st', 0) \<and>
    f_size (f_stat f) = int (length (ce_data e)) \<and> Some (f_type (f_stat f)) = cpio_mode_to_dirtype (of_nat (ce_mode e)) \<and>
    f_pos f = 0 \<and> (\<forall>p n. p \<le> length (ce_data e) \<and> p + n < 2 ^ 31 \<longrightarrow>
      file_read (with_cpiofs (with_ramdisk D)) (f\<lparr>f_pos := int p\<rparr>) n st' =
        Some (take n (drop p (ce_data e)), f\<lparr>f_pos := int (p + length (take n (drop p (ce_data e))))\<rparr>, st',
         int (length (take n (drop p (ce_data e))))))"
proof -
  obtain f st' where f: "file_open_path_abs (with_cpiofs (with_ramdisk D)) f0 path st = Some (f, st', 0)" "cpio_file f st' (ce_data e)"
    "Some (f_type (f_stat f)) = cpio_mode_to_dirtype (of_nat (ce_mode e))" "f_pos f = 0"
    using open_entry [OF assms, of D f0] by blast
  moreover have "f_size (f_stat f) = int (length (ce_data e))" using f(2) by (simp add: cpio_file_def)
  ultimately show ?thesis using file_read_cpio [OF f(2)] by blast
qed

text \<open>
  A file of an archive can be opened and read: when the last mounted file system whose mount path
  is a prefix of the path is an archive on a RAM disk, and the rest of the path is the name of an entry
  that no earlier entry has, then opening the path succeeds and gives a file with the entry's type and
  size, and reading from any position up to the end gives exactly the entry's data from there, never more.
\<close>

theorem cpio_open_read:
  fixes st :: "'a cpstate_scheme"
  assumes "mounts_ok st sbs" "find (serves st path) (rev sbs) = Some sb"
    and "s_op (superblocks st ! sb) = Some CpioFsDrv" "s_bdev (superblocks st ! sb) = MAKEDEV 4 (of_nat i)"
    and "disk_ok st i" "disk_content st i = archive (xs @ e # ys) @ rest"
    and "\<And>x. x \<in> set xs \<Longrightarrow> ce_ok x \<and> ce_name x \<noteq> ce_name e \<and> \<not> is_trailer x" and "ce_ok e"
    and "strip_prefix_text path (s_mountpath (superblocks st ! sb)) = ce_name e" "ce_name e \<noteq> ''''"
    and "cfdata_alloc st = Some k" "length (cfdatas st) = MAX_CPIO_OPEN"
  shows "\<exists>f st'. file_open_path_abs (with_cpiofs (with_ramdisk D)) f0 path st = Some (f, st', 0) \<and>
    f_size (f_stat f) = int (length (ce_data e)) \<and> Some (f_type (f_stat f)) = cpio_mode_to_dirtype (of_nat (ce_mode e)) \<and>
    f_pos f = 0 \<and> (\<forall>p n. p \<le> length (ce_data e) \<and> p + n < 2 ^ 31 \<longrightarrow>
      file_read (with_cpiofs (with_ramdisk D)) (f\<lparr>f_pos := int p\<rparr>) n st' =
        Some (take n (drop p (ce_data e)), f\<lparr>f_pos := int (p + length (take n (drop p (ce_data e))))\<rparr>, st',
         int (length (take n (drop p (ce_data e))))))"
  by (rule open_read_entry [OF assms])

definition cfdata0 :: cfdata where "cfdata0 = \<lparr>af = file0, cf_h = cpio_header0, foff = 0\<rparr>"

definition root_entry :: centry where
  "root_entry = \<lparr>ce_name = ''.'', ce_mode = 0x41ed, ce_devmajor = 0, ce_devminor = 0, ce_data = '''', ce_rest = (\<lambda>_. 0)\<rparr>"

definition hello_entry :: centry where
  "hello_entry = \<lparr>ce_name = ''bin/hello'', ce_mode = 0x81ed, ce_devmajor = 0, ce_devminor = 0, ce_data = ''Hi!'', ce_rest = (\<lambda>_. 0)\<rparr>"

text \<open>A kernel state with an archive on the first RAM disk, mounted at the root.\<close>

definition cp_state :: "centry list \<Rightarrow> cpstate" where
  "cp_state es = \<lparr>chrdev_drivers = (replicate MAJORS_MAX None)[MAJ_RAMDISK := Some RamdiskDrv],
    fs_drivers = (replicate FSTYPES_MAX None)[FS_CPIO := Some CpioFsDrv],
    superblocks = (replicate SB_MAX superblock0)[0 := superblock0\<lparr>s_bdev := MAKEDEV 4 0, s_mountpath := ''/'', s_op := Some CpioFsDrv\<rparr>],
    vfs_mount_list = \<lparr>lh_next = (\<lambda>x. None)(MountHead := Some (MountSb 0), MountSb 0 := Some MountHead),
      lh_prev = (\<lambda>x. None)(MountHead := Some (MountSb 0), MountSb 0 := Some MountHead)\<rparr>,
    ramdisks = (replicate RAMDISKS_MAX ramdisk0)[0 := \<lparr>rd_addr = 100, rd_size = length (archive es), rd_name = ''initrd''\<rparr>],
    kmem = mem_write (\<lambda>a. NUL) 100 (archive es), cfdatas = replicate MAX_CPIO_OPEN cfdata0\<rparr>"

lemma cp_state_disk:
  "length (archive es) < 2 ^ 31 \<Longrightarrow> disk_ok (cp_state es) 0" "disk_content (cp_state es) 0 = archive es"
  by (simp_all add: disk_ok_def disk_content_def cp_state_def MAJ_RAMDISK_def MAJORS_MAX_def RAMDISKS_MAX_def mem_read_write_same)

lemma cp_state_mounts: "mounts_ok (cp_state es) [0]"
  by (simp add: mounts_ok_def cp_state_def clist_def SB_MAX_def)

lemma entries_ok: "ce_ok root_entry" "ce_ok hello_entry"
proof -
  have "ce_field root_entry fld < 2 ^ 32" "ce_field hello_entry fld < 2 ^ 32" for fld
    by (cases fld; simp add: root_entry_def hello_entry_def)+
  then show "ce_ok root_entry" "ce_ok hello_entry"
    by (simp_all add: ce_ok_def root_entry_def hello_entry_def PATH_MAX_def)
qed

lemma archive_example_length: "length (archive [root_entry, hello_entry]) < 2 ^ 31"
  by (simp add: archive_def encode_def encode_path_def root_entry_def hello_entry_def trailer_def sizeof_newc_def pad4_def)

theorem cpio_open_read_witness:
  "\<exists>f st. file_open_path_abs (with_cpiofs (with_ramdisk no_drivers)) file0 ''/bin/hello''
      (cp_state [root_entry, hello_entry]) = Some (f, st, 0) \<and> f_type (f_stat f) = DT_REG \<and>
    map_option fst (file_read (with_cpiofs (with_ramdisk no_drivers)) (f\<lparr>f_pos := 1\<rparr>) 10 st) = Some ''i!''"
proof -
  let ?st = "cp_state [root_entry, hello_entry]"
  have "find (serves ?st ''/bin/hello'') (rev [0]) = Some 0"
    "s_op (superblocks ?st ! 0) = Some CpioFsDrv" "s_bdev (superblocks ?st ! 0) = MAKEDEV 4 (of_nat 0)"
    by (simp_all add: serves_def cp_state_def SB_MAX_def)
  note 1 = cpio_open_read [OF cp_state_mounts this cp_state_disk(1) [OF archive_example_length], of "[root_entry]" hello_entry "[]" "[]" 0]
  have "\<exists>f st'. file_open_path_abs (with_cpiofs (with_ramdisk no_drivers)) file0 ''/bin/hello'' ?st = Some (f, st', 0) \<and>
    f_size (f_stat f) = int (length (ce_data hello_entry)) \<and>
    Some (f_type (f_stat f)) = cpio_mode_to_dirtype (of_nat (ce_mode hello_entry)) \<and> f_pos f = 0 \<and>
    (\<forall>p n. p \<le> length (ce_data hello_entry) \<and> p + n < 2 ^ 31 \<longrightarrow>
      file_read (with_cpiofs (with_ramdisk no_drivers)) (f\<lparr>f_pos := int p\<rparr>) n st' =
        Some (take n (drop p (ce_data hello_entry)), f\<lparr>f_pos := int (p + length (take n (drop p (ce_data hello_entry))))\<rparr>, st',
         int (length (take n (drop p (ce_data hello_entry))))))"
  proof (rule 1)
    show "cfdata_alloc ?st = Some 0" "length (cfdatas ?st) = MAX_CPIO_OPEN"
      by (simp_all add: cfdata_alloc_def cp_state_def cfdata0_def file0_def MAX_CPIO_OPEN_def numeral_eq_Suc)
    show "strip_prefix_text ''/bin/hello'' (s_mountpath (superblocks ?st ! 0)) = ce_name hello_entry"
      by (simp add: strip_prefix_text_def cp_state_def SB_MAX_def hello_entry_def ch0_def)
  qed (use entries_ok cp_state_disk(2) in \<open>auto simp: root_entry_def hello_entry_def is_trailer_def\<close>)
  then obtain f st where f: "file_open_path_abs (with_cpiofs (with_ramdisk no_drivers)) file0 ''/bin/hello'' ?st = Some (f, st, 0)"
    "Some (f_type (f_stat f)) = cpio_mode_to_dirtype (of_nat (ce_mode hello_entry))"
    "1 \<le> length (ce_data hello_entry) \<and> 1 + 10 < (2 :: nat) ^ 31 \<longrightarrow>
      file_read (with_cpiofs (with_ramdisk no_drivers)) (f\<lparr>f_pos := int 1\<rparr>) 10 st =
        Some (take 10 (drop 1 (ce_data hello_entry)), f\<lparr>f_pos := int (1 + length (take 10 (drop 1 (ce_data hello_entry))))\<rparr>, st,
         int (length (take 10 (drop 1 (ce_data hello_entry)))))" by blast
  have "f_type (f_stat f) = DT_REG" using f(2)
    by (simp add: hello_entry_def cpio_mode_to_dirtype_def CM_FT_MASK_def)
  moreover have "map_option fst (file_read (with_cpiofs (with_ramdisk no_drivers)) (f\<lparr>f_pos := 1\<rparr>) 10 st) = Some ''i!''"
    using f(3) by (simp add: hello_entry_def)
  ultimately show ?thesis using f(1) by blast
qed

text \<open>
  Reading a file of an archive at a position behind its end is not bounded by the requested
  count: the count that is passed on wraps around, and the read copies the rest of the archive, here the
  bytes of the disk from the position on, whatever was asked for.
\<close>

theorem cpio_read_past_end:
  assumes "f_driver_data f = Some k" "disk_file (af (cfdatas st ! k)) st (pre @ dat @ suf)"
    and "foff (cfdatas st ! k) = int (length pre)" "f_size (f_stat f) = int (length dat)"
    and "f_pos f = int p" "length dat < p" "length pre + p < 2 ^ 31" "p + n < 2 ^ 31" "length suf < 2 ^ 31"
  shows "map_option fst (cpio_file_read (with_ramdisk D) f n (int p) st) = Some (drop (p - length dat) suf)"
proof -
  let ?d = "p - length dat"
  let ?m = "unat (of_int (int (length dat) - int p) :: u32)"
  let ?z = "int (length dat) - int p"
  have "?z mod 2 ^ 32 = ?z + 2 ^ 32"
    using mod_add_self2 [of ?z "2 ^ 32"] mod_pos_pos_trivial [of "?z + 2 ^ 32" "2 ^ 32"] assms(6,8) by simp
  moreover have "?m = nat (?z mod 2 ^ 32)" by (simp add: unsigned_of_int take_bit_eq_mod del: of_int_diff)
  ultimately have m: "?m = 2 ^ 32 - ?d" using assms(6,8) by (simp only:) simp
  have a: "loff (int p + int (length pre)) = int (length pre + p)" using assms(7) by (simp add: loff_small)
  have c: "loff (int p + loff (int n)) = int (p + n)" using assms(8) by (simp add: loff_small)
  have cnt: "(if loff (int p + loff (int n)) > f_size (f_stat f) then unat (of_int (f_size (f_stat f) - f_pos f) :: u32) else n) = ?m"
    using assms(4-6) unfolding c by simp
  have tk: "take ?m (drop (length pre + p) (pre @ dat @ suf)) = drop ?d suf"
    using assms(6-9) unfolding m by simp
  have "map_option fst (file_pread (with_ramdisk D) (af (cfdatas st ! k)) ?m (int (length pre + p)) st) = Some (drop ?d suf)"
    using rd.file_pread_has [OF assms(2), of "int (length pre + p)" D ?m] unfolding nat_int tk by simp
  then obtain s r where r: "file_pread (with_ramdisk D) (af (cfdatas st ! k)) ?m (int (length pre + p)) st = Some (drop ?d suf, s, r)"
    by auto
  show ?thesis unfolding cpio_file_read_def Let_def assms(1) option.sel assms(3) a cnt r by simp
qed

text \<open>One byte of an archive that follows a file of two bytes is read from behind the file's end.\<close>

theorem cpio_read_past_end_witness:
  "map_option fst (cpio_file_read (with_ramdisk no_drivers)
     (file0\<lparr>f_stat := fstat0\<lparr>f_size := 2\<rparr>, f_pos := 3, f_op := Some CpioFileDrv, f_driver_data := Some 0\<rparr>) 1 3
     ((cp_state [])\<lparr>ramdisks := [\<lparr>rd_addr = 100, rd_size = 8, rd_name = ''d''\<rparr>], kmem := mem_write (\<lambda>a. NUL) 100 ''xabSECRT'',
        cfdatas := [\<lparr>af = file0\<lparr>f_stat := fstat0\<lparr>f_size := 8\<rparr>, f_op := Some RamdiskDrv, f_driver_data := Some 0\<rparr>,
          cf_h = cpio_header0, foff = 1\<rparr>]\<rparr>)) = Some ''ECRT''"
proof -
  let ?f = "file0\<lparr>f_stat := fstat0\<lparr>f_size := 2\<rparr>, f_pos := 3, f_op := Some CpioFileDrv, f_driver_data := Some 0\<rparr>"
  let ?st = "(cp_state [])\<lparr>ramdisks := [\<lparr>rd_addr = 100, rd_size = 8, rd_name = ''d''\<rparr>], kmem := mem_write (\<lambda>a. NUL) 100 ''xabSECRT'',
        cfdatas := [\<lparr>af = file0\<lparr>f_stat := fstat0\<lparr>f_size := 8\<rparr>, f_op := Some RamdiskDrv, f_driver_data := Some 0\<rparr>,
          cf_h = cpio_header0, foff = 1\<rparr>]\<rparr>"
  have "disk_file (af (cfdatas ?st ! 0)) ?st (''x'' @ ''ab'' @ ''SECRT'')"
    using mem_read_write_same [of "''xabSECRT''" 8 "\<lambda>a. NUL" 100] by (simp add: disk_file_def RAMDISKS_MAX_def)
  from cpio_read_past_end [OF _ this, of ?f 3 1 no_drivers] show ?thesis by simp
qed

context readable_device
begin

text \<open>At the end of the device the loop that reads a path name makes no progress and does not end.\<close>

lemma read_name_eof:
  assumes "cpio_read_name D' f buf ct readsz st = Some r"
  shows "D' = D \<longrightarrow> \<not> (has f st c \<and> f_pos f = int (length c) \<and> ct < readsz)"
proof (rule cpio_read_name.raw_induct [OF _ assms, where
      P = "\<lambda>D' f buf ct readsz st r. D' = D \<longrightarrow> \<not> (has f st c \<and> f_pos f = int (length c) \<and> ct < readsz)"],
    intro impI notI)
  fix rec D' f buf ct readsz st r
  assume IH: "\<And>D' f buf ct readsz st y. rec D' f buf ct readsz st = Some y \<Longrightarrow>
      D' = D \<longrightarrow> \<not> (has f st c \<and> f_pos f = int (length c) \<and> ct < readsz)"
    and body: "(if ct < readsz
        then Option.bind (file_read D' f (nat (readsz - ct)) st) (\<lambda>(dst, f, st, res). let buf = store_at (nat ct) dst buf
             in if res < 0 then Some (f, buf, st, res) else rec D' f buf (ct + res) readsz st)
        else Some (f, buf, st, ct)) = Some r"
    and D: "D' = D" and h: "has f st c \<and> f_pos f = int (length c) \<and> ct < readsz"
  have "file_read D f (nat (readsz - ct)) st = Some ([], f\<lparr>f_pos := f_pos f\<rparr>, st, 0)"
    using h file_read_has [of f st c "nat (readsz - ct)"] by auto
  then have "rec D (f\<lparr>f_pos := f_pos f\<rparr>) (store_at (nat ct) [] buf) ct readsz st = Some r"
    using body h D by (simp split: if_splits)
  from IH [OF this] h has_pos [of f st c "f_pos f"] show False by auto
qed

lemma read_header_truncated:
  assumes "has f st c" "f_pos f = int pos" "drop pos c = encode_header e" "ce_ok e" "length (ce_data e) < 2 ^ 31"
  shows "cpio_read_header D f st = None"
proof -
  define h where "h = cpio_header0\<lparr>fmt := CF_NEWC, bytes := encode_header e, hoff := int pos, hsize := of_nat sizeof_newc\<rparr>"
  define h1 where "h1 = h\<lparr>psize := of_nat (length (ce_name e) + 1), fsize := of_nat (length (ce_data e)),
    ppad := of_nat (pad4 (sizeof_newc + length (ce_name e) + 1)), fpad := of_nat (pad4 (length (ce_data e)))\<rparr>"
  let ?f = "f\<lparr>f_pos := int (pos + sizeof_newc)\<rparr>"
  have 1: "cpio_read_header_raw D f st = Some (?f, h, st, int sizeof_newc)"
    using read_header_raw_encoded [OF assms(1,2), of e "[]"] assms(3) by (simp add: h_def)
  have 2: "cpioh_decode_sizes h = (h1, 0)" unfolding h1_def by (rule decoded_sizes [OF assms(4,5)]) (simp_all add: h_def)
  have l: "pos + sizeof_newc = length c"
    using arg_cong [OF assms(3), of length] by (simp add: sizeof_newc_def)
  have u: "unat (psize h1) = length (ce_name e) + 1"
    using assms(4) small_u32(1) [of "length (ce_name e) + 1"] by (simp add: h1_def ce_ok_def PATH_MAX_def)
  have "cpio_read_name D ?f (pathname h1) 0 (int (Orderings.min (unat (psize h1)) PATH_MAX)) st = None"
  proof (rule ccontr)
    assume "\<not> ?thesis"
    then obtain r where "cpio_read_name D ?f (pathname h1) 0 (int (Orderings.min (unat (psize h1)) PATH_MAX)) st = Some r" by auto
    from read_name_eof [OF this, of c] has_pos [OF assms(1)] l u show False by (simp add: PATH_MAX_def)
  qed
  then show ?thesis unfolding cpio_read_header_def 1 bind.bind_lunit Let_def split 2
    by (simp add: cpio_read_pathname_def)
qed

end

section \<open>The properties of the search\<close>

text \<open>
  Property C33. The search of an archive on a RAM disk finds the first entry with the wanted name: it returns
  the entry's number, its decoded header, and the archive file positioned at the entry's data; when no
  entry (and not the trailer) has the name it returns the error for a missing file.
\<close>

theorem cpio_find_path_correct:
  assumes "disk_file f st (archive es @ rest)" "f_pos f = 0" "length (archive es @ rest) < 2 ^ 31"
    and "\<forall>x\<in>set es. ce_ok x \<and> \<not> is_trailer x"
  shows "(\<forall>xs e ys. es = xs @ e # ys \<and> ce_name e \<notin> set (map ce_name xs) \<longrightarrow>
      cpio_find_path (with_ramdisk D) f (ce_name e) st = Some (f\<lparr>f_pos := int (length (encode_all xs) + data_off e)\<rparr>,
        decoded (length (encode_all xs)) e, st, int (length xs))) \<and>
    (\<forall>p. p \<notin> set (map ce_name (es @ [trailer])) \<and> NUL \<notin> set p \<longrightarrow>
      (\<exists>f' h. cpio_find_path (with_ramdisk D) f p st = Some (f', h, st, err ENOENT)))"
proof (rule conjI)
  show "\<forall>xs e ys. es = xs @ e # ys \<and> ce_name e \<notin> set (map ce_name xs) \<longrightarrow>
      cpio_find_path (with_ramdisk D) f (ce_name e) st = Some (f\<lparr>f_pos := int (length (encode_all xs) + data_off e)\<rparr>,
        decoded (length (encode_all xs)) e, st, int (length xs))"
  proof (intro allI impI, elim conjE)
    fix xs e ys assume es: "es = xs @ e # ys" and n: "ce_name e \<notin> set (map ce_name xs)"
    have ne: "x \<in> set xs \<Longrightarrow> ce_name x \<noteq> ce_name e" for x using n by (metis imageI list.set_map)
    show "cpio_find_path (with_ramdisk D) f (ce_name e) st = Some (f\<lparr>f_pos := int (length (encode_all xs) + data_off e)\<rparr>,
        decoded (length (encode_all xs)) e, st, int (length xs))"
      by (rule rd.find_path_hit [OF assms(1-3), where rest = "encode_all (ys @ [trailer]) @ rest"])
        (use assms(4) ne es in \<open>auto simp: archive_def\<close>)
  qed
  show "\<forall>p. p \<notin> set (map ce_name (es @ [trailer])) \<and> NUL \<notin> set p \<longrightarrow>
      (\<exists>f' h. cpio_find_path (with_ramdisk D) f p st = Some (f', h, st, err ENOENT))"
  proof (intro allI impI, elim conjE)
    fix p assume p: "p \<notin> set (map ce_name (es @ [trailer]))" "NUL \<notin> set p"
    have ne: "x \<in> set es \<Longrightarrow> ce_name x \<noteq> p" for x using p(1) by auto
    have "\<exists>x h. cpio_find_path (with_ramdisk D) f p st = Some (f\<lparr>f_pos := x\<rparr>, h, st, err ENOENT)"
      by (rule rd.find_path_miss [OF assms(1-3) refl p(2)]) (use assms(4) ne p(1) in \<open>auto simp: trailer_def\<close>)
    then show "\<exists>f' h. cpio_find_path (with_ramdisk D) f p st = Some (f', h, st, err ENOENT)" by blast
  qed
qed

theorem cpio_find_path_correct_witness:
  "map_option (snd \<circ> snd \<circ> snd) (cpio_find_path (with_ramdisk no_drivers)
     (fst (file_open_dev (with_ramdisk no_drivers) (MAKEDEV 4 0) (cp_state [root_entry, hello_entry]))) ''bin/hello''
     (cp_state [root_entry, hello_entry])) = Some 1"
proof -
  let ?st = "cp_state [root_entry, hello_entry]"
  obtain f where f: "file_open_dev (with_ramdisk no_drivers) (MAKEDEV 4 (of_nat 0)) ?st = (f, ?st, 0)"
    "disk_file f ?st (disk_content ?st 0)" "f_pos f = 0"
    using ramdisk_open [OF cp_state_disk(1) [OF archive_example_length]] by blast
  have d: "disk_file f ?st (archive [root_entry, hello_entry] @ [])" using f(2) by (simp add: cp_state_disk(2))
  have ok: "\<forall>x\<in>set [root_entry, hello_entry]. ce_ok x \<and> \<not> is_trailer x"
    using entries_ok by (simp add: is_trailer_def root_entry_def hello_entry_def)
  have "ce_name hello_entry \<notin> set (map ce_name [root_entry])" by (simp add: root_entry_def hello_entry_def)
  then have "cpio_find_path (with_ramdisk no_drivers) f (ce_name hello_entry) ?st =
      Some (f\<lparr>f_pos := int (length (encode_all [root_entry]) + data_off hello_entry)\<rparr>,
        decoded (length (encode_all [root_entry])) hello_entry, ?st, int (length [root_entry]))"
    using cpio_find_path_correct [OF d f(3) _ ok, of no_drivers] archive_example_length
    by (metis append.right_neutral append_Cons append_Nil)
  then show ?thesis using f(1) by (simp add: hello_entry_def)
qed

text \<open>
  A truncated archive makes the kernel hang: when an archive on a RAM disk ends right behind a
  header, reading that header does not return, because the loop that reads the path name ignores the
  end of the device.
\<close>

theorem cpio_truncated_diverges:
  assumes "disk_file f st c" "f_pos f = int pos" "drop pos c = encode_header e" "ce_ok e" "length (ce_data e) < 2 ^ 31"
  shows "cpio_read_header (with_ramdisk D) f st = None"
  by (rule rd.read_header_truncated [OF assms])

theorem cpio_truncated_diverges_witness:
  "cpio_read_header (with_ramdisk no_drivers) (file0\<lparr>f_stat := fstat0\<lparr>f_size := 110\<rparr>, f_op := Some RamdiskDrv, f_driver_data := Some 0\<rparr>)
     ((cp_state [])\<lparr>ramdisks := [\<lparr>rd_addr = 100, rd_size = 110, rd_name = ''d''\<rparr>],
        kmem := mem_write (\<lambda>a. NUL) 100 (encode_header hello_entry)\<rparr>) = None"
proof -
  let ?f = "file0\<lparr>f_stat := fstat0\<lparr>f_size := 110\<rparr>, f_op := Some RamdiskDrv, f_driver_data := Some 0\<rparr>"
  let ?st = "(cp_state [])\<lparr>ramdisks := [\<lparr>rd_addr = 100, rd_size = 110, rd_name = ''d''\<rparr>],
        kmem := mem_write (\<lambda>a. NUL) 100 (encode_header hello_entry)\<rparr>"
  have "disk_file ?f ?st (encode_header hello_entry)"
    using mem_read_write_same [of "encode_header hello_entry" 110 "\<lambda>a. NUL" 100] by (simp add: disk_file_def RAMDISKS_MAX_def sizeof_newc_def)
  from cpio_truncated_diverges [OF this, of 0 hello_entry no_drivers] entries_ok(2)
  show ?thesis by (simp add: file0_def hello_entry_def)
qed

end
