(* ===== verification/Pagemap.thy ===== *)
theory Pagemap
  imports C_Base
begin

unbundle bit_operations_syntax

text \<open>
  Page maps: \<open>kernel/pagemap.c\<close>, \<open>kernel/pagemap.h\<close> and the entry format of \<open>arch/i386/cpu_pagemap.h\<close>.

  The state has the array \<open>physpages\<close> of pages that can hold page tables and the contents of the
  tables, an array of entries for each table address (a page of 4096 bytes has 1024 entries; the
  kernel accesses a table at its physical address, which it maps to itself). The tables lie in RAM, in the
  area of \<open>PHYSPAGES_MAX\<close> pages from \<open>PM_AREA\<close> on. This model keeps that area apart: \<open>tables\<close> is its content, and the byte
  array \<open>kmem\<close> of the other theories is the RAM outside it. A statement that relies on both asks with \<open>outside_tables\<close>
  that the bytes it speaks of are not in the area. A pointer to an entry is
  either the root entry of the address space or a table and an index. The mutable locals that the
  recursion shares by pointer (\<open>offsets\<close>, \<open>paddr\<close>, \<open>size\<close>) are fields of the working state. Trace and
  debug output is left out. The result is \<^const>\<open>None\<close> where the code would index outside \<open>lvls\<close>.

  \<open>walk\<close> is the reference: the translation that the processor makes of a page number. The main
  property says what a successful \<open>addrspc_map\<close> makes of every translation.
\<close>

section \<open>Entries and levels: cpu\_pagemap.h\<close>

definition PAGESZ :: u32 where "PAGESZ = 4096"
definition PM_AREA :: u32 where "PM_AREA = 0x100000"
definition KMAP_MIN :: u32 where "KMAP_MIN = 0"
definition KMAP_MAX :: u32 where "KMAP_MAX = 0x400000"
definition PHYSPAGES_MAX :: nat where "PHYSPAGES_MAX = 5"

definition outside_tables :: "nat \<Rightarrow> nat \<Rightarrow> bool" where
  "outside_tables lo hi \<longleftrightarrow> hi \<le> unat PM_AREA \<or> unat PM_AREA + PHYSPAGES_MAX * unat PAGESZ \<le> lo"

definition PME_PRESENT :: u32 where "PME_PRESENT = 1"
definition PME_W :: u32 where "PME_W = 2"
definition PME_USER :: u32 where "PME_USER = 4"

record pm_lvl =
  lvl_name :: string
  idx_bits :: nat
  is_page :: bool

record pm_mode =
  mode_name :: string
  entrysz :: u32
  lvlct :: nat
  lvls :: "pm_lvl list"

definition X86_PAGING_32 :: pm_mode where
  "X86_PAGING_32 = \<lparr>mode_name = ''32-bit paging'', entrysz = 4, lvlct = 4,
     lvls = [\<lparr>lvl_name = ''cr3'', idx_bits = 0, is_page = False\<rparr>,
             \<lparr>lvl_name = ''pgdir'', idx_bits = 10, is_page = False\<rparr>,
             \<lparr>lvl_name = ''pgtbl'', idx_bits = 10, is_page = False\<rparr>,
             \<lparr>lvl_name = ''page'', idx_bits = 12, is_page = True\<rparr>]\<rparr>"

definition pm_tblsz :: "nat \<Rightarrow> u32" where
  "pm_tblsz lvl = push_bit (idx_bits (lvls X86_PAGING_32 ! lvl)) (entrysz X86_PAGING_32)"

definition pme_paddr :: "u32 \<Rightarrow> nat \<Rightarrow> u32" where
  "pme_paddr pme lvl = pme AND NOT 0xfff"

definition pme_set_flags :: "u32 \<Rightarrow> u32 \<Rightarrow> nat \<Rightarrow> u32" where
  "pme_set_flags pme flags lvl = pme OR (if lvl = 0 then flags AND (8 OR 16) else flags)"

definition pme_pack :: "u32 \<Rightarrow> u32 \<Rightarrow> nat \<Rightarrow> u32" where
  "pme_pack paddr flags lvl = pme_set_flags paddr flags lvl"

definition pme_ispresent :: "u32 \<Rightarrow> nat \<Rightarrow> bool" where
  "pme_ispresent pme lvl = (if lvl = 0 then pme \<noteq> 0 else pme AND PME_PRESENT \<noteq> 0)"

section \<open>Pages for tables: kernel/pagemap.c\<close>

record physpage =
  pp_paddr :: u32
  pp_vaddr :: u32

record pmstate =
  physpages :: "physpage list"
  tables :: "u32 \<Rightarrow> nat \<Rightarrow> u32"

fun physpage_alloc_from :: "nat \<Rightarrow> nat \<Rightarrow> physpage list \<Rightarrow> (nat \<times> physpage list) option" where
  "physpage_alloc_from 0 i pages = None"
| "physpage_alloc_from (Suc k) i pages =
    (if pp_paddr (pages ! i) = 0
     then Some (i, pages[i := (pages ! i)\<lparr>pp_paddr := PM_AREA + of_nat i * PAGESZ\<rparr>])
     else physpage_alloc_from k (Suc i) pages)"

definition physpage_alloc :: "pmstate \<Rightarrow> (nat \<times> pmstate) option" where
  "physpage_alloc st =
    map_option (\<lambda>(i, pages). (i, st\<lparr>physpages := pages\<rparr>)) (physpage_alloc_from PHYSPAGES_MAX 0 (physpages st))"

definition upd_page :: "nat \<Rightarrow> (physpage \<Rightarrow> physpage) \<Rightarrow> pmstate \<Rightarrow> pmstate" where
  "upd_page i f st = st\<lparr>physpages := (physpages st)[i := f (physpages st ! i)]\<rparr>"

definition physpage_free :: "nat \<Rightarrow> pmstate \<Rightarrow> pmstate" where
  "physpage_free page st = upd_page page (\<lambda>p. p\<lparr>pp_paddr := 0\<rparr>) st"

text \<open>The difference is unsigned, so an address below the area is far above it.\<close>

definition physpage_find :: "u32 \<Rightarrow> nat option" where
  "physpage_find paddr =
    (let i = unat ((paddr - PM_AREA) div PAGESZ) in if i < PHYSPAGES_MAX then Some i else None)"

definition physpage_access :: "nat \<Rightarrow> pmstate \<Rightarrow> u32 \<times> pmstate" where
  "physpage_access page st =
    (let a = pp_paddr (physpages st ! page) in (a, upd_page page (\<lambda>p. p\<lparr>pp_vaddr := a\<rparr>) st))"

definition physpage_close :: "nat \<Rightarrow> pmstate \<Rightarrow> pmstate" where
  "physpage_close page st = upd_page page (\<lambda>p. p\<lparr>pp_vaddr := 0\<rparr>) st"

text \<open>\<open>pm_offsets\<close>: the index at each level, from the low bits up.\<close>

fun pm_offsets_loop :: "nat \<Rightarrow> u32 \<Rightarrow> nat list \<Rightarrow> nat list" where
  "pm_offsets_loop 0 vaddr_val offsets = offsets"
| "pm_offsets_loop (Suc i) vaddr_val offsets =
    (let bits = idx_bits (lvls X86_PAGING_32 ! i);
         mask = push_bit bits 1 - 1
     in pm_offsets_loop i (drop_bit bits vaddr_val) (offsets[i := unat (vaddr_val AND mask)]))"

definition pm_offsets :: "u32 \<Rightarrow> nat list" where
  "pm_offsets vaddr_val = pm_offsets_loop (lvlct X86_PAGING_32) vaddr_val [0, 0, 0, 0]"

text \<open>\<open>pme_coversz\<close>, in the 32-bit \<open>size_t\<close>.\<close>

function pme_coversz :: "nat \<Rightarrow> u32" where
  "pme_coversz lvl =
    (if lvl \<ge> lvlct X86_PAGING_32 then 0
     else if is_page (lvls X86_PAGING_32 ! lvl) then push_bit (idx_bits (lvls X86_PAGING_32 ! lvl)) 1
     else push_bit (idx_bits (lvls X86_PAGING_32 ! lvl)) (pme_coversz (lvl + 1)))"
  by pat_completeness auto
termination
  by (relation "measure (\<lambda>lvl. lvlct X86_PAGING_32 - lvl)") auto

declare pme_coversz.simps [simp del]

section \<open>Mapping\<close>

datatype pme_ptr = RootEntry | TblEntry u32 nat

record walkst =
  w_pm :: pmstate
  w_root :: u32
  w_offsets :: "nat list"
  w_paddr :: u32
  w_size :: u32

fun read_pme :: "pme_ptr \<Rightarrow> walkst \<Rightarrow> u32" where
  "read_pme RootEntry ws = w_root ws"
| "read_pme (TblEntry tbl i) ws = tables (w_pm ws) tbl i"

definition set_tbl :: "u32 \<Rightarrow> (nat \<Rightarrow> u32) \<Rightarrow> pmstate \<Rightarrow> pmstate" where
  "set_tbl tbl f st = st\<lparr>tables := (tables st)(tbl := f)\<rparr>"

fun write_pme :: "pme_ptr \<Rightarrow> u32 \<Rightarrow> walkst \<Rightarrow> walkst" where
  "write_pme RootEntry v ws = ws\<lparr>w_root := v\<rparr>"
| "write_pme (TblEntry tbl i) v ws = ws\<lparr>w_pm := set_tbl tbl ((tables (w_pm ws) tbl)(i := v)) (w_pm ws)\<rparr>"

text \<open>
  The loop over the entries of one table, for the recursive call given as \<open>body\<close>. It ends at the
  last entry at the latest, so a fuel of \<open>offset_max\<close> iterations is enough.
\<close>

fun table_loop ::
    "nat \<Rightarrow> (pme_ptr \<Rightarrow> walkst \<Rightarrow> (walkst \<times> int) option) \<Rightarrow> u32 \<Rightarrow> nat \<Rightarrow> nat \<Rightarrow> walkst \<Rightarrow> (walkst \<times> int) option" where
  "table_loop 0 body tbl child_lvl offset_max ws = None"
| "table_loop (Suc fuel) body tbl child_lvl offset_max ws =
    (if w_size ws = 0 then Some (ws, 0)
     else case body (TblEntry tbl (w_offsets ws ! child_lvl)) ws of
            None \<Rightarrow> None
          | Some (ws, res) \<Rightarrow>
              (if res < 0 then Some (ws, res)
               else let o' = w_offsets ws ! child_lvl + 1
                    in if o' = offset_max
                       then Some (ws\<lparr>w_offsets := (w_offsets ws)[child_lvl := 0]\<rparr>, 0)
                       else table_loop fuel body tbl child_lvl offset_max
                              (ws\<lparr>w_offsets := (w_offsets ws)[child_lvl := o']\<rparr>)))"

text \<open>The table for the next level: a new, cleared page, or the page that the entry points to.\<close>

definition open_table :: "nat \<Rightarrow> pme_ptr \<Rightarrow> u32 \<Rightarrow> walkst \<Rightarrow> (nat \<times> u32 \<times> walkst) option" where
  "open_table lvl entry flags ws =
    (if \<not> pme_ispresent (read_pme entry ws) lvl
     then (case physpage_alloc (w_pm ws) of
             None \<Rightarrow> None
           | Some (tbl_pg, st) \<Rightarrow>
               (let (tbl, st) = physpage_access tbl_pg st;
                    st = set_tbl tbl (\<lambda>i. 0) st;
                    ws = ws\<lparr>w_pm := st\<rparr>;
                    ws = write_pme entry (pme_pack (pp_paddr (physpages st ! tbl_pg)) (flags OR PME_PRESENT) lvl) ws
                in Some (tbl_pg, tbl, ws)))
     else (case physpage_find (pme_paddr (read_pme entry ws) lvl) of
             None \<Rightarrow> None
           | Some tbl_pg \<Rightarrow>
               (let (tbl, st) = physpage_access tbl_pg (w_pm ws);
                    ws = ws\<lparr>w_pm := st\<rparr>;
                    ws = write_pme entry (pme_set_flags (read_pme entry ws) flags lvl) ws
                in Some (tbl_pg, tbl, ws))))"

function addrspc_map_recursive :: "nat \<Rightarrow> u32 \<Rightarrow> pme_ptr \<Rightarrow> walkst \<Rightarrow> (walkst \<times> int) option" where
  "addrspc_map_recursive lvl flags entry ws =
    (if lvl + 1 \<ge> lvlct X86_PAGING_32 then None
     else if is_page (lvls X86_PAGING_32 ! (lvl + 1))
     then (let ws = write_pme entry (pme_pack (w_paddr ws) (flags OR PME_PRESENT) lvl) ws
           in Some (ws\<lparr>w_paddr := w_paddr ws + PAGESZ, w_size := w_size ws - PAGESZ\<rparr>, 0))
     else case open_table lvl entry flags ws of
            None \<Rightarrow> Some (ws, err ENOMEM)
          | Some (tbl_pg, tbl, ws) \<Rightarrow>
              (let child_lvl = lvl + 1;
                   offset_max = 2 ^ idx_bits (lvls X86_PAGING_32 ! child_lvl)
               in map_option (\<lambda>(ws, res). (ws\<lparr>w_pm := physpage_close tbl_pg (w_pm ws)\<rparr>, res))
                    (table_loop offset_max (\<lambda>e ws. addrspc_map_recursive child_lvl flags e ws) tbl child_lvl offset_max ws)))"
  by pat_completeness auto
termination
  by (relation "measure (\<lambda>(lvl, flags, entry, ws). lvlct X86_PAGING_32 - lvl)") auto

declare addrspc_map_recursive.simps [simp del]

text \<open>An address space is its root entry; the operations return the new one.\<close>

definition addrspc_map :: "pmstate \<Rightarrow> u32 \<Rightarrow> u32 \<Rightarrow> u32 \<Rightarrow> u32 \<Rightarrow> u32 \<Rightarrow> (pmstate \<times> u32 \<times> int) option" where
  "addrspc_map st root vaddr paddr sz flags =
    (let vaddr_val = ALIGN_DOWN vaddr PAGESZ;
         paddr = ALIGN_DOWN paddr PAGESZ;
         sz = ALIGN_UP sz PAGESZ
     in map_option (\<lambda>(ws, res). (w_pm ws, w_root ws, res))
          (addrspc_map_recursive 0 flags RootEntry
             \<lparr>w_pm = st, w_root = root, w_offsets = pm_offsets vaddr_val, w_paddr = paddr, w_size = sz\<rparr>))"

definition addrspc_init :: "pmstate \<Rightarrow> u32 \<Rightarrow> (pmstate \<times> u32 \<times> int) option" where
  "addrspc_init st root = addrspc_map st root KMAP_MIN KMAP_MIN (KMAP_MAX - KMAP_MIN) 0"

section \<open>Unmapping\<close>

function addrspc_unmap_recursive :: "nat \<Rightarrow> pme_ptr \<Rightarrow> walkst \<Rightarrow> (walkst \<times> int) option" where
  "addrspc_unmap_recursive lvl entry ws =
    (if lvl + 1 \<ge> lvlct X86_PAGING_32 then None
     else if \<not> pme_ispresent (read_pme entry ws) lvl
     then Some (ws\<lparr>w_size := w_size ws - min (pme_coversz lvl) (w_size ws)\<rparr>, 0)
     else if is_page (lvls X86_PAGING_32 ! (lvl + 1))
     then (let ws = write_pme entry (read_pme entry ws AND NOT PME_PRESENT) ws
           in Some (ws\<lparr>w_size := w_size ws - PAGESZ\<rparr>, 0))
     else case physpage_find (pme_paddr (read_pme entry ws) lvl) of
            None \<Rightarrow> Some (ws, err ENOMEM)
          | Some tbl_pg \<Rightarrow>
              (let (tbl, st) = physpage_access tbl_pg (w_pm ws);
                   ws = ws\<lparr>w_pm := st\<rparr>;
                   child_lvl = lvl + 1;
                   offset_max = 2 ^ idx_bits (lvls X86_PAGING_32 ! child_lvl)
               in if tbl = 0 then Some (ws, err ENOMEM)
                  else map_option
                    (\<lambda>(ws, res).
                       (let tbl_empty = (res = 0 \<and> (\<forall>i\<in>{0..<offset_max}. \<not> pme_ispresent (tables (w_pm ws) tbl i) child_lvl));
                            ws = ws\<lparr>w_pm := physpage_close tbl_pg (w_pm ws)\<rparr>
                        in if tbl_empty
                           then let ws = write_pme entry (read_pme entry ws AND NOT PME_PRESENT) ws
                                in (ws\<lparr>w_pm := physpage_free tbl_pg (w_pm ws)\<rparr>, res)
                           else (ws, res)))
                    (table_loop offset_max (\<lambda>e ws. addrspc_unmap_recursive child_lvl e ws) tbl child_lvl offset_max ws)))"
  by pat_completeness auto
termination
  by (relation "measure (\<lambda>(lvl, entry, ws). lvlct X86_PAGING_32 - lvl)") auto

declare addrspc_unmap_recursive.simps [simp del]

definition addrspc_unmap :: "pmstate \<Rightarrow> u32 \<Rightarrow> u32 \<Rightarrow> u32 \<Rightarrow> (pmstate \<times> u32 \<times> int) option" where
  "addrspc_unmap st root vaddr sz =
    (let vaddr_val = ALIGN_DOWN vaddr PAGESZ;
         sz = (if sz < 0xffffffff - PAGESZ then ALIGN_UP sz PAGESZ else sz)
     in map_option (\<lambda>(ws, res). (w_pm ws, w_root ws, res))
          (addrspc_unmap_recursive 0 RootEntry
             \<lparr>w_pm = st, w_root = root, w_offsets = pm_offsets vaddr_val, w_paddr = 0, w_size = sz\<rparr>))"

definition addrspc_cleanup :: "pmstate \<Rightarrow> u32 \<Rightarrow> (pmstate \<times> u32 \<times> int) option" where
  "addrspc_cleanup st root = addrspc_unmap st root 0 0xffffffff"

section \<open>Basic facts\<close>

lemmas pm_consts = PAGESZ_def PM_AREA_def PHYSPAGES_MAX_def PME_PRESENT_def X86_PAGING_32_def

lemma pme_paddr_lvl [simp]: "pme_paddr e (Suc l) = pme_paddr e 0"
  by (simp add: pme_paddr_def)

lemma map_rec_page:
  "addrspc_map_recursive 2 flags entry ws =
    (let ws = write_pme entry (pme_pack (w_paddr ws) (flags OR PME_PRESENT) 2) ws
     in Some (ws\<lparr>w_paddr := w_paddr ws + PAGESZ, w_size := w_size ws - PAGESZ\<rparr>, 0))"
  by (subst addrspc_map_recursive.simps) (simp add: X86_PAGING_32_def)

lemma map_rec_tbl:
  assumes "lvl < 2"
  shows "addrspc_map_recursive lvl flags entry ws =
    (case open_table lvl entry flags ws of
       None \<Rightarrow> Some (ws, err ENOMEM)
     | Some (tbl_pg, tbl, ws) \<Rightarrow>
         map_option (\<lambda>(ws, res). (ws\<lparr>w_pm := physpage_close tbl_pg (w_pm ws)\<rparr>, res))
           (table_loop 1024 (addrspc_map_recursive (Suc lvl) flags) tbl (Suc lvl) 1024 ws))"
  using assms
  by (subst addrspc_map_recursive.simps) (auto simp: X86_PAGING_32_def less_2_cases_iff Let_def split: option.splits)

text \<open>An address that is a multiple of the page size and flags below it do not share bits.\<close>

definition page_addr :: "u32 \<Rightarrow> bool" where "page_addr a \<longleftrightarrow> a AND 0xfff = 0"
definition low_flags :: "u32 \<Rightarrow> bool" where "low_flags f \<longleftrightarrow> f AND NOT 0xfff = 0"

lemma low_flags_or: "low_flags f \<Longrightarrow> low_flags g \<Longrightarrow> low_flags (f OR g)"
  by (simp add: low_flags_def bit.conj_disj_distrib2)

lemma low_flags_present [simp]: "low_flags PME_PRESENT"
  by (simp add: low_flags_def PME_PRESENT_def)

lemma pme_paddr_or: "low_flags f \<Longrightarrow> pme_paddr (e OR f) l = pme_paddr e l"
  by (simp add: low_flags_def pme_paddr_def bit.conj_disj_distrib2)

lemma pme_paddr_page: "page_addr a \<Longrightarrow> pme_paddr a l = a"
proof -
  assume "page_addr a"
  then have "a AND 0xfff = 0" by (simp add: page_addr_def)
  moreover have "a = (a AND 0xfff) OR (a AND NOT 0xfff)"
    by (metis bit.conj_disj_distrib bit.disj_cancel_right and.right_neutral)
  ultimately show ?thesis by (simp add: pme_paddr_def)
qed

lemma low_flags_root: "low_flags f \<Longrightarrow> low_flags (f AND 0x18)"
proof -
  assume "low_flags f"
  then have "(f AND NOT 0xfff) AND 0x18 = 0" by (simp add: low_flags_def)
  then show ?thesis by (simp add: low_flags_def and.assoc and.commute)
qed

lemma pme_pack_paddr:
  assumes "page_addr a" "low_flags f"
  shows "pme_paddr (pme_pack a f l) k = a"
  using assms low_flags_root [of f] by (auto simp: pme_pack_def pme_set_flags_def pme_paddr_or pme_paddr_page)

lemma pme_set_flags_paddr: "low_flags f \<Longrightarrow> pme_paddr (pme_set_flags e f l) k = pme_paddr e k"
  using low_flags_root [of f] by (auto simp: pme_set_flags_def pme_paddr_or)

lemma pme_pack_present: "0 < l \<Longrightarrow> pme_ispresent (pme_pack a (f OR PME_PRESENT) l) l"
  by (simp add: pme_pack_def pme_set_flags_def pme_ispresent_def PME_PRESENT_def bit.conj_disj_distrib2)

lemma or_zero_iff: "(a :: u32) OR b = 0 \<longleftrightarrow> a = 0 \<and> b = 0"
  by (auto simp: bit_eq_iff bit_or_iff)

lemma pme_set_flags_present: "pme_ispresent e l \<Longrightarrow> pme_ispresent (pme_set_flags e f l) l"
  by (auto simp: pme_set_flags_def pme_ispresent_def bit.conj_disj_distrib2 or_zero_iff)

section \<open>Reference translation and well-formed spaces\<close>

text \<open>The processor's walk for a page number: the page entry, if one is present.\<close>

definition walk :: "pmstate \<Rightarrow> u32 \<Rightarrow> nat \<Rightarrow> u32 option" where
  "walk st root q =
    (if root = 0 then None
     else let e1 = tables st (pme_paddr root 0) (q div 1024)
          in if \<not> pme_ispresent e1 1 then None
             else let e2 = tables st (pme_paddr e1 1) (q mod 1024)
                  in if pme_ispresent e2 2 then Some e2 else None)"

definition pg_base :: "nat \<Rightarrow> u32" where
  "pg_base i = PM_AREA + of_nat i * PAGESZ"

text \<open>Every page of the array is free or has its own address.\<close>

definition wf_pm :: "pmstate \<Rightarrow> bool" where
  "wf_pm st \<longleftrightarrow> length (physpages st) = PHYSPAGES_MAX \<and>
    (\<forall>i<PHYSPAGES_MAX. pp_paddr (physpages st ! i) = 0 \<or> pp_paddr (physpages st ! i) = pg_base i)"

definition allocated :: "pmstate \<Rightarrow> u32 set" where
  "allocated st = {pg_base i | i. i < PHYSPAGES_MAX \<and> pp_paddr (physpages st ! i) \<noteq> 0}"

text \<open>The tables of an address space: the directory and the tables of its present entries.\<close>

definition space_tables :: "pmstate \<Rightarrow> u32 \<Rightarrow> u32 set" where
  "space_tables st root =
    (if root = 0 then {}
     else insert (pme_paddr root 0)
            {pme_paddr (tables st (pme_paddr root 0) j) 1 | j.
               j < 1024 \<and> pme_ispresent (tables st (pme_paddr root 0) j) 1})"

text \<open>They are allocated, and no two entries share one.\<close>

definition wf_dir :: "pmstate \<Rightarrow> u32 \<Rightarrow> bool" where
  "wf_dir st pd \<longleftrightarrow>
    (\<forall>j<1024. pme_ispresent (tables st pd j) 1 \<longrightarrow>
       pme_paddr (tables st pd j) 1 \<in> allocated st \<and> pme_paddr (tables st pd j) 1 \<noteq> pd \<and>
       (\<forall>k<1024. k \<noteq> j \<longrightarrow> pme_ispresent (tables st pd k) 1 \<longrightarrow>
          pme_paddr (tables st pd k) 1 \<noteq> pme_paddr (tables st pd j) 1))"

definition wf_space :: "pmstate \<Rightarrow> u32 \<Rightarrow> bool" where
  "wf_space st root \<longleftrightarrow> (root \<noteq> 0 \<longrightarrow> pme_paddr root 0 \<in> allocated st \<and> wf_dir st (pme_paddr root 0))"

lemma lt5_cases: "(i :: nat) < 5 \<longleftrightarrow> i = 0 \<or> i = 1 \<or> i = 2 \<or> i = 3 \<or> i = 4"
  by auto

lemma pg_base_simps:
  "pg_base 0 = 0x100000" "pg_base 1 = 0x101000" "pg_base 2 = 0x102000" "pg_base 3 = 0x103000" "pg_base 4 = 0x104000"
  by (simp_all add: pg_base_def PM_AREA_def PAGESZ_def)

lemma pg_base_props:
  assumes "i < PHYSPAGES_MAX"
  shows "page_addr (pg_base i)" "pg_base i \<noteq> 0" "physpage_find (pg_base i) = Some i"
    "k < PHYSPAGES_MAX \<Longrightarrow> pg_base k = pg_base i \<longleftrightarrow> k = i"
  using assms unfolding PHYSPAGES_MAX_def lt5_cases
  by (auto simp: pg_base_simps [unfolded One_nat_def] page_addr_def physpage_find_def PHYSPAGES_MAX_def PM_AREA_def PAGESZ_def)

lemma physpage_alloc_from_Some:
  "physpage_alloc_from k i pages = Some (j, pages') \<Longrightarrow>
   i \<le> j \<and> j < i + k \<and> pp_paddr (pages ! j) = 0 \<and> pages' = pages[j := (pages ! j)\<lparr>pp_paddr := pg_base j\<rparr>]"
  by (induction k i pages rule: physpage_alloc_from.induct) (auto simp: pg_base_def split: if_splits)

lemma physpage_alloc_from_None:
  "physpage_alloc_from k i pages = None \<longleftrightarrow> (\<forall>j\<in>{i..<i + k}. pp_paddr (pages ! j) \<noteq> 0)"
proof (induction k i pages rule: physpage_alloc_from.induct)
  case (2 k i pages)
  have s: "{i..<i + Suc k} = insert i {Suc i..<Suc i + k}" by auto
  show ?case using 2 unfolding s by (cases "pp_paddr (pages ! i) = 0") auto
qed auto

text \<open>Opening and closing a page only changes its \<open>vaddr\<close>, which nothing below depends on.\<close>

lemma upd_vaddr [simp]:
  "tables (upd_page i f st) = tables st"
  "length (physpages (upd_page i f st)) = length (physpages st)"
  by (simp_all add: upd_page_def)

definition same_alloc :: "pmstate \<Rightarrow> pmstate \<Rightarrow> bool" where
  "same_alloc st st' \<longleftrightarrow> length (physpages st') = length (physpages st) \<and>
    (\<forall>i. i < length (physpages st) \<longrightarrow> pp_paddr (physpages st' ! i) = pp_paddr (physpages st ! i))"

lemma same_alloc_close: "same_alloc st (physpage_close i st)" "same_alloc st (snd (physpage_access i st))"
  by (auto simp: same_alloc_def physpage_close_def physpage_access_def upd_page_def nth_list_update_if Let_def)

lemma same_alloc_wf:
  assumes "same_alloc st st'"
  shows "wf_pm st' \<longleftrightarrow> wf_pm st" "length (physpages st) = PHYSPAGES_MAX \<Longrightarrow> allocated st' = allocated st"
  using assms by (auto simp: same_alloc_def wf_pm_def allocated_def)

section \<open>Filling one page table\<close>

definition fill_tbl :: "nat \<Rightarrow> nat \<Rightarrow> u32 \<Rightarrow> u32 \<Rightarrow> (nat \<Rightarrow> u32) \<Rightarrow> nat \<Rightarrow> u32" where
  "fill_tbl o2 c pa flags f =
    (\<lambda>i. if o2 \<le> i \<and> i < o2 + c then pme_pack (pa + of_nat (i - o2) * PAGESZ) (flags OR PME_PRESENT) 2 else f i)"

lemma fill_tbl_0 [simp]: "fill_tbl o2 0 pa flags f = f"
  by (rule ext) (auto simp: fill_tbl_def)

lemma fill_tbl_Suc:
  "fill_tbl (Suc o2) c (pa + PAGESZ) flags (f(o2 := pme_pack pa (flags OR PME_PRESENT) 2)) = fill_tbl o2 (Suc c) pa flags f"
proof
  fix i
  have "pa + PAGESZ + of_nat (i - Suc o2) * PAGESZ = pa + of_nat (i - o2) * PAGESZ" if "o2 < i"
  proof -
    have "i - o2 = Suc (i - Suc o2)" using that by simp
    then show ?thesis by (simp add: algebra_simps)
  qed
  then show "fill_tbl (Suc o2) c (pa + PAGESZ) flags (f(o2 := pme_pack pa (flags OR PME_PRESENT) 2)) i = fill_tbl o2 (Suc c) pa flags f i"
    by (auto simp: fill_tbl_def add.assoc simp del: of_nat_diff)
qed

lemma set_tbl_simps [simp]:
  "tables (set_tbl t f st) = (tables st)(t := f)" "physpages (set_tbl t f st) = physpages st"
  "set_tbl t f (set_tbl t g st) = set_tbl t f st" "set_tbl t (tables st t) st = st"
  by (simp_all add: set_tbl_def)

lemma size_nonzero: "0 < n \<Longrightarrow> n < 2 ^ 20 \<Longrightarrow> of_nat n * PAGESZ \<noteq> 0"
proof
  assume n: "0 < n" "n < 2 ^ 20" and "of_nat n * PAGESZ = 0"
  then have "(of_nat (n * 4096) :: u32) = 0" by (simp add: PAGESZ_def)
  moreover have "unat (of_nat (n * 4096) :: u32) = n * 4096"
    using n by (simp add: unat_of_nat take_bit_nat_eq_self del: of_nat_mult)
  ultimately show False using n by simp
qed

lemma size_dec: "0 < n \<Longrightarrow> of_nat n * PAGESZ - PAGESZ = of_nat (n - 1) * PAGESZ"
  by (cases n) (simp_all add: algebra_simps)

definition filled :: "u32 \<Rightarrow> nat \<Rightarrow> nat \<Rightarrow> nat \<Rightarrow> u32 \<Rightarrow> walkst \<Rightarrow> walkst" where
  "filled pt o2 n c flags ws =
    ws\<lparr>w_pm := set_tbl pt (fill_tbl o2 c (w_paddr ws) flags (tables (w_pm ws) pt)) (w_pm ws),
       w_offsets := (w_offsets ws)[2 := if o2 + c = 1024 then 0 else o2 + c],
       w_paddr := w_paddr ws + of_nat c * PAGESZ, w_size := of_nat (n - c) * PAGESZ\<rparr>"

lemma page_loop:
  assumes "length (w_offsets ws) = 4" "w_offsets ws ! 2 = o2" "o2 < 1024" "w_size ws = of_nat n * PAGESZ" "n < 2 ^ 20"
    "1024 - o2 \<le> fuel"
  shows "table_loop fuel (addrspc_map_recursive 2 flags) pt 2 1024 ws = Some (filled pt o2 n (min n (1024 - o2)) flags ws, 0)"
  using assms
proof (induction fuel arbitrary: ws o2 n)
  case 0
  then show ?case by simp
next
  case (Suc fuel)
  show ?case
  proof (cases "n = 0")
    case True
    have "(w_offsets ws)[2 := o2] = w_offsets ws" using Suc.prems(2) list_update_id [of "w_offsets ws" 2] by simp
    then have "filled pt o2 n (min n (1024 - o2)) flags ws = ws"
      using True Suc.prems by (simp add: filled_def)
    then show ?thesis using True Suc.prems(4) by simp
  next
    case False
    define ws1 where "ws1 = ws\<lparr>w_pm := set_tbl pt ((tables (w_pm ws) pt)(o2 := pme_pack (w_paddr ws) (flags OR PME_PRESENT) 2)) (w_pm ws),
      w_paddr := w_paddr ws + PAGESZ, w_size := of_nat (n - 1) * PAGESZ\<rparr>"
    have nz: "w_size ws \<noteq> 0" using size_nonzero [of n] False Suc.prems by simp
    have b: "addrspc_map_recursive 2 flags (TblEntry pt (w_offsets ws ! 2)) ws = Some (ws1, 0)"
      using Suc.prems(2,4) False size_dec [of n] by (simp add: map_rec_page ws1_def)
    have o1: "w_offsets ws1 ! 2 = o2" "length (w_offsets ws1) = 4" using Suc.prems by (simp_all add: ws1_def)
    have fill: "fill_tbl o2 (Suc c) (w_paddr ws) flags (tables (w_pm ws) pt) =
        fill_tbl (Suc o2) c (w_paddr ws1) flags (tables (w_pm ws1) pt)" for c
      by (simp add: ws1_def fill_tbl_Suc)
    show ?thesis
    proof (cases "o2 + 1 = 1024")
      case True
      then have "min n (1024 - o2) = Suc 0" using False by simp
      then show ?thesis using nz b o1 True fill [of 0] by (simp add: filled_def) (simp add: ws1_def)
    next
      case o2: False
      let ?ws2 = "ws1\<lparr>w_offsets := (w_offsets ws1)[2 := Suc o2]\<rparr>"
      have IH: "table_loop fuel (addrspc_map_recursive 2 flags) pt 2 1024 ?ws2 =
          Some (filled pt (Suc o2) (n - 1) (min (n - 1) (1024 - Suc o2)) flags ?ws2, 0)"
        by (rule Suc.IH) (use Suc.prems o1 o2 in \<open>auto simp: ws1_def\<close>)
      have c: "min n (1024 - o2) = Suc (min (n - 1) (1024 - Suc o2))" using False o2 Suc.prems(3) by auto
      have "filled pt (Suc o2) (n - 1) (min (n - 1) (1024 - Suc o2)) flags ?ws2 = filled pt o2 n (min n (1024 - o2)) flags ws"
        unfolding c filled_def fill by (simp add: ws1_def algebra_simps)
      then show ?thesis using nz b o1 o2 IH by simp
    qed
  qed
qed

section \<open>Growing a directory\<close>

definition pview :: "pmstate \<Rightarrow> u32 \<Rightarrow> nat \<Rightarrow> nat \<Rightarrow> u32 option" where
  "pview st pd j i =
    (if pme_ispresent (tables st pd j) 1
     then (let e2 = tables st (pme_paddr (tables st pd j) 1) i in if pme_ispresent e2 2 then Some e2 else None)
     else None)"

lemma walk_pview: "walk st root q = (if root = 0 then None else pview st (pme_paddr root 0) (q div 1024) (q mod 1024))"
  by (simp add: walk_def pview_def Let_def)

definition dir_tables :: "pmstate \<Rightarrow> u32 \<Rightarrow> u32 set" where
  "dir_tables st pd =
    insert pd {pme_paddr (tables st pd j) 1 | j. j < 1024 \<and> pme_ispresent (tables st pd j) 1}"

lemma dir_tablesI: "j < 1024 \<Longrightarrow> pme_ispresent (tables st pd j) 1 \<Longrightarrow> pme_paddr (tables st pd j) 1 \<in> dir_tables st pd"
  by (auto simp: dir_tables_def)

lemma space_tables_dir: "space_tables st root = (if root = 0 then {} else dir_tables st (pme_paddr root 0))"
  by (simp add: space_tables_def dir_tables_def)

definition dir_ok :: "pmstate \<Rightarrow> u32 \<Rightarrow> bool" where
  "dir_ok st pd \<longleftrightarrow> wf_pm st \<and> pd \<in> allocated st \<and> wf_dir st pd"

text \<open>
  What mapping into a directory may change: it stays well-formed, new tables come from free pages,
  and tables of others are untouched.
\<close>

definition grows :: "u32 \<Rightarrow> pmstate \<Rightarrow> pmstate \<Rightarrow> bool" where
  "grows pd st st' \<longleftrightarrow> dir_ok st' pd \<and> allocated st \<subseteq> allocated st' \<and>
    dir_tables st' pd \<subseteq> dir_tables st pd \<union> - allocated st \<and>
    (\<forall>t. t \<in> allocated st \<and> t \<notin> dir_tables st pd \<longrightarrow> tables st' t = tables st t)"

lemma grows_refl: "dir_ok st pd \<Longrightarrow> grows pd st st"
  by (auto simp: grows_def)

lemma growsD:
  assumes "grows pd st st'"
  shows "dir_ok st' pd" "t \<in> allocated st \<Longrightarrow> t \<in> allocated st'"
    "t \<in> dir_tables st' pd \<Longrightarrow> t \<in> allocated st \<Longrightarrow> t \<in> dir_tables st pd"
    "t \<in> allocated st \<Longrightarrow> t \<notin> dir_tables st pd \<Longrightarrow> tables st' t = tables st t"
  using assms by (auto simp: grows_def)

lemma growsI:
  assumes "dir_ok st' pd" "\<And>t. t \<in> allocated st \<Longrightarrow> t \<in> allocated st'"
    "\<And>t. t \<in> dir_tables st' pd \<Longrightarrow> t \<in> allocated st \<Longrightarrow> t \<in> dir_tables st pd"
    "\<And>t. t \<in> allocated st \<Longrightarrow> t \<notin> dir_tables st pd \<Longrightarrow> tables st' t = tables st t"
  shows "grows pd st st'"
  using assms by (auto simp: grows_def)

lemma grows_trans:
  assumes "grows pd st1 st2" "grows pd st2 st3"
  shows "grows pd st1 st3"
proof (rule growsI)
  fix t assume t: "t \<in> allocated st1" "t \<notin> dir_tables st1 pd"
  then have "t \<in> allocated st2" "t \<notin> dir_tables st2 pd" using growsD [OF assms(1)] by blast+
  then show "tables st3 t = tables st1 t" using growsD(4) [OF assms(2)] growsD(4) [OF assms(1) t] by simp
qed (use growsD [OF assms(1)] growsD [OF assms(2)] in blast)+

lemma allocatedE:
  assumes "t \<in> allocated st" "wf_pm st"
  obtains i where "i < PHYSPAGES_MAX" "t = pg_base i" "pp_paddr (physpages st ! i) = t" "physpage_find t = Some i"
  using assms pg_base_props(3) by (auto simp: allocated_def wf_pm_def)

text \<open>The table of a present entry is opened as it is.\<close>

lemma open_present:
  assumes "dir_ok st pd" "j < 1024" "pme_ispresent (tables st pd j) 1" "low_flags flags" "w_pm ws = st"
  obtains pg st' where
    "open_table 1 (TblEntry pd j) flags ws = Some (pg, pme_paddr (tables st pd j) 1, ws\<lparr>w_pm := st'\<rparr>)"
    "same_alloc st st'" "pg < PHYSPAGES_MAX"
    "tables st' = (tables st)(pd := (tables st pd)(j := pme_set_flags (tables st pd j) flags 1))"
proof -
  let ?pt = "pme_paddr (tables st pd j) 1"
  have "?pt \<in> allocated st" "wf_pm st" using assms by (auto simp: dir_ok_def wf_dir_def)
  then obtain pg where pg: "pg < PHYSPAGES_MAX" "pp_paddr (physpages st ! pg) = ?pt" "physpage_find ?pt = Some pg"
    by (metis allocatedE)
  define st1 where "st1 = snd (physpage_access pg st)"
  have t1: "tables st1 = tables st" by (simp add: st1_def physpage_access_def Let_def)
  have acc: "physpage_access pg st = (?pt, st1)" using pg(2) by (simp add: st1_def physpage_access_def Let_def)
  define st' where "st' = set_tbl pd ((tables st1 pd)(j := pme_set_flags (tables st1 pd j) flags 1)) st1"
  have "open_table 1 (TblEntry pd j) flags ws = Some (pg, ?pt, ws\<lparr>w_pm := st'\<rparr>)"
    using assms(3,5) pg(3) acc by (simp add: open_table_def st'_def)
  moreover have "same_alloc st st'" using same_alloc_close(2) [of st pg] by (simp add: st'_def same_alloc_def st1_def)
  ultimately show thesis using that pg(1) by (simp add: st'_def t1)
qed

text \<open>A missing table is a free page, cleared.\<close>

lemma open_absent:
  assumes "wf_pm st" "\<not> pme_ispresent (read_pme entry ws) lvl" "w_pm ws = st" "open_table lvl entry flags ws = Some (pg, tbl, ws')"
  shows "pg < PHYSPAGES_MAX" "pp_paddr (physpages st ! pg) = 0" "tbl = pg_base pg"
    "\<exists>st1. same_alloc (st\<lparr>physpages := (physpages st)[pg := (physpages st ! pg)\<lparr>pp_paddr := pg_base pg\<rparr>]\<rparr>) st1 \<and>
       tables st1 = (tables st)(tbl := (\<lambda>i. 0)) \<and>
       ws' = write_pme entry (pme_pack tbl (flags OR PME_PRESENT) lvl) (ws\<lparr>w_pm := st1\<rparr>)"
proof -
  from assms(2,3,4) obtain st0 where al: "physpage_alloc st = Some (pg, st0)"
    by (auto simp: open_table_def Let_def split: option.splits prod.splits)
  then obtain pages where p: "physpage_alloc_from PHYSPAGES_MAX 0 (physpages st) = Some (pg, pages)" "st0 = st\<lparr>physpages := pages\<rparr>"
    by (auto simp: physpage_alloc_def)
  from physpage_alloc_from_Some [OF p(1)]
  have pg: "pg < PHYSPAGES_MAX" "pp_paddr (physpages st ! pg) = 0" and
    pages: "pages = (physpages st)[pg := (physpages st ! pg)\<lparr>pp_paddr := pg_base pg\<rparr>]" by auto
  show "pg < PHYSPAGES_MAX" "pp_paddr (physpages st ! pg) = 0" by fact+
  define st1 where "st1 = snd (physpage_access pg st0)"
  have len: "length (physpages st) = PHYSPAGES_MAX" using assms(1) by (simp add: wf_pm_def)
  then have base: "pp_paddr (physpages st0 ! pg) = pg_base pg" using pg(1) by (simp add: p(2) pages)
  then have acc: "physpage_access pg st0 = (pg_base pg, st1)" by (simp add: st1_def physpage_access_def Let_def)
  have b1: "pp_paddr (physpages st1 ! pg) = pg_base pg"
    using base len pg(1) by (simp add: st1_def physpage_access_def upd_page_def Let_def p(2) pages)
  from assms(2,3,4) al acc b1
  have r: "tbl = pg_base pg" "ws' = write_pme entry (pme_pack tbl (flags OR PME_PRESENT) lvl) (ws\<lparr>w_pm := set_tbl tbl (\<lambda>i. 0) st1\<rparr>)"
    by (auto simp: open_table_def Let_def)
  show "tbl = pg_base pg" by fact
  have "same_alloc st0 (set_tbl tbl (\<lambda>i. 0) st1)"
    using same_alloc_close(2) [of st0 pg] by (simp add: st1_def same_alloc_def)
  moreover have "tables st1 = tables st" by (simp add: st1_def physpage_access_def Let_def p(2))
  ultimately show "\<exists>st1. same_alloc (st\<lparr>physpages := (physpages st)[pg := (physpages st ! pg)\<lparr>pp_paddr := pg_base pg\<rparr>]\<rparr>) st1 \<and>
       tables st1 = (tables st)(tbl := (\<lambda>i. 0)) \<and>
       ws' = write_pme entry (pme_pack tbl (flags OR PME_PRESENT) lvl) (ws\<lparr>w_pm := st1\<rparr>)"
    using r(2) by (intro exI [of _ "set_tbl tbl (\<lambda>i. 0) st1"]) (simp add: p(2) pages)
qed

lemma allocated_image: "allocated st = pg_base ` {i. i < PHYSPAGES_MAX \<and> pp_paddr (physpages st ! i) \<noteq> 0}"
  by (auto simp: allocated_def)

lemma allocated_alloc:
  assumes "wf_pm st" "pg < PHYSPAGES_MAX" "pp_paddr (physpages st ! pg) = 0"
    "same_alloc (st\<lparr>physpages := (physpages st)[pg := (physpages st ! pg)\<lparr>pp_paddr := pg_base pg\<rparr>]\<rparr>) st1"
  shows "wf_pm st1" "allocated st1 = insert (pg_base pg) (allocated st)" "pg_base pg \<notin> allocated st"
proof -
  let ?st0 = "st\<lparr>physpages := (physpages st)[pg := (physpages st ! pg)\<lparr>pp_paddr := pg_base pg\<rparr>]\<rparr>"
  have len: "length (physpages st) = PHYSPAGES_MAX" using assms(1) by (simp add: wf_pm_def)
  have a: "pp_paddr (physpages ?st0 ! i) = (if i = pg then pg_base pg else pp_paddr (physpages st ! i))" if "i < PHYSPAGES_MAX" for i
    using that len assms(2) by (simp add: nth_list_update_if)
  have "wf_pm ?st0" using assms(1) a by (auto simp: wf_pm_def)
  then show "wf_pm st1" using same_alloc_wf(1) [OF assms(4)] by simp
  have "{i. i < PHYSPAGES_MAX \<and> pp_paddr (physpages ?st0 ! i) \<noteq> 0} =
      insert pg {i. i < PHYSPAGES_MAX \<and> pp_paddr (physpages st ! i) \<noteq> 0}"
    using a assms(2) pg_base_props(2) [OF assms(2)] by (auto split: if_splits)
  then have "allocated ?st0 = insert (pg_base pg) (allocated st)"
    by (simp only: allocated_image image_insert)
  then show "allocated st1 = insert (pg_base pg) (allocated st)"
    using same_alloc_wf(2) [OF assms(4)] len by simp
  show "pg_base pg \<notin> allocated st"
    using assms(2,3) pg_base_props(4) by (auto simp: allocated_def)
qed

lemma dir_okD:
  assumes "dir_ok st pd" "j < 1024" "pme_ispresent (tables st pd j) 1"
  shows "pme_paddr (tables st pd j) 1 \<in> allocated st" "pme_paddr (tables st pd j) 1 \<noteq> pd"
    "k < 1024 \<Longrightarrow> pme_ispresent (tables st pd k) 1 \<Longrightarrow> pme_paddr (tables st pd k) 1 = pme_paddr (tables st pd j) 1 \<Longrightarrow> k = j"
  using assms unfolding dir_ok_def wf_dir_def by blast+

lemma open_dir:
  assumes "dir_ok st pd" "j < 1024" "low_flags flags" "w_pm ws = st"
    "open_table 1 (TblEntry pd j) flags ws = Some (pg, pt, ws')"
  shows "\<exists>st'. ws' = ws\<lparr>w_pm := st'\<rparr> \<and> grows pd st st' \<and> pme_ispresent (tables st' pd j) 1 \<and>
    pme_paddr (tables st' pd j) 1 = pt \<and> (\<forall>a b. a < 1024 \<longrightarrow> pview st' pd a b = pview st pd a b)"
proof (cases "pme_ispresent (tables st pd j) 1")
  case True
  obtain pg' st' where st': "open_table 1 (TblEntry pd j) flags ws = Some (pg', pme_paddr (tables st pd j) 1, ws\<lparr>w_pm := st'\<rparr>)"
    "same_alloc st st'" "tables st' = (tables st)(pd := (tables st pd)(j := pme_set_flags (tables st pd j) flags 1))"
    by (rule open_present [OF assms(1,2) True assms(3,4)])
  have e: "pme_ispresent (tables st' pd a) 1 = pme_ispresent (tables st pd a) 1"
    "pme_paddr (tables st' pd a) 1 = pme_paddr (tables st pd a) 1" for a
    using True pme_set_flags_present [OF True] pme_set_flags_paddr [OF assms(3)] by (auto simp: st'(3))
  have len: "length (physpages st) = PHYSPAGES_MAX" using assms(1) by (simp add: dir_ok_def wf_pm_def)
  note al = same_alloc_wf [OF st'(2)]
  have ok: "dir_ok st' pd" using assms(1) al len unfolding dir_ok_def wf_dir_def e by auto
  have dt: "dir_tables st' pd = dir_tables st pd" unfolding dir_tables_def e ..
  have "pview st' pd a b = pview st pd a b" if "a < 1024" for a b
    using dir_okD(2) [OF assms(1) that] unfolding pview_def e by (auto simp: st'(3))
  moreover have "grows pd st st'"
    by (rule growsI) (use ok dt al len in \<open>auto simp: st'(3) dir_tables_def\<close>)
  ultimately show ?thesis using st'(1) assms(5) True e by auto
next
  case False
  have wf: "wf_pm st" and pd: "pd \<in> allocated st" using assms(1) by (auto simp: dir_ok_def)
  have ab: "\<not> pme_ispresent (read_pme (TblEntry pd j) ws) 1" using False assms(4) by simp
  note oa = open_absent [OF wf ab assms(4,5)]
  then obtain st1 where st1: "same_alloc (st\<lparr>physpages := (physpages st)[pg := (physpages st ! pg)\<lparr>pp_paddr := pg_base pg\<rparr>]\<rparr>) st1"
    "tables st1 = (tables st)(pt := (\<lambda>i. 0))"
    "ws' = write_pme (TblEntry pd j) (pme_pack pt (flags OR PME_PRESENT) 1) (ws\<lparr>w_pm := st1\<rparr>)" by blast
  note al = allocated_alloc [OF wf oa(1,2) st1(1), folded oa(3)]
  define st' where "st' = set_tbl pd ((tables st1 pd)(j := pme_pack pt (flags OR PME_PRESENT) 1)) st1"
  have ws': "ws' = ws\<lparr>w_pm := st'\<rparr>" using st1(3) by (simp add: st'_def)
  have ptd: "pt \<noteq> pd" using al(3) pd by auto
  have tb: "tables st' = (tables st)(pt := (\<lambda>i. 0), pd := (tables st pd)(j := pme_pack pt (flags OR PME_PRESENT) 1))"
    using ptd by (simp add: st'_def st1(2))
  have alst': "wf_pm st'" "allocated st' = insert pt (allocated st)"
    using al(1,2) by (auto simp: st'_def wf_pm_def allocated_def)
  have ej: "pme_ispresent (tables st' pd j) 1" "pme_paddr (tables st' pd j) 1 = pt"
    using pme_pack_present [of 1 pt flags] pme_pack_paddr [OF pg_base_props(1) [OF oa(1)] low_flags_or [OF assms(3) low_flags_present], of 1 1]
    by (auto simp: tb oa(3))
  have ea: "tables st' pd a = tables st pd a" if "a \<noteq> j" for a using that by (simp add: tb)
  have old: "pme_paddr (tables st pd a) 1 \<noteq> pt" if "a < 1024" "pme_ispresent (tables st pd a) 1" for a
    using dir_okD(1) [OF assms(1) that] al(3) by auto
  have "wf_dir st' pd"
    unfolding wf_dir_def
  proof (intro allI impI conjI)
    fix a assume a: "a < 1024" "pme_ispresent (tables st' pd a) 1"
    show "pme_paddr (tables st' pd a) 1 \<in> allocated st'" "pme_paddr (tables st' pd a) 1 \<noteq> pd"
      using a ej ptd dir_okD(1,2) [OF assms(1), of a] by (cases "a = j"; simp add: ea alst'(2))+
    fix k assume k: "k < 1024" "k \<noteq> a" "pme_ispresent (tables st' pd k) 1"
    show "pme_paddr (tables st' pd k) 1 \<noteq> pme_paddr (tables st' pd a) 1"
      using a k ej old [of a] old [of k] dir_okD(3) [OF assms(1), of a k] by (cases "a = j"; cases "k = j") (auto simp: ea)
  qed
  then have ok: "dir_ok st' pd" using alst' pd by (simp add: dir_ok_def)
  have dt: "dir_tables st' pd \<subseteq> insert pt (dir_tables st pd)"
  proof
    fix t assume "t \<in> dir_tables st' pd"
    then consider "t = pd" | a where "a < 1024" "pme_ispresent (tables st' pd a) 1" "t = pme_paddr (tables st' pd a) 1"
      by (auto simp: dir_tables_def)
    then show "t \<in> insert pt (dir_tables st pd)"
    proof cases
      case (2 a)
      then show ?thesis using ej(2) ea [of a] dir_tablesI [of a st pd] by (cases "a = j") simp_all
    qed (simp add: dir_tables_def)
  qed
  have pdt: "pd \<in> dir_tables st pd" by (simp add: dir_tables_def)
  have "grows pd st st'"
  proof (rule growsI [OF ok])
    fix t assume t: "t \<in> allocated st"
    then show "t \<in> allocated st'" by (simp add: alst'(2))
    show "t \<in> dir_tables st' pd \<Longrightarrow> t \<in> dir_tables st pd" using dt al(3) t by blast
    assume "t \<notin> dir_tables st pd"
    then have "t \<noteq> pd" "t \<noteq> pt" using pdt t al(3) by blast+
    then show "tables st' t = tables st t" by (simp add: tb)
  qed
  moreover have "pview st' pd a b = pview st pd a b" if "a < 1024" for a b
  proof (cases "a = j")
    case True
    then show ?thesis using False ej ptd by (simp add: pview_def tb pme_ispresent_def)
  next
    case aj: False
    then show ?thesis using old [OF that] dir_okD(2) [OF assms(1) that] by (auto simp: pview_def ea tb Let_def)
  qed
  ultimately show ?thesis using ws' ej by blast
qed

section \<open>Mapping pages in a directory\<close>

text \<open>The page entry that mapping page \<open>k\<close> of a range creates.\<close>

definition new_entry :: "u32 \<Rightarrow> u32 \<Rightarrow> nat \<Rightarrow> u32" where
  "new_entry pa flags k = pme_pack (pa + of_nat k * PAGESZ) (flags OR PME_PRESENT) 2"

lemma fill_tbl_entry: "fill_tbl o2 c pa flags f b = (if o2 \<le> b \<and> b < o2 + c then new_entry pa flags (b - o2) else f b)"
  by (simp only: fill_tbl_def new_entry_def)

lemma fill_grows:
  assumes "dir_ok st pd" "j < 1024" "pme_ispresent (tables st pd j) 1" "pme_paddr (tables st pd j) 1 = pt"
  shows "grows pd st (set_tbl pt (fill_tbl o2 c pa flags (tables st pt)) st)"
    "a < 1024 \<Longrightarrow> pview (set_tbl pt (fill_tbl o2 c pa flags (tables st pt)) st) pd a b =
      (if a = j \<and> o2 \<le> b \<and> b < o2 + c then Some (new_entry pa flags (b - o2)) else pview st pd a b)"
proof -
  let ?st' = "set_tbl pt (fill_tbl o2 c pa flags (tables st pt)) st"
  have pt: "pt \<noteq> pd" "pt \<in> dir_tables st pd"
    using dir_okD(2) [OF assms(1-3)] assms(4) dir_tablesI [OF assms(2,3)] by simp_all
  have pd: "tables ?st' pd = tables st pd" using pt(1) by simp
  have al: "allocated ?st' = allocated st" "wf_pm ?st' = wf_pm st" by (simp_all add: allocated_def wf_pm_def)
  have ok: "dir_ok ?st' pd" using assms(1) unfolding dir_ok_def wf_dir_def pd al .
  have dt: "dir_tables ?st' pd = dir_tables st pd" unfolding dir_tables_def pd ..
  show "grows pd st ?st'"
  proof (rule growsI [OF ok])
    fix t assume "t \<notin> dir_tables st pd"
    then have "t \<noteq> pt" using pt(2) by blast
    then show "tables ?st' t = tables st t" by simp
  qed (simp_all only: al dt)
  show "pview ?st' pd a b = (if a = j \<and> o2 \<le> b \<and> b < o2 + c then Some (new_entry pa flags (b - o2)) else pview st pd a b)" if "a < 1024"
  proof (cases "a = j")
    case True
    have "pme_ispresent (new_entry pa flags k) 2" for k
      using pme_pack_present [of 2] by (simp add: new_entry_def)
    then show ?thesis
      unfolding pview_def pd using True assms(3,4) by (simp add: fill_tbl_entry Let_def)
  next
    case False
    have "pme_paddr (tables st pd a) 1 \<noteq> pt" if "pme_ispresent (tables st pd a) 1"
      using dir_okD(3) [OF assms(1-3) \<open>a < 1024\<close> that] assms(4) False by metis
    then show ?thesis unfolding pview_def pd using False by auto
  qed
qed

lemma close_grows:
  assumes "dir_ok st pd"
  shows "grows pd st (physpage_close i st)" "pview (physpage_close i st) pd a b = pview st pd a b"
proof -
  have t: "tables (physpage_close i st) = tables st" by (simp add: physpage_close_def)
  have len: "length (physpages st) = PHYSPAGES_MAX" using assms by (simp add: dir_ok_def wf_pm_def)
  note al = same_alloc_wf [OF same_alloc_close(1) [of st i]]
  have ok: "dir_ok (physpage_close i st) pd" using assms al(1) al(2) [OF len] by (simp add: dir_ok_def wf_dir_def t)
  show "grows pd st (physpage_close i st)"
    by (rule growsI [OF ok]) (simp_all add: al(2) [OF len] dir_tables_def t)
  show "pview (physpage_close i st) pd a b = pview st pd a b" by (simp add: pview_def t)
qed

text \<open>The recursion on one directory entry maps the pages up to the end of its table.\<close>

definition advanced :: "nat \<Rightarrow> nat \<Rightarrow> nat \<Rightarrow> pmstate \<Rightarrow> walkst \<Rightarrow> walkst" where
  "advanced o2 n c st' ws =
    ws\<lparr>w_pm := st', w_offsets := (w_offsets ws)[2 := if o2 + c = 1024 then 0 else o2 + c],
       w_paddr := w_paddr ws + of_nat c * PAGESZ, w_size := of_nat (n - c) * PAGESZ\<rparr>"

definition all_used :: "pmstate \<Rightarrow> bool" where
  "all_used st \<longleftrightarrow> (\<forall>i<PHYSPAGES_MAX. pp_paddr (physpages st ! i) \<noteq> 0)"

lemma all_used_close: "wf_pm st \<Longrightarrow> all_used (physpage_close i st) \<longleftrightarrow> all_used st"
  using same_alloc_close(1) [of st i] by (auto simp: all_used_def same_alloc_def wf_pm_def)

text \<open>A table cannot be opened only if it is missing and no page is free.\<close>

lemma open_table_None:
  assumes "open_table lvl entry flags ws = None"
    and "pme_ispresent (read_pme entry ws) lvl \<Longrightarrow> pme_paddr (read_pme entry ws) lvl \<in> allocated (w_pm ws)" "wf_pm (w_pm ws)"
  shows "all_used (w_pm ws)"
proof (cases "pme_ispresent (read_pme entry ws) lvl")
  case True
  then obtain i where "physpage_find (pme_paddr (read_pme entry ws) lvl) = Some i" using assms(2,3) by (metis allocatedE)
  then show ?thesis using assms(1) True by (simp add: open_table_def Let_def split: prod.splits)
next
  case False
  then have "physpage_alloc (w_pm ws) = None" using assms(1) by (simp add: open_table_def Let_def split: option.splits prod.splits)
  then show ?thesis by (auto simp: physpage_alloc_def physpage_alloc_from_None all_used_def)
qed

lemma map_level1:
  assumes "dir_ok (w_pm ws) pd" "o1 < 1024" "low_flags flags"
    and "length (w_offsets ws) = 4" "w_offsets ws ! 2 = o2" "o2 < 1024" "w_size ws = of_nat n * PAGESZ" "n < 2 ^ 20"
    and "c = min n (1024 - o2)"
  shows "addrspc_map_recursive 1 flags (TblEntry pd o1) ws = Some (ws, err ENOMEM) \<and> all_used (w_pm ws) \<or>
    (\<exists>st'. addrspc_map_recursive 1 flags (TblEntry pd o1) ws = Some (advanced o2 n c st' ws, 0) \<and> grows pd (w_pm ws) st' \<and>
      (\<forall>a b. a < 1024 \<longrightarrow> pview st' pd a b =
        (if a = o1 \<and> o2 \<le> b \<and> b < o2 + c then Some (new_entry (w_paddr ws) flags (b - o2)) else pview (w_pm ws) pd a b)))"
proof (cases "open_table 1 (TblEntry pd o1) flags ws")
  case None
  have "all_used (w_pm ws)"
    by (rule open_table_None [OF None]) (use assms(1,2) dir_okD(1) [OF assms(1,2)] in \<open>auto simp: dir_ok_def\<close>)
  then show ?thesis using None by (simp add: map_rec_tbl)
next
  case (Some r)
  obtain pg pt ws1 where r: "r = (pg, pt, ws1)" by (cases r)
  obtain st1 where st1: "ws1 = ws\<lparr>w_pm := st1\<rparr>" "grows pd (w_pm ws) st1" "pme_ispresent (tables st1 pd o1) 1"
    "pme_paddr (tables st1 pd o1) 1 = pt" "\<And>a b. a < 1024 \<Longrightarrow> pview st1 pd a b = pview (w_pm ws) pd a b"
    using open_dir [OF assms(1-3) refl Some [unfolded r]] by blast
  note ok1 = growsD(1) [OF st1(2)]
  define st2 where "st2 = set_tbl pt (fill_tbl o2 c (w_paddr ws) flags (tables st1 pt)) st1"
  note g2 = fill_grows [OF ok1 assms(2) st1(3,4), where ?o2.0 = o2 and c = c and pa = "w_paddr ws" and flags = flags, folded st2_def]
  note g3 = close_grows [OF growsD(1) [OF g2(1)], of pg]
  have "table_loop 1024 (addrspc_map_recursive 2 flags) pt 2 1024 ws1 = Some (filled pt o2 n c flags ws1, 0)"
    unfolding assms(9) by (rule page_loop) (use assms in \<open>auto simp: st1(1)\<close>)
  then have "addrspc_map_recursive 1 flags (TblEntry pd o1) ws = Some (advanced o2 n c (physpage_close pg st2) ws, 0)"
    by (simp add: map_rec_tbl Some [unfolded One_nat_def] r numeral_2_eq_2 filled_def advanced_def st1(1) st2_def)
  moreover have "grows pd (w_pm ws) (physpage_close pg st2)"
    using grows_trans [OF grows_trans [OF st1(2) g2(1)] g3(1)] .
  moreover have "pview (physpage_close pg st2) pd a b =
      (if a = o1 \<and> o2 \<le> b \<and> b < o2 + c then Some (new_entry (w_paddr ws) flags (b - o2)) else pview (w_pm ws) pd a b)" if "a < 1024" for a b
    using g2(2) [OF that] st1(5) [OF that] by (simp add: g3(2))
  ultimately show ?thesis by blast
qed

lemma page_range:
  assumes "o2 + c \<le> (1024 :: nat)"
  shows "(o1 * 1024 + o2 \<le> q \<and> q < o1 * 1024 + o2 + c) \<longleftrightarrow> (q div 1024 = o1 \<and> o2 \<le> q mod 1024 \<and> q mod 1024 < o2 + c)"
proof -
  have q: "q = (q div 1024) * 1024 + q mod 1024" by simp
  show ?thesis
  proof
    assume a: "o1 * 1024 + o2 \<le> q \<and> q < o1 * 1024 + o2 + c"
    then have "q div 1024 = o1" using assms by (intro div_nat_eqI) (auto simp: algebra_simps)
    then show "q div 1024 = o1 \<and> o2 \<le> q mod 1024 \<and> q mod 1024 < o2 + c" using a q by linarith
  next
    assume "q div 1024 = o1 \<and> o2 \<le> q mod 1024 \<and> q mod 1024 < o2 + c"
    then show "o1 * 1024 + o2 \<le> q \<and> q < o1 * 1024 + o2 + c" using q by linarith
  qed
qed

lemma new_entry_shift: "new_entry (pa + of_nat c * PAGESZ) flags k = new_entry pa flags (c + k)"
  by (simp add: new_entry_def algebra_simps)

definition dir_mapped :: "u32 \<Rightarrow> u32 \<Rightarrow> u32 \<Rightarrow> nat \<Rightarrow> nat \<Rightarrow> pmstate \<Rightarrow> pmstate \<Rightarrow> bool" where
  "dir_mapped pd pa flags p0 n st st' \<longleftrightarrow>
    (\<forall>q<2 ^ 20. pview st' pd (q div 1024) (q mod 1024) =
       (if p0 \<le> q \<and> q < p0 + n then Some (new_entry pa flags (q - p0)) else pview st pd (q div 1024) (q mod 1024)))"

lemma dir_mapped_0: "dir_mapped pd pa flags p0 0 st st"
  by (auto simp: dir_mapped_def)

lemma dir_mapped_trans:
  assumes "dir_mapped pd pa flags p0 c st1 st2" "dir_mapped pd (pa + of_nat c * PAGESZ) flags (p0 + c) k st2 st3"
  shows "dir_mapped pd pa flags p0 (c + k) st1 st3"
  unfolding dir_mapped_def
proof (intro allI impI)
  fix q :: nat assume q: "q < 2 ^ 20"
  show "pview st3 pd (q div 1024) (q mod 1024) =
      (if p0 \<le> q \<and> q < p0 + (c + k) then Some (new_entry pa flags (q - p0)) else pview st1 pd (q div 1024) (q mod 1024))"
  proof (cases "p0 + c \<le> q \<and> q < p0 + c + k")
    case True
    then have "c + (q - (p0 + c)) = q - p0" by simp
    then show ?thesis using assms(2) q True unfolding dir_mapped_def by (simp add: new_entry_shift)
  next
    case False
    then show ?thesis using assms q unfolding dir_mapped_def by auto
  qed
qed

lemma level1_mapped:
  assumes "\<forall>a b. a < 1024 \<longrightarrow> pview st' pd a b =
      (if a = o1 \<and> o2 \<le> b \<and> b < o2 + c then Some (new_entry pa flags (b - o2)) else pview st pd a b)"
    "o2 + c \<le> 1024"
  shows "dir_mapped pd pa flags (o1 * 1024 + o2) c st st'"
  unfolding dir_mapped_def
proof (intro allI impI)
  fix q :: nat assume "q < 2 ^ 20"
  then have d: "q div 1024 < 1024" by (simp add: less_mult_imp_div_less)
  have "q mod 1024 - o2 = q - (o1 * 1024 + o2)" if "q div 1024 = o1"
    using that mult_div_mod_eq [of 1024 q] by linarith
  then show "pview st' pd (q div 1024) (q mod 1024) =
      (if o1 * 1024 + o2 \<le> q \<and> q < o1 * 1024 + o2 + c then Some (new_entry pa flags (q - (o1 * 1024 + o2)))
       else pview st pd (q div 1024) (q mod 1024))"
    using assms(1) d unfolding page_range [OF assms(2)] by auto
qed

lemma table_loop_done: "0 < fuel \<Longrightarrow> w_size ws = 0 \<Longrightarrow> table_loop fuel body tbl l m ws = Some (ws, 0)"
  by (cases fuel) auto

lemma err_ENOMEM_neg: "err ENOMEM < 0"
  by (rule err_neg)

lemma dir_loop:
  assumes "dir_ok (w_pm ws) pd" "low_flags flags" "length (w_offsets ws) = 4" "w_offsets ws ! 1 = o1" "w_offsets ws ! 2 = o2"
    and "o1 < 1024" "o2 < 1024" "w_size ws = of_nat n * PAGESZ" "n < 2 ^ 20" "o1 * 1024 + o2 + n \<le> 2 ^ 20" "1024 - o1 \<le> fuel"
  shows "\<exists>ws' r. table_loop fuel (addrspc_map_recursive 1 flags) pd 1 1024 ws = Some (ws', r) \<and> w_root ws' = w_root ws \<and>
    grows pd (w_pm ws) (w_pm ws') \<and>
    (r = err ENOMEM \<and> all_used (w_pm ws') \<or> r = 0 \<and> dir_mapped pd (w_paddr ws) flags (o1 * 1024 + o2) n (w_pm ws) (w_pm ws'))"
  using assms
proof (induction fuel arbitrary: ws o1 o2 n)
  case 0
  then show ?case by simp
next
  case (Suc fuel)
  show ?case
  proof (cases "n = 0")
    case True
    then show ?thesis using Suc.prems(1,8) grows_refl dir_mapped_0 by simp
  next
    case False
    define c where "c = min n (1024 - o2)"
    have nz: "w_size ws \<noteq> 0" using size_nonzero [of n] False Suc.prems by simp
    have c: "o2 + c \<le> 1024" "c \<le> n" using Suc.prems(7) by (auto simp: c_def)
    from map_level1 [OF Suc.prems(1,6,2,3,5,7,8,9) c_def]
    show ?thesis
    proof (elim disjE exE conjE)
      assume all: "all_used (w_pm ws)" and "addrspc_map_recursive 1 flags (TblEntry pd o1) ws = Some (ws, err ENOMEM)"
      then have "table_loop (Suc fuel) (addrspc_map_recursive 1 flags) pd 1 1024 ws = Some (ws, err ENOMEM)"
        using nz Suc.prems(4) err_ENOMEM_neg by simp
      then show ?thesis using grows_refl [OF Suc.prems(1)] all by blast
    next
      fix st'
      assume b: "addrspc_map_recursive 1 flags (TblEntry pd o1) ws = Some (advanced o2 n c st' ws, 0)"
        and g: "grows pd (w_pm ws) st'"
        and v: "\<forall>a b. a < 1024 \<longrightarrow> pview st' pd a b =
          (if a = o1 \<and> o2 \<le> b \<and> b < o2 + c then Some (new_entry (w_paddr ws) flags (b - o2)) else pview (w_pm ws) pd a b)"
      note dm = level1_mapped [OF v c(1)]
      let ?ws1 = "advanced o2 n c st' ws"
      have o: "w_offsets ?ws1 ! 1 = o1" "length (w_offsets ?ws1) = 4" using Suc.prems by (simp_all add: advanced_def)
      show ?thesis
      proof (cases "o1 + 1 = 1024")
        case True
        then have "c = n" using Suc.prems(10) by (simp add: c_def)
        then show ?thesis
          using nz b o True Suc.prems(4) g dm by (simp add: advanced_def)
      next
        case o1: False
        let ?ws2 = "?ws1\<lparr>w_offsets := (w_offsets ?ws1)[1 := o1 + 1]\<rparr>"
        have lp: "table_loop (Suc fuel) (addrspc_map_recursive 1 flags) pd 1 1024 ws =
            table_loop fuel (addrspc_map_recursive 1 flags) pd 1 1024 ?ws2"
          using nz b o o1 Suc.prems(4) by simp
        have w2: "w_pm ?ws2 = st'" "w_root ?ws2 = w_root ws" "w_paddr ?ws2 = w_paddr ws + of_nat c * PAGESZ"
          "w_size ?ws2 = of_nat (n - c) * PAGESZ" by (simp_all add: advanced_def)
        show ?thesis
        proof (cases "c = n")
          case True
          have "table_loop fuel (addrspc_map_recursive 1 flags) pd 1 1024 ?ws2 = Some (?ws2, 0)"
            by (rule table_loop_done) (use Suc.prems(6,11) o1 w2 True in auto)
          then show ?thesis unfolding lp using g dm True w2 by simp
        next
          case cn: False
          then have o2c: "o2 + c = 1024" using c(2) Suc.prems(7) by (auto simp: c_def)
          have p: "(o1 + 1) * 1024 + 0 = o1 * 1024 + o2 + c" using o2c by simp
          have "\<exists>ws' r. table_loop fuel (addrspc_map_recursive 1 flags) pd 1 1024 ?ws2 = Some (ws', r) \<and> w_root ws' = w_root ?ws2 \<and>
              grows pd (w_pm ?ws2) (w_pm ws') \<and>
              (r = err ENOMEM \<and> all_used (w_pm ws') \<or> r = 0 \<and> dir_mapped pd (w_paddr ?ws2) flags ((o1 + 1) * 1024 + 0) (n - c) (w_pm ?ws2) (w_pm ws'))"
            by (rule Suc.IH) (use growsD(1) [OF g] Suc.prems o o1 o2c w2 c in \<open>auto simp: advanced_def\<close>)
          then show ?thesis
            unfolding lp w2 p using grows_trans [OF g] dir_mapped_trans [OF dm] c(2)
            by (metis le_add_diff_inverse)
        qed
      qed
    qed
  qed
qed

section \<open>Mapping in an address space\<close>

lemma unat_and_10: "unat ((v :: u32) AND 1023) = unat v mod 1024"
proof -
  have "v AND 1023 = take_bit 10 v" by (simp add: take_bit_eq_mask mask_eq_exp_minus_1)
  then show ?thesis using take_bit_eq_mod [of 10 "unat v"] by (simp add: unsigned_take_bit_eq)
qed

lemma unat_drop: "unat (drop_bit k (v :: u32)) = unat v div 2 ^ k"
  using drop_bit_eq_div [of k "unat v"] by (simp add: unat_drop_bit_eq)

lemma pm_offsets_eq:
  "length (pm_offsets v) = 4" "pm_offsets v ! 1 = unat v div 4096 div 1024" "pm_offsets v ! 2 = unat v div 4096 mod 1024"
proof -
  have "unat v div 4194304 mod 1024 = unat v div 4194304" using unsigned_less [where ?'a = nat, of v] by simp
  moreover have lc: "lvlct X86_PAGING_32 = Suc (Suc (Suc (Suc 0)))" by (simp add: X86_PAGING_32_def)
  have "pm_offsets v = [0, unat (drop_bit 10 (drop_bit 12 v) AND 1023), unat (drop_bit 12 v AND 1023), unat (v AND 4095)]"
    unfolding pm_offsets_def lc by (simp add: X86_PAGING_32_def Let_def)
  ultimately show "length (pm_offsets v) = 4" "pm_offsets v ! 1 = unat v div 4096 div 1024" "pm_offsets v ! 2 = unat v div 4096 mod 1024"
    by (simp_all add: unat_and_10 unat_drop div_mult2_eq [symmetric])
qed

text \<open>The same as \<open>grows\<close>, for an address space whose root may be new.\<close>

definition space_grows :: "pmstate \<Rightarrow> u32 \<Rightarrow> pmstate \<Rightarrow> u32 \<Rightarrow> bool" where
  "space_grows st root st' root' \<longleftrightarrow> wf_pm st' \<and> wf_space st' root' \<and> allocated st \<subseteq> allocated st' \<and>
    space_tables st' root' \<inter> allocated st \<subseteq> space_tables st root \<and>
    (\<forall>t. t \<in> allocated st \<and> t \<notin> space_tables st root \<longrightarrow> tables st' t = tables st t)"

lemma space_grows_refl: "wf_pm st \<Longrightarrow> wf_space st root \<Longrightarrow> space_grows st root st root"
  by (auto simp: space_grows_def)

lemma space_grows_dir:
  assumes "space_grows st root st1 root1" "root1 \<noteq> 0" "grows (pme_paddr root1 0) st1 st2"
  shows "space_grows st root st2 root1"
proof -
  let ?pd = "pme_paddr root1 0"
  note s = assms(1) [unfolded space_grows_def]
  note g = growsD [OF assms(3)]
  have "wf_pm st2" "wf_space st2 root1" using g(1) by (auto simp: dir_ok_def wf_space_def)
  moreover have "allocated st \<subseteq> allocated st2" using s g(2) by blast
  moreover have "space_tables st2 root1 \<inter> allocated st \<subseteq> space_tables st root"
  proof
    fix x assume x: "x \<in> space_tables st2 root1 \<inter> allocated st"
    then have "x \<in> dir_tables st1 ?pd" using s g(3) assms(2) by (auto simp: space_tables_dir)
    then show "x \<in> space_tables st root" using s x assms(2) by (auto simp: space_tables_dir split: if_splits)
  qed
  moreover have "tables st2 t = tables st t" if t: "t \<in> allocated st" "t \<notin> space_tables st root" for t
  proof -
    have "t \<in> allocated st1" "t \<notin> dir_tables st1 ?pd" using s t assms(2) by (auto simp: space_tables_dir)
    then show ?thesis using g(4) s t by simp
  qed
  ultimately show ?thesis unfolding space_grows_def by blast
qed

text \<open>The root table is opened, or made from a free page and empty.\<close>

lemma open_root:
  assumes "wf_pm st" "wf_space st root" "low_flags flags" "w_pm ws = st" "w_root ws = root"
    "open_table 0 RootEntry flags ws = Some (pg, pd, ws')"
  shows "\<exists>st' root'. ws' = ws\<lparr>w_pm := st', w_root := root'\<rparr> \<and> root' \<noteq> 0 \<and> pme_paddr root' 0 = pd \<and>
    dir_ok st' pd \<and> space_grows st root st' root' \<and> (\<forall>q<2 ^ 20. walk st' root' q = walk st root q)"
proof (cases "root = 0")
  case False
  let ?pd = "pme_paddr root 0"
  have pd: "?pd \<in> allocated st" "wf_dir st ?pd" using assms(2) False by (auto simp: wf_space_def)
  then obtain i where i: "pp_paddr (physpages st ! i) = ?pd" "physpage_find ?pd = Some i" using assms(1) by (metis allocatedE)
  define st' where "st' = snd (physpage_access i st)"
  have t: "tables st' = tables st" by (simp add: st'_def physpage_access_def Let_def)
  have acc: "physpage_access i st = (?pd, st')" using i(1) by (simp add: st'_def physpage_access_def Let_def)
  let ?root' = "pme_set_flags root flags 0"
  have ws': "ws' = ws\<lparr>w_pm := st', w_root := ?root'\<rparr>" "pd = ?pd"
    using assms(4-6) False i(2) acc by (auto simp: open_table_def pme_ispresent_def)
  have root': "?root' \<noteq> 0" "pme_paddr ?root' 0 = ?pd"
    using False pme_set_flags_present [of root 0 flags] pme_set_flags_paddr [OF assms(3)] by (auto simp: pme_ispresent_def)
  have len: "length (physpages st) = PHYSPAGES_MAX" using assms(1) by (simp add: wf_pm_def)
  note al = same_alloc_wf [OF same_alloc_close(2) [of st i], folded st'_def]
  have ok: "dir_ok st' ?pd" using pd assms(1) al len by (simp add: dir_ok_def wf_dir_def t)
  have "space_grows st root st' ?root'"
    using ok al len root' False by (auto simp: space_grows_def dir_ok_def wf_space_def space_tables_def t)
  moreover have "walk st' ?root' q = walk st root q" for q using root' False by (simp add: walk_def t Let_def)
  ultimately show ?thesis using ws' root' ok by blast
next
  case True
  have ab: "\<not> pme_ispresent (read_pme RootEntry ws) 0" using True assms(5) by (simp add: pme_ispresent_def)
  note oa = open_absent [OF assms(1) ab assms(4,6)]
  then obtain st' where st': "same_alloc (st\<lparr>physpages := (physpages st)[pg := (physpages st ! pg)\<lparr>pp_paddr := pg_base pg\<rparr>]\<rparr>) st'"
    "tables st' = (tables st)(pd := (\<lambda>i. 0))"
    "ws' = write_pme RootEntry (pme_pack pd (flags OR PME_PRESENT) 0) (ws\<lparr>w_pm := st'\<rparr>)" by blast
  note al = allocated_alloc [OF assms(1) oa(1,2) st'(1), folded oa(3)]
  let ?root' = "pme_pack pd (flags OR PME_PRESENT) 0"
  have root': "pme_paddr ?root' 0 = pd"
    using pme_pack_paddr [OF pg_base_props(1) [OF oa(1)] low_flags_or [OF assms(3) low_flags_present], of 0 0] by (simp add: oa(3))
  then have nz: "?root' \<noteq> 0" using pg_base_props(2) [OF oa(1)] by (auto simp: oa(3) pme_paddr_def)
  have none: "\<not> pme_ispresent (tables st' pd j) (Suc 0)" for j by (simp add: st'(2) pme_ispresent_def)
  have ok: "dir_ok st' pd" using al none by (simp add: dir_ok_def wf_dir_def)
  have "space_tables st' ?root' = {pd}" using nz none root' by (auto simp: space_tables_def)
  then have "space_grows st root st' ?root'"
    using ok al root' True st'(2) by (auto simp: space_grows_def dir_ok_def wf_space_def)
  moreover have "walk st' ?root' q = walk st root q" for q using root' nz True none by (simp add: walk_def Let_def)
  moreover have "ws' = ws\<lparr>w_pm := st', w_root := ?root'\<rparr>" using st'(3) by simp
  ultimately show ?thesis using root' nz ok by blast
qed

lemma map_root:
  assumes "wf_pm (w_pm ws)" "wf_space (w_pm ws) (w_root ws)" "low_flags flags" "length (w_offsets ws) = 4"
    and "w_offsets ws ! 1 = p0 div 1024" "w_offsets ws ! 2 = p0 mod 1024"
    and "w_size ws = of_nat n * PAGESZ" "n < 2 ^ 20" "p0 + n \<le> 2 ^ 20" "p0 < 2 ^ 20"
  shows "\<exists>ws' r. addrspc_map_recursive 0 flags RootEntry ws = Some (ws', r) \<and>
    space_grows (w_pm ws) (w_root ws) (w_pm ws') (w_root ws') \<and>
    (r = err ENOMEM \<and> all_used (w_pm ws') \<or>
     r = 0 \<and> (\<forall>q<2 ^ 20. walk (w_pm ws') (w_root ws') q =
       (if p0 \<le> q \<and> q < p0 + n then Some (new_entry (w_paddr ws) flags (q - p0)) else walk (w_pm ws) (w_root ws) q)))"
proof (cases "open_table 0 RootEntry flags ws")
  case None
  have "all_used (w_pm ws)"
    by (rule open_table_None [OF None]) (use assms(1,2) in \<open>auto simp: wf_space_def pme_ispresent_def\<close>)
  then show ?thesis using None space_grows_refl [OF assms(1,2)] by (simp add: map_rec_tbl)
next
  case (Some r)
  obtain pg pd ws1 where r: "r = (pg, pd, ws1)" by (cases r)
  obtain st1 root1 where s1: "ws1 = ws\<lparr>w_pm := st1, w_root := root1\<rparr>" "root1 \<noteq> 0" "pme_paddr root1 0 = pd" "dir_ok st1 pd"
    "space_grows (w_pm ws) (w_root ws) st1 root1" "\<forall>q<2 ^ 20. walk st1 root1 q = walk (w_pm ws) (w_root ws) q"
    using open_root [OF assms(1-3) refl refl Some [unfolded r]] by blast
  have p: "p0 div 1024 * 1024 + p0 mod 1024 = p0" by simp
  have "\<exists>ws' r. table_loop 1024 (addrspc_map_recursive 1 flags) pd 1 1024 ws1 = Some (ws', r) \<and> w_root ws' = w_root ws1 \<and>
    grows pd (w_pm ws1) (w_pm ws') \<and>
    (r = err ENOMEM \<and> all_used (w_pm ws') \<or> r = 0 \<and> dir_mapped pd (w_paddr ws1) flags (p0 div 1024 * 1024 + p0 mod 1024) n (w_pm ws1) (w_pm ws'))"
    by (rule dir_loop) (use assms s1 p in \<open>simp_all add: less_mult_imp_div_less\<close>)
  then obtain ws2 r2 where l: "table_loop 1024 (addrspc_map_recursive 1 flags) pd 1 1024 ws1 = Some (ws2, r2)"
    "w_root ws2 = root1" "grows pd st1 (w_pm ws2)" "r2 = err ENOMEM \<and> all_used (w_pm ws2) \<or> r2 = 0 \<and> dir_mapped pd (w_paddr ws) flags p0 n st1 (w_pm ws2)"
    using s1(1) p by auto
  let ?st3 = "physpage_close pg (w_pm ws2)"
  note cl = close_grows [OF growsD(1) [OF l(3)], of pg]
  have "space_grows (w_pm ws) (w_root ws) ?st3 root1"
    by (rule space_grows_dir [OF s1(5,2)]) (use grows_trans [OF l(3) cl(1)] s1(3) in simp)
  moreover have "walk ?st3 root1 q = (if p0 \<le> q \<and> q < p0 + n then Some (new_entry (w_paddr ws) flags (q - p0)) else walk (w_pm ws) (w_root ws) q)"
    if "dir_mapped pd (w_paddr ws) flags p0 n st1 (w_pm ws2)" "q < 2 ^ 20" for q
    using that s1(2,3,6) by (simp add: walk_pview cl(2) dir_mapped_def)
  moreover have "all_used (w_pm ws2) \<Longrightarrow> all_used ?st3"
    using growsD(1) [OF l(3)] all_used_close by (simp add: dir_ok_def)
  ultimately show ?thesis
    using l Some r by (auto simp: map_rec_tbl)
qed

lemma align_down_pages: "unat (ALIGN_DOWN v PAGESZ) div 4096 = unat v div 4096"
proof -
  have "unat (ALIGN_DOWN v (2 ^ 12)) = unat v div 2 ^ 12 * 2 ^ 12" by (rule unat_ALIGN_DOWN) simp
  then show ?thesis by (simp add: PAGESZ_def)
qed

definition page_count :: "u32 \<Rightarrow> nat" where
  "page_count sz = (unat sz + 4095) div 4096"

lemma align_up_pages:
  assumes "unat sz + 4095 < 2 ^ 32"
  shows "ALIGN_UP sz PAGESZ = of_nat (page_count sz) * PAGESZ" "page_count sz < 2 ^ 20"
proof -
  have u: "unat (ALIGN_UP sz (2 ^ 12)) = page_count sz * 4096"
    using unat_ALIGN_UP [of 12 sz] assms by (simp add: page_count_def)
  have b: "page_count sz * 4096 < 2 ^ 32" using assms div_times_less_eq_dividend [of "unat sz + 4095" 4096]
    unfolding page_count_def by linarith
  then show "page_count sz < 2 ^ 20" by simp
  have "unat (of_nat (page_count sz * 4096) :: u32) = page_count sz * 4096"
    using b by (simp add: unat_of_nat take_bit_nat_eq_self del: of_nat_mult)
  then show "ALIGN_UP sz PAGESZ = of_nat (page_count sz) * PAGESZ"
    using u by (simp add: word_unat_eq_iff PAGESZ_def)
qed

lemma addrspc_map_spec:
  assumes "wf_pm st" "wf_space st root" "low_flags flags" "unat sz + 4095 < 2 ^ 32"
    "p0 = unat vaddr div 4096" "p0 + page_count sz \<le> 2 ^ 20"
  shows "\<exists>st' root' r. addrspc_map st root vaddr paddr sz flags = Some (st', root', r) \<and>
    space_grows st root st' root' \<and>
    (r = err ENOMEM \<and> all_used st' \<or>
     r = 0 \<and> (\<forall>q<2 ^ 20. walk st' root' q =
       (if p0 \<le> q \<and> q < p0 + page_count sz then Some (new_entry (ALIGN_DOWN paddr PAGESZ) flags (q - p0)) else walk st root q)))"
proof -
  let ?ws = "\<lparr>w_pm = st, w_root = root, w_offsets = pm_offsets (ALIGN_DOWN vaddr PAGESZ), w_paddr = ALIGN_DOWN paddr PAGESZ,
    w_size = ALIGN_UP sz PAGESZ\<rparr>"
  have "unat vaddr < 2 ^ 32" using unsigned_less [where ?'a = nat, of vaddr] by simp
  then have p0: "p0 < 2 ^ 20" using assms(5) by simp
  have "\<exists>ws' r. addrspc_map_recursive 0 flags RootEntry ?ws = Some (ws', r) \<and>
    space_grows (w_pm ?ws) (w_root ?ws) (w_pm ws') (w_root ws') \<and>
    (r = err ENOMEM \<and> all_used (w_pm ws') \<or>
     r = 0 \<and> (\<forall>q<2 ^ 20. walk (w_pm ws') (w_root ws') q =
       (if p0 \<le> q \<and> q < p0 + page_count sz then Some (new_entry (w_paddr ?ws) flags (q - p0)) else walk (w_pm ?ws) (w_root ?ws) q)))"
    by (rule map_root) (use assms p0 align_up_pages [OF assms(4)] in \<open>simp_all add: pm_offsets_eq [unfolded One_nat_def] align_down_pages\<close>)
  then show ?thesis by (auto simp: addrspc_map_def Let_def)
qed

section \<open>Properties\<close>

definition pm0 :: pmstate where
  "pm0 = \<lparr>physpages = replicate PHYSPAGES_MAX \<lparr>pp_paddr = 0, pp_vaddr = 0\<rparr>, tables = \<lambda>t i. 0\<rparr>"

lemma pm0_wf: "wf_pm pm0" "wf_space pm0 0"
  by (auto simp: wf_pm_def pm0_def wf_space_def PHYSPAGES_MAX_def nth_Cons')

text \<open>
  Property C3. \<open>addrspc_map\<close> returns on every well-formed page map, and what a successful call does is seen by
  the processor's walk: every page of the range translates to the corresponding page of the target with
  the given flags, and every other page of the address space translates as before.
  It fails only with \<open>-ENOMEM\<close>, and only when every page for tables is in use.
\<close>

theorem addrspc_map_correct:
  assumes "wf_pm st" "wf_space st root" "low_flags flags" "unat sz + 4095 < 2 ^ 32" "unat vaddr div 4096 + page_count sz \<le> 2 ^ 20"
  shows "\<exists>st' root' r. addrspc_map st root vaddr paddr sz flags = Some (st', root', r) \<and>
    (r = err ENOMEM \<and> all_used st' \<or>
     r = 0 \<and> (\<forall>q<2 ^ 20. walk st' root' q =
       (if unat vaddr div 4096 \<le> q \<and> q < unat vaddr div 4096 + page_count sz
        then Some (new_entry (ALIGN_DOWN paddr PAGESZ) flags (q - unat vaddr div 4096)) else walk st root q)))"
  using addrspc_map_spec [OF assms(1-4) refl assms(5)] by blast

theorem addrspc_map_correct_witness:
  "\<exists>st' root'. addrspc_map pm0 0 0x400000 0x800000 4096 6 = Some (st', root', 0) \<and> walk st' root' 1024 = Some 0x800007"
proof -
  have z: "map_option (\<lambda>(st, root, r). r) (addrspc_map pm0 0 0x400000 0x800000 4096 6) = Some 0" by code_simp
  have p: "page_count 4096 = 1" by code_simp
  have e: "new_entry (ALIGN_DOWN 0x800000 PAGESZ) 6 0 = 0x800007" by code_simp
  have f: "low_flags 6" by code_simp
  obtain st' root' r where "addrspc_map pm0 0 0x400000 0x800000 4096 6 = Some (st', root', r)"
    "r = err ENOMEM \<and> all_used st' \<or> r = 0 \<and> (\<forall>q<2 ^ 20. walk st' root' q =
       (if 1024 \<le> q \<and> q < 1024 + 1 then Some (new_entry (ALIGN_DOWN 0x800000 PAGESZ) 6 (q - 1024)) else walk pm0 0 q))"
    using addrspc_map_correct [OF pm0_wf f, where sz = 4096 and vaddr = "0x400000" and paddr = "0x800000"] by (auto simp: p)
  with z e show ?thesis by auto
qed

lemma wf_dir_mono:
  assumes "wf_dir st pd" "tables st' pd = tables st pd" "allocated st \<subseteq> allocated st'"
  shows "wf_dir st' pd"
  using assms(1,3) unfolding wf_dir_def assms(2) by blast

text \<open>
  Property C34. \<open>addrspc_map\<close> keeps the page map well-formed whether it succeeds or not, and address spaces
  are isolated: it does not change any translation of another space whose tables are disjoint from
  those of the space, and the tables of the two stay disjoint.
\<close>

theorem addrspc_map_isolation:
  assumes "wf_pm st" "wf_space st root" "low_flags flags" "unat sz + 4095 < 2 ^ 32" "unat vaddr div 4096 + page_count sz \<le> 2 ^ 20"
    and "wf_space st root2" "space_tables st root \<inter> space_tables st root2 = {}"
  shows "\<exists>st' root' r. addrspc_map st root vaddr paddr sz flags = Some (st', root', r) \<and>
    wf_pm st' \<and> wf_space st' root' \<and> wf_space st' root2 \<and>
    (\<forall>q<2 ^ 20. walk st' root2 q = walk st root2 q) \<and> space_tables st' root' \<inter> space_tables st' root2 = {}"
proof -
  obtain st' root' r where m: "addrspc_map st root vaddr paddr sz flags = Some (st', root', r)" and g: "space_grows st root st' root'"
    using addrspc_map_spec [OF assms(1-4) refl assms(5)] by blast
  have gs: "wf_pm st'" "wf_space st' root'" "allocated st \<subseteq> allocated st'"
    "space_tables st' root' \<inter> allocated st \<subseteq> space_tables st root"
    "\<And>t. t \<in> allocated st \<Longrightarrow> t \<notin> space_tables st root \<Longrightarrow> tables st' t = tables st t"
    using g unfolding space_grows_def by blast+
  let ?pd = "pme_paddr root2 0"
  have sub: "space_tables st root2 \<subseteq> allocated st" using assms(6) by (auto simp: space_tables_def wf_space_def wf_dir_def)
  have same: "tables st' t = tables st t" if "t \<in> space_tables st root2" for t using gs(5) [of t] that sub assms(7) by blast
  have pd: "tables st' ?pd = tables st ?pd" if "root2 \<noteq> 0" using same [of ?pd] that by (simp add: space_tables_def)
  have tbl: "tables st' (pme_paddr (tables st ?pd j) 1) = tables st (pme_paddr (tables st ?pd j) 1)"
    if "root2 \<noteq> 0" "j < 1024" "pme_ispresent (tables st ?pd j) 1" for j
  proof (rule same)
    show "pme_paddr (tables st ?pd j) 1 \<in> space_tables st root2"
      unfolding space_tables_dir if_not_P [OF that(1)] by (rule dir_tablesI [OF that(2,3)])
  qed
  have st: "space_tables st' root2 = space_tables st root2" using pd by (auto simp: space_tables_def)
  have "wf_space st' root2"
    using assms(6) gs(3) wf_dir_mono [OF _ pd gs(3)] unfolding wf_space_def by blast
  moreover have "walk st' root2 q = walk st root2 q" if "q < 2 ^ 20" for q
  proof -
    have "q div 1024 < 1024" using that by (simp add: less_mult_imp_div_less)
    then show ?thesis using pd tbl [of "q div 1024"] by (auto simp: walk_def Let_def)
  qed
  moreover have "space_tables st' root' \<inter> space_tables st' root2 = {}" using gs(4) sub assms(7) unfolding st by blast
  ultimately show ?thesis using m gs(1,2) by blast
qed

definition pm1 :: "pmstate \<times> u32" where
  "pm1 = (case addrspc_map pm0 0 0x400000 0x800000 4096 6 of Some (st, root, r) \<Rightarrow> (st, root) | None \<Rightarrow> (pm0, 0))"

lemma pm1_wf: "wf_pm (fst pm1)" "wf_space (fst pm1) (snd pm1)" "wf_space (fst pm1) 0"
proof -
  have p: "page_count 4096 = 1" by code_simp
  have f: "low_flags 6" by code_simp
  obtain st root r where m: "addrspc_map pm0 0 0x400000 0x800000 4096 6 = Some (st, root, r)" "space_grows pm0 0 st root"
    using addrspc_map_spec [OF pm0_wf f, where sz = 4096 and vaddr = "0x400000" and paddr = "0x800000", OF _ refl] by (auto simp: p)
  then show "wf_pm (fst pm1)" "wf_space (fst pm1) (snd pm1)" "wf_space (fst pm1) 0"
    by (simp_all add: pm1_def space_grows_def wf_space_def)
qed

lemma pm1_walk: "walk (fst pm1) (snd pm1) 1024 = Some 0x800007"
  by code_simp

theorem addrspc_map_isolation_witness:
  "\<exists>st' root'. addrspc_map (fst pm1) 0 0 0 4096 3 = Some (st', root', 0) \<and> walk st' (snd pm1) 1024 = Some 0x800007"
proof -
  have z: "map_option (\<lambda>(st, root, r). r) (addrspc_map (fst pm1) 0 0 0 4096 3) = Some 0" by code_simp
  have p: "page_count 4096 = 1" by code_simp
  have f: "low_flags 3" by code_simp
  obtain st' root' r' where "addrspc_map (fst pm1) 0 0 0 4096 3 = Some (st', root', r')"
      "\<forall>q<2 ^ 20. walk st' (snd pm1) q = walk (fst pm1) (snd pm1) q"
    using addrspc_map_isolation [OF pm1_wf(1,3) f _ _ pm1_wf(2), where sz = 4096 and vaddr = 0 and paddr = 0] by (auto simp: p space_tables_def)
  with z pm1_walk show ?thesis by auto
qed

section \<open>Unmapping across a hole\<close>

lemma pme_coversz_values: "pme_coversz 1 = 0" "pme_coversz 2 = 0x400000"
  by code_simp+

lemma unmap_rec_page:
  assumes "pme_ispresent (read_pme entry ws) 2"
  shows "addrspc_unmap_recursive 2 entry ws =
    (let ws = write_pme entry (read_pme entry ws AND NOT PME_PRESENT) ws in Some (ws\<lparr>w_size := w_size ws - PAGESZ\<rparr>, 0))"
  using assms by (subst addrspc_unmap_recursive.simps) (simp add: X86_PAGING_32_def)

lemma unmap_rec_absent_dir:
  assumes "\<not> pme_ispresent (tables (w_pm ws) pd j) 1"
  shows "addrspc_unmap_recursive 1 (TblEntry pd j) ws = Some (ws, 0)"
  using assms pme_coversz_values(1) by (subst addrspc_unmap_recursive.simps) (simp add: X86_PAGING_32_def)

definition drop_empty :: "nat \<Rightarrow> u32 \<Rightarrow> nat \<Rightarrow> pme_ptr \<Rightarrow> walkst \<times> int \<Rightarrow> walkst \<times> int" where
  "drop_empty tbl_pg tbl child_lvl entry = (\<lambda>(ws, res).
     (let tbl_empty = (res = 0 \<and> (\<forall>i\<in>{0..<1024}. \<not> pme_ispresent (tables (w_pm ws) tbl i) child_lvl));
          ws = ws\<lparr>w_pm := physpage_close tbl_pg (w_pm ws)\<rparr>
      in if tbl_empty
         then let ws = write_pme entry (read_pme entry ws AND NOT PME_PRESENT) ws
              in (ws\<lparr>w_pm := physpage_free tbl_pg (w_pm ws)\<rparr>, res)
         else (ws, res)))"

lemma unmap_rec_tbl:
  assumes "lvl < 2" "pme_ispresent (read_pme entry ws) lvl" "pme_paddr (read_pme entry ws) lvl \<in> allocated (w_pm ws)" "wf_pm (w_pm ws)"
  shows "\<exists>pg st. addrspc_unmap_recursive lvl entry ws =
      map_option (drop_empty pg (pme_paddr (read_pme entry ws) lvl) (Suc lvl) entry)
        (table_loop 1024 (addrspc_unmap_recursive (Suc lvl)) (pme_paddr (read_pme entry ws) lvl) (Suc lvl) 1024 (ws\<lparr>w_pm := st\<rparr>)) \<and>
    tables st = tables (w_pm ws) \<and> same_alloc (w_pm ws) st"
proof -
  let ?t = "pme_paddr (read_pme entry ws) lvl"
  obtain pg where pg: "pg < PHYSPAGES_MAX" "?t = pg_base pg" "pp_paddr (physpages (w_pm ws) ! pg) = ?t" "physpage_find ?t = Some pg"
    using allocatedE [OF assms(3,4)] by metis
  have nz: "?t \<noteq> 0" using pg(1,2) pg_base_props(2) by simp
  define st where "st = snd (physpage_access pg (w_pm ws))"
  have acc: "physpage_access pg (w_pm ws) = (?t, st)" using pg(3) by (simp add: st_def physpage_access_def Let_def)
  have pp: "\<not> is_page (lvls X86_PAGING_32 ! (lvl + 1))" "\<not> lvlct X86_PAGING_32 \<le> lvl + 1"
    "2 ^ idx_bits (lvls X86_PAGING_32 ! (lvl + 1)) = (1024 :: nat)"
    using assms(1) by (auto simp: X86_PAGING_32_def less_2_cases_iff)
  have "addrspc_unmap_recursive lvl entry ws =
      map_option (drop_empty pg ?t (lvl + 1) entry) (table_loop 1024 (addrspc_unmap_recursive (lvl + 1)) ?t (lvl + 1) 1024 (ws\<lparr>w_pm := st\<rparr>))"
    unfolding addrspc_unmap_recursive.simps [of lvl entry ws] drop_empty_def
    using pp nz assms(2) by (simp only: pg(4) acc option.case prod.case Let_def if_False if_True not_True_eq_False)
  moreover have "tables st = tables (w_pm ws)" by (simp add: st_def physpage_access_def Let_def)
  moreover have "same_alloc (w_pm ws) st" unfolding st_def by (rule same_alloc_close(2))
  ultimately show ?thesis by (metis Suc_eq_plus1)
qed

lemma physpage_tables [simp]: "tables (physpage_close i st) = tables st" "tables (physpage_free i st) = tables st"
  by (simp_all add: physpage_close_def physpage_free_def)

lemma cleared_not_present: "0 < l \<Longrightarrow> \<not> pme_ispresent (e AND NOT PME_PRESENT) l"
  by (simp add: pme_ispresent_def and.assoc)

lemma drop_empty_props:
  assumes "drop_empty pg tbl l entry (ws, r) = (ws', r')"
  shows "r' = r" "w_size ws' = w_size ws" "w_offsets ws' = w_offsets ws"
    "entry = RootEntry \<Longrightarrow> tables (w_pm ws') = tables (w_pm ws) \<and> (w_root ws' = w_root ws \<or> w_root ws' = w_root ws AND NOT PME_PRESENT)"
    "entry = TblEntry pd j \<Longrightarrow> w_root ws' = w_root ws \<and>
      (tables (w_pm ws') = tables (w_pm ws) \<or>
       tables (w_pm ws') = (tables (w_pm ws))(pd := (tables (w_pm ws) pd)(j := tables (w_pm ws) pd j AND NOT PME_PRESENT)))"
  using assms by (cases entry; auto simp: drop_empty_def Let_def split: if_splits)+

lemma unmap_one_page:
  assumes "wf_pm (w_pm ws)" "pme_ispresent (tables (w_pm ws) pd j) 1" "pme_paddr (tables (w_pm ws) pd j) 1 = pt"
    "pt \<in> allocated (w_pm ws)" "pt \<noteq> pd" "length (w_offsets ws) = 4" "w_offsets ws ! 2 = o2" "w_size ws = PAGESZ"
    "pme_ispresent (tables (w_pm ws) pt o2) 2"
  shows "\<exists>ws'. addrspc_unmap_recursive 1 (TblEntry pd j) ws = Some (ws', 0) \<and> w_size ws' = 0 \<and> w_root ws' = w_root ws \<and>
    length (w_offsets ws') = 4 \<and> w_offsets ws' ! 1 = w_offsets ws ! 1 \<and>
    (pme_ispresent (tables (w_pm ws') pd j) 1 \<longrightarrow>
      pme_paddr (tables (w_pm ws') pd j) 1 = pt \<and> \<not> pme_ispresent (tables (w_pm ws') pt o2) 2)"
proof -
  obtain pg st where u: "addrspc_unmap_recursive 1 (TblEntry pd j) ws =
      map_option (drop_empty pg pt 2 (TblEntry pd j)) (table_loop 1024 (addrspc_unmap_recursive 2) pt 2 1024 (ws\<lparr>w_pm := st\<rparr>))"
    and st: "tables st = tables (w_pm ws)"
    using unmap_rec_tbl [of 1 "TblEntry pd j" ws] assms by (auto simp: numeral_2_eq_2)
  let ?tb = "(tables st)(pt := (tables st pt)(o2 := tables st pt o2 AND NOT PME_PRESENT))"
  have nz: "PAGESZ \<noteq> 0" by (simp add: PAGESZ_def)
  have "\<exists>os. table_loop (Suc (Suc fuel)) (addrspc_unmap_recursive 2) pt 2 1024 (ws\<lparr>w_pm := st\<rparr>) =
      Some (ws\<lparr>w_pm := st\<lparr>tables := ?tb\<rparr>, w_size := 0, w_offsets := (w_offsets ws)[2 := os]\<rparr>, 0)" for fuel
    using assms(6-9) nz by (auto simp: st unmap_rec_page set_tbl_def table_loop_done)
  from this [of 1022] obtain os where l: "table_loop 1024 (addrspc_unmap_recursive 2) pt 2 1024 (ws\<lparr>w_pm := st\<rparr>) =
      Some (ws\<lparr>w_pm := st\<lparr>tables := ?tb\<rparr>, w_size := 0, w_offsets := (w_offsets ws)[2 := os]\<rparr>, 0)" (is "_ = Some (?ws1, 0)") by auto
  obtain ws' r where d: "drop_empty pg pt 2 (TblEntry pd j) (?ws1, 0) = (ws', r)" by fastforce
  note dp = drop_empty_props [OF d]
  have c: "\<not> pme_ispresent (tables st pt o2 AND NOT PME_PRESENT) 2" "\<not> pme_ispresent (tables st pd j AND NOT PME_PRESENT) 1"
    by (simp_all add: cleared_not_present)
  have "pme_ispresent (tables (w_pm ws') pd j) 1 \<longrightarrow>
      pme_paddr (tables (w_pm ws') pd j) 1 = pt \<and> \<not> pme_ispresent (tables (w_pm ws') pt o2) 2"
    using dp(5) [OF refl] assms(3,5) c by (auto simp: st)
  moreover have "addrspc_unmap_recursive 1 (TblEntry pd j) ws = Some (ws', 0)" using u l d dp(1) by simp
  ultimately show ?thesis using dp(2,3) dp(5) [OF refl] assms(6) by auto
qed

text \<open>
  Property C39. \<open>pme_coversz\<close> is one level off: for an entry of the page directory it gives 0 (\<open>2^32\<close>
  in 32 bits) instead of 4 MB, and for an entry of a page table 4 MB instead of 4 KB. As a
  consequence \<open>addrspc_unmap\<close> removes mappings outside the range it is asked to unmap: where a directory entry is
  missing, unmapping one page under it unmaps the page 4 MB further on instead.
\<close>

theorem addrspc_unmap_outside_range:
  assumes "wf_pm st" "root \<noteq> 0" "wf_space st root" "j + 1 < 1024" "k < 1024"
    and "\<not> pme_ispresent (tables st (pme_paddr root 0) j) 1" "walk st root ((j + 1) * 1024 + k) \<noteq> None"
    and "vaddr = of_nat (j * 1024 + k) * PAGESZ"
  shows "pme_coversz 1 = 0 \<and> pme_coversz 2 = 0x400000 \<and>
    (\<exists>st' root'. addrspc_unmap st root vaddr PAGESZ = Some (st', root', 0) \<and> walk st' root' ((j + 1) * 1024 + k) = None)"
proof -
  let ?pd = "pme_paddr root 0" and ?q = "(j + 1) * 1024 + k"
  have q: "?q div 1024 = j + 1" using assms(5) by (simp add: div_nat_eqI)
  have "?q mod 1024 = k" unfolding mod_mult_self3 using assms(5) by simp
  note q = q this
  have pd: "?pd \<in> allocated st" "wf_dir st ?pd" using assms(2,3) by (auto simp: wf_space_def)
  let ?pt = "pme_paddr (tables st ?pd (j + 1)) 1"
  have e1: "pme_ispresent (tables st ?pd (j + 1)) 1" and e2: "pme_ispresent (tables st ?pt k) 2"
    using assms(2,7) unfolding walk_def q by (auto simp: Let_def split: if_splits)
  have pt: "?pt \<in> allocated st" "?pt \<noteq> ?pd" using pd(2) e1 assms(4) unfolding wf_dir_def by blast+
  have uv: "unat vaddr = (j * 1024 + k) * 4096"
  proof -
    have "(j * 1024 + k) * 4096 < 2 ^ 32" using assms(4,5) by simp
    then have "unat (of_nat ((j * 1024 + k) * 4096) :: u32) = (j * 1024 + k) * 4096"
      by (simp add: unat_of_nat take_bit_nat_eq_self del: of_nat_mult of_nat_add)
    then show ?thesis using assms(8) by (simp add: PAGESZ_def)
  qed
  have off: "pm_offsets (ALIGN_DOWN vaddr PAGESZ) ! 1 = j" "pm_offsets (ALIGN_DOWN vaddr PAGESZ) ! 2 = k"
    "length (pm_offsets (ALIGN_DOWN vaddr PAGESZ)) = 4"
    using assms(5) by (simp_all add: pm_offsets_eq [unfolded One_nat_def] align_down_pages uv div_nat_eqI)
  have up: "ALIGN_UP PAGESZ PAGESZ = PAGESZ" "PAGESZ < 0xffffffff - PAGESZ" by code_simp+
  let ?ws = "\<lparr>w_pm = st, w_root = root, w_offsets = pm_offsets (ALIGN_DOWN vaddr PAGESZ), w_paddr = 0, w_size = PAGESZ\<rparr>"
  obtain pg st1 where u: "addrspc_unmap_recursive 0 RootEntry ?ws =
      map_option (drop_empty pg ?pd 1 RootEntry) (table_loop 1024 (addrspc_unmap_recursive 1) ?pd 1 1024 (?ws\<lparr>w_pm := st1\<rparr>))"
    and st1: "tables st1 = tables st" "same_alloc st st1"
    using unmap_rec_tbl [of 0 RootEntry ?ws] assms(1,2) pd(1) by (auto simp: pme_ispresent_def)
  have len: "length (physpages st) = PHYSPAGES_MAX" using assms(1) by (simp add: wf_pm_def)
  note al = same_alloc_wf [OF st1(2)]
  let ?ws1 = "?ws\<lparr>w_pm := st1, w_offsets := (pm_offsets (ALIGN_DOWN vaddr PAGESZ))[1 := j + 1]\<rparr>"
  obtain ws2 where ws2: "addrspc_unmap_recursive 1 (TblEntry ?pd (j + 1)) ?ws1 = Some (ws2, 0)" "w_size ws2 = 0" "w_root ws2 = root"
    "length (w_offsets ws2) = 4" "w_offsets ws2 ! 1 = j + 1"
    "pme_ispresent (tables (w_pm ws2) ?pd (j + 1)) 1 \<longrightarrow>
      pme_paddr (tables (w_pm ws2) ?pd (j + 1)) 1 = ?pt \<and> \<not> pme_ispresent (tables (w_pm ws2) ?pt k) 2"
    using unmap_one_page [of ?ws1 ?pd "j + 1" ?pt k] assms(1) al len pt e1 e2 st1 off by auto
  have nz: "PAGESZ \<noteq> 0" by (simp add: PAGESZ_def)
  have "\<exists>ws3. table_loop (Suc (Suc (Suc fuel))) (addrspc_unmap_recursive 1) ?pd 1 1024 (?ws\<lparr>w_pm := st1\<rparr>) = Some (ws3, 0) \<and>
      w_root ws3 = root \<and> w_pm ws3 = w_pm ws2" for fuel
    using ws2 nz off assms(4) unmap_rec_absent_dir [of "?ws\<lparr>w_pm := st1\<rparr>" ?pd j] assms(6) st1(1)
    by (auto simp: table_loop_done)
  from this [of 1021] obtain ws3 where ws3: "table_loop 1024 (addrspc_unmap_recursive 1) ?pd 1 1024 (?ws\<lparr>w_pm := st1\<rparr>) = Some (ws3, 0)"
    "w_root ws3 = root" "w_pm ws3 = w_pm ws2" by auto
  obtain ws4 r4 where d: "drop_empty pg ?pd 1 RootEntry (ws3, 0) = (ws4, r4)" by fastforce
  note dp = drop_empty_props(1,4) [OF d]
  have pr: "pme_paddr (w_root ws4) 0 = ?pd"
    using dp(2) ws3(2) by (auto simp: pme_paddr_def PME_PRESENT_def and.assoc)
  have "walk (w_pm ws4) (w_root ws4) ?q = None"
    unfolding walk_def pr q using dp(2) ws3(3) ws2(6) by (auto simp: Let_def)
  moreover have "addrspc_unmap st root vaddr PAGESZ = Some (w_pm ws4, w_root ws4, 0)"
    using u ws3(1) d dp(1) up by (simp add: addrspc_unmap_def Let_def)
  ultimately show ?thesis using pme_coversz_values by blast
qed

theorem addrspc_unmap_outside_range_witness:
  "\<exists>st' root'. walk (fst pm1) (snd pm1) 1024 = Some 0x800007 \<and> addrspc_unmap (fst pm1) (snd pm1) 0 4096 = Some (st', root', 0) \<and>
    walk st' root' 1024 = None"
proof -
  have n: "snd pm1 \<noteq> 0" by code_simp
  have a: "\<not> pme_ispresent (tables (fst pm1) (pme_paddr (snd pm1) 0) 0) 1" by code_simp
  have "walk (fst pm1) (snd pm1) ((0 + 1) * 1024 + 0) \<noteq> None" using pm1_walk by simp
  from addrspc_unmap_outside_range [OF pm1_wf(1) n pm1_wf(2) _ _ a this, of 0] show ?thesis
    using pm1_walk by (auto simp: PAGESZ_def)
qed

end
