(* ===== verification/Elf.thy ===== *)
theory Elf
  imports Cpio_Archive Pagemap
begin

text \<open>
  Reading ELF executables (\<open>drivers/fileformat/elf.c\<close> with the two structs of \<open>oss/elf.h\<close>). A header is
  read into a local struct; \<open>old\<close> stands for the bytes that the struct has before, because a short read
  leaves its rest as it is. A segment is copied straight into memory, which is the byte array \<open>kmem\<close> of the
  state: the kernel maps every user page to the physical page with the same address. A segment at the address 0 is
  never copied, because a read to the NULL pointer returns 0 bytes for ever.

  The locale \<open>file_source\<close> is what the loader needs of a file; files of an archive provide it.
\<close>

section \<open>Headers\<close>

definition half :: "string \<Rightarrow> nat \<Rightarrow> u16" where
  "half bs i = of_int (uchar (bs ! i) + 256 * uchar (bs ! (i + 1)))"

definition word32 :: "string \<Rightarrow> nat \<Rightarrow> u32" where
  "word32 bs i = of_int (uchar (bs ! i) + 256 * (uchar (bs ! (i + 1)) + 256 * (uchar (bs ! (i + 2)) + 256 * uchar (bs ! (i + 3)))))"

record Elf32_Ehdr =
  e_ident :: string
  e_type :: u16
  e_machine :: u16
  e_version :: u32
  e_entry :: u32
  e_phoff :: u32
  e_shoff :: u32
  e_flags :: u32
  e_ehsize :: u16
  e_phentsize :: u16
  e_phnum :: u16
  e_shentsize :: u16
  e_shnum :: u16
  e_shstrndx :: u16

record Elf32_Phdr =
  p_type :: u32
  p_offset :: u32
  p_vaddr :: u32
  p_paddr :: u32
  p_filesz :: u32
  p_memsz :: u32
  p_flags :: u32
  p_align :: u32

definition sizeof_Ehdr :: nat where "sizeof_Ehdr = 52"
definition sizeof_Phdr :: nat where "sizeof_Phdr = 32"

definition ehdr_of :: "string \<Rightarrow> Elf32_Ehdr" where
  "ehdr_of bs = \<lparr>e_ident = take 16 bs, e_type = half bs 16, e_machine = half bs 18, e_version = word32 bs 20, e_entry = word32 bs 24,
    e_phoff = word32 bs 28, e_shoff = word32 bs 32, e_flags = word32 bs 36, e_ehsize = half bs 40, e_phentsize = half bs 42,
    e_phnum = half bs 44, e_shentsize = half bs 46, e_shnum = half bs 48, e_shstrndx = half bs 50\<rparr>"

definition phdr_of :: "string \<Rightarrow> Elf32_Phdr" where
  "phdr_of bs = \<lparr>p_type = word32 bs 0, p_offset = word32 bs 4, p_vaddr = word32 bs 8, p_paddr = word32 bs 12,
    p_filesz = word32 bs 16, p_memsz = word32 bs 20, p_flags = word32 bs 24, p_align = word32 bs 28\<rparr>"

definition ELFMAG :: string where "ELFMAG = CHR 0x7f # ''ELF''"
definition SELFMAG :: nat where "SELFMAG = 4"
definition EI_CLASS :: nat where "EI_CLASS = 4"
definition ELFCLASS32 :: int where "ELFCLASS32 = 1"
definition ET_EXEC :: u16 where "ET_EXEC = 2"
definition PT_LOAD :: u32 where "PT_LOAD = 1"
definition PF_W :: u32 where "PF_W = 2"

definition overlay :: "string \<Rightarrow> string \<Rightarrow> string" where
  "overlay dst old = dst @ drop (length dst) old"

definition elf_read_ehdr32 ::
    "'a vfs_scheme drivers \<Rightarrow> vfile \<Rightarrow> string \<Rightarrow> 'a vfs_scheme \<Rightarrow> (Elf32_Ehdr \<times> vfile \<times> 'a vfs_scheme \<times> int) option" where
  "elf_read_ehdr32 D f old st =
    map_option (\<lambda>(dst, f, st, res).
      let ehdr = ehdr_of (overlay dst old)
      in if res < 0 then (ehdr, f, st, res)
         else if take SELFMAG (e_ident ehdr) \<noteq> ELFMAG then (ehdr, f, st, err EINVAL)
         else if uchar (e_ident ehdr ! EI_CLASS) \<noteq> ELFCLASS32 then (ehdr, f, st, err ENOTSUP)
         else if e_type ehdr \<noteq> ET_EXEC then (ehdr, f, st, err ENOTSUP)
         else (ehdr, f, st, 0))
    (file_read D f sizeof_Ehdr st)"

definition elf_read_phdr32 ::
    "'a vfs_scheme drivers \<Rightarrow> vfile \<Rightarrow> Elf32_Ehdr \<Rightarrow> nat \<Rightarrow> string \<Rightarrow> 'a vfs_scheme \<Rightarrow>
      (Elf32_Phdr \<times> vfile \<times> 'a vfs_scheme \<times> int) option" where
  "elf_read_phdr32 D f ehdr i old st =
    (let (f, st, res) = file_lseek D f (loff (uint (e_phoff ehdr + of_nat (i * sizeof_Phdr)))) SEEK_SET st
     in if res < 0 then Some (phdr_of old, f, st, res)
        else map_option (\<lambda>(dst, f, st, res). (phdr_of (overlay dst old), f, st, if res < 0 then res else 0))
               (file_read D f sizeof_Phdr st))"

section \<open>Segments\<close>

partial_function (option) elf_copy ::
    "'a rdstate_scheme drivers \<Rightarrow> u32 \<Rightarrow> u32 \<Rightarrow> vfile \<Rightarrow> 'a rdstate_scheme \<Rightarrow> (u32 \<times> vfile \<times> 'a rdstate_scheme \<times> int) option" where
  "elf_copy D vpos fend f st =
    (if vpos < fend
     then Option.bind (file_read_to D f vpos (unat (fend - vpos)) st) (\<lambda>(bs, f, st, res).
            let st = st\<lparr>kmem := mem_write (kmem st) (unat vpos) bs\<rparr>;
                vpos = vpos + of_int res
            in if res < 0 then Some (vpos, f, st, res) else elf_copy D vpos fend f st)
     else Some (vpos, f, st, 0))"

definition elf_load_seg32 ::
    "'a rdstate_scheme drivers \<Rightarrow> vfile \<Rightarrow> Elf32_Phdr \<Rightarrow> 'a rdstate_scheme \<Rightarrow> (vfile \<times> 'a rdstate_scheme \<times> int) option" where
  "elf_load_seg32 D f phdr st =
    (let (f, st, res) = file_lseek D f (loff (uint (p_offset phdr))) SEEK_SET st
     in if res < 0 then Some (f, st, res)
        else let vaddr = p_vaddr phdr; fend = vaddr + p_filesz phdr; mend = vaddr + p_memsz phdr
             in map_option (\<lambda>(vpos, f, st, res).
                  if res < 0 then (f, st, res)
                  else (f, st\<lparr>kmem := memset (kmem st) (unat vpos) 0 (unat (mend - vpos))\<rparr>, 0))
                (elf_copy D vaddr fend f st))"

section \<open>What the loader needs of a file\<close>

lemma unat_small: "n < 2 ^ 32 \<Longrightarrow> unat (of_nat n :: u32) = n"
  by (simp add: unat_of_nat take_bit_nat_eq_self)

lemma loff_nat: "n < 2 ^ 31 \<Longrightarrow> loff (int n) = int n"
  by (rule loff_small) simp_all

lemma uint_small: "n < 2 ^ 32 \<Longrightarrow> uint (of_nat n :: u32) = int n"
  by (simp add: unsigned_of_nat take_bit_nat_eq_self)

locale file_source =
  fixes D :: "'a rdstate_scheme drivers"
    and has :: "vfile \<Rightarrow> 'a rdstate_scheme \<Rightarrow> string \<Rightarrow> bool"
  assumes src_read: "has f st c \<Longrightarrow> f_pos f = int p \<Longrightarrow> p \<le> length c \<Longrightarrow> p + n < 2 ^ 31 \<Longrightarrow>
      file_read D f n st = Some (take n (drop p c), f\<lparr>f_pos := int (p + length (take n (drop p c)))\<rparr>, st, int (length (take n (drop p c))))"
    and src_seek: "has f st c \<Longrightarrow> file_lseek D f off SEEK_SET st = (f\<lparr>f_pos := off\<rparr>, st, 0)"
    and src_pos: "has f st c \<Longrightarrow> has (f\<lparr>f_pos := q\<rparr>) st c"
begin

lemma read_ehdr:
  assumes "has f st c" "f_pos f = 0" "sizeof_Ehdr \<le> length c"
  shows "elf_read_ehdr32 D f old st =
    Some (ehdr_of (take sizeof_Ehdr c @ drop sizeof_Ehdr old), f\<lparr>f_pos := int sizeof_Ehdr\<rparr>, st,
      if take SELFMAG c \<noteq> ELFMAG then err EINVAL
      else if uchar (c ! EI_CLASS) \<noteq> ELFCLASS32 \<or> half c 16 \<noteq> ET_EXEC then err ENOTSUP else 0)"
proof -
  let ?bs = "take sizeof_Ehdr c @ drop sizeof_Ehdr old"
  have r: "file_read D f sizeof_Ehdr st = Some (take sizeof_Ehdr c, f\<lparr>f_pos := int sizeof_Ehdr\<rparr>, st, int sizeof_Ehdr)"
    using src_read [OF assms(1), of 0 sizeof_Ehdr] assms(2,3) by (simp add: min_absorb2 sizeof_Ehdr_def)
  have o: "overlay (take sizeof_Ehdr c) old = ?bs" using assms(3) by (simp add: overlay_def min_absorb2)
  have "e_type (ehdr_of ?bs) = half c 16" using assms(3) by (simp add: ehdr_of_def half_def sizeof_Ehdr_def nth_append)
  moreover have "e_ident (ehdr_of ?bs) = take 16 c" using assms(3) by (simp add: ehdr_of_def sizeof_Ehdr_def)
  then have "take SELFMAG (e_ident (ehdr_of ?bs)) = take SELFMAG c" "e_ident (ehdr_of ?bs) ! EI_CLASS = c ! EI_CLASS"
    by (simp_all add: SELFMAG_def EI_CLASS_def)
  ultimately show ?thesis by (simp add: elf_read_ehdr32_def r o Let_def)
qed

lemma read_phdr:
  assumes "has f st c" "uint (e_phoff eh) + int (i * sizeof_Phdr + sizeof_Phdr) \<le> int (length c)" "length c < 2 ^ 31"
  shows "\<exists>q. elf_read_phdr32 D f eh i old st =
    Some (phdr_of (take sizeof_Phdr (drop (unat (e_phoff eh) + i * sizeof_Phdr) c) @ drop sizeof_Phdr old), f\<lparr>f_pos := q\<rparr>, st, 0)"
proof -
  let ?p = "unat (e_phoff eh) + i * sizeof_Phdr"
  have "uint (e_phoff eh) = int (unat (e_phoff eh))" by simp
  then have p: "?p + sizeof_Phdr \<le> length c" using assms(2) by linarith
  have "uint (e_phoff eh + of_nat (i * sizeof_Phdr)) = int ?p"
  proof -
    have "e_phoff eh + of_nat (i * sizeof_Phdr) = (of_nat ?p :: u32)" by simp
    moreover have "uint (of_nat ?p :: u32) = int ?p" by (rule uint_small) (use p assms(3) in simp)
    ultimately show ?thesis by (simp only:)
  qed
  then have l: "loff (uint (e_phoff eh + of_nat (i * sizeof_Phdr))) = int ?p"
    using loff_nat [of ?p] p assms(3) by (simp only:)
  have r: "file_read D (f\<lparr>f_pos := int ?p\<rparr>) sizeof_Phdr st = Some (take sizeof_Phdr (drop ?p c),
      f\<lparr>f_pos := int (?p + sizeof_Phdr)\<rparr>, st, int sizeof_Phdr)"
    using src_read [OF src_pos [OF assms(1)], of "int ?p" ?p sizeof_Phdr] p assms(3) by (simp add: min_absorb2)
  show ?thesis
    unfolding elf_read_phdr32_def l src_seek [OF assms(1)] Let_def prod.case r using p
    by (auto simp: overlay_def min_absorb2)
qed

text \<open>One read delivers all bytes of a segment that the file has, so the copy loop ends after one round.\<close>

lemma copy_segment:
  assumes "has f st c" "f_pos f = int off" "off + n \<le> length c" "length c < 2 ^ 31" "unat vaddr + n < 2 ^ 32" "vaddr \<noteq> 0"
  shows "elf_copy D vaddr (vaddr + of_nat n) f st =
    Some (vaddr + of_nat n, f\<lparr>f_pos := int (off + n)\<rparr>, st\<lparr>kmem := mem_write (kmem st) (unat vaddr) (take n (drop off c))\<rparr>, 0)"
proof -
  have un: "unat (of_nat n :: u32) = n" using assms(3,4) by (simp add: unat_of_nat)
  have "unat (vaddr + of_nat n) = unat vaddr + n" using assms(5) un by (simp add: unat_word_ariths)
  then have lt: "vaddr < vaddr + of_nat n \<longleftrightarrow> n \<noteq> 0" by (auto simp: word_less_nat_alt)
  have end_eq: "elf_copy D (vaddr + of_nat n) (vaddr + of_nat n) f' s = Some (vaddr + of_nat n, f', s, 0)" for f' s
    by (simp add: elf_copy.simps)
  show ?thesis
  proof (cases "n = 0")
    case True
    have "f\<lparr>f_pos := int off\<rparr> = f" using assms(2) by (cases f) simp
    then show ?thesis using True end_eq [of f st] by simp
  next
    case False
    have r: "file_read D f n st = Some (take n (drop off c), f\<lparr>f_pos := int (off + n)\<rparr>, st, int n)"
      using src_read [OF assms(1,2), of n] assms(3,4) by (simp add: min_absorb2)
    show ?thesis using False by (subst elf_copy.simps) (simp add: file_read_to_def lt un r end_eq assms(6) del: of_nat_add)
  qed
qed

lemma load_segment:
  assumes "has f st c" "unat (p_offset ph) + unat (p_filesz ph) \<le> length c" "length c < 2 ^ 31"
    "p_filesz ph \<le> p_memsz ph" "unat (p_vaddr ph) + unat (p_memsz ph) < 2 ^ 32" "p_vaddr ph \<noteq> 0"
  shows "\<exists>q. elf_load_seg32 D f ph st = Some (f\<lparr>f_pos := q\<rparr>, st\<lparr>kmem := mem_write (kmem st) (unat (p_vaddr ph))
      (take (unat (p_filesz ph)) (drop (unat (p_offset ph)) c) @ replicate (unat (p_memsz ph) - unat (p_filesz ph)) NUL)\<rparr>, 0)"
proof -
  let ?n = "unat (p_filesz ph)" and ?off = "unat (p_offset ph)" and ?v = "p_vaddr ph"
  have le: "?n \<le> unat (p_memsz ph)" using assms(4) by (simp add: word_le_nat_alt)
  have "?off < 2 ^ 31" using assms(2,3) by simp
  from loff_nat [OF this] have l: "loff (uint (p_offset ph)) = int ?off" by simp
  have cp: "elf_copy D ?v (?v + p_filesz ph) (f\<lparr>f_pos := int ?off\<rparr>) st =
      Some (?v + p_filesz ph, f\<lparr>f_pos := int (?off + ?n)\<rparr>, st\<lparr>kmem := mem_write (kmem st) (unat ?v) (take ?n (drop ?off c))\<rparr>, 0)"
    using copy_segment [OF src_pos [OF assms(1)], of "int ?off" ?off ?n ?v] assms(2,3,5,6) le by simp
  have e: "unat (?v + p_filesz ph) = unat ?v + ?n" using assms(5) le by (simp add: unat_word_ariths)
  have z: "unat (?v + p_memsz ph - (?v + p_filesz ph)) = unat (p_memsz ph) - ?n" using unat_sub [OF assms(4)] by simp
  have w: "mem_write (mem_write m (unat ?v) (take ?n (drop ?off c))) (unat ?v + ?n) zs =
      mem_write m (unat ?v) (take ?n (drop ?off c) @ zs)" for m zs
    using assms(2) mem_write_append [of m "unat ?v" "take ?n (drop ?off c)" zs] by (simp add: min_absorb2)
  have "to_char 0 = NUL" by (simp add: to_char_def char_of_def)
  then show ?thesis
    unfolding elf_load_seg32_def l src_seek [OF assms(1)] Let_def prod.case cp option.map by (auto simp: e z [simplified] memset_eq w)
qed

text \<open>A read of 0 bytes brings the loop back to the same arguments and the same state.\<close>

lemma copy_stuck:
  assumes fr: "file_read_to D f vpos (unat (fend - vpos)) st = Some ([], f, st, 0)" and lt: "vpos < fend"
  shows "elf_copy D vpos fend f st = None"
proof (rule ccontr)
  assume "elf_copy D vpos fend f st \<noteq> None"
  then obtain r where r: "elf_copy D vpos fend f st = Some r" by blast
  have "\<not> (D = D \<and> vpos = vpos \<and> fend = fend \<and> f = f \<and> st = st)"
  proof (rule elf_copy.raw_induct [OF _ r, where P = "\<lambda>D' v e g s r. \<not> (D' = D \<and> v = vpos \<and> e = fend \<and> g = f \<and> s = st)"])
    fix elf_copy' D' v e g and s :: "'a rdstate_scheme" and r
    assume IH: "\<And>D' v e g s r. elf_copy' D' v e g s = Some r \<Longrightarrow> \<not> (D' = D \<and> v = vpos \<and> e = fend \<and> g = f \<and> s = st)"
      and b: "(if v < e then Option.bind (file_read_to D' g v (unat (e - v)) s) (\<lambda>(bs, f, st, res).
            let st = st\<lparr>kmem := mem_write (kmem st) (unat v) bs\<rparr>; vpos = v + of_int res
            in if res < 0 then Some (vpos, f, st, res) else elf_copy' D' vpos e f st) else Some (v, g, s, 0)) = Some r"
    show "\<not> (D' = D \<and> v = vpos \<and> e = fend \<and> g = f \<and> s = st)"
    proof
      assume "D' = D \<and> v = vpos \<and> e = fend \<and> g = f \<and> s = st"
      with b have "elf_copy' D vpos fend f st = Some r" using lt by (simp add: fr)
      with IH show False by blast
    qed
  qed
  then show False by simp
qed

lemma copy_at_end:
  assumes "has f st c" "f_pos f = int (length c)" "length c + unat (fend - vpos) < 2 ^ 31" "vpos < fend"
  shows "elf_copy D vpos fend f st = None"
proof (rule copy_stuck [OF _ assms(4)])
  have "f\<lparr>f_pos := int (length c)\<rparr> = f" using assms(2) by (cases f) simp
  then show "file_read_to D f vpos (unat (fend - vpos)) st = Some ([], f, st, 0)"
    using src_read [OF assms(1,2), of "if vpos = 0 then 0 else unat (fend - vpos)"] assms(3) by (simp add: file_read_to_def)
qed

lemma load_null:
  assumes "has f st c" "unat (p_offset ph) \<le> length c" "length c < 2 ^ 31" "p_vaddr ph = 0" "p_filesz ph \<noteq> 0"
  shows "elf_load_seg32 D f ph st = None"
proof -
  let ?off = "unat (p_offset ph)" and ?f = "f\<lparr>f_pos := int (unat (p_offset ph))\<rparr>"
  have "?off < 2 ^ 31" using assms(2,3) by simp
  from loff_nat [OF this] have l: "loff (uint (p_offset ph)) = int ?off" by simp
  have "file_read_to D ?f 0 (unat (p_filesz ph - 0)) st = Some ([], ?f, st, 0)"
    using src_read [OF src_pos [OF assms(1)], of "int ?off" ?off 0] assms(2,3) by (simp add: file_read_to_def)
  then have "elf_copy D 0 (p_filesz ph) ?f st = None" by (rule copy_stuck) (use assms(5) in \<open>simp add: word_neq_0_conv\<close>)
  then show ?thesis unfolding elf_load_seg32_def l src_seek [OF assms(1)] Let_def prod.case using assms(4) by simp
qed

lemma load_truncated:
  assumes "has f st c" "unat (p_offset ph) \<le> length c" "length c < unat (p_offset ph) + unat (p_filesz ph)"
    "unat (p_offset ph) + unat (p_filesz ph) < 2 ^ 31" "unat (p_vaddr ph) + unat (p_filesz ph) < 2 ^ 32" "p_vaddr ph \<noteq> 0"
    "has f (st\<lparr>kmem := mem_write (kmem st) (unat (p_vaddr ph)) (drop (unat (p_offset ph)) c)\<rparr>) c"
  shows "elf_load_seg32 D f ph st = None"
proof -
  let ?n = "unat (p_filesz ph)" and ?off = "unat (p_offset ph)" and ?v = "p_vaddr ph" and ?k = "length c - unat (p_offset ph)"
  let ?st = "st\<lparr>kmem := mem_write (kmem st) (unat ?v) (drop ?off c)\<rparr>" and ?fend = "p_vaddr ph + p_filesz ph"
  have "?off < 2 ^ 31" using assms(4) by simp
  from loff_nat [OF this] have l: "loff (uint (p_offset ph)) = int ?off" by simp
  have e: "unat ?fend = unat ?v + ?n" using assms(5) by (simp add: unat_word_ariths)
  have k: "?k < ?n" "?k < 2 ^ 32" using assms(2-4) by auto
  have uk: "unat (of_nat ?k :: u32) = ?k" using k(2) by (rule unat_small)
  have v: "unat (?v + of_nat ?k) = unat ?v + ?k" using assms(5) k uk by (simp add: unat_word_ariths)
  have lt: "?v < ?fend" "?v + of_nat ?k < ?fend" using e v k by (simp_all add: word_less_nat_alt)
  have d: "unat (?fend - (?v + of_nat ?k)) = ?n - ?k"
    using unat_sub [of "?v + of_nat ?k" ?fend] lt(2) e v by simp
  have r: "file_read_to D (f\<lparr>f_pos := int ?off\<rparr>) ?v ?n st = Some (drop ?off c, f\<lparr>f_pos := int (length c)\<rparr>, st, int ?k)"
    using src_read [OF src_pos [OF assms(1)], of "int ?off" ?off ?n] assms(2-4,6) by (simp add: file_read_to_def)
  have "elf_copy D (?v + of_nat ?k) ?fend (f\<lparr>f_pos := int (length c)\<rparr>) ?st = None"
    by (rule copy_at_end [OF src_pos [OF assms(7)]]) (use d lt assms(2-4) in simp_all)
  then have "elf_copy D ?v ?fend (f\<lparr>f_pos := int ?off\<rparr>) st = None"
  proof -
    assume *: "elf_copy D (?v + of_nat ?k) ?fend (f\<lparr>f_pos := int (length c)\<rparr>) ?st = None"
    have n: "unat (?fend - ?v) = ?n" "of_int (int ?k) = (of_nat ?k :: u32)" "\<not> int ?k < 0" by simp_all
    show ?thesis unfolding elf_copy.simps [of D ?v] if_P [OF lt(1)] n(1) r bind.simps Let_def prod.case n(2) if_not_P [OF n(3)] by (rule *)
  qed
  then show ?thesis unfolding elf_load_seg32_def l src_seek [OF assms(1)] Let_def prod.case by simp
qed

end

text \<open>A file of an archive on a RAM disk.\<close>

interpretation cpf: file_source "with_cpiofs (with_ramdisk D)" cpio_file for D :: "'a cpstate_scheme drivers"
proof unfold_locales
  fix f c p n and st :: "'a cpstate_scheme"
  assume a: "cpio_file f st c" "f_pos f = int p" "p \<le> length c" "p + n < 2 ^ (31::nat)"
  show "file_read (with_cpiofs (with_ramdisk D)) f n st =
      Some (take n (drop p c), f\<lparr>f_pos := int (p + length (take n (drop p c)))\<rparr>, st, int (length (take n (drop p c))))"
    using cpio_file_read_data [OF a, of D] a(1,2)
    by (simp add: file_read_def has_op_def cpio_file_def with_cpiofs_def cpio_file_ops_def)
next
  show "cpio_file f st c \<Longrightarrow> file_lseek (with_cpiofs (with_ramdisk D)) f off SEEK_SET st = (f\<lparr>f_pos := off\<rparr>, st, 0)"
    for f c off and st :: "'a cpstate_scheme"
    by (auto simp: file_lseek_def cpio_file_def with_cpiofs_def cpio_file_ops_def)
  show "cpio_file f st c \<Longrightarrow> cpio_file (f\<lparr>f_pos := q\<rparr>) st c" for f c q and st :: "'a cpstate_scheme" by (simp add: cpio_file_def)
qed

text \<open>A write outside the RAM disks leaves the files of an archive as they are.\<close>

lemma cpio_file_write:
  fixes st :: "'a cpstate_scheme"
  assumes "disks_outside st lo hi" "lo \<le> a" "a + length bs \<le> hi" "cpio_file f st c"
  shows "cpio_file f (st\<lparr>kmem := mem_write (kmem st) a bs\<rparr>) c"
proof -
  have "disk_file g (st\<lparr>kmem := mem_write (kmem st) a bs\<rparr>) d" if "disk_file g st d" for g d
  proof -
    obtain i where i: "f_driver_data g = Some i" "i < RAMDISKS_MAX" "d = mem_read (kmem st) (rd_addr (ramdisks st ! i)) (rd_size (ramdisks st ! i))"
      using \<open>disk_file g st d\<close> by (auto simp: disk_file_def)
    have "mem_read (mem_write (kmem st) a bs) (rd_addr (ramdisks st ! i)) (rd_size (ramdisks st ! i)) = d"
      unfolding i(3) by (rule mem_read_write_disjoint) (use assms(1-3) i(2) in \<open>force simp: disks_outside_def\<close>)
    then show ?thesis using that i(1,2) by (simp add: disk_file_def)
  qed
  then show ?thesis using assms(4) by (fastforce simp: cpio_file_def)
qed

lemma cpio_file_pos [simp]: "cpio_file (f\<lparr>f_pos := x\<rparr>) st c = cpio_file f st c"
  by (simp add: cpio_file_def)

section \<open>Properties\<close>

text \<open>
  Property C10. Loading a segment of an executable in an archive: the file's bytes are in memory at the segment's
  virtual address, the rest of the segment is zero up to its size in memory, no other byte of memory
  changes, the file can be read as before, and the load returns 0. The header must be consistent: the bytes are in
  the file, the size in memory is not less than the size in the file, and the segment does not start at the NULL
  pointer or wrap around the address space. The segment must also keep off the RAM disks, from which the driver copies
  byte by byte, and off the area of the page tables.
\<close>

theorem elf_load_seg32_correct:
  fixes st :: "'a cpstate_scheme"
  assumes "cpio_file f st c" "unat (p_offset ph) + unat (p_filesz ph) \<le> length c" "length c < 2 ^ 31"
    "p_filesz ph \<le> p_memsz ph" "unat (p_vaddr ph) + unat (p_memsz ph) < 2 ^ 32" "p_vaddr ph \<noteq> 0"
    and disks: "disks_outside st (unat (p_vaddr ph)) (unat (p_vaddr ph) + unat (p_memsz ph))"
    and tables: "outside_tables (unat (p_vaddr ph)) (unat (p_vaddr ph) + unat (p_memsz ph))"
  shows "\<exists>f' m. elf_load_seg32 (with_cpiofs (with_ramdisk D)) f ph st = Some (f', st\<lparr>kmem := m\<rparr>, 0) \<and>
    cpio_file f' (st\<lparr>kmem := m\<rparr>) c \<and>
    mem_read m (unat (p_vaddr ph)) (unat (p_memsz ph)) =
      take (unat (p_filesz ph)) (drop (unat (p_offset ph)) c) @ replicate (unat (p_memsz ph) - unat (p_filesz ph)) NUL \<and>
    (\<forall>a. a < unat (p_vaddr ph) \<or> unat (p_vaddr ph) + unat (p_memsz ph) \<le> a \<longrightarrow> m a = kmem st a)"
proof -
  let ?bs = "take (unat (p_filesz ph)) (drop (unat (p_offset ph)) c) @ replicate (unat (p_memsz ph) - unat (p_filesz ph)) NUL"
  have len: "length ?bs = unat (p_memsz ph)" using assms(2,4) by (simp add: word_le_nat_alt)
  let ?m = "mem_write (kmem st) (unat (p_vaddr ph)) ?bs"
  have "mem_read ?m (unat (p_vaddr ph)) (unat (p_memsz ph)) = ?bs" using len by (rule mem_read_write_same)
  moreover have "?m a = kmem st a" if "a < unat (p_vaddr ph) \<or> unat (p_vaddr ph) + unat (p_memsz ph) \<le> a" for a
    using that len by (intro mem_write_outside) simp
  moreover have "cpio_file (f\<lparr>f_pos := q\<rparr>) (st\<lparr>kmem := ?m\<rparr>) c" for q
    using cpio_file_write [OF disks _ _ assms(1), of "unat (p_vaddr ph)" ?bs] len by simp
  ultimately show ?thesis using cpf.load_segment [OF assms(1-6), of D] by blast
qed

definition tiny_phdr :: Elf32_Phdr where
  "tiny_phdr = \<lparr>p_type = PT_LOAD, p_offset = 1, p_vaddr = 0x400000, p_paddr = 0x400000, p_filesz = 2, p_memsz = 5, p_flags = 0, p_align = 0\<rparr>"

text \<open>The file \<open>bin/hello\<close> of the example archive, as the first open file.\<close>

definition hello_state :: cpstate where
  "hello_state = (cp_state [])\<lparr>ramdisks := [\<lparr>rd_addr = 100, rd_size = 3, rd_name = ''d''\<rparr>, ramdisk0, ramdisk0, ramdisk0], kmem := mem_write (\<lambda>a. NUL) 100 ''Hi!'',
     cfdatas := [\<lparr>af = file0\<lparr>f_stat := fstat0\<lparr>f_size := 3\<rparr>, f_op := Some RamdiskDrv, f_driver_data := Some 0\<rparr>, cf_h = cpio_header0, foff = 0\<rparr>]\<rparr>"

definition hello_file :: vfile where
  "hello_file = file0\<lparr>f_stat := fstat0\<lparr>f_size := 3\<rparr>, f_op := Some CpioFileDrv, f_driver_data := Some 0\<rparr>"

lemma hello_cpio_file:
  assumes "mem_read m 100 3 = ''Hi!''"
  shows "cpio_file hello_file (hello_state\<lparr>kmem := m\<rparr>) ''Hi!''"
proof -
  have "disk_file (af (cfdatas hello_state ! 0)) (hello_state\<lparr>kmem := m\<rparr>) ([] @ ''Hi!'' @ [])"
    using assms by (simp add: disk_file_def RAMDISKS_MAX_def hello_state_def)
  then show ?thesis unfolding cpio_file_def
    by (intro conjI exI [of _ 0] exI [of _ "[]"]) (simp_all add: hello_file_def hello_state_def)
qed

lemma hello_content: "cpio_file hello_file hello_state ''Hi!''"
proof -
  have "mem_read (kmem hello_state) 100 3 = ''Hi!''" by (simp add: hello_state_def mem_read_write_same)
  from hello_cpio_file [OF this] show ?thesis by simp
qed

theorem elf_load_seg32_correct_witness:
  "\<exists>f' m. elf_load_seg32 (with_cpiofs (with_ramdisk no_drivers)) hello_file tiny_phdr hello_state = Some (f', hello_state\<lparr>kmem := m\<rparr>, 0) \<and>
    mem_read m 0x400000 5 = ''i!'' @ [NUL, NUL, NUL]"
proof -
  have "disks_outside hello_state 0x400000 0x400005"
    by (auto simp: disks_outside_def hello_state_def RAMDISKS_MAX_def ramdisk0_def nth_Cons split: nat.splits)
  moreover have "outside_tables 0x400000 0x400005" by (simp add: outside_tables_def PM_AREA_def PHYSPAGES_MAX_def PAGESZ_def)
  ultimately show ?thesis using elf_load_seg32_correct [OF hello_content, of tiny_phdr no_drivers]
    by (simp add: tiny_phdr_def numeral_3_eq_3) blast
qed

text \<open>
  A segment that reaches beyond the end of the file is never loaded: at the end of the file every read
  returns 0 bytes, which the copy loop does not take for an error, and it goes on for ever. (The bytes that are
  there are assumed not to overwrite the file itself.)
\<close>

theorem elf_load_truncated_diverges:
  fixes st :: "'a cpstate_scheme"
  assumes "cpio_file f st c" "unat (p_offset ph) \<le> length c" "length c < unat (p_offset ph) + unat (p_filesz ph)"
    "unat (p_offset ph) + unat (p_filesz ph) < 2 ^ 31" "unat (p_vaddr ph) + unat (p_filesz ph) < 2 ^ 32" "p_vaddr ph \<noteq> 0"
    "cpio_file f (st\<lparr>kmem := mem_write (kmem st) (unat (p_vaddr ph)) (drop (unat (p_offset ph)) c)\<rparr>) c"
  shows "elf_load_seg32 (with_cpiofs (with_ramdisk D)) f ph st = None"
  by (rule cpf.load_truncated [OF assms])

theorem elf_load_truncated_diverges_witness:
  "elf_load_seg32 (with_cpiofs (with_ramdisk no_drivers)) hello_file (tiny_phdr\<lparr>p_filesz := 4\<rparr>) hello_state = None"
proof (rule elf_load_truncated_diverges [OF hello_content])
  show "cpio_file hello_file (hello_state\<lparr>kmem := mem_write (kmem hello_state) (unat (p_vaddr (tiny_phdr\<lparr>p_filesz := 4\<rparr>)))
      (drop (unat (p_offset (tiny_phdr\<lparr>p_filesz := 4\<rparr>))) ''Hi!'')\<rparr>) ''Hi!''"
    by (rule hello_cpio_file) (simp add: tiny_phdr_def hello_state_def mem_read_def mem_write_def upt_rec)
qed (simp_all add: tiny_phdr_def)

text \<open>
  Property C40. The loader never returns on a segment at the address 0 that has bytes in the file: \<open>file_read\<close> returns 0 for a NULL
  destination, and the copy loop of \<open>elf_load_seg32\<close> ends only when all bytes are read or an error is returned.
\<close>

theorem elf_load_null_diverges:
  fixes st :: "'a cpstate_scheme"
  assumes "cpio_file f st c" "unat (p_offset ph) \<le> length c" "length c < 2 ^ 31" "p_vaddr ph = 0" "p_filesz ph \<noteq> 0"
  shows "elf_load_seg32 (with_cpiofs (with_ramdisk D)) f ph st = None"
  by (rule cpf.load_null [OF assms])

theorem elf_load_null_diverges_witness:
  "elf_load_seg32 (with_cpiofs (with_ramdisk no_drivers)) hello_file (tiny_phdr\<lparr>p_vaddr := 0\<rparr>) hello_state = None"
  by (rule elf_load_null_diverges [OF hello_content]) (simp_all add: tiny_phdr_def)

end
