(* ===== verification/Serial.thy ===== *)
theory Serial
  imports Cpiofs
begin

text \<open>
  The serial port driver (\<open>drivers/chrdev/serial.c\<close>). The devices behind the I/O ports are not part of the
  program: \<open>inb\<close> and \<open>outb\<close> go to a bus \<open>B\<close>, a parameter of every function, whose state \<open>hw\<close> is a component of
  the kernel state. What the proofs use of a port is the locale \<open>uart\<close>; it is interpreted on a simple
  device with input, output and a transmitter that is busy for some time.
\<close>

section \<open>Ports and registers\<close>

record 'h bus =
  bus_in :: "u16 \<Rightarrow> 'h \<Rightarrow> u8 \<times> 'h"
  bus_out :: "u8 \<Rightarrow> u16 \<Rightarrow> 'h \<Rightarrow> 'h"

record serial =
  s_port :: u16
  s_flags :: u32

record 'h srstate = cpstate +
  serials :: "serial list"
  hw :: 'h

definition inb :: "'h bus \<Rightarrow> u16 \<Rightarrow> ('h, 'a) srstate_scheme \<Rightarrow> u8 \<times> ('h, 'a) srstate_scheme" where
  "inb B p st = (let (v, h) = bus_in B p (hw st) in (v, st\<lparr>hw := h\<rparr>))"

definition outb :: "'h bus \<Rightarrow> u8 \<Rightarrow> u16 \<Rightarrow> ('h, 'a) srstate_scheme \<Rightarrow> ('h, 'a) srstate_scheme" where
  "outb B v p st = st\<lparr>hw := bus_out B v p (hw st)\<rparr>"

definition PORT_NOS :: "u16 list" where "PORT_NOS = [0x3f8, 0x2f8]"

definition POFF_MODEMCTL :: u16 where "POFF_MODEMCTL = 4"
definition POFF_LINESTAT :: u16 where "POFF_LINESTAT = 5"
definition LS_DR :: u8 where "LS_DR = 0x01"
definition LS_THRE :: u8 where "LS_THRE = 0x20"
definition MC_DTR :: u8 where "MC_DTR = 0x01"
definition MC_RTS :: u8 where "MC_RTS = 0x02"
definition MC_OUT1 :: u8 where "MC_OUT1 = 0x04"
definition MC_OUT2 :: u8 where "MC_OUT2 = 0x08"
definition MC_LOOP :: u8 where "MC_LOOP = 0x10"

definition SRL_GETFLAGS :: nat where "SRL_GETFLAGS = 0"
definition SRL_SETFLAGS :: nat where "SRL_SETFLAGS = 1"
definition SRL_ICRNL :: u32 where "SRL_ICRNL = 1"
definition SRL_OCRNL :: u32 where "SRL_OCRNL = 2"

section \<open>The driver\<close>

definition serial_open_dev ::
    "'h bus \<Rightarrow> vfile \<Rightarrow> nat \<Rightarrow> ('h, 'a) srstate_scheme \<Rightarrow> vfile \<times> ('h, 'a) srstate_scheme \<times> int" where
  "serial_open_dev B file mi st =
    (if mi < 1 \<or> length PORT_NOS < mi then (file, st, err ENODEV)
     else let k = mi - 1;
              file = file\<lparr>f_driver_data := Some k\<rparr>
          in if s_port (serials st ! k) \<noteq> 0 then (file, st, 0)
             else let p = PORT_NOS ! k;
                      st = st\<lparr>serials := (serials st)[k := (serials st ! k)\<lparr>s_port := p\<rparr>]\<rparr>;
                      st = outb B (MC_RTS OR MC_LOOP) (p + POFF_MODEMCTL) st;
                      st = outb B 0x0a p st;
                      (v, st) = inb B p st
                  in if v \<noteq> 0x0a then (file, st, err EIO)
                     else (file, outb B (MC_DTR OR MC_RTS OR MC_OUT1 OR MC_OUT2) (p + POFF_MODEMCTL) st, 0))"

definition check_linestat :: "'h bus \<Rightarrow> nat \<Rightarrow> u8 \<Rightarrow> ('h, 'a) srstate_scheme \<Rightarrow> bool \<times> ('h, 'a) srstate_scheme" where
  "check_linestat B k bits st =
    (let (v, st) = inb B (s_port (serials st ! k) + POFF_LINESTAT) st in (v AND bits \<noteq> 0, st))"

definition serial_readch :: "'h bus \<Rightarrow> nat \<Rightarrow> ('h, 'a) srstate_scheme \<Rightarrow> int \<times> ('h, 'a) srstate_scheme" where
  "serial_readch B k st =
    (let (dr, st) = check_linestat B k LS_DR st
     in if \<not> dr then (err EAGAIN, st)
        else let (v, st) = inb B (s_port (serials st ! k)) st in (uint v, st))"

text \<open>The result is the character as an \<open>int\<close>, which is negative above 127.\<close>

partial_function (option) serial_writech ::
    "'h bus \<Rightarrow> nat \<Rightarrow> char \<Rightarrow> ('h, 'a) srstate_scheme \<Rightarrow> (int \<times> ('h, 'a) srstate_scheme) option" where
  "serial_writech B k ch st =
    (let (ready, st) = check_linestat B k LS_THRE st
     in if \<not> ready then serial_writech B k ch st
        else Some (schar ch, outb B (of_int (schar ch)) (s_port (serials st ! k)) st))"

definition ifilter :: "serial \<Rightarrow> char \<Rightarrow> char" where
  "ifilter s ch = (if s_flags s AND SRL_ICRNL \<noteq> 0 \<and> ch = CHR 0x0d then CHR 0x0a else ch)"

definition ofilter :: "serial \<Rightarrow> char \<Rightarrow> string" where
  "ofilter s ch = (if s_flags s AND SRL_OCRNL \<noteq> 0 \<and> ch = CHR 0x0a then [CHR 0x0d] else []) @ [ch]"

fun serial_read_loop ::
    "'h bus \<Rightarrow> nat \<Rightarrow> nat \<Rightarrow> nat \<Rightarrow> ('h, 'a) srstate_scheme \<Rightarrow> string \<times> ('h, 'a) srstate_scheme \<times> int" where
  "serial_read_loop B k n 0 st = ([], st, int n)"
| "serial_read_loop B k n (Suc rem) st =
    (let (c, st) = serial_readch B k st
     in if c = err EAGAIN \<and> n \<noteq> 0 then ([], st, int n)
        else if c < 0 then ([], st, c)
        else let (bs, st', res) = serial_read_loop B k (Suc n) rem st
             in (ifilter (serials st ! k) (to_char c) # bs, st', res))"

definition serial_read ::
    "'h bus \<Rightarrow> vfile \<Rightarrow> nat \<Rightarrow> int \<Rightarrow> ('h, 'a) srstate_scheme \<Rightarrow> (string \<times> int \<times> ('h, 'a) srstate_scheme \<times> int) option" where
  "serial_read B f cnt off st =
    (let (bs, st, res) = serial_read_loop B (the (f_driver_data f)) 0 cnt st in Some (bs, off, st, res))"

text \<open>The output characters of one character; the left result is the value of an early return.\<close>

fun serial_out :: "'h bus \<Rightarrow> nat \<Rightarrow> string \<Rightarrow> ('h, 'a) srstate_scheme \<Rightarrow> (int option \<times> ('h, 'a) srstate_scheme) option" where
  "serial_out B k [] st = Some (None, st)"
| "serial_out B k (ch # out) st =
    Option.bind (serial_writech B k ch st) (\<lambda>(res, st). if res < 0 then Some (Some res, st) else serial_out B k out st)"

fun serial_write_loop ::
    "'h bus \<Rightarrow> nat \<Rightarrow> string \<Rightarrow> ('h, 'a) srstate_scheme \<Rightarrow> (int option \<times> ('h, 'a) srstate_scheme) option" where
  "serial_write_loop B k [] st = Some (None, st)"
| "serial_write_loop B k (ch # src) st =
    Option.bind (serial_out B k (ofilter (serials st ! k) ch) st) (\<lambda>(r, st).
      case r of Some res \<Rightarrow> Some (Some res, st) | None \<Rightarrow> serial_write_loop B k src st)"

definition serial_write ::
    "'h bus \<Rightarrow> vfile \<Rightarrow> string \<Rightarrow> int \<Rightarrow> ('h, 'a) srstate_scheme \<Rightarrow> (int \<times> ('h, 'a) srstate_scheme \<times> int) option" where
  "serial_write B f src off st =
    map_option (\<lambda>(r, st). (off, st, case r of Some res \<Rightarrow> res | None \<Rightarrow> int (length src)))
      (serial_write_loop B (the (f_driver_data f)) src st)"

text \<open>A 32-bit value is stored with its least significant byte first.\<close>

definition le32 :: "u32 \<Rightarrow> string" where
  "le32 v = map (\<lambda>i. char_of (unat (drop_bit (8 * i) v) mod 256)) [0, 1, 2, 3]"

definition serial_ioctl :: "vfile \<Rightarrow> nat \<Rightarrow> u32 \<Rightarrow> ('h, 'a) srstate_scheme \<Rightarrow> ('h, 'a) srstate_scheme \<times> int" where
  "serial_ioctl f cmd arg st =
    (let k = the (f_driver_data f)
     in if cmd = SRL_GETFLAGS then (st\<lparr>kmem := mem_write (kmem st) (unat arg) (le32 (s_flags (serials st ! k)))\<rparr>, 0)
        else if cmd = SRL_SETFLAGS then (st\<lparr>serials := (serials st)[k := (serials st ! k)\<lparr>s_flags := arg\<rparr>]\<rparr>, 0)
        else (st, err EINVAL))"

definition serial_ops :: "'h bus \<Rightarrow> ('h, 'a) srstate_scheme file_operations" where
  "serial_ops B = \<lparr>op_name = ''serial'', op_open_dev = Some (serial_open_dev B), op_open_path = None, op_release = None,
    op_debugstr = None, op_read = Some (serial_read B), op_readdir = None, op_write = Some (serial_write B),
    op_lseek = None, op_ioctl = Some serial_ioctl\<rparr>"

definition init_driver_serial :: "('h, 'a) srstate_scheme \<Rightarrow> ('h, 'a) srstate_scheme \<times> int" where
  "init_driver_serial st = chrdev_register MAJ_SERIAL SerialDrv st"

definition with_serial :: "'h bus \<Rightarrow> ('h, 'a) srstate_scheme drivers \<Rightarrow> ('h, 'a) srstate_scheme drivers" where
  "with_serial B D = D\<lparr>dr_ops := (dr_ops D)(SerialDrv := serial_ops B)\<rparr>"

section \<open>The contract of a port\<close>

text \<open>
  What the driver relies on of the device at a base port \<open>p\<close>, while it is not in loopback mode (\<open>online\<close>):
  the line status register tells whether received characters are waiting (\<open>rx\<close>) and whether the
  transmitter is empty, which it becomes after a finite number of looks (\<open>busy\<close>); the data register gives
  the received characters in order, and takes characters to transmit (\<open>tx\<close>) while the transmitter is empty.
\<close>

locale uart =
  fixes B :: "'h bus" and online :: "u16 \<Rightarrow> 'h \<Rightarrow> bool" and rx tx :: "u16 \<Rightarrow> 'h \<Rightarrow> string" and busy :: "u16 \<Rightarrow> 'h \<Rightarrow> nat"
  assumes linestat: "online p h \<Longrightarrow> bus_in B (p + POFF_LINESTAT) h = (v, h') \<Longrightarrow>
      (v AND LS_DR \<noteq> 0 \<longleftrightarrow> rx p h \<noteq> []) \<and> (v AND LS_THRE \<noteq> 0 \<longleftrightarrow> busy p h = 0) \<and> busy p h' = busy p h - 1 \<and>
      rx p h' = rx p h \<and> tx p h' = tx p h \<and> online p h'"
    and data_in: "online p h \<Longrightarrow> rx p h = c # cs \<Longrightarrow> bus_in B p h = (v, h') \<Longrightarrow>
      v = of_int (uchar c) \<and> rx p h' = cs \<and> tx p h' = tx p h \<and> online p h'"
    and data_out: "online p h \<Longrightarrow> busy p h = 0 \<Longrightarrow> h' = bus_out B (of_int (schar c)) p h \<Longrightarrow>
      tx p h' = tx p h @ [c] \<and> rx p h' = rx p h \<and> online p h'"
begin

lemma readch_uart:
  assumes "online p (hw st)" "p = s_port (serials st ! k)"
  shows "\<exists>h'. serial_readch B k st = (if rx p (hw st) = [] then err EAGAIN else uchar (hd (rx p (hw st))), st\<lparr>hw := h'\<rparr>) \<and>
    rx p h' = tl (rx p (hw st)) \<and> tx p h' = tx p (hw st) \<and> online p h'"
proof -
  obtain v h1 where 1: "bus_in B (p + POFF_LINESTAT) (hw st) = (v, h1)" by force
  obtain w h2 where 2: "bus_in B p h1 = (w, h2)" by force
  note l = linestat [OF assms(1) 1]
  show ?thesis
  proof (cases "rx p (hw st)")
    case Nil
    then show ?thesis using l 1 assms(2) by (auto simp: serial_readch_def check_linestat_def inb_def)
  next
    case (Cons c cs)
    then have d: "w = of_int (uchar c) \<and> rx p h2 = cs \<and> tx p h2 = tx p h1 \<and> online p h2"
      using data_in [OF _ _ 2] l by simp
    have "uint (of_int (uchar c) :: u8) = uchar c" using uchar_range [of c] by (simp add: unsigned_of_int take_bit_int_eq_self)
    then show ?thesis using Cons l d 1 2 assms(2)
      by (intro exI [of _ h2]) (simp add: serial_readch_def check_linestat_def inb_def)
  qed
qed

lemma read_loop_uart:
  "online p (hw st) \<Longrightarrow> p = s_port (serials st ! k) \<Longrightarrow> s = serials st ! k \<Longrightarrow>
   \<exists>h'. serial_read_loop B k n rem st = (map (ifilter s) (take rem (rx p (hw st))), st\<lparr>hw := h'\<rparr>,
      if n = 0 \<and> 0 < rem \<and> rx p (hw st) = [] then err EAGAIN else int (n + length (take rem (rx p (hw st))))) \<and>
    rx p h' = drop rem (rx p (hw st)) \<and> tx p h' = tx p (hw st) \<and> online p h'"
proof (induction rem arbitrary: n st)
  case 0
  then show ?case by (intro exI [of _ "hw st"]) simp
next
  case (Suc rem)
  obtain h1 where h1: "serial_readch B k st = (if rx p (hw st) = [] then err EAGAIN else uchar (hd (rx p (hw st))), st\<lparr>hw := h1\<rparr>)"
    "rx p h1 = tl (rx p (hw st))" "tx p h1 = tx p (hw st)" "online p h1"
    using readch_uart [OF Suc.prems(1,2)] by blast
  show ?case
  proof (cases "rx p (hw st)")
    case Nil
    then show ?thesis using h1 by (intro exI [of _ h1]) simp
  next
    case (Cons c cs)
    have "online p (hw (st\<lparr>hw := h1\<rparr>))" "p = s_port (serials (st\<lparr>hw := h1\<rparr>) ! k)" "s = serials (st\<lparr>hw := h1\<rparr>) ! k"
      using h1 Suc.prems by simp_all
    from Suc.IH [OF this, of "Suc n"] obtain h2 where h2:
      "serial_read_loop B k (Suc n) rem (st\<lparr>hw := h1\<rparr>) = (map (ifilter s) (take rem cs), st\<lparr>hw := h2\<rparr>, int (Suc n + length (take rem cs)))"
      "rx p h2 = drop rem cs" "tx p h2 = tx p (hw st)" "online p h2"
      using h1(2,3) Cons by auto
    have "uchar c \<noteq> err EAGAIN" "\<not> uchar c < 0" "to_char (uchar c) = c" using uchar_range [of c] by simp_all
    then show ?thesis using h1(1) h2 Cons Suc.prems(3) by (intro exI [of _ h2]) simp
  qed
qed

lemma writech_uart:
  "online p (hw st) \<Longrightarrow> p = s_port (serials st ! k) \<Longrightarrow>
   \<exists>h'. serial_writech B k c st = Some (schar c, st\<lparr>hw := h'\<rparr>) \<and> tx p h' = tx p (hw st) @ [c] \<and>
    rx p h' = rx p (hw st) \<and> online p h'"
proof (induction "busy p (hw st)" arbitrary: st rule: less_induct)
  case less
  obtain v h1 where 1: "bus_in B (p + POFF_LINESTAT) (hw st) = (v, h1)" by force
  note l = linestat [OF less.prems(1) 1]
  have ck: "check_linestat B k LS_THRE st = (busy p (hw st) = 0, st\<lparr>hw := h1\<rparr>)"
    using 1 l less.prems(2) by (simp add: check_linestat_def inb_def)
  show ?case
  proof (cases "busy p (hw st) = 0")
    case True
    then have "busy p h1 = 0" using l by simp
    then have d: "tx p (bus_out B (of_int (schar c)) p h1) = tx p h1 @ [c] \<and> rx p (bus_out B (of_int (schar c)) p h1) = rx p h1 \<and>
        online p (bus_out B (of_int (schar c)) p h1)" using data_out l by simp
    show ?thesis using True ck d l less.prems(2)
      by (intro exI [of _ "bus_out B (of_int (schar c)) p h1"]) (simp add: serial_writech.simps [of B k c st] outb_def)
  next
    case False
    then have "busy p (hw (st\<lparr>hw := h1\<rparr>)) < busy p (hw st)" using l by simp
    from less.hyps [OF this] less.prems(2) l obtain h' where
      "serial_writech B k c (st\<lparr>hw := h1\<rparr>) = Some (schar c, st\<lparr>hw := h'\<rparr>)" "tx p h' = tx p (hw st) @ [c]" "rx p h' = rx p (hw st)" "online p h'"
      by auto
    then show ?thesis using False ck by (intro exI [of _ h']) (simp add: serial_writech.simps [of B k c st])
  qed
qed

lemma out_uart:
  "online p (hw st) \<Longrightarrow> p = s_port (serials st ! k) \<Longrightarrow> (\<And>c. c \<in> set out \<Longrightarrow> 0 \<le> schar c) \<Longrightarrow>
   \<exists>h'. serial_out B k out st = Some (None, st\<lparr>hw := h'\<rparr>) \<and> tx p h' = tx p (hw st) @ out \<and> rx p h' = rx p (hw st) \<and> online p h'"
proof (induction out arbitrary: st)
  case Nil
  then show ?case by (intro exI [of _ "hw st"]) simp
next
  case (Cons c out)
  obtain h1 where h1: "serial_writech B k c st = Some (schar c, st\<lparr>hw := h1\<rparr>)" "tx p h1 = tx p (hw st) @ [c]"
    "rx p h1 = rx p (hw st)" "online p h1"
    using writech_uart [OF Cons.prems(1,2)] by blast
  have p1: "online p (hw (st\<lparr>hw := h1\<rparr>))" "p = s_port (serials (st\<lparr>hw := h1\<rparr>) ! k)" using h1 Cons.prems by simp_all
  obtain h2 where "serial_out B k out (st\<lparr>hw := h1\<rparr>) = Some (None, st\<lparr>hw := h2\<rparr>)" "tx p h2 = tx p h1 @ out" "rx p h2 = rx p h1" "online p h2"
    using Cons.IH [OF p1] Cons.prems(3) by auto
  then show ?case using h1 Cons.prems(3) [of c] by (intro exI [of _ h2]) simp
qed

lemma write_loop_uart:
  "online p (hw st) \<Longrightarrow> p = s_port (serials st ! k) \<Longrightarrow> s = serials st ! k \<Longrightarrow> (\<And>c. c \<in> set src \<Longrightarrow> 0 \<le> schar c) \<Longrightarrow>
   \<exists>h'. serial_write_loop B k src st = Some (None, st\<lparr>hw := h'\<rparr>) \<and> tx p h' = tx p (hw st) @ concat (map (ofilter s) src) \<and>
    rx p h' = rx p (hw st) \<and> online p h'"
proof (induction src arbitrary: st)
  case Nil
  then show ?case by (intro exI [of _ "hw st"]) simp
next
  case (Cons c src)
  have "\<And>x. x \<in> set (ofilter s c) \<Longrightarrow> 0 \<le> schar x"
    using Cons.prems(4) [of c] by (auto simp: ofilter_def schar_def split: if_splits)
  then obtain h1 where h1: "serial_out B k (ofilter s c) st = Some (None, st\<lparr>hw := h1\<rparr>)" "tx p h1 = tx p (hw st) @ ofilter s c"
    "rx p h1 = rx p (hw st)" "online p h1"
    using out_uart [OF Cons.prems(1,2)] by blast
  have p1: "online p (hw (st\<lparr>hw := h1\<rparr>))" "p = s_port (serials (st\<lparr>hw := h1\<rparr>) ! k)" "s = serials (st\<lparr>hw := h1\<rparr>) ! k"
    using h1 Cons.prems by simp_all
  obtain h2 where "serial_write_loop B k src (st\<lparr>hw := h1\<rparr>) = Some (None, st\<lparr>hw := h2\<rparr>)"
    "tx p h2 = tx p h1 @ concat (map (ofilter s) src)" "rx p h2 = rx p h1" "online p h2"
    using Cons.IH [OF p1] Cons.prems(4) by auto
  then show ?case using h1 Cons.prems(3) by (intro exI [of _ h2]) simp
qed

end

section \<open>Writes of any text\<close>

context uart
begin

lemma out_any:
  "online p (hw st) \<Longrightarrow> p = s_port (serials st ! k) \<Longrightarrow>
   \<exists>h' r. serial_out B k out st = Some (r, st\<lparr>hw := h'\<rparr>) \<and> rx p h' = rx p (hw st) \<and> online p h'"
proof (induction out arbitrary: st)
  case Nil
  then show ?case by (intro exI [of _ "hw st"]) simp
next
  case (Cons c out)
  obtain h1 where h1: "serial_writech B k c st = Some (schar c, st\<lparr>hw := h1\<rparr>)" "rx p h1 = rx p (hw st)" "online p h1"
    using writech_uart [OF Cons.prems] by blast
  have p1: "online p (hw (st\<lparr>hw := h1\<rparr>))" "p = s_port (serials (st\<lparr>hw := h1\<rparr>) ! k)" using h1 Cons.prems by simp_all
  obtain h2 r where "serial_out B k out (st\<lparr>hw := h1\<rparr>) = Some (r, st\<lparr>hw := h2\<rparr>)" "rx p h2 = rx p h1" "online p h2"
    using Cons.IH [OF p1] by auto
  then show ?case using h1 by (cases "schar c < 0") auto
qed

lemma write_loop_any:
  "online p (hw st) \<Longrightarrow> p = s_port (serials st ! k) \<Longrightarrow>
   \<exists>h' r. serial_write_loop B k src st = Some (r, st\<lparr>hw := h'\<rparr>) \<and> rx p h' = rx p (hw st) \<and> online p h'"
proof (induction src arbitrary: st)
  case Nil
  then show ?case by (intro exI [of _ "hw st"]) simp
next
  case (Cons c src)
  obtain h1 r1 where h1: "serial_out B k (ofilter (serials st ! k) c) st = Some (r1, st\<lparr>hw := h1\<rparr>)"
    "rx p h1 = rx p (hw st)" "online p h1"
    using out_any [OF Cons.prems] by blast
  have p1: "online p (hw (st\<lparr>hw := h1\<rparr>))" "p = s_port (serials (st\<lparr>hw := h1\<rparr>) ! k)" using h1 Cons.prems by simp_all
  obtain h2 r where "serial_write_loop B k src (st\<lparr>hw := h1\<rparr>) = Some (r, st\<lparr>hw := h2\<rparr>)" "rx p h2 = rx p h1" "online p h2"
    using Cons.IH [OF p1] by auto
  then show ?case using h1 by (cases r1) auto
qed

end

section \<open>A simple port\<close>

text \<open>One port at the first base address, with a transmitter that stays busy for three looks.\<close>

record uart8250 =
  u_rx :: string
  u_tx :: string
  u_busy :: nat
  u_loop :: bool
  u_lb :: u8

definition uart_in :: "u16 \<Rightarrow> uart8250 \<Rightarrow> u8 \<times> uart8250" where
  "uart_in p u =
    (if p = 0x3f8 + POFF_LINESTAT
     then ((if u_rx u \<noteq> [] then LS_DR else 0) OR (if u_busy u = 0 then LS_THRE else 0), u\<lparr>u_busy := u_busy u - 1\<rparr>)
     else if p = 0x3f8
     then if u_loop u then (u_lb u, u)
          else case u_rx u of [] \<Rightarrow> (0, u) | c # cs \<Rightarrow> (of_int (uchar c), u\<lparr>u_rx := cs\<rparr>)
     else (0, u))"

definition uart_out :: "u8 \<Rightarrow> u16 \<Rightarrow> uart8250 \<Rightarrow> uart8250" where
  "uart_out v p u =
    (if p = 0x3f8 + POFF_MODEMCTL then u\<lparr>u_loop := (v AND MC_LOOP \<noteq> 0)\<rparr>
     else if p = 0x3f8
     then if u_loop u then u\<lparr>u_lb := v\<rparr> else u\<lparr>u_tx := u_tx u @ [to_char (uint v)], u_busy := 3\<rparr>
     else u)"

definition uart_bus :: "uart8250 bus" where
  "uart_bus = \<lparr>bus_in = uart_in, bus_out = uart_out\<rparr>"

lemma to_char_mod: "to_char (i mod 256) = to_char i"
  by (metis uchar_to_char mod_mod_trivial uchar_inj)

lemma to_char_uint_schar: "to_char (uint (of_int (schar c) :: u8)) = c"
  by (simp add: unsigned_of_int take_bit_eq_mod to_char_mod)

interpretation u8250: uart uart_bus "\<lambda>p u. p = 0x3f8 \<and> \<not> u_loop u" "\<lambda>p. u_rx" "\<lambda>p. u_tx" "\<lambda>p. u_busy"
proof
  fix p h v h' assume "p = 0x3f8 \<and> \<not> u_loop h" "bus_in uart_bus (p + POFF_LINESTAT) h = (v, h')"
  then show "(v AND LS_DR \<noteq> 0 \<longleftrightarrow> u_rx h \<noteq> []) \<and> (v AND LS_THRE \<noteq> 0 \<longleftrightarrow> u_busy h = 0) \<and> u_busy h' = u_busy h - 1 \<and>
      u_rx h' = u_rx h \<and> u_tx h' = u_tx h \<and> p = 0x3f8 \<and> \<not> u_loop h'"
    by (cases "u_rx h = []"; cases "u_busy h = 0") (auto simp: uart_bus_def uart_in_def LS_DR_def LS_THRE_def)
next
  fix p h v h' c cs assume "p = 0x3f8 \<and> \<not> u_loop h" "u_rx h = c # cs" "bus_in uart_bus p h = (v, h')"
  then show "v = of_int (uchar c) \<and> u_rx h' = cs \<and> u_tx h' = u_tx h \<and> p = 0x3f8 \<and> \<not> u_loop h'"
    by (auto simp: uart_bus_def uart_in_def POFF_LINESTAT_def)
next
  fix p h h' c assume "p = 0x3f8 \<and> \<not> u_loop h" "u_busy h = 0" "h' = bus_out uart_bus (of_int (schar c)) p h"
  then show "u_tx h' = u_tx h @ [c] \<and> u_rx h' = u_rx h \<and> p = 0x3f8 \<and> \<not> u_loop h'"
    by (auto simp: uart_bus_def uart_out_def POFF_MODEMCTL_def to_char_uint_schar)
qed

section \<open>Properties of the driver\<close>

lemma file_write_serial:
  assumes "f_op f = Some SerialDrv" "src \<noteq> []"
  shows "file_write (with_serial B D) f src st =
    map_option (\<lambda>(r, st). (f, st, case r of Some res \<Rightarrow> res | None \<Rightarrow> int (length src)))
      (serial_write_loop B (the (f_driver_data f)) src st)"
proof -
  have "f\<lparr>f_pos := f_pos f\<rparr> = f" by simp
  then show ?thesis using assms
    by (cases "serial_write_loop B (the (f_driver_data f)) src st")
      (auto simp: file_write_def has_op_def with_serial_def serial_ops_def serial_write_def simp del: vfile.surjective)
qed

lemma file_read_serial:
  assumes "f_op f = Some SerialDrv" "0 < n"
  shows "file_read (with_serial B D) f n st =
    (let (bs, st, res) = serial_read_loop B (the (f_driver_data f)) 0 n st in Some (bs, f, st, res))"
proof -
  have "f\<lparr>f_pos := f_pos f\<rparr> = f" by simp
  then show ?thesis using assms
    by (simp add: file_read_def has_op_def with_serial_def serial_ops_def serial_read_def split: prod.split)
qed

text \<open>
  Property C28. Writing to a serial port that meets the contract of a port returns for every text of 7-bit
  characters, and transmits exactly the text with a carriage return before every newline when the
  port has that flag; the received input is not touched.
\<close>

theorem serial_write_correct:
  assumes "uart B online rx tx busy" "online p (hw st)" "p = s_port (serials st ! k)"
    and "f_op f = Some SerialDrv" "f_driver_data f = Some k" "\<forall>c\<in>set src. 0 \<le> schar c"
  shows "\<exists>h'. file_write (with_serial B D) f src st = Some (f, st\<lparr>hw := h'\<rparr>, int (length src)) \<and>
    tx p h' = tx p (hw st) @ concat (map (ofilter (serials st ! k)) src) \<and> rx p h' = rx p (hw st)"
proof (cases "src = []")
  case True
  then show ?thesis using assms(4)
    by (intro exI [of _ "hw st"]) (simp add: file_write_def has_op_def with_serial_def serial_ops_def)
next
  case False
  then show ?thesis
    using uart.write_loop_uart [OF assms(1,2,3) refl, of src] assms(4-6) by (auto simp: file_write_serial)
qed

definition serial_st :: "string \<Rightarrow> uart8250 srstate" where
  "serial_st input = \<lparr>chrdev_drivers = replicate MAJORS_MAX None, fs_drivers = replicate FSTYPES_MAX None,
    superblocks = replicate SB_MAX superblock0, vfs_mount_list = \<lparr>lh_next = (\<lambda>x. None), lh_prev = (\<lambda>x. None)\<rparr>,
    ramdisks = replicate RAMDISKS_MAX ramdisk0, kmem = (\<lambda>a. NUL), cfdatas = [],
    serials = [\<lparr>s_port = 0x3f8, s_flags = SRL_ICRNL OR SRL_OCRNL\<rparr>, \<lparr>s_port = 0, s_flags = 0\<rparr>],
    hw = \<lparr>u_rx = input, u_tx = [], u_busy = 1, u_loop = False, u_lb = 0\<rparr>\<rparr>"

theorem serial_write_correct_witness:
  "\<exists>h'. file_write (with_serial uart_bus no_drivers) (file0\<lparr>f_op := Some SerialDrv, f_driver_data := Some 0\<rparr>) [CHR ''a'', CHR 0x0a]
      (serial_st '''') = Some (file0\<lparr>f_op := Some SerialDrv, f_driver_data := Some 0\<rparr>, (serial_st '''')\<lparr>hw := h'\<rparr>, 2) \<and>
    u_tx h' = [CHR ''a'', CHR 0x0d, CHR 0x0a]"
proof -
  let ?f = "file0\<lparr>f_op := Some SerialDrv, f_driver_data := Some 0\<rparr>"
  have on: "0x3f8 = (0x3f8 :: u16) \<and> \<not> u_loop (hw (serial_st []))" "0x3f8 = s_port (serials (serial_st []) ! 0)" "u_tx (hw (serial_st [])) = []"
    by (simp_all add: serial_st_def)
  have o: "ofilter (serials (serial_st []) ! 0) c = (if c = CHR 0x0a then [CHR 0x0d, c] else [c])" for c
    by (simp add: serial_st_def ofilter_def SRL_ICRNL_def SRL_OCRNL_def)
  show ?thesis
    using serial_write_correct [OF u8250.uart_axioms on(1,2), of ?f "[CHR ''a'', CHR 0x0a]" no_drivers]
    by (simp add: o on(3) schar_def) blast
qed

text \<open>
  A character above 127 ends a write early: it is transmitted, but its value as a signed
  character is taken for an error, so the write returns that negative number and the rest of the text
  is not transmitted.
\<close>

theorem serial_write_high_byte:
  assumes "uart B online rx tx busy" "online p (hw st)" "p = s_port (serials st ! k)"
    and "f_op f = Some SerialDrv" "f_driver_data f = Some k" "\<forall>c\<in>set src. 0 \<le> schar c" "schar c < 0"
  shows "\<exists>h'. file_write (with_serial B D) f (src @ c # rest) st = Some (f, st\<lparr>hw := h'\<rparr>, schar c) \<and>
    tx p h' = tx p (hw st) @ concat (map (ofilter (serials st ! k)) src) @ [c]"
proof -
  have app: "serial_write_loop B k (src @ ys) st = Option.bind (serial_write_loop B k src st) (\<lambda>(r, st).
      case r of Some res \<Rightarrow> Some (Some res, st) | None \<Rightarrow> serial_write_loop B k ys st)" for ys
    by (induction src arbitrary: st) (auto split: option.splits Option.bind_splits)
  obtain h1 where h1: "serial_write_loop B k src st = Some (None, st\<lparr>hw := h1\<rparr>)" "online p h1"
    "tx p h1 = tx p (hw st) @ concat (map (ofilter (serials st ! k)) src)"
    using uart.write_loop_uart [OF assms(1,2,3) refl, of src] assms(6) by blast
  have p1: "online p (hw (st\<lparr>hw := h1\<rparr>))" "p = s_port (serials (st\<lparr>hw := h1\<rparr>) ! k)" using h1 assms(3) by simp_all
  obtain h2 where h2: "serial_writech B k c (st\<lparr>hw := h1\<rparr>) = Some (schar c, st\<lparr>hw := h2\<rparr>)" "tx p h2 = tx p h1 @ [c]"
    using uart.writech_uart [OF assms(1) p1, of c] by auto
  have "ofilter (serials st ! k) c = [c]" using assms(7) by (auto simp: ofilter_def schar_def)
  then have "serial_write_loop B k (src @ c # rest) st = Some (Some (schar c), st\<lparr>hw := h2\<rparr>)"
    using h1 h2 assms(7) by (simp add: app)
  then show ?thesis using h1 h2 assms(4,5) by (auto simp: file_write_serial)
qed

theorem serial_write_high_byte_witness:
  "\<exists>h'. file_write (with_serial uart_bus no_drivers) (file0\<lparr>f_op := Some SerialDrv, f_driver_data := Some 0\<rparr>) [CHR ''a'', CHR 0xe6, CHR ''b'']
      (serial_st '''') = Some (file0\<lparr>f_op := Some SerialDrv, f_driver_data := Some 0\<rparr>, (serial_st '''')\<lparr>hw := h'\<rparr>, - 26) \<and>
    u_tx h' = [CHR ''a'', CHR 0xe6]"
proof -
  let ?f = "file0\<lparr>f_op := Some SerialDrv, f_driver_data := Some 0\<rparr>"
  have on: "0x3f8 = (0x3f8 :: u16) \<and> \<not> u_loop (hw (serial_st []))" "0x3f8 = s_port (serials (serial_st []) ! 0)" "u_tx (hw (serial_st [])) = []"
    by (simp_all add: serial_st_def)
  have o: "ofilter (serials (serial_st []) ! 0) c = (if c = CHR 0x0a then [CHR 0x0d, c] else [c])" for c
    by (simp add: serial_st_def ofilter_def SRL_ICRNL_def SRL_OCRNL_def)
  show ?thesis
    using serial_write_high_byte [OF u8250.uart_axioms on(1,2), of ?f "''a''" "CHR 0xe6" no_drivers "''b''"]
    by (simp add: o on(3) schar_def)
qed

end
