(* ===== verification/Tty.thy ===== *)
theory Tty
  imports Serial
begin

text \<open>
  The terminal driver (\<open>drivers/chrdev/tty.c\<close>): a line editor on top of a port device. The functions take
  the drivers \<open>D\<close> of the port device; waiting for the device makes them options. The locale \<open>char_port\<close> is
  what the line editor needs of its port, and the serial driver on a working port provides it. The main
  fact is that a read in cooked mode returns the edited line.
\<close>

section \<open>Data\<close>

definition IBUFSZ :: nat where "IBUFSZ = 256"
definition TTY_CT :: nat where "TTY_CT = 2"
definition TTY_ECHO :: u32 where "TTY_ECHO = 1"
definition TTY_ECHOCTL :: u32 where "TTY_ECHOCTL = 2"
definition TTY_COOKED :: u32 where "TTY_COOKED = 4"
definition TTY_GETFLAGS :: nat where "TTY_GETFLAGS = 2"
definition TTY_SETFLAGS :: nat where "TTY_SETFLAGS = 3"

abbreviation CTRL_D :: char where "CTRL_D \<equiv> CHR 0x04"
abbreviation CTRL_U :: char where "CTRL_U \<equiv> CHR 0x15"
abbreviation BS :: char where "BS \<equiv> CHR 0x08"
abbreviation DEL :: char where "DEL \<equiv> CHR 0x7f"
abbreviation NL :: char where "NL \<equiv> CHR 0x0a"

record tty =
  portdev :: vfile
  t_flags :: u32
  initialized :: bool
  ibuf_eol :: bool
  ibuf_eof :: bool
  ilen :: nat
  ibuf :: string

record 'h ttystate = "'h srstate" +
  ttys :: "tty list"

definition upd_tty :: "nat \<Rightarrow> (tty \<Rightarrow> tty) \<Rightarrow> ('h, 'a) ttystate_scheme \<Rightarrow> ('h, 'a) ttystate_scheme" where
  "upd_tty k g st = st\<lparr>ttys := (ttys st)[k := g (ttys st ! k)]\<rparr>"

text \<open>The handlers of special characters, and the flags \<open>SP_ENDLINE\<close> and \<open>SP_ISINPUT\<close> as truth values.\<close>

datatype onrecv = On_eof | Backspace | Clearline

record specialchar =
  sp_ch :: char
  special_echo :: "string option"
  sp_endline :: bool
  sp_isinput :: bool
  sp_onrecv :: "onrecv option"

definition ISCOOKED :: "tty \<Rightarrow> bool" where
  "ISCOOKED t \<longleftrightarrow> t_flags t AND TTY_COOKED \<noteq> 0"

section \<open>Opening\<close>

text \<open>The range check lets the minor number 2 pass, which is outside the array of terminals.\<close>

definition tty_open_dev ::
    "('h, 'a) ttystate_scheme drivers \<Rightarrow> vfile \<Rightarrow> nat \<Rightarrow> ('h, 'a) ttystate_scheme \<Rightarrow> vfile \<times> ('h, 'a) ttystate_scheme \<times> int" where
  "tty_open_dev D file mi st =
    (if TTY_CT < mi then (file, st, err ENODEV)
     else let file = file\<lparr>f_driver_data := Some mi\<rparr>
          in if initialized (ttys st ! mi) then (file, st, 0)
             else let (st, portres) =
                        (if mi = 0 then (st, err ENODEV)
                         else let (p, st, res) = file_open_dev D (MAKEDEV (of_nat MAJ_SERIAL) (of_nat mi)) st
                              in (upd_tty mi (\<lambda>t. t\<lparr>portdev := p\<rparr>) st, res))
                  in if portres < 0 then (file, st, portres)
                     else (file, upd_tty mi (\<lambda>t. t\<lparr>ilen := 0, initialized := True\<rparr>) st, 0))"

section \<open>Echo\<close>

definition port_write ::
    "('h, 'a) ttystate_scheme drivers \<Rightarrow> nat \<Rightarrow> string \<Rightarrow> ('h, 'a) ttystate_scheme \<Rightarrow> ('h, 'a) ttystate_scheme option" where
  "port_write D k s st =
    map_option (\<lambda>(p, st, res). upd_tty k (\<lambda>t. t\<lparr>portdev := p\<rparr>) st) (file_write D (portdev (ttys st ! k)) s st)"

text \<open>
  \<open>strchr\<close> also finds the terminator of its string, so a NUL character counts as printable here. The last
  branch writes the text that \<open>file_printf\<close> formats.
\<close>

definition echoc ::
    "('h, 'a) ttystate_scheme drivers \<Rightarrow> nat \<Rightarrow> char \<Rightarrow> ('h, 'a) ttystate_scheme \<Rightarrow> ('h, 'a) ttystate_scheme option" where
  "echoc D k c st =
    (let t = ttys st ! k
     in if t_flags t AND TTY_ECHO = 0 then Some st
        else if t_flags t AND TTY_ECHOCTL = 0 \<or> isprint (schar c) \<or> c \<in> set [NL, CHR 0x0d, CHR 0x09, NUL]
        then port_write D k [c] st
        else if 0 \<le> schar c \<and> schar c < 0x1f then port_write D k [CHR ''^'', to_char (schar c + 0x40)] st
        else if schar c = 0x7f then port_write D k ''^?'' st
        else port_write D k (fmt_text (CHR 0x5c # ''x%02hhx'') [VWord (of_int (schar c))]) st)"

definition echos ::
    "('h, 'a) ttystate_scheme drivers \<Rightarrow> nat \<Rightarrow> string \<Rightarrow> ('h, 'a) ttystate_scheme \<Rightarrow> ('h, 'a) ttystate_scheme option" where
  "echos D k s st = (if t_flags (ttys st ! k) AND TTY_ECHO \<noteq> 0 then port_write D k s st else Some st)"

section \<open>Input and special characters\<close>

definition add_to_inbuf ::
    "('h, 'a) ttystate_scheme drivers \<Rightarrow> nat \<Rightarrow> char \<Rightarrow> ('h, 'a) ttystate_scheme \<Rightarrow> (('h, 'a) ttystate_scheme \<times> int) option" where
  "add_to_inbuf D k c st =
    (if ilen (ttys st ! k) = IBUFSZ then Some (st, err ENOBUFS)
     else let st = upd_tty k (\<lambda>t. t\<lparr>ibuf := (ibuf t)[ilen t := c], ilen := ilen t + 1\<rparr>) st
          in map_option (\<lambda>st. (st, 0)) (echoc D k c st))"

definition backspace ::
    "('h, 'a) ttystate_scheme drivers \<Rightarrow> nat \<Rightarrow> ('h, 'a) ttystate_scheme \<Rightarrow> ('h, 'a) ttystate_scheme option" where
  "backspace D k st =
    (if ilen (ttys st ! k) = 0 then Some st
     else echos D k [BS, CHR '' '', BS] (upd_tty k (\<lambda>t. t\<lparr>ilen := ilen t - 1\<rparr>) st))"

fun clearline_loop ::
    "('h, 'a) ttystate_scheme drivers \<Rightarrow> nat \<Rightarrow> nat \<Rightarrow> ('h, 'a) ttystate_scheme \<Rightarrow> ('h, 'a) ttystate_scheme option" where
  "clearline_loop D k 0 st = Some st"
| "clearline_loop D k (Suc n) st = Option.bind (backspace D k st) (clearline_loop D k n)"

definition clearline ::
    "('h, 'a) ttystate_scheme drivers \<Rightarrow> nat \<Rightarrow> ('h, 'a) ttystate_scheme \<Rightarrow> ('h, 'a) ttystate_scheme option" where
  "clearline D k st = clearline_loop D k (ilen (ttys st ! k)) st"

definition on_eof :: "nat \<Rightarrow> ('h, 'a) ttystate_scheme \<Rightarrow> ('h, 'a) ttystate_scheme" where
  "on_eof k st =
    upd_tty k (\<lambda>t. let t = t\<lparr>ibuf_eol := True\<rparr> in if ilen t = 0 then t\<lparr>ibuf_eof := True\<rparr> else t) st"

fun run_onrecv ::
    "('h, 'a) ttystate_scheme drivers \<Rightarrow> nat \<Rightarrow> onrecv \<Rightarrow> ('h, 'a) ttystate_scheme \<Rightarrow> ('h, 'a) ttystate_scheme option" where
  "run_onrecv D k On_eof st = Some (on_eof k st)"
| "run_onrecv D k Backspace st = backspace D k st"
| "run_onrecv D k Clearline st = clearline D k st"

definition SPECIALCHARS :: "specialchar list" where
  "SPECIALCHARS =
    [\<lparr>sp_ch = NL, special_echo = None, sp_endline = True, sp_isinput = True, sp_onrecv = None\<rparr>,
     \<lparr>sp_ch = CTRL_D, special_echo = Some [CHR ''^'', CHR ''D'', NL], sp_endline = True, sp_isinput = False, sp_onrecv = Some On_eof\<rparr>,
     \<lparr>sp_ch = BS, special_echo = None, sp_endline = False, sp_isinput = False, sp_onrecv = Some Backspace\<rparr>,
     \<lparr>sp_ch = DEL, special_echo = None, sp_endline = False, sp_isinput = False, sp_onrecv = Some Backspace\<rparr>,
     \<lparr>sp_ch = CTRL_U, special_echo = None, sp_endline = False, sp_isinput = False, sp_onrecv = Some Clearline\<rparr>]"

definition tty_inchar ::
    "('h, 'a) ttystate_scheme drivers \<Rightarrow> nat \<Rightarrow> char \<Rightarrow> ('h, 'a) ttystate_scheme \<Rightarrow> (('h, 'a) ttystate_scheme \<times> int) option" where
  "tty_inchar D k c st =
    (if \<not> ISCOOKED (ttys st ! k) then add_to_inbuf D k c st
     else if ibuf_eol (ttys st ! k) then Some (st, err ENOBUFS)
     else case find (\<lambda>sp. c = sp_ch sp) SPECIALCHARS of
            None \<Rightarrow> add_to_inbuf D k c st
          | Some sp \<Rightarrow>
              (let st = (if sp_endline sp then upd_tty k (\<lambda>t. t\<lparr>ibuf_eol := True\<rparr>) st else st)
               in Option.bind (case special_echo sp of Some s \<Rightarrow> echos D k s st | None \<Rightarrow> Some st) (\<lambda>st.
                  Option.bind (case sp_onrecv sp of Some r \<Rightarrow> run_onrecv D k r st | None \<Rightarrow> Some st) (\<lambda>st.
                  if sp_isinput sp then add_to_inbuf D k c st else Some (st, 0)))))"

section \<open>Reading and writing\<close>

text \<open>The loop that fills the buffer: the last result of the port, and the value of an early return.\<close>

partial_function (option) tty_fill ::
    "('h, 'a) ttystate_scheme drivers \<Rightarrow> nat \<Rightarrow> int \<Rightarrow> ('h, 'a) ttystate_scheme \<Rightarrow>
      (int \<times> int option \<times> ('h, 'a) ttystate_scheme) option" where
  "tty_fill D k portres st =
    (if ilen (ttys st ! k) < IBUFSZ \<and> \<not> ibuf_eol (ttys st ! k)
     then Option.bind (file_read D (portdev (ttys st ! k)) 1 st) (\<lambda>(dst, p, st, portres).
            let st = upd_tty k (\<lambda>t. t\<lparr>portdev := p\<rparr>) st
            in if portres \<le> 0 then Some (portres, None, st)
               else Option.bind (tty_inchar D k (hd dst) st) (\<lambda>(st, res).
                      if res < 0 then Some (portres, Some res, st) else tty_fill D k portres st))
     else Some (portres, None, st))"

definition tty_read ::
    "('h, 'a) ttystate_scheme drivers \<Rightarrow> vfile \<Rightarrow> nat \<Rightarrow> int \<Rightarrow> ('h, 'a) ttystate_scheme \<Rightarrow>
      (string \<times> int \<times> ('h, 'a) ttystate_scheme \<times> int) option" where
  "tty_read D f cnt off st =
    (let k = the (f_driver_data f)
     in map_option (\<lambda>(portres, early, st).
          let t = ttys st ! k
          in case early of
               Some res \<Rightarrow> ([], off, st, res)
             | None \<Rightarrow>
                 (if ilen t = 0
                  then if portres = 0 then ([], off, st, 0)
                       else if ISCOOKED t \<and> ibuf_eof t
                       then ([], off, upd_tty k (\<lambda>t. t\<lparr>ibuf_eof := False, ibuf_eol := False\<rparr>) st, 0)
                       else ([], off, st, err EAGAIN)
                  else if ISCOOKED t \<and> \<not> ibuf_eol t then ([], off, st, err EAGAIN)
                  else let retct = Orderings.min (ilen t) cnt
                       in (take retct (ibuf t), off,
                           upd_tty k (\<lambda>t. let t = t\<lparr>ibuf := take (ilen t - retct) (drop retct (ibuf t)) @ drop (ilen t - retct) (ibuf t),
                                                     ilen := ilen t - retct\<rparr>
                                          in if ilen t = 0 then t\<lparr>ibuf_eol := False\<rparr> else t) st,
                           int retct))) (tty_fill D k (err EAGAIN) st))"

definition tty_write ::
    "('h, 'a) ttystate_scheme drivers \<Rightarrow> vfile \<Rightarrow> string \<Rightarrow> int \<Rightarrow> ('h, 'a) ttystate_scheme \<Rightarrow>
      (int \<times> ('h, 'a) ttystate_scheme \<times> int) option" where
  "tty_write D f src off st =
    (let k = the (f_driver_data f)
     in map_option (\<lambda>(p, st, res). (off, upd_tty k (\<lambda>t. t\<lparr>portdev := p\<rparr>) st, res)) (file_write D (portdev (ttys st ! k)) src st))"

definition tty_ioctl :: "vfile \<Rightarrow> nat \<Rightarrow> u32 \<Rightarrow> ('h, 'a) ttystate_scheme \<Rightarrow> ('h, 'a) ttystate_scheme \<times> int" where
  "tty_ioctl f cmd arg st =
    (let k = the (f_driver_data f)
     in if cmd = TTY_GETFLAGS then (st\<lparr>kmem := mem_write (kmem st) (unat arg) (le32 (t_flags (ttys st ! k)))\<rparr>, 0)
        else if cmd = TTY_SETFLAGS then (upd_tty k (\<lambda>t. t\<lparr>t_flags := arg\<rparr>) st, 0)
        else (st, err EINVAL))"

definition tty_ops :: "('h, 'a) ttystate_scheme drivers \<Rightarrow> ('h, 'a) ttystate_scheme file_operations" where
  "tty_ops D = \<lparr>op_name = ''tty'', op_open_dev = Some (tty_open_dev D), op_open_path = None, op_release = None,
    op_debugstr = None, op_read = Some (tty_read D), op_readdir = None, op_write = Some (tty_write D),
    op_lseek = None, op_ioctl = Some tty_ioctl\<rparr>"

definition init_driver_tty :: "('h, 'a) ttystate_scheme \<Rightarrow> ('h, 'a) ttystate_scheme \<times> int" where
  "init_driver_tty st = chrdev_register MAJ_TTY TtyDrv st"

definition with_tty :: "('h, 'a) ttystate_scheme drivers \<Rightarrow> ('h, 'a) ttystate_scheme drivers" where
  "with_tty D = D\<lparr>dr_ops := (dr_ops D)(TtyDrv := tty_ops D)\<rparr>"

section \<open>The line editor on its port\<close>

text \<open>
  What the line editor relies on of its port: a port gives its pending input one character at a time, and
  taking input or writing output changes nothing but the state of the hardware.
\<close>

locale char_port =
  fixes D :: "('h, 'a) ttystate_scheme drivers" and port :: "vfile \<Rightarrow> ('h, 'a) ttystate_scheme \<Rightarrow> bool"
    and inp :: "vfile \<Rightarrow> ('h, 'a) ttystate_scheme \<Rightarrow> string"
  assumes read1: "port p st \<Longrightarrow> \<exists>h'. file_read D p 1 st =
        Some (take 1 (inp p st), p, st\<lparr>hw := h'\<rparr>, if inp p st = [] then err EAGAIN else 1) \<and>
      port p (st\<lparr>hw := h'\<rparr>) \<and> inp p (st\<lparr>hw := h'\<rparr>) = tl (inp p st)"
    and write_port: "port p st \<Longrightarrow> \<exists>h' r. file_write D p s st = Some (p, st\<lparr>hw := h'\<rparr>, r) \<and>
      port p (st\<lparr>hw := h'\<rparr>) \<and> inp p (st\<lparr>hw := h'\<rparr>) = inp p st"
    and port_upd: "port p (upd_tty k g st) = port p st"
    and inp_upd: "inp p (upd_tty k g st) = inp p st"

text \<open>
  The effect of a step on terminal \<open>k\<close>: the new terminal, everything else but the hardware as before, and the input that
  is left. \<open>line\<close> is the text in the buffer.
\<close>

definition tty_eff ::
    "(vfile \<Rightarrow> ('h, 'a) ttystate_scheme \<Rightarrow> bool) \<Rightarrow> (vfile \<Rightarrow> ('h, 'a) ttystate_scheme \<Rightarrow> string) \<Rightarrow> nat \<Rightarrow>
      ('h, 'a) ttystate_scheme \<Rightarrow> tty \<Rightarrow> string \<Rightarrow> ('h, 'a) ttystate_scheme \<Rightarrow> bool" where
  "tty_eff port inp k st t xs st' \<longleftrightarrow>
    (\<exists>h. st' = st\<lparr>hw := h, ttys := (ttys st)[k := t]\<rparr>) \<and> port (portdev t) st' \<and> inp (portdev t) st' = xs"

definition line :: "tty \<Rightarrow> string" where "line t = take (ilen t) (ibuf t)"

definition tty_ok :: "tty \<Rightarrow> bool" where "tty_ok t \<longleftrightarrow> length (ibuf t) = IBUFSZ \<and> ilen t \<le> IBUFSZ"

text \<open>The reference for the editor: what one character does to the line.\<close>

definition edit :: "string \<Rightarrow> char \<Rightarrow> string" where
  "edit b c = (if c = BS \<or> c = DEL then butlast b else if c = CTRL_U then [] else b @ [c])"

lemma length_line: "tty_ok t \<Longrightarrow> length (line t) = ilen t"
  by (simp add: line_def tty_ok_def)

lemma line_add: "tty_ok t \<Longrightarrow> ilen t < IBUFSZ \<Longrightarrow> line (t\<lparr>ibuf := (ibuf t)[ilen t := c], ilen := ilen t + 1\<rparr>) = line t @ [c]"
  by (simp add: line_def tty_ok_def take_Suc_conv_app_nth)

lemma line_back: "tty_ok t \<Longrightarrow> line (t\<lparr>ilen := ilen t - 1\<rparr>) = butlast (line t)"
  by (simp add: line_def tty_ok_def butlast_take)

lemma line_cong: "ibuf t' = ibuf t \<Longrightarrow> ilen t' = ilen t \<Longrightarrow> line t' = line t"
  by (simp add: line_def)

lemma length_edit: "length (edit b c) \<le> Suc (length b)"
  by (auto simp: edit_def)

lemma special_None: "c \<notin> {NL, CTRL_D, BS, DEL, CTRL_U} \<Longrightarrow> find (\<lambda>sp. c = sp_ch sp) SPECIALCHARS = None"
  by (auto simp: SPECIALCHARS_def)

lemma tty_effD:
  assumes "tty_eff port inp k st t xs st'" "k < length (ttys st)"
  shows "ttys st' ! k = t" "length (ttys st') = length (ttys st)" "port (portdev t) st'" "inp (portdev t) st' = xs"
  using assms by (auto simp: tty_eff_def)

lemma tty_eff_ttys: "tty_eff port inp k st t xs st' \<Longrightarrow> ttys st' = (ttys st)[k := t] \<and> inp (portdev t) st' = xs"
  by (auto simp: tty_eff_def)

lemma tty_eff_trans:
  "tty_eff port inp k st t xs st1 \<Longrightarrow> tty_eff port inp k st1 u ys st2 \<Longrightarrow> tty_eff port inp k st u ys st2"
  by (auto simp: tty_eff_def)

lemma hw_upd_exists [simp]: "\<exists>h. st\<lparr>hw := h'\<rparr> = st\<lparr>hw := h\<rparr>" "\<exists>h. st = st\<lparr>hw := h\<rparr>"
  by (blast, rule exI [of _ "hw st"], simp)

context char_port
begin

lemma eff_upd:
  assumes "port (portdev (ttys st ! k)) st" "portdev (g (ttys st ! k)) = portdev (ttys st ! k)"
  shows "tty_eff port inp k st (g (ttys st ! k)) (inp (portdev (ttys st ! k)) st) (upd_tty k g st)"
  using assms by (simp add: tty_eff_def port_upd inp_upd) (auto simp: upd_tty_def intro: exI [of _ "hw st"])

lemma port_write_eff:
  assumes "port (portdev (ttys st ! k)) st"
  shows "\<exists>st'. port_write D k s st = Some st' \<and> tty_eff port inp k st (ttys st ! k) (inp (portdev (ttys st ! k)) st) st'"
proof -
  obtain h' r where w: "file_write D (portdev (ttys st ! k)) s st = Some (portdev (ttys st ! k), st\<lparr>hw := h'\<rparr>, r)"
    "port (portdev (ttys st ! k)) (st\<lparr>hw := h'\<rparr>)" "inp (portdev (ttys st ! k)) (st\<lparr>hw := h'\<rparr>) = inp (portdev (ttys st ! k)) st"
    using write_port [OF assms] by blast
  have "upd_tty k (\<lambda>t. t\<lparr>portdev := portdev (ttys st ! k)\<rparr>) (st\<lparr>hw := h'\<rparr>) = st\<lparr>hw := h'\<rparr>" by (simp add: upd_tty_def)
  then show ?thesis using w by (simp add: port_write_def tty_eff_def)
qed

lemma tty_write_eff:
  assumes "port (portdev (ttys st ! k)) st" "f_driver_data f = Some k"
  shows "\<exists>st' r. tty_write D f s off st = Some (off, st', r) \<and> tty_eff port inp k st (ttys st ! k) (inp (portdev (ttys st ! k)) st) st'"
proof -
  obtain h' r where w: "file_write D (portdev (ttys st ! k)) s st = Some (portdev (ttys st ! k), st\<lparr>hw := h'\<rparr>, r)"
    "port (portdev (ttys st ! k)) (st\<lparr>hw := h'\<rparr>)" "inp (portdev (ttys st ! k)) (st\<lparr>hw := h'\<rparr>) = inp (portdev (ttys st ! k)) st"
    using write_port [OF assms(1)] by blast
  have "upd_tty k (\<lambda>t. t\<lparr>portdev := portdev (ttys st ! k)\<rparr>) (st\<lparr>hw := h'\<rparr>) = st\<lparr>hw := h'\<rparr>" by (simp add: upd_tty_def)
  then show ?thesis using w assms(2) by (simp add: tty_write_def tty_eff_def)
qed

lemma no_eff: "port (portdev (ttys st ! k)) st \<Longrightarrow> tty_eff port inp k st (ttys st ! k) (inp (portdev (ttys st ! k)) st) st"
  by (simp add: tty_eff_def)

lemma echoc_eff:
  assumes "port (portdev (ttys st ! k)) st"
  shows "\<exists>st'. echoc D k c st = Some st' \<and> tty_eff port inp k st (ttys st ! k) (inp (portdev (ttys st ! k)) st) st'"
proof -
  have "(\<exists>s. echoc D k c st = port_write D k s st) \<or> echoc D k c st = Some st"
    by (simp add: echoc_def Let_def) blast
  then show ?thesis
  proof
    assume "\<exists>s. echoc D k c st = port_write D k s st"
    then obtain s where "echoc D k c st = port_write D k s st" by blast
    then show ?thesis using port_write_eff [OF assms, of s] by (simp only:)
  next
    assume e: "echoc D k c st = Some st"
    show ?thesis unfolding e using no_eff [OF assms] by blast
  qed
qed

lemma echos_eff:
  assumes "port (portdev (ttys st ! k)) st"
  shows "\<exists>st'. echos D k s st = Some st' \<and> tty_eff port inp k st (ttys st ! k) (inp (portdev (ttys st ! k)) st) st'"
proof (cases "t_flags (ttys st ! k) AND TTY_ECHO \<noteq> 0")
  case True
  show ?thesis unfolding echos_def if_P [OF True] by (rule port_write_eff [OF assms])
next
  case False
  show ?thesis unfolding echos_def if_not_P [OF False] using no_eff [OF assms] by blast
qed

lemma add_eff:
  assumes "port (portdev t) st" "k < length (ttys st)" "t = ttys st ! k" "ilen t < IBUFSZ"
  shows "\<exists>st'. add_to_inbuf D k c st = Some (st', 0) \<and>
    tty_eff port inp k st (t\<lparr>ibuf := (ibuf t)[ilen t := c], ilen := ilen t + 1\<rparr>) (inp (portdev t) st) st'"
proof -
  let ?g = "\<lambda>t. t\<lparr>ibuf := (ibuf t)[ilen t := c], ilen := ilen t + 1\<rparr>"
  have e: "tty_eff port inp k st (?g t) (inp (portdev t) st) (upd_tty k ?g st)"
    using eff_upd [of st k ?g] assms by simp
  have p: "ttys (upd_tty k ?g st) ! k = ?g t" "port (portdev (ttys (upd_tty k ?g st) ! k)) (upd_tty k ?g st)"
    using tty_effD [OF e assms(2)] by simp_all
  obtain st' where s: "echoc D k c (upd_tty k ?g st) = Some st'"
    "tty_eff port inp k (upd_tty k ?g st) (?g t) (inp (portdev (?g t)) (upd_tty k ?g st)) st'"
    using echoc_eff [OF p(2), of c] unfolding p(1) by blast
  have "tty_eff port inp k st (?g t) (inp (portdev t) st) st'"
    using tty_eff_trans [OF e s(2)] inp_upd by simp
  then show ?thesis using s(1) assms(3,4) by (simp add: add_to_inbuf_def)
qed

lemma backspace_eff:
  assumes "port (portdev t) st" "k < length (ttys st)" "t = ttys st ! k"
  shows "\<exists>st'. backspace D k st = Some st' \<and> tty_eff port inp k st (t\<lparr>ilen := ilen t - 1\<rparr>) (inp (portdev t) st) st'"
proof (cases "ilen t = 0")
  case True
  then have e: "t\<lparr>ilen := ilen t - 1\<rparr> = t" by simp
  show ?thesis unfolding e using True no_eff [of st k] assms by (simp add: backspace_def)
next
  case False
  let ?g = "\<lambda>t. t\<lparr>ilen := ilen t - 1\<rparr>"
  have e: "tty_eff port inp k st (?g t) (inp (portdev t) st) (upd_tty k ?g st)"
    using eff_upd [of st k ?g] assms by simp
  have p: "ttys (upd_tty k ?g st) ! k = ?g t" "port (portdev (ttys (upd_tty k ?g st) ! k)) (upd_tty k ?g st)"
    using tty_effD [OF e assms(2)] by simp_all
  obtain st' where s: "echos D k [BS, CHR '' '', BS] (upd_tty k ?g st) = Some st'"
    "tty_eff port inp k (upd_tty k ?g st) (?g t) (inp (portdev (?g t)) (upd_tty k ?g st)) st'"
    using echos_eff [OF p(2), of "[BS, CHR '' '', BS]"] unfolding p(1) by blast
  have "tty_eff port inp k st (?g t) (inp (portdev t) st) st'"
    using tty_eff_trans [OF e s(2)] inp_upd by simp
  then show ?thesis using s(1) assms(3) False by (simp add: backspace_def)
qed

lemma clearline_loop_eff:
  "port (portdev t) st \<Longrightarrow> k < length (ttys st) \<Longrightarrow> t = ttys st ! k \<Longrightarrow>
   \<exists>st'. clearline_loop D k n st = Some st' \<and> tty_eff port inp k st (t\<lparr>ilen := ilen t - n\<rparr>) (inp (portdev t) st) st'"
proof (induction n arbitrary: st t)
  case 0
  then show ?case using no_eff [of st k] by simp
next
  case (Suc n)
  obtain st1 where s1: "backspace D k st = Some st1" "tty_eff port inp k st (t\<lparr>ilen := ilen t - 1\<rparr>) (inp (portdev t) st) st1"
    using backspace_eff [OF Suc.prems] by blast
  let ?t1 = "t\<lparr>ilen := ilen t - 1\<rparr>"
  have "port (portdev ?t1) st1" "k < length (ttys st1)" "?t1 = ttys st1 ! k"
    using tty_effD [OF s1(2) Suc.prems(2)] Suc.prems(2) by simp_all
  from Suc.IH [OF this] obtain st2 where s2: "clearline_loop D k n st1 = Some st2"
    "tty_eff port inp k st1 (?t1\<lparr>ilen := ilen ?t1 - n\<rparr>) (inp (portdev ?t1) st1) st2" by blast
  have i: "inp (portdev ?t1) st1 = inp (portdev t) st" "?t1\<lparr>ilen := ilen ?t1 - n\<rparr> = t\<lparr>ilen := ilen t - Suc n\<rparr>"
    using tty_effD(4) [OF s1(2) Suc.prems(2)] by simp_all
  show ?case using s1(1) s2(1) tty_eff_trans [OF s1(2) s2(2) [unfolded i]] by simp
qed

end

definition tty_same :: "tty \<Rightarrow> tty \<Rightarrow> bool" where
  "tty_same t t' \<longleftrightarrow> tty_ok t' \<and> t_flags t' = t_flags t \<and> portdev t' = portdev t"

lemma tty_same_trans: "tty_same t u \<Longrightarrow> tty_same u v \<Longrightarrow> tty_same t v"
  by (simp add: tty_same_def)

context char_port
begin

lemma inchar_edit:
  assumes "port (portdev t) st" "k < length (ttys st)" "t = ttys st ! k"
    and "tty_ok t" "ISCOOKED t" "\<not> ibuf_eol t" "ilen t < IBUFSZ" "c \<noteq> NL" "c \<noteq> CTRL_D"
  shows "\<exists>st' t'. tty_inchar D k c st = Some (st', 0) \<and> tty_eff port inp k st t' (inp (portdev t) st) st' \<and>
    tty_same t t' \<and> line t' = edit (line t) c \<and> \<not> ibuf_eol t'"
proof -
  have ck: "ISCOOKED (ttys st ! k)" "\<not> ibuf_eol (ttys st ! k)" using assms by simp_all
  consider (erase) "c = BS \<or> c = DEL" | (clear) "c = CTRL_U" | (other) "c \<notin> {NL, CTRL_D, BS, DEL, CTRL_U}"
    using assms(8,9) by blast
  then show ?thesis
  proof cases
    case erase
    let ?t = "t\<lparr>ilen := ilen t - 1\<rparr>"
    obtain st' where s: "backspace D k st = Some st'" "tty_eff port inp k st ?t (inp (portdev t) st) st'"
      using backspace_eff [OF assms(1-3)] by blast
    have i: "tty_inchar D k c st = Some (st', 0)" using erase s(1) ck by (auto simp: tty_inchar_def SPECIALCHARS_def)
    have l: "line ?t = edit (line t) c" using erase line_back [OF assms(4)] by (auto simp: edit_def)
    show ?thesis by (intro exI [of _ st'] exI [of _ ?t] conjI i s(2) l)
        (use assms(4,6) in \<open>auto simp: tty_same_def tty_ok_def\<close>)
  next
    case clear
    let ?t = "t\<lparr>ilen := ilen t - ilen t\<rparr>"
    obtain st' where s: "clearline_loop D k (ilen t) st = Some st'" "tty_eff port inp k st ?t (inp (portdev t) st) st'"
      using clearline_loop_eff [OF assms(1-3)] by blast
    have i: "tty_inchar D k c st = Some (st', 0)"
      using clear s(1) ck assms(3) by (auto simp: tty_inchar_def SPECIALCHARS_def clearline_def)
    have l: "line ?t = edit (line t) c" using clear by (simp add: edit_def line_def)
    show ?thesis by (intro exI [of _ st'] exI [of _ ?t] conjI i s(2) l)
        (use assms(4,6) in \<open>simp_all add: tty_same_def tty_ok_def\<close>)
  next
    case other
    let ?t = "t\<lparr>ibuf := (ibuf t)[ilen t := c], ilen := ilen t + 1\<rparr>"
    obtain st' where s: "add_to_inbuf D k c st = Some (st', 0)" "tty_eff port inp k st ?t (inp (portdev t) st) st'"
      using add_eff [OF assms(1-3,7)] by blast
    have i: "tty_inchar D k c st = Some (st', 0)" using s(1) ck special_None [OF other] by (simp add: tty_inchar_def)
    have l: "line ?t = edit (line t) c" using other line_add [OF assms(4,7)] by (simp add: edit_def)
    show ?thesis by (intro exI [of _ st'] exI [of _ ?t] conjI i s(2) l)
        (use assms(4,6,7) in \<open>simp_all add: tty_same_def tty_ok_def\<close>)
  qed
qed

lemma inchar_nl:
  assumes "port (portdev t) st" "k < length (ttys st)" "t = ttys st ! k"
    and "tty_ok t" "ISCOOKED t" "\<not> ibuf_eol t" "ilen t < IBUFSZ"
  shows "\<exists>st' t'. tty_inchar D k NL st = Some (st', 0) \<and> tty_eff port inp k st t' (inp (portdev t) st) st' \<and>
    tty_same t t' \<and> line t' = line t @ [NL] \<and> ibuf_eol t'"
proof -
  let ?g = "\<lambda>t :: tty. t\<lparr>ibuf_eol := True\<rparr>"
  let ?u = "?g t"
  let ?t = "?u\<lparr>ibuf := (ibuf ?u)[ilen ?u := NL], ilen := ilen ?u + 1\<rparr>"
  have e: "tty_eff port inp k st ?u (inp (portdev t) st) (upd_tty k ?g st)"
    using eff_upd [of st k ?g] assms(1,3) by simp
  note d = tty_effD [OF e assms(2)]
  obtain st' where s: "add_to_inbuf D k NL (upd_tty k ?g st) = Some (st', 0)"
    "tty_eff port inp k (upd_tty k ?g st) ?t (inp (portdev ?u) (upd_tty k ?g st)) st'"
    using add_eff [OF d(3) _ d(1) [symmetric], of NL] assms(2,7) d(2) by auto
  have i: "tty_inchar D k NL st = Some (st', 0)" using s(1) assms(3,5,6) by (simp add: tty_inchar_def SPECIALCHARS_def)
  have f: "tty_eff port inp k st ?t (inp (portdev t) st) st'" using tty_eff_trans [OF e s(2)] unfolding d(4) .
  have l: "line ?t = line t @ [NL]" using line_add [of ?u NL] assms(4,7) by (simp add: tty_ok_def line_def)
  show ?thesis by (intro exI [of _ st'] exI [of _ ?t] conjI i f l)
      (use assms(4,7) in \<open>simp_all add: tty_same_def tty_ok_def\<close>)
qed

lemma fill_read:
  assumes "port (portdev t) st" "k < length (ttys st)" "t = ttys st ! k" "\<not> ibuf_eol t" "ilen t < IBUFSZ"
    and "inp (portdev t) st = c # xs"
  shows "\<exists>st1. tty_fill D k pr st = Option.bind (tty_inchar D k c st1) (\<lambda>(st, res).
      if res < 0 then Some (1, Some res, st) else tty_fill D k 1 st) \<and> tty_eff port inp k st t xs st1"
proof -
  obtain h' where h: "file_read D (portdev t) 1 st = Some ([c], portdev t, st\<lparr>hw := h'\<rparr>, 1)"
    "port (portdev t) (st\<lparr>hw := h'\<rparr>)" "inp (portdev t) (st\<lparr>hw := h'\<rparr>) = xs"
    using read1 [OF assms(1)] assms(6) by auto
  have "upd_tty k (\<lambda>t'. t'\<lparr>portdev := portdev t\<rparr>) (st\<lparr>hw := h'\<rparr>) = st\<lparr>hw := h'\<rparr>" using assms(3) by (simp add: upd_tty_def)
  then show ?thesis using h assms(3-5)
    by (intro exI [of _ "st\<lparr>hw := h'\<rparr>"]) (simp add: tty_fill.simps [of D k pr st] tty_eff_def)
qed

text \<open>Filling the buffer in cooked mode up to the end of a line.\<close>

lemma fill_line:
  "port (portdev t) st \<Longrightarrow> k < length (ttys st) \<Longrightarrow> t = ttys st ! k \<Longrightarrow> tty_ok t \<Longrightarrow> ISCOOKED t \<Longrightarrow> \<not> ibuf_eol t \<Longrightarrow>
   inp (portdev t) st = ln @ NL # rest \<Longrightarrow> NL \<notin> set ln \<Longrightarrow> CTRL_D \<notin> set ln \<Longrightarrow> length (line t) + length ln < IBUFSZ \<Longrightarrow>
   \<exists>st' t'. tty_fill D k pr st = Some (1, None, st') \<and> tty_eff port inp k st t' rest st' \<and>
     tty_same t t' \<and> line t' = foldl edit (line t) ln @ [NL] \<and> ibuf_eol t'"
proof (induction ln arbitrary: st t pr)
  case Nil
  have il: "ilen t < IBUFSZ" using Nil.prems(10) length_line [OF Nil.prems(4)] by simp
  obtain st1 where s1: "tty_fill D k pr st = Option.bind (tty_inchar D k NL st1) (\<lambda>(st, res).
      if res < 0 then Some (1, Some res, st) else tty_fill D k 1 st)" "tty_eff port inp k st t rest st1"
    using fill_read [OF Nil.prems(1-3,6) il] Nil.prems(7) by fastforce
  note d = tty_effD [OF s1(2) Nil.prems(2)]
  have k1: "k < length (ttys st1)" using d(2) Nil.prems(2) by simp
  obtain st2 t' where s2: "tty_inchar D k NL st1 = Some (st2, 0)" "tty_eff port inp k st1 t' rest st2"
    "tty_same t t'" "line t' = line t @ [NL]" "ibuf_eol t'"
    using inchar_nl [OF d(3) k1 d(1) [symmetric] Nil.prems(4,5,6) il] unfolding d(4) by blast
  have "tty_fill D k 1 st2 = Some (1, None, st2)"
    using s2(5) tty_effD(1) [OF s2(2) k1] by (simp add: tty_fill.simps [of D k 1 st2])
  then show ?case using s1(1) s2 tty_eff_trans [OF s1(2) s2(2)] by (intro exI [of _ st2] exI [of _ t']) simp
next
  case (Cons c ln)
  have il: "ilen t < IBUFSZ" using Cons.prems(10) length_line [OF Cons.prems(4)] by simp
  obtain st1 where s1: "tty_fill D k pr st = Option.bind (tty_inchar D k c st1) (\<lambda>(st, res).
      if res < 0 then Some (1, Some res, st) else tty_fill D k 1 st)" "tty_eff port inp k st t (ln @ NL # rest) st1"
    using fill_read [OF Cons.prems(1-3,6) il] Cons.prems(7) by fastforce
  note d = tty_effD [OF s1(2) Cons.prems(2)]
  have k1: "k < length (ttys st1)" using d(2) Cons.prems(2) by simp
  obtain st2 u where s2: "tty_inchar D k c st1 = Some (st2, 0)" "tty_eff port inp k st1 u (ln @ NL # rest) st2"
    "tty_same t u" "line u = edit (line t) c" "\<not> ibuf_eol u"
    using inchar_edit [OF d(3) k1 d(1) [symmetric] Cons.prems(4,5,6) il, of c] Cons.prems(8,9) unfolding d(4) by auto
  note e = tty_effD [OF s2(2) k1]
  have "length (line u) + length ln < IBUFSZ" using s2(4) length_edit [of "line t" c] Cons.prems(10) by simp
  then obtain st3 t' where s3: "tty_fill D k 1 st2 = Some (1, None, st3)" "tty_eff port inp k st2 t' rest st3"
    "tty_same u t'" "line t' = foldl edit (line u) ln @ [NL]" "ibuf_eol t'"
    using Cons.IH [OF e(3) _ e(1) [symmetric] _ _ s2(5) e(4), of 1] Cons.prems(2,5,8,9) s2(3) d(2) e(2)
    by (auto simp: tty_same_def ISCOOKED_def)
  show ?case using s1(1) s2 s3 tty_eff_trans [OF tty_eff_trans [OF s1(2) s2(2)] s3(2)] tty_same_trans
    by (intro exI [of _ st3] exI [of _ t']) auto
qed

lemma read_line:
  assumes "port (portdev t) st" "k < length (ttys st)" "t = ttys st ! k" "tty_ok t" "ISCOOKED t" "\<not> ibuf_eol t"
    and "inp (portdev t) st = ln @ NL # rest" "NL \<notin> set ln" "CTRL_D \<notin> set ln" "length (line t) + length ln < IBUFSZ"
    and "f_driver_data f = Some k" "L = foldl edit (line t) ln @ [NL]"
  shows "\<exists>st' t'. tty_read D f n off st = Some (take n L, off, st', int (length (take n L))) \<and>
    tty_eff port inp k st t' rest st' \<and> tty_same t t' \<and> line t' = drop n L \<and> (ibuf_eol t' \<longleftrightarrow> drop n L \<noteq> [])"
proof -
  obtain st1 u where s: "tty_fill D k (err EAGAIN) st = Some (1, None, st1)" "tty_eff port inp k st u rest st1"
    "tty_same t u" "line u = L" "ibuf_eol u"
    using fill_line [OF assms(1-10)] assms(12) by blast
  note d = tty_effD [OF s(2) assms(2)]
  have ok: "tty_ok u" "ISCOOKED u" using s(3) assms(5) by (simp_all add: tty_same_def ISCOOKED_def)
  have len: "ilen u = length L" using length_line [OF ok(1)] s(4) by simp
  let ?r = "Orderings.min (ilen u) n"
  define g where "g = (\<lambda>t :: tty. let t = t\<lparr>ibuf := take (ilen t - ?r) (drop ?r (ibuf t)) @ drop (ilen t - ?r) (ibuf t), ilen := ilen t - ?r\<rparr>
    in if ilen t = 0 then t\<lparr>ibuf_eol := False\<rparr> else t)"
  have tk: "take ?r (ibuf u) = take n L" using s(4) ok(1) by (auto simp: line_def tty_ok_def min_def)
  have rd: "tty_read D f n off st = Some (take n L, off, upd_tty k g st1, int (length (take n L)))"
    using s(1,5) d(1) ok(2) len assms(11,12) tk by (simp add: tty_read_def g_def Let_def min.commute)
  have gl: "line (g u) = drop n L" "ibuf_eol (g u) \<longleftrightarrow> drop n L \<noteq> []" "portdev (g u) = portdev u"
    using s(4,5) ok(1) len drop_take [of n "length L" "ibuf u"] by (auto simp: g_def line_def tty_ok_def Let_def min_def)
  have "tty_eff port inp k st1 (g u) rest (upd_tty k g st1)" using eff_upd [of st1 k g] d gl(3) by simp
  then have "tty_eff port inp k st (g u) rest (upd_tty k g st1)" using tty_eff_trans [OF s(2)] by blast
  moreover have "tty_same t (g u)" using s(3) ok(1) gl(3) by (auto simp: g_def tty_same_def tty_ok_def Let_def min_def)
  ultimately show ?thesis using rd gl by blast
qed

end

section \<open>A terminal on a serial port\<close>

definition serial_port :: "(u16 \<Rightarrow> 'h \<Rightarrow> bool) \<Rightarrow> vfile \<Rightarrow> ('h, 'a) ttystate_scheme \<Rightarrow> bool" where
  "serial_port online p st \<longleftrightarrow> f_op p = Some SerialDrv \<and>
    (\<exists>i. f_driver_data p = Some i \<and> online (s_port (serials st ! i)) (hw st))"

definition serial_inp :: "(u16 \<Rightarrow> 'h \<Rightarrow> string) \<Rightarrow> vfile \<Rightarrow> ('h, 'a) ttystate_scheme \<Rightarrow> string" where
  "serial_inp rx p st =
    (let s = serials st ! the (f_driver_data p) in map (ifilter s) (rx (s_port s) (hw st)))"

sublocale uart \<subseteq> char_port "with_serial B D0" "serial_port online" "serial_inp rx"
  for D0 :: "('h, 'x) ttystate_scheme drivers"
proof
  fix p :: vfile and st :: "('h, 'x) ttystate_scheme" and s k g
  assume "serial_port online p st"
  then obtain i where i: "f_op p = Some SerialDrv" "f_driver_data p = Some i" "online (s_port (serials st ! i)) (hw st)"
    by (auto simp: serial_port_def)
  let ?q = "s_port (serials st ! i)"
  obtain h' where h: "serial_read_loop B i 0 1 st = (map (ifilter (serials st ! i)) (take 1 (rx ?q (hw st))), st\<lparr>hw := h'\<rparr>,
      if rx ?q (hw st) = [] then err EAGAIN else int (length (take 1 (rx ?q (hw st)))))"
    "rx ?q h' = drop 1 (rx ?q (hw st))" "online ?q h'"
    using read_loop_uart [OF i(3) refl refl, of 0 1] by auto
  show "\<exists>h'. file_read (with_serial B D0) p 1 st =
      Some (take 1 (serial_inp rx p st), p, st\<lparr>hw := h'\<rparr>, if serial_inp rx p st = [] then err EAGAIN else 1) \<and>
    serial_port online p (st\<lparr>hw := h'\<rparr>) \<and> serial_inp rx p (st\<lparr>hw := h'\<rparr>) = tl (serial_inp rx p st)"
    using h i by (intro exI [of _ h'], cases "rx ?q (hw st)")
      (simp_all add: file_read_serial serial_inp_def serial_port_def Let_def del: serial_read_loop.simps)
  obtain h2 r where w: "serial_write_loop B i s st = Some (r, st\<lparr>hw := h2\<rparr>)" "rx ?q h2 = rx ?q (hw st)" "online ?q h2"
    using write_loop_any [OF i(3) refl] by blast
  show "\<exists>h' r. file_write (with_serial B D0) p s st = Some (p, st\<lparr>hw := h'\<rparr>, r) \<and>
    serial_port online p (st\<lparr>hw := h'\<rparr>) \<and> serial_inp rx p (st\<lparr>hw := h'\<rparr>) = serial_inp rx p st"
  proof (cases "s = []")
    case True
    then show ?thesis using i
      by (intro exI [of _ "hw st"]) (simp add: file_write_def has_op_def with_serial_def serial_ops_def serial_port_def)
  next
    case False
    then show ?thesis using w i
      by (intro exI [of _ h2]) (simp add: file_write_serial serial_port_def serial_inp_def)
  qed
next
  fix p :: vfile and st :: "('h, 'x) ttystate_scheme" and k g
  show "serial_port online p (upd_tty k g st) = serial_port online p st"
    "serial_inp rx p (upd_tty k g st) = serial_inp rx p st"
    by (simp_all add: serial_port_def serial_inp_def upd_tty_def)
qed

context uart
begin

lemmas serial_read_line = read_line
lemmas serial_tty_write = tty_write_eff

end

text \<open>
  Property C23. A read from a terminal in cooked mode on a working serial port returns the edited line: if the
  pending input has a complete line, with at most as many characters as fit the buffer beside the
  newline, the read gives the first bytes of what backspace, delete and control-U leave of the line,
  with the newline; the rest of the line stays in the buffer for the next read, the input behind the
  newline is not consumed, and the other terminals do not change.
\<close>

theorem tty_cooked_line:
  fixes st :: "('h, 'a) ttystate_scheme"
  assumes "uart B online rx tx busy" "f_op f = Some TtyDrv" "f_driver_data f = Some k" "k < length (ttys st)"
    and "serial_port online (portdev (ttys st ! k)) st" "tty_ok (ttys st ! k)" "ISCOOKED (ttys st ! k)" "\<not> ibuf_eol (ttys st ! k)"
    and "serial_inp rx (portdev (ttys st ! k)) st = ln @ NL # rest" "NL \<notin> set ln" "CTRL_D \<notin> set ln"
    and "length (line (ttys st ! k)) + length ln < IBUFSZ" "L = foldl edit (line (ttys st ! k)) ln @ [NL]" "0 < n"
  shows "\<exists>st' t'. file_read (with_tty (with_serial B D)) f n st = Some (take n L, f, st', int (length (take n L))) \<and>
    ttys st' = (ttys st)[k := t'] \<and> line t' = drop n L \<and> serial_inp rx (portdev t') st' = rest \<and>
    (ibuf_eol t' \<longleftrightarrow> drop n L \<noteq> [])"
proof -
  have e: "f\<lparr>f_pos := f_pos f\<rparr> = f" by simp
  have "file_read (with_tty (with_serial B D)) f n st =
      map_option (\<lambda>(dst, off, st, res). (dst, f\<lparr>f_pos := off\<rparr>, st, res)) (tty_read (with_serial B D) f n (f_pos f) st)"
    using assms(2,14) by (simp add: file_read_def has_op_def with_tty_def tty_ops_def)
  then show ?thesis
    using uart.serial_read_line [OF assms(1,5,4) refl assms(6-12,3,13), of D n "f_pos f"] e by (fastforce dest: tty_eff_ttys)
qed

definition tty_st :: "string \<Rightarrow> uart8250 ttystate" where
  "tty_st input = \<lparr>chrdev_drivers = replicate MAJORS_MAX None, fs_drivers = replicate FSTYPES_MAX None,
    superblocks = replicate SB_MAX superblock0, vfs_mount_list = \<lparr>lh_next = (\<lambda>x. None), lh_prev = (\<lambda>x. None)\<rparr>,
    ramdisks = replicate RAMDISKS_MAX ramdisk0, kmem = (\<lambda>a. NUL), cfdatas = [],
    serials = [\<lparr>s_port = 0x3f8, s_flags = 0\<rparr>, \<lparr>s_port = 0, s_flags = 0\<rparr>],
    hw = \<lparr>u_rx = input, u_tx = [], u_busy = 1, u_loop = False, u_lb = 0\<rparr>,
    ttys = [\<lparr>portdev = file0\<lparr>f_op := Some SerialDrv, f_driver_data := Some 0\<rparr>, t_flags = TTY_ECHO OR TTY_COOKED,
      initialized = True, ibuf_eol = False, ibuf_eof = False, ilen = 0, ibuf = replicate IBUFSZ NUL\<rparr>]\<rparr>"

theorem tty_cooked_line_witness:
  "\<exists>st' (t' :: tty). file_read (with_tty (with_serial uart_bus no_drivers)) (file0\<lparr>f_op := Some TtyDrv, f_driver_data := Some 0\<rparr>) 3
      (tty_st [CHR ''l'', CHR ''x'', BS, CHR ''s'', NL, CHR ''z'']) =
      Some ([CHR ''l'', CHR ''s'', NL], file0\<lparr>f_op := Some TtyDrv, f_driver_data := Some 0\<rparr>, st', 3) \<and>
    serial_inp (\<lambda>p. u_rx) (portdev t') st' = ''z''"
proof -
  let ?x = "[CHR ''l'', CHR ''x'', BS, CHR ''s'', NL, CHR ''z'']"
  let ?st = "tty_st ?x" and ?f = "file0\<lparr>f_op := Some TtyDrv, f_driver_data := Some 0\<rparr>"
  have t: "line (ttys ?st ! 0) = []" "tty_ok (ttys ?st ! 0)" "ISCOOKED (ttys ?st ! 0)" "\<not> ibuf_eol (ttys ?st ! 0)" "0 < length (ttys ?st)"
    by (simp_all add: tty_st_def line_def tty_ok_def ISCOOKED_def TTY_ECHO_def TTY_COOKED_def)
  have p: "serial_port (\<lambda>p u. p = 0x3f8 \<and> \<not> u_loop u) (portdev (ttys ?st ! 0)) ?st"
    "serial_inp (\<lambda>p. u_rx) (portdev (ttys ?st ! 0)) ?st = [CHR ''l'', CHR ''x'', BS, CHR ''s''] @ NL # ''z''"
    by (simp_all add: tty_st_def serial_port_def serial_inp_def ifilter_def)
  have L: "[CHR ''l'', CHR ''s'', NL] = foldl edit (line (ttys ?st ! 0)) [CHR ''l'', CHR ''x'', BS, CHR ''s''] @ [NL]"
    unfolding t(1) by (simp add: edit_def)
  have n: "NL \<notin> set [CHR ''l'', CHR ''x'', BS, CHR ''s'']" "CTRL_D \<notin> set [CHR ''l'', CHR ''x'', BS, CHR ''s'']"
    "length (line (ttys ?st ! 0)) + length [CHR ''l'', CHR ''x'', BS, CHR ''s''] < IBUFSZ" "0 < (3 :: nat)"
    by (simp_all add: t(1) IBUFSZ_def)
  have f: "f_op ?f = Some TtyDrv" "f_driver_data ?f = Some 0" by simp_all
  obtain st' and t' :: tty where "file_read (with_tty (with_serial uart_bus no_drivers)) ?f 3 ?st =
      Some (take 3 [CHR ''l'', CHR ''s'', NL], ?f, st', int (length (take 3 [CHR ''l'', CHR ''s'', NL])))"
    "serial_inp (\<lambda>p. u_rx) (portdev t') st' = ''z''"
    using tty_cooked_line [OF u8250.uart_axioms f t(5) p(1) t(2,3,4) p(2) n(1,2,3) L n(4), of no_drivers] by blast
  then show ?thesis by (intro exI [of _ st'] exI [of _ t']) simp
qed

text \<open>
  A line of 256 characters without a newline blocks a terminal in cooked mode for ever: once the
  buffer is full no character is taken any more, so the end of the line is never seen; every read fails
  with the same error and changes nothing.
\<close>

theorem tty_full_line_stuck:
  assumes "f_op f = Some TtyDrv" "f_driver_data f = Some k" "ilen (ttys st ! k) = IBUFSZ"
    and "ISCOOKED (ttys st ! k)" "\<not> ibuf_eol (ttys st ! k)" "0 < n"
  shows "file_read (with_tty D) f n st = Some ([], f, st, err EAGAIN)"
proof -
  have e: "f\<lparr>f_pos := f_pos f\<rparr> = f" by simp
  have "tty_read D f n (f_pos f) st = Some ([], f_pos f, st, err EAGAIN)"
    using assms by (simp add: tty_read_def tty_fill.simps [of D k] IBUFSZ_def)
  then show ?thesis using assms(1,6) e by (simp add: file_read_def has_op_def with_tty_def tty_ops_def)
qed

theorem tty_full_line_stuck_witness:
  "file_read (with_tty (with_serial uart_bus no_drivers)) (file0\<lparr>f_op := Some TtyDrv, f_driver_data := Some 0\<rparr>) 10
     (upd_tty 0 (\<lambda>t. t\<lparr>ilen := 256\<rparr>) (tty_st [NL])) =
   Some ([], file0\<lparr>f_op := Some TtyDrv, f_driver_data := Some 0\<rparr>, upd_tty 0 (\<lambda>t. t\<lparr>ilen := 256\<rparr>) (tty_st [NL]), - 15)"
proof -
  let ?st = "upd_tty 0 (\<lambda>t. t\<lparr>ilen := 256\<rparr>) (tty_st [NL])" and ?f = "file0\<lparr>f_op := Some TtyDrv, f_driver_data := Some 0\<rparr>"
  have "ilen (ttys ?st ! 0) = IBUFSZ" "ISCOOKED (ttys ?st ! 0)" "\<not> ibuf_eol (ttys ?st ! 0)"
    by (simp_all add: upd_tty_def tty_st_def IBUFSZ_def ISCOOKED_def TTY_ECHO_def TTY_COOKED_def)
  from tty_full_line_stuck [OF _ _ this, of ?f 10 "with_serial uart_bus no_drivers"] show ?thesis by simp
qed

end
