(* ===== verification/Devices.thy ===== *)
theory Devices
  imports Tty Cpio_Archive
begin

text \<open>
  The drivers of the kernel together: the table of drivers that \<open>kernel_main\<close> sets up, the proof that all its
  devices leave the tables of the VFS alone, and what mounting the initial RAM disk does
  (\<open>mount_initrd\<close> of \<open>kernel/kernel.c\<close>).
\<close>

section \<open>Every device keeps the tables of the VFS\<close>

lemma same_vfs_upd [simp]:
  fixes st st1 :: "('h, 'a) ttystate_scheme"
  shows "same_vfs st (upd_tty k g st1) = same_vfs st st1"
  by (simp add: same_vfs_def upd_tty_def)

lemma no_devices: "vfs_devices no_drivers"
  by unfold_locales (simp_all add: no_drivers_def)

lemma vfs_devices_upd:
  assumes "vfs_devices D"
    and "\<And>g f mi st f' st' r. op_open_dev ops = Some g \<Longrightarrow> g f mi st = (f', st', r) \<Longrightarrow> same_vfs st st'"
    and "\<And>g f n off st s off' st' r. op_read ops = Some g \<Longrightarrow> g f n off st = Some (s, off', st', r) \<Longrightarrow> same_vfs st st'"
    and "\<And>g f s off st off' st' r. op_write ops = Some g \<Longrightarrow> g f s off st = Some (off', st', r) \<Longrightarrow> same_vfs st st'"
    and "op_lseek ops = None" "op_release ops = None"
  shows "vfs_devices (D\<lparr>dr_ops := (dr_ops D)(d := ops)\<rparr>)"
proof -
  note l = vfs_devices.open_same [OF assms(1)] vfs_devices.read_same [OF assms(1)] vfs_devices.write_same [OF assms(1)]
    vfs_devices.seek_same [OF assms(1)] vfs_devices.release_same [OF assms(1)]
  show ?thesis
    by unfold_locales (auto split: if_splits dest: l assms(2-4) simp: assms(5,6))
qed

lemma ramdisk_devices: "vfs_devices D \<Longrightarrow> vfs_devices (with_ramdisk D)"
  unfolding with_ramdisk_def
  by (rule vfs_devices_upd)
    (auto simp: ramdisk_ops_def ramdisk_open_dev_def ramdisk_read_def Let_def split: if_splits prod.splits)

section \<open>The serial port\<close>

lemma same_vfs_io [simp]:
  fixes st st1 :: "('h, 'a) srstate_scheme"
  shows "same_vfs st (outb B v p st1) = same_vfs st st1" "same_vfs st (snd (inb B p st1)) = same_vfs st st1"
    "same_vfs st (st1\<lparr>serials := x\<rparr>) = same_vfs st st1" "same_vfs st (st1\<lparr>hw := h\<rparr>) = same_vfs st st1"
  by (simp_all add: same_vfs_def outb_def inb_def split: prod.splits)

lemma inb_same: "inb B p st = (v, st') \<Longrightarrow> same_vfs st st'"
  by (metis same_vfs_io(2) same_vfs_refl snd_conv)

lemma linestat_same: "check_linestat B k bits st = (b, st') \<Longrightarrow> same_vfs st st'"
  by (auto simp: check_linestat_def dest: inb_same split: prod.splits)

lemma readch_same: "serial_readch B k st = (c, st') \<Longrightarrow> same_vfs st st'"
  by (auto simp: serial_readch_def dest!: linestat_same inb_same split: prod.splits if_splits intro: same_vfs_trans)

lemma read_loop_same: "serial_read_loop B k n rem st = (bs, st', r) \<Longrightarrow> same_vfs st st'"
proof (induction rem arbitrary: n st bs st' r)
  case (Suc rem)
  obtain c st1 where c: "serial_readch B k st = (c, st1)" by force
  note s1 = readch_same [OF c]
  obtain bs2 st2 r2 where l: "serial_read_loop B k (Suc n) rem st1 = (bs2, st2, r2)" by (metis prod_cases3)
  have "st' = st1 \<or> st' = st2" using Suc.prems c l by (auto simp: Let_def split: if_splits)
  then show ?case using s1 Suc.IH [OF l] same_vfs_trans by blast
qed simp

lemma writech_same:
  assumes "serial_writech B k c st = Some r"
  shows "same_vfs st (snd r)"
proof (rule serial_writech.raw_induct [OF _ assms, where P = "\<lambda>B k c st r. same_vfs st (snd r)"])
  fix rec B k c st r
  assume IH: "\<And>B k c st y. rec B k c st = Some y \<Longrightarrow> same_vfs st (snd y)"
    and body: "(let (ready, st) = check_linestat B k LS_THRE st
      in if \<not> ready then rec B k c st else Some (schar c, outb B (of_int (schar c)) (s_port (serials st ! k)) st)) = Some r"
  obtain b st1 where l: "check_linestat B k LS_THRE st = (b, st1)" by force
  have "snd r = outb B (of_int (schar c)) (s_port (serials st1 ! k)) st1 \<or> rec B k c st1 = Some r" using body l by (auto split: if_splits)
  then show "same_vfs st (snd r)"
  proof
    assume "rec B k c st1 = Some r"
    from same_vfs_trans [OF linestat_same [OF l] IH [OF this]] show ?thesis .
  qed (use linestat_same [OF l] in auto)
qed

lemma out_same: "serial_out B k out st = Some (r, st') \<Longrightarrow> same_vfs st st'"
proof (induction out arbitrary: st)
  case (Cons c out)
  then obtain x where w: "serial_writech B k c st = Some x" by (auto split: bind_splits)
  have "st' = snd x \<or> serial_out B k out (snd x) = Some (r, st')" using Cons.prems w by (auto split: if_splits prod.splits)
  then show ?case using writech_same [OF w] Cons.IH same_vfs_trans by blast
qed simp

lemma write_loop_same: "serial_write_loop B k src st = Some (r, st') \<Longrightarrow> same_vfs st st'"
proof (induction src arbitrary: st)
  case (Cons c src)
  then obtain q st1 where w: "serial_out B k (ofilter (serials st ! k) c) st = Some (q, st1)" by (auto split: bind_splits)
  have "st' = st1 \<or> serial_write_loop B k src st1 = Some (r, st')" using Cons.prems w by (auto split: option.splits)
  then show ?case using out_same [OF w] Cons.IH same_vfs_trans by blast
qed simp

lemma serial_open_same: "serial_open_dev B f mi st = (f', st', r) \<Longrightarrow> same_vfs st st'"
proof -
  assume a: "serial_open_dev B f mi st = (f', st', r)"
  let ?st1 = "\<lambda>p. outb B 0x0a p (outb B (MC_RTS OR MC_LOOP) (p + POFF_MODEMCTL) (st\<lparr>serials := (serials st)[mi - 1 := (serials st ! (mi - 1))\<lparr>s_port := p\<rparr>]\<rparr>))"
  have "st' = st \<or> (\<exists>p v x. st' = snd (inb B p (?st1 p)) \<or> st' = outb B v x (snd (inb B p (?st1 p))))"
    using a by (auto simp: serial_open_dev_def Let_def split: if_splits prod.splits) (metis snd_conv)+
  then show ?thesis by auto
qed

lemma serial_devices: "vfs_devices D \<Longrightarrow> vfs_devices (with_serial B D)"
  unfolding with_serial_def
  by (rule vfs_devices_upd)
    (auto simp: serial_ops_def serial_read_def serial_write_def split: prod.splits
      dest: serial_open_same read_loop_same write_loop_same)

section \<open>The terminal\<close>

locale tty_devices = vfs_devices D for D :: "('h, 'a) ttystate_scheme drivers"
begin

lemma port_write_same: "port_write D k s st = Some st' \<Longrightarrow> same_vfs st st'"
  by (auto simp: port_write_def dest: file_write_same)

lemma echoc_same: "echoc D k c st = Some st' \<Longrightarrow> same_vfs st st'"
  by (auto simp: echoc_def Let_def split: if_splits dest: port_write_same)

lemma echos_same: "echos D k s st = Some st' \<Longrightarrow> same_vfs st st'"
  by (auto simp: echos_def split: if_splits dest: port_write_same)

lemma upd_first: "same_vfs (upd_tty k g st) st' = same_vfs st st'"
  by (simp add: same_vfs_def upd_tty_def)

lemma add_same: "add_to_inbuf D k c st = Some (st', r) \<Longrightarrow> same_vfs st st'"
  by (auto simp: add_to_inbuf_def Let_def upd_first split: if_splits dest!: echoc_same)

lemma backspace_same: "backspace D k st = Some st' \<Longrightarrow> same_vfs st st'"
  by (auto simp: backspace_def upd_first split: if_splits dest!: echos_same)

lemma clearline_loop_same: "clearline_loop D k n st = Some st' \<Longrightarrow> same_vfs st st'"
proof (induction n arbitrary: st)
  case (Suc n)
  then obtain st1 where "backspace D k st = Some st1" "clearline_loop D k n st1 = Some st'" by (auto split: bind_splits)
  then show ?case using backspace_same Suc.IH same_vfs_trans by blast
qed simp

lemma onrecv_same: "run_onrecv D k r st = Some st' \<Longrightarrow> same_vfs st st'"
  by (cases r) (auto simp: on_eof_def clearline_def dest: backspace_same clearline_loop_same)

lemma inchar_same: "tty_inchar D k c st = Some (st', r) \<Longrightarrow> same_vfs st st'"
proof (cases "\<not> ISCOOKED (ttys st ! k) \<or> ibuf_eol (ttys st ! k) \<or> find (\<lambda>sp. c = sp_ch sp) SPECIALCHARS = None")
  case True
  assume "tty_inchar D k c st = Some (st', r)"
  then show ?thesis using True by (auto simp: tty_inchar_def split: if_splits option.splits dest: add_same)
next
  case False
  assume a: "tty_inchar D k c st = Some (st', r)"
  from False obtain sp where sp: "find (\<lambda>sp. c = sp_ch sp) SPECIALCHARS = Some sp" by auto
  define st0 where "st0 = (if sp_endline sp then upd_tty k (\<lambda>t. t\<lparr>ibuf_eol := True\<rparr>) st else st)"
  have s0: "same_vfs st st0" by (simp add: st0_def)
  obtain st1 where e: "(case special_echo sp of Some s \<Rightarrow> echos D k s st0 | None \<Rightarrow> Some st0) = Some st1"
    and r1: "Option.bind (case sp_onrecv sp of Some r \<Rightarrow> run_onrecv D k r st1 | None \<Rightarrow> Some st1) (\<lambda>st.
        if sp_isinput sp then add_to_inbuf D k c st else Some (st, 0)) = Some (st', r)"
    using a False sp by (auto simp: tty_inchar_def Let_def st0_def [symmetric] split: bind_splits)
  obtain st2 where o: "(case sp_onrecv sp of Some r \<Rightarrow> run_onrecv D k r st1 | None \<Rightarrow> Some st1) = Some st2"
    and r2: "(if sp_isinput sp then add_to_inbuf D k c st2 else Some (st2, 0)) = Some (st', r)"
    using r1 by (auto split: bind_splits)
  have "same_vfs st0 st1" using e by (auto split: option.splits dest: echos_same)
  moreover have "same_vfs st1 st2" using o by (auto split: option.splits dest: onrecv_same)
  moreover have "same_vfs st2 st'" using r2 by (auto split: if_splits dest: add_same)
  ultimately show ?thesis using s0 same_vfs_trans by blast
qed

lemma fill_same:
  assumes "tty_fill D' k pr st = Some r"
  shows "D' = D \<longrightarrow> same_vfs st (snd (snd r))"
proof (rule tty_fill.raw_induct [OF _ assms, where P = "\<lambda>D' k pr st r. D' = D \<longrightarrow> same_vfs st (snd (snd r))"], rule impI)
  fix rec D' k pr st r
  assume IH: "\<And>D' k pr st y. rec D' k pr st = Some y \<Longrightarrow> D' = D \<longrightarrow> same_vfs st (snd (snd y))" and D: "D' = D"
    and body: "(if ilen (ttys st ! k) < IBUFSZ \<and> \<not> ibuf_eol (ttys st ! k)
     then Option.bind (file_read D' (portdev (ttys st ! k)) 1 st) (\<lambda>(dst, p, st, portres).
            let st = upd_tty k (\<lambda>t. t\<lparr>portdev := p\<rparr>) st
            in if portres \<le> 0 then Some (portres, None, st)
               else Option.bind (tty_inchar D' k (hd dst) st) (\<lambda>(st, res).
                      if res < 0 then Some (portres, Some res, st) else rec D' k portres st))
     else Some (pr, None, st)) = Some r"
  show "same_vfs st (snd (snd r))"
  proof (cases "ilen (ttys st ! k) < IBUFSZ \<and> \<not> ibuf_eol (ttys st ! k)")
    case True
    obtain dst p st1 res where rd: "file_read D (portdev (ttys st ! k)) 1 st = Some (dst, p, st1, res)"
      using body True D by (auto split: bind_splits)
    let ?st2 = "upd_tty k (\<lambda>t. t\<lparr>portdev := p\<rparr>) st1"
    have s2: "same_vfs st ?st2" using file_read_same [OF rd] by simp
    show ?thesis
    proof (cases "res \<le> 0")
      case True
      then show ?thesis using body rd D \<open>ilen (ttys st ! k) < IBUFSZ \<and> \<not> ibuf_eol (ttys st ! k)\<close> s2 by (auto simp: Let_def)
    next
      case False
      obtain st3 r3 where i: "tty_inchar D k (hd dst) ?st2 = Some (st3, r3)"
        "snd (snd r) = st3 \<or> rec D k res st3 = Some r"
        using body rd D True False by (auto simp: Let_def split: bind_splits if_splits)
      have s3: "same_vfs st st3" by (rule same_vfs_trans [OF s2 inchar_same [OF i(1)]])
      from i(2) show ?thesis
      proof
        assume "rec D k res st3 = Some r"
        from IH [OF this] have "same_vfs st3 (snd (snd r))" by simp
        then show ?thesis by (rule same_vfs_trans [OF s3])
      qed (use s3 in simp)
    qed
  qed (use body in auto)
qed

lemma tty_read_same: "tty_read D f n off st = Some (s, off', st', r) \<Longrightarrow> same_vfs st st'"
proof -
  assume a: "tty_read D f n off st = Some (s, off', st', r)"
  then obtain pr e st1 where f: "tty_fill D (the (f_driver_data f)) (err EAGAIN) st = Some (pr, e, st1)"
    by (auto simp: tty_read_def Let_def)
  have "st' = st1 \<or> (\<exists>k g. st' = upd_tty k g st1)"
    using a f by (auto simp: tty_read_def Let_def split: option.splits if_splits)
  then show ?thesis using fill_same [OF f] by auto
qed

lemma tty_open_same: "tty_open_dev D f mi st = (f', st', r) \<Longrightarrow> same_vfs st st'"
  by (auto simp: tty_open_dev_def Let_def split: if_splits prod.splits dest!: file_open_dev_same)

lemma tty_write_same: "tty_write D f s off st = Some (off', st', r) \<Longrightarrow> same_vfs st st'"
  by (auto simp: tty_write_def Let_def dest!: file_write_same)

lemma with_tty_devices: "vfs_devices (with_tty D)"
  unfolding with_tty_def
  by (rule vfs_devices_upd [OF vfs_devices_axioms])
    (auto simp: tty_ops_def dest: tty_open_same tty_read_same tty_write_same)

end

section \<open>The kernel's drivers\<close>

definition munix_devices :: "'h bus \<Rightarrow> ('h, 'a) ttystate_scheme drivers" where
  "munix_devices B = with_ramdisk (with_tty (with_serial B no_drivers))"

definition munix_drivers :: "'h bus \<Rightarrow> ('h, 'a) ttystate_scheme drivers" where
  "munix_drivers B = with_cpiofs (munix_devices B)"

lemma munix_devices_ok: "vfs_devices (munix_devices B)"
proof -
  have "tty_devices (with_serial B no_drivers)" by (simp add: tty_devices_def serial_devices no_devices)
  then show ?thesis unfolding munix_devices_def by (intro ramdisk_devices tty_devices.with_tty_devices)
qed

interpretation ttydev: tty_devices "with_serial B no_drivers" for B
  by (simp add: tty_devices_def serial_devices no_devices)

interpretation dev: cpio_devices "munix_devices B" for B
  by (simp add: cpio_devices_def munix_devices_ok)

section \<open>Mounting the initial RAM disk\<close>

text \<open>What the boot loader tells the kernel, \<open>struct boot_info\<close>.\<close>

record boot_info =
  kernel_location :: u32
  initrd_addr :: nat
  initrd_size :: nat
  text_fb_addr :: u32
  text_fb_width :: u32
  text_fb_height :: u32

definition mount_initrd ::
    "('h, 'a) ttystate_scheme drivers \<Rightarrow> boot_info \<Rightarrow> ('h, 'a) ttystate_scheme \<Rightarrow> (('h, 'a) ttystate_scheme \<times> int) option" where
  "mount_initrd D b st =
    (if initrd_addr b = 0 then Some (st, err ENODEV)
     else let (st, res) = ramdisk_create (initrd_addr b) (initrd_size b) ''initrd'' st
          in if res < 0 then Some (st, res)
             else map_option (\<lambda>(st, res). (st, if res < 0 then res else 0))
                    (fs_mountdev D (MAKEDEV (of_nat MAJ_RAMDISK) (of_int res)) FS_CPIO ''/'' st))"

lemma disk_upd_sb [simp]:
  "disk_file f (upd_sb sb g st) c = disk_file f st c" "disk_ok (upd_sb sb g st) i = disk_ok st i"
  "disk_content (upd_sb sb g st) i = disk_content st i"
  "disk_ok (st\<lparr>vfs_mount_list := h\<rparr>) i = disk_ok st i" "disk_content (st\<lparr>vfs_mount_list := h\<rparr>) i = disk_content st i"
  by (simp_all add: disk_file_def disk_ok_def disk_content_def upd_sb_def)

lemma upd_sb_upd_sb [simp]: "upd_sb i g (upd_sb i f st) = upd_sb i (\<lambda>s. g (f s)) st"
proof -
  have "(superblocks st)[i := g ((superblocks st)[i := f (superblocks st ! i)] ! i)] = (superblocks st)[i := g (f (superblocks st ! i))]"
    by (cases "i < length (superblocks st)") (simp_all add: list_update_beyond)
  then show ?thesis by (simp add: upd_sb_def)
qed

lemma cpio_sb_open_disk:
  assumes "disk_ok st i" "s_bdev (superblocks st ! sb) = MAKEDEV 4 (of_nat i)"
    and "disk_content st i = encode_all xs @ encode e @ rest" "ce_name e = ''.''" "ce_ok e"
    and "\<And>x. x \<in> set xs \<Longrightarrow> ce_ok x \<and> ce_name x \<noteq> ''.'' \<and> \<not> is_trailer x"
  shows "\<exists>nm. cpio_sb_open (with_ramdisk D) sb st =
    Some (upd_sb sb (\<lambda>s. s\<lparr>s_name := nm, s_root_ino := int (length xs)\<rparr>) st, int (length xs))"
proof -
  obtain f where f: "file_open_dev (with_ramdisk D) (MAKEDEV 4 (of_nat i)) st = (f, st, 0)" "disk_file f st (disk_content st i)" "f_pos f = 0"
    using ramdisk_open [OF assms(1)] by blast
  let ?g = "\<lambda>s. s\<lparr>s_name := take (DEBUGSTR_MAX - 1) (file_debugstr (with_ramdisk D) 0 (Some f) st)\<rparr>"
  let ?st1 = "upd_sb sb ?g st"
  have d1: "disk_file f ?st1 (disk_content st i)" using f(2) by simp
  have lc: "length (disk_content st i) < 2 ^ 31" using assms(1) by (simp add: disk_ok_def disk_content_def)
  obtain f2 h where p: "cpio_find_path (with_ramdisk D) f ''.'' ?st1 = Some (f2, h, ?st1, int (length xs))" "f2 = f\<lparr>f_pos := f_pos f2\<rparr>"
    using rd.find_path_hit [OF d1 f(3) lc assms(3) _ assms(5), of D] assms(4,6) by auto
  have "disk_file f2 st (disk_content st i)" using rd.has_pos [OF f(2), of "f_pos f2"] p(2) by simp
  then have c: "file_close (with_ramdisk D) f2 s = (s, 0)" for s by (rule ramdisk_close)
  show ?thesis using f(1) p(1) assms(2) c by (auto simp: cpio_sb_open_def Let_def)
qed

text \<open>Mounting an archive with a root entry on a free superblock.\<close>

lemma mount_archive:
  assumes "mounts_ok st sbs" "sb_alloc st = Some sb" "fs_drivers st ! FS_CPIO = Some CpioFsDrv" "disk_ok st i"
    and "disk_content st i = encode_all xs @ encode e @ rest" "ce_name e = ''.''" "ce_ok e"
    and "\<And>x. x \<in> set xs \<Longrightarrow> ce_ok x \<and> ce_name x \<noteq> ''.'' \<and> \<not> is_trailer x"
  shows "\<exists>g h. fs_mountdev (with_cpiofs (with_ramdisk D)) (MAKEDEV 4 (of_nat i)) FS_CPIO mp st =
      Some ((upd_sb sb g st)\<lparr>vfs_mount_list := h\<rparr>, 0) \<and>
    (\<forall>s. s_op (g s) = Some CpioFsDrv \<and> s_bdev (g s) = MAKEDEV 4 (of_nat i) \<and> s_mountpath (g s) = take (PATH_MAX - 1) mp) \<and>
    clist h MountHead (map MountSb (sbs @ [sb])) \<and> sb \<notin> set sbs \<and> sb < SB_MAX"
proof -
  let ?g0 = "\<lambda>s :: superblock. superblock0\<lparr>s_bdev := MAKEDEV 4 (of_nat i), s_op := Some CpioFsDrv\<rparr>"
  let ?h0 = "INIT_LIST_HEAD (vfs_mount_list st) (MountSb sb)"
  let ?st1 = "(upd_sb sb ?g0 st)\<lparr>vfs_mount_list := ?h0\<rparr>"
  have len: "length (superblocks st) = SB_MAX" using assms(1) by (simp add: mounts_ok_def)
  have sbn: "sb < SB_MAX" "s_op (superblocks st ! sb) = None"
    using sb_alloc_from_Some [of SB_MAX 0 "superblocks st" sb] assms(2) by (auto simp: sb_alloc_def)
  have fresh: "sb \<notin> set sbs" using assms(1) sbn(2) by (auto simp: mounts_ok_def)
  have b1: "s_bdev (superblocks ?st1 ! sb) = MAKEDEV 4 (of_nat i)" using len sbn(1) by (simp add: upd_sb_def)
  obtain nm where o: "cpio_sb_open (with_ramdisk D) sb ?st1 =
      Some (upd_sb sb (\<lambda>s. s\<lparr>s_name := nm, s_root_ino := int (length xs)\<rparr>) ?st1, int (length xs))"
    using cpio_sb_open_disk [of ?st1 i sb xs e rest D] assms(4-8) b1 by auto
  let ?g = "\<lambda>s. (?g0 s)\<lparr>s_name := nm, s_root_ino := int (length xs), s_mountpath := take (PATH_MAX - 1) mp\<rparr>"
  have u: "upd_sb sb (\<lambda>s. s\<lparr>s_mountpath := take (PATH_MAX - 1) mp\<rparr>) (upd_sb sb (\<lambda>s. s\<lparr>s_name := nm, s_root_ino := int (length xs)\<rparr>) ?st1) =
      (upd_sb sb ?g st)\<lparr>vfs_mount_list := ?h0\<rparr>"
    using len sbn(1) by (simp add: upd_sb_def)
  have c0: "clist ?h0 MountHead (map MountSb sbs)"
    using assms(1) fresh by (intro clist_INIT_other) (auto simp: mounts_ok_def)
  have "\<exists>h. list_add_tail ?h0 (MountSb sb) MountHead = Some h \<and> clist h MountHead (map MountSb sbs @ [MountSb sb])"
    by (rule list_add_tail_clist) (use c0 fresh in \<open>auto simp: clist0_def\<close>)
  then obtain h where h: "list_add_tail ?h0 (MountSb sb) MountHead = Some h" "clist h MountHead (map MountSb sbs @ [MountSb sb])" by blast
  have a: "vfs_mount_list_add sb ((upd_sb sb ?g st)\<lparr>vfs_mount_list := ?h0\<rparr>) = Some ((upd_sb sb ?g st)\<lparr>vfs_mount_list := h\<rparr>)"
    using list_for_each_clist [OF c0] h(1) by (simp add: vfs_mount_list_add_def list_for_each_entry_def list_for_each_def list_first_entry_def)
  have s: "sb_open (with_cpiofs (with_ramdisk D)) sb (MAKEDEV 4 (of_nat i)) FS_CPIO st =
      Some (upd_sb sb (\<lambda>s. s\<lparr>s_name := nm, s_root_ino := int (length xs)\<rparr>) ?st1, 0)"
    using o assms(3) by (simp add: sb_open_def FSTYPES_MAX_def FS_CPIO_def with_cpiofs_def cpio_fs_ops_def Let_def upd_sb_def)
  have "fs_mountdev (with_cpiofs (with_ramdisk D)) (MAKEDEV 4 (of_nat i)) FS_CPIO mp st = Some ((upd_sb sb ?g st)\<lparr>vfs_mount_list := h\<rparr>, 0)"
    unfolding fs_mountdev_def assms(2) option.case s split Let_def u a by simp
  then show ?thesis using h(2) fresh sbn(1) by (intro exI [of _ ?g] exI [of _ h]) simp
qed

text \<open>The state in which the kernel mounts the initial RAM disk: nothing mounted, no disk, no open file.\<close>

definition fresh_fs :: "('h, 'a) ttystate_scheme \<Rightarrow> bool" where
  "fresh_fs st \<longleftrightarrow> superblocks st = replicate SB_MAX superblock0 \<and> ramdisks st = replicate RAMDISKS_MAX ramdisk0 \<and>
    cfdatas st = replicate MAX_CPIO_OPEN cfdata0 \<and> clist (vfs_mount_list st) MountHead [] \<and>
    chrdev_drivers st ! MAJ_RAMDISK = Some RamdiskDrv \<and> fs_drivers st ! FS_CPIO = Some CpioFsDrv"

lemma fresh_mounts: "fresh_fs st \<Longrightarrow> mounts_ok st []" "fresh_fs st \<Longrightarrow> sb_alloc st = Some 0"
  by (simp_all add: fresh_fs_def mounts_ok_def sb_alloc_def SB_MAX_def superblock0_def numeral_eq_Suc)

text \<open>The archive with the entries \<open>es\<close>, on the first RAM disk, is mounted at the root, and nothing else is.\<close>

definition initrd_mounted :: "('h, 'a) ttystate_scheme \<Rightarrow> centry list \<Rightarrow> bool" where
  "initrd_mounted st es \<longleftrightarrow> mounts_ok st [0] \<and> disk_ok st 0 \<and> (\<exists>rest. disk_content st 0 = archive es @ rest) \<and>
    s_op (superblocks st ! 0) = Some CpioFsDrv \<and> s_bdev (superblocks st ! 0) = MAKEDEV 4 0 \<and> s_mountpath (superblocks st ! 0) = ''/''"

definition good_entries :: "centry list \<Rightarrow> bool" where
  "good_entries es \<longleftrightarrow> (\<forall>x\<in>set es. ce_ok x \<and> \<not> is_trailer x)"

lemma mount_initrd_fresh:
  assumes "fresh_fs st" "initrd_addr b \<noteq> 0" "0 < initrd_size b" "initrd_size b < 2 ^ 31"
    and "mem_read (kmem st) (initrd_addr b) (initrd_size b) = archive es @ rest"
    and "good_entries es" "''.'' \<in> ce_name ` set es"
  shows "\<exists>st'. mount_initrd (munix_drivers B) b st = Some (st', 0) \<and> initrd_mounted st' es \<and>
    st' = st\<lparr>superblocks := superblocks st', vfs_mount_list := vfs_mount_list st',
      ramdisks := (ramdisks st)[0 := \<lparr>rd_addr = initrd_addr b, rd_size = initrd_size b, rd_name = ''initrd''\<rparr>]\<rparr>"
proof -
  let ?st1 = "st\<lparr>ramdisks := (ramdisks st)[0 := \<lparr>rd_addr = initrd_addr b, rd_size = initrd_size b, rd_name = ''initrd''\<rparr>]\<rparr>"
  have c: "ramdisk_create (initrd_addr b) (initrd_size b) ''initrd'' st = (?st1, 0)"
    using assms(1-3) by (simp add: ramdisk_create_def ramdisk_create_inner_def fresh_fs_def RAMDISKS_MAX_def ramdisk0_def numeral_eq_Suc)
  have d: "disk_ok ?st1 0" "disk_content ?st1 0 = archive es @ rest"
    using assms(1,2,4,5) by (simp_all add: disk_ok_def disk_content_def fresh_fs_def RAMDISKS_MAX_def)
  have "\<exists>x\<in>set es. ce_name x = ''.''" using assms(7) by auto
  then obtain xs e ys where es: "es = xs @ e # ys" "ce_name e = ''.''" "\<forall>x\<in>set xs. ce_name x \<noteq> ''.''"
    using split_list_first_prop [of es "\<lambda>x. ce_name x = ''.''"] by blast
  have dc: "disk_content ?st1 0 = encode_all xs @ encode e @ encode_all (ys @ [trailer]) @ rest" using d(2) es(1) by (simp add: archive_def)
  have m1: "mounts_ok ?st1 []" "sb_alloc ?st1 = Some 0" "fs_drivers ?st1 ! FS_CPIO = Some CpioFsDrv"
    using fresh_mounts [OF assms(1)] assms(1) by (simp_all add: mounts_ok_def sb_alloc_def fresh_fs_def)
  have ok: "ce_ok e" "\<And>x. x \<in> set xs \<Longrightarrow> ce_ok x \<and> ce_name x \<noteq> ''.'' \<and> \<not> is_trailer x" using assms(6) es by (auto simp: good_entries_def)
  obtain g h where m: "fs_mountdev (munix_drivers B) (MAKEDEV 4 (of_nat 0)) FS_CPIO ''/'' ?st1 = Some ((upd_sb 0 g ?st1)\<lparr>vfs_mount_list := h\<rparr>, 0)"
    "\<forall>s. s_op (g s) = Some CpioFsDrv \<and> s_bdev (g s) = MAKEDEV 4 (of_nat 0) \<and> s_mountpath (g s) = take (PATH_MAX - 1) ''/''"
    "clist h MountHead (map MountSb ([] @ [0]))"
    using mount_archive [OF m1 d(1) dc es(2) ok, of "with_tty (with_serial B no_drivers)" "''/''"]
    unfolding munix_drivers_def munix_devices_def by blast
  let ?st' = "(upd_sb 0 g ?st1)\<lparr>vfs_mount_list := h\<rparr>"
  have sb: "superblocks ?st' = (superblocks st)[0 := g (superblocks st ! 0)]" "length (superblocks st) = SB_MAX"
    using assms(1) by (simp_all add: upd_sb_def fresh_fs_def)
  have "mounts_ok ?st' [0]" using m(2,3) sb by (simp add: mounts_ok_def SB_MAX_def)
  moreover have "mount_initrd (munix_drivers B) b st = Some (?st', 0)"
    using c m(1) assms(2) by (simp add: mount_initrd_def MAJ_RAMDISK_def)
  moreover have "disk_ok ?st' 0" "disk_content ?st' 0 = archive es @ rest" using d by simp_all
  moreover have "s_op (superblocks ?st' ! 0) = Some CpioFsDrv" "s_bdev (superblocks ?st' ! 0) = MAKEDEV 4 0"
    "s_mountpath (superblocks ?st' ! 0) = ''/''"
    using m(2) sb by (simp_all add: SB_MAX_def PATH_MAX_def upd_sb_def)
  moreover have "?st' = st\<lparr>superblocks := superblocks ?st', vfs_mount_list := vfs_mount_list ?st',
      ramdisks := (ramdisks st)[0 := \<lparr>rd_addr = initrd_addr b, rd_size = initrd_size b, rd_name = ''initrd''\<rparr>]\<rparr>"
    by (simp add: upd_sb_def)
  ultimately show ?thesis unfolding initrd_mounted_def by blast
qed

text \<open>A name that a path from the root can lead to.\<close>

definition plain_name :: "string \<Rightarrow> bool" where
  "plain_name s \<longleftrightarrow> s \<noteq> '''' \<and> hd s \<noteq> CHR ''/'' \<and> length s < PATH_MAX - 1"

lemma initrd_open:
  assumes "initrd_mounted st es" "good_entries es" "cfdata_alloc st = Some k" "length (cfdatas st) = MAX_CPIO_OPEN"
    and "es = xs @ e # ys" "ce_name e \<notin> ce_name ` set xs" "plain_name (ce_name e)" "join_text cwd (Some path) = CHR ''/'' # ce_name e"
  shows "\<exists>f st'. file_open_path (munix_drivers B) f0 cwd (Some path) st = Some (f, st', 0) \<and>
    cpio_file f st' (ce_data e) \<and> f_pos f = 0 \<and> f_driver_data f = Some k \<and> Some (f_type (f_stat f)) = cpio_mode_to_dirtype (of_nat (ce_mode e)) \<and>
    (\<exists>c. st' = st\<lparr>cfdatas := (cfdatas st)[k := c]\<rparr>)"
proof -
  let ?p = "CHR ''/'' # ce_name e"
  have m: "mounts_ok st [0]" "s_op (superblocks st ! 0) = Some CpioFsDrv" "s_bdev (superblocks st ! 0) = MAKEDEV 4 (of_nat 0)" "disk_ok st 0"
    "s_mountpath (superblocks st ! 0) = ''/''" using assms(1) by (simp_all add: initrd_mounted_def)
  have nm: "ce_name e \<noteq> ''''" "hd (ce_name e) \<noteq> CHR ''/''" "length (ce_name e) < PATH_MAX - 1" using assms(7) by (simp_all add: plain_name_def)
  obtain rest where dc: "disk_content st 0 = archive (xs @ e # ys) @ rest" using assms(1,5) by (auto simp: initrd_mounted_def)
  have sv: "find (serves st ?p) (rev [0]) = Some 0" using m(5) by (simp add: serves_def)
  have sp: "strip_prefix_text ?p (s_mountpath (superblocks st ! 0)) = ce_name e"
    using strip_join(2) [of "ce_name e" "''/''"] nm m(5) by simp
  have ok: "ce_ok e" "\<And>x. x \<in> set xs \<Longrightarrow> ce_ok x \<and> ce_name x \<noteq> ce_name e \<and> \<not> is_trailer x"
    using assms(2,5,6) by (auto simp: image_iff good_entries_def)
  have "take (PATH_MAX - 1) (join_text cwd (Some path)) = ?p" using nm(3) assms(8) by simp
  then have "file_open_path (munix_drivers B) f0 cwd (Some path) st = file_open_path_abs (munix_drivers B) f0 ?p st"
    by (simp only: file_open_path_def)
  then show ?thesis
    using open_entry [OF m(1) sv m(2,3,4) dc ok(2,1) sp nm(1) assms(3,4), of "with_tty (with_serial B no_drivers)" f0]
    unfolding munix_drivers_def munix_devices_def by auto
qed

text \<open>Looking up a file closes it again; the table of open files stays usable.\<close>

lemma initrd_stat:
  assumes "initrd_mounted st es" "good_entries es" "cfdata_alloc st = Some k" "length (cfdatas st) = MAX_CPIO_OPEN"
    and "es = xs @ e # ys" "ce_name e \<notin> ce_name ` set xs" "plain_name (ce_name e)" "join_text cwd (Some path) = CHR ''/'' # ce_name e"
  shows "\<exists>fs c. file_stat (munix_drivers B) cwd (Some path) st = Some (Some fs, st\<lparr>cfdatas := (cfdatas st)[k := c]\<rparr>, 0) \<and>
    Some (f_type fs) = cpio_mode_to_dirtype (of_nat (ce_mode e)) \<and> f_op (af c) = None"
proof -
  obtain f c where o: "file_open_path (munix_drivers B) file0 cwd (Some path) st = Some (f, st\<lparr>cfdatas := (cfdatas st)[k := c]\<rparr>, 0)"
    "f_op f = Some CpioFileDrv" "f_driver_data f = Some k" "Some (f_type (f_stat f)) = cpio_mode_to_dirtype (of_nat (ce_mode e))"
    using initrd_open [OF assms, of B file0] by (auto simp: cpio_file_def)
  have "k < length (cfdatas st)" using cfdata_find_Some [of MAX_CPIO_OPEN 0] assms(3,4) by (auto simp: cfdata_alloc_def)
  then have "file_close (munix_drivers B) f (st\<lparr>cfdatas := (cfdatas st)[k := c]\<rparr>) = (st\<lparr>cfdatas := (cfdatas st)[k := c\<lparr>af := (af c)\<lparr>f_op := None\<rparr>\<rparr>]\<rparr>, 0)"
    using o(2,3) by (simp add: file_close_def has_op_def munix_drivers_def with_cpiofs_def cpio_file_ops_def cpio_file_release_def cfdata_free_def upd_cf_def)
  then show ?thesis using o by (intro exI [of _ "f_stat f"] exI [of _ "c\<lparr>af := (af c)\<lparr>f_op := None\<rparr>\<rparr>"]) (simp add: file_stat_def)
qed

lemma initrd_stat_missing:
  assumes "initrd_mounted st es" "good_entries es" "cfdata_alloc st = Some k" "length (cfdatas st) = MAX_CPIO_OPEN"
    and "rel \<notin> ce_name ` set es" "plain_name rel" "NUL \<notin> set rel" "rel \<noteq> ''TRAILER!!!''" "join_text cwd (Some path) = CHR ''/'' # rel"
  shows "\<exists>c. file_stat (munix_drivers B) cwd (Some path) st = Some (None, st\<lparr>cfdatas := (cfdatas st)[k := c]\<rparr>, err ENOENT) \<and> f_op (af c) = None"
proof -
  let ?p = "CHR ''/'' # rel"
  have m: "mounts_ok st [0]" "s_op (superblocks st ! 0) = Some CpioFsDrv" "s_bdev (superblocks st ! 0) = MAKEDEV 4 (of_nat 0)" "disk_ok st 0"
    "s_mountpath (superblocks st ! 0) = ''/''" using assms(1) by (simp_all add: initrd_mounted_def)
  have nm: "rel \<noteq> ''''" "hd rel \<noteq> CHR ''/''" "length rel < PATH_MAX - 1" using assms(6) by (simp_all add: plain_name_def)
  obtain rest where dc: "disk_content st 0 = archive es @ rest" using assms(1) by (auto simp: initrd_mounted_def)
  have sv: "find (serves st ?p) (rev [0]) = Some 0" using m(5) by (simp add: serves_def)
  have sp: "strip_prefix_text ?p (s_mountpath (superblocks st ! 0)) = rel" using strip_join(2) [of rel "''/''"] nm m(5) by simp
  have ok: "\<And>x. x \<in> set es \<Longrightarrow> ce_ok x \<and> ce_name x \<noteq> rel \<and> \<not> is_trailer x" using assms(2,5) by (auto simp: good_entries_def)
  have t: "take (PATH_MAX - 1) (join_text cwd (Some path)) = ?p" using nm(3) assms(9) by simp
  obtain f c where "file_open_path_abs (munix_drivers B) file0 ?p st = Some (f, st\<lparr>cfdatas := (cfdatas st)[k := c]\<rparr>, err ENOENT)" "f_op (af c) = None"
    using open_missing [OF m(1) sv m(2,3,4) dc ok sp nm(1) assms(7,8,3,4), of "with_tty (with_serial B no_drivers)" file0]
    unfolding munix_drivers_def munix_devices_def by blast
  then show ?thesis unfolding file_stat_def file_open_path_def t by (intro exI [of _ c]) simp
qed

text \<open>
  Property C6. After the kernel has mounted the initial RAM disk, every file of the archive can be read by its
  absolute path: from a fresh state with an archive in the memory that the boot loader reports, mounting
  succeeds, and then opening a slash and the name of an entry succeeds and reading returns its data.
\<close>

theorem initrd_files_readable:
  assumes "fresh_fs st" "initrd_addr b \<noteq> 0" "0 < initrd_size b" "initrd_size b < 2 ^ 31"
    and "mem_read (kmem st) (initrd_addr b) (initrd_size b) = archive es @ rest"
    and "good_entries es" "''.'' \<in> ce_name ` set es"
  shows "\<exists>st1. mount_initrd (munix_drivers B) b st = Some (st1, 0) \<and>
    (\<forall>xs e ys n. es = xs @ e # ys \<and> ce_name e \<notin> ce_name ` set xs \<and> plain_name (ce_name e) \<and> n < 2 ^ 31 \<longrightarrow>
      (\<exists>f st2 f2. file_open_path (munix_drivers B) file0 None (Some (CHR ''/'' # ce_name e)) st1 = Some (f, st2, 0) \<and>
        file_read (munix_drivers B) f n st2 = Some (take n (ce_data e), f2, st2, int (length (take n (ce_data e))))))"
proof -
  obtain st1 where m: "mount_initrd (munix_drivers B) b st = Some (st1, 0)" "initrd_mounted st1 es"
    "cfdatas st1 = cfdatas st"
  proof -
    have c: "cfdatas (st\<lparr>superblocks := x, vfs_mount_list := y, ramdisks := z\<rparr>) = cfdatas st" for x y z by simp
    from mount_initrd_fresh [OF assms, of B] show thesis by (metis that c)
  qed
  have al: "cfdata_alloc st1 = Some 0" "length (cfdatas st1) = MAX_CPIO_OPEN"
    using assms(1) m(3) by (simp_all add: fresh_fs_def cfdata_alloc_def cfdata0_def file0_def MAX_CPIO_OPEN_def numeral_eq_Suc)
  have "\<exists>f st2 f2. file_open_path (munix_drivers B) file0 None (Some (CHR ''/'' # ce_name e)) st1 = Some (f, st2, 0) \<and>
        file_read (munix_drivers B) f n st2 = Some (take n (ce_data e), f2, st2, int (length (take n (ce_data e))))"
    if e: "es = xs @ e # ys" "ce_name e \<notin> ce_name ` set xs" "plain_name (ce_name e)" "n < 2 ^ 31" for xs e ys n
  proof -
    have j: "join_text None (Some (CHR ''/'' # ce_name e)) = CHR ''/'' # ce_name e" by (simp add: ch0_def)
    obtain f st2 where f: "file_open_path (munix_drivers B) file0 None (Some (CHR ''/'' # ce_name e)) st1 = Some (f, st2, 0)"
      "cpio_file f st2 (ce_data e)" "f_pos f = 0"
      using initrd_open [OF m(2) assms(6) al e(1-3) j, of B file0] by blast
    have "f\<lparr>f_pos := int 0\<rparr> = f" using f(3) by simp
    then show ?thesis
      using f(1) file_read_cpio [OF f(2), of 0 n "with_tty (with_serial B no_drivers)"] e(4)
      unfolding munix_drivers_def munix_devices_def by auto
  qed
  then show ?thesis using m(1) by blast
qed

text \<open>A terminal that was never opened.\<close>

definition tty0 :: tty where
  "tty0 = \<lparr>portdev = file0, t_flags = 0, initialized = False, ibuf_eol = False, ibuf_eof = False, ilen = 0, ibuf = replicate IBUFSZ NUL\<rparr>"

definition boot_st :: "uart8250 ttystate" where
  "boot_st = \<lparr>chrdev_drivers = (replicate MAJORS_MAX None)[MAJ_RAMDISK := Some RamdiskDrv],
    fs_drivers = (replicate FSTYPES_MAX None)[FS_CPIO := Some CpioFsDrv],
    superblocks = replicate SB_MAX superblock0,
    vfs_mount_list = INIT_LIST_HEAD \<lparr>lh_next = (\<lambda>x. None), lh_prev = (\<lambda>x. None)\<rparr> MountHead,
    ramdisks = replicate RAMDISKS_MAX ramdisk0, kmem = mem_write (\<lambda>a. NUL) 100 (archive [root_entry, hello_entry]),
    cfdatas = replicate MAX_CPIO_OPEN cfdata0, serials = replicate 2 \<lparr>s_port = 0, s_flags = 0\<rparr>,
    hw = \<lparr>u_rx = [], u_tx = [], u_busy = 0, u_loop = False, u_lb = 0\<rparr>, ttys = replicate TTY_CT tty0\<rparr>"

definition boot_info0 :: boot_info where
  "boot_info0 = \<lparr>kernel_location = 0, initrd_addr = 100, initrd_size = length (archive [root_entry, hello_entry]),
    text_fb_addr = 0, text_fb_width = 0, text_fb_height = 0\<rparr>"

lemma boot_st_fresh: "fresh_fs boot_st"
  by (simp add: fresh_fs_def boot_st_def MAJ_RAMDISK_def MAJORS_MAX_def FS_CPIO_def FSTYPES_MAX_def clist_INIT)

lemma boot_initrd:
  "initrd_addr boot_info0 \<noteq> 0" "0 < initrd_size boot_info0" "initrd_size boot_info0 < 2 ^ 31"
  "mem_read (kmem boot_st) (initrd_addr boot_info0) (initrd_size boot_info0) = archive [root_entry, hello_entry] @ []"
  "good_entries [root_entry, hello_entry]" "''.'' \<in> ce_name ` set [root_entry, hello_entry]"
proof -
  show "initrd_size boot_info0 < 2 ^ 31" using archive_example_length by (simp add: boot_info0_def)
  show "0 < initrd_size boot_info0" by (simp add: boot_info0_def archive_def)
  show "mem_read (kmem boot_st) (initrd_addr boot_info0) (initrd_size boot_info0) = archive [root_entry, hello_entry] @ []"
    by (simp add: boot_info0_def boot_st_def mem_read_write_same)
  show "good_entries [root_entry, hello_entry]"
    using entries_ok by (simp add: good_entries_def is_trailer_def root_entry_def hello_entry_def)
qed (simp_all add: boot_info0_def root_entry_def)

theorem initrd_files_readable_witness:
  "\<exists>st1 f st2 f2. mount_initrd (munix_drivers uart_bus) boot_info0 boot_st = Some (st1, 0) \<and>
    file_open_path (munix_drivers uart_bus) file0 None (Some ''/bin/hello'') st1 = Some (f, st2, 0) \<and>
    file_read (munix_drivers uart_bus) f 10 st2 = Some (''Hi!'', f2, st2, 3)"
proof -
  obtain st1 where m: "mount_initrd (munix_drivers uart_bus) boot_info0 boot_st = Some (st1, 0)"
    "\<forall>xs e ys n. [root_entry, hello_entry] = xs @ e # ys \<and> ce_name e \<notin> ce_name ` set xs \<and> plain_name (ce_name e) \<and> n < 2 ^ 31 \<longrightarrow>
      (\<exists>f st2 f2. file_open_path (munix_drivers uart_bus) file0 None (Some (CHR ''/'' # ce_name e)) st1 = Some (f, st2, 0) \<and>
        file_read (munix_drivers uart_bus) f n st2 = Some (take n (ce_data e), f2, st2, int (length (take n (ce_data e)))))"
    using initrd_files_readable [OF boot_st_fresh boot_initrd, of uart_bus] by blast
  have "ce_name hello_entry \<notin> ce_name ` set [root_entry]" by (simp add: root_entry_def hello_entry_def)
  moreover have "[root_entry, hello_entry] = [root_entry] @ hello_entry # []" by simp
  moreover have "plain_name (ce_name hello_entry)" "(10 :: nat) < 2 ^ 31"
    by (simp_all add: hello_entry_def PATH_MAX_def plain_name_def)
  ultimately obtain f st2 f2 where
    "file_open_path (munix_drivers uart_bus) file0 None (Some (CHR ''/'' # ce_name hello_entry)) st1 = Some (f, st2, 0)"
    "file_read (munix_drivers uart_bus) f 10 st2 = Some (take 10 (ce_data hello_entry), f2, st2, int (length (take 10 (ce_data hello_entry))))"
    using m(2) by blast
  then show ?thesis using m(1) by (intro exI [of _ st1] exI [of _ f] exI [of _ st2] exI [of _ f2]) (simp add: hello_entry_def)
qed

text \<open>
  Property C27. A successful mount goes to the end of the mount table and changes no other superblock: afterwards
  every path that starts with the new mount path belongs to the new file system, whatever longer mount
  paths there are, and every other path belongs to the file system it belonged to before. (A comment in \<open>vfs_mount_list_add\<close> says
  that the list is kept sorted by mount path. The code looks for the place but then adds the superblock at the end of the list; this property is about the code.)
\<close>

theorem mount_serves_last:
  assumes "mounts_ok st sbs" "fs_drivers st ! FS_CPIO = Some CpioFsDrv"
    and "fs_mountdev (munix_drivers B) dev FS_CPIO mp st = Some (st', 0)"
  shows "\<exists>sb. mounts_ok st' (sbs @ [sb]) \<and>
    (\<forall>path. find_mount_for_path path st' =
      (if strstr_s path (take (PATH_MAX - 1) mp) = Some 0 then Some (Some sb) else find_mount_for_path path st))"
proof -
  have "FS_CPIO < FSTYPES_MAX" by (simp add: FS_CPIO_def FSTYPES_MAX_def)
  then obtain sb where sb: "sb \<notin> set sbs" "mounts_ok st' (sbs @ [sb])" "s_mountpath (superblocks st' ! sb) = take (PATH_MAX - 1) mp"
    "\<forall>i\<in>set sbs. superblocks st' ! i = superblocks st ! i"
    using dev.cpiofs.fs_mountdev_mounts [OF assms(1) _ assms(2), of B dev mp st'] assms(3) unfolding munix_drivers_def by blast
  have "find (serves st' path) (rev sbs) = find (serves st path) (rev sbs)" for path
    using sb(4) by (intro find_cong) (auto simp: serves_def)
  then have "find_mount_for_path path st' =
      (if strstr_s path (take (PATH_MAX - 1) mp) = Some 0 then Some (Some sb) else find_mount_for_path path st)" for path
    using find_mount_rev [OF sb(2), of path] find_mount_rev [OF assms(1), of path] sb(3) by (simp add: serves_def)
  then show ?thesis using sb(2) by blast
qed

theorem mount_serves_last_witness:
  "\<exists>(st1 :: uart8250 ttystate) st' sb. fs_mountdev (munix_drivers uart_bus) (MAKEDEV 4 0) FS_CPIO ''/mnt'' st1 = Some (st', 0) \<and>
    find_mount_for_path ''/mnt/x'' st' = Some (Some sb) \<and> mounts_ok st' ([] @ [sb])"
proof -
  let ?st1 = "boot_st\<lparr>ramdisks := [\<lparr>rd_addr = 100, rd_size = length (archive [root_entry, hello_entry]), rd_name = ''d''\<rparr>]\<rparr>"
  have m1: "mounts_ok ?st1 []" "sb_alloc ?st1 = Some 0" "fs_drivers ?st1 ! FS_CPIO = Some CpioFsDrv"
    using fresh_mounts [OF boot_st_fresh] boot_st_fresh by (simp_all add: mounts_ok_def sb_alloc_def fresh_fs_def)
  have d: "disk_ok ?st1 0" "disk_content ?st1 0 = encode_all [] @ encode root_entry @ encode hello_entry @ encode trailer"
    using archive_example_length
    by (simp_all add: disk_ok_def disk_content_def boot_st_def MAJ_RAMDISK_def MAJORS_MAX_def RAMDISKS_MAX_def mem_read_write_same archive_def)
  obtain st' where m: "fs_mountdev (munix_drivers uart_bus) (MAKEDEV 4 (of_nat 0)) FS_CPIO ''/mnt'' ?st1 = Some (st', 0)"
    using mount_archive [OF m1 d _ entries_ok(1), of "with_tty (with_serial uart_bus no_drivers)" "''/mnt''"]
    unfolding munix_drivers_def munix_devices_def by (auto simp: root_entry_def)
  obtain sb where "mounts_ok st' ([] @ [sb])" "find_mount_for_path ''/mnt/x'' st' =
      (if strstr_s ''/mnt/x'' (take (PATH_MAX - 1) ''/mnt'') = Some 0 then Some (Some sb) else find_mount_for_path ''/mnt/x'' ?st1)"
    using mount_serves_last [OF m1(1,3) m] by blast
  then show ?thesis using m by (intro exI [of _ ?st1] exI [of _ st'] exI [of _ sb]) (simp add: PATH_MAX_def)
qed

end
