(* ===== verification/Threads.thy ===== *)
theory Threads
  imports Pagemap Devices
begin

text \<open>
  Threads and the scheduler (the thread part of \<open>kernel/process.c\<close>, \<open>kernel/scheduler.c\<close> and the
  parts of \<open>x86_seg.c\<close> that start user code). \<open>kstate\<close> is the state of the whole kernel: it extends
  the state of the drivers by the page maps, the process and thread tables, the ready queue, the task
  state segment and the interrupt counters.

  Control that does not return to its caller is a value of type \<open>control\<close>: the kernel starts user
  code with an interrupt frame, restores a saved task, ends in \<open>kernel_noreturn\<close>, or does something
  undefined (it follows a NULL pointer or takes the head of an empty queue for a thread). What a saved
  task does when it is restored is given by the place where it was saved: the label \<open>cont\<close> names the
  function that called \<open>schedule\<close>. An operation is \<^const>\<open>None\<close> when it loops for ever.

  The abstraction \<open>sched_ring st r\<close> reads the scheduler's state as the list \<open>r\<close> of all live threads,
  the current one first and then the ready queue; every operation is shown to implement a simple
  operation on this list.
\<close>

section \<open>State\<close>

definition PROCESS_MAX :: nat where "PROCESS_MAX = 8"
definition THREAD_MAX :: nat where "THREAD_MAX = 16"
definition KSTACKSZ :: u32 where "KSTACKSZ = 4096"
definition FD_MAX :: nat where "FD_MAX = 4"

datatype runstate = RS_NEW | RS_READY | RS_EXITED

datatype cont = After_yield | After_preempt | After_join nat | After_exit | After_start

record x86_intr_frame =
  if_ip :: u32
  if_cs :: u32
  if_flags :: u32
  if_sp :: u32
  if_ss :: u32

datatype control = Return int | User_start x86_intr_frame | Task_restore cont | Dead_end | Undefined_behaviour

text \<open>A process is its index in \<open>pcb\<close> and a thread its index in \<open>tcb\<close>; a file is its index in \<open>kfiles\<close>.\<close>

record process =
  execfile :: vfile
  p_name :: string
  pid :: int
  p_start_addr :: u32
  ustack :: u32
  kstack :: u32
  addrspc :: u32
  fds :: "nat option list"
  threadct_active :: int

record thread =
  tid :: int
  t_process :: "nat option"
  thread_stack :: u32
  process_stack :: u32
  start_addr :: u32
  runstate :: runstate
  saved_state :: "cont option"
  exit_status :: int
  yield_ct :: int
  preempt_ct :: int

text \<open>The range of \<open>int\<close>. The two counters of a thread only count (nothing in the kernel reads them), and a
  process id is only compared with 0: their increments wrap at 32 bits, as the processor's instruction does.
  A thread id is compared by \<open>thread_join\<close>, so an increment of \<open>next_tid\<close> beyond \<open>INT_MAX\<close> is undefined.\<close>

definition int32 :: "int \<Rightarrow> int" where "int32 i = sint (of_int i :: u32)"

definition process0 :: process where
  "process0 = \<lparr>execfile = file0, p_name = '''', pid = 0, p_start_addr = 0, ustack = 0, kstack = 0, addrspc = 0,
    fds = replicate FD_MAX None, threadct_active = 0\<rparr>"

definition thread0 :: thread where
  "thread0 = \<lparr>tid = 0, t_process = None, thread_stack = 0, process_stack = 0, start_addr = 0, runstate = RS_NEW,
    saved_state = None, exit_status = 0, yield_ct = 0, preempt_ct = 0\<rparr>"

text \<open>The list nodes: the ready queue with the \<open>queue\<close> fields, and the \<open>threads\<close> and
  \<open>process_threads\<close> fields. The two kinds are never linked to each other.\<close>

datatype qnode = ReadyQ | TQueue nat
datatype pnode = PThreads nat | TProc nat

record 'h kstate = "'h ttystate" +
  kfiles :: "vfile list"
  pm :: pmstate
  kernel_addrspc :: u32
  cr3 :: u32
  tss_ss0 :: u16
  tss_esp0 :: u32
  pcb :: "process list"
  next_pid :: int
  current_process :: "nat option"
  tcb :: "thread list"
  next_tid :: int
  current_thread :: "nat option"
  kstacks :: u32
  ready_queue :: "qnode lheap"
  proc_threads :: "pnode lheap"
  irq_cts :: "u64 list"

definition upd_thread :: "nat \<Rightarrow> (thread \<Rightarrow> thread) \<Rightarrow> ('h, 'a) kstate_scheme \<Rightarrow> ('h, 'a) kstate_scheme" where
  "upd_thread i f st = st\<lparr>tcb := (tcb st)[i := f (tcb st ! i)]\<rparr>"

section \<open>Starting user code: x86\_seg.c\<close>

definition PL_KERNEL :: u16 where "PL_KERNEL = 0"
definition PL_USER :: u16 where "PL_USER = 3"
definition KSEG_KERNEL_DATA :: u16 where "KSEG_KERNEL_DATA = 2"
definition KSEG_USER_CODE :: u16 where "KSEG_USER_CODE = 3"
definition KSEG_USER_DATA :: u16 where "KSEG_USER_DATA = 4"

definition X86_SEGSEL_INIT :: "u16 \<Rightarrow> u16 \<Rightarrow> u16" where
  "X86_SEGSEL_INIT idx rpl = push_bit 3 idx OR (rpl AND 0x3)"

definition cpu_user_kstack_set :: "u32 \<Rightarrow> ('h, 'a) kstate_scheme \<Rightarrow> ('h, 'a) kstate_scheme" where
  "cpu_user_kstack_set kstack_addr st =
    st\<lparr>tss_ss0 := X86_SEGSEL_INIT KSEG_KERNEL_DATA PL_KERNEL, tss_esp0 := kstack_addr\<rparr>"

definition cpu_user_start :: "u32 \<Rightarrow> u32 \<Rightarrow> control" where
  "cpu_user_start start ustack_addr =
    User_start \<lparr>if_ip = start, if_cs = ucast (X86_SEGSEL_INIT KSEG_USER_CODE PL_USER), if_flags = push_bit 9 1,
      if_sp = ustack_addr, if_ss = ucast (X86_SEGSEL_INIT KSEG_USER_DATA PL_USER)\<rparr>"

section \<open>Thread table\<close>

fun thread_find :: "(thread \<Rightarrow> bool) \<Rightarrow> nat \<Rightarrow> nat \<Rightarrow> thread list \<Rightarrow> nat option" where
  "thread_find p 0 i ts = None"
| "thread_find p (Suc k) i ts = (if p (ts ! i) then Some i else thread_find p k (Suc i) ts)"

definition thread_alloc :: "('h, 'a) kstate_scheme \<Rightarrow> nat option" where
  "thread_alloc st = thread_find (\<lambda>t. tid t = 0) THREAD_MAX 0 (tcb st)"

definition clear_node :: "'a lheap \<Rightarrow> 'a \<Rightarrow> 'a lheap" where
  "clear_node h a = set_prev (set_next h a None) a None"

text \<open>\<open>list_del\<close> behind the test that the node is linked; with both pointers set it cannot fail.\<close>

definition del_linked :: "'a lheap \<Rightarrow> 'a \<Rightarrow> 'a lheap" where
  "del_linked h a =
    (if lh_next h a \<noteq> None \<and> lh_prev h a \<noteq> None then case list_del h a of Some h \<Rightarrow> h | None \<Rightarrow> h else h)"

definition thread_close :: "nat \<Rightarrow> ('h, 'a) kstate_scheme \<Rightarrow> ('h, 'a) kstate_scheme" where
  "thread_close i st =
    st\<lparr>proc_threads := clear_node (del_linked (proc_threads st) (TProc i)) (TProc i),
       ready_queue := clear_node (del_linked (ready_queue st) (TQueue i)) (TQueue i),
       tcb := (tcb st)[i := thread0]\<rparr>"

section \<open>Scheduler\<close>

definition sched_add :: "nat \<Rightarrow> ('h, 'a) kstate_scheme \<Rightarrow> ('h, 'a) kstate_scheme option" where
  "sched_add t st = map_option (\<lambda>h. st\<lparr>ready_queue := h\<rparr>) (list_add_tail (ready_queue st) (TQueue t) ReadyQ)"

definition sched_remove :: "nat \<Rightarrow> ('h, 'a) kstate_scheme \<Rightarrow> ('h, 'a) kstate_scheme" where
  "sched_remove t st = st\<lparr>ready_queue := del_linked (ready_queue st) (TQueue t)\<rparr>"

text \<open>
  The result of \<open>choose_next_thread\<close>: a thread, the NULL pointer of a queue that was never
  initialised, or the head of an empty initialised queue, which is no thread at all.
\<close>

datatype choice = Chosen nat | No_thread | Not_a_thread

partial_function (option) choose_next_thread :: "('h, 'a) kstate_scheme \<Rightarrow> (('h, 'a) kstate_scheme \<times> choice) option" where
  "choose_next_thread st =
    (case list_first_entry (ready_queue st) ReadyQ of
       None \<Rightarrow> Some (st, No_thread)
     | Some ReadyQ \<Rightarrow> Some (st, Not_a_thread)
     | Some (TQueue t) \<Rightarrow>
         (case runstate (tcb st ! t) of
            RS_NEW \<Rightarrow> Some (st, Chosen t)
          | RS_READY \<Rightarrow> Some (st, Chosen t)
          | RS_EXITED \<Rightarrow>
              (case list_rotate_left (ready_queue st) ReadyQ of
                 None \<Rightarrow> Some (st, Not_a_thread)
               | Some h \<Rightarrow> choose_next_thread (st\<lparr>ready_queue := h\<rparr>))))"

definition thread_switch ::
    "cont \<Rightarrow> nat option \<Rightarrow> nat option \<Rightarrow> ('h, 'a) kstate_scheme \<Rightarrow> ('h, 'a) kstate_scheme \<times> control" where
  "thread_switch k outgoing incoming st =
    (case incoming of
       None \<Rightarrow> (st, Return (err ESRCH))
     | Some n \<Rightarrow>
         (let st = (case outgoing of None \<Rightarrow> st | Some c \<Rightarrow> upd_thread c (\<lambda>t. t\<lparr>saved_state := Some k\<rparr>) st);
              st = st\<lparr>current_thread := Some n, current_process := t_process (tcb st ! n)\<rparr>;
              st = cpu_user_kstack_set (thread_stack (tcb st ! n)) st;
              t = tcb st ! n
          in case runstate t of
               RS_NEW \<Rightarrow> (upd_thread n (\<lambda>t. t\<lparr>runstate := RS_READY\<rparr>) st, cpu_user_start (start_addr t) (process_stack t))
             | RS_READY \<Rightarrow>
                 (st, case saved_state t of Some k' \<Rightarrow> Task_restore k' | None \<Rightarrow> Undefined_behaviour)
             | RS_EXITED \<Rightarrow> (st, Dead_end)))"

text \<open>The two halves of \<open>schedule\<close>: the current thread back into the queue, and the switch to the next.\<close>

definition requeue_current :: "('h, 'a) kstate_scheme \<Rightarrow> ('h, 'a) kstate_scheme option" where
  "requeue_current st =
    (case current_thread st of
       None \<Rightarrow> Some st
     | Some c \<Rightarrow> (if runstate (tcb st ! c) = RS_READY then sched_add c st else Some st))"

definition switch_to_next :: "cont \<Rightarrow> ('h, 'a) kstate_scheme \<Rightarrow> (('h, 'a) kstate_scheme \<times> control) option" where
  "switch_to_next k st =
    map_option (\<lambda>(st, ch).
        case ch of
          No_thread \<Rightarrow> (st, Dead_end)
        | Not_a_thread \<Rightarrow> (st, Undefined_behaviour)
        | Chosen n \<Rightarrow> (let st = sched_remove n st in thread_switch k (current_thread st) (Some n) st))
      (choose_next_thread st)"

definition schedule :: "cont \<Rightarrow> ('h, 'a) kstate_scheme \<Rightarrow> (('h, 'a) kstate_scheme \<times> control) option" where
  "schedule k st =
    (case requeue_current st of None \<Rightarrow> Some (st, Undefined_behaviour) | Some st \<Rightarrow> switch_to_next k st)"

section \<open>Thread operations\<close>

text \<open>What the caller of \<open>schedule\<close> does when the call returns.\<close>

fun on_return :: "control \<Rightarrow> control \<Rightarrow> control" where
  "on_return c (Return _) = c"
| "on_return _ ctl = ctl"

definition thread_create ::
    "nat \<Rightarrow> u32 \<Rightarrow> u32 \<Rightarrow> ('h, 'a) kstate_scheme \<Rightarrow> ('h, 'a) kstate_scheme \<times> control" where
  "thread_create p start ustack_addr st =
    (case thread_alloc st of
       None \<Rightarrow> (st, Return (err ENOSYS))
     | Some idx \<Rightarrow> if INT_MAX \<le> next_tid st then (st, Undefined_behaviour) else
         (let st = upd_thread idx (\<lambda>t. t\<lparr>t_process := Some p, thread_stack := kstacks st + of_nat idx * KSTACKSZ + KSTACKSZ,
                process_stack := ustack_addr, start_addr := start, runstate := RS_NEW, tid := next_tid st\<rparr>) st;
              st = st\<lparr>next_tid := next_tid st + 1\<rparr>
          in case list_add (proc_threads st) (TProc idx) (PThreads p) of
               None \<Rightarrow> (st, Undefined_behaviour)
             | Some h \<Rightarrow>
                 (let st = st\<lparr>proc_threads := h\<rparr>
                  in case sched_add idx st of
                       None \<Rightarrow> (st, Undefined_behaviour)
                     | Some st \<Rightarrow> (st, Return (tid (tcb st ! idx))))))"

definition thread_exit :: "int \<Rightarrow> ('h, 'a) kstate_scheme \<Rightarrow> (('h, 'a) kstate_scheme \<times> control) option" where
  "thread_exit status st =
    (case current_thread st of
       None \<Rightarrow> Some (st, Undefined_behaviour)
     | Some c \<Rightarrow>
         map_option (apsnd (on_return Dead_end))
           (schedule After_exit (upd_thread c (\<lambda>t. t\<lparr>exit_status := status, runstate := RS_EXITED\<rparr>) st)))"

definition thread_yield :: "cont \<Rightarrow> ('h, 'a) kstate_scheme \<Rightarrow> (('h, 'a) kstate_scheme \<times> control) option" where
  "thread_yield k st =
    (case current_thread st of
       None \<Rightarrow> Some (st, Undefined_behaviour)
     | Some c \<Rightarrow>
         map_option (apsnd (on_return (Return 0)))
           (schedule k (upd_thread c (\<lambda>t. t\<lparr>runstate := RS_READY, yield_ct := int32 (yield_ct t + 1)\<rparr>) st)))"

definition thread_preempt :: "('h, 'a) kstate_scheme \<Rightarrow> (('h, 'a) kstate_scheme \<times> control) option" where
  "thread_preempt st =
    (case current_thread st of
       None \<Rightarrow> Some (st, Undefined_behaviour)
     | Some c \<Rightarrow>
         map_option (apsnd (on_return (Return 0)))
           (schedule After_preempt (upd_thread c (\<lambda>t. t\<lparr>runstate := RS_READY, preempt_ct := int32 (preempt_ct t + 1)\<rparr>) st)))"

partial_function (option) join_loop :: "nat \<Rightarrow> ('h, 'a) kstate_scheme \<Rightarrow> (('h, 'a) kstate_scheme \<times> control) option" where
  "join_loop i st =
    (if runstate (tcb st ! i) \<noteq> RS_EXITED
     then Option.bind (thread_yield (After_join i) st) (\<lambda>(st, ctl).
            case ctl of Return _ \<Rightarrow> join_loop i st | _ \<Rightarrow> Some (st, ctl))
     else Some (thread_close i st, Return (exit_status (tcb st ! i))))"

definition thread_join :: "int \<Rightarrow> ('h, 'a) kstate_scheme \<Rightarrow> (('h, 'a) kstate_scheme \<times> control) option" where
  "thread_join t st =
    (case thread_find (\<lambda>th. tid th = t) THREAD_MAX 0 (tcb st) of
       None \<Rightarrow> Some (st, Return (err ESRCH))
     | Some i \<Rightarrow> join_loop i st)"

text \<open>
  The rest of the saved call chain, when \<open>cpu_task_save\<close> returns for the second time: \<open>thread_switch\<close>
  and \<open>schedule\<close> return, and the function that called \<open>schedule\<close> goes on.
\<close>

fun task_resume :: "cont \<Rightarrow> ('h, 'a) kstate_scheme \<Rightarrow> (('h, 'a) kstate_scheme \<times> control) option" where
  "task_resume After_yield st = Some (st, Return 0)"
| "task_resume After_preempt st = Some (st, Return 0)"
| "task_resume (After_join i) st = join_loop i st"
| "task_resume After_exit st = Some (st, Dead_end)"
| "task_resume After_start st = Some (st, Return 0)"

section \<open>The ring of live threads\<close>

definition live :: "thread \<Rightarrow> bool" where
  "live t \<longleftrightarrow> tid t \<noteq> 0 \<and> runstate t \<noteq> RS_EXITED"

text \<open>A live thread that is not running can be switched to: it is new, or it was saved in a kernel
  call that goes on when it is restored.\<close>

fun resumes :: "cont \<Rightarrow> bool" where
  "resumes After_yield = True"
| "resumes After_preempt = True"
| "resumes (After_join i) = (i < THREAD_MAX)"
| "resumes _ = False"

definition resumable :: "thread \<Rightarrow> bool" where
  "resumable t \<longleftrightarrow> (runstate t = RS_READY \<longrightarrow> (\<exists>k. saved_state t = Some k \<and> resumes k))"

definition stack_of :: "('h, 'a) kstate_scheme \<Rightarrow> nat \<Rightarrow> u32" where
  "stack_of st i = kstacks st + of_nat i * KSTACKSZ + KSTACKSZ"

definition tids_ok :: "('h, 'a) kstate_scheme \<Rightarrow> bool" where
  "tids_ok st \<longleftrightarrow> length (tcb st) = THREAD_MAX \<and> 0 < next_tid st \<and> next_tid st \<le> INT_MAX \<and>
    (\<forall>i < THREAD_MAX. 0 \<le> tid (tcb st ! i) \<and> tid (tcb st ! i) < next_tid st \<and>
      (tid (tcb st ! i) \<noteq> 0 \<longrightarrow> thread_stack (tcb st ! i) = stack_of st i \<and> t_process (tcb st ! i) \<noteq> None)) \<and>
    (\<forall>i < THREAD_MAX. \<forall>j < THREAD_MAX. tid (tcb st ! i) = tid (tcb st ! j) \<longrightarrow> tid (tcb st ! i) \<noteq> 0 \<longrightarrow> i = j)"

text \<open>The ready queue holds the threads \<open>q\<close> and every other thread is unlinked.\<close>

definition queue_ok :: "qnode lheap \<Rightarrow> nat list \<Rightarrow> bool" where
  "queue_ok h q \<longleftrightarrow> clist h ReadyQ (map TQueue q) \<and> (\<forall>i. i \<notin> set q \<longrightarrow> lh_next h (TQueue i) = None)"

definition queue_ok0 :: "qnode lheap \<Rightarrow> nat list \<Rightarrow> bool" where
  "queue_ok0 h q \<longleftrightarrow> clist0 h ReadyQ (map TQueue q) \<and> (\<forall>i. i \<notin> set q \<longrightarrow> lh_next h (TQueue i) = None)"

definition sched_ring :: "('h, 'a) kstate_scheme \<Rightarrow> nat list \<Rightarrow> bool" where
  "sched_ring st r \<longleftrightarrow> tids_ok st \<and> r \<noteq> [] \<and> distinct r \<and> set r = {i. i < THREAD_MAX \<and> live (tcb st ! i)} \<and>
    current_thread st = Some (hd r) \<and> current_process st = t_process (tcb st ! hd r) \<and>
    tss_esp0 st = stack_of st (hd r) \<and> runstate (tcb st ! hd r) = RS_READY \<and>
    (\<forall>i \<in> set (tl r). resumable (tcb st ! i)) \<and> queue_ok (ready_queue st) (tl r)"

lemma upd_thread_simps [simp]:
  "tcb (upd_thread i f st) = (tcb st)[i := f (tcb st ! i)]" "next_tid (upd_thread i f st) = next_tid st"
  "current_thread (upd_thread i f st) = current_thread st" "ready_queue (upd_thread i f st) = ready_queue st"
  "proc_threads (upd_thread i f st) = proc_threads st" "kstacks (upd_thread i f st) = kstacks st"
  "current_process (upd_thread i f st) = current_process st" "tss_esp0 (upd_thread i f st) = tss_esp0 st"
  by (simp_all add: upd_thread_def)

lemma kstack_set_simps [simp]:
  "tcb (cpu_user_kstack_set a st) = tcb st" "next_tid (cpu_user_kstack_set a st) = next_tid st"
  "current_thread (cpu_user_kstack_set a st) = current_thread st" "ready_queue (cpu_user_kstack_set a st) = ready_queue st"
  "proc_threads (cpu_user_kstack_set a st) = proc_threads st" "kstacks (cpu_user_kstack_set a st) = kstacks st"
  "current_process (cpu_user_kstack_set a st) = current_process st" "tss_esp0 (cpu_user_kstack_set a st) = a"
  by (simp_all add: cpu_user_kstack_set_def)

lemma queue_ok_remove:
  assumes "queue_ok h (n # q)"
  shows "queue_ok (del_linked h (TQueue n)) q"
proof -
  have c: "clist h ReadyQ ([] @ TQueue n # map TQueue q)" using assms by (simp add: queue_ok_def)
  from list_del_clist [OF c] obtain h' where
    h': "list_del h (TQueue n) = Some h'" "clist h' ReadyQ (map TQueue q)" "lh_next h' (TQueue n) = None" by auto
  then have "lh_next h (TQueue n) \<noteq> None" "lh_prev h (TQueue n) \<noteq> None"
    by (auto simp: list_del_def Let_def split: option.splits if_splits)
  then have "del_linked h (TQueue n) = h'" using h'(1) by (simp add: del_linked_def)
  moreover have "lh_next h' (TQueue i) = None" if "i \<notin> set q" for i
    using list_del_frame [OF c _ h'(1), of "TQueue i"] that h'(3) assms by (cases "i = n") (auto simp: queue_ok_def)
  ultimately show ?thesis using h'(2) by (simp add: queue_ok_def)
qed

lemma queue_ok_add:
  assumes "queue_ok0 h q" "i \<notin> set q"
  shows "\<exists>h'. list_add_tail h (TQueue i) ReadyQ = Some h' \<and> queue_ok h' (q @ [i])"
proof -
  have c: "clist0 h ReadyQ (map TQueue q)" using assms by (simp add: queue_ok0_def)
  from list_add_tail_clist [OF c, of "TQueue i"] assms(2) obtain h' where
    h': "list_add_tail h (TQueue i) ReadyQ = Some h'" "clist h' ReadyQ (map TQueue (q @ [i]))" by auto
  moreover have "lh_next h' (TQueue j) = None" if "j \<notin> set (q @ [i])" for j
    using list_add_tail_frame [OF c h'(1), of "TQueue j"] that assms(1) by (auto simp: queue_ok0_def)
  ultimately show ?thesis by (auto simp: queue_ok_def)
qed

lemma queue_ok_clear:
  assumes "queue_ok h q" "i \<notin> set q"
  shows "queue_ok (clear_node (del_linked h (TQueue i)) (TQueue i)) q"
proof -
  have "clist (clear_node h (TQueue i)) ReadyQ (map TQueue q) = clist h ReadyQ (map TQueue q)"
    by (rule clist_cong) (use assms(2) in \<open>auto simp: clear_node_def\<close>)
  with assms show ?thesis by (auto simp: queue_ok_def del_linked_def clear_node_def)
qed

lemma queue_ok0: "queue_ok h q \<Longrightarrow> queue_ok0 h q"
  by (simp add: queue_ok_def queue_ok0_def clist0_def)

lemma choose_next_thread_runnable:
  assumes "queue_ok (ready_queue st) (n # q)" "runstate (tcb st ! n) \<noteq> RS_EXITED"
  shows "choose_next_thread st = Some (st, Chosen n)"
  using assms by (subst choose_next_thread.simps)
    (auto simp: list_first_entry_def queue_ok_def dest!: clist_next split: runstate.splits)

lemma switch_to_next_runnable:
  assumes "queue_ok (ready_queue st) (n # q)" "runstate (tcb st ! n) \<noteq> RS_EXITED"
  shows "\<exists>h. switch_to_next k st = Some (thread_switch k (current_thread st) (Some n) (st\<lparr>ready_queue := h\<rparr>)) \<and>
    queue_ok h q"
  using queue_ok_remove [OF assms(1)]
  by (auto simp: switch_to_next_def choose_next_thread_runnable [OF assms] sched_remove_def)

lemma sched_add_queue:
  assumes "queue_ok0 (ready_queue st) q" "i \<notin> set q"
  shows "\<exists>h. sched_add i st = Some (st\<lparr>ready_queue := h\<rparr>) \<and> queue_ok h (q @ [i])"
  using queue_ok_add [OF assms] by (auto simp: sched_add_def)

text \<open>The control that a switch to a thread gives.\<close>

definition entry :: "thread \<Rightarrow> control" where
  "entry t =
    (if runstate t = RS_NEW then cpu_user_start (start_addr t) (process_stack t)
     else case saved_state t of Some k \<Rightarrow> Task_restore k | None \<Rightarrow> Undefined_behaviour)"

definition switched :: "nat \<Rightarrow> qnode lheap \<Rightarrow> ('h, 'a) kstate_scheme \<Rightarrow> ('h, 'a) kstate_scheme" where
  "switched n h st = upd_thread n (\<lambda>t. t\<lparr>runstate := RS_READY\<rparr>)
    (cpu_user_kstack_set (thread_stack (tcb st ! n))
      (st\<lparr>ready_queue := h, current_thread := Some n, current_process := t_process (tcb st ! n)\<rparr>))"

lemma thread_switch_entry:
  assumes "runstate (tcb st ! n) \<noteq> RS_EXITED" "n < length (tcb st)"
  shows "thread_switch k None (Some n) (st\<lparr>ready_queue := h\<rparr>) = (switched n h st, entry (tcb st ! n))"
proof -
  have u: "upd_thread n (\<lambda>t. t\<lparr>runstate := RS_READY\<rparr>) s = s"
    if "runstate (tcb s ! n) = RS_READY" for s :: "('a, 'b) kstate_scheme"
  proof -
    have "(tcb s ! n)\<lparr>runstate := RS_READY\<rparr> = tcb s ! n" using that by (cases "tcb s ! n") simp
    then show ?thesis by (simp add: upd_thread_def)
  qed
  show ?thesis using assms
    by (cases "runstate (tcb st ! n)")
      (auto simp: thread_switch_def switched_def entry_def Let_def u split: option.splits)
qed

lemma upd_thread_queue: "upd_thread c f (st\<lparr>ready_queue := h\<rparr>) = (upd_thread c f st)\<lparr>ready_queue := h\<rparr>"
  by (simp add: upd_thread_def)

lemma thread_switch_save:
  "thread_switch k (Some c) (Some n) (st\<lparr>ready_queue := h\<rparr>) =
    thread_switch k None (Some n) ((upd_thread c (\<lambda>t. t\<lparr>saved_state := Some k\<rparr>) st)\<lparr>ready_queue := h\<rparr>)"
  by (simp add: thread_switch_def upd_thread_queue)

lemma live_simps [simp]:
  "live (t\<lparr>saved_state := x\<rparr>) = live t" "live (t\<lparr>yield_ct := y\<rparr>) = live t" "live (t\<lparr>preempt_ct := y\<rparr>) = live t"
  "live (t\<lparr>runstate := RS_READY\<rparr>) = (tid t \<noteq> 0)" "\<not> live (t\<lparr>runstate := RS_EXITED\<rparr>)"
  "live (t\<lparr>exit_status := z\<rparr>) = live t"
  by (auto simp: live_def)

section \<open>Operations on the ring\<close>

lemma sched_ring_len: "sched_ring st r \<Longrightarrow> i \<in> set r \<Longrightarrow> i < length (tcb st)"
  by (auto simp: sched_ring_def tids_ok_def)

lemma sched_ring_runnable: "sched_ring st r \<Longrightarrow> i \<in> set r \<Longrightarrow> runstate (tcb st ! i) \<noteq> RS_EXITED"
  by (auto simp: sched_ring_def live_def)

lemma tids_ok_cong:
  assumes "tids_ok st" "length (tcb st') = length (tcb st)" "next_tid st' = next_tid st" "kstacks st' = kstacks st"
    "\<And>i. i < THREAD_MAX \<Longrightarrow> tid (tcb st' ! i) = tid (tcb st ! i) \<and> thread_stack (tcb st' ! i) = thread_stack (tcb st ! i) \<and>
      t_process (tcb st' ! i) = t_process (tcb st ! i)"
  shows "tids_ok st'"
  using assms by (simp add: tids_ok_def stack_of_def)

lemma nth_upd: "i < length xs \<Longrightarrow> xs[i := x] ! j = (if j = i then x else xs ! j)"
  by simp

text \<open>Changes of the bookkeeping fields of the current thread do not touch the ring.\<close>

lemma sched_ring_current:
  assumes r: "sched_ring st (c # q)" and f: "\<And>t. tid (f t) = tid t" "\<And>t. thread_stack (f t) = thread_stack t"
    "\<And>t. t_process (f t) = t_process t" "\<And>t. runstate (f t) = RS_READY"
  shows "sched_ring (upd_thread c f st) (c # q)"
proof -
  have c: "c < length (tcb st)" using r by (rule sched_ring_len) simp
  have "tids_ok (upd_thread c f st)"
    by (rule tids_ok_cong [of st]) (use r c f in \<open>simp_all add: sched_ring_def nth_upd\<close>)
  moreover have "live (f (tcb st ! c))" "live (tcb st ! c)"
    using r f by (auto simp: sched_ring_def live_def)
  then have "live (tcb (upd_thread c f st) ! i) = live (tcb st ! i)" for i
    using c by (simp add: nth_upd)
  moreover have "resumable (tcb (upd_thread c f st) ! i) = resumable (tcb st ! i)" if "i \<in> set q" for i
    using c r that by (auto simp: nth_upd sched_ring_def)
  ultimately show ?thesis using r c f by (simp add: sched_ring_def stack_of_def nth_upd)
qed


lemma switched_ring:
  assumes "tids_ok st" "distinct (n # q)" "set (n # q) = {i. i < THREAD_MAX \<and> live (tcb st ! i)}"
    "\<forall>i \<in> set q. resumable (tcb st ! i)" "queue_ok h q"
  shows "sched_ring (switched n h st) (n # q)"
proof -
  have n: "n < length (tcb st)" "n < THREAD_MAX" "live (tcb st ! n)" using assms(1,3) by (auto simp: tids_ok_def)
  have "tids_ok (switched n h st)"
    by (rule tids_ok_cong [of st]) (use assms n in \<open>simp_all add: switched_def nth_upd\<close>)
  moreover have "live (tcb (switched n h st) ! i) = live (tcb st ! i)" for i
    using n by (auto simp: switched_def nth_upd live_def)
  moreover have "thread_stack (tcb st ! n) = stack_of st n"
    using assms(1) n by (simp add: tids_ok_def live_def)
  moreover have "resumable (tcb (switched n h st) ! i) = resumable (tcb st ! i)" if "i \<in> set q" for i
    using n assms(2) that by (auto simp: switched_def nth_upd)
  ultimately show ?thesis
    using assms n by (simp add: sched_ring_def) (simp add: switched_def stack_of_def nth_upd)
qed

text \<open>
  A switch from a state whose queue holds the live threads. The outgoing thread is saved with the label
  of the call; it stays in the ring when it is still in the queue.
\<close>

lemma switch_to_next_ring:
  assumes t: "tids_ok st" and d: "distinct (n # q)" "set (n # q) = {i. i < THREAD_MAX \<and> live (tcb st ! i)}"
    and c: "current_thread st = Some c" "c < THREAD_MAX" "c \<in> set (n # q) \<Longrightarrow> resumes k"
    and res: "\<forall>i \<in> set (n # q) - {c}. resumable (tcb st ! i)" and h: "queue_ok (ready_queue st) (n # q)"
  shows "\<exists>st'. switch_to_next k st =
      Some (st', entry (if n = c then (tcb st ! c)\<lparr>saved_state := Some k\<rparr> else tcb st ! n)) \<and> sched_ring st' (n # q) \<and>
    (\<exists>h. st' = switched n h (upd_thread c (\<lambda>t. t\<lparr>saved_state := Some k\<rparr>) st))"
proof -
  let ?s = "upd_thread c (\<lambda>t. t\<lparr>saved_state := Some k\<rparr>) st"
  have cl: "c < length (tcb st)" using t c by (simp add: tids_ok_def)
  have n: "n < length (tcb st)" "runstate (tcb st ! n) \<noteq> RS_EXITED" using t d by (auto simp: tids_ok_def live_def)
  obtain h' where h': "switch_to_next k st = Some (thread_switch k (Some c) (Some n) (st\<lparr>ready_queue := h'\<rparr>))"
      "queue_ok h' q"
    using switch_to_next_runnable [OF h n(2), of k] c(1) by auto
  have tn: "tcb ?s ! n = (if n = c then (tcb st ! c)\<lparr>saved_state := Some k\<rparr> else tcb st ! n)"
    using cl by (simp add: nth_upd)
  have "thread_switch k (Some c) (Some n) (st\<lparr>ready_queue := h'\<rparr>) = (switched n h' ?s, entry (tcb ?s ! n))"
    unfolding thread_switch_save by (rule thread_switch_entry) (use n cl in \<open>auto simp: nth_upd\<close>)
  moreover have "sched_ring (switched n h' ?s) (n # q)"
  proof (rule switched_ring [OF _ d(1) _ _ h'(2)])
    show "tids_ok ?s" by (rule tids_ok_cong [OF t]) (simp_all add: cl nth_upd)
    show "set (n # q) = {i. i < THREAD_MAX \<and> live (tcb ?s ! i)}" unfolding d(2) using cl by (auto simp: nth_upd)
    show "\<forall>i \<in> set q. resumable (tcb ?s ! i)" using cl res c(3) by (auto simp: nth_upd resumable_def)
  qed
  ultimately show ?thesis using h'(1) tn by auto
qed

lemma on_return_entry [simp]: "on_return ctl (entry t) = entry t"
  by (auto simp: entry_def cpu_user_start_def split: option.splits)

text \<open>The thread to which a rotation switches, as \<open>cpu_task_save\<close> left it.\<close>

definition next_thread :: "cont \<Rightarrow> nat list \<Rightarrow> ('h, 'a) kstate_scheme \<Rightarrow> thread" where
  "next_thread k r st =
    (if length r = 1 then (tcb st ! (r ! 0))\<lparr>saved_state := Some k\<rparr> else tcb st ! (r ! 1))"

lemma schedule_ring:
  assumes r: "sched_ring st (c # q)" and k: "resumes k"
  shows "\<exists>st'. schedule k st = Some (st', entry (next_thread k (c # q) st)) \<and> sched_ring st' (q @ [c])"
proof -
  have cur: "current_thread st = Some c" "runstate (tcb st ! c) = RS_READY" and t: "tids_ok st"
    and d: "distinct (c # q)" "set (c # q) = {i. i < THREAD_MAX \<and> live (tcb st ! i)}"
    using r by (simp_all add: sched_ring_def)
  have "queue_ok0 (ready_queue st) q" using r by (simp add: sched_ring_def queue_ok0)
  from sched_add_queue [OF this, of c] d(1) obtain h where
    h: "sched_add c st = Some (st\<lparr>ready_queue := h\<rparr>)" "queue_ok h (q @ [c])" by auto
  obtain n q' where nq: "q @ [c] = n # q'" by (cases "q @ [c]") auto
  let ?s = "st\<lparr>ready_queue := h\<rparr>"
  have set_eq: "set (n # q') = set (c # q)" unfolding nq [symmetric] by auto
  have "\<exists>st'. switch_to_next k ?s =
      Some (st', entry (if n = c then (tcb ?s ! c)\<lparr>saved_state := Some k\<rparr> else tcb ?s ! n)) \<and> sched_ring st' (n # q') \<and>
    (\<exists>h. st' = switched n h (upd_thread c (\<lambda>t. t\<lparr>saved_state := Some k\<rparr>) ?s))"
  proof (rule switch_to_next_ring)
    show "tids_ok ?s" by (rule tids_ok_cong [OF t]) simp_all
    show "distinct (n # q')" using d(1) unfolding nq [symmetric] by auto
    show "set (n # q') = {i. i < THREAD_MAX \<and> live (tcb ?s ! i)}" using d(2) set_eq by simp
    show "\<forall>i \<in> set (n # q') - {c}. resumable (tcb ?s ! i)" unfolding set_eq using r by (auto simp: sched_ring_def)
    show "queue_ok (ready_queue ?s) (n # q')" using h(2) unfolding nq by simp
  qed (use cur d(2) k in auto)
  moreover have "schedule k st = switch_to_next k ?s"
    using cur h by (simp add: schedule_def requeue_current_def)
  moreover have "(if n = c then (tcb ?s ! c)\<lparr>saved_state := Some k\<rparr> else tcb ?s ! n) = next_thread k (c # q) st"
    using nq d(1) by (cases q) (auto simp: next_thread_def)
  ultimately show ?thesis using nq by auto
qed

lemma next_thread_upd:
  assumes "c < length (tcb st)" "distinct (c # q)" "\<And>t. entry ((f t)\<lparr>saved_state := Some k\<rparr>) = entry (t\<lparr>runstate := RS_READY, saved_state := Some k\<rparr>)"
    "runstate (tcb st ! c) = RS_READY"
  shows "entry (next_thread k (c # q) (upd_thread c f st)) = entry (next_thread k (c # q) st)"
  using assms by (cases q) (auto simp: next_thread_def entry_def)

lemma thread_yield_ring:
  assumes r: "sched_ring st (c # q)" and k: "resumes k"
  shows "\<exists>st'. thread_yield k st = Some (st', entry (next_thread k (c # q) st)) \<and> sched_ring st' (q @ [c])"
proof -
  let ?f = "\<lambda>t. t\<lparr>runstate := RS_READY, yield_ct := int32 (yield_ct t + 1)\<rparr>"
  have cur: "current_thread st = Some c" "distinct (c # q)" "runstate (tcb st ! c) = RS_READY" using r by (simp_all add: sched_ring_def)
  have "sched_ring (upd_thread c ?f st) (c # q)" by (rule sched_ring_current [OF r]) simp_all
  note s = schedule_ring [OF this k]
  have "entry (next_thread k (c # q) (upd_thread c ?f st)) = entry (next_thread k (c # q) st)"
    by (rule next_thread_upd) (use cur sched_ring_len [OF r] in \<open>auto simp: entry_def\<close>)
  with s show ?thesis using cur(1) by (auto simp: thread_yield_def)
qed

lemma thread_preempt_ring:
  assumes r: "sched_ring st (c # q)"
  shows "\<exists>st'. thread_preempt st = Some (st', entry (next_thread After_preempt (c # q) st)) \<and> sched_ring st' (q @ [c])"
proof -
  let ?f = "\<lambda>t. t\<lparr>runstate := RS_READY, preempt_ct := int32 (preempt_ct t + 1)\<rparr>"
  have cur: "current_thread st = Some c" "distinct (c # q)" "runstate (tcb st ! c) = RS_READY" using r by (simp_all add: sched_ring_def)
  have "sched_ring (upd_thread c ?f st) (c # q)" by (rule sched_ring_current [OF r]) simp_all
  note s = schedule_ring [OF this, of After_preempt]
  have "entry (next_thread After_preempt (c # q) (upd_thread c ?f st)) = entry (next_thread After_preempt (c # q) st)"
    by (rule next_thread_upd) (use cur sched_ring_len [OF r] in \<open>auto simp: entry_def\<close>)
  with s show ?thesis using cur(1) by (auto simp: thread_preempt_def)
qed

lemma thread_exit_ring:
  assumes r: "sched_ring st (c # n # q)"
  shows "\<exists>st'. thread_exit status st = Some (st', entry (tcb st ! n)) \<and> sched_ring st' (n # q) \<and>
    runstate (tcb st' ! c) = RS_EXITED \<and> exit_status (tcb st' ! c) = status \<and> tid (tcb st' ! c) = tid (tcb st ! c)"
proof -
  let ?s = "upd_thread c (\<lambda>t. t\<lparr>exit_status := status, runstate := RS_EXITED\<rparr>) st"
  have c: "c < length (tcb st)" "current_thread st = Some c" "c \<notin> set (n # q)" "c < THREAD_MAX" and t: "tids_ok st"
    and d: "distinct (n # q)" "insert c (set (n # q)) = {i. i < THREAD_MAX \<and> live (tcb st ! i)}"
    and res: "\<forall>i \<in> set (n # q). resumable (tcb st ! i)" and h: "queue_ok (ready_queue st) (n # q)"
    using r by (auto simp: sched_ring_def tids_ok_def)
  have "\<exists>st'. switch_to_next After_exit ?s =
      Some (st', entry (if n = c then (tcb ?s ! c)\<lparr>saved_state := Some After_exit\<rparr> else tcb ?s ! n)) \<and> sched_ring st' (n # q) \<and>
    (\<exists>h. st' = switched n h (upd_thread c (\<lambda>t. t\<lparr>saved_state := Some After_exit\<rparr>) ?s))"
  proof (rule switch_to_next_ring [OF _ d(1)])
    show "tids_ok ?s" by (rule tids_ok_cong [OF t]) (simp_all add: c nth_upd)
    have "live (tcb ?s ! i) \<longleftrightarrow> i \<noteq> c \<and> live (tcb st ! i)" for i using c by (simp add: nth_upd)
    then show "set (n # q) = {i. i < THREAD_MAX \<and> live (tcb ?s ! i)}" using d(2) c(3) by blast
    show "\<forall>i \<in> set (n # q) - {c}. resumable (tcb ?s ! i)" using res c by (simp add: nth_upd)
  qed (use c h in auto)
  then obtain st' h' where s: "switch_to_next After_exit ?s = Some (st', entry (tcb st ! n))" "sched_ring st' (n # q)"
      "st' = switched n h' (upd_thread c (\<lambda>t. t\<lparr>saved_state := Some After_exit\<rparr>) ?s)"
    using c by (auto simp: nth_upd)
  have "runstate (tcb st' ! c) = RS_EXITED \<and> exit_status (tcb st' ! c) = status \<and> tid (tcb st' ! c) = tid (tcb st ! c)"
    unfolding s(3) using c sched_ring_len [OF r, of n] by (simp add: switched_def nth_upd)
  moreover have "schedule After_exit ?s = switch_to_next After_exit ?s"
    using c by (simp add: schedule_def requeue_current_def nth_upd)
  ultimately show ?thesis using s(1,2) c(2) by (auto simp: thread_exit_def)
qed

lemma thread_exit_last:
  assumes "sched_ring st [c]"
  shows "\<exists>st'. thread_exit status st = Some (st', Undefined_behaviour)"
proof -
  have c: "current_thread st = Some c" "c < length (tcb st)" "lh_next (ready_queue st) ReadyQ = Some ReadyQ"
    using assms sched_ring_len [OF assms, of c] by (auto simp: sched_ring_def queue_ok_def clist_Nil)
  let ?s = "upd_thread c (\<lambda>t. t\<lparr>exit_status := status, runstate := RS_EXITED\<rparr>) st"
  have "choose_next_thread ?s = Some (?s, Not_a_thread)"
    by (subst choose_next_thread.simps) (simp add: list_first_entry_def c)
  then show ?thesis using c by (simp add: thread_exit_def schedule_def requeue_current_def switch_to_next_def nth_upd)
qed

section \<open>Creating and joining threads\<close>

lemma thread_find_SomeD:
  "thread_find p k i ts = Some j \<Longrightarrow> i \<le> j \<and> j < i + k \<and> p (ts ! j) \<and> (\<forall>m. i \<le> m \<and> m < j \<longrightarrow> \<not> p (ts ! m))"
proof (induction p k i ts rule: thread_find.induct)
  case (2 p k i ts)
  then show ?case by (auto split: if_splits) (metis Suc_leI le_neq_implies_less)
qed simp

lemma thread_find_None: "thread_find p k i ts = None \<longleftrightarrow> (\<forall>j. i \<le> j \<and> j < i + k \<longrightarrow> \<not> p (ts ! j))"
proof (induction p k i ts rule: thread_find.induct)
  case (2 p k i ts)
  then show ?case by (auto simp: less_Suc_eq_le) (metis Suc_leI le_neq_implies_less)
qed auto

lemma thread_create_full:
  assumes "\<forall>i < THREAD_MAX. tid (tcb st ! i) \<noteq> 0"
  shows "thread_create p a u st = (st, Return (err ENOSYS))"
  using assms thread_find_None [of "\<lambda>t. tid t = 0" THREAD_MAX 0 "tcb st"] by (simp add: thread_create_def thread_alloc_def)

definition new_thread :: "nat \<Rightarrow> u32 \<Rightarrow> u32 \<Rightarrow> nat \<Rightarrow> ('h, 'a) kstate_scheme \<Rightarrow> thread" where
  "new_thread p a u i st = (tcb st ! i)\<lparr>t_process := Some p, thread_stack := stack_of st i,
     process_stack := u, start_addr := a, runstate := RS_NEW, tid := next_tid st\<rparr>"

lemma tids_ok_new:
  assumes t: "tids_ok st" and i: "i < THREAD_MAX" and tcb': "tcb st' = (tcb st)[i := new_thread p a u i st]"
    and "next_tid st' = next_tid st + 1" "kstacks st' = kstacks st" and ids: "next_tid st < INT_MAX"
  shows "tids_ok st'"
proof -
  have l: "i < length (tcb st)" and lt: "\<And>j. j < THREAD_MAX \<Longrightarrow> tid (tcb st ! j) < next_tid st"
    using t i by (auto simp: tids_ok_def)
  have new: "tid (new_thread p a u i st) = next_tid st" "thread_stack (new_thread p a u i st) = stack_of st i"
      "t_process (new_thread p a u i st) = Some p"
    by (simp_all add: new_thread_def)
  have nth: "tcb st' ! j = (if j = i then new_thread p a u i st else tcb st ! j)" for j using l tcb' by (simp add: nth_upd)
  have s: "stack_of st' = stack_of st" using assms(5) by (simp add: stack_of_def fun_eq_iff)
  have "0 \<le> tid (tcb st' ! j) \<and> tid (tcb st' ! j) < next_tid st' \<and> (tid (tcb st' ! j) \<noteq> 0 \<longrightarrow> thread_stack (tcb st' ! j) = stack_of st' j \<and> t_process (tcb st' ! j) \<noteq> None)"
    if "j < THREAD_MAX" for j
    using t that assms(4) new lt [OF that] by (auto simp: tids_ok_def nth s)
  moreover have "j = m" if "j < THREAD_MAX" "m < THREAD_MAX" "tid (tcb st' ! j) = tid (tcb st' ! m)" "tid (tcb st' ! j) \<noteq> 0" for j m
    using t that new lt [OF that(1)] lt [OF that(2)] by (auto simp: tids_ok_def nth split: if_splits)
  ultimately show ?thesis using t tcb' assms(4) ids by (simp add: tids_ok_def)
qed

lemma thread_create_steps:
  assumes "thread_alloc st = Some i" "queue_ok0 (ready_queue st) q" "i \<notin> set q" "i < length (tcb st)"
    and ids: "next_tid st < INT_MAX"
  shows "\<exists>h h'. thread_create p a u st = (st\<lparr>tcb := (tcb st)[i := new_thread p a u i st], next_tid := next_tid st + 1,
      proc_threads := h, ready_queue := h'\<rparr>, Return (next_tid st)) \<and> queue_ok h' (q @ [i]) \<and>
      list_add (proc_threads st) (TProc i) (PThreads p) = Some h"
proof -
  let ?s = "st\<lparr>tcb := (tcb st)[i := new_thread p a u i st], next_tid := next_tid st + 1\<rparr>"
  obtain h where h: "list_add (proc_threads st) (TProc i) (PThreads p) = Some h" using list_add_total [of "proc_threads st" "TProc i" "PThreads p"] by auto
  have q: "queue_ok0 (ready_queue (?s\<lparr>proc_threads := h\<rparr>)) q" using assms(2) by simp
  obtain h' where "sched_add i (?s\<lparr>proc_threads := h\<rparr>) = Some (?s\<lparr>proc_threads := h, ready_queue := h'\<rparr>)" "queue_ok h' (q @ [i])"
    using sched_add_queue [OF q assms(3)] by auto
  moreover have "(upd_thread i (\<lambda>t. t\<lparr>t_process := Some p, thread_stack := kstacks st + of_nat i * KSTACKSZ + KSTACKSZ,
                process_stack := u, start_addr := a, runstate := RS_NEW, tid := next_tid st\<rparr>) st)\<lparr>next_tid := next_tid st + 1\<rparr> = ?s"
    by (simp add: upd_thread_def new_thread_def stack_of_def)
  ultimately show ?thesis using assms(1,4) h ids
    by (simp add: thread_create_def Let_def nth_upd) (simp add: new_thread_def, blast)
qed

lemma thread_create_ring:
  assumes r: "sched_ring st r" and free: "\<exists>i < THREAD_MAX. tid (tcb st ! i) = 0" and ids: "next_tid st < INT_MAX"
  shows "\<exists>i st'. thread_create p a u st = (st', Return (next_tid st)) \<and> sched_ring st' (r @ [i]) \<and>
    i < THREAD_MAX \<and> tid (tcb st ! i) = 0 \<and> tcb st' = (tcb st)[i := new_thread p a u i st]"
proof -
  obtain i where al: "thread_alloc st = Some i"
    using free thread_find_None [of "\<lambda>t. tid t = 0" THREAD_MAX 0 "tcb st"] by (fastforce simp: thread_alloc_def)
  from thread_find_SomeD [OF this [unfolded thread_alloc_def]] have i: "i < THREAD_MAX" "tid (tcb st ! i) = 0" by auto
  have il: "i < length (tcb st)" and ir: "i \<notin> set r" using r i by (auto simp: sched_ring_def tids_ok_def live_def)
  obtain c q where cq: "r = c # q" using r by (cases r) (auto simp: sched_ring_def)
  from thread_create_steps [OF al, of q p a u] r ir il ids obtain h h' where
    s: "thread_create p a u st = (st\<lparr>tcb := (tcb st)[i := new_thread p a u i st], next_tid := next_tid st + 1,
      proc_threads := h, ready_queue := h'\<rparr>, Return (next_tid st))" (is "_ = (?s, _)") and q: "queue_ok h' (q @ [i])"
    by (auto simp: cq sched_ring_def queue_ok0)
  have "tids_ok ?s" by (rule tids_ok_new [where st = st]) (use r i ids in \<open>simp_all add: sched_ring_def\<close>)
  moreover have "live (tcb ?s ! j) \<longleftrightarrow> j = i \<or> live (tcb st ! j)" for j
    using il r by (auto simp: nth_upd new_thread_def live_def sched_ring_def tids_ok_def)
  moreover have "resumable (tcb ?s ! j)" if "j \<in> set (q @ [i])" for j
    using that il r by (auto simp: nth_upd new_thread_def sched_ring_def cq) (auto simp: resumable_def)
  ultimately have "sched_ring ?s (r @ [i])"
    using r ir i il q by (auto simp: sched_ring_def cq nth_upd stack_of_def)
  with s i show ?thesis by auto
qed

lemma thread_create_overflow:
  assumes "\<exists>i < THREAD_MAX. tid (tcb st ! i) = 0" "INT_MAX \<le> next_tid st"
  shows "thread_create p a u st = (st, Undefined_behaviour)"
proof -
  obtain i where "thread_alloc st = Some i"
    using assms(1) thread_find_None [of "\<lambda>t. tid t = 0" THREAD_MAX 0 "tcb st"] by (fastforce simp: thread_alloc_def)
  then show ?thesis using assms(2) by (simp add: thread_create_def)
qed

text \<open>Freeing an exited thread: its table slot and its list nodes are cleared, the ring stays.\<close>

lemma thread_close_ring:
  assumes r: "sched_ring st r" and i: "i < THREAD_MAX" "runstate (tcb st ! i) = RS_EXITED"
  shows "sched_ring (thread_close i st) r"
proof -
  have il: "i < length (tcb st)" and ir: "i \<notin> set r" using r i by (auto simp: sched_ring_def tids_ok_def live_def)
  obtain c q where cq: "r = c # q" using r by (cases r) (auto simp: sched_ring_def)
  let ?s = "thread_close i st"
  have nth: "tcb ?s ! j = (if j = i then thread0 else tcb st ! j)" for j using il by (simp add: thread_close_def nth_upd)
  have t0: "tid thread0 = 0" "\<not> live thread0" by (simp_all add: thread0_def live_def)
  have s: "stack_of ?s = stack_of st" "next_tid ?s = next_tid st" "length (tcb ?s) = length (tcb st)"
    by (simp_all add: stack_of_def fun_eq_iff thread_close_def)
  have "tids_ok ?s" using r by (auto simp: tids_ok_def nth t0 s sched_ring_def)
  moreover have "live (tcb ?s ! j) = live (tcb st ! j)" for j using i t0 by (auto simp: nth live_def)
  moreover have "queue_ok (ready_queue ?s) q"
    using queue_ok_clear [of "ready_queue st" q i] r ir by (auto simp: thread_close_def sched_ring_def cq)
  moreover have "tcb ?s ! j = tcb st ! j" if "j \<in> set r" for j using that ir by (auto simp: nth)
  moreover have "current_thread ?s = current_thread st" "current_process ?s = current_process st" "tss_esp0 ?s = tss_esp0 st"
    by (simp_all add: thread_close_def)
  ultimately show ?thesis using r by (simp add: sched_ring_def cq s)
qed

lemma thread_find_tid:
  assumes "tids_ok st" "i < THREAD_MAX" "tid (tcb st ! i) = t" "t \<noteq> 0"
  shows "thread_find (\<lambda>th. tid th = t) THREAD_MAX 0 (tcb st) = Some i"
proof -
  obtain j where j: "thread_find (\<lambda>th. tid th = t) THREAD_MAX 0 (tcb st) = Some j"
    using thread_find_None [of "\<lambda>th. tid th = t" THREAD_MAX 0 "tcb st"] assms(2,3) by fastforce
  with thread_find_SomeD [OF j] assms show ?thesis by (auto simp: tids_ok_def)
qed

lemma join_loop_exited:
  "runstate (tcb st ! i) = RS_EXITED \<Longrightarrow> join_loop i st = Some (thread_close i st, Return (exit_status (tcb st ! i)))"
  by (simp add: join_loop.simps)

lemma entry_not_Return [simp]: "entry t \<noteq> Return v"
  by (auto simp: entry_def cpu_user_start_def split: option.splits)

lemma join_loop_waits:
  assumes "sched_ring st (c # q)" "runstate (tcb st ! i) \<noteq> RS_EXITED" "i < THREAD_MAX"
  shows "\<exists>st'. join_loop i st = Some (st', entry (next_thread (After_join i) (c # q) st)) \<and> sched_ring st' (q @ [c])"
proof -
  obtain st' where "thread_yield (After_join i) st = Some (st', entry (next_thread (After_join i) (c # q) st))" "sched_ring st' (q @ [c])"
    using thread_yield_ring [OF assms(1), of "After_join i"] assms(3) by auto
  with assms(2) show ?thesis by (subst join_loop.simps) (auto split: control.split)
qed

section \<open>Round robin\<close>

text \<open>
  The contract of a preemptive round robin: a tick moves the running element to the end. What follows
  for any number of ticks is proved once for every scheduler that meets the contract.
\<close>

locale round_robin =
  fixes repr :: "'s \<Rightarrow> 'a list \<Rightarrow> bool"
    and tick :: "'s \<Rightarrow> 's option"
  assumes repr_nonempty: "repr s xs \<Longrightarrow> xs \<noteq> []"
    and tick_rotates: "repr s (x # xs) \<Longrightarrow> \<exists>s'. tick s = Some s' \<and> repr s' (xs @ [x])"
begin

lemma ticks_rotate: "repr s xs \<Longrightarrow> \<exists>s'. iter_opt n tick s = Some s' \<and> repr s' (rotate n xs)"
proof (induction n arbitrary: s xs)
  case (Suc n)
  obtain x ys where xs: "xs = x # ys" using repr_nonempty [OF Suc.prems] by (cases xs) auto
  obtain s1 where "tick s = Some s1" "repr s1 (ys @ [x])" using tick_rotates Suc.prems xs by blast
  with Suc.IH [of s1 "ys @ [x]"] show ?case by (simp add: xs rotate_Suc rotate1_rotate_swap)
qed simp

lemma turn_comes:
  assumes "repr s xs" "i < length xs"
  shows "\<exists>s' ys. iter_opt i tick s = Some s' \<and> repr s' ys \<and> hd ys = xs ! i"
  using ticks_rotate [OF assms(1), of i] assms(2) by (metis hd_rotate_conv_nth list.size(3) mod_less not_less_zero)

lemma full_round:
  assumes "repr s xs"
  shows "\<exists>s'. iter_opt (length xs) tick s = Some s' \<and> repr s' xs"
  using ticks_rotate [OF assms, of "length xs"] by simp

end

definition preempt_tick :: "('h, 'a) kstate_scheme \<Rightarrow> ('h, 'a) kstate_scheme option" where
  "preempt_tick st = map_option fst (thread_preempt st)"

interpretation timer: round_robin sched_ring preempt_tick
proof unfold_locales
  show "sched_ring s xs \<Longrightarrow> xs \<noteq> []" for s :: "('a, 'b) kstate_scheme" and xs by (simp add: sched_ring_def)
  show "sched_ring s (x # xs) \<Longrightarrow> \<exists>s'. preempt_tick s = Some s' \<and> sched_ring s' (xs @ [x])"
    for s :: "('a, 'b) kstate_scheme" and x xs
    using thread_preempt_ring [of s x xs] by (auto simp: preempt_tick_def)
qed

section \<open>Properties\<close>

text \<open>
  Property C5. Yielding and preemption are a round robin over the live threads. When the live threads
  are \<open>c\<close>, which runs, and then \<open>q\<close> in the ready queue, a yield or a timer preemption puts \<open>c\<close> at the end and
  switches to the next thread: the code starts it in user mode when it is new and restores it where it was
  saved otherwise; with no other thread, \<open>c\<close> itself goes on. After the switch the same invariant holds:
  exactly the live threads are in the ring, and the task state segment has the kernel stack of the thread
  that runs.
\<close>

theorem thread_yield_preempt_rotate:
  assumes "sched_ring st (c # q)"
  shows "(\<exists>st'. thread_yield After_yield st = Some (st', entry (next_thread After_yield (c # q) st)) \<and> sched_ring st' (q @ [c])) \<and>
    (\<exists>st'. thread_preempt st = Some (st', entry (next_thread After_preempt (c # q) st)) \<and> sched_ring st' (q @ [c]))"
  using thread_yield_ring [OF assms, of After_yield] thread_preempt_ring [OF assms] by simp

definition kst :: "thread list \<Rightarrow> qnode lheap \<Rightarrow> uart8250 kstate" where
  "kst ts h = ttystate.extend boot_st (kstate.fields [] pm0 0 0 0x10 0x101000 (replicate PROCESS_MAX process0) 2 (Some 0)
    (ts @ replicate (THREAD_MAX - length ts) thread0) (int (length ts) + 1) (Some 0) 0x100000 h
    \<lparr>lh_next = (\<lambda>_. None), lh_prev = (\<lambda>_. None)\<rparr> (replicate 16 0))"

definition ready_thread :: "nat \<Rightarrow> thread" where
  "ready_thread i = thread0\<lparr>tid := int i + 1, t_process := Some 0, thread_stack := 0x100000 + of_nat i * KSTACKSZ + KSTACKSZ,
    runstate := RS_READY, saved_state := Some After_yield\<rparr>"

definition two_queue :: "qnode lheap" where
  "two_queue = \<lparr>lh_next = (\<lambda>_. None)(ReadyQ := Some (TQueue 1), TQueue 1 := Some ReadyQ),
                lh_prev = (\<lambda>_. None)(ReadyQ := Some (TQueue 1), TQueue 1 := Some ReadyQ)\<rparr>"

definition two_threads :: "uart8250 kstate" where "two_threads = kst [ready_thread 0, ready_thread 1] two_queue"

lemma kst_simps:
  "tcb (kst ts h) = ts @ replicate (THREAD_MAX - length ts) thread0" "next_tid (kst ts h) = int (length ts) + 1"
  "current_thread (kst ts h) = Some 0" "current_process (kst ts h) = Some 0" "ready_queue (kst ts h) = h"
  "tss_esp0 (kst ts h) = 0x101000" "kstacks (kst ts h) = 0x100000"
  by (simp_all add: kst_def ttystate.extend_def kstate.fields_def boot_st_def)

lemma two_nth: "i < 16 \<Longrightarrow> tcb two_threads ! i = (if i = 0 then ready_thread 0 else if i = 1 then ready_thread 1 else thread0)"
  by (auto simp: two_threads_def kst_simps THREAD_MAX_def nth_append nth_Cons' split: if_splits)

lemma two_threads_ring: "sched_ring two_threads [0, 1]"
proof -
  have f: "next_tid two_threads = 3" "kstacks two_threads = 0x100000" "length (tcb two_threads) = 16"
    by (simp_all add: two_threads_def kst_simps THREAD_MAX_def)
  have t: "tid (ready_thread i) = int i + 1" "live (ready_thread i)" "tid thread0 = 0" "\<not> live thread0" for i
    by (simp_all add: ready_thread_def thread0_def live_def)
  have "0 \<le> tid (tcb two_threads ! i) \<and> tid (tcb two_threads ! i) < next_tid two_threads \<and>
      (tid (tcb two_threads ! i) \<noteq> 0 \<longrightarrow> thread_stack (tcb two_threads ! i) = stack_of two_threads i \<and>
        t_process (tcb two_threads ! i) \<noteq> None)" if "i < 16" for i
    by (simp add: two_nth [OF that] f stack_of_def t) (simp add: ready_thread_def KSTACKSZ_def)
  moreover have "i = j" if "i < 16" "j < 16" "tid (tcb two_threads ! i) = tid (tcb two_threads ! j)" "tid (tcb two_threads ! i) \<noteq> 0" for i j
    using that(3,4) by (simp add: two_nth that(1,2) t split: if_splits)
  ultimately have "tids_ok two_threads" by (simp add: tids_ok_def f THREAD_MAX_def INT_MAX_def)
  moreover have "set [0, 1] = {i. i < THREAD_MAX \<and> live (tcb two_threads ! i)}"
    by (auto simp: THREAD_MAX_def two_nth t split: if_splits)
  moreover have "queue_ok (ready_queue two_threads) [1]"
    by (simp add: two_threads_def kst_simps queue_ok_def clist_def two_queue_def)
  ultimately show ?thesis
    by (simp add: sched_ring_def two_nth) (simp add: two_threads_def kst_simps stack_of_def KSTACKSZ_def ready_thread_def resumable_def)
qed

theorem thread_yield_preempt_rotate_witness:
  "\<exists>st' :: uart8250 kstate. thread_yield After_yield two_threads = Some (st', Task_restore After_yield) \<and> sched_ring st' [1, 0]"
proof -
  have "entry (next_thread After_yield [0, 1] two_threads) = Task_restore After_yield"
    by (simp add: next_thread_def two_nth) (simp add: ready_thread_def entry_def)
  with thread_yield_preempt_rotate [OF two_threads_ring] show ?thesis by auto
qed

text \<open>
  Property C13. Preemption is fair: \<open>n\<close> timer ticks rotate the ring of live threads \<open>n\<close> times, so every live thread
  runs after as many ticks as there are threads before it, whatever the others do with their time slices, and a full
  round comes back to the thread it started with. No tick fails or loops.
\<close>

theorem preempt_fair:
  assumes "sched_ring st r"
  shows "(\<exists>st'. iter_opt n preempt_tick st = Some st' \<and> sched_ring st' (rotate n r)) \<and>
    (\<forall>i < length r. \<exists>st'. iter_opt i preempt_tick st = Some st' \<and> current_thread st' = Some (r ! i))"
proof -
  have "\<exists>st'. iter_opt i preempt_tick st = Some st' \<and> current_thread st' = Some (r ! i)" if "i < length r" for i
    using timer.turn_comes [OF assms that] by (auto simp: sched_ring_def)
  then show ?thesis using timer.ticks_rotate [OF assms] by blast
qed

theorem preempt_fair_witness:
  "\<exists>st' :: uart8250 kstate. iter_opt 3 preempt_tick two_threads = Some st' \<and> sched_ring st' [1, 0]"
  using preempt_fair [OF two_threads_ring, of 3] by (simp add: numeral_3_eq_3)

text \<open>
  Property C24. \<open>thread_exit\<close> of one of several threads keeps its status for a join, takes it out of the ring
  and switches to the next thread. The exit of the last live thread is different: the ready queue is then an
  initialised empty list, whose first entry \<open>choose_next_thread\<close> takes for a thread although it is the list
  head; the check for an empty queue only looks for NULL, and what follows is undefined.
\<close>

theorem thread_exit_switches:
  assumes "sched_ring st (c # q)"
  shows "(q \<noteq> [] \<longrightarrow> (\<exists>st'. thread_exit status st = Some (st', entry (tcb st ! hd q)) \<and> sched_ring st' q \<and>
      runstate (tcb st' ! c) = RS_EXITED \<and> exit_status (tcb st' ! c) = status)) \<and>
    (q = [] \<longrightarrow> (\<exists>st'. thread_exit status st = Some (st', Undefined_behaviour)))"
proof (cases q)
  case (Cons n q')
  with thread_exit_ring [of st c n q'] assms show ?thesis by fastforce
qed (use thread_exit_last assms in auto)

theorem thread_exit_switches_witness:
  "\<exists>st' :: uart8250 kstate. thread_exit 7 two_threads = Some (st', Task_restore After_yield) \<and> sched_ring st' [1] \<and>
    exit_status (tcb st' ! 0) = 7"
proof -
  have "entry (tcb two_threads ! 1) = Task_restore After_yield"
    by (simp add: two_nth) (simp add: ready_thread_def entry_def)
  with thread_exit_switches [OF two_threads_ring, of 7] show ?thesis by auto
qed

text \<open>
  Property C11. \<open>thread_create\<close> takes a free slot of the thread table, gives the new thread a thread id that
  no thread in the table has, its own kernel stack, the start address and the user stack, and puts it at the end
  of the ring; no other thread changes. When the table is full it returns \<open>-ENOSYS\<close> and changes nothing. The ids
  are taken in order from the 32-bit counter \<open>next_tid\<close>: the creation is fresh as long as the counter has not reached
  \<open>INT_MAX\<close>, and at \<open>INT_MAX\<close> its increment overflows, which is undefined.
\<close>

theorem thread_create_fresh:
  assumes "sched_ring st r"
  shows "((\<forall>i < THREAD_MAX. tid (tcb st ! i) \<noteq> 0) \<longrightarrow> thread_create p a u st = (st, Return (err ENOSYS))) \<and>
    ((\<exists>i < THREAD_MAX. tid (tcb st ! i) = 0) \<and> next_tid st = INT_MAX \<longrightarrow> thread_create p a u st = (st, Undefined_behaviour)) \<and>
    ((\<exists>i < THREAD_MAX. tid (tcb st ! i) = 0) \<and> next_tid st \<noteq> INT_MAX \<longrightarrow>
      (\<exists>i st'. thread_create p a u st = (st', Return (next_tid st)) \<and> 0 < next_tid st \<and> next_tid st < INT_MAX \<and>
        sched_ring st' (r @ [i]) \<and> i < THREAD_MAX \<and> tid (tcb st ! i) = 0 \<and> tcb st' = (tcb st)[i := new_thread p a u i st] \<and> next_tid st \<notin> tid ` set (tcb st)))"
proof -
  have "next_tid st \<notin> tid ` set (tcb st)" using assms by (fastforce simp: sched_ring_def tids_ok_def in_set_conv_nth)
  moreover have "0 < next_tid st" "next_tid st \<noteq> INT_MAX \<longrightarrow> next_tid st < INT_MAX" using assms by (simp_all add: sched_ring_def tids_ok_def)
  ultimately show ?thesis
    using thread_create_full [of st p a u] thread_create_overflow [of st p a u] thread_create_ring [OF assms, of p a u] by simp
qed

theorem thread_create_fresh_witness:
  "\<exists>i (st' :: uart8250 kstate). thread_create 0 0x400000 0x500000 two_threads = (st', Return 3) \<and> sched_ring st' [0, 1, i]"
proof -
  have "\<exists>i < THREAD_MAX. tid (tcb two_threads ! i) = 0" by (rule exI [of _ 2]) (simp add: two_nth THREAD_MAX_def thread0_def)
  moreover have "next_tid two_threads = 3" "next_tid two_threads \<noteq> INT_MAX" by (simp_all add: two_threads_def kst_simps INT_MAX_def)
  ultimately show ?thesis using thread_create_fresh [OF two_threads_ring, of 0 "0x400000" "0x500000"] by fastforce
qed

text \<open>
  Property C12. For a thread id other than 0 (0 marks the free slots of the table, and \<open>thread_join(0)\<close> matches one
  of them), \<open>thread_join\<close> of an id that no thread has returns \<open>-ESRCH\<close>. The join of a thread that has
  exited returns its exit status and frees its slot without touching the ring. The join of a thread that still lives
  lets the other threads run first: the caller goes to the end of the ring and looks again when its turn comes.
\<close>

theorem thread_join_correct:
  assumes r: "sched_ring st (c # q)" and t: "t \<noteq> 0"
  shows "((\<forall>i < THREAD_MAX. tid (tcb st ! i) \<noteq> t) \<longrightarrow> thread_join t st = Some (st, Return (err ESRCH))) \<and>
    (\<forall>i < THREAD_MAX. tid (tcb st ! i) = t \<and> runstate (tcb st ! i) = RS_EXITED \<longrightarrow>
      (\<exists>st'. thread_join t st = Some (st', Return (exit_status (tcb st ! i))) \<and> sched_ring st' (c # q) \<and> tcb st' ! i = thread0)) \<and>
    (\<forall>i < THREAD_MAX. tid (tcb st ! i) = t \<and> runstate (tcb st ! i) \<noteq> RS_EXITED \<longrightarrow>
      (\<exists>st'. thread_join t st = Some (st', entry (next_thread (After_join i) (c # q) st)) \<and> sched_ring st' (q @ [c])))"
proof (intro conjI allI impI)
  assume "\<forall>i < THREAD_MAX. tid (tcb st ! i) \<noteq> t"
  then show "thread_join t st = Some (st, Return (err ESRCH))"
    using thread_find_None [of "\<lambda>th. tid th = t" THREAD_MAX 0 "tcb st"] by (simp add: thread_join_def)
next
  fix i assume i: "i < THREAD_MAX" "tid (tcb st ! i) = t \<and> runstate (tcb st ! i) = RS_EXITED"
  have f: "tids_ok st" "i < length (tcb st)" using r i by (auto simp: sched_ring_def tids_ok_def)
  have "tcb (thread_close i st) ! i = thread0" using f(2) by (simp add: thread_close_def)
  with thread_close_ring [OF r, of i] thread_find_tid [OF f(1), of i t] i t
  show "\<exists>st'. thread_join t st = Some (st', Return (exit_status (tcb st ! i))) \<and> sched_ring st' (c # q) \<and> tcb st' ! i = thread0"
    by (simp add: thread_join_def join_loop_exited)
next
  fix i assume i: "i < THREAD_MAX" "tid (tcb st ! i) = t \<and> runstate (tcb st ! i) \<noteq> RS_EXITED"
  have "tids_ok st" using r by (simp add: sched_ring_def)
  with thread_find_tid [of st i t] join_loop_waits [OF r, of i] i t
  show "\<exists>st'. thread_join t st = Some (st', entry (next_thread (After_join i) (c # q) st)) \<and> sched_ring st' (q @ [c])"
    by (simp add: thread_join_def)
qed

theorem thread_join_correct_witness:
  "thread_join 9 two_threads = Some (two_threads, Return (err ESRCH)) \<and>
   (\<exists>st' :: uart8250 kstate. thread_join 2 two_threads = Some (st', Task_restore After_yield) \<and> sched_ring st' [1, 0])"
proof -
  have n: "\<forall>i < THREAD_MAX. tid (tcb two_threads ! i) \<noteq> 9"
    by (simp add: THREAD_MAX_def two_nth) (simp add: ready_thread_def thread0_def)
  have "entry (next_thread (After_join 1) [0, 1] two_threads) = Task_restore After_yield"
    by (simp add: next_thread_def two_nth) (simp add: ready_thread_def entry_def)
  moreover have "1 < THREAD_MAX" "tid (tcb two_threads ! 1) = 2" "runstate (tcb two_threads ! 1) \<noteq> RS_EXITED"
    by (simp_all add: THREAD_MAX_def two_nth) (simp_all add: ready_thread_def)
  ultimately show ?thesis
    using thread_join_correct [OF two_threads_ring, of 9] thread_join_correct [OF two_threads_ring, of 2] n by fastforce
qed

end
