(* ===== verification/Process.thy ===== *)
theory Process
  imports Elf Threads
begin

text \<open>
  Processes (the process part of \<open>kernel/process.c\<close>) and the system calls (\<open>kernel/syscall_dispatch.c\<close>).
  Loading a program builds its address space, opens the executable and copies its segments; starting it puts
  the arguments on the user stack, creates the first thread and schedules. An operation that ends in
  \<open>kernel_noreturn\<close> gives the control \<^const>\<open>Dead_end\<close>. The start strategy is the constant
  \<open>PSTART_THREAD\<close> in the code, and only that branch is modelled.

  The bytes of the local ELF header structs before they are filled are parameters (\<open>oldh\<close> and, for the
  segment \<open>i\<close>, \<open>oldp i\<close>).
\<close>

definition USTACK_DFLT :: u32 where "USTACK_DFLT = 0x500000"
definition THREAD_STACK_SIZE :: u32 where "THREAD_STACK_SIZE = 0x1000"
definition THREAD_STACK_TOTAL :: u32 where "THREAD_STACK_TOTAL = of_nat THREAD_MAX * THREAD_STACK_SIZE"

definition upd_process :: "nat \<Rightarrow> (process \<Rightarrow> process) \<Rightarrow> ('h, 'a) kstate_scheme \<Rightarrow> ('h, 'a) kstate_scheme" where
  "upd_process i f st = st\<lparr>pcb := (pcb st)[i := f (pcb st ! i)]\<rparr>"

definition pm_set_root :: "u32 \<Rightarrow> ('h, 'a) kstate_scheme \<Rightarrow> ('h, 'a) kstate_scheme" where
  "pm_set_root root_pme st = st\<lparr>cr3 := root_pme\<rparr>"

fun process_find :: "nat \<Rightarrow> nat \<Rightarrow> process list \<Rightarrow> nat option" where
  "process_find 0 i ps = None"
| "process_find (Suc k) i ps = (if pid (ps ! i) = 0 then Some i else process_find k (Suc i) ps)"

definition process_alloc :: "('h, 'a) kstate_scheme \<Rightarrow> nat option" where
  "process_alloc st = process_find PROCESS_MAX 0 (pcb st)"

section \<open>Loading a program\<close>

text \<open>An operation on the address space of process \<open>p\<close>.\<close>

definition on_addrspc ::
    "nat \<Rightarrow> (pmstate \<Rightarrow> u32 \<Rightarrow> (pmstate \<times> u32 \<times> int) option) \<Rightarrow> ('h, 'a) kstate_scheme \<Rightarrow> (('h, 'a) kstate_scheme \<times> int) option" where
  "on_addrspc p f st =
    map_option (\<lambda>(pm', root, res). (upd_process p (\<lambda>q. q\<lparr>addrspc := root\<rparr>) (st\<lparr>pm := pm'\<rparr>), res)) (f (pm st) (addrspc (pcb st ! p)))"

text \<open>The label \<open>error\<close> of \<open>process_load_path\<close>.\<close>

definition load_error ::
    "('h, 'a) kstate_scheme drivers \<Rightarrow> nat \<Rightarrow> bool \<Rightarrow> int \<Rightarrow> ('h, 'a) kstate_scheme \<Rightarrow> (('h, 'a) kstate_scheme \<times> int) option" where
  "load_error D p file_isopen res st =
    map_option (\<lambda>(st, _). (if file_isopen then fst (file_close D (execfile (pcb st ! p)) st) else st, res))
      (on_addrspc p addrspc_cleanup st)"

fun load_segments ::
    "('h, 'a) kstate_scheme drivers \<Rightarrow> nat \<Rightarrow> (nat \<Rightarrow> string) \<Rightarrow> Elf32_Ehdr \<Rightarrow> nat \<Rightarrow> nat \<Rightarrow> ('h, 'a) kstate_scheme \<Rightarrow>
      (('h, 'a) kstate_scheme \<times> int) option" where
  "load_segments D p oldp ehdr 0 i st = Some (st, 0)"
| "load_segments D p oldp ehdr (Suc k) i st =
    Option.bind (elf_read_phdr32 D (execfile (pcb st ! p)) ehdr i (oldp i) st) (\<lambda>(phdr, f, st, res).
      let st = upd_process p (\<lambda>q. q\<lparr>execfile := f\<rparr>) st
      in if res < 0 then load_error D p True res st
         else if p_type phdr \<noteq> PT_LOAD then load_segments D p oldp ehdr k (Suc i) st
         else let vaddr = ALIGN_DOWN (p_vaddr phdr) PAGESZ;
                  paddr = vaddr;
                  sz = ALIGN_UP (p_vaddr phdr + p_memsz phdr) PAGESZ - vaddr;
                  flags = (if p_flags phdr AND PF_W \<noteq> 0 then PME_USER OR PME_W else PME_USER)
              in Option.bind (on_addrspc p (\<lambda>pm root. addrspc_map pm root vaddr paddr sz flags) st) (\<lambda>(st, res).
                   if res < 0 then load_error D p True res st
                   else Option.bind (elf_load_seg32 D (execfile (pcb st ! p)) phdr st) (\<lambda>(f, st, res).
                     let st = upd_process p (\<lambda>q. q\<lparr>execfile := f\<rparr>) st
                     in if res < 0 then load_error D p True res st
                        else load_segments D p oldp ehdr k (Suc i) st)))"

definition reset_process :: "nat \<Rightarrow> process \<Rightarrow> ('h, 'a) kstate_scheme \<Rightarrow> ('h, 'a) kstate_scheme" where
  "reset_process p q st = st\<lparr>pcb := (pcb st)[p := q], proc_threads := clear_node (proc_threads st) (PThreads p)\<rparr>"

text \<open>The name that \<open>path_basename\<close> leaves in the zeroed name buffer.\<close>

definition process_name :: "string \<Rightarrow> string" where
  "process_name path =
    (case path_basename (\<lambda>_. NUL) 1 DEBUGSTR_MAX (Some path) of
       Done (m, _) \<Rightarrow> takeWhile (\<lambda>c. c \<noteq> NUL) (mem_read m 1 DEBUGSTR_MAX)
     | _ \<Rightarrow> '''')"

definition process_load_path ::
    "('h, 'a) kstate_scheme drivers \<Rightarrow> string \<Rightarrow> (nat \<Rightarrow> string) \<Rightarrow> nat \<Rightarrow> string option \<Rightarrow> string \<Rightarrow> ('h, 'a) kstate_scheme \<Rightarrow>
      (('h, 'a) kstate_scheme \<times> int) option" where
  "process_load_path D oldh oldp p cwd path st =
    (let st = reset_process p (process0\<lparr>pid := next_pid st, p_name := process_name path, ustack := USTACK_DFLT,
                kstack := kstacks st + of_nat p * KSTACKSZ + KSTACKSZ\<rparr>) (st\<lparr>next_pid := int32 (next_pid st + 1)\<rparr>)
     in Option.bind (on_addrspc p addrspc_init st) (\<lambda>(st, res).
        if res < 0 then load_error D p False res st
        else let st = pm_set_root (addrspc (pcb st ! p)) st;
                 ustack_low = ustack (pcb st ! p) - THREAD_STACK_TOTAL
             in Option.bind (on_addrspc p (\<lambda>pm root. addrspc_map pm root ustack_low ustack_low THREAD_STACK_TOTAL (PME_USER OR PME_W)) st) (\<lambda>(st, res).
                if res < 0 then load_error D p False res st
                else Option.bind (file_open_path D (execfile (pcb st ! p)) cwd (Some path) st) (\<lambda>(f, st, res).
                  let st = upd_process p (\<lambda>q. q\<lparr>execfile := f\<rparr>) st
                  in if res < 0 then load_error D p False res st
                     else Option.bind (elf_read_ehdr32 D (execfile (pcb st ! p)) oldh st) (\<lambda>(ehdr, f, st, res).
                       let st = upd_process p (\<lambda>q. q\<lparr>execfile := f\<rparr>) st
                       in if res < 0 then load_error D p True res st
                          else load_segments D p oldp ehdr (unat (e_phnum ehdr)) 0
                                 (upd_process p (\<lambda>q. q\<lparr>p_start_addr := e_entry ehdr\<rparr>) st))))))"

definition process_close ::
    "('h, 'a) kstate_scheme drivers \<Rightarrow> nat \<Rightarrow> ('h, 'a) kstate_scheme \<Rightarrow> ('h, 'a) kstate_scheme option" where
  "process_close D p st =
    (let st = (if current_process st = Some p then st\<lparr>current_process := None\<rparr> else st);
         st = pm_set_root (kernel_addrspc st) st
     in map_option (\<lambda>(st, _). reset_process p process0 (fst (file_close D (execfile (pcb st ! p)) st)))
          (on_addrspc p addrspc_cleanup st))"

section \<open>Arguments on the user stack\<close>

definition push_str :: "mem \<times> u32 \<Rightarrow> string \<Rightarrow> (mem \<times> u32) \<times> u32" where
  "push_str ms str =
    (let slots = ALIGN_UP (of_nat (length str + 1)) 4 div (4 :: u32);
         sp = snd ms - slots * 4
     in ((mem_write (fst ms) (unat sp) (str @ [NUL]), sp), sp))"

definition PUSH :: "mem \<times> u32 \<Rightarrow> u32 \<Rightarrow> mem \<times> u32" where
  "PUSH ms val = (let sp = snd ms - 4 in (mem_write (fst ms) (unat sp) (le32 val), sp))"

fun push_strs :: "mem \<times> u32 \<Rightarrow> string list \<Rightarrow> (mem \<times> u32) \<times> u32 list" where
  "push_strs ms [] = (ms, [])"
| "push_strs ms (s # ss) =
    (let (ms, a) = push_str ms s; (ms, as) = push_strs ms ss in (ms, a # as))"

definition push_args :: "mem \<times> u32 \<Rightarrow> string list \<Rightarrow> mem \<times> u32" where
  "push_args ms argv =
    (let (ms, new_argv) = push_strs ms argv;
         ms = PUSH ms 0;
         ms = foldl PUSH ms (rev new_argv)
     in PUSH ms (of_nat (length argv)))"

section \<open>Running processes\<close>

definition process_start ::
    "nat \<Rightarrow> string list \<Rightarrow> ('h, 'a) kstate_scheme \<Rightarrow> (('h, 'a) kstate_scheme \<times> control) option" where
  "process_start p argv st =
    (let st = st\<lparr>current_process := Some p\<rparr>;
         (m, sp) = push_args (kmem st, ustack (pcb st ! p)) argv;
         st = upd_process p (\<lambda>q. q\<lparr>ustack := sp\<rparr>) (st\<lparr>kmem := m\<rparr>);
         (st, ctl) = thread_create p (p_start_addr (pcb st ! p)) (ustack (pcb st ! p)) st
     in case ctl of
          Return _ \<Rightarrow> map_option (apsnd (on_return (Return 0))) (schedule After_start st)
        | _ \<Rightarrow> Some (st, ctl))"

text \<open>\<open>process_kill\<close> and \<open>process_exit\<close>; a void function returns 0.\<close>

definition process_kill ::
    "('h, 'a) kstate_scheme drivers \<Rightarrow> nat option \<Rightarrow> ('h, 'a) kstate_scheme \<Rightarrow> (('h, 'a) kstate_scheme \<times> control) option" where
  "process_kill D p st =
    (case p of
       None \<Rightarrow> Some (st, Return 0)
     | Some p \<Rightarrow>
         map_option (\<lambda>st. if current_process st = Some p then (st, Dead_end) else (st, Return 0)) (process_close D p st))"

definition process_exit ::
    "('h, 'a) kstate_scheme drivers \<Rightarrow> int \<Rightarrow> ('h, 'a) kstate_scheme \<Rightarrow> (('h, 'a) kstate_scheme \<times> control) option" where
  "process_exit D status st =
    (case current_process st of
       None \<Rightarrow> Some (st, Undefined_behaviour)
     | Some p \<Rightarrow>
         map_option (\<lambda>st. case current_thread st of
             None \<Rightarrow> (st, Undefined_behaviour)
           | Some c \<Rightarrow> (upd_thread c (\<lambda>t. t\<lparr>runstate := RS_EXITED\<rparr>) st, Dead_end)) (process_close D p st))"

definition process_write ::
    "('h, 'a) kstate_scheme drivers \<Rightarrow> int \<Rightarrow> u32 \<Rightarrow> u32 \<Rightarrow> ('h, 'a) kstate_scheme \<Rightarrow> (('h, 'a) kstate_scheme \<times> control) option" where
  "process_write D fd src cnt st =
    (if fd < 0 \<or> fd \<ge> int FD_MAX then Some (st, Return (err EBADF))
     else case current_process st of
            None \<Rightarrow> Some (st, Return (err EBADF))
          | Some p \<Rightarrow>
              (case fds (pcb st ! p) ! nat fd of
                 None \<Rightarrow> Some (st, Return (err EBADF))
               | Some i \<Rightarrow>
                   map_option (\<lambda>(f, st, res). (st\<lparr>kfiles := (kfiles st)[i := f]\<rparr>, Return res))
                     (file_write_from D (kfiles st ! i) (kmem st) src (unat cnt) st)))"

section \<open>System calls\<close>

definition SYS_exit :: int where "SYS_exit = 1"
definition SYS_write :: int where "SYS_write = 2"
definition SYS_thrd_create :: int where "SYS_thrd_create = 3"
definition SYS_thrd_exit :: int where "SYS_thrd_exit = 4"
definition SYS_thrd_join :: int where "SYS_thrd_join = 5"
definition SYS_thrd_yield :: int where "SYS_thrd_yield = 6"

definition syscall_dispatch ::
    "('h, 'a) kstate_scheme drivers \<Rightarrow> int \<Rightarrow> u32 \<Rightarrow> u32 \<Rightarrow> u32 \<Rightarrow> ('h, 'a) kstate_scheme \<Rightarrow> (('h, 'a) kstate_scheme \<times> control) option" where
  "syscall_dispatch D number arg1 arg2 arg3 st =
    (if number = SYS_exit then process_exit D (sint arg1) st
     else if number = SYS_write then process_write D (sint arg1) arg2 arg3 st
     else if number = SYS_thrd_yield then thread_yield After_yield st
     else if number = SYS_thrd_create then
       (case current_process st of None \<Rightarrow> Some (st, Undefined_behaviour) | Some p \<Rightarrow> Some (thread_create p arg1 arg2 st))
     else if number = SYS_thrd_exit then thread_exit (sint arg1) st
     else if number = SYS_thrd_join then thread_join (sint arg1) st
     else case current_process st of
            None \<Rightarrow> Some (st, Undefined_behaviour)
          | Some p \<Rightarrow> Some (st, Return (err ENOSYS)))"

section \<open>The layout of the arguments\<close>

text \<open>The bytes a string takes on the stack.\<close>

definition str_room :: "string \<Rightarrow> nat" where
  "str_room s = (length s + 4) div 4 * 4"

lemma str_room_bounds: "length s < str_room s" "str_room s \<le> length s + 4"
  by (simp_all add: str_room_def)

definition unchanged :: "nat \<Rightarrow> nat \<Rightarrow> mem \<Rightarrow> mem \<Rightarrow> bool" where
  "unchanged lo hi m m' \<longleftrightarrow> (\<forall>a. a < lo \<or> hi \<le> a \<longrightarrow> m' a = m a)"

lemma unchanged_trans: "unchanged lo mid m1 m2 \<Longrightarrow> unchanged mid hi m m1 \<Longrightarrow> lo \<le> mid \<Longrightarrow> mid \<le> hi \<Longrightarrow> unchanged lo hi m m2"
  by (auto simp: unchanged_def)

lemma unchanged_refl [simp]: "unchanged lo hi m m"
  by (simp add: unchanged_def)

lemma unchanged_write: "lo \<le> a \<Longrightarrow> a + length bs \<le> hi \<Longrightarrow> unchanged lo hi m (mem_write m a bs)"
  by (auto simp: unchanged_def mem_write_def)

lemma unchanged_read: "unchanged lo hi m m' \<Longrightarrow> hi \<le> a \<Longrightarrow> mem_read m' a n = mem_read m a n"
  by (auto simp: unchanged_def mem_read_def)

lemma push_str_room:
  assumes "str_room s \<le> unat sp"
  shows "\<exists>m' sp'. push_str (m, sp) s = ((m', sp'), sp') \<and> unat sp' = unat sp - str_room s \<and>
    unchanged (unat sp') (unat sp) m m' \<and> mem_read m' (unat sp') (length s + 1) = s @ [NUL]"
proof -
  have "(length s + 4) div 4 < 2 ^ 30" using assms unat_u32_lt [of sp] by (simp add: str_room_def)
  then have lt: "length s + 4 < 2 ^ 32" by (simp add: div_less_iff_less_mult)
  let ?sl = "ALIGN_UP (of_nat (length s + 1)) 4 div (4 :: u32)"
  have "unat (of_nat (length s + 1) :: u32) = length s + 1" using lt by (intro unat_small) simp
  then have "unat (ALIGN_UP (of_nat (length s + 1)) (2 ^ 2)) = (length s + 1 + (2 ^ 2 - 1)) div 2 ^ 2 * 2 ^ 2"
    using lt unat_ALIGN_UP [of 2 "of_nat (length s + 1)"] by simp
  then have "unat (ALIGN_UP (of_nat (length s + 1)) 4 :: u32) = str_room s" by (simp add: str_room_def)
  then have "unat (?sl * 4) = str_room s"
    using unat_u32_lt [of "ALIGN_UP (of_nat (length s + 1)) 4"] by (simp add: unat_word_ariths unat_div str_room_def)
  moreover define sp' where "sp' = sp - ?sl * 4"
  ultimately have sp: "unat sp' = unat sp - str_room s" using assms by (simp add: unat_sub word_le_nat_alt)
  have "push_str (m, sp) s = ((mem_write m (unat sp') (s @ [NUL]), sp'), sp')" by (simp add: push_str_def sp'_def Let_def)
  moreover have "unchanged (unat sp') (unat sp) m (mem_write m (unat sp') (s @ [NUL]))"
    by (rule unchanged_write) (use sp assms str_room_bounds(1) [of s] in simp_all)
  ultimately show ?thesis using sp by (simp add: mem_read_write_same)
qed

definition args_room :: "string list \<Rightarrow> nat" where
  "args_room ss = sum_list (map str_room ss)"

text \<open>The strings \<open>ss\<close> are stored at the addresses \<open>as\<close>, all between \<open>lo\<close> and \<open>hi\<close>.\<close>

definition strs_at :: "nat \<Rightarrow> nat \<Rightarrow> mem \<Rightarrow> u32 list \<Rightarrow> string list \<Rightarrow> bool" where
  "strs_at lo hi m as ss \<longleftrightarrow> list_all2 (\<lambda>a s. lo \<le> unat a \<and> unat a + length s < hi \<and> mem_read m (unat a) (length s + 1) = s @ [NUL]) as ss"

lemma strs_at_unchanged: "strs_at lo hi m as ss \<Longrightarrow> unchanged l' lo m m' \<Longrightarrow> lo' \<le> lo \<Longrightarrow> hi \<le> hi' \<Longrightarrow> strs_at lo' hi' m' as ss"
  unfolding strs_at_def by (erule list_all2_mono) (auto simp: unchanged_read)

lemma push_strs_layout:
  "args_room ss \<le> unat sp \<Longrightarrow> \<exists>m' sp' as. push_strs (m, sp) ss = ((m', sp'), as) \<and> unat sp' = unat sp - args_room ss \<and>
    unchanged (unat sp') (unat sp) m m' \<and> strs_at (unat sp') (unat sp) m' as ss"
proof (induction ss arbitrary: m sp)
  case Nil
  then show ?case by (simp add: args_room_def strs_at_def)
next
  case (Cons s ss)
  have room: "str_room s \<le> unat sp" "args_room ss \<le> unat sp - str_room s" using Cons.prems by (simp_all add: args_room_def)
  obtain m1 sp1 where 1: "push_str (m, sp) s = ((m1, sp1), sp1)" "unat sp1 = unat sp - str_room s"
      "unchanged (unat sp1) (unat sp) m m1" "mem_read m1 (unat sp1) (length s + 1) = s @ [NUL]"
    using push_str_room [OF room(1)] by blast
  obtain m2 sp2 as where 2: "push_strs (m1, sp1) ss = ((m2, sp2), as)" "unat sp2 = unat sp1 - args_room ss"
      "unchanged (unat sp2) (unat sp1) m1 m2" "strs_at (unat sp2) (unat sp1) m2 as ss"
    using Cons.IH [of sp1 m1] room(2) 1(2) by auto
  have le: "unat sp2 \<le> unat sp1" "unat sp1 \<le> unat sp" using 1(2) 2(2) by simp_all
  have "strs_at (unat sp2) (unat sp) m2 as ss" using strs_at_unchanged [OF 2(4) unchanged_refl] le by simp
  moreover have "mem_read m2 (unat sp1) (length s + 1) = s @ [NUL]" using unchanged_read [OF 2(3)] 1(4) by simp
  moreover have "unat sp1 + length s < unat sp" using str_room_bounds(1) [of s] room(1) 1(2) by simp
  ultimately have "strs_at (unat sp2) (unat sp) m2 (sp1 # as) (s # ss)" using le(1) by (simp add: strs_at_def)
  moreover have "unchanged (unat sp2) (unat sp) m m2" using unchanged_trans [OF 2(3) 1(3)] le by simp
  ultimately show ?case using 1(1,2) 2(1,2) by (simp add: args_room_def)
qed

lemma length_le32 [simp]: "length (le32 v) = 4"
  by (simp add: le32_def)

lemma PUSH_word:
  assumes "4 \<le> unat sp"
  shows "\<exists>m' sp'. PUSH (m, sp) v = (m', sp') \<and> unat sp' = unat sp - 4 \<and> unchanged (unat sp') (unat sp) m m' \<and>
    mem_read m' (unat sp') 4 = le32 v"
proof -
  define sp' where "sp' = sp - 4"
  have sp: "unat sp' = unat sp - 4" using assms by (simp add: sp'_def unat_sub word_le_nat_alt)
  have "PUSH (m, sp) v = (mem_write m (unat sp') (le32 v), sp')" by (simp add: PUSH_def sp'_def Let_def)
  moreover have "unchanged (unat sp') (unat sp) m (mem_write m (unat sp') (le32 v))"
    by (rule unchanged_write) (use sp assms in simp_all)
  ultimately show ?thesis using sp by (simp add: mem_read_write_same)
qed

lemma push_words_layout:
  "4 * length ws \<le> unat sp \<Longrightarrow> \<exists>m' sp'. foldl PUSH (m, sp) ws = (m', sp') \<and> unat sp' = unat sp - 4 * length ws \<and>
    unchanged (unat sp') (unat sp) m m' \<and> mem_read m' (unat sp') (4 * length ws) = concat (map le32 (rev ws))"
proof (induction ws arbitrary: m sp)
  case Nil
  then show ?case by simp
next
  case (Cons w ws)
  obtain m1 sp1 where 1: "PUSH (m, sp) w = (m1, sp1)" "unat sp1 = unat sp - 4"
      "unchanged (unat sp1) (unat sp) m m1" "mem_read m1 (unat sp1) 4 = le32 w"
    using PUSH_word [of sp m w] Cons.prems by auto
  obtain m2 sp2 where 2: "foldl PUSH (m1, sp1) ws = (m2, sp2)" "unat sp2 = unat sp1 - 4 * length ws"
      "unchanged (unat sp2) (unat sp1) m1 m2" "mem_read m2 (unat sp2) (4 * length ws) = concat (map le32 (rev ws))"
    using Cons.IH [of sp1 m1] Cons.prems 1(2) by force
  have e: "unat sp2 + 4 * length ws = unat sp1" using 1(2) 2(2) Cons.prems by simp
  have "mem_read m2 (unat sp2) (4 * length ws + 4) = mem_read m2 (unat sp2) (4 * length ws) @ mem_read m2 (unat sp1) 4"
    unfolding e [symmetric] by (rule nth_equalityI) (auto simp: nth_append)
  then have "mem_read m2 (unat sp2) (4 * length (w # ws)) = concat (map le32 (rev (w # ws)))"
    using 2(4) unchanged_read [OF 2(3), of "unat sp1" 4] 1(4) by (simp add: add.commute)
  moreover have "unchanged (unat sp2) (unat sp) m m2" using unchanged_trans [OF 2(3) 1(3)] 1(2) 2(2) by simp
  ultimately show ?case using 1(1,2) 2(1,2) by simp
qed

lemma push_args_layout:
  assumes "args_room argv + 4 * (length argv + 2) \<le> unat sp"
  shows "\<exists>m' sp' as. push_args (m, sp) argv = (m', sp') \<and> unat sp' = unat sp - (args_room argv + 4 * (length argv + 2)) \<and>
    unchanged (unat sp') (unat sp) m m' \<and> length as = length argv \<and>
    mem_read m' (unat sp') (4 * (length argv + 2)) = concat (map le32 (of_nat (length argv) # as @ [0])) \<and>
    strs_at (unat sp' + 4 * (length argv + 2)) (unat sp) m' as argv"
proof -
  obtain m1 sp1 as where 1: "push_strs (m, sp) argv = ((m1, sp1), as)" "unat sp1 = unat sp - args_room argv"
      "unchanged (unat sp1) (unat sp) m m1" "strs_at (unat sp1) (unat sp) m1 as argv"
    using push_strs_layout [of argv sp m] assms by auto
  have len: "length as = length argv" using 1(4) by (simp add: strs_at_def list_all2_lengthD)
  let ?ws = "0 # rev as @ [of_nat (length argv)]"
  have "4 * length ?ws \<le> unat sp1" using 1(2) assms len by simp
  from push_words_layout [OF this, of m1] obtain m2 sp2 where 2: "foldl PUSH (m1, sp1) ?ws = (m2, sp2)"
      "unat sp2 = unat sp1 - 4 * length ?ws" "unchanged (unat sp2) (unat sp1) m1 m2"
      "mem_read m2 (unat sp2) (4 * length ?ws) = concat (map le32 (rev ?ws))" by blast
  have lw: "length ?ws = length argv + 2" using len by simp
  have e: "unat sp2 + 4 * (length argv + 2) = unat sp1" using 2(2) 1(2) assms unfolding lw by simp
  have "push_args (m, sp) argv = (m2, sp2)" using 1(1) 2(1) by (simp add: push_args_def)
  moreover have "strs_at (unat sp2 + 4 * (length argv + 2)) (unat sp) m2 as argv"
    unfolding e by (rule strs_at_unchanged [OF 1(4) 2(3)]) simp_all
  moreover have "unchanged (unat sp2) (unat sp) m m2" using unchanged_trans [OF 2(3) 1(3)] 1(2) 2(2) by simp
  moreover have "mem_read m2 (unat sp2) (4 * (length argv + 2)) = concat (map le32 (of_nat (length argv) # as @ [0]))"
    using 2(4) unfolding lw by simp
  moreover have "unat sp2 = unat sp - (args_room argv + 4 * (length argv + 2))" using e 1(2) assms by simp
  ultimately show ?thesis using len by blast
qed

section \<open>Starting the first thread\<close>

text \<open>No thread lives, as at boot or after the last process has exited.\<close>

definition sched_idle :: "('h, 'a) kstate_scheme \<Rightarrow> bool" where
  "sched_idle st \<longleftrightarrow> tids_ok st \<and> (\<forall>i < THREAD_MAX. \<not> live (tcb st ! i)) \<and> queue_ok0 (ready_queue st) [] \<and> next_tid st < INT_MAX \<and>
    (case current_thread st of None \<Rightarrow> True | Some c \<Rightarrow> c < THREAD_MAX \<and> runstate (tcb st ! c) = RS_EXITED \<and> tid (tcb st ! c) \<noteq> 0)"

text \<open>Scheduling leaves memory, page tables and the page map in use alone.\<close>

definition same_memory :: "('h, 'a) kstate_scheme \<Rightarrow> ('h, 'a) kstate_scheme \<Rightarrow> bool" where
  "same_memory st st' \<longleftrightarrow> kmem st' = kmem st \<and> pm st' = pm st \<and> cr3 st' = cr3 st"

lemma switched_simps [simp]:
  "same_memory s (switched n h st) = same_memory s st" "same_memory st st" "same_memory s (upd_thread c f st) = same_memory s st" "current_process (switched n h st) = t_process (tcb st ! n)"
  by (simp_all add: switched_def cpu_user_kstack_set_def upd_thread_def same_memory_def)

lemma kmem_upd_thread [simp]: "kmem (upd_thread i f st) = kmem st"
  by (simp add: upd_thread_def)

text \<open>With one thread that has not run yet, \<open>schedule\<close> starts it.\<close>

lemma schedule_first:
  assumes t: "tids_ok st" and i: "i < THREAD_MAX" "\<And>j. j < THREAD_MAX \<Longrightarrow> live (tcb st ! j) \<longleftrightarrow> j = i" "runstate (tcb st ! i) = RS_NEW"
    and q: "queue_ok (ready_queue st) [i]"
    and c: "case current_thread st of None \<Rightarrow> True | Some c \<Rightarrow> c < THREAD_MAX \<and> runstate (tcb st ! c) = RS_EXITED"
  shows "\<exists>st'. schedule After_start st = Some (st', entry (tcb st ! i)) \<and> sched_ring st' [i] \<and> same_memory st st' \<and>
    current_process st' = t_process (tcb st ! i)"
proof (cases "current_thread st")
  case None
  have il: "i < length (tcb st)" using t i(1) by (simp add: tids_ok_def)
  obtain h where h: "switch_to_next After_start st = Some (thread_switch After_start None (Some i) (st\<lparr>ready_queue := h\<rparr>))" "queue_ok h []"
    using switch_to_next_runnable [OF q, of After_start] i(3) None by auto
  moreover have "thread_switch After_start None (Some i) (st\<lparr>ready_queue := h\<rparr>) = (switched i h st, entry (tcb st ! i))"
    by (rule thread_switch_entry) (use i(3) il in simp_all)
  moreover have "sched_ring (switched i h st) [i]"
    by (rule switched_ring [OF t]) (use i h(2) in auto)
  ultimately show ?thesis using None by (simp add: schedule_def requeue_current_def)
next
  case (Some c)
  then have cx: "c < THREAD_MAX" "runstate (tcb st ! c) = RS_EXITED" using c by simp_all
  then have ci: "c \<noteq> i" using i(3) by auto
  have "\<exists>st'. switch_to_next After_start st =
      Some (st', entry (if i = c then (tcb st ! c)\<lparr>saved_state := Some After_start\<rparr> else tcb st ! i)) \<and> sched_ring st' [i] \<and>
    (\<exists>h. st' = switched i h (upd_thread c (\<lambda>t. t\<lparr>saved_state := Some After_start\<rparr>) st))"
    by (rule switch_to_next_ring [OF t _ _ Some cx(1)]) (use i q ci in \<open>auto simp: resumable_def\<close>)
  then obtain st' h where s: "switch_to_next After_start st = Some (st', entry (tcb st ! i))" "sched_ring st' [i]"
      "st' = switched i h (upd_thread c (\<lambda>t. t\<lparr>saved_state := Some After_start\<rparr>) st)"
    using ci by auto
  moreover have "c < length (tcb st)" using t cx by (simp add: tids_ok_def)
  then have "same_memory st st'" "current_process st' = t_process (tcb st ! i)" unfolding s(3) using ci by (simp_all add: nth_upd)
  ultimately show ?thesis using Some cx by (simp add: schedule_def requeue_current_def)
qed

lemma upd_process_simps [simp]:
  "tcb (upd_process p f st) = tcb st" "next_tid (upd_process p f st) = next_tid st" "kstacks (upd_process p f st) = kstacks st"
  "current_thread (upd_process p f st) = current_thread st" "ready_queue (upd_process p f st) = ready_queue st"
  "kmem (upd_process p f st) = kmem st" "pcb (upd_process p f st) = (pcb st)[p := f (pcb st ! p)]"
  by (simp_all add: upd_process_def)

lemma sched_idle_cong:
  "sched_idle st \<Longrightarrow> tcb st' = tcb st \<Longrightarrow> next_tid st' = next_tid st \<Longrightarrow> kstacks st' = kstacks st \<Longrightarrow>
   current_thread st' = current_thread st \<Longrightarrow> ready_queue st' = ready_queue st \<Longrightarrow> sched_idle st'"
  by (simp add: sched_idle_def tids_ok_def stack_of_def split: option.splits)

lemma create_and_schedule:
  assumes idle: "sched_idle st" and free: "\<exists>i < THREAD_MAX. tid (tcb st ! i) = 0"
  shows "\<exists>i st1 st'. thread_create p a u st = (st1, Return (next_tid st)) \<and>
    schedule After_start st1 = Some (st', cpu_user_start a u) \<and> sched_ring st' [i] \<and> same_memory st st' \<and> current_process st' = Some p"
proof -
  obtain i where al: "thread_alloc st = Some i"
    using free thread_find_None [of "\<lambda>t. tid t = 0" THREAD_MAX 0 "tcb st"] by (fastforce simp: thread_alloc_def)
  from thread_find_SomeD [OF this [unfolded thread_alloc_def]] have i: "i < THREAD_MAX" "tid (tcb st ! i) = 0" by auto
  have t: "tids_ok st" and q0: "queue_ok0 (ready_queue st) []" and nl: "\<And>j. j < THREAD_MAX \<Longrightarrow> \<not> live (tcb st ! j)"
    using idle by (auto simp: sched_idle_def)
  have il: "i < length (tcb st)" using t i by (simp add: tids_ok_def)
  have ids: "next_tid st < INT_MAX" using idle by (simp add: sched_idle_def)
  from thread_create_steps [OF al q0 _ il ids, of p a u] obtain h h' where
    s: "thread_create p a u st = (st\<lparr>tcb := (tcb st)[i := new_thread p a u i st], next_tid := next_tid st + 1,
      proc_threads := h, ready_queue := h'\<rparr>, Return (next_tid st))" (is "_ = (?s, _)") and q: "queue_ok h' [i]" by auto
  have ti: "tcb ?s ! i = new_thread p a u i st" using il by simp
  have "\<exists>st'. schedule After_start ?s = Some (st', entry (tcb ?s ! i)) \<and> sched_ring st' [i] \<and> same_memory ?s st' \<and>
    current_process st' = t_process (tcb ?s ! i)"
  proof (rule schedule_first)
    show "tids_ok ?s" by (rule tids_ok_new [OF t i(1)]) (simp_all add: ids)
    show "live (tcb ?s ! j) \<longleftrightarrow> j = i" if "j < THREAD_MAX" for j
      using nl [OF that] il t by (auto simp: nth_upd new_thread_def live_def tids_ok_def)
    show "case current_thread ?s of None \<Rightarrow> True | Some c \<Rightarrow> c < THREAD_MAX \<and> runstate (tcb ?s ! c) = RS_EXITED"
    proof (cases "current_thread st")
      case (Some c)
      then have "c < THREAD_MAX" "runstate (tcb st ! c) = RS_EXITED" "c \<noteq> i" using idle i(2) by (auto simp: sched_idle_def)
      then show ?thesis using Some il by (simp add: nth_upd)
    qed simp
  qed (use i q ti in \<open>simp_all add: new_thread_def\<close>)
  moreover have "entry (new_thread p a u i st) = cpu_user_start a u" "t_process (new_thread p a u i st) = Some p"
    by (simp_all add: entry_def new_thread_def)
  ultimately show ?thesis using s ti by (auto simp: same_memory_def)
qed

section \<open>Properties\<close>

text \<open>The arguments \<open>argv\<close> at the stack pointer \<open>sp\<close>: their number, pointers to them in order, a null pointer, and the terminated strings.\<close>

definition args_at :: "mem \<Rightarrow> nat \<Rightarrow> string list \<Rightarrow> bool" where
  "args_at m sp argv \<longleftrightarrow> (\<exists>as. length as = length argv \<and>
    mem_read m sp (4 * (length argv + 2)) = concat (map le32 (of_nat (length argv) # as @ [0])) \<and>
    (\<forall>j < length argv. mem_read m (unat (as ! j)) (length (argv ! j) + 1) = argv ! j @ [NUL]))"

lemma process_start_ok:
  assumes idle: "sched_idle st" and free: "\<exists>i < THREAD_MAX. tid (tcb st ! i) = 0" and p: "p < length (pcb st)"
    and room: "args_room argv + 4 * (length argv + 2) \<le> unat (ustack (pcb st ! p))"
  shows "\<exists>st' i sp. process_start p argv st = Some (st', cpu_user_start (p_start_addr (pcb st ! p)) sp) \<and>
    sched_ring st' [i] \<and> current_process st' = Some p \<and> pm st' = pm st \<and> cr3 st' = cr3 st \<and> args_at (kmem st') (unat sp) argv \<and>
    unat sp = unat (ustack (pcb st ! p)) - (args_room argv + 4 * (length argv + 2)) \<and>
    (\<forall>a. a < unat sp \<or> unat (ustack (pcb st ! p)) \<le> a \<longrightarrow> kmem st' a = kmem st a)"
proof -
  obtain m sp as where a: "push_args (kmem st, ustack (pcb st ! p)) argv = (m, sp)" "unat sp = unat (ustack (pcb st ! p)) - (args_room argv + 4 * (length argv + 2))"
      "unchanged (unat sp) (unat (ustack (pcb st ! p))) (kmem st) m" "length as = length argv"
      "mem_read m (unat sp) (4 * (length argv + 2)) = concat (map le32 (of_nat (length argv) # as @ [0]))"
      "strs_at (unat sp + 4 * (length argv + 2)) (unat (ustack (pcb st ! p))) m as argv"
    using push_args_layout [OF room, of "kmem st"] by blast
  let ?s = "upd_process p (\<lambda>q. q\<lparr>ustack := sp\<rparr>) (st\<lparr>current_process := Some p, kmem := m\<rparr>)"
  have i1: "sched_idle ?s" by (rule sched_idle_cong [OF idle]) simp_all
  have f1: "\<exists>i < THREAD_MAX. tid (tcb ?s ! i) = 0" using free by simp
  from create_and_schedule [OF i1 f1, of p "p_start_addr (pcb st ! p)" sp] obtain i st1 st' where
    c: "thread_create p (p_start_addr (pcb st ! p)) sp ?s = (st1, Return (next_tid ?s))"
      "schedule After_start st1 = Some (st', cpu_user_start (p_start_addr (pcb st ! p)) sp)" "sched_ring st' [i]"
      "kmem st' = m" "current_process st' = Some p" "pm st' = pm st" "cr3 st' = cr3 st" by (auto simp: same_memory_def upd_process_def)
  have "process_start p argv st = Some (st', cpu_user_start (p_start_addr (pcb st ! p)) sp)"
    using a(1) c(1,2) p by (simp add: process_start_def cpu_user_start_def)
  moreover have "mem_read m (unat (as ! j)) (length (argv ! j) + 1) = argv ! j @ [NUL]" if "j < length argv" for j
    using a(4,6) that by (simp add: strs_at_def list_all2_conv_all_nth)
  then have "args_at (kmem st') (unat sp) argv" using a(4,5) c(4) by (auto simp: args_at_def)
  ultimately show ?thesis using c(3-7) a(2,3) unfolding unchanged_def by blast
qed

text \<open>
  Property C7. Starting a loaded program when no thread lives and a thread id is left: the kernel puts the arguments on the process's
  user stack, creates its first thread and enters user mode at the program's entry point, with the stack
  pointer at the argument count. Above it are the pointers to the arguments in order and a null pointer, each pointer
  leads to the terminated argument string, and nothing above the initial stack pointer or below the new one is
  written. The new thread is the only one in the ring and the process is the current process; the page maps stay as they are.
\<close>

theorem process_start_enters_user_mode:
  assumes idle: "sched_idle st" and free: "\<exists>i < THREAD_MAX. tid (tcb st ! i) = 0" and p: "p < length (pcb st)"
    and room: "args_room argv + 4 * (length argv + 2) \<le> unat (ustack (pcb st ! p))"
  shows "\<exists>st' i sp. process_start p argv st = Some (st', cpu_user_start (p_start_addr (pcb st ! p)) sp) \<and>
    sched_ring st' [i] \<and> current_process st' = Some p \<and> pm st' = pm st \<and> cr3 st' = cr3 st \<and> args_at (kmem st') (unat sp) argv \<and>
    unat sp = unat (ustack (pcb st ! p)) - (args_room argv + 4 * (length argv + 2)) \<and>
    (\<forall>a. a < unat sp \<or> unat (ustack (pcb st ! p)) \<le> a \<longrightarrow> kmem st' a = kmem st a)"
  by (rule process_start_ok [OF assms])

definition idle_state :: "uart8250 kstate" where
  "idle_state = (kst [] \<lparr>lh_next = (\<lambda>_. None), lh_prev = (\<lambda>_. None)\<rparr>)\<lparr>current_thread := None,
     pcb := [process0\<lparr>pid := 1, ustack := USTACK_DFLT, p_start_addr := 0x400000\<rparr>]\<rparr>"

lemma idle_simps:
  "tcb idle_state = replicate 16 thread0" "next_tid idle_state = 1" "current_thread idle_state = None"
  "ready_queue idle_state = \<lparr>lh_next = (\<lambda>_. None), lh_prev = (\<lambda>_. None)\<rparr>"
  by (simp_all add: idle_state_def kst_simps THREAD_MAX_def)

lemma idle_state_idle: "sched_idle idle_state" "\<exists>i < THREAD_MAX. tid (tcb idle_state ! i) = 0"
proof -
  show "sched_idle idle_state"
    by (simp add: sched_idle_def idle_simps tids_ok_def THREAD_MAX_def live_def thread0_def queue_ok0_def clist0_def INT_MAX_def)
  show "\<exists>i < THREAD_MAX. tid (tcb idle_state ! i) = 0"
    by (rule exI [of _ 0]) (simp add: idle_simps THREAD_MAX_def thread0_def)
qed

theorem process_start_enters_user_mode_witness:
  "\<exists>(st' :: uart8250 kstate) i sp. process_start 0 [''hello'', ''x''] idle_state = Some (st', cpu_user_start 0x400000 sp) \<and>
    sched_ring st' [i] \<and> current_process st' = Some 0"
proof -
  have p: "0 < length (pcb idle_state)" "p_start_addr (pcb idle_state ! 0) = 0x400000" by (simp_all add: idle_state_def)
  have "args_room [''hello'', ''x''] + 4 * (length [''hello'', ''x''] + 2) \<le> unat (ustack (pcb idle_state ! 0))"
    by (simp add: args_room_def str_room_def idle_state_def USTACK_DFLT_def)
  from process_start_enters_user_mode [OF idle_state_idle p(1) this] show ?thesis unfolding p(2) by blast
qed

end
