(* ===== verification/Interrupts.thy ===== *)
theory Interrupts
  imports Process
begin

text \<open>
  The interrupt controller (\<open>drivers/chip/intctl_8259.c\<close>), the timer (\<open>drivers/chip/pit_8253.c\<close>) and
  the interrupt handlers (\<open>kernel/interrupt.c\<close>). The floating-point values of \<open>pit_set_irq_freq\<close> are only
  printed and left out.

  The step relation \<open>kstep\<close> is the kernel as its user threads see it: a thread that runs in user mode makes
  a system call or is interrupted, and a task that is restored goes on where it was saved. A system call that hangs in the
  kernel is not a step. An exception can come at any time; so can the page fault of a system call
  that reads from a bad user pointer, which is the step \<open>Interrupt\<close> with an exception vector in place of the system call. The
  invariant says that the scheduler always has exactly the live threads.
\<close>

section \<open>Interrupt controller\<close>

definition IRQ_TIMER :: u8 where "IRQ_TIMER = 0"
definition IRQ_CASCADE :: u8 where "IRQ_CASCADE = 2"
definition IRQ_MAX :: u8 where "IRQ_MAX = 16"
definition IRQ_MASTER_LOWEST_PRIORITY :: u8 where "IRQ_MASTER_LOWEST_PRIORITY = 7"
definition IRQ_SLAVE_START :: u8 where "IRQ_SLAVE_START = 8"
definition IRQ_SLAVE_LOWEST_PRIORITY :: u8 where "IRQ_SLAVE_LOWEST_PRIORITY = 15"

definition PORT_PIC_MASTER_CMD :: u16 where "PORT_PIC_MASTER_CMD = 0x20"
definition PORT_PIC_MASTER_DATA :: u16 where "PORT_PIC_MASTER_DATA = 0x21"
definition PORT_PIC_SLAVE_CMD :: u16 where "PORT_PIC_SLAVE_CMD = 0xa0"
definition PORT_PIC_SLAVE_DATA :: u16 where "PORT_PIC_SLAVE_DATA = 0xa1"

definition ICW1_INIT :: u8 where "ICW1_INIT = 0x10"
definition ICW1_NEED_ICW4 :: u8 where "ICW1_NEED_ICW4 = 0x01"
definition ICW4_MPM_8086 :: u8 where "ICW4_MPM_8086 = 0x01"
definition OCW2_EOI_SPECIFIC :: u8 where "OCW2_EOI_SPECIFIC = 0x60"
definition OCW3_READ_ISR :: u8 where "OCW3_READ_ISR = 0x0b"

definition pic_irq_bit_single :: "u8 \<Rightarrow> u8" where
  "pic_irq_bit_single irq = (if irq < IRQ_SLAVE_START then push_bit (unat irq) 1 else push_bit (unat (irq - IRQ_SLAVE_START)) 1)"

definition pic_irq_data_port :: "u8 \<Rightarrow> u16" where
  "pic_irq_data_port irq = (if irq < IRQ_SLAVE_START then PORT_PIC_MASTER_DATA else PORT_PIC_SLAVE_DATA)"

definition pic_init_single :: "'h bus \<Rightarrow> u16 \<Rightarrow> u8 \<Rightarrow> u8 \<Rightarrow> ('h, 'a) srstate_scheme \<Rightarrow> ('h, 'a) srstate_scheme" where
  "pic_init_single B cmd_port irq_start icw3 st =
    (let data_port = cmd_port + 1;
         st = outb B (ICW1_INIT OR ICW1_NEED_ICW4) cmd_port st;
         st = outb B irq_start data_port st;
         st = outb B icw3 data_port st
     in outb B ICW4_MPM_8086 data_port st)"

definition pic_init :: "'h bus \<Rightarrow> u8 \<Rightarrow> ('h, 'a) srstate_scheme \<Rightarrow> ('h, 'a) srstate_scheme \<times> int" where
  "pic_init B irq_start st =
    (let icw3_master = push_bit (unat IRQ_CASCADE) 1;
         icw3_slave = IRQ_CASCADE;
         st = pic_init_single B PORT_PIC_MASTER_CMD irq_start icw3_master st;
         st = pic_init_single B PORT_PIC_SLAVE_CMD (irq_start + IRQ_SLAVE_START) icw3_slave st
     in (st, 0))"

definition pic_mask_irq :: "'h bus \<Rightarrow> u8 \<Rightarrow> ('h, 'a) srstate_scheme \<Rightarrow> ('h, 'a) srstate_scheme" where
  "pic_mask_irq B irq st =
    (let port = pic_irq_data_port irq;
         irq_bit = pic_irq_bit_single irq;
         (msk, st) = inb B port st
     in outb B (msk OR irq_bit) port st)"

definition pic_unmask_irq :: "'h bus \<Rightarrow> u8 \<Rightarrow> ('h, 'a) srstate_scheme \<Rightarrow> ('h, 'a) srstate_scheme" where
  "pic_unmask_irq B irq st =
    (let port = pic_irq_data_port irq;
         irq_bit = pic_irq_bit_single irq;
         (msk, st) = inb B port st
     in outb B (msk AND NOT irq_bit) port st)"

definition pic_get_mask :: "'h bus \<Rightarrow> ('h, 'a) srstate_scheme \<Rightarrow> u16 \<times> ('h, 'a) srstate_scheme" where
  "pic_get_mask B st =
    (let (m, st) = inb B PORT_PIC_MASTER_DATA st;
         (s, st) = inb B PORT_PIC_SLAVE_DATA st
     in (push_bit 8 (ucast s) OR ucast m, st))"

definition pic_set_mask :: "'h bus \<Rightarrow> u16 \<Rightarrow> ('h, 'a) srstate_scheme \<Rightarrow> ('h, 'a) srstate_scheme" where
  "pic_set_mask B msk st =
    (let st = outb B (ucast msk) PORT_PIC_MASTER_DATA st
     in outb B (ucast (drop_bit 8 msk)) PORT_PIC_SLAVE_DATA st)"

definition pic_send_eoi :: "'h bus \<Rightarrow> u8 \<Rightarrow> ('h, 'a) srstate_scheme \<Rightarrow> ('h, 'a) srstate_scheme \<times> int" where
  "pic_send_eoi B irq st =
    (if irq \<ge> IRQ_MAX then (st, err EINVAL)
     else if irq < IRQ_SLAVE_START then (outb B (OCW2_EOI_SPECIFIC OR irq) PORT_PIC_MASTER_CMD st, 0)
     else let slave_irq = irq - IRQ_SLAVE_START;
              st = outb B (OCW2_EOI_SPECIFIC OR slave_irq) PORT_PIC_SLAVE_CMD st
          in (outb B (OCW2_EOI_SPECIFIC OR IRQ_CASCADE) PORT_PIC_MASTER_CMD st, 0))"

definition pic_read_reg :: "'h bus \<Rightarrow> u16 \<Rightarrow> u8 \<Rightarrow> ('h, 'a) srstate_scheme \<Rightarrow> u8 \<times> ('h, 'a) srstate_scheme" where
  "pic_read_reg B port ocw3 st = inb B port (outb B ocw3 port st)"

definition pic_check_spurious :: "'h bus \<Rightarrow> u8 \<Rightarrow> ('h, 'a) srstate_scheme \<Rightarrow> bool \<times> ('h, 'a) srstate_scheme" where
  "pic_check_spurious B irq st =
    (let isr_lowest = push_bit (unat IRQ_MASTER_LOWEST_PRIORITY) 1
     in if irq = IRQ_MASTER_LOWEST_PRIORITY
        then let (isr, st) = pic_read_reg B PORT_PIC_MASTER_CMD OCW3_READ_ISR st in (isr AND isr_lowest = 0, st)
        else if irq = IRQ_SLAVE_LOWEST_PRIORITY
        then let (isr, st) = pic_read_reg B PORT_PIC_SLAVE_CMD OCW3_READ_ISR st;
                 is_spurious = (isr AND isr_lowest = 0)
             in (is_spurious, if is_spurious then fst (pic_send_eoi B IRQ_CASCADE st) else st)
        else (False, st))"

section \<open>Timer\<close>

definition PIT_PORT_CH0 :: u16 where "PIT_PORT_CH0 = 0x40"
definition PIT_PORT_MODE_CMD :: u16 where "PIT_PORT_MODE_CMD = 0x43"
definition PIT_BASE_HZ :: u32 where "PIT_BASE_HZ = 1193180"
definition PIT_CH_IRQ :: u8 where "PIT_CH_IRQ = 0"
definition PIT_MODE_SQUARE_WAVE :: u8 where "PIT_MODE_SQUARE_WAVE = 3"
definition PIT_RW_LSB_MSB :: u8 where "PIT_RW_LSB_MSB = 3"
definition PIT_BASE2 :: u8 where "PIT_BASE2 = 0"
definition PCSPKR_PORT :: u16 where "PCSPKR_PORT = 0x61"
definition PCSPKR_CMD_MASK :: u8 where "PCSPKR_CMD_MASK = 0x03"

definition pit_cmd_byte :: "u8 \<Rightarrow> u8 \<Rightarrow> u8 \<Rightarrow> u8 \<Rightarrow> u8" where
  "pit_cmd_byte cntr rw mode bcd = push_bit 6 cntr OR push_bit 4 rw OR push_bit 1 mode OR bcd"

definition pit_send_cmd :: "'h bus \<Rightarrow> u8 \<Rightarrow> u8 \<Rightarrow> u16 \<Rightarrow> ('h, 'a) srstate_scheme \<Rightarrow> ('h, 'a) srstate_scheme" where
  "pit_send_cmd B channel mode cnt st =
    (let cmd_byte = pit_cmd_byte channel PIT_RW_LSB_MSB mode PIT_BASE2;
         port = PIT_PORT_CH0 + ucast channel;
         st = outb B cmd_byte PIT_PORT_MODE_CMD st;
         st = outb B (ucast (cnt AND 0xff)) port st
     in outb B (ucast (drop_bit 8 cnt AND 0xff)) port st)"

definition pit_set_irq_freq :: "'h bus \<Rightarrow> u8 \<Rightarrow> u32 \<Rightarrow> ('h, 'a) srstate_scheme \<Rightarrow> ('h, 'a) srstate_scheme \<times> u32" where
  "pit_set_irq_freq B mode target_hz st =
    (let divisor = PIT_BASE_HZ div target_hz in (pit_send_cmd B PIT_CH_IRQ mode (ucast divisor) st, divisor))"

definition pcspkr_read :: "'h bus \<Rightarrow> ('h, 'a) srstate_scheme \<Rightarrow> u8 \<times> ('h, 'a) srstate_scheme" where
  "pcspkr_read B st = inb B PCSPKR_PORT st"

definition pcspkr_send_cmd :: "'h bus \<Rightarrow> u8 \<Rightarrow> ('h, 'a) srstate_scheme \<Rightarrow> u8 \<times> ('h, 'a) srstate_scheme" where
  "pcspkr_send_cmd B flags st =
    (let (start_state, st) = inb B PCSPKR_PORT st;
         new_state = (start_state AND NOT PCSPKR_CMD_MASK) OR flags
     in (start_state, outb B new_state PCSPKR_PORT st))"

definition pcspkr_restore :: "'h bus \<Rightarrow> u8 \<Rightarrow> ('h, 'a) srstate_scheme \<Rightarrow> ('h, 'a) srstate_scheme" where
  "pcspkr_restore B prev_state st = outb B prev_state PCSPKR_PORT st"

section \<open>Handlers\<close>

definition IVEC_USER_START :: u8 where "IVEC_USER_START = 32"
definition IVEC_IRQ_0 :: u8 where "IVEC_IRQ_0 = 32"

definition ivec_isexception :: "u8 \<Rightarrow> bool" where
  "ivec_isexception ivec \<longleftrightarrow> ivec < IVEC_USER_START"

definition handle_exception ::
    "('h, 'a) kstate_scheme drivers \<Rightarrow> ('h, 'a) kstate_scheme \<Rightarrow> (('h, 'a) kstate_scheme \<times> control) option" where
  "handle_exception D st = map_option (apsnd (on_return Dead_end)) (process_kill D (current_process st) st)"

definition handle_irq :: "'h bus \<Rightarrow> u8 \<Rightarrow> ('h, 'a) kstate_scheme \<Rightarrow> (('h, 'a) kstate_scheme \<times> control) option" where
  "handle_irq B ivec st =
    (let irq = ivec - IVEC_IRQ_0;
         st = st\<lparr>irq_cts := (irq_cts st)[unat irq := irq_cts st ! unat irq + 1]\<rparr>
     in if irq = IRQ_TIMER then thread_preempt (fst (pic_send_eoi B irq st))
        else Some (fst (pic_send_eoi B irq st), Return 0))"

definition interrupt_dispatch ::
    "'h bus \<Rightarrow> ('h, 'a) kstate_scheme drivers \<Rightarrow> u8 \<Rightarrow> ('h, 'a) kstate_scheme \<Rightarrow> (('h, 'a) kstate_scheme \<times> control) option" where
  "interrupt_dispatch B D ivec st =
    (if ivec_isexception ivec then handle_exception D st
     else if IVEC_IRQ_0 \<le> ivec \<and> ivec < IVEC_IRQ_0 + IRQ_MAX then handle_irq B ivec st
     else Some (st, Return 0))"

definition init_int_controller :: "'h bus \<Rightarrow> ('h, 'a) srstate_scheme \<Rightarrow> ('h, 'a) srstate_scheme \<times> int" where
  "init_int_controller B st =
    (let IRQS_TO_ENABLE = push_bit (unat IRQ_TIMER) (1 :: u16);
         (st, _) = pic_init B IVEC_IRQ_0 st
     in (pic_set_mask B (NOT IRQS_TO_ENABLE) st, 0))"

definition init_timer_interrupt :: "'h bus \<Rightarrow> ('h, 'a) srstate_scheme \<Rightarrow> ('h, 'a) srstate_scheme \<times> int" where
  "init_timer_interrupt B st = (let (st, _) = pit_set_irq_freq B PIT_MODE_SQUARE_WAVE 1000 st in (st, 0))"

section \<open>User threads and the kernel\<close>

fun user_mode :: "control \<Rightarrow> bool" where
  "user_mode (Return _) = True"
| "user_mode (User_start _) = True"
| "user_mode _ = False"

inductive kstep ::
    "'h bus \<Rightarrow> ('h, 'a) kstate_scheme \<times> control \<Rightarrow> ('h, 'a) kstate_scheme \<times> control \<Rightarrow> bool" for B where
  Syscall: "user_mode ctl \<Longrightarrow> syscall_dispatch (munix_drivers B) number arg1 arg2 arg3 st = Some s' \<Longrightarrow> kstep B (st, ctl) s'"
| Interrupt: "user_mode ctl \<Longrightarrow> interrupt_dispatch B (munix_drivers B) ivec st = Some s' \<Longrightarrow> kstep B (st, ctl) s'"
| Resume: "task_resume k st = Some s' \<Longrightarrow> kstep B (st, Task_restore k) s'"

inductive_cases kstep_cases: "kstep B (st, ctl) s'"

section \<open>Output leaves the scheduler alone\<close>

text \<open>A write to a serial port changes nothing but the hardware.\<close>

definition only_hw :: "('h, 'a) srstate_scheme \<Rightarrow> ('h, 'a) srstate_scheme \<Rightarrow> bool" where
  "only_hw st st' \<longleftrightarrow> (\<exists>h. st' = st\<lparr>hw := h\<rparr>)"

lemma only_hw_refl [simp]: "only_hw st st"
  unfolding only_hw_def by (rule exI [of _ "hw st"]) simp

lemma only_hw_trans: "only_hw st st' \<Longrightarrow> only_hw st' st'' \<Longrightarrow> only_hw st st''"
  by (auto simp: only_hw_def)

lemma only_hw_outb [simp]: "only_hw st (outb B v p st') = only_hw st st'"
  unfolding only_hw_def outb_def by (metis srstate.surjective srstate.update_convs(2))

lemma only_hw_inb: "inb B p st = (v, st') \<Longrightarrow> only_hw st st'"
  by (auto simp: inb_def only_hw_def split: prod.splits)

lemma only_hw_linestat: "check_linestat B k bits st = (b, st') \<Longrightarrow> only_hw st st'"
  by (auto simp: check_linestat_def dest: only_hw_inb split: prod.splits)

lemma only_hw_writech:
  assumes "serial_writech B k c st = Some r"
  shows "only_hw st (snd r)"
proof (rule serial_writech.raw_induct [OF _ assms, where P = "\<lambda>B k c st r. only_hw st (snd r)"])
  fix rec B k c st r
  assume IH: "\<And>B k c st y. rec B k c st = Some y \<Longrightarrow> only_hw st (snd y)"
    and body: "(let (ready, st) = check_linestat B k LS_THRE st
      in if \<not> ready then rec B k c st else Some (schar c, outb B (of_int (schar c)) (s_port (serials st ! k)) st)) = Some r"
  obtain b st1 where l: "check_linestat B k LS_THRE st = (b, st1)" by force
  have "snd r = outb B (of_int (schar c)) (s_port (serials st1 ! k)) st1 \<or> rec B k c st1 = Some r" using body l by (auto split: if_splits)
  then show "only_hw st (snd r)"
  proof
    assume "rec B k c st1 = Some r"
    from only_hw_trans [OF only_hw_linestat [OF l] IH [OF this]] show ?thesis .
  qed (use only_hw_linestat [OF l] in auto)
qed

lemma only_hw_out: "serial_out B k out st = Some (r, st') \<Longrightarrow> only_hw st st'"
proof (induction out arbitrary: st)
  case (Cons c out)
  then obtain x where w: "serial_writech B k c st = Some x" by (auto split: bind_splits)
  have "st' = snd x \<or> serial_out B k out (snd x) = Some (r, st')" using Cons.prems w by (auto split: if_splits prod.splits)
  then show ?case using only_hw_writech [OF w] Cons.IH only_hw_trans by blast
qed simp

lemma only_hw_write_loop: "serial_write_loop B k src st = Some (r, st') \<Longrightarrow> only_hw st st'"
proof (induction src arbitrary: st)
  case (Cons c src)
  then obtain q st1 where w: "serial_out B k (ofilter (serials st ! k) c) st = Some (q, st1)" by (auto split: bind_splits)
  have "st' = st1 \<or> serial_write_loop B k src st1 = Some (r, st')" using Cons.prems w by (auto split: option.splits)
  then show ?case using only_hw_out [OF w] Cons.IH only_hw_trans by blast
qed simp

text \<open>The fields of the state that the scheduler uses.\<close>

definition same_sched :: "('h, 'a) kstate_scheme \<Rightarrow> ('h, 'a) kstate_scheme \<Rightarrow> bool" where
  "same_sched st st' \<longleftrightarrow> tcb st' = tcb st \<and> next_tid st' = next_tid st \<and> kstacks st' = kstacks st \<and>
    current_thread st' = current_thread st \<and> current_process st' = current_process st \<and> tss_esp0 st' = tss_esp0 st \<and>
    ready_queue st' = ready_queue st"

lemma same_sched_refl [simp]: "same_sched st st"
  by (simp add: same_sched_def)

lemma same_sched_trans: "same_sched st st' \<Longrightarrow> same_sched st' st'' \<Longrightarrow> same_sched st st''"
  by (simp add: same_sched_def)

lemma same_sched_ring: "same_sched st st' \<Longrightarrow> sched_ring st r \<Longrightarrow> sched_ring st' r"
  by (simp add: same_sched_def sched_ring_def tids_ok_def stack_of_def)

lemma only_hw_same: "only_hw st st' \<Longrightarrow> same_sched st st'"
  by (auto simp: only_hw_def same_sched_def)

lemma serial_file_write_same:
  fixes st :: "('h, 'a) kstate_scheme"
  assumes "file_write (with_serial B no_drivers) f s st = Some (f', st', r)"
  shows "only_hw st st'"
  using assms by (auto simp: file_write_def has_op_def with_serial_def serial_ops_def serial_write_def no_drivers_def
      split: option.splits bind_splits if_splits dest!: only_hw_write_loop)

lemma tty_write_sched:
  fixes st :: "('h, 'a) kstate_scheme"
  assumes "tty_write (with_serial B no_drivers) f s off st = Some (off', st', r)"
  shows "same_sched st st'"
proof -
  obtain p st1 where w: "file_write (with_serial B no_drivers) (portdev (ttys st ! the (f_driver_data f))) s st = Some (p, st1, r)"
      "st' = upd_tty (the (f_driver_data f)) (\<lambda>t. t\<lparr>portdev := p\<rparr>) st1"
    using assms by (auto simp: tty_write_def Let_def)
  show ?thesis using only_hw_same [OF serial_file_write_same [OF w(1)]] w(2) by (simp add: same_sched_def upd_tty_def)
qed

lemma munix_write_cases:
  fixes st :: "('h, 'a) kstate_scheme"
  assumes "file_write (munix_drivers B) f s st = Some (f', st', r)"
  shows "only_hw st st' \<or> (\<exists>off off' r. tty_write (with_serial B no_drivers) f s off st = Some (off', st', r))"
proof -
  have d: "op_write (dr_ops (munix_drivers B :: ('h, 'a) kstate_scheme drivers) d) =
      (case d of SerialDrv \<Rightarrow> Some (serial_write B) | TtyDrv \<Rightarrow> Some (tty_write (with_serial B no_drivers)) | _ \<Rightarrow> None)" for d
    by (cases d) (simp_all add: munix_drivers_def munix_devices_def with_cpiofs_def with_ramdisk_def with_tty_def with_serial_def
        cpio_file_ops_def ramdisk_ops_def tty_ops_def serial_ops_def)
  show ?thesis
  proof (cases "has_op (munix_drivers B :: ('h, 'a) kstate_scheme drivers) op_write f")
    case None
    then show ?thesis using assms by (simp add: file_write_def)
  next
    case (Some w)
    then obtain e where e: "f_op f = Some e" "op_write (dr_ops (munix_drivers B) e) = Some w" by (auto simp: has_op_def split: bind_splits)
    consider "w = serial_write B" | "w = tty_write (with_serial B no_drivers)" using e(2) unfolding d by (cases e) auto
    then show ?thesis
    proof cases
      case 1
      then show ?thesis using assms Some
        by (auto simp: file_write_def serial_write_def split: if_splits dest!: only_hw_write_loop)
    next
      case 2
      then show ?thesis using assms Some by (fastforce simp: file_write_def split: if_splits)
    qed
  qed
qed

lemma munix_write_same:
  fixes st :: "('h, 'a) kstate_scheme"
  assumes "file_write (munix_drivers B) f s st = Some (f', st', r)"
  shows "same_sched st st'"
  using munix_write_cases [OF assms] only_hw_same tty_write_sched by blast

section \<open>The invariant of the kernel\<close>

text \<open>
  A state of the running kernel: either control has ended in the shell (\<^const>\<open>Dead_end\<close>) or something undefined
  has happened, or the ring holds the live threads and the current thread runs or is about to go on.
\<close>

definition running :: "('h, 'a) kstate_scheme \<times> control \<Rightarrow> bool" where
  "running s \<longleftrightarrow> (\<exists>r. sched_ring (fst s) r) \<and> (user_mode (snd s) \<or> (\<exists>k. snd s = Task_restore k \<and> resumes k))"

lemma running_entry:
  assumes "sched_ring st' r'" "resumable t" "runstate t \<noteq> RS_EXITED"
  shows "running (st', entry t)"
  using assms by (cases "runstate t") (auto simp: running_def entry_def resumable_def cpu_user_start_def)

lemma resumable_next:
  assumes "sched_ring st (c # q)" "resumes k"
  shows "resumable (next_thread k (c # q) st)" "runstate (next_thread k (c # q) st) \<noteq> RS_EXITED"
  using assms by (cases q; auto simp: sched_ring_def next_thread_def resumable_def live_def)+

lemma ring_Cons: "sched_ring st r \<Longrightarrow> \<exists>c q. r = c # q"
  by (cases r) (auto simp: sched_ring_def)

lemma yield_running:
  assumes "sched_ring st r" "resumes k"
  shows "\<exists>s'. thread_yield k st = Some s' \<and> running s'"
proof -
  obtain c q where r: "r = c # q" using ring_Cons [OF assms(1)] by blast
  from thread_yield_ring [OF assms(1) [unfolded r] assms(2)] running_entry resumable_next [OF assms(1) [unfolded r] assms(2)]
  show ?thesis by blast
qed

lemma preempt_running: "sched_ring st r \<Longrightarrow> \<exists>s'. thread_preempt st = Some s' \<and> running s'"
proof -
  assume a: "sched_ring st r"
  obtain c q where r: "r = c # q" using ring_Cons [OF a] by blast
  have k: "resumes After_preempt" by simp
  from thread_preempt_ring [OF a [unfolded r]] running_entry resumable_next [OF a [unfolded r] k] show ?thesis by blast
qed

lemma exit_running:
  assumes "sched_ring st r"
  shows "\<exists>s'. thread_exit status st = Some s' \<and> (if length r = 1 then snd s' = Undefined_behaviour else running s')"
proof -
  obtain c q where r: "r = c # q" using ring_Cons [OF assms] by blast
  show ?thesis
  proof (cases q)
    case Nil
    then show ?thesis using thread_exit_last [of st c status] assms r by auto
  next
    case (Cons n q')
    have "resumable (tcb st ! n)" "runstate (tcb st ! n) \<noteq> RS_EXITED"
      using assms Cons r by (auto simp: sched_ring_def live_def)
    then show ?thesis using thread_exit_ring [of st c n q' status] assms r Cons running_entry by fastforce
  qed
qed

lemma join_running:
  assumes "sched_ring st r" "i < THREAD_MAX"
  shows "\<exists>s'. join_loop i st = Some s' \<and> running s'"
proof (cases "runstate (tcb st ! i) = RS_EXITED")
  case True
  then show ?thesis using join_loop_exited thread_close_ring [OF assms True] by (fastforce simp: running_def)
next
  case False
  obtain c q where r: "r = c # q" using ring_Cons [OF assms(1)] by blast
  have k: "resumes (After_join i)" using assms(2) by simp
  from join_loop_waits [OF assms(1) [unfolded r] False assms(2)] running_entry resumable_next [OF assms(1) [unfolded r] k]
  show ?thesis by blast
qed

lemma create_running:
  assumes "sched_ring st r"
  shows "running (thread_create p a u st) \<or> (next_tid st = INT_MAX \<and> thread_create p a u st = (st, Undefined_behaviour))"
proof (cases "\<exists>i < THREAD_MAX. tid (tcb st ! i) = 0")
  case True
  have "next_tid st \<le> INT_MAX" using assms by (simp add: sched_ring_def tids_ok_def)
  then show ?thesis using thread_create_ring [OF assms True, of p a u] thread_create_overflow [OF True, of p a u] by (fastforce simp: running_def)
next
  case False
  then show ?thesis using thread_create_full [of st p a u] assms by (auto simp: running_def)
qed

lemma munix_release:
  "op_release (dr_ops (munix_drivers B :: ('h, 'a) kstate_scheme drivers) e) = (if e = CpioFileDrv then Some cpio_file_release else None)"
  by (cases e) (simp_all add: munix_drivers_def munix_devices_def with_cpiofs_def with_ramdisk_def with_tty_def with_serial_def
      cpio_file_ops_def ramdisk_ops_def tty_ops_def serial_ops_def)

lemma munix_close_same:
  fixes st :: "('h, 'a) kstate_scheme"
  shows "same_sched st (fst (file_close (munix_drivers B) f st))"
  by (auto simp: file_close_def has_op_def munix_release cpio_file_release_def cfdata_free_def upd_cf_def same_sched_def
      split: option.splits bind_splits if_splits prod.splits)

lemma process_close_current:
  assumes "process_close (munix_drivers B) p st = Some st'"
  shows "current_thread st' = current_thread st" "current_process st' \<noteq> Some p"
proof -
  let ?s = "pm_set_root (kernel_addrspc st) (if current_process st = Some p then st\<lparr>current_process := None\<rparr> else st)"
  obtain st1 res where o: "on_addrspc p addrspc_cleanup ?s = Some (st1, res)"
      "st' = reset_process p process0 (fst (file_close (munix_drivers B) (execfile (pcb st1 ! p)) st1))"
    using assms by (auto simp: process_close_def Let_def split: if_splits)
  have s1: "current_thread st1 = current_thread st" "current_process st1 = current_process ?s"
    using o(1) by (auto simp: on_addrspc_def upd_process_def pm_set_root_def split: if_splits)
  have "same_sched st1 (fst (file_close (munix_drivers B) (execfile (pcb st1 ! p)) st1))" by (rule munix_close_same)
  then have "current_thread st' = current_thread st1" "current_process st' = current_process st1"
    unfolding o(2) by (simp_all add: same_sched_def reset_process_def)
  then show "current_thread st' = current_thread st" "current_process st' \<noteq> Some p" using s1 by (auto simp: pm_set_root_def)
qed

lemma ring_process: "sched_ring st r \<Longrightarrow> \<exists>p. current_process st = Some p"
proof -
  assume a: "sched_ring st r"
  then have "r \<noteq> []" by (simp add: sched_ring_def)
  then have "hd r \<in> set r" by simp
  then have "hd r < THREAD_MAX" "tid (tcb st ! hd r) \<noteq> 0" using a by (auto simp: sched_ring_def live_def)
  then show ?thesis using a by (auto simp: sched_ring_def tids_ok_def)
qed

text \<open>
  The two ways in which a system call of a thread in the ring \<open>r\<close> is undefined: the last thread exits, and the scheduler takes the
  head of the empty queue for a thread, or a thread is created when the 32-bit counter of thread ids is used up.
\<close>

definition undefined_call :: "('h, 'a) kstate_scheme \<Rightarrow> nat list \<Rightarrow> ('h, 'a) kstate_scheme \<Rightarrow> bool" where
  "undefined_call st r st' \<longleftrightarrow>
    (length r = 1 \<and> (\<exists>status. thread_exit status st = Some (st', Undefined_behaviour))) \<or>
    (next_tid st = INT_MAX \<and> (\<exists>p a u. thread_create p a u st = (st', Undefined_behaviour)))"

lemmas sys_numbers = SYS_exit_def SYS_write_def SYS_thrd_yield_def SYS_thrd_create_def SYS_thrd_exit_def SYS_thrd_join_def

text \<open>What a system call does to a running kernel.\<close>

lemma syscall_running:
  assumes r: "sched_ring st r" and s: "syscall_dispatch (munix_drivers B) number arg1 arg2 arg3 st = Some s'"
  shows "running s' \<or> snd s' = Dead_end \<or> (snd s' = Undefined_behaviour \<and> undefined_call st r (fst s'))"
proof -
  obtain p where p: "current_process st = Some p" using ring_process [OF r] by blast
  have cur: "current_thread st \<noteq> None" using r by (simp add: sched_ring_def)
  have run: "running (st, Return v)" for v using r by (auto simp: running_def)
  consider "number = SYS_exit" | "number = SYS_write" | "number = SYS_thrd_yield" | "number = SYS_thrd_create"
    | "number = SYS_thrd_exit" | "number = SYS_thrd_join"
    | "number \<notin> {SYS_exit, SYS_write, SYS_thrd_yield, SYS_thrd_create, SYS_thrd_exit, SYS_thrd_join}" by blast
  then show ?thesis
  proof cases
    case 1
    then have "process_exit (munix_drivers B) (sint arg1) st = Some s'" using s by (simp add: syscall_dispatch_def)
    then show ?thesis using p cur by (auto simp: process_exit_def dest!: process_close_current(1) split: option.splits)
  next
    case 2
    then have w: "process_write (munix_drivers B) (sint arg1) arg2 arg3 st = Some s'"
      using s by (simp add: syscall_dispatch_def SYS_exit_def SYS_write_def)
    have "running (st1\<lparr>kfiles := x\<rparr>, Return res)"
      if "file_write (munix_drivers B) f src st = Some (f', st1, res)" for st1 f f' src res x
    proof -
      have "same_sched st (st1\<lparr>kfiles := x\<rparr>)" using munix_write_same [OF that] by (simp add: same_sched_def)
      from same_sched_ring [OF this r] show ?thesis by (auto simp: running_def)
    qed
    then show ?thesis using w run p by (auto simp: process_write_def file_write_from_def split: if_splits option.splits)
  next
    case 3
    then show ?thesis using s yield_running [OF r, of After_yield]
      by (auto simp: syscall_dispatch_def SYS_exit_def SYS_write_def SYS_thrd_yield_def)
  next
    case 4
    then show ?thesis using s p create_running [OF r, of p arg1 arg2]
      by (auto simp: syscall_dispatch_def sys_numbers undefined_call_def)
  next
    case 5
    then have "thread_exit (sint arg1) st = Some s'" using s
      by (simp add: syscall_dispatch_def SYS_exit_def SYS_write_def SYS_thrd_yield_def SYS_thrd_create_def SYS_thrd_exit_def)
    then show ?thesis using exit_running [OF r, of "sint arg1"] by (cases s') (auto simp: undefined_call_def split: if_splits)
  next
    case 6
    then have j: "thread_join (sint arg1) st = Some s'" using s
      by (simp add: syscall_dispatch_def SYS_exit_def SYS_write_def SYS_thrd_yield_def SYS_thrd_create_def SYS_thrd_exit_def SYS_thrd_join_def)
    show ?thesis
    proof (cases "thread_find (\<lambda>th. tid th = sint arg1) THREAD_MAX 0 (tcb st)")
      case None
      then show ?thesis using j run by (auto simp: thread_join_def)
    next
      case (Some i)
      then have "i < THREAD_MAX" using thread_find_SomeD [OF Some] by simp
      then show ?thesis using j Some join_running [OF r, of i] by (auto simp: thread_join_def)
    qed
  next
    case 7
    then show ?thesis using s p run by (auto simp: syscall_dispatch_def)
  qed
qed

lemma syscall_returns:
  assumes r: "sched_ring st r" and n: "number \<noteq> SYS_exit" "number \<noteq> SYS_write"
  shows "\<exists>s'. syscall_dispatch (munix_drivers B) number arg1 arg2 arg3 st = Some s'"
proof -
  obtain p where p: "current_process st = Some p" using ring_process [OF r] by blast
  have "\<exists>s'. thread_join (sint arg1) st = Some s'"
  proof (cases "thread_find (\<lambda>th. tid th = sint arg1) THREAD_MAX 0 (tcb st)")
    case (Some i)
    then have "i < THREAD_MAX" using thread_find_SomeD [OF Some] by simp
    then show ?thesis using Some join_running [OF r, of i] by (auto simp: thread_join_def)
  qed (simp add: thread_join_def)
  then show ?thesis
    using n p yield_running [OF r, of After_yield] exit_running [OF r, of "sint arg1"] by (auto simp: syscall_dispatch_def)
qed

lemma outb_same [simp]: "same_sched st (outb B v p st') = same_sched st st'"
  by (simp add: same_sched_def outb_def)

lemma eoi_same: "same_sched st st' \<Longrightarrow> same_sched st (fst (pic_send_eoi B irq st'))"
  by (simp add: pic_send_eoi_def Let_def)

lemma irq_running:
  assumes r: "sched_ring st r"
  shows "\<exists>s'. handle_irq B ivec st = Some s' \<and> running s'"
proof -
  let ?irq = "ivec - IVEC_IRQ_0"
  let ?s = "fst (pic_send_eoi B ?irq (st\<lparr>irq_cts := (irq_cts st)[unat ?irq := irq_cts st ! unat ?irq + 1]\<rparr>))"
  have "same_sched st ?s" by (rule eoi_same) (simp add: same_sched_def)
  then have rs: "sched_ring ?s r" by (rule same_sched_ring [OF _ r])
  then have "running (?s, Return 0)" by (auto simp: running_def)
  then show ?thesis using preempt_running [OF rs] unfolding handle_irq_def Let_def
    by (cases "?irq = IRQ_TIMER") simp_all
qed

lemma interrupt_running:
  assumes r: "sched_ring st r" and s: "interrupt_dispatch B (munix_drivers B) ivec st = Some s'"
  shows "running s' \<or> snd s' = Dead_end"
proof -
  have "snd s' = Dead_end" if "handle_exception (munix_drivers B) st = Some s'"
    using that process_close_current(2) by (fastforce simp: handle_exception_def process_kill_def split: option.splits if_splits)
  moreover have "running (st, Return 0)" using r by (auto simp: running_def)
  ultimately show ?thesis using s irq_running [OF r, of B ivec] by (auto simp: interrupt_dispatch_def split: if_splits)
qed

lemma irq_dispatch: "irq < IRQ_MAX \<Longrightarrow> interrupt_dispatch B D (IVEC_IRQ_0 + irq) st = handle_irq B (IVEC_IRQ_0 + irq) st"
  by (simp add: interrupt_dispatch_def ivec_isexception_def IVEC_USER_START_def IVEC_IRQ_0_def IRQ_MAX_def word_less_nat_alt word_le_nat_alt unat_word_ariths)

lemma resume_running:
  assumes "sched_ring st r" "resumes k"
  shows "\<exists>s'. task_resume k st = Some s' \<and> running s'"
  using assms join_running [OF assms(1)] by (cases k) (auto simp: running_def)

section \<open>The mask registers of the interrupt controller\<close>

text \<open>What the driver relies on of the two chips: their data ports read back the mask last written.\<close>

locale pic_masks =
  fixes B :: "'h bus"
    and imr :: "u16 \<Rightarrow> 'h \<Rightarrow> u8"
  assumes imr_in: "p \<in> {PORT_PIC_MASTER_DATA, PORT_PIC_SLAVE_DATA} \<Longrightarrow>
      fst (bus_in B p h) = imr p h \<and> imr q (snd (bus_in B p h)) = imr q h"
    and imr_out: "p \<in> {PORT_PIC_MASTER_DATA, PORT_PIC_SLAVE_DATA} \<Longrightarrow>
      imr q (bus_out B v p h) = (if q = p then v else imr q h)"
begin

abbreviation irqs_masked :: "('h, 'a) srstate_scheme \<Rightarrow> u16" where
  "irqs_masked st \<equiv> push_bit 8 (ucast (imr PORT_PIC_SLAVE_DATA (hw st))) OR ucast (imr PORT_PIC_MASTER_DATA (hw st))"

lemma inb_mask:
  "p \<in> {PORT_PIC_MASTER_DATA, PORT_PIC_SLAVE_DATA} \<Longrightarrow>
   fst (inb B p st) = imr p (hw st) \<and> imr q (hw (snd (inb B p st))) = imr q (hw st)"
  using imr_in [of p "hw st"] by (simp add: inb_def Let_def case_prod_beta)

lemma outb_mask:
  "p \<in> {PORT_PIC_MASTER_DATA, PORT_PIC_SLAVE_DATA} \<Longrightarrow> imr q (hw (outb B v p st)) = (if q = p then v else imr q (hw st))"
  by (simp add: outb_def imr_out)

lemma get_mask: "fst (pic_get_mask B st) = irqs_masked st"
  using inb_mask [of PORT_PIC_MASTER_DATA st] inb_mask [of PORT_PIC_SLAVE_DATA "snd (inb B PORT_PIC_MASTER_DATA st)"]
  by (simp add: pic_get_mask_def Let_def case_prod_beta)

lemma ports_differ: "PORT_PIC_MASTER_DATA \<noteq> PORT_PIC_SLAVE_DATA"
  by (simp add: PORT_PIC_MASTER_DATA_def PORT_PIC_SLAVE_DATA_def)

lemma set_get: "fst (pic_get_mask B (pic_set_mask B m st)) = m"
proof -
  have "push_bit 8 (ucast (ucast (drop_bit 8 m) :: u8)) OR ucast (ucast m :: u8) = m"
    by (rule bit_eqI) (auto simp: bit_simps)
  then show ?thesis using ports_differ unfolding get_mask by (simp add: pic_set_mask_def Let_def outb_mask)
qed

lemma mask_irq_bits:
  assumes "irq < IRQ_MAX"
  shows "fst (pic_get_mask B (pic_mask_irq B irq st)) = fst (pic_get_mask B st) OR push_bit (unat irq) 1"
    and "fst (pic_get_mask B (pic_unmask_irq B irq st)) = fst (pic_get_mask B st) AND NOT (push_bit (unat irq) 1)"
proof -
  let ?m = "imr PORT_PIC_MASTER_DATA (hw st)" and ?s = "imr PORT_PIC_SLAVE_DATA (hw st)"
  let ?p = "pic_irq_data_port irq" and ?b = "pic_irq_bit_single irq"
  have n: "unat irq < 16" using assms by (simp add: IRQ_MAX_def word_less_nat_alt)
  have p: "?p \<in> {PORT_PIC_MASTER_DATA, PORT_PIC_SLAVE_DATA}" by (simp add: pic_irq_data_port_def)
  have mst: "irq < IRQ_SLAVE_START \<longleftrightarrow> unat irq < 8" by (simp add: IRQ_SLAVE_START_def word_less_nat_alt)
  have sl: "unat (irq - IRQ_SLAVE_START) = unat irq - 8" if "\<not> unat irq < 8"
    using that by (simp add: IRQ_SLAVE_START_def unat_sub word_le_nat_alt)
  have regs: "imr q (hw (pic_mask_irq B irq st)) = (if q = ?p then imr q (hw st) OR ?b else imr q (hw st))"
      "imr q (hw (pic_unmask_irq B irq st)) = (if q = ?p then imr q (hw st) AND NOT ?b else imr q (hw st))" for q
    using inb_mask [OF p, of st] by (simp_all add: pic_mask_irq_def pic_unmask_irq_def Let_def case_prod_beta outb_mask [OF p])
  have lo: "ucast (push_bit (unat irq) (1 :: u8)) = (push_bit (unat irq) 1 :: u16)" if "unat irq < 8"
    using that by (intro bit_eqI) (auto simp: bit_simps)
  show "fst (pic_get_mask B (pic_mask_irq B irq st)) = fst (pic_get_mask B st) OR push_bit (unat irq) 1"
  proof (cases "unat irq < 8")
    case True
    then show ?thesis using ports_differ unfolding get_mask regs pic_irq_data_port_def pic_irq_bit_single_def mst
      by (intro bit_eqI) (auto simp: bit_simps dest: bit_imp_le_length)
  next
    case False
    then show ?thesis using ports_differ n unfolding get_mask regs pic_irq_data_port_def pic_irq_bit_single_def mst
      by (intro bit_eqI) (auto simp: bit_simps sl dest: bit_imp_le_length)
  qed
  show "fst (pic_get_mask B (pic_unmask_irq B irq st)) = fst (pic_get_mask B st) AND NOT (push_bit (unat irq) 1)"
  proof (cases "unat irq < 8")
    case True
    then show ?thesis using ports_differ unfolding get_mask regs pic_irq_data_port_def pic_irq_bit_single_def mst
      by (intro bit_eqI) (auto simp: bit_simps dest: bit_imp_le_length)
  next
    case False
    then show ?thesis using ports_differ n unfolding get_mask regs pic_irq_data_port_def pic_irq_bit_single_def mst
      by (intro bit_eqI) (auto simp: bit_simps sl dest: bit_imp_le_length)
  qed
qed

end

text \<open>Two chips that store the mask and ignore everything else.\<close>

definition mask_bus :: "(u16 \<Rightarrow> u8) bus" where
  "mask_bus = \<lparr>bus_in = (\<lambda>p h. (h p, h)), bus_out = (\<lambda>v p h. h(p := v))\<rparr>"

interpretation masks: pic_masks mask_bus "\<lambda>p h. h p"
  by unfold_locales (auto simp: mask_bus_def)

section \<open>Properties\<close>

text \<open>
  Property C4. The kernel keeps its scheduler's invariant whatever its user threads do. From a state in which a
  thread runs in user mode and the ring holds the live threads, every sequence of system calls (with any
  number and arguments), timer and device interrupts, exceptions and resumed tasks leads to one of three kinds of states. Control has
  ended in the kernel shell. Or a system call was undefined, and it was the exit of the last live thread or the creation of
  a thread when the 32-bit thread ids are used up. Or again the ring holds exactly the live
  threads (the current one, READY, with its kernel stack set for interrupts, and the others in the ready queue, each ready to be
  switched to), with thread ids that are distinct positive 32-bit numbers, and then the kernel goes on: a task that is restored
  returns from the scheduler, a thread in user mode can be interrupted by every interrupt line, and every system call
  returns, except perhaps \<open>write\<close>, which waits for the serial line, and \<open>exit\<close>, which walks the page tables.
\<close>

theorem kernel_invariant:
  assumes "sched_ring st0 r0" "user_mode ctl0" "(kstep B)\<^sup>*\<^sup>* (st0, ctl0) (st, ctl)"
  shows "ctl = Dead_end \<or>
    (ctl = Undefined_behaviour \<and> (\<exists>st1 r1. sched_ring st1 r1 \<and> undefined_call st1 r1 st)) \<or>
    ((\<exists>r. sched_ring st r) \<and>
      ((user_mode ctl \<and> (\<forall>irq < IRQ_MAX. \<exists>s'. interrupt_dispatch B (munix_drivers B) (IVEC_IRQ_0 + irq) st = Some s') \<and>
        (\<forall>number arg1 arg2 arg3. number \<noteq> SYS_exit \<and> number \<noteq> SYS_write \<longrightarrow>
          (\<exists>s'. syscall_dispatch (munix_drivers B) number arg1 arg2 arg3 st = Some s'))) \<or>
       (\<exists>k s'. ctl = Task_restore k \<and> resumes k \<and> task_resume k st = Some s')))"
proof -
  let ?ub = "\<lambda>s. snd s = Undefined_behaviour \<and> (\<exists>st1 r1. sched_ring st1 r1 \<and> undefined_call st1 r1 (fst s))"
  have inv: "running s' \<or> snd s' = Dead_end \<or> ?ub s'" if run: "running s" and ks: "kstep B s s'" for s s'
    using ks run
  proof cases
    case (Syscall ctl number arg1 arg2 arg3 st)
    then obtain r where "sched_ring st r" using run by (auto simp: running_def)
    from syscall_running [OF this Syscall(3)] this show ?thesis by blast
  next
    case (Interrupt ctl ivec st)
    then obtain r where "sched_ring st r" using run by (auto simp: running_def)
    from interrupt_running [OF this Interrupt(3)] show ?thesis by blast
  next
    case (Resume k st)
    then obtain r where "sched_ring st r" "resumes k" using run by (auto simp: running_def)
    from resume_running [OF this] Resume(2) show ?thesis by auto
  qed
  have stop: "\<not> kstep B (st, c) s'" if "c = Dead_end \<or> c = Undefined_behaviour" for c s' and st :: "('a, 'b) kstate_scheme"
    using that by (auto elim: kstep.cases)
  have "running (st, ctl) \<or> ctl = Dead_end \<or> ?ub (st, ctl)"
    using assms(3)
  proof (induction rule: rtranclp_induct2)
    case refl
    then show ?case using assms(1,2) by (auto simp: running_def)
  next
    case (step st1 c1 st2 c2)
    then show ?case using inv [of "(st1, c1)" "(st2, c2)"] stop by auto
  qed
  moreover have "\<exists>s'. interrupt_dispatch B (munix_drivers B) (IVEC_IRQ_0 + irq) st = Some s'" if "sched_ring st r" "irq < IRQ_MAX" for r irq
    using irq_dispatch [OF that(2), of B "munix_drivers B" st] irq_running [OF that(1), of B "IVEC_IRQ_0 + irq"] by auto
  moreover have "(\<exists>r. sched_ring st r) \<and> (user_mode ctl \<or> (\<exists>k s'. ctl = Task_restore k \<and> resumes k \<and> task_resume k st = Some s'))"
    if "running (st, ctl)" using that resume_running [of st] by (fastforce simp: running_def)
  ultimately show ?thesis using syscall_returns [of st _ _ B] by (auto simp: running_def)
qed

theorem kernel_invariant_witness:
  "(\<exists>r. sched_ring (two_threads :: uart8250 kstate) r) \<and>
   (\<exists>s'. syscall_dispatch (munix_drivers uart_bus) SYS_thrd_create 0 0 0 two_threads = Some s')"
proof -
  have "(kstep uart_bus)\<^sup>*\<^sup>* (two_threads, Return 0) (two_threads, Return 0)" by simp
  from kernel_invariant [OF two_threads_ring _ this] show ?thesis by (simp add: sys_numbers)
qed

definition one_thread :: "uart8250 kstate" where
  "one_thread = kst [ready_thread 0] (INIT_LIST_HEAD \<lparr>lh_next = (\<lambda>_. None), lh_prev = (\<lambda>_. None)\<rparr> ReadyQ)"

lemma one_nth: "i < 16 \<Longrightarrow> tcb one_thread ! i = (if i = 0 then ready_thread 0 else thread0)"
  by (auto simp: one_thread_def kst_simps THREAD_MAX_def nth_append nth_Cons' split: if_splits)

lemma one_thread_ring: "sched_ring one_thread [0]"
proof -
  have f: "next_tid one_thread = 2" "kstacks one_thread = 0x100000" "length (tcb one_thread) = 16"
    by (simp_all add: one_thread_def kst_simps THREAD_MAX_def)
  have t: "tid (ready_thread 0) = 1" "live (ready_thread 0)" "tid thread0 = 0" "\<not> live thread0"
    by (simp_all add: ready_thread_def thread0_def live_def)
  have "tids_ok one_thread"
    by (simp add: tids_ok_def f THREAD_MAX_def one_nth t INT_MAX_def) (simp add: ready_thread_def stack_of_def f KSTACKSZ_def)
  moreover have "set [0] = {i. i < THREAD_MAX \<and> live (tcb one_thread ! i)}"
    by (auto simp: THREAD_MAX_def one_nth t split: if_splits)
  moreover have "queue_ok (ready_queue one_thread) []"
    by (simp add: one_thread_def kst_simps queue_ok_def clist_INIT) (simp add: INIT_LIST_HEAD_def)
  ultimately show ?thesis
    by (simp add: sched_ring_def one_nth) (simp add: one_thread_def kst_simps stack_of_def KSTACKSZ_def ready_thread_def)
qed

text \<open>
  The mask of the interrupt controllers round trips: reading the mask after setting it gives the mask, and
  masking or unmasking one of the sixteen interrupt lines changes exactly its bit. The two chips are a parameter; their
  data ports are assumed to read back what was last written.
\<close>

theorem pic_mask_roundtrip:
  assumes "pic_masks B imr" "irq < IRQ_MAX"
  shows "fst (pic_get_mask B (pic_set_mask B m st)) = m \<and>
    fst (pic_get_mask B (pic_mask_irq B irq st)) = fst (pic_get_mask B st) OR push_bit (unat irq) 1 \<and>
    fst (pic_get_mask B (pic_unmask_irq B irq st)) = fst (pic_get_mask B st) AND NOT (push_bit (unat irq) 1)"
  using pic_masks.set_get [OF assms(1)] pic_masks.mask_irq_bits [OF assms] by blast

theorem pic_mask_roundtrip_witness:
  "fst (pic_get_mask mask_bus (pic_set_mask mask_bus 0xfffe \<lparr>chrdev_drivers = [], fs_drivers = [], superblocks = [],
     vfs_mount_list = \<lparr>lh_next = (\<lambda>_. None), lh_prev = (\<lambda>_. None)\<rparr>, ramdisks = [], kmem = (\<lambda>_. NUL), cfdatas = [], serials = [], hw = (\<lambda>_. 0)\<rparr>)) = 0xfffe"
  by (rule conjunct1 [OF pic_mask_roundtrip [OF masks.pic_masks_axioms, of 0]]) (simp add: IRQ_MAX_def)

end
