(* ===== verification/Segments.thy ===== *)
theory Segments
  imports Interrupts
begin

text \<open>
  Segment descriptors and interrupt gates: the rest of \<open>x86_seg.c\<close> and \<open>cpu_interrupt.c\<close>.

  A bit field of a descriptor is a word of its width, and \<open>segdesc32_raw\<close> and \<open>gate32_raw\<close> are the 64 bits that the packed structs
  have in memory. What the processor makes of them is given by \<open>seg_base\<close>, \<open>seg_limit\<close> and so on, after the manual
  of the processor; it is the reference for the tables that the kernel builds. The registers of the processor
  that the code sets are a record. The functions that format descriptors for log messages give the text that they format.
\<close>

section \<open>Descriptors\<close>

record segdesc32 =
  limit_low :: "16 word"
  base_low :: "16 word"
  base_mid :: "8 word"
  sd_type :: "5 word"
  sd_dpl :: "2 word"
  sd_present :: "1 word"
  limit_high :: "4 word"
  sd_avail :: "1 word"
  sd_db :: "1 word"
  granularity :: "1 word"
  base_high :: "8 word"

definition segdesc0 :: segdesc32 where
  "segdesc0 = \<lparr>limit_low = 0, base_low = 0, base_mid = 0, sd_type = 0, sd_dpl = 0, sd_present = 0, limit_high = 0, sd_avail = 0,
    sd_db = 0, granularity = 0, base_high = 0\<rparr>"

definition segdesc32_raw :: "segdesc32 \<Rightarrow> u64" where
  "segdesc32_raw d =
    ucast (limit_low d) OR push_bit 16 (ucast (base_low d)) OR push_bit 32 (ucast (base_mid d)) OR push_bit 40 (ucast (sd_type d)) OR
    push_bit 45 (ucast (sd_dpl d)) OR push_bit 47 (ucast (sd_present d)) OR push_bit 48 (ucast (limit_high d)) OR
    push_bit 52 (ucast (sd_avail d)) OR push_bit 54 (ucast (sd_db d)) OR push_bit 55 (ucast (granularity d)) OR
    push_bit 56 (ucast (base_high d))"

record gate32 =
  offset_low :: "16 word"
  g_segsel :: "16 word"
  g_type :: "5 word"
  g_dpl :: "2 word"
  g_present :: "1 word"
  offset_high :: "16 word"

definition gate0 :: gate32 where
  "gate0 = \<lparr>offset_low = 0, g_segsel = 0, g_type = 0, g_dpl = 0, g_present = 0, offset_high = 0\<rparr>"

definition gate32_raw :: "gate32 \<Rightarrow> u64" where
  "gate32_raw g =
    ucast (offset_low g) OR push_bit 16 (ucast (g_segsel g)) OR push_bit 40 (ucast (g_type g)) OR push_bit 45 (ucast (g_dpl g)) OR
    push_bit 47 (ucast (g_present g)) OR push_bit 48 (ucast (offset_high g))"

definition KSEG_KERNEL_CODE :: u16 where "KSEG_KERNEL_CODE = 1"
definition KSEG_TSS :: u16 where "KSEG_TSS = 5"
definition X86_SEGSEL_IDX :: "u16 \<Rightarrow> u16" where "X86_SEGSEL_IDX segsel = drop_bit 3 segsel"

definition X86ST_CODE_R :: "5 word" where "X86ST_CODE_R = 0x1a"
definition X86ST_DATA_W :: "5 word" where "X86ST_DATA_W = 0x12"
definition X86ST_TSS :: "5 word" where "X86ST_TSS = 0x09"
definition X86ST_INTRGATE :: "5 word" where "X86ST_INTRGATE = 0x0e"

definition GDT_COMMON :: "segdesc32 \<Rightarrow> segdesc32" where
  "GDT_COMMON d = d\<lparr>limit_low := 0xffff, limit_high := 0xf, granularity := 1, sd_present := 1, sd_db := 1\<rparr>"

definition kernel_gdt :: "segdesc32 list" where
  "kernel_gdt =
    [segdesc0,
     (GDT_COMMON segdesc0)\<lparr>sd_type := X86ST_CODE_R, sd_dpl := ucast PL_KERNEL\<rparr>,
     (GDT_COMMON segdesc0)\<lparr>sd_type := X86ST_DATA_W, sd_dpl := ucast PL_KERNEL\<rparr>,
     (GDT_COMMON segdesc0)\<lparr>sd_type := X86ST_CODE_R, sd_dpl := ucast PL_USER\<rparr>,
     (GDT_COMMON segdesc0)\<lparr>sd_type := X86ST_DATA_W, sd_dpl := ucast PL_USER\<rparr>,
     segdesc0]"

definition sizeof_segdesc32 :: nat where "sizeof_segdesc32 = 8"
definition sizeof_tss32 :: u32 where "sizeof_tss32 = 104"
definition INTR_GATE_MAX :: nat where "INTR_GATE_MAX = 64"
definition IVEC_SYSCALL :: u8 where "IVEC_SYSCALL = 48"

section \<open>Setting up the processor\<close>

text \<open>The registers that the code loads: the two descriptor table registers with base and limit, the task register, and the segment registers.\<close>

record x86_pseudodesc32 =
  pd_limit :: u16
  pd_base :: u32

record cpu =
  gdtr :: x86_pseudodesc32
  idtr :: x86_pseudodesc32
  tr :: u16
  r_cs :: u16
  r_ss :: u16
  r_ds :: u16
  r_es :: u16
  r_fs :: u16
  r_gs :: u16
  gdt :: "segdesc32 list"
  idt :: "gate32 list"

text \<open>The addresses of the static objects and of the interrupt handlers.\<close>

record layout =
  gdt_addr :: u32
  idt_addr :: u32
  tss_addr :: u32
  isr_addr :: "u8 \<Rightarrow> u32"
  isr_syscall :: u32

definition init_gdt :: "layout \<Rightarrow> cpu \<Rightarrow> cpu \<times> int" where
  "init_gdt L c =
    (let c = c\<lparr>gdtr := \<lparr>pd_limit = of_nat (length (gdt c) * sizeof_segdesc32), pd_base = gdt_addr L\<rparr>\<rparr>;
         SEL_KCODE = X86_SEGSEL_INIT KSEG_KERNEL_CODE PL_KERNEL;
         SEL_KDATA = X86_SEGSEL_INIT KSEG_KERNEL_DATA PL_KERNEL
     in (c\<lparr>r_ss := SEL_KDATA, r_gs := SEL_KDATA, r_fs := SEL_KDATA, r_es := SEL_KDATA, r_ds := SEL_KDATA, r_cs := SEL_KCODE\<rparr>, 0))"

definition tss_desc :: "u32 \<Rightarrow> segdesc32" where
  "tss_desc tss =
    segdesc0\<lparr>base_low := ucast (tss AND 0x0000ffff), base_mid := ucast (drop_bit 16 (tss AND 0x00ff0000)),
      base_high := ucast (drop_bit 24 (tss AND 0xff000000)), limit_low := ucast (sizeof_tss32 AND 0x0ffff),
      limit_high := ucast (drop_bit 16 (sizeof_tss32 AND 0xf0000)), granularity := 0, sd_present := 1, sd_db := 1,
      sd_type := X86ST_TSS, sd_dpl := ucast PL_KERNEL\<rparr>"

definition init_tss :: "layout \<Rightarrow> cpu \<Rightarrow> cpu \<times> int" where
  "init_tss L c =
    (c\<lparr>gdt := (gdt c)[unat KSEG_TSS := tss_desc (tss_addr L)], tr := X86_SEGSEL_INIT KSEG_TSS PL_KERNEL\<rparr>, 0)"

definition x86_idt_add_isr :: "gate32 list \<Rightarrow> u8 \<Rightarrow> u32 \<Rightarrow> u16 \<Rightarrow> gate32 list" where
  "x86_idt_add_isr tbl vec isr_fn dpl =
    tbl[unat vec := gate0\<lparr>offset_low := ucast (isr_fn AND 0x0000ffff), offset_high := ucast (drop_bit 16 (isr_fn AND 0xffff0000)),
      g_segsel := X86_SEGSEL_INIT KSEG_KERNEL_CODE PL_KERNEL, g_dpl := ucast dpl, g_type := X86ST_INTRGATE, g_present := 1\<rparr>]"

definition HANDLERS :: "u8 list" where
  "HANDLERS = [0, 6, 8, 10, 11, 12, 13, 14, IVEC_IRQ_0 + IRQ_TIMER]"

definition x86_init_idt :: "layout \<Rightarrow> cpu \<Rightarrow> cpu \<times> int" where
  "x86_init_idt L c =
    (let c = c\<lparr>idtr := \<lparr>pd_limit = of_nat (length (idt c) * sizeof_segdesc32), pd_base = idt_addr L\<rparr>\<rparr>;
         i = foldl (\<lambda>i v. x86_idt_add_isr i v (isr_addr L v) PL_KERNEL) (idt c) HANDLERS;
         i = x86_idt_add_isr i IVEC_SYSCALL (isr_syscall L) PL_USER
     in (c\<lparr>idt := i\<rparr>, 0))"

definition init_cpu :: "layout \<Rightarrow> cpu \<Rightarrow> cpu \<times> int" where
  "init_cpu L c =
    (let (c, res) = init_gdt L c in if res < 0 then (c, res)
     else let (c, res) = x86_init_idt L c in if res < 0 then (c, res)
     else let (c, res) = init_tss L c in if res < 0 then (c, res) else (c, 0))"

text \<open>The static tables before they are initialised.\<close>

definition cpu0 :: "cpu \<Rightarrow> cpu" where
  "cpu0 c = c\<lparr>gdt := kernel_gdt, idt := replicate INTR_GATE_MAX gate0\<rparr>"

section \<open>Interrupt entry\<close>

text \<open>
  The data segments around a handler \<open>h\<close>; \<open>KSEG_KERNEL_DATA\<close>, an index, is loaded as if it were a selector. They are restored when
  the handler returns; otherwise control does not come back here. The value 2 is a null selector, through which a processor that checks segments
  refuses every access to data; the handler \<open>h\<close> of this model goes on as on an emulator that does not check.
\<close>

definition with_kernel_data :: "(cpu \<Rightarrow> (cpu \<times> 's \<times> control) option) \<Rightarrow> cpu \<Rightarrow> (cpu \<times> 's \<times> control) option" where
  "with_kernel_data h c =
    (let ds = r_ds c; es = r_es c
     in map_option (\<lambda>(c, s, ctl). (case ctl of Return _ \<Rightarrow> c\<lparr>r_es := es, r_ds := ds\<rparr> | _ \<Rightarrow> c, s, ctl))
          (h (c\<lparr>r_es := KSEG_KERNEL_DATA, r_ds := KSEG_KERNEL_DATA\<rparr>)))"

definition isr_common_x86 ::
    "'h bus \<Rightarrow> ('h, 'a) kstate_scheme drivers \<Rightarrow> u8 \<Rightarrow> ('h, 'a) kstate_scheme \<Rightarrow> cpu \<Rightarrow> (cpu \<times> ('h, 'a) kstate_scheme \<times> control) option" where
  "isr_common_x86 B D vec st = with_kernel_data (\<lambda>c. map_option (Pair c) (interrupt_dispatch B D vec st))"

definition isr_syscall_stage2 ::
    "('h, 'a) kstate_scheme drivers \<Rightarrow> int \<Rightarrow> u32 \<Rightarrow> u32 \<Rightarrow> u32 \<Rightarrow> ('h, 'a) kstate_scheme \<Rightarrow> cpu \<Rightarrow>
      (cpu \<times> ('h, 'a) kstate_scheme \<times> control) option" where
  "isr_syscall_stage2 D number arg1 arg2 arg3 st = with_kernel_data (\<lambda>c. map_option (Pair c) (syscall_dispatch D number arg1 arg2 arg3 st))"

section \<open>Texts for log messages\<close>

text \<open>The string that \<open>flagstr\<close> leaves in a buffer of \<open>count + 1\<close> bytes.\<close>

definition flag_text :: "u32 \<Rightarrow> nat \<Rightarrow> string \<Rightarrow> string option \<Rightarrow> string" where
  "flag_text flags cnt src1 src0 = mem_read (flagstr (\<lambda>_. NUL) 0 flags cnt src1 src0) 0 cnt"

definition x86st_tostr :: "u32 \<Rightarrow> string" where
  "x86st_tostr segtype =
    (let s = segtype AND 0x10
     in if s = 0
        then fmt_text ''%s'' [VStr 0
          (if segtype = 0x2 then ''LDT'' else if segtype = 0x5 then ''Task Gate'' else if segtype = 0x9 then ''TSS (avail)''
           else if segtype = 0xb then ''TSS (busy)'' else if segtype = 0xc then ''Call Gate'' else if segtype = 0xe then ''Interrupt Gate''
           else if segtype = 0xf then ''Trap Gate'' else ''other'')]
        else let iscode = segtype AND push_bit 4 1;
                 tflags = flag_text segtype 3 (if iscode \<noteq> 0 then ''CRA'' else ''EWA'') None
             in fmt_text ''%s:%s'' [VStr 0 (if iscode \<noteq> 0 then ''code'' else ''data''), VStr 0 tflags])"

definition segdesc32_tostr :: "segdesc32 \<Rightarrow> string" where
  "segdesc32_tostr seg =
    (let base = push_bit 24 (ucast (base_high seg)) OR push_bit 16 (ucast (base_mid seg)) OR ucast (base_low seg) :: u32;
         limit = push_bit 16 (ucast (limit_high seg)) OR ucast (limit_low seg) :: u32;
         limit = (if granularity seg \<noteq> 0 then push_bit 12 limit OR 0xfff else limit);
         high32 = ucast (drop_bit 32 (segdesc32_raw seg)) :: u32;
         flags = flag_text (drop_bit 20 high32) 4 ''GDAL'' None;
         P = (if high32 AND push_bit 15 1 \<noteq> 0 then CHR ''P'' else CHR ''-'')
     in fmt_text ''0x%.8x:%.8zx'' [VWord base, VWord limit] @ fmt_text '' %s %c'' [VStr 0 flags, VWord (of_int (schar P))] @
        fmt_text '' DPL%u '' [VWord (ucast (sd_dpl seg))] @ x86st_tostr (ucast (sd_type seg)))"

definition x86_segsel_tostr :: "u16 \<Rightarrow> string" where
  "x86_segsel_tostr segsel =
    fmt_text ''%s[%zu] RPL%u'' [VStr 0 (if segsel AND 0x4 \<noteq> 0 then ''LDT'' else ''GDT''), VWord (ucast (drop_bit 3 segsel)), VWord (ucast (segsel AND 0x3))]"

definition segdesc32_table_tostr :: "x86_pseudodesc32 \<Rightarrow> segdesc32 list \<Rightarrow> string" where
  "segdesc32_table_tostr desc tbl =
    fmt_text ''%p '' [VWord (pd_base desc)] @ fmt_text ''sz:%u'' [VWord (ucast (pd_limit desc))] @
    (if pd_base desc = 0 then fmt_text '' (not initialized?)'' []
     else concat (map (\<lambda>i. fmt_text (CHR 0x0a # CHR 0x09 # ''[%zu] = 0x%.16llx = '')
            [VWord (of_nat i), VWord (ucast (segdesc32_raw (tbl ! i))), VWord (ucast (drop_bit 32 (segdesc32_raw (tbl ! i))))] @
            segdesc32_tostr (tbl ! i)) [0..<unat (pd_limit desc) div sizeof_segdesc32]))"

definition x86_segregs_tostr :: "cpu \<Rightarrow> u32 \<Rightarrow> u32 \<Rightarrow> string" where
  "x86_segregs_tostr c bp sp =
    concat (map (\<lambda>(nm, v). fmt_text (CHR 0x0a # CHR 0x09 # ''%s = %#4hx ('') [VStr 0 nm, VWord (ucast v)] @ x86_segsel_tostr v @ fmt_text '')'' [])
      [(''cs'', r_cs c), (''ds'', r_ds c), (''es'', r_es c), (''fs'', r_fs c), (''gs'', r_gs c), (''ss'', r_ss c)]) @
    fmt_text (CHR 0x0a # CHR 0x09 # ''%s = %#10zx'') [VStr 0 ''bp'', VWord bp] @
    fmt_text (CHR 0x0a # CHR 0x09 # ''%s = %#10zx'') [VStr 0 ''sp'', VWord sp]"

definition gate32_tostr :: "gate32 \<Rightarrow> string" where
  "gate32_tostr seg =
    (let base = push_bit 16 (ucast (offset_high seg)) OR ucast (offset_low seg) :: u32
     in fmt_text ''%#x'' [VWord base] @ fmt_text '' CS=%#x ('' [VWord (ucast (g_segsel seg))] @ x86_segsel_tostr (g_segsel seg) @
        fmt_text '') %c'' [VWord (of_int (schar (if g_present seg \<noteq> 0 then CHR ''P'' else CHR ''-'')))] @
        fmt_text '' DPL%u '' [VWord (ucast (g_dpl seg))] @ x86st_tostr (ucast (g_type seg)))"

definition ivec_haserrcode :: "u8 \<Rightarrow> bool" where
  "ivec_haserrcode IVEC \<longleftrightarrow> IVEC = 8 \<or> (10 \<le> IVEC \<and> IVEC \<le> 14) \<or> IVEC = 17"

definition ivec_name :: "u8 \<Rightarrow> string" where
  "ivec_name ivec =
    (case map_of [(0, ''#DE - Divide Error''), (1, ''#DB - Debug Exception''), (2, ''NMI - Non-Maskable Interrupt''), (3, ''#BP - Breakpoint''),
       (4, ''#OF - Overflow''), (5, ''#BR - BOUND Range Exceeded''), (6, ''#UD - Undefined Opcode''), (7, ''#NM - No Math Coprocessor''),
       (8, ''#DF - Double Fault''), (9, ''Coprocessor Segment Overrun''), (10, ''#TS - Invalid TSS''), (11, ''#NP - Segment Not Present''),
       (12, ''#SS - Stack-Segment Fault''), (13, ''#GP - General Protection Fault''), (14, ''#PF - Page Fault''), (16, ''#MF - FPU Math Fault''),
       (17, ''#AC - Alignment Check''), (18, ''#MC - Machine Check''), (19, ''#XM - SIMD Exception''), (20, ''#VE - Virtualization Exception''),
       (21, ''#CP - Control Protection Exception''), (IVEC_IRQ_0 + IRQ_TIMER, ''Timer IRQ'')] ivec of
       Some nm \<Rightarrow> nm | None \<Rightarrow> ''[unknown]'')"

definition errcode_tostr :: "u8 \<Rightarrow> u32 \<Rightarrow> string" where
  "errcode_tostr ivec errcode =
    (if ivec \<in> {8, 10, 11, 12, 13}
     then let idx = drop_bit 3 errcode; flags = flag_text errcode 3 ''LIE'' (Some ''g-i'');
              tbl = (if errcode AND 0x2 \<noteq> 0 then ''IDT'' else if errcode AND 0x4 \<noteq> 0 then ''LDT'' else ''GDT'')
          in fmt_text ''%u|%s = %s[%u]'' [VWord idx, VStr 0 flags, VStr 0 tbl, VWord idx]
     else if ivec = 14
     then let flags = flag_text errcode 8 ''HSKIVUWP'' (Some ''---d-srp'');
              sgx = (if errcode AND push_bit 15 1 \<noteq> 0 then CHR ''X'' else CHR ''-'')
          in fmt_text ''%c|%s'' [VWord (of_int (schar sgx)), VStr 0 flags]
     else if ivec = 17
     then fmt_text ''#AC err %c'' [VWord (of_int (schar (if errcode AND 0x1 \<noteq> 0 then CHR ''E'' else CHR ''-'')))]
     else fmt_text ''?'' [])"

definition printval :: "string \<Rightarrow> u32 \<Rightarrow> string" where
  "printval label val = fmt_text (CHR 0x0a # CHR 0x09 # ''%-11s = %#10zx'') [VStr 0 label, VWord val]"

definition x86_intr_frame_tostr :: "x86_intr_frame \<Rightarrow> string" where
  "x86_intr_frame_tostr iframe =
    printval ''ip'' (if_ip iframe) @ printval ''cs'' (if_cs iframe) @ fmt_text '' ('' [] @ x86_segsel_tostr (ucast (if_cs iframe)) @ fmt_text '')'' [] @
    printval ''flags'' (if_flags iframe) @
    (if drop_bit 3 (if_cs iframe) \<noteq> ucast KSEG_KERNEL_CODE
     then printval ''sp'' (if_sp iframe) @ printval ''ss'' (if_ss iframe) @ fmt_text '' ('' [] @ x86_segsel_tostr (ucast (if_ss iframe)) @ fmt_text '')'' []
     else fmt_text ''%s'' [VStr 0 (CHR 0x0a # CHR 0x09 # ''(no stack switch)'')])"

definition intrdata_tostr :: "u8 \<Rightarrow> u32 \<Rightarrow> u32 \<Rightarrow> x86_intr_frame \<Rightarrow> string" where
  "intrdata_tostr ivec errcode fault_addr frame =
    (if ivec_haserrcode ivec
     then printval ''errcode'' errcode @ fmt_text '' ('' [] @ errcode_tostr ivec errcode @ fmt_text '')'' []
     else fmt_text ''%s'' [VStr 0 (CHR 0x0a # CHR 0x09 # ''(no error code)'')]) @
    (if ivec = 14 then printval ''fault_addr'' fault_addr else []) @ x86_intr_frame_tostr frame"

section \<open>What the processor sees\<close>

definition seg_base :: "u64 \<Rightarrow> u32" where
  "seg_base raw = ucast (take_bit 24 (drop_bit 16 raw)) OR push_bit 24 (ucast (drop_bit 56 raw))"

definition seg_limit :: "u64 \<Rightarrow> u32" where
  "seg_limit raw =
    (let lim = ucast (take_bit 16 raw) OR push_bit 16 (ucast (take_bit 4 (drop_bit 48 raw))) :: u32
     in if bit raw 55 then push_bit 12 lim OR 0xfff else lim)"

definition seg_type :: "u64 \<Rightarrow> 5 word" where "seg_type raw = ucast (drop_bit 40 raw)"
definition seg_dpl :: "u64 \<Rightarrow> 2 word" where "seg_dpl raw = ucast (drop_bit 45 raw)"
definition seg_present :: "u64 \<Rightarrow> bool" where "seg_present raw = bit raw 47"

definition gate_offset :: "u64 \<Rightarrow> u32" where
  "gate_offset raw = ucast (take_bit 16 raw) OR push_bit 16 (ucast (drop_bit 48 raw))"

definition gate_sel :: "u64 \<Rightarrow> u16" where "gate_sel raw = ucast (drop_bit 16 raw)"

text \<open>The descriptor that a selector names in the global table; a selector with index 0 is null.\<close>

definition sel_desc :: "segdesc32 list \<Rightarrow> u16 \<Rightarrow> u64 option" where
  "sel_desc tbl sel =
    (let i = unat (drop_bit 3 sel) in if i = 0 \<or> length tbl \<le> i \<or> bit sel 2 then None else Some (segdesc32_raw (tbl ! i)))"

text \<open>User code may raise an interrupt by instruction when the gate is present and its privilege level lets it.\<close>

definition user_may_call :: "gate32 list \<Rightarrow> u8 \<Rightarrow> bool" where
  "user_may_call tbl vec \<longleftrightarrow> unat vec < length tbl \<and> seg_present (gate32_raw (tbl ! unat vec)) \<and> seg_dpl (gate32_raw (tbl ! unat vec)) = ucast PL_USER"

section \<open>The bits of a descriptor\<close>

lemma bit_field: "bit (push_bit k (ucast (w :: 'a :: len word)) :: u64) n \<longleftrightarrow> n < 64 \<and> k \<le> n \<and> n - k < LENGTH('a) \<and> bit w (n - k)"
  by (auto simp: bit_simps dest: bit_imp_le_length)

lemma bit_flag: "k < 64 \<Longrightarrow> n < 64 \<and> k \<le> n \<and> n \<le> k \<and> bit w (n - k) \<longleftrightarrow> n = k \<and> bit (w :: 1 word) 0"
  by auto

lemma bit_range: "k + l \<le> 64 \<Longrightarrow> n < 64 \<and> k \<le> n \<and> n - k < l \<and> bit v (n - k) \<longleftrightarrow> k \<le> n \<and> n < k + l \<and> bit (v :: 'b :: len word) (n - k)"
  by auto

lemma bit_low16: "bit (ucast (w :: u16) :: u64) n \<longleftrightarrow> n < 16 \<and> bit w n"
  by (auto simp: bit_simps dest: bit_imp_le_length)

lemma bit_segdesc:
  "bit (segdesc32_raw d) n \<longleftrightarrow>
    n < 16 \<and> bit (limit_low d) n \<or> 16 \<le> n \<and> n < 32 \<and> bit (base_low d) (n - 16) \<or> 32 \<le> n \<and> n < 40 \<and> bit (base_mid d) (n - 32) \<or>
    40 \<le> n \<and> n < 45 \<and> bit (sd_type d) (n - 40) \<or> 45 \<le> n \<and> n < 47 \<and> bit (sd_dpl d) (n - 45) \<or> n = 47 \<and> bit (sd_present d) 0 \<or>
    48 \<le> n \<and> n < 52 \<and> bit (limit_high d) (n - 48) \<or> n = 52 \<and> bit (sd_avail d) 0 \<or> n = 54 \<and> bit (sd_db d) 0 \<or>
    n = 55 \<and> bit (granularity d) 0 \<or> 56 \<le> n \<and> n < 64 \<and> bit (base_high d) (n - 56)"
  unfolding segdesc32_raw_def bit_or_iff bit_field bit_low16 by (simp add: bit_flag bit_range)

lemma bit_gate:
  "bit (gate32_raw g) n \<longleftrightarrow>
    n < 16 \<and> bit (offset_low g) n \<or> 16 \<le> n \<and> n < 32 \<and> bit (g_segsel g) (n - 16) \<or> 40 \<le> n \<and> n < 45 \<and> bit (g_type g) (n - 40) \<or>
    45 \<le> n \<and> n < 47 \<and> bit (g_dpl g) (n - 45) \<or> n = 47 \<and> bit (g_present g) 0 \<or> 48 \<le> n \<and> n < 64 \<and> bit (offset_high g) (n - 48)"
  unfolding gate32_raw_def bit_or_iff bit_field bit_low16 by (simp add: bit_flag bit_range)

lemma bit_drop_ucast: "bit (ucast (drop_bit k (w :: u64)) :: 'a :: len word) n \<longleftrightarrow> n < LENGTH('a) \<and> bit w (k + n)"
  by (auto simp: bit_simps)

lemma segdesc_fields:
  "seg_type (segdesc32_raw d) = sd_type d" "seg_dpl (segdesc32_raw d) = sd_dpl d" "seg_present (segdesc32_raw d) \<longleftrightarrow> sd_present d = 1"
proof -
  show "seg_type (segdesc32_raw d) = sd_type d" "seg_dpl (segdesc32_raw d) = sd_dpl d"
    unfolding seg_type_def seg_dpl_def by (rule bit_word_eqI; simp add: bit_drop_ucast bit_segdesc)+
  show "seg_present (segdesc32_raw d) \<longleftrightarrow> sd_present d = 1"
    unfolding seg_present_def bit_segdesc by (cases "sd_present d" rule: word_length_one) simp_all
qed
lemma seg_base_fields:
  "seg_base (segdesc32_raw d) = ucast (base_low d) OR push_bit 16 (ucast (base_mid d)) OR push_bit 24 (ucast (base_high d))"
proof (rule bit_word_eqI)
  fix n
  assume n: "n < LENGTH(32)"
  have b: "bit (segdesc32_raw d) (16 + n) \<longleftrightarrow> n < 16 \<and> bit (base_low d) n \<or> 16 \<le> n \<and> n < 24 \<and> bit (base_mid d) (n - 16)" if "n < 24"
    unfolding bit_segdesc using that by auto
  have h: "bit (segdesc32_raw d) (56 + (n - 24)) \<longleftrightarrow> bit (base_high d) (n - 24)" if "24 \<le> n"
    unfolding bit_segdesc using that n by auto
  show "bit (seg_base (segdesc32_raw d)) n =
      bit (ucast (base_low d) OR push_bit 16 (ucast (base_mid d)) OR push_bit 24 (ucast (base_high d)) :: u32) n"
    using n b h unfolding seg_base_def by (cases "n < 24") (auto simp: bit_simps dest: bit_imp_le_length)
qed

lemma seg_limit_fields:
  "seg_limit (segdesc32_raw d) =
    (let lim = ucast (limit_low d) OR push_bit 16 (ucast (limit_high d)) in if granularity d = 1 then push_bit 12 lim OR 0xfff else lim)"
proof -
  have "ucast (take_bit 16 (segdesc32_raw d)) = (ucast (limit_low d) :: u32)"
    by (rule bit_word_eqI) (auto simp: bit_simps bit_segdesc dest: bit_imp_le_length)
  moreover have "ucast (take_bit 4 (drop_bit 48 (segdesc32_raw d))) = (ucast (limit_high d) :: u32)"
    by (rule bit_word_eqI) (auto simp: bit_simps bit_segdesc dest: bit_imp_le_length)
  moreover have "bit (segdesc32_raw d) 55 \<longleftrightarrow> granularity d = 1"
    unfolding bit_segdesc by (cases "granularity d" rule: word_length_one) simp_all
  ultimately show ?thesis by (simp add: seg_limit_def)
qed

lemma gate_fields:
  "seg_type (gate32_raw g) = g_type g" "seg_dpl (gate32_raw g) = g_dpl g" "seg_present (gate32_raw g) \<longleftrightarrow> g_present g = 1"
  "gate_sel (gate32_raw g) = g_segsel g"
proof -
  show "seg_type (gate32_raw g) = g_type g" "seg_dpl (gate32_raw g) = g_dpl g" "gate_sel (gate32_raw g) = g_segsel g"
    unfolding seg_type_def seg_dpl_def gate_sel_def by (rule bit_word_eqI; simp add: bit_drop_ucast bit_gate)+
  show "seg_present (gate32_raw g) \<longleftrightarrow> g_present g = 1"
    unfolding seg_present_def bit_gate by (cases "g_present g" rule: word_length_one) simp_all
qed

lemma gate_offset_fields: "gate_offset (gate32_raw g) = ucast (offset_low g) OR push_bit 16 (ucast (offset_high g))"
proof (rule bit_word_eqI)
  fix n
  assume n: "n < LENGTH(32)"
  have "bit (gate32_raw g) (48 + (n - 16)) \<longleftrightarrow> bit (offset_high g) (n - 16)" if "16 \<le> n" unfolding bit_gate using that n by auto
  moreover have "bit (gate32_raw g) n \<longleftrightarrow> bit (offset_low g) n" if "n < 16" unfolding bit_gate using that by auto
  ultimately show "bit (gate_offset (gate32_raw g)) n = bit (ucast (offset_low g) OR push_bit 16 (ucast (offset_high g)) :: u32) n"
    using n unfolding gate_offset_def by (cases "n < 16") (auto simp: bit_simps dest: bit_imp_le_length)
qed

text \<open>The kernel cuts an address into the fields of a descriptor with masks and shifts; the processor puts it together again.\<close>

lemma and_mask: "(x :: u32) AND 65535 = take_bit 16 x" "(x :: u32) AND 255 = take_bit 8 x"
  by (simp_all add: take_bit_eq_mask mask_eq_exp_minus_1)

lemma join_halves: "ucast (ucast (a AND 65535) :: u16) OR push_bit 16 (ucast (ucast (drop_bit 16 a AND 65535) :: u16)) = (a :: u32)"
  unfolding and_mask
proof (rule bit_word_eqI)
  fix n
  assume "n < LENGTH(32)"
  then show "bit (ucast (ucast (take_bit 16 a) :: u16) OR push_bit 16 (ucast (ucast (take_bit 16 (drop_bit 16 a)) :: u16)) :: u32) n = bit a n"
    by (cases "n < 16") (auto simp: bit_simps)
qed

lemma join_tss:
  "ucast (ucast (a AND 65535) :: u16) OR push_bit 16 (ucast (ucast (drop_bit 16 a AND 255) :: u8)) OR
   push_bit 24 (ucast (ucast (drop_bit 24 a AND 255) :: u8)) = (a :: u32)"
  unfolding and_mask
proof (rule bit_word_eqI)
  fix n
  assume "n < LENGTH(32)"
  then consider "n < 16" | "16 \<le> n" "n < 24" | "24 \<le> n" "n < 32" by fastforce
  then show "bit (ucast (ucast (take_bit 16 a) :: u16) OR push_bit 16 (ucast (ucast (take_bit 8 (drop_bit 16 a)) :: u8)) OR
      push_bit 24 (ucast (ucast (take_bit 8 (drop_bit 24 a)) :: u8)) :: u32) n = bit a n"
    by cases (auto simp: bit_simps)
qed

lemma tss_desc_base: "seg_base (segdesc32_raw (tss_desc a)) = a"
  unfolding seg_base_fields by (simp add: tss_desc_def join_tss)

lemma add_isr_gate:
  assumes "unat vec < length tbl"
  shows "gate_offset (gate32_raw (x86_idt_add_isr tbl vec fn dpl ! unat vec)) = fn" "seg_dpl (gate32_raw (x86_idt_add_isr tbl vec fn dpl ! unat vec)) = ucast dpl"
    "seg_present (gate32_raw (x86_idt_add_isr tbl vec fn dpl ! unat vec))"
    "gate_sel (gate32_raw (x86_idt_add_isr tbl vec fn dpl ! unat vec)) = X86_SEGSEL_INIT KSEG_KERNEL_CODE PL_KERNEL"
    "seg_type (gate32_raw (x86_idt_add_isr tbl vec fn dpl ! unat vec)) = X86ST_INTRGATE"
  using assms by (simp_all add: x86_idt_add_isr_def gate_offset_fields gate_fields join_halves)
section \<open>The tables that the kernel installs\<close>

definition isr_gate :: "u32 \<Rightarrow> u16 \<Rightarrow> gate32" where
  "isr_gate fn dpl = gate0\<lparr>offset_low := ucast (fn AND 0x0000ffff), offset_high := ucast (drop_bit 16 (fn AND 0xffff0000)),
      g_segsel := X86_SEGSEL_INIT KSEG_KERNEL_CODE PL_KERNEL, g_dpl := ucast dpl, g_type := X86ST_INTRGATE, g_present := 1\<rparr>"

lemma add_isr_eq: "x86_idt_add_isr tbl vec fn dpl = tbl[unat vec := isr_gate fn dpl]"
  by (simp add: x86_idt_add_isr_def isr_gate_def)

lemma isr_gate_decode:
  "gate_offset (gate32_raw (isr_gate fn dpl)) = fn" "seg_dpl (gate32_raw (isr_gate fn dpl)) = ucast dpl" "seg_present (gate32_raw (isr_gate fn dpl))"
  "gate_sel (gate32_raw (isr_gate fn dpl)) = X86_SEGSEL_INIT KSEG_KERNEL_CODE PL_KERNEL" "seg_type (gate32_raw (isr_gate fn dpl)) = X86ST_INTRGATE"
  by (simp_all add: isr_gate_def gate_offset_fields gate_fields join_halves)

lemma foldl_add_isr:
  "i < length tbl \<Longrightarrow> foldl (\<lambda>t v. t[unat v := isr_gate (f v) dpl]) tbl vs ! i =
    (if i \<in> unat ` set vs then isr_gate (f (of_nat i)) dpl else tbl ! i)"
proof (induction vs arbitrary: tbl)
  case (Cons v vs)
  have "foldl (\<lambda>t v. t[unat v := isr_gate (f v) dpl]) tbl (v # vs) ! i =
      (if i \<in> unat ` set vs then isr_gate (f (of_nat i)) dpl else tbl[unat v := isr_gate (f v) dpl] ! i)"
    using Cons by simp
  then show ?case using Cons.prems by (auto simp: nth_list_update)
qed simp

lemma length_foldl_add_isr: "length (foldl (\<lambda>t v. t[unat v := isr_gate (f v) dpl]) tbl vs) = length tbl"
  by (induction vs arbitrary: tbl) simp_all

definition kernel_cpu :: "layout \<Rightarrow> cpu \<Rightarrow> cpu" where
  "kernel_cpu L c = fst (init_cpu L (cpu0 c))"

lemma kernel_cpu_idt:
  assumes "i < INTR_GATE_MAX"
  shows "idt (kernel_cpu L c) ! i = (if i = unat IVEC_SYSCALL then isr_gate (isr_syscall L) PL_USER
      else if i \<in> unat ` set HANDLERS then isr_gate (isr_addr L (of_nat i)) PL_KERNEL else gate0)"
proof -
  have "idt (kernel_cpu L c) = x86_idt_add_isr (foldl (\<lambda>i v. x86_idt_add_isr i v (isr_addr L v) PL_KERNEL) (replicate INTR_GATE_MAX gate0) HANDLERS)
      IVEC_SYSCALL (isr_syscall L) PL_USER"
    by (simp add: kernel_cpu_def init_cpu_def init_gdt_def x86_init_idt_def init_tss_def cpu0_def Let_def)
  then show ?thesis using assms unfolding add_isr_eq by (auto simp: nth_list_update length_foldl_add_isr foldl_add_isr)
qed

lemma kernel_cpu_regs:
  "gdt (kernel_cpu L c) = kernel_gdt[5 := tss_desc (tss_addr L)]" "tr (kernel_cpu L c) = 0x28" "r_cs (kernel_cpu L c) = 0x08"
  "r_ds (kernel_cpu L c) = 0x10" "r_ss (kernel_cpu L c) = 0x10" "snd (init_cpu L (cpu0 c)) = 0" "length (idt (kernel_cpu L c)) = INTR_GATE_MAX"
  by (simp_all add: kernel_cpu_def init_cpu_def init_gdt_def x86_init_idt_def init_tss_def cpu0_def Let_def KSEG_TSS_def KSEG_KERNEL_CODE_def
      KSEG_KERNEL_DATA_def PL_KERNEL_def X86_SEGSEL_INIT_def push_bit_eq_mult add_isr_eq length_foldl_add_isr)

text \<open>A segment over the whole address space with a privilege level and a type.\<close>

definition flat_seg :: "2 word \<Rightarrow> 5 word \<Rightarrow> u64 \<Rightarrow> bool" where
  "flat_seg dpl ty raw \<longleftrightarrow> seg_base raw = 0 \<and> seg_limit raw = 0xffffffff \<and> seg_present raw \<and> seg_dpl raw = dpl \<and> seg_type raw = ty"

text \<open>The interrupt \<open>vec\<close> enters the kernel at \<open>fn\<close>: its gate is a present interrupt gate with this offset, and the gate's selector
  names a flat code segment of level 0.\<close>

definition gate_enters :: "cpu \<Rightarrow> u8 \<Rightarrow> u32 \<Rightarrow> bool" where
  "gate_enters c vec fn \<longleftrightarrow> unat vec < length (idt c) \<and>
    (let raw = gate32_raw (idt c ! unat vec)
     in seg_present raw \<and> seg_type raw = X86ST_INTRGATE \<and> gate_offset raw = fn \<and>
        (\<exists>r. sel_desc (gdt c) (gate_sel raw) = Some r \<and> flat_seg 0 X86ST_CODE_R r))"

lemma flat_common:
  "flat_seg dpl ty (segdesc32_raw ((GDT_COMMON segdesc0)\<lparr>sd_type := ty, sd_dpl := dpl\<rparr>))"
  by (simp add: flat_seg_def seg_base_fields seg_limit_fields segdesc_fields GDT_COMMON_def segdesc0_def push_bit_eq_mult)

lemma sel_desc_small: "unat (drop_bit 3 sel) = i \<Longrightarrow> 0 < i \<Longrightarrow> i < length tbl \<Longrightarrow> \<not> bit sel 2 \<Longrightarrow> sel_desc tbl sel = Some (segdesc32_raw (tbl ! i))"
  by (simp add: sel_desc_def)

text \<open>
  Property C22. A descriptor means to the processor what the kernel put into its fields: base, limit, type, privilege level and presence read
  from the 64 bits of a packed descriptor are those of the struct.
\<close>

theorem segdesc32_decodes:
  "seg_base (segdesc32_raw d) = ucast (base_low d) OR push_bit 16 (ucast (base_mid d)) OR push_bit 24 (ucast (base_high d)) \<and>
   seg_limit (segdesc32_raw d) =
    (let lim = ucast (limit_low d) OR push_bit 16 (ucast (limit_high d)) in if granularity d = 1 then push_bit 12 lim OR 0xfff else lim) \<and>
   seg_type (segdesc32_raw d) = sd_type d \<and> seg_dpl (segdesc32_raw d) = sd_dpl d \<and> (seg_present (segdesc32_raw d) \<longleftrightarrow> sd_present d = 1)"
  by (intro conjI seg_base_fields seg_limit_fields segdesc_fields)

text \<open>
  Property C21. After \<open>init_cpu\<close> the kernel runs in flat segments of privilege level 0; the code and stack selectors with which \<open>cpu_user_start\<close>
  enters user mode name flat segments of level 3; the task register names the task state segment at its address; every exception that the kernel
  handles, the timer and the system call have a present interrupt gate to their handler, whose selector names the flat code segment of level 0;
  and the system call is the only interrupt that user code can raise by itself.
\<close>

theorem init_cpu_protects:
  assumes "c' = kernel_cpu L c" "cpu_user_start a sp = User_start fr"
  shows "(\<exists>r. sel_desc (gdt c') (r_cs c') = Some r \<and> flat_seg 0 X86ST_CODE_R r) \<and> (\<exists>r. sel_desc (gdt c') (r_ds c') = Some r \<and> flat_seg 0 X86ST_DATA_W r) \<and>
    (\<exists>r. sel_desc (gdt c') (ucast (if_cs fr)) = Some r \<and> flat_seg 3 X86ST_CODE_R r) \<and>
    (\<exists>r. sel_desc (gdt c') (ucast (if_ss fr)) = Some r \<and> flat_seg 3 X86ST_DATA_W r) \<and>
    (\<exists>r. sel_desc (gdt c') (tr c') = Some r \<and> seg_base r = tss_addr L \<and> seg_type r = X86ST_TSS \<and> seg_present r) \<and>
    (\<forall>v \<in> set HANDLERS. gate_enters c' v (isr_addr L v)) \<and> gate_enters c' IVEC_SYSCALL (isr_syscall L) \<and>
    (\<forall>v. user_may_call (idt c') v \<longleftrightarrow> v = IVEC_SYSCALL)"
proof (intro conjI)
  note regs = kernel_cpu_regs [of L c, folded assms(1)]
  have sel: "ucast (if_cs fr) = (0x1b :: u16)" "ucast (if_ss fr) = (0x23 :: u16)"
    using assms(2) by (auto simp: cpu_user_start_def X86_SEGSEL_INIT_def KSEG_USER_CODE_def KSEG_USER_DATA_def PL_USER_def push_bit_eq_mult)
  have g: "gdt c' ! 1 = (GDT_COMMON segdesc0)\<lparr>sd_type := X86ST_CODE_R, sd_dpl := 0\<rparr>" "gdt c' ! 2 = (GDT_COMMON segdesc0)\<lparr>sd_type := X86ST_DATA_W, sd_dpl := 0\<rparr>"
    "gdt c' ! 3 = (GDT_COMMON segdesc0)\<lparr>sd_type := X86ST_CODE_R, sd_dpl := 3\<rparr>" "gdt c' ! 4 = (GDT_COMMON segdesc0)\<lparr>sd_type := X86ST_DATA_W, sd_dpl := 3\<rparr>"
    "gdt c' ! 5 = tss_desc (tss_addr L)" "length (gdt c') = 6"
    unfolding regs by (simp_all add: kernel_gdt_def PL_KERNEL_def PL_USER_def)
  show "\<exists>r. sel_desc (gdt c') (r_cs c') = Some r \<and> flat_seg 0 X86ST_CODE_R r"
    using sel_desc_small [of "r_cs c'" 1 "gdt c'"] g flat_common [of 0 X86ST_CODE_R] regs(3) by (simp add: drop_bit_eq_div)
  show "\<exists>r. sel_desc (gdt c') (r_ds c') = Some r \<and> flat_seg 0 X86ST_DATA_W r"
    using sel_desc_small [of "r_ds c'" 2 "gdt c'"] g flat_common [of 0 X86ST_DATA_W] regs(4) by (simp add: drop_bit_eq_div)
  show "\<exists>r. sel_desc (gdt c') (ucast (if_cs fr)) = Some r \<and> flat_seg 3 X86ST_CODE_R r"
    using sel_desc_small [of "0x1b" 3 "gdt c'"] g flat_common [of 3 X86ST_CODE_R] unfolding sel by (simp add: drop_bit_eq_div)
  show "\<exists>r. sel_desc (gdt c') (ucast (if_ss fr)) = Some r \<and> flat_seg 3 X86ST_DATA_W r"
    using sel_desc_small [of "0x23" 4 "gdt c'"] g flat_common [of 3 X86ST_DATA_W] unfolding sel by (simp add: drop_bit_eq_div)
  show "\<exists>r. sel_desc (gdt c') (tr c') = Some r \<and> seg_base r = tss_addr L \<and> seg_type r = X86ST_TSS \<and> seg_present r"
    using sel_desc_small [of "tr c'" 5 "gdt c'"] g(5,6) regs(2) tss_desc_base [of "tss_addr L"]
    by (simp add: drop_bit_eq_div segdesc_fields tss_desc_def)
  have ent: "idt c' ! i = (if i = unat IVEC_SYSCALL then isr_gate (isr_syscall L) PL_USER
      else if i \<in> unat ` set HANDLERS then isr_gate (isr_addr L (of_nat i)) PL_KERNEL else gate0)" if "i < INTR_GATE_MAX" for i
    using kernel_cpu_idt [OF that, of L c] unfolding assms(1) .
  have "unat v < INTR_GATE_MAX \<and> unat v \<noteq> unat IVEC_SYSCALL" if "v \<in> set HANDLERS" for v
    using that by (auto simp: HANDLERS_def INTR_GATE_MAX_def IVEC_SYSCALL_def IVEC_IRQ_0_def IRQ_TIMER_def)
  note hv = this
  have gs: "\<exists>r. sel_desc (gdt c') (X86_SEGSEL_INIT KSEG_KERNEL_CODE PL_KERNEL) = Some r \<and> flat_seg 0 X86ST_CODE_R r"
    using sel_desc_small [of "8" 1 "gdt c'"] g flat_common [of 0 X86ST_CODE_R]
    by (simp add: drop_bit_eq_div X86_SEGSEL_INIT_def KSEG_KERNEL_CODE_def PL_KERNEL_def push_bit_eq_mult)
  have enters: "gate_enters c' v fn" if "unat v < INTR_GATE_MAX" "idt c' ! unat v = isr_gate fn dpl" for v fn dpl
    using that gs regs(7) by (simp add: gate_enters_def Let_def isr_gate_decode)
  show "\<forall>v \<in> set HANDLERS. gate_enters c' v (isr_addr L v)"
    using ent hv by (auto intro!: enters [where dpl = PL_KERNEL])
  show "gate_enters c' IVEC_SYSCALL (isr_syscall L)"
    using ent [of "unat IVEC_SYSCALL"] by (intro enters [where dpl = PL_USER]) (simp_all add: INTR_GATE_MAX_def IVEC_SYSCALL_def)
  show "\<forall>v. user_may_call (idt c') v \<longleftrightarrow> v = IVEC_SYSCALL"
  proof
    fix v
    show "user_may_call (idt c') v \<longleftrightarrow> v = IVEC_SYSCALL"
    proof (cases "unat v < INTR_GATE_MAX")
      case True
      have "v = IVEC_SYSCALL \<longleftrightarrow> unat v = unat IVEC_SYSCALL" by (simp add: word_unat_eq_iff)
      then show ?thesis using True ent [OF True] regs(7)
        by (auto simp: user_may_call_def gate_fields isr_gate_def gate0_def PL_KERNEL_def PL_USER_def)
    next
      case False
      then show ?thesis using regs(7) by (auto simp: user_may_call_def INTR_GATE_MAX_def IVEC_SYSCALL_def)
    qed
  qed
qed

definition cpu_reset :: cpu where
  "cpu_reset = (let pd = \<lparr>pd_limit = 0, pd_base = 0\<rparr>
    in \<lparr>gdtr = pd, idtr = pd, tr = 0, r_cs = 0, r_ss = 0, r_ds = 0x10, r_es = 0x10, r_fs = 0, r_gs = 0, gdt = [], idt = []\<rparr>)"

definition layout0 :: layout where
  "layout0 = \<lparr>gdt_addr = 0x1000, idt_addr = 0x2000, tss_addr = 0x3000, isr_addr = (\<lambda>v. 0x10000 + 16 * ucast v), isr_syscall = 0x20000\<rparr>"

theorem init_cpu_protects_witness:
  "(\<forall>v. user_may_call (idt (kernel_cpu layout0 cpu_reset)) v \<longleftrightarrow> v = IVEC_SYSCALL) \<and>
   gate_enters (kernel_cpu layout0 cpu_reset) IVEC_SYSCALL 0x20000 \<and> gate_enters (kernel_cpu layout0 cpu_reset) 32 0x10200"
proof -
  obtain fr where "cpu_user_start 0x400000 0x500000 = User_start fr" by (simp add: cpu_user_start_def)
  from init_cpu_protects [OF refl this, of layout0 cpu_reset]
  show ?thesis by (simp add: HANDLERS_def IVEC_IRQ_0_def IRQ_TIMER_def layout0_def)
qed

text \<open>The text for a data segment calls it code, because the test for code looks at the bit that code and data segments share.\<close>

lemma data_segment_shown_as_code: "x86st_tostr (ucast X86ST_DATA_W) = ''code:-R-''"
  by code_simp

end
