(* ===== verification/Boot.thy ===== *)
theory Boot
  imports Process
begin

text \<open>
  The information that the boot loader leaves in memory (\<open>lib/arch/i386/boot_mb2.c\<close>, with the structs and constants of
  \<open>oss/multiboot2.h\<close> that it uses).

  \<open>read_boot_info\<close> walks over the tags in the memory \<open>m\<close>. Its result is the filled struct and the list of log messages; it is
  \<^const>\<open>None\<close> when the walk does not end, when a string has no end, and when a memory map has entries of size 0, which is a
  division by zero. The datatype \<open>mb2_tag\<close> has the tags of the Multiboot 2 specification that the kernel looks into, \<open>tag_bytes\<close> is
  their layout in memory, and the theorem on \<open>read_boot_info\<close> says what is made of a list of them.
\<close>

section \<open>Reading the tags\<close>

definition MULTIBOOT2_BOOTLOADER_MAGIC :: u32 where "MULTIBOOT2_BOOTLOADER_MAGIC = 0x36d76289"
definition MULTIBOOT_TAG_ALIGN :: u32 where "MULTIBOOT_TAG_ALIGN = 8"
definition MULTIBOOT_TAG_TYPE_END :: u32 where "MULTIBOOT_TAG_TYPE_END = 0"
definition MULTIBOOT_TAG_TYPE_CMDLINE :: u32 where "MULTIBOOT_TAG_TYPE_CMDLINE = 1"
definition MULTIBOOT_TAG_TYPE_BOOT_LOADER_NAME :: u32 where "MULTIBOOT_TAG_TYPE_BOOT_LOADER_NAME = 2"
definition MULTIBOOT_TAG_TYPE_MODULE :: u32 where "MULTIBOOT_TAG_TYPE_MODULE = 3"
definition MULTIBOOT_TAG_TYPE_BASIC_MEMINFO :: u32 where "MULTIBOOT_TAG_TYPE_BASIC_MEMINFO = 4"
definition MULTIBOOT_TAG_TYPE_MMAP :: u32 where "MULTIBOOT_TAG_TYPE_MMAP = 6"
definition MULTIBOOT_TAG_TYPE_FRAMEBUFFER :: u32 where "MULTIBOOT_TAG_TYPE_FRAMEBUFFER = 8"
definition MULTIBOOT_TAG_TYPE_LOAD_BASE_ADDR :: u32 where "MULTIBOOT_TAG_TYPE_LOAD_BASE_ADDR = 21"
definition MULTIBOOT_FRAMEBUFFER_TYPE_EGA_TEXT :: u32 where "MULTIBOOT_FRAMEBUFFER_TYPE_EGA_TEXT = 2"

definition sizeof_multiboot_tag_mmap :: u32 where "sizeof_multiboot_tag_mmap = 16"
definition sizeof_multiboot_mmap_entry :: nat where "sizeof_multiboot_mmap_entry = 24"

definition field32 :: "mem \<Rightarrow> nat \<Rightarrow> u32" where
  "field32 m a = word32 (mem_read m a 4) 0"

definition field8 :: "mem \<Rightarrow> nat \<Rightarrow> u32" where
  "field8 m a = of_int (uchar (m a))"

definition tag_str :: "mem \<Rightarrow> nat \<Rightarrow> string option" where
  "tag_str m a = map_option (mem_read m a) (strlen m a)"

definition log_line :: "string \<Rightarrow> va_slot list \<Rightarrow> string" where
  "log_line fm args = fmt_text (fm @ [CHR 0x0a]) args"

definition mmap_typestr :: "u32 \<Rightarrow> string" where
  "mmap_typestr mmap_type =
    (if mmap_type = 1 then ''AVAILABLE'' else if mmap_type = 2 then ''RESERVED'' else if mmap_type = 3 then ''ACPI_RECLAIMABLE''
     else if mmap_type = 4 then ''NVS'' else if mmap_type = 5 then ''BAD_RAM'' else ''unknown'')"

text \<open>An argument of type \<open>unsigned long long\<close> takes two slots of the argument list, the low half first.\<close>

definition mmap_line :: "u32 \<Rightarrow> u32 \<Rightarrow> u32 \<Rightarrow> u32 \<Rightarrow> u32 \<Rightarrow> string" where
  "mmap_line addr_low addr_high len_low len_high ty =
    log_line (CHR 0x09 # ''entry: %#10llx: %#10llx bytes type %u %s'')
      [VWord addr_low, VWord addr_high, VWord len_low, VWord len_high, VWord ty, VStr 0 (mmap_typestr ty)]"

definition read_mmap_entry :: "mem \<Rightarrow> nat \<Rightarrow> string" where
  "read_mmap_entry m e = mmap_line (field32 m e) (field32 m (e + 4)) (field32 m (e + 8)) (field32 m (e + 12)) (field32 m (e + 16))"

definition read_tag :: "mem \<Rightarrow> nat \<Rightarrow> boot_info \<Rightarrow> (boot_info \<times> string list) option" where
  "read_tag m tag b =
    (let type = field32 m tag; size = field32 m (tag + 4)
     in if type = MULTIBOOT_TAG_TYPE_END then Some (b, [log_line ''tag: end'' []])
        else if type = MULTIBOOT_TAG_TYPE_CMDLINE
        then map_option (\<lambda>s. (b, [log_line ''tag: cmdline = \"%s\"'' [VStr (of_nat (tag + 8)) s]])) (tag_str m (tag + 8))
        else if type = MULTIBOOT_TAG_TYPE_BOOT_LOADER_NAME
        then map_option (\<lambda>s. (b, [log_line ''tag: bootloader name = \"%s\"'' [VStr (of_nat (tag + 8)) s]])) (tag_str m (tag + 8))
        else if type = MULTIBOOT_TAG_TYPE_BASIC_MEMINFO
        then Some (b, [log_line ''tag: mem info: lower=%uk, upper=%uk'' [VWord (field32 m (tag + 8)), VWord (field32 m (tag + 12))]])
        else if type = MULTIBOOT_TAG_TYPE_LOAD_BASE_ADDR
        then let load_base_addr = field32 m (tag + 8)
             in Some (b\<lparr>kernel_location := load_base_addr\<rparr>, [log_line ''tag: load base addr = %p'' [VWord load_base_addr]])
        else if type = MULTIBOOT_TAG_TYPE_MMAP
        then let entry_size = field32 m (tag + 8); entry_version = field32 m (tag + 12)
             in if entry_size = 0 then None
                else let entryct = unat ((size - sizeof_multiboot_tag_mmap) div entry_size)
                     in Some (b, log_line ''tag: memory map: entry version %u (entry size %ub)'' [VWord entry_version, VWord entry_size]
                              # map (\<lambda>i. read_mmap_entry m (tag + unat sizeof_multiboot_tag_mmap + sizeof_multiboot_mmap_entry * i)) [0..<entryct])
        else if type = MULTIBOOT_TAG_TYPE_FRAMEBUFFER
        then let addr = field32 m (tag + 8); addr_high = field32 m (tag + 12); pitch = field32 m (tag + 16); width = field32 m (tag + 20);
                 height = field32 m (tag + 24); bpp = field8 m (tag + 28); fbtype = field8 m (tag + 29)
             in Some (if fbtype = MULTIBOOT_FRAMEBUFFER_TYPE_EGA_TEXT
                      then b\<lparr>text_fb_addr := addr, text_fb_width := width, text_fb_height := height\<rparr> else b,
                  [log_line ''tag: framebuffer: addr=%#llx, pitch=%u, width=%u, height=%u, bpp=%u, type=%u''
                     [VWord addr, VWord addr_high, VWord pitch, VWord width, VWord height, VWord bpp, VWord fbtype]])
        else if type = MULTIBOOT_TAG_TYPE_MODULE
        then let mod_start = field32 m (tag + 8); mod_end = field32 m (tag + 12)
             in map_option (\<lambda>s. (b\<lparr>initrd_addr := unat mod_start, initrd_size := unat (mod_end - mod_start)\<rparr>,
                    [log_line ''tag: module: start=%#x, end=%#x, cmdline=\"%s\"'' [VWord mod_start, VWord mod_end, VStr (of_nat (tag + 1)) s]]))
                  (tag_str m (tag + 1))
        else Some (b, [log_line ''tag: type %2u (size %4u)'' [VWord type, VWord size]]))"

partial_function (option) read_tags :: "mem \<Rightarrow> u32 \<Rightarrow> u32 \<Rightarrow> boot_info \<Rightarrow> string list \<Rightarrow> (boot_info \<times> string list) option" where
  "read_tags m pos fin b log =
    (if pos < fin
     then Option.bind (read_tag m (unat pos) b) (\<lambda>(b, l).
            read_tags m (pos + ALIGN_UP (field32 m (unat pos + 4)) MULTIBOOT_TAG_ALIGN) fin b (log @ l))
     else Some (b, log))"

definition read_boot_info :: "mem \<Rightarrow> u32 \<Rightarrow> u32 \<Rightarrow> boot_info \<Rightarrow> (boot_info \<times> string list \<times> int) option" where
  "read_boot_info m mb2_magic mb2_boot_info b =
    (let res = (if mb2_magic = MULTIBOOT2_BOOTLOADER_MAGIC then 0 else err EINVAL);
         log = [log_line ''got mb2 magic number %#x'' [VWord mb2_magic]]
     in if res < 0 then Some (b, log, 0)
        else map_option (\<lambda>(b, log). (b, log, 0))
               (read_tags m (mb2_boot_info + 8) (mb2_boot_info + field32 m (unat mb2_boot_info)) b
                  (log @ [log_line ''reading Multiboo2 boot info...'' []])))"

section \<open>Tags and their layout\<close>

datatype mb2_tag =
    Tag_end
  | Tag_cmdline string
  | Tag_boot_loader_name string
  | Tag_basic_meminfo u32 u32
  | Tag_load_base_addr u32
  | Tag_mmap u32 "(u32 \<times> u32 \<times> u32 \<times> u32 \<times> u32 \<times> u32) list"
  | Tag_framebuffer u32 u32 u32 u32 u32 char char string
  | Tag_module u32 u32 string
  | Tag_other u32 string

fun tag_type :: "mb2_tag \<Rightarrow> u32" where
  "tag_type Tag_end = 0"
| "tag_type (Tag_cmdline s) = 1"
| "tag_type (Tag_boot_loader_name s) = 2"
| "tag_type (Tag_basic_meminfo lo up) = 4"
| "tag_type (Tag_load_base_addr a) = 21"
| "tag_type (Tag_mmap ver es) = 6"
| "tag_type (Tag_framebuffer a a' p w h bpp ty rest) = 8"
| "tag_type (Tag_module s e c) = 3"
| "tag_type (Tag_other ty body) = ty"

definition entry_bytes :: "u32 \<times> u32 \<times> u32 \<times> u32 \<times> u32 \<times> u32 \<Rightarrow> string" where
  "entry_bytes e = (case e of (a, a', l, l', ty, z) \<Rightarrow> concat (map le32 [a, a', l, l', ty, z]))"

fun tag_body :: "mb2_tag \<Rightarrow> string" where
  "tag_body Tag_end = []"
| "tag_body (Tag_cmdline s) = s @ [NUL]"
| "tag_body (Tag_boot_loader_name s) = s @ [NUL]"
| "tag_body (Tag_basic_meminfo lo up) = le32 lo @ le32 up"
| "tag_body (Tag_load_base_addr a) = le32 a"
| "tag_body (Tag_mmap ver es) = le32 24 @ le32 ver @ concat (map entry_bytes es)"
| "tag_body (Tag_framebuffer a a' p w h bpp ty rest) = le32 a @ le32 a' @ le32 p @ le32 w @ le32 h @ [bpp, ty] @ rest"
| "tag_body (Tag_module s e c) = le32 s @ le32 e @ c @ [NUL]"
| "tag_body (Tag_other ty body) = body"

definition tag_size :: "mb2_tag \<Rightarrow> nat" where
  "tag_size t = 8 + length (tag_body t)"

definition tag_room :: "mb2_tag \<Rightarrow> nat" where
  "tag_room t = (tag_size t + 7) div 8 * 8"

definition tag_bytes :: "mb2_tag \<Rightarrow> string" where
  "tag_bytes t = le32 (tag_type t) @ le32 (of_nat (tag_size t)) @ tag_body t @ replicate (tag_room t - tag_size t) NUL"

fun tag_ok :: "mb2_tag \<Rightarrow> bool" where
  "tag_ok (Tag_cmdline s) \<longleftrightarrow> NUL \<notin> set s"
| "tag_ok (Tag_boot_loader_name s) \<longleftrightarrow> NUL \<notin> set s"
| "tag_ok (Tag_module s e c) \<longleftrightarrow> NUL \<notin> set c"
| "tag_ok (Tag_other ty body) \<longleftrightarrow> ty \<notin> {0, 1, 2, 3, 4, 6, 8, 21}"
| "tag_ok _ \<longleftrightarrow> True"

text \<open>What a tag contributes to the boot information.\<close>

fun tag_effect :: "boot_info \<Rightarrow> mb2_tag \<Rightarrow> boot_info" where
  "tag_effect b (Tag_load_base_addr a) = b\<lparr>kernel_location := a\<rparr>"
| "tag_effect b (Tag_framebuffer a a' p w h bpp ty rest) =
    (if ty = CHR 0x02 then b\<lparr>text_fb_addr := a, text_fb_width := w, text_fb_height := h\<rparr> else b)"
| "tag_effect b (Tag_module s e c) = b\<lparr>initrd_addr := unat s, initrd_size := unat (e - s)\<rparr>"
| "tag_effect b _ = b"

section \<open>Reading back what a tag holds\<close>

text \<open>The log messages of a tag; the message for a module shows the string behind the first byte of the tag instead of the command line.\<close>

fun tag_log :: "nat \<Rightarrow> mb2_tag \<Rightarrow> string list" where
  "tag_log a Tag_end = [log_line ''tag: end'' []]"
| "tag_log a (Tag_cmdline s) = [log_line ''tag: cmdline = \"%s\"'' [VStr (of_nat (a + 8)) s]]"
| "tag_log a (Tag_boot_loader_name s) = [log_line ''tag: bootloader name = \"%s\"'' [VStr (of_nat (a + 8)) s]]"
| "tag_log a (Tag_basic_meminfo lo up) = [log_line ''tag: mem info: lower=%uk, upper=%uk'' [VWord lo, VWord up]]"
| "tag_log a (Tag_load_base_addr x) = [log_line ''tag: load base addr = %p'' [VWord x]]"
| "tag_log a (Tag_mmap ver es) =
    log_line ''tag: memory map: entry version %u (entry size %ub)'' [VWord ver, VWord 24] #
    map (\<lambda>(x, x', l, l', ty, z). mmap_line x x' l l' ty) es"
| "tag_log a (Tag_framebuffer x x' p w h bpp ty rest) =
    [log_line ''tag: framebuffer: addr=%#llx, pitch=%u, width=%u, height=%u, bpp=%u, type=%u''
      [VWord x, VWord x', VWord p, VWord w, VWord h, VWord (of_int (uchar bpp)), VWord (of_int (uchar ty))]]"
| "tag_log a (Tag_module s e c) = [log_line ''tag: module: start=%#x, end=%#x, cmdline=\"%s\"'' [VWord s, VWord e, VStr (of_nat (a + 1)) []]]"
| "tag_log a (Tag_other ty body) = [log_line ''tag: type %2u (size %4u)'' [VWord ty, VWord (of_nat (8 + length body))]]"

lemma byte_sum: "(n :: nat) < 2 ^ 32 \<Longrightarrow>
    n mod 256 + 256 * (n div 256 mod 256 + 256 * (n div 65536 mod 256 + 256 * (n div 16777216 mod 256))) = n"
proof -
  assume "n < 2 ^ 32"
  then have "n div 16777216 < 256" by simp
  moreover have "n div 65536 = n div 256 div 256" "n div 16777216 = n div 256 div 256 div 256" by (simp_all add: div_mult2_eq [symmetric])
  ultimately show ?thesis by (metis mod_less mod_mult_div_eq mult.commute add.commute)
qed

lemma uchar_char_of: "uchar (char_of (n :: nat)) = int (n mod 256)"
  unfolding uchar_def by (subst of_nat_of_char [symmetric]) simp

lemma word32_le32 [simp]: "word32 (le32 v @ r) 0 = v"
proof -
  define n where "n = unat v"
  have n: "n < 2 ^ 32" using unsigned_less [where ?'a = nat, of v] by (simp add: n_def)
  have "le32 v = [char_of (n mod 256), char_of (n div 256 mod 256), char_of (n div 65536 mod 256), char_of (n div 16777216 mod 256)]"
    by (simp add: le32_def n_def drop_bit_eq_div unat_div)
  then have "word32 (le32 v @ r) 0 = of_int (int (n mod 256 + 256 * (n div 256 mod 256 + 256 * (n div 65536 mod 256 + 256 * (n div 16777216 mod 256)))))"
    by (simp add: word32_def uchar_char_of)
  then show ?thesis unfolding byte_sum [OF n] by (simp add: n_def)
qed

lemma mem_read_split: "mem_read m a (k + n) = mem_read m a k @ mem_read m (a + k) n"
  by (rule nth_equalityI) (auto simp: nth_append)

text \<open>\<open>holds m a bs\<close>: the bytes \<open>bs\<close> are in memory at \<open>a\<close>.\<close>

definition holds :: "mem \<Rightarrow> nat \<Rightarrow> string \<Rightarrow> bool" where
  "holds m a bs \<longleftrightarrow> mem_read m a (length bs) = bs"

lemma holds_append [simp]: "holds m a (xs @ ys) \<longleftrightarrow> holds m a xs \<and> holds m (a + length xs) ys"
  by (simp add: holds_def mem_read_split)

lemma holds_Nil [simp]: "holds m a []"
  by (simp add: holds_def)

lemma holds_Cons [simp]: "holds m a (c # s) \<longleftrightarrow> m a = c \<and> holds m (Suc a) s"
  by (simp add: holds_def mem_read_Suc)

lemma field32_holds: "holds m a (le32 v) \<Longrightarrow> field32 m a = v"
  using word32_le32 [of v "[]"] by (simp add: holds_def field32_def)

lemma tag_str_holds: "holds m a s \<Longrightarrow> m (a + length s) = NUL \<Longrightarrow> NUL \<notin> set s \<Longrightarrow> tag_str m a = Some s"
proof -
  assume a: "holds m a s" "m (a + length s) = NUL" "NUL \<notin> set s"
  then have "cstr m a s" using mem_read_split [of m a "length s" 1] by (simp add: cstr_iff holds_def mem_read_Suc)
  then show ?thesis using a(1) by (simp add: tag_str_def strlen_cstr holds_def)
qed

lemma entries_read:
  assumes "holds m a (concat (map entry_bytes es))"
  shows "map (\<lambda>i. read_mmap_entry m (a + sizeof_multiboot_mmap_entry * i)) [0..<length es] = map (\<lambda>(x, x', l, l', ty, z). mmap_line x x' l l' ty) es"
  using assms
proof (induction es arbitrary: a)
  case (Cons e es)
  obtain x x' l l' ty z where e: "e = (x, x', l, l', ty, z)" by (cases e)
  have len: "length (entry_bytes e) = 24" by (simp add: entry_bytes_def e)
  have h: "holds m a (entry_bytes e)" "holds m (a + 24) (concat (map entry_bytes es))" using Cons.prems by (simp_all add: len)
  have "read_mmap_entry m a = mmap_line x x' l l' ty"
    using h(1) by (auto simp: entry_bytes_def e read_mmap_entry_def add.commute dest!: field32_holds)
  moreover have "map (\<lambda>i. read_mmap_entry m (a + sizeof_multiboot_mmap_entry * i)) (map Suc [0..<length es]) =
      map (\<lambda>i. read_mmap_entry m (a + 24 + sizeof_multiboot_mmap_entry * i)) [0..<length es]"
    by (simp add: sizeof_multiboot_mmap_entry_def comp_def add.assoc)
  ultimately show ?case using Cons.IH [OF h(2)] by (simp add: e upt_conv_Cons map_Suc_upt [symmetric] del: upt_Suc map_map map_Suc_upt)
qed simp

lemmas tag_consts = MULTIBOOT_TAG_TYPE_END_def MULTIBOOT_TAG_TYPE_CMDLINE_def MULTIBOOT_TAG_TYPE_BOOT_LOADER_NAME_def MULTIBOOT_TAG_TYPE_MODULE_def
  MULTIBOOT_TAG_TYPE_BASIC_MEMINFO_def MULTIBOOT_TAG_TYPE_MMAP_def MULTIBOOT_TAG_TYPE_FRAMEBUFFER_def MULTIBOOT_TAG_TYPE_LOAD_BASE_ADDR_def
  MULTIBOOT_FRAMEBUFFER_TYPE_EGA_TEXT_def sizeof_multiboot_tag_mmap_def

lemma ega_char: "(of_int (uchar c) :: u32) = 2 \<longleftrightarrow> c = CHR 0x02"
proof -
  have "uint (of_int (uchar c) :: u32) = uchar c" using uchar_range [of c] by (simp add: uint_word_of_int)
  then have "(of_int (uchar c) :: u32) = 2 \<longleftrightarrow> uchar c = uchar (CHR 0x02)" by (simp add: word_uint_eq_iff uchar_def)
  then show ?thesis by (simp add: uchar_inj)
qed

lemma length_entries [simp]: "length (concat (map entry_bytes es)) = 24 * length es"
  by (induction es) (auto simp: entry_bytes_def)

text \<open>The string behind the first byte of a module's tag is empty, since the type of the tag, 3, has zero bytes there.\<close>

lemma module_str: "holds m a (le32 3) \<Longrightarrow> tag_str m (a + 1) = Some []"
  by (rule tag_str_holds) (simp_all add: le32_def drop_bit_eq_div char_of_def)

lemma read_tag_holds:
  assumes "holds m a (tag_bytes t)" "tag_ok t" "tag_size t < 2 ^ 32"
  shows "read_tag m a b = Some (tag_effect b t, tag_log a t) \<and> field32 m (a + 4) = of_nat (tag_size t)"
proof -
  have ty: "field32 m a = tag_type t" and sz: "field32 m (a + 4) = of_nat (tag_size t)" and body: "holds m (a + 8) (tag_body t)"
    using assms(1) by (auto simp: tag_bytes_def add.commute dest: field32_holds)
  have "read_tag m a b = Some (tag_effect b t, tag_log a t)"
  proof (cases t)
    case (Tag_mmap ver es)
    have f: "field32 m (a + 8) = 24" "field32 m (a + 12) = ver" "holds m (a + 16) (concat (map entry_bytes es))"
      using body Tag_mmap by (auto simp: add.assoc dest: field32_holds)
    have "unat ((of_nat (tag_size t) - 16 :: u32) div 24) = length es"
    proof -
      have "(of_nat (tag_size t) - 16 :: u32) = of_nat (24 * length es)" using Tag_mmap by (simp add: tag_size_def)
      moreover have "24 * length es < 2 ^ 32" using assms(3) Tag_mmap by (simp add: tag_size_def)
      ultimately have "unat (of_nat (tag_size t) - 16 :: u32) = 24 * length es" by (simp add: unat_small del: of_nat_mult)
      then show ?thesis by (simp add: unat_div)
    qed
    then show ?thesis using Tag_mmap f sz ty entries_read [OF f(3)] by (simp add: read_tag_def tag_consts Let_def)
  next
    case (Tag_module s e c)
    have "field32 m (a + 8) = s" "field32 m (a + 12) = e"
      using body Tag_module by (auto simp: add.assoc dest: field32_holds)
    moreover have "tag_str m (a + 1) = Some []" using assms(1) Tag_module by (intro module_str) (simp add: tag_bytes_def)
    ultimately show ?thesis using Tag_module ty by (simp add: read_tag_def tag_consts Let_def)
  next
    case (Tag_framebuffer x x' p w h bpp fty rest)
    have "field32 m (a + 8) = x" "field32 m (a + 12) = x'" "field32 m (a + 16) = p" "field32 m (a + 20) = w" "field32 m (a + 24) = h"
      "field8 m (a + 28) = of_int (uchar bpp)" "field8 m (a + 29) = of_int (uchar fty)"
      using body Tag_framebuffer by (auto simp: add.assoc add.commute field8_def dest: field32_holds)
    then show ?thesis using Tag_framebuffer ty by (simp add: read_tag_def tag_consts Let_def ega_char)
  next
    case (Tag_cmdline s)
    then have "tag_str m (a + 8) = Some s" using body assms(2) by (intro tag_str_holds) auto
    then show ?thesis using Tag_cmdline ty by (simp add: read_tag_def tag_consts)
  next
    case (Tag_boot_loader_name s)
    then have "tag_str m (a + 8) = Some s" using body assms(2) by (intro tag_str_holds) auto
    then show ?thesis using Tag_boot_loader_name ty by (simp add: read_tag_def tag_consts)
  next
    case (Tag_basic_meminfo lo up)
    then have "field32 m (a + 8) = lo" "field32 m (a + 12) = up" using body by (auto simp: add.assoc dest: field32_holds)
    then show ?thesis using Tag_basic_meminfo ty by (simp add: read_tag_def tag_consts)
  next
    case (Tag_load_base_addr x)
    then have "field32 m (a + 8) = x" using body by (auto dest: field32_holds)
    then show ?thesis using Tag_load_base_addr ty by (simp add: read_tag_def tag_consts Let_def)
  next
    case (Tag_other oty obody)
    then show ?thesis using ty sz assms(2) by (simp add: read_tag_def tag_consts tag_size_def)
  qed (use ty in \<open>simp add: read_tag_def tag_consts\<close>)
  then show ?thesis using sz by blast
qed

lemma length_tag_bytes [simp]: "length (tag_bytes t) = tag_room t"
  by (simp add: tag_bytes_def tag_room_def tag_size_def)

fun tags_log :: "nat \<Rightarrow> mb2_tag list \<Rightarrow> string list" where
  "tags_log a [] = []"
| "tags_log a (t # ts) = tag_log a t @ tags_log (a + tag_room t) ts"

lemma read_tags_holds:
  assumes "holds m (unat pos) (concat (map tag_bytes ts))" "\<forall>t \<in> set ts. tag_ok t"
    and "unat fin = unat pos + length (concat (map tag_bytes ts))"
  shows "read_tags m pos fin b log = Some (foldl tag_effect b ts, log @ tags_log (unat pos) ts)"
  using assms
proof (induction ts arbitrary: pos b log)
  case Nil
  then have "fin = pos" by (simp add: word_unat_eq_iff)
  then show ?case by (simp add: read_tags.simps)
next
  case (Cons t ts)
  have u: "unat fin < 2 ^ 32" using unsigned_less [where ?'a = nat, of fin] by simp
  have sz: "tag_size t \<le> tag_room t" "8 \<le> tag_size t" by (simp_all add: tag_room_def tag_size_def)
  have room: "unat pos + tag_room t \<le> unat fin" "pos < fin" using Cons.prems(3) sz by (simp_all add: word_less_nat_alt)
  have r: "read_tag m (unat pos) b = Some (tag_effect b t, tag_log (unat pos) t)" "field32 m (unat pos + 4) = of_nat (tag_size t)"
    using read_tag_holds [of m "unat pos" t b] Cons.prems sz room u by auto
  have "(tag_size t + 7) div 8 < 2 ^ 29" using room(1) u by (simp add: tag_room_def)
  then have "tag_size t + 7 < 2 ^ 32" by (simp add: div_less_iff_less_mult)
  then have al: "unat (ALIGN_UP (of_nat (tag_size t)) MULTIBOOT_TAG_ALIGN) = tag_room t"
    using unat_ALIGN_UP [of 3 "of_nat (tag_size t)"] by (simp add: MULTIBOOT_TAG_ALIGN_def unat_small tag_room_def)
  define pos' where "pos' = pos + ALIGN_UP (of_nat (tag_size t)) MULTIBOOT_TAG_ALIGN"
  have p: "unat pos' = unat pos + tag_room t"
    using room(1) u unfolding pos'_def by (subst unat_add_lem [THEN iffD1]) (simp_all add: al)
  have "read_tags m pos' fin (tag_effect b t) (log @ tag_log (unat pos) t) =
      Some (foldl tag_effect (tag_effect b t) ts, (log @ tag_log (unat pos) t) @ tags_log (unat pos') ts)"
    using Cons.prems by (intro Cons.IH) (simp_all add: p)
  then show ?case using room(2) r by (subst read_tags.simps) (simp add: pos'_def [symmetric] p)
qed

section \<open>The boot information\<close>

text \<open>What a boot loader leaves in memory for a list of tags.\<close>

definition mb2_bytes :: "string \<Rightarrow> mb2_tag list \<Rightarrow> string" where
  "mb2_bytes reserved ts = (let bs = concat (map tag_bytes ts) in le32 (of_nat (8 + length bs)) @ reserved @ bs)"

lemma read_boot_info_holds:
  assumes "holds m (unat addr) (mb2_bytes reserved ts)" "length reserved = 4" "\<forall>t \<in> set ts. tag_ok t"
    and "unat addr + length (mb2_bytes reserved ts) < 2 ^ 32"
  shows "read_boot_info m MULTIBOOT2_BOOTLOADER_MAGIC addr b =
    Some (foldl tag_effect b ts,
      [log_line ''got mb2 magic number %#x'' [VWord MULTIBOOT2_BOOTLOADER_MAGIC], log_line ''reading Multiboo2 boot info...'' []] @
      tags_log (unat addr + 8) ts, 0)"
proof -
  define n where "n = length (concat (map tag_bytes ts))"
  have h: "field32 m (unat addr) = of_nat (8 + n)" "holds m (unat addr + 8) (concat (map tag_bytes ts))"
    using assms(1,2) by (auto simp: mb2_bytes_def Let_def n_def add.commute dest: field32_holds)
  have len: "unat addr + (8 + n) < 2 ^ 32" using assms(2,4) by (simp add: mb2_bytes_def n_def Let_def)
  have u: "unat (addr + of_nat k) = unat addr + k" if "k \<le> 8 + n" for k
    using that len by (subst unat_add_lem [THEN iffD1]) (simp_all add: unat_small)
  have "unat (addr + 8) = unat addr + 8" using u [of 8] by simp
  moreover have "unat (addr + field32 m (unat addr)) = unat addr + 8 + n" unfolding h(1) using u [of "8 + n"] by simp
  ultimately show ?thesis
    using read_tags_holds [of m "addr + 8" ts "addr + field32 m (unat addr)"] h(2) assms(3)
    by (simp add: read_boot_info_def n_def)
qed

lemma initrd_last_module:
  assumes "\<forall>t \<in> set ys. \<not> (\<exists>s e c. t = Tag_module s e c)"
  shows "initrd_addr (foldl tag_effect b (xs @ Tag_module s e c # ys)) = unat s \<and>
    initrd_size (foldl tag_effect b (xs @ Tag_module s e c # ys)) = unat (e - s)"
proof -
  have keep: "initrd_addr (tag_effect b t) = initrd_addr b \<and> initrd_size (tag_effect b t) = initrd_size b"
    if "\<not> (\<exists>s e c. t = Tag_module s e c)" for b t
    using that by (cases "(b, t)" rule: tag_effect.cases) auto
  have "initrd_addr (foldl tag_effect b ys) = initrd_addr b \<and> initrd_size (foldl tag_effect b ys) = initrd_size b" for b
    using assms keep by (induction ys arbitrary: b) auto
  then show ?thesis by simp
qed

text \<open>
  Property C20. Walking over the tags of the boot loader ends and gives what the tags say: for memory that holds a well-formed list of tags,
  \<open>read_boot_info\<close> applies the effect of each tag in their order, so that the initial RAM disk is the last module, and
  logs each tag. The command line of a module is always logged as empty.
\<close>

theorem read_boot_info_tags:
  assumes "holds m (unat addr) (mb2_bytes reserved ts)" "length reserved = 4" "\<forall>t \<in> set ts. tag_ok t"
    and "unat addr + length (mb2_bytes reserved ts) < 2 ^ 32"
  shows "\<exists>b'. read_boot_info m MULTIBOOT2_BOOTLOADER_MAGIC addr b =
      Some (b', [log_line ''got mb2 magic number %#x'' [VWord MULTIBOOT2_BOOTLOADER_MAGIC], log_line ''reading Multiboo2 boot info...'' []] @
        tags_log (unat addr + 8) ts, 0) \<and> b' = foldl tag_effect b ts \<and>
    (\<forall>xs s e c ys. ts = xs @ Tag_module s e c # ys \<and> (\<forall>t \<in> set ys. \<not> (\<exists>s e c. t = Tag_module s e c)) \<longrightarrow>
      initrd_addr b' = unat s \<and> initrd_size b' = unat (e - s))"
proof (intro exI conjI)
  show "read_boot_info m MULTIBOOT2_BOOTLOADER_MAGIC addr b =
      Some (foldl tag_effect b ts, [log_line ''got mb2 magic number %#x'' [VWord MULTIBOOT2_BOOTLOADER_MAGIC], log_line ''reading Multiboo2 boot info...'' []] @
        tags_log (unat addr + 8) ts, 0)"
    by (rule read_boot_info_holds [OF assms])
qed (use initrd_last_module in blast)+

definition tags0 :: "mb2_tag list" where
  "tags0 = [Tag_cmdline ''munix'', Tag_module 0x100000 0x100400 ''initrd'', Tag_end]"

theorem read_boot_info_tags_witness:
  "\<exists>b' log. read_boot_info (mem_write (\<lambda>_. NUL) 64 (mb2_bytes ''....'' tags0)) MULTIBOOT2_BOOTLOADER_MAGIC 64 boot_info0 = Some (b', log, 0) \<and>
    initrd_addr b' = 0x100000 \<and> initrd_size b' = 0x400"
proof -
  let ?m = "mem_write (\<lambda>_. NUL) 64 (mb2_bytes ''....'' tags0)"
  have "holds ?m (unat (64 :: u32)) (mb2_bytes ''....'' tags0)" by (simp add: holds_def mem_read_write_same)
  moreover have "length (mb2_bytes ''....'' tags0) = 56"
    by (simp add: mb2_bytes_def tags0_def tag_room_def tag_size_def)
  ultimately obtain b' where b': "read_boot_info ?m MULTIBOOT2_BOOTLOADER_MAGIC 64 boot_info0 =
      Some (b', [log_line ''got mb2 magic number %#x'' [VWord MULTIBOOT2_BOOTLOADER_MAGIC], log_line ''reading Multiboo2 boot info...'' []] @
        tags_log (unat (64 :: u32) + 8) tags0, 0)"
    "\<forall>xs s e c ys. tags0 = xs @ Tag_module s e c # ys \<and> (\<forall>t \<in> set ys. \<not> (\<exists>s e c. t = Tag_module s e c)) \<longrightarrow>
      initrd_addr b' = unat s \<and> initrd_size b' = unat (e - s)"
    using read_boot_info_tags [of ?m 64 "''....''" tags0 boot_info0] by (auto simp: tags0_def)
  have "tags0 = [Tag_cmdline ''munix''] @ Tag_module 0x100000 0x100400 ''initrd'' # [Tag_end]" by (simp add: tags0_def)
  then have "initrd_addr b' = unat (0x100000 :: u32) \<and> initrd_size b' = unat (0x100400 - 0x100000 :: u32)"
    using b'(2) [rule_format, of "[Tag_cmdline ''munix'']" "0x100000" "0x100400" "''initrd''" "[Tag_end]"] by simp
  then show ?thesis using b'(1) by auto
qed

section \<open>Defects\<close>

text \<open>With a wrong magic number the scan reports success and leaves the boot information as it was.\<close>

lemma wrong_magic_succeeds: "magic \<noteq> MULTIBOOT2_BOOTLOADER_MAGIC \<Longrightarrow> \<exists>log. read_boot_info m magic addr b = Some (b, log, 0)"
  by (simp add: read_boot_info_def)

lemma ALIGN_UP_0 [simp]: "ALIGN_UP 0 MULTIBOOT_TAG_ALIGN = 0"
  by (simp add: ALIGN_UP_def MULTIBOOT_TAG_ALIGN_def)

text \<open>A tag of size 0, before the end of the structure, keeps the scan in place for ever.\<close>

lemma zero_tag_diverges:
  assumes "pos < fin" "field32 m (unat pos + 4) = 0"
  shows "read_tags m pos fin b log = None"
proof -
  have "False" if r: "read_tags m pos fin b log = Some r" for r
  proof -
    have "\<not> (m = m \<and> pos = pos \<and> fin = fin)"
    proof (rule read_tags.raw_induct [OF _ r, where P = "\<lambda>m' p f b l r. \<not> (m' = m \<and> p = pos \<and> f = fin)"])
      fix rd m' p f b l r
      assume IH: "\<And>m' p f b l r. rd m' p f b l = Some r \<Longrightarrow> \<not> (m' = m \<and> p = pos \<and> f = fin)"
        and run: "(if p < f then Option.bind (read_tag m' (unat p) b) (\<lambda>(b, k).
            rd m' (p + ALIGN_UP (field32 m' (unat p + 4)) MULTIBOOT_TAG_ALIGN) f b (l @ k)) else Some (b, l)) = Some r"
      show "\<not> (m' = m \<and> p = pos \<and> f = fin)"
      proof
        assume e: "m' = m \<and> p = pos \<and> f = fin"
        obtain b' k where "rd m pos fin b' (l @ k) = Some r" using run e assms by (auto simp: bind_eq_Some_conv)
        from IH [OF this] show False by simp
      qed
    qed
    then show False by simp
  qed
  then show ?thesis by (cases "read_tags m pos fin b log") auto
qed

end
