(* ===== verification/Page_Count.thy ===== *)
theory Page_Count
  imports Pagemap
begin

text \<open>
  The pages for page tables. The kernel has five pages for page tables, so this theory counts them: mapping a range
  that one page table covers takes a page for the directory and one for the table where they are missing,
  and does not fail while there are enough pages.
\<close>

section \<open>How many pages a mapping takes\<close>

definition used :: "pmstate \<Rightarrow> nat" where
  "used st = card {i. i < PHYSPAGES_MAX \<and> pp_paddr (physpages st ! i) \<noteq> 0}"

definition dir_entry :: "pmstate \<Rightarrow> u32 \<Rightarrow> nat \<Rightarrow> u32" where
  "dir_entry st root = (if root = 0 then (\<lambda>j. 0) else tables st (pme_paddr root 0))"

lemma used_same: "same_alloc st st' \<Longrightarrow> length (physpages st) = PHYSPAGES_MAX \<Longrightarrow> used st' = used st"
  unfolding used_def same_alloc_def by (metis (no_types, lifting))

lemma used_card: "wf_pm st \<Longrightarrow> used st = card (allocated st)"
proof -
  have "inj_on pg_base {i. i < PHYSPAGES_MAX \<and> pp_paddr (physpages st ! i) \<noteq> 0}"
    by (auto intro!: inj_onI dest: pg_base_props(4))
  then show ?thesis by (simp add: used_def allocated_image card_image)
qed

lemma finite_allocated [simp]: "finite (allocated st)"
  by (simp add: allocated_image)

lemma all_used_iff: "all_used st \<longleftrightarrow> used st = PHYSPAGES_MAX"
proof
  assume "all_used st"
  then have "{i. i < PHYSPAGES_MAX \<and> pp_paddr (physpages st ! i) \<noteq> 0} = {..<PHYSPAGES_MAX}" by (auto simp: all_used_def)
  then show "used st = PHYSPAGES_MAX" by (simp add: used_def)
next
  assume u: "used st = PHYSPAGES_MAX"
  have "{i. i < PHYSPAGES_MAX \<and> pp_paddr (physpages st ! i) \<noteq> 0} = {..<PHYSPAGES_MAX}"
    by (rule card_subset_eq) (use u in \<open>auto simp: used_def\<close>)
  then show "all_used st" by (auto simp: all_used_def)
qed

lemma used_alloc:
  assumes "wf_pm st" "pg < PHYSPAGES_MAX" "pp_paddr (physpages st ! pg) = 0"
    "same_alloc (st\<lparr>physpages := (physpages st)[pg := (physpages st ! pg)\<lparr>pp_paddr := pg_base pg\<rparr>]\<rparr>) st1"
  shows "used st1 = used st + 1"
  using allocated_alloc [OF assms] assms(1) by (simp add: used_card)

lemma open_absent_ok:
  assumes "wf_pm (w_pm ws)" "\<not> pme_ispresent (read_pme entry ws) lvl" "used (w_pm ws) < PHYSPAGES_MAX"
  shows "\<exists>pg ws'. open_table lvl entry flags ws = Some (pg, pg_base pg, ws')"
proof -
  have "\<not> all_used (w_pm ws)" using assms(3) all_used_iff by auto
  then obtain r where r: "open_table lvl entry flags ws = Some r"
    using open_table_None [of lvl entry flags ws] assms(1,2) by (cases "open_table lvl entry flags ws") auto
  obtain pg tbl ws' where "r = (pg, tbl, ws')" by (cases r)
  then show ?thesis using open_absent(3) [OF assms(1,2) refl] r by blast
qed

text \<open>The directory: where it is missing, an empty one is made.\<close>

lemma open_root_exact:
  assumes "wf_pm st" "wf_space st root" "low_flags flags" "flags AND 0x18 = 0" "w_pm ws = st" "w_root ws = root"
    "root = 0 \<Longrightarrow> used st < PHYSPAGES_MAX" "page_addr root"
  shows "\<exists>pg st' root'. open_table 0 RootEntry flags ws = Some (pg, root', ws\<lparr>w_pm := st', w_root := root'\<rparr>) \<and>
    used st' = used st + (if root = 0 then 1 else 0) \<and> root' \<noteq> 0 \<and> (root \<noteq> 0 \<longrightarrow> root' = root) \<and> page_addr root' \<and> dir_ok st' root' \<and>
    dir_entry st' root' = dir_entry st root"
proof (cases "root = 0")
  case False
  let ?pd = "pme_paddr root 0"
  have p: "?pd = root" using assms(8) by (rule pme_paddr_page)
  have pd: "root \<in> allocated st" "wf_dir st root" using assms(2) False p by (auto simp: wf_space_def)
  then obtain i where i: "pp_paddr (physpages st ! i) = root" "physpage_find root = Some i" using assms(1) by (metis allocatedE)
  define st' where "st' = snd (physpage_access i st)"
  have t: "tables st' = tables st" by (simp add: st'_def physpage_access_def Let_def)
  have acc: "physpage_access i st = (root, st')" using i(1) by (simp add: st'_def physpage_access_def Let_def)
  have len: "length (physpages st) = PHYSPAGES_MAX" using assms(1) by (simp add: wf_pm_def)
  note sa = same_alloc_close(2) [of st i, folded st'_def]
  note al = same_alloc_wf [OF sa]
  have "open_table 0 RootEntry flags ws = Some (i, root, ws\<lparr>w_pm := st', w_root := root\<rparr>)"
    using assms(4-6) False i(2) acc p by (simp add: open_table_def pme_ispresent_def pme_set_flags_def)
  moreover have "dir_ok st' root" using pd assms(1) al len by (simp add: dir_ok_def wf_dir_def t)
  ultimately show ?thesis using used_same [OF sa len] False assms(8) p by (auto simp: dir_entry_def t)
next
  case True
  have ab: "\<not> pme_ispresent (read_pme RootEntry ws) 0" using True assms(6) by (simp add: pme_ispresent_def)
  obtain pg ws' where o: "open_table 0 RootEntry flags ws = Some (pg, pg_base pg, ws')"
    using open_absent_ok [OF _ ab] assms True by blast
  note oa = open_absent [OF assms(1) ab assms(5) o]
  then obtain st' where st': "same_alloc (st\<lparr>physpages := (physpages st)[pg := (physpages st ! pg)\<lparr>pp_paddr := pg_base pg\<rparr>]\<rparr>) st'"
    "tables st' = (tables st)(pg_base pg := (\<lambda>i. 0))"
    "ws' = write_pme RootEntry (pme_pack (pg_base pg) (flags OR PME_PRESENT) 0) (ws\<lparr>w_pm := st'\<rparr>)" by blast
  note al = allocated_alloc [OF assms(1) oa(1,2) st'(1)]
  have root': "pme_pack (pg_base pg) (flags OR PME_PRESENT) 0 = pg_base pg"
    using assms(4) by (simp add: pme_pack_def pme_set_flags_def PME_PRESENT_def bit.conj_disj_distrib2)
  note pb = pg_base_props [OF oa(1)]
  have "pme_paddr (pg_base pg) 0 = pg_base pg" using pb(1) by (rule pme_paddr_page)
  moreover have "dir_ok st' (pg_base pg)" using al by (auto simp: dir_ok_def wf_dir_def st'(2) pme_ispresent_def)
  ultimately show ?thesis using o st'(2,3) root' used_alloc [OF assms(1) oa(1,2) st'(1)] pb(1,2) True
    by (auto simp: dir_entry_def)
qed

text \<open>One directory entry: where its table is missing, a cleared one is made.\<close>

lemma open_dir_exact:
  assumes "dir_ok (w_pm ws) pd" "j < 1024" "low_flags flags" "\<not> pme_ispresent (tables (w_pm ws) pd j) 1 \<Longrightarrow> used (w_pm ws) < PHYSPAGES_MAX"
  shows "\<exists>pg pt st'. open_table 1 (TblEntry pd j) flags ws = Some (pg, pt, ws\<lparr>w_pm := st'\<rparr>) \<and> pt \<noteq> pd \<and> wf_pm st' \<and>
    used st' = used (w_pm ws) + (if pme_ispresent (tables (w_pm ws) pd j) 1 then 0 else 1) \<and>
    tables st' pd = (tables (w_pm ws) pd)(j := if pme_ispresent (tables (w_pm ws) pd j) 1 then pme_set_flags (tables (w_pm ws) pd j) flags 1
      else pme_pack pt (flags OR PME_PRESENT) 1)"
proof (cases "pme_ispresent (tables (w_pm ws) pd j) 1")
  case True
  have wf: "wf_pm (w_pm ws)" "length (physpages (w_pm ws)) = PHYSPAGES_MAX" using assms(1) by (simp_all add: dir_ok_def wf_pm_def)
  obtain pg st' where o: "open_table 1 (TblEntry pd j) flags ws = Some (pg, pme_paddr (tables (w_pm ws) pd j) 1, ws\<lparr>w_pm := st'\<rparr>)"
    "same_alloc (w_pm ws) st'" "tables st' = (tables (w_pm ws))(pd := (tables (w_pm ws) pd)(j := pme_set_flags (tables (w_pm ws) pd j) flags 1))"
    using open_present [OF assms(1,2) True assms(3) refl] by metis
  then show ?thesis using dir_okD(2) [OF assms(1,2) True] used_same [OF o(2) wf(2)] same_alloc_wf(1) [OF o(2)] wf(1) True by auto
next
  case False
  have wf: "wf_pm (w_pm ws)" and pd: "pd \<in> allocated (w_pm ws)" using assms(1) by (simp_all add: dir_ok_def)
  have ab: "\<not> pme_ispresent (read_pme (TblEntry pd j) ws) 1" using False by simp
  obtain pg ws' where o: "open_table 1 (TblEntry pd j) flags ws = Some (pg, pg_base pg, ws')"
    using open_absent_ok [OF wf ab assms(4) [OF False]] by blast
  note oa = open_absent [OF wf ab refl o]
  then obtain st1 where st1: "same_alloc ((w_pm ws)\<lparr>physpages := (physpages (w_pm ws))[pg := (physpages (w_pm ws) ! pg)\<lparr>pp_paddr := pg_base pg\<rparr>]\<rparr>) st1"
    "tables st1 = (tables (w_pm ws))(pg_base pg := (\<lambda>i. 0))"
    "ws' = write_pme (TblEntry pd j) (pme_pack (pg_base pg) (flags OR PME_PRESENT) 1) (ws\<lparr>w_pm := st1\<rparr>)" by blast
  note al = allocated_alloc [OF wf oa(1,2) st1(1)]
  have ne: "pg_base pg \<noteq> pd" using al(3) pd by metis
  define st' where "st' = set_tbl pd ((tables st1 pd)(j := pme_pack (pg_base pg) (flags OR PME_PRESENT) 1)) st1"
  have "ws' = ws\<lparr>w_pm := st'\<rparr>" by (simp add: st1(3) st'_def)
  moreover have "used st' = used (w_pm ws) + 1" using used_alloc [OF wf oa(1,2) st1(1)] by (simp add: used_def st'_def)
  moreover have "wf_pm st'" using al(1) by (simp add: st'_def wf_pm_def)
  moreover have "tables st' pd = (tables (w_pm ws) pd)(j := pme_pack (pg_base pg) (flags OR PME_PRESENT) 1)" using ne by (simp add: st'_def st1(2))
  ultimately show ?thesis using o ne False by auto
qed

text \<open>What mapping a range within one table does to the directory.\<close>

definition opened :: "u32 \<Rightarrow> nat \<Rightarrow> (nat \<Rightarrow> u32) \<Rightarrow> (nat \<Rightarrow> u32) \<Rightarrow> bool" where
  "opened flags j d d' \<longleftrightarrow> (\<exists>e. d' = d(j := e) \<and> pme_ispresent e 1 \<and> e AND flags = flags \<and> (pme_ispresent (d j) 1 \<longrightarrow> e AND d j = d j))"

lemma level1_exact:
  assumes "dir_ok (w_pm ws) pd" "j < 1024" "low_flags flags" "\<not> pme_ispresent (tables (w_pm ws) pd j) 1 \<Longrightarrow> used (w_pm ws) < PHYSPAGES_MAX"
    and "length (w_offsets ws) = 4" "w_offsets ws ! 2 = o2" "o2 + n \<le> 1024" "o2 < 1024" "w_size ws = of_nat n * PAGESZ"
  shows "\<exists>st'. addrspc_map_recursive 1 flags (TblEntry pd j) ws = Some (advanced o2 n n st' ws, 0) \<and> wf_pm st' \<and>
    used st' = used (w_pm ws) + (if pme_ispresent (tables (w_pm ws) pd j) 1 then 0 else 1) \<and>
    opened flags j (tables (w_pm ws) pd) (tables st' pd)"
proof -
  let ?e = "tables (w_pm ws) pd j"
  obtain pg pt st1 where o: "open_table 1 (TblEntry pd j) flags ws = Some (pg, pt, ws\<lparr>w_pm := st1\<rparr>)" "pt \<noteq> pd" "wf_pm st1"
    "used st1 = used (w_pm ws) + (if pme_ispresent ?e 1 then 0 else 1)"
    "tables st1 pd = (tables (w_pm ws) pd)(j := if pme_ispresent ?e 1 then pme_set_flags ?e flags 1 else pme_pack pt (flags OR PME_PRESENT) 1)"
    using open_dir_exact [OF assms(1-4)] by blast
  define st2 where "st2 = set_tbl pt (fill_tbl o2 n (w_paddr ws) flags (tables st1 pt)) st1"
  have m: "min n (1024 - o2) = n" using assms(7) by simp
  have "table_loop 1024 (addrspc_map_recursive 2 flags) pt 2 1024 (ws\<lparr>w_pm := st1\<rparr>) = Some (filled pt o2 n n flags (ws\<lparr>w_pm := st1\<rparr>), 0)"
    using page_loop [of "ws\<lparr>w_pm := st1\<rparr>" o2 n 1024 flags pt] assms(5-9) unfolding m by simp
  then have rec: "addrspc_map_recursive 1 flags (TblEntry pd j) ws = Some (advanced o2 n n (physpage_close pg st2) ws, 0)"
    by (simp add: map_rec_tbl o(1) [unfolded One_nat_def] numeral_2_eq_2 filled_def advanced_def st2_def)
  have w2: "wf_pm st2" "used st2 = used st1" using o(3) by (simp_all add: st2_def wf_pm_def used_def)
  have len: "length (physpages st2) = PHYSPAGES_MAX" using w2(1) by (simp add: wf_pm_def)
  note sa = same_alloc_close(1) [of st2 pg]
  have "tables (physpage_close pg st2) pd = tables st1 pd" using o(2) by (simp add: st2_def)
  moreover have "opened flags j (tables (w_pm ws) pd) (tables st1 pd)"
  proof -
    have "pme_ispresent (pme_pack pt (flags OR PME_PRESENT) 1) 1" by (rule pme_pack_present) simp
    moreover have "pme_pack pt (flags OR PME_PRESENT) 1 AND flags = flags" by (rule bit_word_eqI) (auto simp: pme_pack_def pme_set_flags_def bit_simps)
    moreover have "pme_set_flags ?e flags 1 AND flags = flags" by (rule bit_word_eqI) (auto simp: pme_set_flags_def bit_simps)
    moreover have "pme_set_flags ?e flags 1 AND ?e = ?e" by (rule bit_word_eqI) (auto simp: pme_set_flags_def bit_simps)
    ultimately show ?thesis using o(5) pme_set_flags_present [of ?e 1 flags] unfolding opened_def by auto
  qed
  ultimately show ?thesis
    using rec used_same [OF sa len] w2 o(4) same_alloc_wf(1) [OF sa] by auto
qed

text \<open>
  Mapping a range within one page table succeeds when there are pages for the directory and the table, as far as they are
  missing, and takes no more than these.
\<close>

definition missing :: "pmstate \<Rightarrow> u32 \<Rightarrow> nat \<Rightarrow> nat" where
  "missing st root j = (if root = 0 then 1 else 0) + (if pme_ispresent (dir_entry st root j) 1 then 0 else 1)"

lemma map_one_table:
  assumes "wf_pm st" "wf_space st root" "page_addr root" "low_flags flags" "flags AND 0x18 = 0"
    and "p0 = unat vaddr div 4096" "n = page_count sz" "unat sz + 4095 < 2 ^ 32" "0 < n" "p0 mod 1024 + n \<le> 1024"
    and "used st + missing st root (p0 div 1024) \<le> PHYSPAGES_MAX"
  shows "\<exists>st' root'. addrspc_map st root vaddr paddr sz flags = Some (st', root', 0) \<and>
    space_grows st root st' root' \<and> page_addr root' \<and> root' \<noteq> 0 \<and> (root \<noteq> 0 \<longrightarrow> root' = root) \<and>
    used st' = used st + missing st root (p0 div 1024) \<and> opened flags (p0 div 1024) (dir_entry st root) (dir_entry st' root') \<and>
    (\<forall>q<2 ^ 20. walk st' root' q =
       (if p0 \<le> q \<and> q < p0 + n then Some (new_entry (ALIGN_DOWN paddr PAGESZ) flags (q - p0)) else walk st root q))"
proof -
  let ?ws = "\<lparr>w_pm = st, w_root = root, w_offsets = pm_offsets (ALIGN_DOWN vaddr PAGESZ), w_paddr = ALIGN_DOWN paddr PAGESZ,
    w_size = ALIGN_UP sz PAGESZ\<rparr>"
  let ?j = "p0 div 1024"
  have "unat vaddr < 2 ^ 32" using unsigned_less [where ?'a = nat, of vaddr] by simp
  then have p0: "p0 < 2 ^ 20" "?j < 1024" using assms(6) by (simp_all add: less_mult_imp_div_less)
  have off: "length (w_offsets ?ws) = 4" "w_offsets ?ws ! 1 = ?j" "w_offsets ?ws ! 2 = p0 mod 1024"
    using assms(6) by (simp_all add: pm_offsets_eq [unfolded One_nat_def] align_down_pages)
  have size: "w_size ?ws = of_nat n * PAGESZ" "n < 2 ^ 20" using align_up_pages [OF assms(8)] assms(7) by simp_all
  have "root = 0 \<Longrightarrow> used st < PHYSPAGES_MAX" using assms(11) by (simp add: missing_def split: if_splits)
  then obtain pg st1 root' where o: "open_table 0 RootEntry flags ?ws = Some (pg, root', ?ws\<lparr>w_pm := st1, w_root := root'\<rparr>)"
    "used st1 = used st + (if root = 0 then 1 else 0)" "root' \<noteq> 0" "root \<noteq> 0 \<longrightarrow> root' = root" "page_addr root'" "dir_ok st1 root'"
    "dir_entry st1 root' = dir_entry st root"
    using open_root_exact [OF assms(1,2,4,5), of ?ws] assms(3) by auto
  define ws1 where "ws1 = ?ws\<lparr>w_pm := st1, w_root := root'\<rparr>"
  have pr: "pme_paddr root' 0 = root'" using o(5) by (rule pme_paddr_page)
  have d1: "tables st1 root' = dir_entry st root" using o(3,7) by (simp add: dir_entry_def pr)
  have fits: "\<not> pme_ispresent (tables (w_pm ws1) root' ?j) 1 \<Longrightarrow> used (w_pm ws1) < PHYSPAGES_MAX"
    using o(2) assms(11) by (simp add: d1 missing_def ws1_def)
  have "\<exists>st2. addrspc_map_recursive 1 flags (TblEntry root' ?j) ws1 = Some (advanced (p0 mod 1024) n n st2 ws1, 0) \<and> wf_pm st2 \<and>
    used st2 = used (w_pm ws1) + (if pme_ispresent (tables (w_pm ws1) root' ?j) 1 then 0 else 1) \<and>
    opened flags ?j (tables (w_pm ws1) root') (tables st2 root')"
    by (rule level1_exact) (use assms(4,10) o(6) p0 fits off size in \<open>simp_all add: ws1_def\<close>)
  then obtain st2 where s2: "addrspc_map_recursive 1 flags (TblEntry root' ?j) ws1 = Some (advanced (p0 mod 1024) n n st2 ws1, 0)" "wf_pm st2"
    "used st2 = used st1 + (if pme_ispresent (dir_entry st root ?j) 1 then 0 else 1)" "opened flags ?j (dir_entry st root) (tables st2 root')"
    by (auto simp: ws1_def d1)
  let ?ws2 = "advanced (p0 mod 1024) n n st2 ws1"
  have nz: "w_size ws1 \<noteq> 0" using size_nonzero [OF assms(9) size(2)] size(1) by (simp add: ws1_def)
  have j1: "w_offsets ws1 ! 1 = ?j" "w_offsets ?ws2 ! 1 = ?j" using off by (simp_all add: ws1_def advanced_def)
  have "\<exists>of'. table_loop 1024 (addrspc_map_recursive 1 flags) root' 1 1024 ws1 = Some (?ws2\<lparr>w_offsets := of'\<rparr>, 0)"
  proof -
    have "table_loop (Suc 1023) (addrspc_map_recursive 1 flags) root' 1 1024 ws1 =
        (if ?j + 1 = 1024 then Some (?ws2\<lparr>w_offsets := (w_offsets ?ws2)[1 := 0]\<rparr>, 0)
         else table_loop 1023 (addrspc_map_recursive 1 flags) root' 1 1024 (?ws2\<lparr>w_offsets := (w_offsets ?ws2)[1 := ?j + 1]\<rparr>))"
      unfolding table_loop.simps using nz s2(1) j1 by simp
    also have "\<dots> = Some (?ws2\<lparr>w_offsets := (if ?j + 1 = 1024 then (w_offsets ?ws2)[1 := 0] else (w_offsets ?ws2)[1 := ?j + 1])\<rparr>, 0)"
      using table_loop_done [of 1023 "?ws2\<lparr>w_offsets := (w_offsets ?ws2)[1 := ?j + 1]\<rparr>"] by (simp add: advanced_def)
    finally show ?thesis by auto
  qed
  then obtain of' where l: "table_loop 1024 (addrspc_map_recursive 1 flags) root' 1 1024 ws1 = Some (?ws2\<lparr>w_offsets := of'\<rparr>, 0)" by blast
  have rec: "addrspc_map st root vaddr paddr sz flags = Some (physpage_close pg st2, root', 0)"
    using l o(1) by (simp add: addrspc_map_def Let_def map_rec_tbl ws1_def advanced_def)
  have "p0 = p0 div 1024 * 1024 + p0 mod 1024" by simp
  then have "p0 + n \<le> 1048576" using p0(2) assms(10) by linarith
  then have "p0 + n \<le> 2 ^ 20" by simp
  then obtain r where sp: "addrspc_map st root vaddr paddr sz flags = Some (physpage_close pg st2, root', r)"
    "space_grows st root (physpage_close pg st2) root'"
    "r = err ENOMEM \<and> all_used (physpage_close pg st2) \<or> r = 0 \<and> (\<forall>q<2 ^ 20. walk (physpage_close pg st2) root' q =
       (if p0 \<le> q \<and> q < p0 + n then Some (new_entry (ALIGN_DOWN paddr PAGESZ) flags (q - p0)) else walk st root q))"
    using addrspc_map_spec [OF assms(1,2,4,8,6), of paddr] assms(7) rec by auto
  have "r = 0" using sp(1) rec by simp
  moreover have "used (physpage_close pg st2) = used st2" using used_same [OF same_alloc_close(1) [of st2 pg]] s2(2) by (simp add: wf_pm_def)
  moreover have "dir_entry (physpage_close pg st2) root' = tables st2 root'" using o(3) by (simp add: dir_entry_def pr)
  ultimately show ?thesis using rec sp(2,3) o(2-5) s2(3,4) err_ENOMEM_neg by (auto simp: missing_def)
qed

text \<open>
  Property C35. The pages for page tables are the only thing that can make \<open>addrspc_map\<close> fail, and it takes no more of them than it needs: a range
  that one page table covers is mapped whenever there is a page for the directory and for the table, as far as they are missing, and exactly
  these are taken. The directory entry then has the flags of the mapping, beside those that it had.
\<close>

theorem addrspc_map_page_count:
  assumes "wf_pm st" "wf_space st root" "page_addr root" "low_flags flags" "flags AND 0x18 = 0"
    and "p0 = unat vaddr div 4096" "n = page_count sz" "unat sz + 4095 < 2 ^ 32" "0 < n" "p0 mod 1024 + n \<le> 1024"
    and "used st + missing st root (p0 div 1024) \<le> PHYSPAGES_MAX"
  shows "\<exists>st' root'. addrspc_map st root vaddr paddr sz flags = Some (st', root', 0) \<and>
    used st' = used st + missing st root (p0 div 1024) \<and> opened flags (p0 div 1024) (dir_entry st root) (dir_entry st' root') \<and>
    wf_pm st' \<and> wf_space st' root' \<and> page_addr root'"
  using map_one_table [OF assms, of paddr] unfolding space_grows_def by blast

lemma used_pm0: "used pm0 = 0"
  by (auto simp: used_def pm0_def card_eq_0_iff)

theorem addrspc_map_page_count_witness:
  "\<exists>st' root'. addrspc_map pm0 0 0 0 0x400000 0 = Some (st', root', 0) \<and> used st' = 2"
proof -
  have m: "missing pm0 0 0 = 2" by (simp add: missing_def dir_entry_def pme_ispresent_def)
  have "\<exists>st' root'. addrspc_map pm0 0 0 0 0x400000 0 = Some (st', root', 0) \<and>
    used st' = used pm0 + missing pm0 0 (0 div 1024) \<and> opened 0 (0 div 1024) (dir_entry pm0 0) (dir_entry st' root') \<and>
    wf_pm st' \<and> wf_space st' root' \<and> page_addr root'"
    by (rule addrspc_map_page_count [OF pm0_wf, where n = 1024])
      (simp_all add: page_addr_def low_flags_def page_count_def used_pm0 m PHYSPAGES_MAX_def)
  then show ?thesis by (auto simp: used_pm0 m)
qed

end
