(* ===== verification/Loading.thy ===== *)
theory Loading
  imports Process Page_Count
begin

text \<open>
  Loading a program (\<open>process_load_path\<close> of \<open>kernel/process.c\<close>), put together from the archive, the page maps and the ELF reader.

  \<open>elf_image\<close> says that the bytes of a file are an executable with given headers. Its segments lie in the four megabytes above
  the kernel (\<open>in_user_area\<close>), where the user stack is too: the pages for page tables are just enough for the kernel and one such
  program. The RAM disks must keep off the user area and off the area of the page tables (\<open>disks_clear\<close>), which are both written
  while the program is loaded. \<open>load_image\<close> is the memory that the segments make, and \<open>program_rights\<close> is what user code may do with a page.
\<close>

section \<open>Executables\<close>

definition USER_LOW :: nat where "USER_LOW = 0x400000"
definition USER_HIGH :: nat where "USER_HIGH = 0x800000"

definition disks_clear :: "'a rdstate_scheme \<Rightarrow> bool" where
  "disks_clear st \<longleftrightarrow> disks_outside st USER_LOW USER_HIGH \<and>
    (\<forall>i<RAMDISKS_MAX. outside_tables (rd_addr (ramdisks st ! i)) (rd_addr (ramdisks st ! i) + rd_size (ramdisks st ! i)))"

definition elf_image :: "string \<Rightarrow> Elf32_Ehdr \<Rightarrow> Elf32_Phdr list \<Rightarrow> bool" where
  "elf_image c eh phs \<longleftrightarrow> sizeof_Ehdr \<le> length c \<and> length c < 2 ^ 31 \<and> take SELFMAG c = ELFMAG \<and> uchar (c ! EI_CLASS) = ELFCLASS32 \<and>
    half c 16 = ET_EXEC \<and> eh = ehdr_of (take sizeof_Ehdr c) \<and> length phs = unat (e_phnum eh) \<and>
    unat (e_phoff eh) + length phs * sizeof_Phdr \<le> length c \<and>
    (\<forall>i<length phs. phs ! i = phdr_of (take sizeof_Phdr (drop (unat (e_phoff eh) + i * sizeof_Phdr) c)))"

definition in_user_area :: "string \<Rightarrow> Elf32_Phdr \<Rightarrow> bool" where
  "in_user_area c ph \<longleftrightarrow> (p_type ph = PT_LOAD \<longrightarrow> unat (p_offset ph) + unat (p_filesz ph) \<le> length c \<and> p_filesz ph \<le> p_memsz ph \<and>
    0 < p_memsz ph \<and> USER_LOW \<le> unat (p_vaddr ph) \<and> unat (p_vaddr ph) + unat (p_memsz ph) \<le> USER_HIGH)"

definition load_image :: "string \<Rightarrow> mem \<Rightarrow> Elf32_Phdr \<Rightarrow> mem" where
  "load_image c m ph =
    (if p_type ph = PT_LOAD
     then mem_write m (unat (p_vaddr ph))
            (take (unat (p_filesz ph)) (drop (unat (p_offset ph)) c) @ replicate (unat (p_memsz ph) - unat (p_filesz ph)) NUL)
     else m)"

definition covers :: "Elf32_Phdr \<Rightarrow> nat \<Rightarrow> bool" where
  "covers ph q \<longleftrightarrow> p_type ph = PT_LOAD \<and> unat (p_vaddr ph) div 4096 \<le> q \<and> q * 4096 < unat (p_vaddr ph) + unat (p_memsz ph)"

definition seg_flags :: "Elf32_Phdr \<Rightarrow> u32" where
  "seg_flags ph = (if p_flags ph AND PF_W \<noteq> 0 then PME_USER OR PME_W else PME_USER)"

text \<open>The entry of a page that is mapped to itself.\<close>

definition ident_entry :: "u32 \<Rightarrow> nat \<Rightarrow> u32" where
  "ident_entry flags q = pme_pack (of_nat q * PAGESZ) (flags OR PME_PRESENT) 2"

definition map_segment :: "nat \<Rightarrow> u32 option \<Rightarrow> Elf32_Phdr \<Rightarrow> u32 option" where
  "map_segment q e ph = (if covers ph q then Some (ident_entry (seg_flags ph) q) else e)"

lemma ehdr_of_append: "sizeof_Ehdr \<le> length bs \<Longrightarrow> ehdr_of (bs @ xs) = ehdr_of bs"
  by (simp add: ehdr_of_def half_def word32_def sizeof_Ehdr_def nth_append)

lemma phdr_of_append: "sizeof_Phdr \<le> length bs \<Longrightarrow> phdr_of (bs @ xs) = phdr_of bs"
  by (auto simp: phdr_of_def word32_def sizeof_Phdr_def nth_append)

lemma ALIGN_DOWN_page: "ALIGN_DOWN v PAGESZ = of_nat (unat v div 4096) * PAGESZ"
proof -
  have u: "unat (ALIGN_DOWN v (2 ^ 12)) = unat v div 2 ^ 12 * 2 ^ 12" by (rule unat_ALIGN_DOWN) simp
  have "unat v div 4096 * 4096 < 2 ^ 32"
    using unsigned_less [where ?'a = nat, of v] div_times_less_eq_dividend [of "unat v" 4096] by simp
  then have "unat (of_nat (unat v div 4096 * 4096) :: u32) = unat v div 4096 * 4096" by (rule unat_small)
  then show ?thesis using u by (simp add: word_unat_eq_iff PAGESZ_def)
qed

lemma new_entry_ident: "unat v div 4096 \<le> q \<Longrightarrow> new_entry (ALIGN_DOWN v PAGESZ) flags (q - unat v div 4096) = ident_entry flags q"
  by (simp add: new_entry_def ident_entry_def ALIGN_DOWN_page of_nat_diff algebra_simps)

text \<open>The range that is mapped for a segment.\<close>

lemma segment_range:
  assumes "in_user_area c ph" "p_type ph = PT_LOAD"
  defines "sz \<equiv> ALIGN_UP (p_vaddr ph + p_memsz ph) PAGESZ - ALIGN_DOWN (p_vaddr ph) PAGESZ"
  shows "unat (p_vaddr ph) div 4096 div 1024 = 1" "unat sz + 4095 < 2 ^ 32" "0 < page_count sz"
    "unat (p_vaddr ph) div 4096 mod 1024 + page_count sz \<le> 1024"
    "unat (p_vaddr ph) div 4096 \<le> q \<and> q < unat (p_vaddr ph) div 4096 + page_count sz \<longleftrightarrow> covers ph q"
proof -
  define v n where "v = unat (p_vaddr ph)" and "n = unat (p_memsz ph)"
  have b: "0x400000 \<le> v" "v + n \<le> 0x800000" "0 < n"
    using assms(1,2) by (simp_all add: in_user_area_def v_def n_def USER_LOW_def USER_HIGH_def word_less_nat_alt)
  define hi where "hi = (v + n + 4095) div 4096"
  define lo where "lo = v div 4096"
  have s: "unat (p_vaddr ph + p_memsz ph) = v + n"
    using b by (subst unat_add_lem [THEN iffD1]) (simp_all add: v_def n_def)
  have up: "unat (ALIGN_UP (p_vaddr ph + p_memsz ph) PAGESZ) = hi * 4096"
    using unat_ALIGN_UP [of 12 "p_vaddr ph + p_memsz ph"] b by (simp add: s hi_def PAGESZ_def)
  have lo1: "lo * 4096 \<le> v" "v < lo * 4096 + 4096" by (simp_all add: lo_def)
  have hi1: "v + n \<le> hi * 4096" "hi * 4096 < v + n + 4096" by (simp_all add: hi_def)
  have dn: "unat (ALIGN_DOWN (p_vaddr ph) PAGESZ) = lo * 4096"
    using unat_ALIGN_DOWN [of 12 "p_vaddr ph"] by (simp add: lo_def v_def PAGESZ_def)
  have le: "lo < hi" using lo1 hi1 b by linarith
  have sz: "unat sz = (hi - lo) * 4096"
    unfolding sz_def using up dn le by (subst unat_sub) (simp_all add: word_le_nat_alt diff_mult_distrib)
  have lb: "1024 \<le> lo" "hi \<le> 2048" using lo1 hi1 b by linarith+
  have pc: "page_count sz = hi - lo" by (simp add: page_count_def sz)
  have d: "lo div 1024 = 1" "lo mod 1024 = lo - 1024" using lb le by (simp_all add: div_nat_eqI mod_nat_eqI)
  show "unat (p_vaddr ph) div 4096 div 1024 = 1" using d by (simp add: lo_def v_def)
  show "unat sz + 4095 < 2 ^ 32" using lb by (simp add: sz)
  show "0 < page_count sz" using le by (simp add: pc)
  show "unat (p_vaddr ph) div 4096 mod 1024 + page_count sz \<le> 1024" using d lb le by (simp add: pc lo_def [symmetric] v_def [symmetric])
  have "lo \<le> q \<and> q < hi \<longleftrightarrow> lo \<le> q \<and> q * 4096 < v + n" using hi1 by linarith
  then show "unat (p_vaddr ph) div 4096 \<le> q \<and> q < unat (p_vaddr ph) div 4096 + page_count sz \<longleftrightarrow> covers ph q"
    using le assms(2) by (simp add: pc covers_def lo_def [symmetric] v_def [symmetric] n_def [symmetric])
qed

section \<open>Loading the segments\<close>

lemma munix_eq: "munix_drivers B = with_cpiofs (with_ramdisk (with_tty (with_serial B no_drivers)))"
  by (simp add: munix_drivers_def munix_devices_def)

lemma cpio_file_frame [simp]:
  fixes st :: "('h, 'a) kstate_scheme"
  shows "cpio_file f (upd_process p g st) c = cpio_file f st c" "cpio_file f (st\<lparr>pm := x\<rparr>) c = cpio_file f st c"
  by (simp_all add: cpio_file_def disk_file_def upd_process_def)

lemma upd_process_more [simp]:
  "pm (upd_process p f st) = pm st" "ramdisks (upd_process p f st) = ramdisks st" "cr3 (upd_process p f st) = cr3 st"
  by (simp_all add: upd_process_def)

text \<open>The state while the segments of process \<open>p\<close> are loaded.\<close>

definition loading :: "nat \<Rightarrow> string \<Rightarrow> u32 \<Rightarrow> ('h, 'a) kstate_scheme \<Rightarrow> bool" where
  "loading p c root st \<longleftrightarrow> p < length (pcb st) \<and> cpio_file (execfile (pcb st ! p)) st c \<and> addrspc (pcb st ! p) = root \<and> root \<noteq> 0 \<and> page_addr root \<and>
    wf_pm (pm st) \<and> wf_space (pm st) root \<and> used (pm st) \<le> PHYSPAGES_MAX \<and> pme_ispresent (dir_entry (pm st) root 1) 1 \<and>
    dir_entry (pm st) root 1 AND (PME_USER OR PME_W) = PME_USER OR PME_W \<and> disks_outside st USER_LOW USER_HIGH"

lemma loadingD:
  assumes "loading p c root st"
  shows "p < length (pcb st)" "cpio_file (execfile (pcb st ! p)) st c" "addrspc (pcb st ! p) = root" "root \<noteq> 0" "page_addr root"
    "wf_pm (pm st)" "wf_space (pm st) root" "used (pm st) \<le> PHYSPAGES_MAX" "pme_ispresent (dir_entry (pm st) root 1) 1"
    "dir_entry (pm st) root 1 AND (PME_USER OR PME_W) = PME_USER OR PME_W" "disks_outside st USER_LOW USER_HIGH"
  using assms by (simp_all add: loading_def)

lemma seg_flags_low [simp]: "low_flags (seg_flags ph)" "seg_flags ph AND 0x18 = 0"
  by (simp_all add: seg_flags_def low_flags_def PME_USER_def PME_W_def)

lemma map_segment_pages:
  assumes "loading p c root st" "in_user_area c ph" "p_type ph = PT_LOAD"
  defines "sz \<equiv> ALIGN_UP (p_vaddr ph + p_memsz ph) PAGESZ - ALIGN_DOWN (p_vaddr ph) PAGESZ"
  shows "\<exists>pm'. addrspc_map (pm st) root (ALIGN_DOWN (p_vaddr ph) PAGESZ) (ALIGN_DOWN (p_vaddr ph) PAGESZ) sz (seg_flags ph) = Some (pm', root, 0) \<and>
    loading p c root (st\<lparr>pm := pm'\<rparr>) \<and> (\<forall>j. j \<noteq> 1 \<longrightarrow> dir_entry pm' root j = dir_entry (pm st) root j) \<and>
    (\<forall>q<2 ^ 20. walk pm' root q = map_segment q (walk (pm st) root q) ph)"
proof -
  note l = loadingD [OF assms(1)] and r = segment_range [OF assms(2,3), folded sz_def]
  let ?v = "ALIGN_DOWN (p_vaddr ph) PAGESZ"
  have v: "unat ?v div 4096 = unat (p_vaddr ph) div 4096" by (rule align_down_pages)
  have aa: "ALIGN_DOWN ?v PAGESZ = ?v" using v by (simp add: ALIGN_DOWN_page)
  have m0: "missing (pm st) root (unat ?v div 4096 div 1024) = 0" using l(4,9) r(1) by (simp add: missing_def v)
  have "\<exists>st' root'. addrspc_map (pm st) root ?v ?v sz (seg_flags ph) = Some (st', root', 0) \<and>
    space_grows (pm st) root st' root' \<and> page_addr root' \<and> root' \<noteq> 0 \<and> (root \<noteq> 0 \<longrightarrow> root' = root) \<and>
    used st' = used (pm st) + missing (pm st) root (unat ?v div 4096 div 1024) \<and>
    opened (seg_flags ph) (unat ?v div 4096 div 1024) (dir_entry (pm st) root) (dir_entry st' root') \<and>
    (\<forall>q<2 ^ 20. walk st' root' q =
       (if unat ?v div 4096 \<le> q \<and> q < unat ?v div 4096 + page_count sz then Some (new_entry (ALIGN_DOWN ?v PAGESZ) (seg_flags ph) (q - unat ?v div 4096))
        else walk (pm st) root q))"
    by (rule map_one_table [OF l(6,7,5) seg_flags_low refl refl]) (use r m0 l(8) in \<open>simp_all add: v\<close>)
  then obtain pm' where m: "addrspc_map (pm st) root ?v ?v sz (seg_flags ph) = Some (pm', root, 0)" "space_grows (pm st) root pm' root"
    "used pm' = used (pm st)" "opened (seg_flags ph) 1 (dir_entry (pm st) root) (dir_entry pm' root)"
    "\<forall>q<2 ^ 20. walk pm' root q =
       (if unat ?v div 4096 \<le> q \<and> q < unat ?v div 4096 + page_count sz then Some (new_entry ?v (seg_flags ph) (q - unat ?v div 4096))
        else walk (pm st) root q)"
    using l(4) m0 r(1) by (auto simp: v aa)
  have o: "dir_entry pm' root j = dir_entry (pm st) root j" if "j \<noteq> 1" for j using m(4) that by (auto simp: opened_def)
  have e: "pme_ispresent (dir_entry pm' root 1) 1" "dir_entry pm' root 1 AND dir_entry (pm st) root 1 = dir_entry (pm st) root 1"
    using m(4) l(9) by (auto simp: opened_def)
  then have "dir_entry pm' root 1 AND (PME_USER OR PME_W) = PME_USER OR PME_W" using l(10) by (metis and.assoc)
  then have "loading p c root (st\<lparr>pm := pm'\<rparr>)"
    using l e m(2,3) by (simp add: loading_def space_grows_def disks_outside_def)
  moreover have "walk pm' root q = map_segment q (walk (pm st) root q) ph" if "q < 2 ^ 20" for q
    using m(5) that r(5) [of q] new_entry_ident [of "p_vaddr ph" q] by (auto simp: v map_segment_def)
  ultimately show ?thesis using m(1) o by blast
qed

lemma upd_process_id: "p < length (pcb st) \<Longrightarrow> f (pcb st ! p) = pcb st ! p \<Longrightarrow> upd_process p f st = st"
  by (simp add: upd_process_def)

lemma upd_process_twice [simp]: "p < length (pcb st) \<Longrightarrow> upd_process p g (upd_process p f st) = upd_process p (\<lambda>q. g (f q)) st"
  by (simp add: upd_process_def)

lemma upd_process_pm [simp]: "upd_process p f (st\<lparr>pm := x\<rparr>) = (upd_process p f st)\<lparr>pm := x\<rparr>"
  by (simp add: upd_process_def)

lemma upd_process_kmem [simp]: "upd_process p f (st\<lparr>kmem := x\<rparr>) = (upd_process p f st)\<lparr>kmem := x\<rparr>"
  by (simp add: upd_process_def)

lemma loading_exec:
  "loading p c root st \<Longrightarrow> loading p c root (upd_process p (\<lambda>q. q\<lparr>execfile := (execfile (pcb st ! p))\<lparr>f_pos := x\<rparr>\<rparr>) st)"
  by (simp add: loading_def disks_outside_def)

lemma loading_write:
  assumes "loading p c root st" "USER_LOW \<le> a" "a + length bs \<le> USER_HIGH"
  shows "loading p c root (st\<lparr>kmem := mem_write (kmem st) a bs\<rparr>)"
  using assms cpio_file_write [OF loadingD(11) [OF assms(1)] assms(2,3) loadingD(2) [OF assms(1)]]
  by (simp add: loading_def disks_outside_def)

text \<open>One program header: read, mapped and loaded.\<close>

lemma load_one:
  assumes "loading p c root st" "elf_image c eh phs" "i < length phs" "in_user_area c (phs ! i)"
  shows "\<exists>x pm'. load_segments (munix_drivers B) p oldp eh (Suc k) i st = load_segments (munix_drivers B) p oldp eh k (Suc i)
      (upd_process p (\<lambda>q. q\<lparr>execfile := (execfile (pcb st ! p))\<lparr>f_pos := x\<rparr>\<rparr>) (st\<lparr>pm := pm', kmem := load_image c (kmem st) (phs ! i)\<rparr>)) \<and>
    loading p c root (upd_process p (\<lambda>q. q\<lparr>execfile := (execfile (pcb st ! p))\<lparr>f_pos := x\<rparr>\<rparr>) (st\<lparr>pm := pm', kmem := load_image c (kmem st) (phs ! i)\<rparr>)) \<and>
    (\<forall>j. j \<noteq> 1 \<longrightarrow> dir_entry pm' root j = dir_entry (pm st) root j) \<and>
    (\<forall>q<2 ^ 20. walk pm' root q = map_segment q (walk (pm st) root q) (phs ! i))"
proof -
  let ?f = "execfile (pcb st ! p)" and ?ph = "phs ! i" and ?D = "munix_drivers B"
  note l = loadingD [OF assms(1)]
  have img: "length c < 2 ^ 31" "unat (e_phoff eh) + length phs * sizeof_Phdr \<le> length c"
    "?ph = phdr_of (take sizeof_Phdr (drop (unat (e_phoff eh) + i * sizeof_Phdr) c))"
    using assms(2,3) unfolding elf_image_def by blast+
  have "(i + 1) * sizeof_Phdr \<le> length phs * sizeof_Phdr" using assms(3) by (intro mult_le_mono1) simp
  then have le: "unat (e_phoff eh) + i * sizeof_Phdr + sizeof_Phdr \<le> length c" using img(2) by simp
  moreover have "uint (e_phoff eh) = int (unat (e_phoff eh))" by simp
  ultimately have "uint (e_phoff eh) + int (i * sizeof_Phdr + sizeof_Phdr) \<le> int (length c)" by linarith
  then obtain x where x: "elf_read_phdr32 ?D ?f eh i (oldp i) st = Some (?ph, ?f\<lparr>f_pos := x\<rparr>, st, 0)"
    using cpf.read_phdr [OF l(2) _ img(1), of eh i "with_tty (with_serial B no_drivers)" "oldp i"] le
    by (auto simp: munix_eq phdr_of_append img(3) min_absorb2)
  let ?st1 = "upd_process p (\<lambda>q. q\<lparr>execfile := ?f\<lparr>f_pos := x\<rparr>\<rparr>) st"
  note l1 = loading_exec [OF assms(1), of x]
  show ?thesis
  proof (cases "p_type ?ph = PT_LOAD")
    case False
    have "st\<lparr>pm := pm st, kmem := kmem st\<rparr> = st" by simp
    then show ?thesis using x False l1
      by (intro exI [of _ x] exI [of _ "pm st"]) (simp add: load_image_def map_segment_def covers_def)
  next
    case True
    let ?v = "ALIGN_DOWN (p_vaddr ?ph) PAGESZ"
    let ?sz = "ALIGN_UP (p_vaddr ?ph + p_memsz ?ph) PAGESZ - ?v"
    obtain pm' where m: "addrspc_map (pm ?st1) root ?v ?v ?sz (seg_flags ?ph) = Some (pm', root, 0)" "loading p c root (?st1\<lparr>pm := pm'\<rparr>)"
      "\<forall>j. j \<noteq> 1 \<longrightarrow> dir_entry pm' root j = dir_entry (pm ?st1) root j" "\<forall>q<2 ^ 20. walk pm' root q = map_segment q (walk (pm ?st1) root q) ?ph"
      using map_segment_pages [OF l1 assms(4) True] by blast
    have pm1: "pm ?st1 = pm st" "addrspc (pcb ?st1 ! p) = root" using l(1,3) by (simp_all add: upd_process_def)
    let ?st2 = "?st1\<lparr>pm := pm'\<rparr>"
    have on: "on_addrspc p (\<lambda>pm root. addrspc_map pm root ?v ?v ?sz (seg_flags ?ph)) ?st1 = Some (?st2, 0)"
    proof -
      have "upd_process p (\<lambda>q. q\<lparr>addrspc := root\<rparr>) ?st2 = ?st2" using l(1,3) by (intro upd_process_id) (simp_all add: upd_process_def)
      then show ?thesis using m(1) pm1(2) by (simp add: on_addrspc_def)
    qed
    have seg: "unat (p_offset ?ph) + unat (p_filesz ?ph) \<le> length c" "p_filesz ?ph \<le> p_memsz ?ph" "USER_LOW \<le> unat (p_vaddr ?ph)"
      "unat (p_vaddr ?ph) + unat (p_memsz ?ph) \<le> USER_HIGH" "unat (p_vaddr ?ph) + unat (p_memsz ?ph) < 2 ^ 32"
      "p_vaddr ?ph \<noteq> 0"
      using assms(4) True by (auto simp: in_user_area_def USER_LOW_def USER_HIGH_def)
    let ?bs = "take (unat (p_filesz ?ph)) (drop (unat (p_offset ?ph)) c) @ replicate (unat (p_memsz ?ph) - unat (p_filesz ?ph)) NUL"
    have len: "length ?bs = unat (p_memsz ?ph)" using seg(1,2) by (simp add: word_le_nat_alt)
    have f2: "execfile (pcb ?st2 ! p) = ?f\<lparr>f_pos := x\<rparr>" using l(1) by (simp add: upd_process_def)
    obtain y where y: "elf_load_seg32 ?D (?f\<lparr>f_pos := x\<rparr>) ?ph ?st2 =
        Some (?f\<lparr>f_pos := y\<rparr>, ?st2\<lparr>kmem := mem_write (kmem ?st2) (unat (p_vaddr ?ph)) ?bs\<rparr>, 0)"
      using cpf.load_segment [OF loadingD(2) [OF m(2), unfolded f2] seg(1) img(1) seg(2,5,6), of "with_tty (with_serial B no_drivers)"]
      by (auto simp: munix_eq)
    have km: "mem_write (kmem ?st2) (unat (p_vaddr ?ph)) ?bs = load_image c (kmem st) ?ph" using True by (simp add: load_image_def)
    have fin: "upd_process p (\<lambda>q. q\<lparr>execfile := ?f\<lparr>f_pos := y\<rparr>\<rparr>) (?st2\<lparr>kmem := load_image c (kmem st) ?ph\<rparr>) =
        upd_process p (\<lambda>q. q\<lparr>execfile := ?f\<lparr>f_pos := y\<rparr>\<rparr>) (st\<lparr>pm := pm', kmem := load_image c (kmem st) ?ph\<rparr>)"
      using l(1) by (simp add: upd_process_def)
    have "load_segments ?D p oldp eh (Suc k) i st = load_segments ?D p oldp eh k (Suc i)
        (upd_process p (\<lambda>q. q\<lparr>execfile := ?f\<lparr>f_pos := y\<rparr>\<rparr>) (?st2\<lparr>kmem := mem_write (kmem ?st2) (unat (p_vaddr ?ph)) ?bs\<rparr>))"
      using x True on y f2 unfolding load_segments.simps
      by (simp add: Let_def seg_flags_def [symmetric] del: upd_process_kmem upd_process_pm upd_process_twice upd_process_simps)
    then have "load_segments ?D p oldp eh (Suc k) i st = load_segments ?D p oldp eh k (Suc i)
        (upd_process p (\<lambda>q. q\<lparr>execfile := ?f\<lparr>f_pos := y\<rparr>\<rparr>) (st\<lparr>pm := pm', kmem := load_image c (kmem st) ?ph\<rparr>))"
      unfolding km fin .
    moreover have "loading p c root (upd_process p (\<lambda>q. q\<lparr>execfile := ?f\<lparr>f_pos := y\<rparr>\<rparr>) (st\<lparr>pm := pm', kmem := load_image c (kmem st) ?ph\<rparr>))"
      using loading_exec [OF loading_write [OF m(2) seg(3), of ?bs], of y] seg(4) len f2 unfolding fin [symmetric] km by simp
    ultimately show ?thesis using m(3,4) pm1(1) by metis
  qed
qed

lemma load_segments_ok:
  assumes "loading p c root st" "elf_image c eh phs" "k + i = length phs" "\<forall>ph \<in> set phs. in_user_area c ph"
  shows "\<exists>x pm'. load_segments (munix_drivers B) p oldp eh k i st =
      Some (upd_process p (\<lambda>q. q\<lparr>execfile := (execfile (pcb st ! p))\<lparr>f_pos := x\<rparr>\<rparr>) (st\<lparr>pm := pm', kmem := foldl (load_image c) (kmem st) (drop i phs)\<rparr>), 0) \<and>
    wf_pm pm' \<and> wf_space pm' root \<and> dir_entry pm' root 1 AND (PME_USER OR PME_W) = PME_USER OR PME_W \<and>
    (\<forall>q<2 ^ 20. walk pm' root q = foldl (map_segment q) (walk (pm st) root q) (drop i phs))"
  using assms(1,3)
proof (induction k arbitrary: i st)
  case 0
  note l = loadingD [OF 0(1)]
  have "upd_process p (\<lambda>q. q\<lparr>execfile := (execfile (pcb st ! p))\<lparr>f_pos := f_pos (execfile (pcb st ! p))\<rparr>\<rparr>) st = st"
    using l(1) by (intro upd_process_id) simp_all
  then show ?case using 0 l by (intro exI [of _ "f_pos (execfile (pcb st ! p))"] exI [of _ "pm st"]) simp
next
  case (Suc k)
  then have i: "i < length phs" "in_user_area c (phs ! i)" "drop i phs = phs ! i # drop (Suc i) phs"
    using assms(4) by (simp_all add: Cons_nth_drop_Suc)
  let ?f = "execfile (pcb st ! p)"
  let ?upd = "\<lambda>x pm'. upd_process p (\<lambda>q. q\<lparr>execfile := ?f\<lparr>f_pos := x\<rparr>\<rparr>) (st\<lparr>pm := pm', kmem := load_image c (kmem st) (phs ! i)\<rparr>)"
  obtain x pm' where s: "load_segments (munix_drivers B) p oldp eh (Suc k) i st = load_segments (munix_drivers B) p oldp eh k (Suc i) (?upd x pm')"
    "loading p c root (?upd x pm')" "\<forall>q<2 ^ 20. walk pm' root q = map_segment q (walk (pm st) root q) (phs ! i)"
    using load_one [OF Suc.prems(1) assms(2) i(1,2), of B oldp k] by blast
  let ?s = "?upd x pm'"
  have p: "p < length (pcb st)" using loadingD(1) [OF Suc.prems(1)] .
  have f: "execfile (pcb ?s ! p) = ?f\<lparr>f_pos := x\<rparr>" "pm ?s = pm'" using p by simp_all
  have ki: "k + Suc i = length phs" using Suc.prems(2) by simp
  obtain y pm'' where r: "load_segments (munix_drivers B) p oldp eh k (Suc i) ?s =
      Some (upd_process p (\<lambda>q. q\<lparr>execfile := ?f\<lparr>f_pos := y\<rparr>\<rparr>) (?s\<lparr>pm := pm'', kmem := foldl (load_image c) (kmem ?s) (drop (Suc i) phs)\<rparr>), 0)"
    "wf_pm pm''" "wf_space pm'' root" "dir_entry pm'' root 1 AND (PME_USER OR PME_W) = PME_USER OR PME_W"
    "\<forall>q<2 ^ 20. walk pm'' root q = foldl (map_segment q) (walk pm' root q) (drop (Suc i) phs)"
    using Suc.IH [OF s(2) ki] unfolding f by auto
  have "upd_process p (\<lambda>q. q\<lparr>execfile := ?f\<lparr>f_pos := y\<rparr>\<rparr>) (?s\<lparr>pm := pm'', kmem := foldl (load_image c) (kmem ?s) (drop (Suc i) phs)\<rparr>) =
      upd_process p (\<lambda>q. q\<lparr>execfile := ?f\<lparr>f_pos := y\<rparr>\<rparr>) (st\<lparr>pm := pm'', kmem := foldl (load_image c) (kmem st) (drop i phs)\<rparr>)"
    using p i(3) by (simp add: upd_process_def)
  then show ?case using s(1,3) r i(3) by (intro exI [of _ y] exI [of _ pm'']) simp
qed

section \<open>What user code may do with a page\<close>

text \<open>The frame of a page and the rights of user code, which an entry gives only as far as that of the directory gives them too.\<close>

definition translation :: "pmstate \<Rightarrow> u32 \<Rightarrow> nat \<Rightarrow> (u32 \<times> u32) option" where
  "translation st root q = map_option (\<lambda>e. (pme_paddr e 2, e AND dir_entry st root (q div 1024) AND (PME_USER OR PME_W))) (walk st root q)"

text \<open>The kernel is mapped without rights for user code, the stack can be written, and a page of a segment has the rights of the last segment on it.\<close>

definition base_rights :: "nat \<Rightarrow> u32 option" where
  "base_rights q = (if q < 1024 then Some 0 else if 0x4f0 \<le> q \<and> q < 0x500 then Some (PME_USER OR PME_W) else None)"

definition program_rights :: "Elf32_Phdr list \<Rightarrow> nat \<Rightarrow> u32 option" where
  "program_rights phs q = foldl (\<lambda>r ph. if covers ph q then Some (seg_flags ph) else r) (base_rights q) phs"

lemma fold_map_segment:
  "foldl (map_segment q) (map_option (\<lambda>r. ident_entry r q) r) phs =
    map_option (\<lambda>r. ident_entry r q) (foldl (\<lambda>r ph. if covers ph q then Some (seg_flags ph) else r) r phs)"
  by (induction phs arbitrary: r) (simp_all add: map_segment_def, metis option.map(2))

lemma covers_area: "in_user_area c ph \<Longrightarrow> covers ph q \<Longrightarrow> 1024 \<le> q \<and> q < 2048"
  by (auto simp: covers_def in_user_area_def USER_LOW_def USER_HIGH_def)

lemma program_rights_cases:
  assumes "\<forall>ph \<in> set phs. in_user_area c ph" "program_rights phs q = Some r"
  shows "q < 1024 \<and> r = 0 \<or> q div 1024 = 1 \<and> r AND (PME_USER OR PME_W) = r"
proof -
  have "program_rights phs q = base_rights q \<or> (\<exists>ph \<in> set phs. covers ph q \<and> program_rights phs q = Some (seg_flags ph))"
    unfolding program_rights_def by (induction phs rule: rev_induct) auto
  moreover have "q div 1024 = 1 \<and> seg_flags ph AND (PME_USER OR PME_W) = seg_flags ph" if "ph \<in> set phs" "covers ph q" for ph
    using covers_area [OF _ that(2)] assms(1) that(1) by (auto simp: seg_flags_def PME_USER_def PME_W_def intro!: div_nat_eqI)
  moreover have "q < 1024 \<and> r = 0 \<or> q div 1024 = 1 \<and> r AND (PME_USER OR PME_W) = r" if "base_rights q = Some r"
    using that by (auto simp: base_rights_def split: if_splits intro!: div_nat_eqI)
  ultimately show ?thesis using assms(2) by auto
qed

lemma ident_entry_bits:
  assumes "q < 2 ^ 20" "r AND (PME_USER OR PME_W) = r"
  shows "pme_paddr (ident_entry r q) 2 = of_nat q * PAGESZ" "ident_entry r q AND (PME_USER OR PME_W) = r"
proof -
  have m: "(of_nat q :: u32) * PAGESZ = push_bit 12 (of_nat q)" by (simp add: PAGESZ_def push_bit_eq_mult)
  have pa: "page_addr (of_nat q * PAGESZ)" 
  proof -
    have "take_bit 12 (push_bit 12 (of_nat q :: u32)) = 0" by (simp add: take_bit_push_bit)
    then show ?thesis unfolding page_addr_def m by (simp add: take_bit_eq_mask mask_eq_exp_minus_1)
  qed
  have lf: "(PME_USER OR PME_W) AND NOT 0xfff = 0" by (simp add: PME_USER_def PME_W_def)
  have "r AND NOT 0xfff = r AND ((PME_USER OR PME_W) AND NOT 0xfff)" by (subst assms(2) [symmetric]) (rule and.assoc)
  then have "low_flags r" unfolding low_flags_def lf by simp
  then show "pme_paddr (ident_entry r q) 2 = of_nat q * PAGESZ"
    unfolding ident_entry_def by (intro pme_pack_paddr pa low_flags_or low_flags_present)
  have "of_nat q * PAGESZ AND (0xfff AND (PME_USER OR PME_W)) = 0"
    using pa unfolding page_addr_def and.assoc [symmetric] by simp
  moreover have "0xfff AND (PME_USER OR PME_W) = PME_USER OR PME_W" by (simp add: PME_USER_def PME_W_def)
  ultimately have "of_nat q * PAGESZ AND (PME_USER OR PME_W) = 0" by simp
  then show "ident_entry r q AND (PME_USER OR PME_W) = r"
    using assms(2) by (simp add: ident_entry_def pme_pack_def pme_set_flags_def bit.conj_disj_distrib2) (simp add: PME_PRESENT_def PME_USER_def PME_W_def)
qed

lemma translation_program:
  assumes "\<forall>ph \<in> set phs. in_user_area c ph" "q < 2 ^ 20" "dir_entry st root 1 AND (PME_USER OR PME_W) = PME_USER OR PME_W"
    and "walk st root q = map_option (\<lambda>r. ident_entry r q) (program_rights phs q)"
  shows "translation st root q = map_option (\<lambda>r. (of_nat q * PAGESZ, r)) (program_rights phs q)"
proof (cases "program_rights phs q")
  case (Some r)
  from program_rights_cases [OF assms(1) Some] show ?thesis
  proof
    assume a: "q < 1024 \<and> r = 0"
    have "ident_entry 0 q AND (PME_USER OR PME_W) = 0" by (rule ident_entry_bits(2) [OF assms(2)]) simp
    moreover have "ident_entry 0 q AND x AND (PME_USER OR PME_W) = (ident_entry 0 q AND (PME_USER OR PME_W)) AND x" for x by (simp only: ac_simps)
    ultimately have "ident_entry 0 q AND x AND (PME_USER OR PME_W) = 0" for x by simp
    then show ?thesis using a Some assms(4) ident_entry_bits(1) [OF assms(2), of 0] by (simp add: translation_def)
  next
    assume a: "q div 1024 = 1 \<and> r AND (PME_USER OR PME_W) = r"
    have "ident_entry r q AND dir_entry st root 1 AND (PME_USER OR PME_W) = r"
      using ident_entry_bits(2) [OF assms(2), of r] a assms(3) by (simp add: and.assoc)
    then show ?thesis using a Some assms(4) ident_entry_bits(1) [OF assms(2), of r] by (simp add: translation_def)
  qed
qed (use assms(4) in \<open>simp add: translation_def\<close>)

section \<open>The address space of a program\<close>

lemma addrspc_init_ok:
  assumes "wf_pm st" "used st + 2 \<le> PHYSPAGES_MAX"
  shows "\<exists>st' root. addrspc_init st 0 = Some (st', root, 0) \<and> space_grows st 0 st' root \<and> page_addr root \<and> root \<noteq> 0 \<and> used st' = used st + 2 \<and>
    (\<forall>j. j \<noteq> 0 \<longrightarrow> dir_entry st' root j = 0) \<and> (\<forall>q<2 ^ 20. walk st' root q = (if q < 1024 then Some (ident_entry 0 q) else None))"
proof -
  have pc: "page_count 0x400000 = 1024" by (simp add: page_count_def)
  have m: "missing st 0 0 = 2" by (simp add: missing_def dir_entry_def pme_ispresent_def)
  have "\<exists>st' root'. addrspc_map st 0 0 0 0x400000 0 = Some (st', root', 0) \<and>
    space_grows st 0 st' root' \<and> page_addr root' \<and> root' \<noteq> 0 \<and> ((0 :: u32) \<noteq> 0 \<longrightarrow> root' = 0) \<and>
    used st' = used st + missing st 0 (0 div 1024) \<and> opened 0 (0 div 1024) (dir_entry st 0) (dir_entry st' root') \<and>
    (\<forall>q<2 ^ 20. walk st' root' q =
       (if 0 \<le> q \<and> q < 0 + 1024 then Some (new_entry (ALIGN_DOWN 0 PAGESZ) 0 (q - 0)) else walk st 0 q))"
    by (rule map_one_table [OF assms(1)]) (use assms(2) in \<open>simp_all add: pc m wf_space_def page_addr_def low_flags_def\<close>)
  then obtain st' root where r: "addrspc_map st 0 0 0 0x400000 0 = Some (st', root, 0)" "space_grows st 0 st' root" "page_addr root" "root \<noteq> 0"
    "used st' = used st + 2" "opened 0 0 (dir_entry st 0) (dir_entry st' root)"
    "\<forall>q<2 ^ 20. walk st' root q = (if q < 1024 then Some (new_entry (ALIGN_DOWN 0 PAGESZ) 0 q) else walk st 0 q)"
    by (auto simp: m)
  have "addrspc_init st 0 = Some (st', root, 0)" using r(1) by (simp add: addrspc_init_def KMAP_MIN_def KMAP_MAX_def)
  moreover have "dir_entry st' root j = 0" if "j \<noteq> 0" for j using r(6) that by (auto simp: opened_def dir_entry_def)
  moreover have "new_entry (ALIGN_DOWN 0 PAGESZ) 0 q = ident_entry 0 q" for q using new_entry_ident [of 0 q 0] by simp
  ultimately show ?thesis using r by (auto simp: walk_def)
qed

lemma map_stack:
  assumes "wf_pm st" "wf_space st root" "page_addr root" "root \<noteq> 0" "\<not> pme_ispresent (dir_entry st root 1) 1" "used st < PHYSPAGES_MAX"
  shows "\<exists>st'. addrspc_map st root (USTACK_DFLT - THREAD_STACK_TOTAL) (USTACK_DFLT - THREAD_STACK_TOTAL) THREAD_STACK_TOTAL (PME_USER OR PME_W) = Some (st', root, 0) \<and>
    space_grows st root st' root \<and> used st' = used st + 1 \<and> pme_ispresent (dir_entry st' root 1) 1 \<and>
    dir_entry st' root 1 AND (PME_USER OR PME_W) = PME_USER OR PME_W \<and>
    (\<forall>q<2 ^ 20. walk st' root q = (if 0x4f0 \<le> q \<and> q < 0x500 then Some (ident_entry (PME_USER OR PME_W) q) else walk st root q))"
proof -
  let ?v = "0x4f0000 :: u32" and ?f = "PME_USER OR PME_W"
  have v: "USTACK_DFLT - THREAD_STACK_TOTAL = ?v" "THREAD_STACK_TOTAL = 0x10000"
    by (simp_all add: USTACK_DFLT_def THREAD_STACK_TOTAL_def THREAD_MAX_def THREAD_STACK_SIZE_def)
  have pc: "page_count 0x10000 = 16" by (simp add: page_count_def)
  have m: "missing st root 1 = 1" using assms(4,5) by (simp add: missing_def)
  have "\<exists>st' root'. addrspc_map st root ?v ?v 0x10000 ?f = Some (st', root', 0) \<and>
    space_grows st root st' root' \<and> page_addr root' \<and> root' \<noteq> 0 \<and> (root \<noteq> 0 \<longrightarrow> root' = root) \<and>
    used st' = used st + missing st root (0x4f0 div 1024) \<and> opened ?f (0x4f0 div 1024) (dir_entry st root) (dir_entry st' root') \<and>
    (\<forall>q<2 ^ 20. walk st' root' q =
       (if 0x4f0 \<le> q \<and> q < 0x4f0 + 16 then Some (new_entry (ALIGN_DOWN ?v PAGESZ) ?f (q - 0x4f0)) else walk st root q))"
    by (rule map_one_table [OF assms(1,2,3)]) (use assms(6) m in \<open>simp_all add: pc low_flags_def PME_USER_def PME_W_def\<close>)
  then obtain st' where r: "addrspc_map st root ?v ?v 0x10000 ?f = Some (st', root, 0)" "space_grows st root st' root" "used st' = used st + 1"
    "opened ?f 1 (dir_entry st root) (dir_entry st' root)" "\<forall>q<2 ^ 20. walk st' root q =
       (if 0x4f0 \<le> q \<and> q < 0x500 then Some (new_entry (ALIGN_DOWN ?v PAGESZ) ?f (q - 0x4f0)) else walk st root q)"
    using assms(4) m by auto
  have "new_entry (ALIGN_DOWN ?v PAGESZ) ?f (q - 0x4f0) = ident_entry ?f q" if "0x4f0 \<le> q" for q
    using new_entry_ident [of ?v q ?f] that by simp
  then show ?thesis unfolding v(1) unfolding v(2) using r by (intro exI [of _ st']) (auto simp: opened_def)
qed

section \<open>Loading a program\<close>

text \<open>The state of a kernel that has loaded a program into slot \<open>p\<close>: the process, its address space in use, its open file and its memory.\<close>

definition loaded ::
    "nat \<Rightarrow> process \<Rightarrow> pmstate \<Rightarrow> u32 \<Rightarrow> cfdata list \<Rightarrow> mem \<Rightarrow> ('h, 'a) kstate_scheme \<Rightarrow> ('h, 'a) kstate_scheme" where
  "loaded p P pm' root cf m st =
    (reset_process p P (st\<lparr>next_pid := int32 (next_pid st + 1)\<rparr>))\<lparr>pm := pm', cr3 := root, cfdatas := cf, kmem := m\<rparr>"

lemma loaded_simps [simp]:
  "pm (loaded p P pm' root cf m st) = pm'" "cr3 (loaded p P pm' root cf m st) = root" "kmem (loaded p P pm' root cf m st) = m"
  "cfdatas (loaded p P pm' root cf m st) = cf" "pcb (loaded p P pm' root cf m st) = (pcb st)[p := P]"
  "ramdisks (loaded p P pm' root cf m st) = ramdisks st" "superblocks (loaded p P pm' root cf m st) = superblocks st"
  "tcb (loaded p P pm' root cf m st) = tcb st" "next_tid (loaded p P pm' root cf m st) = next_tid st"
  "kstacks (loaded p P pm' root cf m st) = kstacks st" "current_thread (loaded p P pm' root cf m st) = current_thread st"
  "ready_queue (loaded p P pm' root cf m st) = ready_queue st" "kfiles (loaded p P pm' root cf m st) = kfiles st"
  by (simp_all add: loaded_def reset_process_def)

lemma upd_process_loaded [simp]:
  "p < length (pcb st) \<Longrightarrow> upd_process p g (loaded p P pm' root cf m st) = loaded p (g P) pm' root cf m st"
  by (simp add: upd_process_def loaded_def reset_process_def)

lemma loaded_upd [simp]:
  "(loaded p P pm' root cf m st)\<lparr>pm := x\<rparr> = loaded p P x root cf m st" "(loaded p P pm' root cf m st)\<lparr>cr3 := y\<rparr> = loaded p P pm' y cf m st"
  "(loaded p P pm' root cf m st)\<lparr>cfdatas := z\<rparr> = loaded p P pm' root z m st" "(loaded p P pm' root cf m st)\<lparr>kmem := w\<rparr> = loaded p P pm' root cf w st"
  by (simp_all add: loaded_def)

lemma loaded_start: "reset_process p P (st\<lparr>next_pid := int32 (next_pid st + 1)\<rparr>) = loaded p P (pm st) (cr3 st) (cfdatas st) (kmem st) st"
  by (simp add: loaded_def reset_process_def)

lemma initrd_mounted_loaded [simp]:
  fixes st :: "('h, 'a) kstate_scheme"
  shows "initrd_mounted (loaded p P pm' root (cfdatas st) (kmem st) st) es = initrd_mounted st es"
    "cfdata_alloc (loaded p P pm' root (cfdatas st) (kmem st) st) = cfdata_alloc st"
  by (simp_all add: initrd_mounted_def loaded_def reset_process_def mounts_ok_def disk_ok_def disk_content_def cfdata_alloc_def)

definition new_process :: "nat \<Rightarrow> string \<Rightarrow> ('h, 'a) kstate_scheme \<Rightarrow> process" where
  "new_process p path st = process0\<lparr>pid := next_pid st, p_name := process_name path, ustack := USTACK_DFLT,
     kstack := kstacks st + of_nat p * KSTACKSZ + KSTACKSZ\<rparr>"

lemma process_load_ok:
  fixes st :: "('h, 'a) kstate_scheme"
  assumes "initrd_mounted st es" "good_entries es" "cfdata_alloc st = Some k" "length (cfdatas st) = MAX_CPIO_OPEN"
    and "es = xs @ e # ys" "ce_name e \<notin> ce_name ` set xs" "plain_name (ce_name e)" "join_text cwd (Some path) = CHR ''/'' # ce_name e"
    and "elf_image (ce_data e) eh phs" "\<forall>ph \<in> set phs. in_user_area (ce_data e) ph"
    and "disks_clear st" "p < length (pcb st)" "wf_pm (pm st)" "used (pm st) + 3 \<le> PHYSPAGES_MAX"
  shows "\<exists>f pm' root cf. process_load_path (munix_drivers B) oldh oldp p cwd path st =
      Some (loaded p ((new_process p path st)\<lparr>addrspc := root, p_start_addr := e_entry eh, execfile := f\<rparr>) pm' root cf
        (foldl (load_image (ce_data e)) (kmem st) phs) st, 0) \<and> wf_pm pm' \<and> wf_space pm' root \<and>
    (\<forall>q<2 ^ 20. translation pm' root q = map_option (\<lambda>r. (of_nat q * PAGESZ, r)) (program_rights phs q))"
proof -
  let ?c = "ce_data e" and ?D = "munix_drivers B" and ?P = "new_process p path st"
  define T where "T P pm' root cf = loaded p P pm' root cf (kmem st) st" for P pm' root cf
  note p = assms(12)
  have a0: "addrspc ?P = 0" "ustack ?P = USTACK_DFLT" "execfile ?P = file0" by (simp_all add: new_process_def process0_def)
  have start: "reset_process p ?P (st\<lparr>next_pid := int32 (next_pid st + 1)\<rparr>) = T ?P (pm st) (cr3 st) (cfdatas st)" by (simp add: T_def loaded_start)
  obtain pm1 root where i: "addrspc_init (pm st) 0 = Some (pm1, root, 0)" "space_grows (pm st) 0 pm1 root" "page_addr root" "root \<noteq> 0"
    "used pm1 = used (pm st) + 2" "\<forall>j. j \<noteq> 0 \<longrightarrow> dir_entry pm1 root j = 0"
    "\<forall>q<2 ^ 20. walk pm1 root q = (if q < 1024 then Some (ident_entry 0 q) else None)"
    using addrspc_init_ok [OF assms(13)] assms(14) by auto
  have init: "on_addrspc p addrspc_init (T ?P (pm st) (cr3 st) (cfdatas st)) = Some (T (?P\<lparr>addrspc := root\<rparr>) pm1 (cr3 st) (cfdatas st), 0)"
    using i(1) p a0(1) by (simp add: on_addrspc_def T_def)
  have wf1: "wf_pm pm1" "wf_space pm1 root" using i(2) by (simp_all add: space_grows_def)
  have np: "\<not> pme_ispresent (dir_entry pm1 root 1) 1" using i(6) by (simp add: pme_ispresent_def)
  have u1: "used pm1 < PHYSPAGES_MAX" using i(5) assms(14) by simp
  obtain pm2 where s: "addrspc_map pm1 root (USTACK_DFLT - THREAD_STACK_TOTAL) (USTACK_DFLT - THREAD_STACK_TOTAL) THREAD_STACK_TOTAL (PME_USER OR PME_W) = Some (pm2, root, 0)"
    "space_grows pm1 root pm2 root" "used pm2 = used pm1 + 1" "pme_ispresent (dir_entry pm2 root 1) 1"
    "dir_entry pm2 root 1 AND (PME_USER OR PME_W) = PME_USER OR PME_W"
    "\<forall>q<2 ^ 20. walk pm2 root q = (if 0x4f0 \<le> q \<and> q < 0x500 then Some (ident_entry (PME_USER OR PME_W) q) else walk pm1 root q)"
    using map_stack [OF wf1 i(3,4) np u1] by blast
  let ?P1 = "?P\<lparr>addrspc := root\<rparr>"
  have stack: "on_addrspc p (\<lambda>pm root. addrspc_map pm root (USTACK_DFLT - THREAD_STACK_TOTAL) (USTACK_DFLT - THREAD_STACK_TOTAL) THREAD_STACK_TOTAL (PME_USER OR PME_W))
      (T ?P1 pm1 root (cfdatas st)) = Some (T ?P1 pm2 root (cfdatas st), 0)"
    using s(1) p by (simp add: on_addrspc_def T_def)
  have mnt: "initrd_mounted (T ?P1 pm2 root (cfdatas st)) es" "cfdata_alloc (T ?P1 pm2 root (cfdatas st)) = Some k" "length (cfdatas (T ?P1 pm2 root (cfdatas st))) = MAX_CPIO_OPEN"
    using assms(1,3,4) by (simp_all add: T_def)
  obtain f cf where o: "file_open_path ?D file0 cwd (Some path) (T ?P1 pm2 root (cfdatas st)) = Some (f, T ?P1 pm2 root cf, 0)"
    "cpio_file f (T ?P1 pm2 root cf) ?c" "f_pos f = 0"
  proof -
    obtain f cf where fo: "file_open_path ?D file0 cwd (Some path) (T ?P1 pm2 root (cfdatas st)) = Some (f, (T ?P1 pm2 root (cfdatas st))\<lparr>cfdatas := cf\<rparr>, 0)"
      "cpio_file f ((T ?P1 pm2 root (cfdatas st))\<lparr>cfdatas := cf\<rparr>) ?c" "f_pos f = 0"
      using initrd_open [OF mnt(1) assms(2) mnt(2,3) assms(5-8), of B file0] by blast
    have "(T ?P1 pm2 root (cfdatas st))\<lparr>cfdatas := cf\<rparr> = T ?P1 pm2 root cf" unfolding T_def loaded_upd ..
    then show thesis using that [of f cf] fo by simp
  qed
  have img: "sizeof_Ehdr \<le> length ?c" "take SELFMAG ?c = ELFMAG" "uchar (?c ! EI_CLASS) = ELFCLASS32" "half ?c 16 = ET_EXEC" "eh = ehdr_of (take sizeof_Ehdr ?c)"
    "length phs = unat (e_phnum eh)" using assms(9) unfolding elf_image_def by blast+
  let ?P2 = "\<lambda>f. ?P1\<lparr>execfile := f\<rparr>" and ?f = "f\<lparr>f_pos := int sizeof_Ehdr\<rparr>"
  have cf2: "cpio_file g (T P pm2 root cf) ?c = cpio_file g (T ?P1 pm2 root cf) ?c" for g P
    by (simp add: T_def loaded_def reset_process_def cpio_file_def disk_file_def)
  have hdr: "elf_read_ehdr32 ?D f oldh (T (?P2 f) pm2 root cf) = Some (eh, ?f, T (?P2 f) pm2 root cf, 0)"
  proof -
    have "cpio_file f (T (?P2 f) pm2 root cf) ?c" using o(2) cf2 [of f "?P2 f"] by simp
    from cpf.read_ehdr [OF this o(3) img(1), of "with_tty (with_serial B no_drivers)" oldh] show ?thesis
      using img(1-4) by (simp add: munix_eq ehdr_of_append img(5) [symmetric])
  qed
  let ?P3 = "(?P2 ?f)\<lparr>p_start_addr := e_entry eh\<rparr>"
  let ?st = "T ?P3 pm2 root cf"
  have ld: "loading p ?c root ?st"
    unfolding loading_def using p o(2) cf2 [of ?f ?P3] i(3-5) s(2-5) assms(11,14) by (simp add: T_def space_grows_def disks_clear_def disks_outside_def)
  obtain x pm3 where g: "load_segments ?D p oldp eh (length phs) 0 ?st =
      Some (upd_process p (\<lambda>q. q\<lparr>execfile := (execfile (pcb ?st ! p))\<lparr>f_pos := x\<rparr>\<rparr>) (?st\<lparr>pm := pm3, kmem := foldl (load_image ?c) (kmem ?st) (drop 0 phs)\<rparr>), 0)"
    "wf_pm pm3" "wf_space pm3 root" "dir_entry pm3 root 1 AND (PME_USER OR PME_W) = PME_USER OR PME_W"
    "\<forall>q<2 ^ 20. walk pm3 root q = foldl (map_segment q) (walk (pm ?st) root q) (drop 0 phs)"
    using load_segments_ok [OF ld assms(9) _ assms(10), of "length phs" 0 B oldp] by auto
  have fin: "load_segments ?D p oldp eh (unat (e_phnum eh)) 0 ?st =
      Some (loaded p (?P\<lparr>addrspc := root, p_start_addr := e_entry eh, execfile := f\<lparr>f_pos := x\<rparr>\<rparr>) pm3 root cf (foldl (load_image ?c) (kmem st) phs) st, 0)"
    using g(1) p unfolding img(6) by (simp add: T_def)
  have tr: "translation pm3 root q = map_option (\<lambda>r. (of_nat q * PAGESZ, r)) (program_rights phs q)" if "q < 2 ^ 20" for q
  proof (rule translation_program [OF assms(10) that g(4)])
    have "walk pm2 root q = map_option (\<lambda>r. ident_entry r q) (base_rights q)" using s(6) i(7) that by (auto simp: base_rights_def)
    then show "walk pm3 root q = map_option (\<lambda>r. ident_entry r q) (program_rights phs q)"
      using g(5) that by (simp add: T_def fold_map_segment program_rights_def)
  qed
  have st1: "pm_set_root root (T ?P1 pm1 (cr3 st) (cfdatas st)) = T ?P1 pm1 root (cfdatas st)" "addrspc (pcb (T ?P1 pm1 (cr3 st) (cfdatas st)) ! p) = root"
    "ustack (pcb (T ?P1 pm1 root (cfdatas st)) ! p) = USTACK_DFLT" "execfile (pcb (T ?P1 pm2 root (cfdatas st)) ! p) = file0"
    "upd_process p (\<lambda>q. q\<lparr>execfile := f\<rparr>) (T ?P1 pm2 root cf) = T (?P2 f) pm2 root cf" "execfile (pcb (T (?P2 f) pm2 root cf) ! p) = f"
    "upd_process p (\<lambda>q. q\<lparr>p_start_addr := e_entry eh\<rparr>) (upd_process p (\<lambda>q. q\<lparr>execfile := ?f\<rparr>) (T (?P2 f) pm2 root cf)) = ?st"
    using p a0 by (simp_all add: T_def pm_set_root_def)
  have "process_load_path ?D oldh oldp p cwd path st = load_segments ?D p oldp eh (unat (e_phnum eh)) 0 ?st"
    unfolding process_load_path_def new_process_def [symmetric] start Let_def init bind.simps split st1 if_not_P [OF less_irrefl] stack o(1) hdr ..
  then show ?thesis using fin g(2,3) tr by (intro exI [of _ "f\<lparr>f_pos := x\<rparr>"] exI [of _ pm3] exI [of _ root] exI [of _ cf]) simp
qed


text \<open>A small executable with one segment.\<close>

definition tiny_elf :: string where
  "tiny_elf = [CHR 0x7f, CHR 0x45, CHR 0x4c, CHR 0x46, CHR 0x01, CHR 0x01, CHR 0x01, NUL, NUL, NUL, NUL, NUL,
     NUL, NUL, NUL, NUL, CHR 0x02, NUL, CHR 0x03, NUL, CHR 0x01, NUL, NUL, NUL,
     CHR 0x54, NUL, CHR 0x40, NUL, CHR 0x34, NUL, NUL, NUL, NUL, NUL, NUL, NUL,
     NUL, NUL, NUL, NUL, CHR 0x34, NUL, CHR 0x20, NUL, CHR 0x01, NUL, NUL, NUL,
     NUL, NUL, NUL, NUL, CHR 0x01, NUL, NUL, NUL, NUL, NUL, NUL, NUL,
     NUL, NUL, CHR 0x40, NUL, NUL, NUL, CHR 0x40, NUL, CHR 0x58, NUL, NUL, NUL,
     NUL, CHR 0x10, NUL, NUL, CHR 0x05, NUL, NUL, NUL, NUL, CHR 0x10, NUL, NUL,
     CHR 0x90, CHR 0x90, CHR 0xeb, CHR 0xfe]"

definition tiny_ehdr :: Elf32_Ehdr where "tiny_ehdr = ehdr_of (take sizeof_Ehdr tiny_elf)"
definition tiny_seg :: Elf32_Phdr where "tiny_seg = phdr_of (take sizeof_Phdr (drop sizeof_Ehdr tiny_elf))"

lemma length_tiny: "length tiny_elf = 88"
  by (simp add: tiny_elf_def)

lemma tiny_fields:
  "e_phnum tiny_ehdr = 1" "e_phoff tiny_ehdr = 52" "e_entry tiny_ehdr = 0x400054"
  "p_type tiny_seg = 1" "p_offset tiny_seg = 0" "p_vaddr tiny_seg = 0x400000" "p_filesz tiny_seg = 88" "p_memsz tiny_seg = 0x1000" "p_flags tiny_seg = 5"
  by (simp_all add: tiny_ehdr_def tiny_seg_def ehdr_of_def phdr_of_def half_def word32_def sizeof_Ehdr_def sizeof_Phdr_def tiny_elf_def uchar_def)

lemma tiny_image: "elf_image tiny_elf tiny_ehdr [tiny_seg]"
  unfolding elf_image_def tiny_fields tiny_ehdr_def [symmetric]
  by (simp add: tiny_seg_def length_tiny sizeof_Ehdr_def sizeof_Phdr_def)
    (simp add: tiny_elf_def SELFMAG_def ELFMAG_def EI_CLASS_def ELFCLASS32_def ET_EXEC_def half_def uchar_def)

lemma tiny_area: "in_user_area tiny_elf tiny_seg" "program_rights [tiny_seg] 0x400 = Some PME_USER"
  by (simp_all add: in_user_area_def tiny_fields length_tiny USER_LOW_def USER_HIGH_def program_rights_def covers_def seg_flags_def PT_LOAD_def PF_W_def word_le_nat_alt word_less_nat_alt)

definition prog_entry :: centry where
  "prog_entry = \<lparr>ce_name = ''bin/prog'', ce_mode = 0x81ed, ce_devmajor = 0, ce_devminor = 0, ce_data = tiny_elf, ce_rest = (\<lambda>_. 0)\<rparr>"

definition prog_state :: "uart8250 kstate" where
  "prog_state = (let s = cp_state [root_entry, prog_entry] in idle_state\<lparr>chrdev_drivers := chrdev_drivers s, superblocks := superblocks s,
     vfs_mount_list := vfs_mount_list s, ramdisks := ramdisks s, kmem := kmem s, cfdatas := cfdatas s\<rparr>)"

lemma prog_good: "good_entries [root_entry, prog_entry]"
proof -
  have "ce_field prog_entry fld < 2 ^ 32" for fld by (cases fld) (simp_all add: prog_entry_def length_tiny)
  then have "ce_ok prog_entry" by (simp add: ce_ok_def prog_entry_def PATH_MAX_def)
  then show ?thesis using entries_ok(1) by (simp add: good_entries_def is_trailer_def root_entry_def prog_entry_def)
qed

lemma prog_length: "length (archive [root_entry, prog_entry]) < 2000"
  by (simp add: archive_def encode_def encode_path_def root_entry_def prog_entry_def trailer_def sizeof_newc_def pad4_def length_tiny)

lemma prog_state_ok:
  "initrd_mounted prog_state [root_entry, prog_entry]" "cfdata_alloc prog_state = Some 0" "length (cfdatas prog_state) = MAX_CPIO_OPEN"
  "disks_clear prog_state" "pcb prog_state = pcb idle_state" "pm prog_state = pm0"
proof -
  let ?s = "cp_state [root_entry, prog_entry]"
  have "disk_ok ?s 0" using prog_length by (intro cp_state_disk(1)) simp
  then show "initrd_mounted prog_state [root_entry, prog_entry]"
    using cp_state_mounts [of "[root_entry, prog_entry]"] cp_state_disk(2) [of "[root_entry, prog_entry]"]
    by (simp add: initrd_mounted_def prog_state_def mounts_ok_def disk_ok_def disk_content_def Let_def) (simp add: cp_state_def SB_MAX_def)
  show "cfdata_alloc prog_state = Some 0" "length (cfdatas prog_state) = MAX_CPIO_OPEN"
    by (simp_all add: prog_state_def cfdata_alloc_def cp_state_def cfdata0_def file0_def MAX_CPIO_OPEN_def numeral_eq_Suc Let_def)
  show "disks_clear prog_state"
    using prog_length by (auto simp: disks_clear_def disks_outside_def outside_tables_def PM_AREA_def prog_state_def cp_state_def USER_LOW_def RAMDISKS_MAX_def ramdisk0_def nth_list_update Let_def)
  show "pcb prog_state = pcb idle_state" "pm prog_state = pm0"
    by (simp_all add: prog_state_def Let_def idle_state_def kst_def ttystate.extend_def kstate.fields_def boot_st_def)
qed


end
