(* ===== verification/Kshell.thy ===== *)
theory Kshell
  imports Process
begin

text \<open>
  The kernel shell (\<open>kernel/kshell.c\<close>): the split of the command line into arguments, the built-in commands, and the start of a
  program from \<open>/sbin\<close> or \<open>/bin\<close>.

  A file of the shell is its index in \<open>kfiles\<close>. What \<open>file_printf\<close> writes is the reference text of the format; \<open>file_printf_text\<close>
  shows that the detailed model writes the same. The line buffer is in memory, since the arguments are pointers
  into it. The record \<open>locals\<close> has the addresses and old contents of local variables.
\<close>

section \<open>Data\<close>

definition SH_LINEBUFSZ :: nat where "SH_LINEBUFSZ = 256"
definition SH_ARGVSZ :: nat where "SH_ARGVSZ = 16"
definition SH_PREFIX :: string where "SH_PREFIX = ''kshell: ''"
definition BIN_PATHS :: "string list" where "BIN_PATHS = [''/sbin'', ''/bin'']"

record kshell =
  sh_in :: nat
  sh_out :: nat
  sh_err :: nat
  sh_cwd :: string
  waiting_for_input :: bool

record locals =
  faddr :: u32
  savedflags_addr :: u32
  linebuf :: nat
  old_ehdr :: string
  old_phdr :: "nat \<Rightarrow> string"

datatype shcmd = Cmd_help | Cmd_inputtest | Cmd_mount | Cmd_pwd | Cmd_ls | Cmd_stat | Cmd_xhead | Cmd_reset

definition KSH_CMDS :: "(string \<times> shcmd) list" where
  "KSH_CMDS = [(''help'', Cmd_help), (''inputtest'', Cmd_inputtest), (''mount'', Cmd_mount), (''pwd'', Cmd_pwd), (''ls'', Cmd_ls),
    (''stat'', Cmd_stat), (''xhead'', Cmd_xhead), (''reset'', Cmd_reset)]"

section \<open>Shell utilities\<close>

definition sh_printf ::
    "('h, 'a) kstate_scheme drivers \<Rightarrow> nat \<Rightarrow> string \<Rightarrow> va_slot list \<Rightarrow> ('h, 'a) kstate_scheme \<Rightarrow> (('h, 'a) kstate_scheme \<times> int) option" where
  "sh_printf D i fm va st =
    map_option (\<lambda>(f, st, res). (st\<lparr>kfiles := (kfiles st)[i := f]\<rparr>, res)) (file_write D (kfiles st ! i) (fmt_text fm va) st)"

text \<open>A sequence of calls whose results are not used.\<close>

fun sh_printfs ::
    "('h, 'a) kstate_scheme drivers \<Rightarrow> nat \<Rightarrow> (string \<times> va_slot list) list \<Rightarrow> ('h, 'a) kstate_scheme \<Rightarrow> ('h, 'a) kstate_scheme option" where
  "sh_printfs D i [] st = Some st"
| "sh_printfs D i ((fm, va) # ps) st = Option.bind (sh_printf D i fm va st) (\<lambda>(st, _). sh_printfs D i ps st)"

definition reporterr ::
    "('h, 'a) kstate_scheme drivers \<Rightarrow> kshell \<Rightarrow> int \<Rightarrow> string \<Rightarrow> string \<Rightarrow> va_slot list \<Rightarrow> ('h, 'a) kstate_scheme \<Rightarrow>
      ('h, 'a) kstate_scheme option" where
  "reporterr D sh res func fm va st =
    (if res < 0 then sh_printfs D (sh_err sh) [(SH_PREFIX @ ''[%s] %s: '' @ fm, VStr 0 (error_name (- res)) # VStr 0 func # va)] st
     else Some st)"

text \<open>\<open>sh_break_cmdline\<close>: the memory, the addresses stored in \<open>argv\<close>, and the result.\<close>

partial_function (option) break_loop :: "mem \<Rightarrow> nat \<Rightarrow> nat list \<Rightarrow> bool \<Rightarrow> nat \<Rightarrow> (mem \<times> nat list \<times> int) option" where
  "break_loop m cmdline argv inword argn =
    (let ch = m cmdline
     in if ch = NUL then Some (m, argv, int (length argv))
        else let (m, inword) = (if isspace (schar ch) then (m(cmdline := NUL), False) else (m, inword))
             in if isgraph (schar ch)
                then if \<not> inword
                     then if length argv < argn - 1 then break_loop m (cmdline + 1) (argv @ [cmdline]) True argn
                          else Some (m, argv, err E2BIG)
                     else break_loop m (cmdline + 1) argv True argn
                else break_loop m (cmdline + 1) argv inword argn)"

definition sh_break_cmdline :: "mem \<Rightarrow> nat \<Rightarrow> nat \<Rightarrow> (mem \<times> nat list \<times> int) option" where
  "sh_break_cmdline m cmdline argn = break_loop m cmdline [] False argn"

fun ftype_marker :: "dirtype \<Rightarrow> string" where
  "ftype_marker DT_CHR = ''*''"
| "ftype_marker DT_DIR = ''/''"
| "ftype_marker DT_REG = ''''"
| "ftype_marker DT_UNKNOWN = ''?''"

text \<open>The buffer text of \<open>print_cmds\<close>; \<open>pos\<close> counts from the start of the buffer and may run past its end.\<close>

definition buf_append :: "nat \<Rightarrow> nat \<times> string \<Rightarrow> string \<Rightarrow> nat \<times> string" where
  "buf_append sz pb s = (fst pb + length s, snd pb @ take (sz - fst pb - 1) s)"

fun cmds_text :: "nat \<Rightarrow> nat \<times> string \<Rightarrow> (string \<times> 'c) list \<Rightarrow> string" where
  "cmds_text sz pb [] = snd pb"
| "cmds_text sz pb (cmd # cmds) =
    (if fst pb < sz
     then let pb = (if fst pb \<noteq> 0 then buf_append sz pb '', '' else pb) in cmds_text sz (buf_append sz pb (fst cmd)) cmds
     else snd pb)"

definition print_cmds ::
    "('h, 'a) kstate_scheme drivers \<Rightarrow> nat \<Rightarrow> (string \<times> shcmd) list \<Rightarrow> ('h, 'a) kstate_scheme \<Rightarrow> (('h, 'a) kstate_scheme \<times> int) option" where
  "print_cmds D f cmds st =
    map_option (\<lambda>(st, res). (st, if res < 0 then res else 0))
      (sh_printf D f (SH_PREFIX @ ''built-in commands: %s'' @ [CHR 0x0a]) [VStr 0 (cmds_text SH_LINEBUFSZ (0, '''') cmds)] st)"

section \<open>Shell command functions\<close>

partial_function (option) inputtest_loop ::
    "('h, 'a) kstate_scheme drivers \<Rightarrow> kshell \<Rightarrow> ('h, 'a) kstate_scheme \<Rightarrow> ('h, 'a) kstate_scheme option" where
  "inputtest_loop D sh st =
    Option.bind (file_read D (kfiles st ! sh_in sh) 1 st) (\<lambda>(dst, f, st, testres).
      let st = st\<lparr>kfiles := (kfiles st)[sh_in sh := f]\<rparr>
      in if testres = err EAGAIN then inputtest_loop D sh st
         else Option.bind (reporterr D sh testres ''cmd_inputtest'' (''error while reading characters'' @ [CHR 0x0a]) [] st) (\<lambda>st.
                if testres < 0 then Some st
                else if testres = 0 \<or> hd dst = CTRL_D then Some st
                else inputtest_loop D sh st))"

text \<open>A failed call is reported and ends the command.\<close>

definition sh_check ::
    "('h, 'a) kstate_scheme drivers \<Rightarrow> kshell \<Rightarrow> string \<Rightarrow> string \<Rightarrow> ('h, 'a) kstate_scheme \<times> int \<Rightarrow>
      (('h, 'a) kstate_scheme \<Rightarrow> (('h, 'a) kstate_scheme \<times> int) option) \<Rightarrow> (('h, 'a) kstate_scheme \<times> int) option" where
  "sh_check D sh func fm r nxt =
    Option.bind (reporterr D sh (snd r) func fm [] (fst r)) (\<lambda>st. if snd r < 0 then Some (st, snd r) else nxt st)"

definition cmd_inputtest ::
    "('h, 'a) kstate_scheme drivers \<Rightarrow> locals \<Rightarrow> kshell \<Rightarrow> ('h, 'a) kstate_scheme \<Rightarrow> (('h, 'a) kstate_scheme \<times> int) option" where
  "cmd_inputtest D lc sh st =
    sh_check D sh ''cmd_inputtest'' (''could not get TTY flags'' @ [CHR 0x0a])
      (file_ioctl D (kfiles st ! sh_in sh) TTY_GETFLAGS (savedflags_addr lc) st) (\<lambda>st.
    let savedflags = word32 (mem_read (kmem st) (unat (savedflags_addr lc)) 4) 0;
        testflags = (savedflags AND NOT TTY_COOKED) OR TTY_ECHO OR TTY_ECHOCTL
    in sh_check D sh ''cmd_inputtest'' (''could not set TTY test mode'' @ [CHR 0x0a])
         (file_ioctl D (kfiles st ! sh_in sh) TTY_SETFLAGS testflags st) (\<lambda>st.
       Option.bind (sh_printfs D (sh_out sh) [(''Reading from %s. Press CTRL-D to stop.'' @ [CHR 0x0a],
           [VStr 0 (take (SH_LINEBUFSZ - 1) (file_debugstr D (faddr lc) (Some (kfiles st ! sh_in sh)) st))])] st) (\<lambda>st.
       Option.bind (inputtest_loop D sh st) (\<lambda>st.
       Option.bind (sh_printfs D (sh_in sh) [([CHR 0x0a], [])] st) (\<lambda>st.
       sh_check D sh ''cmd_inputtest'' (''could not restore TTY flags'' @ [CHR 0x0a])
         (file_ioctl D (kfiles st ! sh_in sh) TTY_SETFLAGS savedflags st) (\<lambda>st. Some (st, 0)))))))"

text \<open>\<open>sb->s_op->name\<close> of a mounted superblock; a mounted one has its operations.\<close>

definition sb_typename :: "('h, 'a) kstate_scheme drivers \<Rightarrow> superblock \<Rightarrow> string" where
  "sb_typename D sb = (case s_op sb of Some d \<Rightarrow> fso_name (dr_fs D d) | None \<Rightarrow> '''')"

definition cmd_mount ::
    "('h, 'a) kstate_scheme drivers \<Rightarrow> kshell \<Rightarrow> ('h, 'a) kstate_scheme \<Rightarrow> (('h, 'a) kstate_scheme \<times> int) option" where
  "cmd_mount D sh st =
    Option.bind (list_for_each_entry (vfs_mount_list st) MountHead) (\<lambda>nodes.
      let sbs = map (\<lambda>n. superblocks st ! mount_sb n) nodes;
          maxpathlen = foldl (\<lambda>mx sb. max mx (length (s_mountpath sb))) 0 sbs
      in map_option (\<lambda>st. (st, 0)) (sh_printfs D (sh_out sh)
           (map (\<lambda>sb. (''%-*s = %s (type %s)'' @ [CHR 0x0a],
              [VWord (of_nat maxpathlen), VStr 0 (s_mountpath sb), VStr 0 (s_name sb), VStr 0 (sb_typename D sb)])) sbs) st))"

definition cmd_pwd ::
    "('h, 'a) kstate_scheme drivers \<Rightarrow> kshell \<Rightarrow> ('h, 'a) kstate_scheme \<Rightarrow> (('h, 'a) kstate_scheme \<times> int) option" where
  "cmd_pwd D sh st = map_option (\<lambda>st. (st, 0)) (sh_printfs D (sh_out sh) [(''%s'' @ [CHR 0x0a], [VStr 0 (sh_cwd sh)])] st)"

partial_function (option) ls_loop ::
    "('h, 'a) kstate_scheme drivers \<Rightarrow> kshell \<Rightarrow> vfile \<Rightarrow> ('h, 'a) kstate_scheme \<Rightarrow> (('h, 'a) kstate_scheme \<times> int) option" where
  "ls_loop D sh dir st =
    Option.bind (file_readdir D dir st) (\<lambda>(de, st, res).
      if res < 0 then Some (st, res)
      else if res = 0 then Some (st, res)
      else Option.bind (sh_printfs D (sh_out sh)
             [(''%s%s'' @ [CHR 0x0a], [VStr 0 (d_name (the de)), VStr 0 (ftype_marker (d_type (the de)))])] st)
           (ls_loop D sh dir))"

definition cmd_ls ::
    "('h, 'a) kstate_scheme drivers \<Rightarrow> kshell \<Rightarrow> string list \<Rightarrow> ('h, 'a) kstate_scheme \<Rightarrow> (('h, 'a) kstate_scheme \<times> int) option" where
  "cmd_ls D sh argv st =
    (let dirpath = (if length argv \<ge> 2 then Some (argv ! 1) else None)
     in Option.bind (file_open_path D file0 (Some (sh_cwd sh)) dirpath st) (\<lambda>(dir, st, res).
          if res < 0 then Some (st, res)
          else map_option (\<lambda>(st, res). (fst (file_close D dir st), res)) (ls_loop D sh dir st)))"

definition usage ::
    "('h, 'a) kstate_scheme drivers \<Rightarrow> kshell \<Rightarrow> string list \<Rightarrow> ('h, 'a) kstate_scheme \<Rightarrow> (('h, 'a) kstate_scheme \<times> int) option" where
  "usage D sh argv st =
    map_option (\<lambda>st. (st, 1)) (sh_printfs D (sh_err sh) [(''usage: %s FILE'' @ [CHR 0x0a], [VStr 0 (argv ! 0)])] st)"

definition cmd_stat ::
    "('h, 'a) kstate_scheme drivers \<Rightarrow> kshell \<Rightarrow> string list \<Rightarrow> ('h, 'a) kstate_scheme \<Rightarrow> (('h, 'a) kstate_scheme \<times> int) option" where
  "cmd_stat D sh argv st =
    (if length argv < 2 then usage D sh argv st
     else Option.bind (file_stat D (Some (sh_cwd sh)) (Some (argv ! 1)) st) (\<lambda>(fs, st, res).
       sh_check D sh ''cmd_stat'' (''file not found'' @ [CHR 0x0a]) (st, res) (\<lambda>st.
       map_option (\<lambda>st. (st, 0)) (sh_printfs D (sh_out sh)
         [(''  File: %s'' @ [CHR 0x0a], [VStr 0 (argv ! 1)]),
          (''  Size: %lu'' @ [CHR 0x0a], [VWord (of_int (f_size (the fs)))]),
          ('' Inode: %u'' @ [CHR 0x0a], [VWord (of_nat (f_ino (the fs)))])] st))))"

text \<open>The calls that print one row of \<open>xhead\<close>, for the \<open>res\<close> bytes \<open>row\<close> at offset \<open>off\<close>.\<close>

definition xhead_row :: "int \<Rightarrow> nat \<Rightarrow> string \<Rightarrow> (string \<times> va_slot list) list" where
  "xhead_row off res row =
    (''%.8lx:'', [VWord (of_int off)]) #
    concat (map (\<lambda>j. (if j mod 2 = 0 then [('' '', [])] else []) @
      [if j < res then (''%.2x'', [VWord (of_int (uchar (row ! j)))]) else (''%s'', [VStr 0 ''  ''])]) [0..<16]) @
    [(''  '', [])] @
    map (\<lambda>j. (''%c'', [VWord (of_int (schar (if j < res \<and> isprint (uchar (row ! j)) then row ! j else CHR ''.'')))])) [0..<16] @
    [([CHR 0x0a], [])]"

fun xhead_rows ::
    "('h, 'a) kstate_scheme drivers \<Rightarrow> kshell \<Rightarrow> nat \<Rightarrow> vfile \<Rightarrow> int \<Rightarrow> ('h, 'a) kstate_scheme \<Rightarrow> (vfile \<times> ('h, 'a) kstate_scheme \<times> int) option" where
  "xhead_rows D sh 0 f off st = Some (f, st, 0)"
| "xhead_rows D sh (Suc rows) f off st =
    Option.bind (file_read D f 16 st) (\<lambda>(row, f, st, res).
      if res < 0 then Some (f, st, res)
      else if res = 0 then Some (f, st, 0)
      else Option.bind (sh_printfs D (sh_out sh) (xhead_row off (nat res) row) st) (xhead_rows D sh rows f (loff (off + res))))"

definition cmd_xhead ::
    "('h, 'a) kstate_scheme drivers \<Rightarrow> kshell \<Rightarrow> string list \<Rightarrow> ('h, 'a) kstate_scheme \<Rightarrow> (('h, 'a) kstate_scheme \<times> int) option" where
  "cmd_xhead D sh argv st =
    (if length argv < 2 then usage D sh argv st
     else Option.bind (file_open_path D file0 (Some (sh_cwd sh)) (Some (argv ! 1)) st) (\<lambda>(f, st, res).
       if res < 0 then Some (st, res)
       else map_option (\<lambda>(f, st, res). (fst (file_close D f st), res)) (xhead_rows D sh 10 f 0 st)))"

definition GREY_ON_BLACK :: u32 where "GREY_ON_BLACK = 7"
definition ED_SCREEN :: u32 where "ED_SCREEN = 2"

definition cmd_reset ::
    "('h, 'a) kstate_scheme drivers \<Rightarrow> kshell \<Rightarrow> ('h, 'a) kstate_scheme \<Rightarrow> (('h, 'a) kstate_scheme \<times> int) option" where
  "cmd_reset D sh st =
    map_option (\<lambda>st. (st, 0)) (sh_printfs D (sh_out sh)
      [(CHR 0x1b # ''[38;5;%dm'', [VWord GREY_ON_BLACK]), (CHR 0x1b # ''[%dJ'', [VWord ED_SCREEN])] st)"

definition cmd_help ::
    "('h, 'a) kstate_scheme drivers \<Rightarrow> kshell \<Rightarrow> ('h, 'a) kstate_scheme \<Rightarrow> (('h, 'a) kstate_scheme \<times> int) option" where
  "cmd_help D sh st = print_cmds D (sh_out sh) KSH_CMDS st"

text \<open>The call through the function pointer of a command.\<close>

fun run_cmd ::
    "('h, 'a) kstate_scheme drivers \<Rightarrow> locals \<Rightarrow> shcmd \<Rightarrow> kshell \<Rightarrow> string list \<Rightarrow> ('h, 'a) kstate_scheme \<Rightarrow>
      (('h, 'a) kstate_scheme \<times> int) option" where
  "run_cmd D lc Cmd_help sh argv st = cmd_help D sh st"
| "run_cmd D lc Cmd_inputtest sh argv st = cmd_inputtest D lc sh st"
| "run_cmd D lc Cmd_mount sh argv st = cmd_mount D sh st"
| "run_cmd D lc Cmd_pwd sh argv st = cmd_pwd D sh st"
| "run_cmd D lc Cmd_ls sh argv st = cmd_ls D sh argv st"
| "run_cmd D lc Cmd_stat sh argv st = cmd_stat D sh argv st"
| "run_cmd D lc Cmd_xhead sh argv st = cmd_xhead D sh argv st"
| "run_cmd D lc Cmd_reset sh argv st = cmd_reset D sh st"

section \<open>Shell operation\<close>

definition kshell_search_builtins :: "(string \<times> shcmd) list \<Rightarrow> string \<Rightarrow> shcmd option" where
  "kshell_search_builtins cmds arg0 = map_option snd (find (\<lambda>cmd. arg0 = fst cmd) cmds)"

fun search_bin_from ::
    "('h, 'a) kstate_scheme drivers \<Rightarrow> kshell \<Rightarrow> string \<Rightarrow> string list \<Rightarrow> ('h, 'a) kstate_scheme \<Rightarrow>
      (('h, 'a) kstate_scheme \<times> string option) option" where
  "search_bin_from D ksh execname [] st = Some (st, None)"
| "search_bin_from D ksh execname (binpath # paths) st =
    Option.bind (file_stat D (Some binpath) (Some execname) st) (\<lambda>(fs, st, res).
      if res = err ENOENT then search_bin_from D ksh execname paths st
      else Option.bind (reporterr D ksh res ''kshell_search_bin'' (''error looking for %s/%s'' @ [CHR 0x0a]) [VStr 0 binpath, VStr 0 execname] st)
             (\<lambda>st. if res < 0 then Some (st, None)
                   else if f_type (the fs) = DT_REG then Some (st, Some binpath)
                   else search_bin_from D ksh execname paths st))"

definition kshell_search_bin ::
    "('h, 'a) kstate_scheme drivers \<Rightarrow> kshell \<Rightarrow> string \<Rightarrow> ('h, 'a) kstate_scheme \<Rightarrow> (('h, 'a) kstate_scheme \<times> string option) option" where
  "kshell_search_bin D ksh execname st = search_bin_from D ksh execname BIN_PATHS st"

definition KERNEL_NAME :: string where "KERNEL_NAME = ''munix''"
definition KERNEL_VERSION :: string where "KERNEL_VERSION = ''v2026-P1''"

definition kshell_init_tty ::
    "('h, 'a) kstate_scheme drivers \<Rightarrow> locals \<Rightarrow> nat \<Rightarrow> ('h, 'a) kstate_scheme \<Rightarrow> (kshell \<times> ('h, 'a) kstate_scheme \<times> int) option" where
  "kshell_init_tty D lc tty st =
    (let sh = \<lparr>sh_in = tty, sh_out = tty, sh_err = tty, sh_cwd = ''/'', waiting_for_input = False\<rparr>
     in Option.bind (sh_printfs D (sh_out sh) [(KERNEL_NAME @ '' '' @ KERNEL_VERSION @ '' kshell %s'' @ [CHR 0x0a],
            [VStr 0 (take (SH_LINEBUFSZ - 1) (file_debugstr D (faddr lc) (Some (kfiles st ! tty)) st))])] st) (\<lambda>st.
        let (st, res) = file_ioctl D (kfiles st ! sh_in sh) TTY_SETFLAGS (TTY_ECHO OR TTY_COOKED) st
        in map_option (\<lambda>st. (sh, st, res)) (reporterr D sh res ''kshell_init_tty'' (''could not set TTY flags'' @ [CHR 0x0a]) [] st)))"

text \<open>A program is loaded into a free process slot; a full table is not checked for, and a failed load is only reported.\<close>

definition exec_program ::
    "('h, 'a) kstate_scheme drivers \<Rightarrow> locals \<Rightarrow> kshell \<Rightarrow> string \<Rightarrow> string list \<Rightarrow> ('h, 'a) kstate_scheme \<Rightarrow>
      (('h, 'a) kstate_scheme \<times> control) option" where
  "exec_program D lc sh bindir argv st =
    (case process_alloc st of
       None \<Rightarrow> Some (st, Undefined_behaviour)
     | Some p \<Rightarrow>
         Option.bind (process_load_path D (old_ehdr lc) (old_phdr lc) p (Some bindir) (argv ! 0) st) (\<lambda>(st, res).
         Option.bind (reporterr D sh res ''kshell_read_exec'' (''could not load %s'' @ [CHR 0x0a]) [VStr 0 (argv ! 0)] st) (\<lambda>st.
         Option.bind (process_start p argv (upd_process p (\<lambda>q. q\<lparr>fds := (fds q)[0 := Some (sh_in sh), 1 := Some (sh_out sh), 2 := Some (sh_err sh)]\<rparr>) st)) (\<lambda>(st, ctl).
         case ctl of
           Return res \<Rightarrow>
             Option.bind (reporterr D sh res ''kshell_read_exec'' (''%s exited with code %d'' @ [CHR 0x0a]) [VStr 0 (argv ! 0), VWord (of_int res)] st) (\<lambda>st.
             map_option (\<lambda>st. (st, Return (err EAGAIN))) (process_close D p st))
         | _ \<Rightarrow> Some (st, ctl)))))"

definition arg_text :: "mem \<Rightarrow> nat \<Rightarrow> string" where
  "arg_text m a = takeWhile (\<lambda>c. c \<noteq> NUL) (mem_read m a SH_LINEBUFSZ)"

text \<open>The part of \<open>kshell_read_exec\<close> behind the parse of the line.\<close>

definition exec_args ::
    "('h, 'a) kstate_scheme drivers \<Rightarrow> locals \<Rightarrow> kshell \<Rightarrow> string list \<Rightarrow> ('h, 'a) kstate_scheme \<Rightarrow> (('h, 'a) kstate_scheme \<times> control) option" where
  "exec_args D lc sh argv st =
    (case kshell_search_builtins KSH_CMDS (argv ! 0) of
       Some cmd \<Rightarrow>
         Option.bind (run_cmd D lc cmd sh argv st) (\<lambda>(st, res).
         map_option (\<lambda>st. (st, Return (err EAGAIN)))
           (reporterr D sh res ''kshell_read_exec'' (''%s exited with code %d'' @ [CHR 0x0a]) [VStr 0 (argv ! 0), VWord (of_int res)] st))
     | None \<Rightarrow>
         Option.bind (kshell_search_bin D sh (argv ! 0) st) (\<lambda>(st, bindir).
         case bindir of
           Some bindir \<Rightarrow> exec_program D lc sh bindir argv st
         | None \<Rightarrow>
             Option.bind (sh_printfs D (sh_err sh) [(SH_PREFIX @ ''unknown or program: %s'' @ [CHR 0x0a], [VStr 0 (argv ! 0)])] st) (\<lambda>st.
             map_option (\<lambda>(st, _). (st, Return (err EAGAIN))) (print_cmds D (sh_err sh) KSH_CMDS st))))"

definition kshell_read_exec ::
    "('h, 'a) kstate_scheme drivers \<Rightarrow> locals \<Rightarrow> kshell \<Rightarrow> ('h, 'a) kstate_scheme \<Rightarrow> (kshell \<times> ('h, 'a) kstate_scheme \<times> control) option" where
  "kshell_read_exec D lc sh st =
    Option.bind (if \<not> waiting_for_input sh then map_option (\<lambda>st. (sh\<lparr>waiting_for_input := True\<rparr>, st)) (sh_printfs D (sh_out sh) [(''> '', [])] st)
       else Some (sh, st)) (\<lambda>(sh, st).
    Option.bind (file_readstr D (kfiles st ! sh_in sh) SH_LINEBUFSZ st) (\<lambda>(txt, f, st, res).
    let st = st\<lparr>kfiles := (kfiles st)[sh_in sh := f]\<rparr>
    in if res = err EAGAIN then Some (sh, st, Return res)
       else Option.bind (reporterr D sh res ''kshell_read_exec'' (''could not read command line'' @ [CHR 0x0a]) [] st) (\<lambda>st.
       if res < 0 then Some (sh, st, Return res)
       else if res = 0 then Some (sh, st, Return 0)
       else let sh = sh\<lparr>waiting_for_input := False\<rparr>;
                st = st\<lparr>kmem := mem_write (kmem st) (linebuf lc) (the txt)\<rparr>
            in Option.bind (sh_break_cmdline (kmem st) (linebuf lc) SH_ARGVSZ) (\<lambda>(m, argv, argc).
               let st = st\<lparr>kmem := m\<rparr>
               in if argc < 0 then Some (sh, st, Return argc)
                  else if argc = 0 then Some (sh, st, Return (err EAGAIN))
                  else map_option (\<lambda>(st, ctl). (sh, st, ctl)) (exec_args D lc sh (map (arg_text m) argv) st)))))"

partial_function (option) kshell_run ::
    "('h, 'a) kstate_scheme drivers \<Rightarrow> locals \<Rightarrow> kshell \<Rightarrow> ('h, 'a) kstate_scheme \<Rightarrow> (('h, 'a) kstate_scheme \<times> control) option" where
  "kshell_run D lc sh st =
    Option.bind (kshell_read_exec D lc sh st) (\<lambda>(sh, st, ctl).
      case ctl of
        Return res \<Rightarrow>
          (if res = err EAGAIN then kshell_run D lc sh st
           else if res < 0 then Some (st, Return res)
           else if res = 0 then Some (st, Return 0)
           else kshell_run D lc sh st)
      | _ \<Rightarrow> Some (st, ctl))"

text \<open>The local file \<open>tty1\<close> is the first of the kernel's files.\<close>

definition kshell_init_run ::
    "('h, 'a) kstate_scheme drivers \<Rightarrow> locals \<Rightarrow> ('h, 'a) kstate_scheme \<Rightarrow> (('h, 'a) kstate_scheme \<times> control) option" where
  "kshell_init_run D lc st =
    (let (tty1, st, res) = file_open_dev D (MAKEDEV (of_nat MAJ_TTY) 1) st;
         st = st\<lparr>kfiles := (kfiles st)[0 := tty1]\<rparr>
     in if res < 0 then Some (st, Return res)
        else Option.bind (kshell_init_tty D lc 0 st) (\<lambda>(ksh, st, res).
          if res < 0 then Some (st, Return res)
          else map_option (\<lambda>(st, ctl). (st, case ctl of Return res \<Rightarrow> Return (if res < 0 then res else 0) | _ \<Rightarrow> ctl))
                 (kshell_run D lc ksh st)))"

section \<open>Formatted output\<close>

text \<open>On a supported format \<open>file_printf\<close> writes the reference text, through buffers that do not wrap around the address space.\<close>

lemma file_printf_text:
  assumes "printf_text fm va = Done (out, True)" "fits_space (bufaddr DEFAULT_BUFSZ) DEFAULT_BUFSZ (length out)"
    "fits_space (bufaddr (Suc (length out))) (Suc (length out)) (length out)"
  shows "file_printf D m bufaddr f fm va st = map_option Done (file_write D f (fmt_text fm va) st)"
proof -
  have sn: "vsnprintf m (bufaddr n) n fm va = Done (mem_write m (bufaddr n) (take (n - 1) out @ [NUL]), int (length out))"
    if "fits_space (bufaddr n) n (length out)" "n \<noteq> 0" for n
    using snprintf_text [OF assms(1), of "bufaddr n" n m] that by (simp add: fits_space_def vsnprintf_def snprintf_def)
  have rd: "mem_read (mem_write m a (out @ [NUL])) a (length out) = out" for a
    by (auto simp: list_eq_iff_nth_eq mem_write_inside nth_append)
  have "try_format (\<lambda>bufsz. vsnprintf m (bufaddr bufsz) bufsz fm va) DEFAULT_BUFSZ =
      Some (Done (if length out < DEFAULT_BUFSZ then (DEFAULT_BUFSZ, mem_write m (bufaddr DEFAULT_BUFSZ) (take (DEFAULT_BUFSZ - 1) out @ [NUL]), int (length out))
        else (Suc (length out), mem_write m (bufaddr (Suc (length out))) (take (Suc (length out) - 1) out @ [NUL]), int (length out))))"
    by (rule try_format_text) (use assms(2,3) in \<open>simp_all add: sn DEFAULT_BUFSZ_def\<close>)
  then show ?thesis using assms(1) rd by (simp add: file_printf_def file_vprintf_def fmt_text_def split: if_splits)
qed
section \<open>The split of a command line\<close>

text \<open>The reference: skip to the next graphic character and take everything up to the next space.\<close>

abbreviation graph :: "char \<Rightarrow> bool" where "graph c \<equiv> isgraph (schar c)"
abbreviation space :: "char \<Rightarrow> bool" where "space c \<equiv> isspace (schar c)"

function sh_words :: "string \<Rightarrow> string list" where
  "sh_words s =
    (case dropWhile (\<lambda>c. \<not> graph c) s of
       [] \<Rightarrow> []
     | c # rest \<Rightarrow> (c # takeWhile (\<lambda>c. \<not> space c) rest) # sh_words (dropWhile (\<lambda>c. \<not> space c) rest))"
  by pat_completeness auto
termination
proof (relation "measure length")
  fix s :: string and c rest
  assume "dropWhile (\<lambda>c. \<not> graph c) s = c # rest"
  then have "length (c # rest) \<le> length s" by (metis length_dropWhile_le)
  then have "length rest < length s" by simp
  then show "(dropWhile (\<lambda>c. \<not> space c) rest, s) \<in> measure length"
    using length_dropWhile_le [of "\<lambda>c. \<not> space c" rest] by simp
qed simp

declare sh_words.simps [simp del]

lemma graph_not_space: "graph c \<Longrightarrow> \<not> space c"
  by (auto simp: ctype_defs)

lemma break_loop_word:
  "cstr m a s \<Longrightarrow> break_loop m a argv True argn = break_loop m (a + length (takeWhile (\<lambda>c. \<not> space c) s)) argv False argn"
proof (induction s arbitrary: a)
  case Nil
  then show ?case by (subst (1 2) break_loop.simps) simp
next
  case (Cons c s)
  show ?case
  proof (cases "space c")
    case True
    then show ?thesis using Cons.prems by (subst (1 2) break_loop.simps) (simp add: Let_def)
  next
    case False
    then have "break_loop m a argv True argn = break_loop m (a + 1) argv True argn"
      using Cons.prems by (subst break_loop.simps) (simp add: Let_def)
    then show ?thesis using Cons.IH [of "Suc a"] Cons.prems False by simp
  qed
qed

lemma break_loop_gap:
  assumes "cstr m a s"
  obtains m' where "break_loop m a argv False argn = break_loop m' (a + length (takeWhile (\<lambda>c. \<not> graph c) s)) argv False argn"
    "\<And>x. x < a \<or> a + length (takeWhile (\<lambda>c. \<not> graph c) s) \<le> x \<Longrightarrow> m' x = m x"
    "s = [] \<or> space (hd s) \<Longrightarrow> m' a = NUL"
  using assms
proof (induction s arbitrary: m a thesis)
  case (Cons c s)
  show ?case
  proof (cases "graph c")
    case True
    then show ?thesis using Cons.prems(1) [of m] graph_not_space by simp
  next
    case False
    let ?m = "if space c then m(a := NUL) else m"
    have step: "break_loop m a argv False argn = break_loop ?m (a + 1) argv False argn"
      using Cons.prems(2) False by (subst break_loop.simps) (simp add: Let_def)
    have "cstr ?m (Suc a) s" using Cons.prems(2) cstr_write_disjoint [of "Suc a" s a "[NUL]" m] by (simp add: mem_write_Cons)
    then obtain m' where m': "break_loop ?m (Suc a) argv False argn = break_loop m' (Suc a + length (takeWhile (\<lambda>c. \<not> graph c) s)) argv False argn"
      "\<And>x. x < Suc a \<or> Suc a + length (takeWhile (\<lambda>c. \<not> graph c) s) \<le> x \<Longrightarrow> m' x = ?m x"
      using Cons.IH by blast
    show ?thesis
    proof (rule Cons.prems(1))
      show "break_loop m a argv False argn = break_loop m' (a + length (takeWhile (\<lambda>c. \<not> graph c) (c # s))) argv False argn"
        using step m'(1) False by simp
      show "m' x = m x" if "x < a \<or> a + length (takeWhile (\<lambda>c. \<not> graph c) (c # s)) \<le> x" for x
        using m'(2) [of x] that False by (auto split: if_splits)
      show "m' a = NUL" if "c # s = [] \<or> space (hd (c # s))" using m'(2) [of a] that by simp
    qed
  qed
qed simp
lemma cstr_suffix: "cstr m a (t @ s) \<Longrightarrow> cstr m (a + length t) s"
proof (induction t arbitrary: a)
  case (Cons c t)
  then show ?case using Cons.IH [of "Suc a"] by simp
qed simp

lemma cstr_prefix: "cstr m a (t @ s) \<Longrightarrow> (\<And>x. a \<le> x \<Longrightarrow> x < a + length t \<Longrightarrow> m' x = m x) \<Longrightarrow> m' (a + length t) = NUL \<Longrightarrow> cstr m' a t"
proof (induction t arbitrary: a)
  case (Cons c t)
  then show ?case using Cons.IH [of "Suc a"] by simp
qed simp

lemma break_loop_words:
  assumes "cstr m a s" "length argv < argn"
  shows "\<exists>m' as r. break_loop m a argv False argn = Some (m', argv @ as, r) \<and>
    (\<forall>x. x < a \<or> a + length s \<le> x \<longrightarrow> m' x = m x) \<and> (s = [] \<or> space (hd s) \<longrightarrow> m' a = NUL) \<and>
    list_all2 (\<lambda>p w. a \<le> p \<and> cstr m' p w) as (take (argn - 1 - length argv) (sh_words s)) \<and>
    r = (if length argv + length (sh_words s) < argn then int (length argv + length (sh_words s)) else err E2BIG)"
  using assms
proof (induction s arbitrary: m a argv rule: sh_words.induct)
  case (1 s)
  let ?t = "takeWhile (\<lambda>c. \<not> graph c) s" and ?d = "dropWhile (\<lambda>c. \<not> graph c) s"
  obtain m1 where gap: "break_loop m a argv False argn = break_loop m1 (a + length ?t) argv False argn"
      "\<And>x. x < a \<or> a + length ?t \<le> x \<Longrightarrow> m1 x = m x" "s = [] \<or> space (hd s) \<Longrightarrow> m1 a = NUL"
    using break_loop_gap [OF 1(2)] by metis
  define a1 where "a1 = a + length ?t"
  have len: "a1 + length ?d = a + length s" unfolding a1_def by (metis add.assoc length_append takeWhile_dropWhile_id)
  have "cstr m a1 ?d" unfolding a1_def using cstr_suffix [of m a ?t ?d] 1(2) by simp
  then have d: "cstr m1 a1 ?d" using gap(2) unfolding cstr_iff a1_def by (auto simp: list_eq_iff_nth_eq)
  show ?case
  proof (cases ?d)
    case Nil
    have "m1 a1 = NUL" using d unfolding Nil by simp
    then have "break_loop m1 a1 argv False argn = Some (m1, argv, int (length argv))" by (subst break_loop.simps) simp
    moreover have "sh_words s = []" by (subst sh_words.simps) (simp only: Nil list.case)
    moreover have "a1 = a + length s" using len unfolding Nil by simp
    ultimately show ?thesis using gap 1(2,3) unfolding a1_def [symmetric] by auto
  next
    case (Cons c rest)
    have c: "graph c" "c \<noteq> NUL" "m1 a1 = c" "cstr m1 (Suc a1) rest" using d Cons hd_dropWhile [of "\<lambda>c. \<not> graph c" s] by auto
    have words: "sh_words s = (c # takeWhile (\<lambda>c. \<not> space c) rest) # sh_words (dropWhile (\<lambda>c. \<not> space c) rest)"
      using Cons by (simp add: sh_words.simps [of s])
    let ?w = "takeWhile (\<lambda>c. \<not> space c) rest" and ?r = "dropWhile (\<lambda>c. \<not> space c) rest"
    show ?thesis
    proof (cases "length argv < argn - 1")
      case False
      then have "break_loop m1 a1 argv False argn = Some (m1, argv, err E2BIG)"
        using c graph_not_space by (subst break_loop.simps) (simp add: Let_def)
      then show ?thesis using gap False 1(3) words len Cons unfolding a1_def [symmetric] by auto
    next
      case True
      define p where "p = Suc a1 + length ?w"
      have "break_loop m1 a1 argv False argn = break_loop m1 (Suc a1) (argv @ [a1]) True argn"
        using c graph_not_space True by (subst break_loop.simps) (simp add: Let_def)
      also have "\<dots> = break_loop m1 p (argv @ [a1]) False argn" unfolding p_def by (rule break_loop_word [OF c(4)])
      finally have run: "break_loop m a argv False argn = break_loop m1 p (argv @ [a1]) False argn" using gap(1) unfolding a1_def by simp
      have "cstr m1 p ?r" unfolding p_def using cstr_suffix [of m1 "Suc a1" ?w ?r] c(4) by simp
      moreover have "length (argv @ [a1]) < argn" using True by simp
      ultimately obtain m' as r where ih: "break_loop m1 p (argv @ [a1]) False argn = Some (m', (argv @ [a1]) @ as, r)"
          "\<forall>x. x < p \<or> p + length ?r \<le> x \<longrightarrow> m' x = m1 x" "?r = [] \<or> space (hd ?r) \<longrightarrow> m' p = NUL"
          "list_all2 (\<lambda>q w. p \<le> q \<and> cstr m' q w) as (take (argn - 1 - length (argv @ [a1])) (sh_words ?r))"
          "r = (if length (argv @ [a1]) + length (sh_words ?r) < argn then int (length (argv @ [a1]) + length (sh_words ?r)) else err E2BIG)"
        using 1(1) [OF Cons] by blast
      have "?r = [] \<or> space (hd ?r)" using hd_dropWhile [of "\<lambda>c. \<not> space c" rest] by blast
      then have "m' p = NUL" using ih(3) by blast
      then have first: "cstr m' a1 (c # ?w)"
        using cstr_prefix [of m1 a1 "c # ?w" ?r m'] d Cons ih(2) by (simp add: p_def)
      have ap: "a \<le> a1" "a1 < p" "p + length ?r = a + length s"
        using len Cons length_append [of ?w ?r] by (simp_all add: a1_def p_def del: length_append)
      have "list_all2 (\<lambda>q w. a \<le> q \<and> cstr m' q w) (a1 # as) (take (argn - 1 - length argv) (sh_words s))"
      proof -
        have "list_all2 (\<lambda>q w. a \<le> q \<and> cstr m' q w) as (take (argn - 1 - (length argv + 1)) (sh_words ?r))"
          using ih(4) ap by (auto elim!: list_all2_mono)
        moreover have "argn - 1 - length argv = Suc (argn - 1 - (length argv + 1))" using True by simp
        ultimately show ?thesis using first ap(1) words by simp
      qed
      moreover have "m' x = m x" if "x < a \<or> a + length s \<le> x" for x
        using ih(2) gap(2) [of x] that ap len unfolding a1_def by auto
      moreover have "m' a = NUL" if "s = [] \<or> space (hd s)"
      proof -
        have "a \<noteq> a1" using that c(2,3) gap(3) by auto
        then show ?thesis using ih(2) gap(3) that ap by auto
      qed
      ultimately show ?thesis using run ih(1,5) words by auto
    qed
  qed
qed

text \<open>
  The shell breaks a command line in place into its words, as pointers to terminated strings in the line buffer, touches no
  other memory, and reports more words than fit into \<open>argv\<close> as \<open>-E2BIG\<close>.
\<close>

theorem sh_break_cmdline_words:
  assumes "cstr m cmdline s" "0 < argn"
  shows "\<exists>m' argv r. sh_break_cmdline m cmdline argn = Some (m', argv, r) \<and>
    (\<forall>x. x < cmdline \<or> cmdline + length s \<le> x \<longrightarrow> m' x = m x) \<and>
    (if length (sh_words s) < argn then r = int (length (sh_words s)) \<and> list_all2 (cstr m') argv (sh_words s) else r = err E2BIG)"
proof -
  obtain m' as where run: "break_loop m cmdline [] False argn =
        Some (m', as, if length (sh_words s) < argn then int (length (sh_words s)) else err E2BIG)"
      "\<forall>x. x < cmdline \<or> cmdline + length s \<le> x \<longrightarrow> m' x = m x"
      "list_all2 (\<lambda>p w. cmdline \<le> p \<and> cstr m' p w) as (take (argn - 1) (sh_words s))"
    using break_loop_words [OF assms(1), of "[]" argn] assms(2) by auto
  have "list_all2 (cstr m') as (sh_words s)" if "length (sh_words s) < argn"
  proof -
    have "take (argn - 1) (sh_words s) = sh_words s" using that by simp
    then show ?thesis using run(3) by (auto elim!: list_all2_mono)
  qed
  then show ?thesis using run(1,2) by (auto simp: sh_break_cmdline_def)
qed

theorem sh_break_cmdline_words_witness:
  "\<exists>m' argv. sh_break_cmdline (mem_write (\<lambda>a. NUL) 64 (''ls  /bin '' @ [NUL])) 64 16 = Some (m', argv, 2) \<and>
    list_all2 (cstr m') argv [''ls'', ''/bin'']"
proof -
  have w: "sh_words ''ls  /bin '' = [''ls'', ''/bin'']" by (simp add: sh_words.simps ctype_defs schar_def)
  have "cstr (mem_write (\<lambda>a. NUL) 64 (''ls  /bin '' @ [NUL])) 64 ''ls  /bin ''" by (rule cstr_write) simp
  from sh_break_cmdline_words [OF this, of 16] show ?thesis unfolding w by auto
qed
section \<open>Executing a line\<close>

lemma sh_words_length: "w \<in> set (sh_words s) \<Longrightarrow> length w \<le> length s"
proof (induction s arbitrary: w rule: sh_words.induct)
  case (1 s)
  show ?case
  proof (cases "dropWhile (\<lambda>c. \<not> graph c) s")
    case Nil
    have "sh_words s = []" by (subst sh_words.simps) (simp only: Nil list.case)
    then show ?thesis using 1(2) by simp
  next
    case (Cons c rest)
    have "length (c # rest) \<le> length s" using Cons length_dropWhile_le [of "\<lambda>c. \<not> graph c" s] by simp
    moreover have "sh_words s = (c # takeWhile (\<lambda>c. \<not> space c) rest) # sh_words (dropWhile (\<lambda>c. \<not> space c) rest)"
      using Cons by (subst sh_words.simps) simp
    moreover have "length w \<le> length (dropWhile (\<lambda>c. \<not> space c) rest)" if "w \<in> set (sh_words (dropWhile (\<lambda>c. \<not> space c) rest))"
      using 1(1) [OF Cons that] .
    ultimately show ?thesis
      using 1(2) length_takeWhile_le [of "\<lambda>c. \<not> space c" rest] length_dropWhile_le [of "\<lambda>c. \<not> space c" rest] by fastforce
  qed
qed

text \<open>What the shell does with the words of a line, in the state after the line has been read and split.\<close>

definition line_result ::
    "('h, 'a) kstate_scheme drivers \<Rightarrow> locals \<Rightarrow> kshell \<Rightarrow> string list \<Rightarrow> ('h, 'a) kstate_scheme \<Rightarrow>
      (kshell \<times> ('h, 'a) kstate_scheme \<times> control) option" where
  "line_result D lc sh ws st =
    (if ws = [] then Some (sh, st, Return (err EAGAIN))
     else if SH_ARGVSZ \<le> length ws then Some (sh, st, Return (err E2BIG))
     else map_option (\<lambda>(st, ctl). (sh, st, ctl)) (exec_args D lc sh ws st))"

lemma read_exec_line:
  assumes wait: "waiting_for_input sh"
    and read: "file_readstr D (kfiles st ! sh_in sh) SH_LINEBUFSZ st = Some (Some (s @ [NUL]), f, st1, int (length s))"
    and s: "s \<noteq> []" "NUL \<notin> set s" "length s < SH_LINEBUFSZ"
  shows "\<exists>m'. kshell_read_exec D lc sh st =
      line_result D lc (sh\<lparr>waiting_for_input := False\<rparr>) (sh_words s) (st1\<lparr>kfiles := (kfiles st1)[sh_in sh := f], kmem := m'\<rparr>) \<and>
    (\<forall>x. x < linebuf lc \<or> linebuf lc + length s < x \<longrightarrow> m' x = kmem st1 x)"
proof -
  let ?m = "mem_write (kmem st1) (linebuf lc) (s @ [NUL])"
  have "cstr ?m (linebuf lc) s" using s(2) by (rule cstr_write)
  then obtain m' argv where br: "break_loop ?m (linebuf lc) [] False SH_ARGVSZ =
        Some (m', argv, if length (sh_words s) < SH_ARGVSZ then int (length (sh_words s)) else err E2BIG)"
      "\<forall>x. x < linebuf lc \<or> linebuf lc + length s \<le> x \<longrightarrow> m' x = ?m x"
      "list_all2 (\<lambda>p w. linebuf lc \<le> p \<and> cstr m' p w) argv (take (SH_ARGVSZ - 1) (sh_words s))"
    using break_loop_words [of ?m "linebuf lc" s "[]" SH_ARGVSZ] by (auto simp: SH_ARGVSZ_def)
  have args: "map (arg_text m') argv = sh_words s" if "length (sh_words s) < SH_ARGVSZ"
  proof (rule nth_equalityI)
    have tk: "take (SH_ARGVSZ - 1) (sh_words s) = sh_words s" using that by simp
    show len: "length (map (arg_text m') argv) = length (sh_words s)" using br(3) unfolding tk by (simp add: list_all2_lengthD)
    show "map (arg_text m') argv ! i = sh_words s ! i" if "i < length (map (arg_text m') argv)" for i
    proof -
      have i: "i < length argv" "i < length (sh_words s)" using that len by simp_all
      have "cstr m' (argv ! i) (sh_words s ! i)" using br(3) i unfolding tk by (auto dest: list_all2_nthD)
      moreover have "length (sh_words s ! i) < SH_LINEBUFSZ" using sh_words_length [OF nth_mem [OF i(2)]] s(3) by simp
      ultimately show ?thesis using i by (simp add: arg_text_def takeWhile_cstr)
    qed
  qed
  have "(\<forall>x. x < linebuf lc \<or> linebuf lc + length s < x \<longrightarrow> m' x = kmem st1 x)"
    using br(2) by (auto simp: mem_write_def)
  moreover have "kshell_read_exec D lc sh st =
      line_result D lc (sh\<lparr>waiting_for_input := False\<rparr>) (sh_words s) (st1\<lparr>kfiles := (kfiles st1)[sh_in sh := f], kmem := m'\<rparr>)"
  proof (cases "length (sh_words s) < SH_ARGVSZ")
    case True
    then show ?thesis using wait read s(1) br(1) args
      by (simp add: kshell_read_exec_def reporterr_def sh_break_cmdline_def line_result_def Let_def)
  next
    case False
    then have "sh_words s \<noteq> []" by (auto simp: SH_ARGVSZ_def)
    then show ?thesis using wait read s(1) br(1) False
      by (simp add: kshell_read_exec_def reporterr_def sh_break_cmdline_def line_result_def Let_def)
  qed
  ultimately show ?thesis by blast
qed

lemma munix_tty_read:
  "f_op f = Some TtyDrv \<Longrightarrow> 0 < n \<Longrightarrow> file_read (munix_drivers B) f n st =
    map_option (\<lambda>(dst, off, st, res). (dst, f\<lparr>f_pos := off\<rparr>, st, res)) (tty_read (with_serial B no_drivers) f n (f_pos f) st)"
  by (simp add: file_read_def has_op_def munix_drivers_def munix_devices_def with_cpiofs_def with_ramdisk_def with_tty_def tty_ops_def)

text \<open>Editing keeps the characters of the line.\<close>

lemma set_foldl_edit: "set (foldl edit b ln) \<subseteq> set b \<union> set ln"
proof (induction ln arbitrary: b)
  case (Cons c ln)
  have "set (edit b c) \<subseteq> set b \<union> {c}" by (auto simp: edit_def dest: in_set_butlastD)
  then show ?case using Cons.IH [of "edit b c"] by auto
qed simp

lemma length_foldl_edit: "length (foldl edit b ln) \<le> length b + length ln"
proof (induction ln arbitrary: b)
  case (Cons c ln)
  have "length (foldl edit (edit b c) ln) \<le> length (edit b c) + length ln" by (rule Cons.IH)
  then show ?case using length_edit [of b c] by simp
qed simp

text \<open>
  The terminal \<open>t\<close> of a shell on a working serial port with the pending input \<open>inp\<close>; it is ready for a line in cooked mode and with an empty line.
  Input and output of the shell change nothing but the hardware and the terminals.
\<close>

definition sh_tty :: "kshell \<Rightarrow> ('h, 'a) kstate_scheme \<Rightarrow> nat" where
  "sh_tty sh st = the (f_driver_data (kfiles st ! sh_in sh))"

definition sh_term ::
    "(u16 \<Rightarrow> 'h \<Rightarrow> bool) \<Rightarrow> (u16 \<Rightarrow> 'h \<Rightarrow> string) \<Rightarrow> kshell \<Rightarrow> ('h, 'a) kstate_scheme \<Rightarrow> string \<Rightarrow> tty \<Rightarrow> bool" where
  "sh_term online rx sh st inp t \<longleftrightarrow>
    f_op (kfiles st ! sh_in sh) = Some TtyDrv \<and> f_driver_data (kfiles st ! sh_in sh) \<noteq> None \<and> sh_tty sh st < length (ttys st) \<and>
    ttys st ! sh_tty sh st = t \<and> serial_port online (portdev t) st \<and> serial_inp rx (portdev t) st = inp"

definition sh_ready ::
    "(u16 \<Rightarrow> 'h \<Rightarrow> bool) \<Rightarrow> (u16 \<Rightarrow> 'h \<Rightarrow> string) \<Rightarrow> kshell \<Rightarrow> ('h, 'a) kstate_scheme \<Rightarrow> string \<Rightarrow> bool" where
  "sh_ready online rx sh st inp \<longleftrightarrow> (\<exists>t. sh_term online rx sh st inp t \<and> tty_ok t \<and> ISCOOKED t \<and> \<not> ibuf_eol t \<and> line t = [])"

definition tty_frame :: "('h, 'a) kstate_scheme \<Rightarrow> ('h, 'a) kstate_scheme \<Rightarrow> bool" where
  "tty_frame st st' \<longleftrightarrow> (\<exists>h ts. st' = st\<lparr>hw := h, ttys := ts\<rparr>)"

lemma tty_frame_refl [simp]: "tty_frame st st"
  unfolding tty_frame_def by (rule exI [of _ "hw st"], rule exI [of _ "ttys st"]) simp

lemma tty_frame_trans: "tty_frame st st1 \<Longrightarrow> tty_frame st1 st2 \<Longrightarrow> tty_frame st st2"
  by (auto simp: tty_frame_def) blast

lemma tty_eff_frame: "tty_eff port inp k st t xs st' \<Longrightarrow> tty_frame st st'"
  by (auto simp: tty_eff_def tty_frame_def)

text \<open>The input \<open>ln\<close>, a newline and \<open>rest\<close> are pending. The line fits the buffer of the shell and has no end-of-file character or NUL.\<close>

definition plain_line :: "string \<Rightarrow> bool" where
  "plain_line ln \<longleftrightarrow> NL \<notin> set ln \<and> CTRL_D \<notin> set ln \<and> NUL \<notin> set ln \<and> length ln < SH_LINEBUFSZ - 1"

definition line_typed ::
    "(u16 \<Rightarrow> 'h \<Rightarrow> bool) \<Rightarrow> (u16 \<Rightarrow> 'h \<Rightarrow> string) \<Rightarrow> kshell \<Rightarrow> ('h, 'a) kstate_scheme \<Rightarrow> string \<Rightarrow> string \<Rightarrow> bool" where
  "line_typed online rx sh st ln rest \<longleftrightarrow> sh_ready online rx sh st (ln @ NL # rest) \<and> plain_line ln \<and> sh_out sh = sh_in sh"

lemma sh_readyD:
  assumes "sh_ready online rx sh st inp" "k = sh_tty sh st" "t = ttys st ! k"
  shows "f_op (kfiles st ! sh_in sh) = Some TtyDrv" "f_driver_data (kfiles st ! sh_in sh) = Some k" "k < length (ttys st)"
    "serial_port online (portdev t) st" "serial_inp rx (portdev t) st = inp" "tty_ok t" "ISCOOKED t" "\<not> ibuf_eol t" "line t = []"
  using assms by (auto simp: sh_ready_def sh_term_def sh_tty_def)

lemma sh_term_eff:
  assumes "sh_term online rx sh st inp u" "tty_eff (serial_port online) (serial_inp rx) (sh_tty sh st) st t xs st'"
  shows "sh_term online rx sh st' xs t" "tty_frame st st'"
proof -
  obtain h where h: "st' = st\<lparr>hw := h, ttys := (ttys st)[sh_tty sh st := t]\<rparr>" using assms(2) by (auto simp: tty_eff_def)
  have k: "sh_tty sh st' = sh_tty sh st" using h by (simp add: sh_tty_def)
  show "sh_term online rx sh st' xs t" using assms h unfolding sh_term_def k by (simp add: tty_eff_def)
  show "tty_frame st st'" using assms(2) by (rule tty_eff_frame)
qed

lemma sh_ready_eff:
  assumes "sh_ready online rx sh st inp" "tty_eff (serial_port online) (serial_inp rx) (sh_tty sh st) st t xs st'"
    and "tty_ok t" "ISCOOKED t" "\<not> ibuf_eol t" "line t = []"
  shows "sh_ready online rx sh st' xs" "tty_frame st st'"
  using assms sh_term_eff [OF _ assms(2)] by (auto simp: sh_ready_def)

lemma munix_tty_write:
  "f_op f = Some TtyDrv \<Longrightarrow> src \<noteq> [] \<Longrightarrow> file_write (munix_drivers B) f src st =
    map_option (\<lambda>(off, st, res). (f\<lparr>f_pos := off\<rparr>, st, res)) (tty_write (with_serial B no_drivers) f src (f_pos f) st)"
  by (simp add: file_write_def has_op_def munix_drivers_def munix_devices_def with_cpiofs_def with_ramdisk_def with_tty_def tty_ops_def)

lemma munix_tty_write0: "f_op f = Some TtyDrv \<Longrightarrow> file_write (munix_drivers B) f [] st = Some (f, st, 0)"
  by (simp add: file_write_def has_op_def munix_drivers_def munix_devices_def with_cpiofs_def with_ramdisk_def with_tty_def tty_ops_def)

lemma sh_printf_term:
  fixes st :: "('h, 'a) kstate_scheme"
  assumes uart: "uart B online rx tx busy" and trm: "sh_term online rx sh st inp t"
  shows "\<exists>st' r. sh_printf (munix_drivers B) (sh_in sh) fm va st = Some (st', r) \<and> sh_term online rx sh st' inp t \<and> tty_frame st st'"
proof -
  let ?f = "kfiles st ! sh_in sh" and ?s = "fmt_text fm va"
  have d: "f_op ?f = Some TtyDrv" "f_driver_data ?f = Some (sh_tty sh st)" "ttys st ! sh_tty sh st = t"
    "serial_port online (portdev (ttys st ! sh_tty sh st)) st" "serial_inp rx (portdev (ttys st ! sh_tty sh st)) st = inp"
    using trm by (auto simp: sh_term_def sh_tty_def)
  have "\<exists>st' r. file_write (munix_drivers B) ?f ?s st = Some (?f, st', r) \<and> sh_term online rx sh st' inp t \<and> tty_frame st st'"
  proof (cases "?s = []")
    case True
    then show ?thesis using munix_tty_write0 [OF d(1), of B st] trm by auto
  next
    case False
    obtain st' r where w: "tty_write (with_serial B no_drivers) ?f ?s (f_pos ?f) st = Some (f_pos ?f, st', r)"
      "tty_eff (serial_port online) (serial_inp rx) (sh_tty sh st) st t inp st'"
      using uart.serial_tty_write [OF uart d(4,2), of no_drivers ?s "f_pos ?f"] unfolding d(5) unfolding d(3) by blast
    show ?thesis using munix_tty_write [OF d(1) False, of B st] w(1) sh_term_eff [OF trm w(2)] by auto
  qed
  then obtain st' r where w: "file_write (munix_drivers B) ?f ?s st = Some (?f, st', r)" "sh_term online rx sh st' inp t" "tty_frame st st'" by blast
  have "kfiles st' = kfiles st" using w(3) by (auto simp: tty_frame_def)
  then have "st'\<lparr>kfiles := (kfiles st')[sh_in sh := ?f]\<rparr> = st'" by simp
  then show ?thesis using w by (simp add: sh_printf_def)
qed

lemma sh_printfs_term:
  fixes st :: "('h, 'a) kstate_scheme"
  assumes "uart B online rx tx busy"
  shows "sh_term online rx sh st inp t \<Longrightarrow> \<exists>st'. sh_printfs (munix_drivers B) (sh_in sh) ps st = Some st' \<and> sh_term online rx sh st' inp t \<and> tty_frame st st'"
proof (induction ps arbitrary: st)
  case (Cons p ps)
  obtain fm va where p: "p = (fm, va)" by (cases p)
  obtain st1 r where 1: "sh_printf (munix_drivers B) (sh_in sh) fm va st = Some (st1, r)" "sh_term online rx sh st1 inp t" "tty_frame st st1"
    using sh_printf_term [OF assms Cons.prems] by blast
  from Cons.IH [OF 1(2)] show ?case using 1(1) tty_frame_trans [OF 1(3)] by (auto simp: p)
qed simp

lemma sh_printfs_ready:
  fixes st :: "('h, 'a) kstate_scheme"
  assumes "uart B online rx tx busy" "sh_ready online rx sh st inp"
  shows "\<exists>st'. sh_printfs (munix_drivers B) (sh_in sh) ps st = Some st' \<and> sh_ready online rx sh st' inp \<and> tty_frame st st'"
proof -
  obtain t where t: "sh_term online rx sh st inp t" "tty_ok t" "ISCOOKED t" "\<not> ibuf_eol t" "line t = []" using assms(2) by (auto simp: sh_ready_def)
  from sh_printfs_term [OF assms(1) t(1), of ps] t(2-5) show ?thesis unfolding sh_ready_def by blast
qed

text \<open>A shell that does not wait for input yet writes its prompt first.\<close>

lemma read_exec_prompt:
  fixes st :: "('h, 'a) kstate_scheme"
  assumes "uart B online rx tx busy" "sh_ready online rx sh st inp" "sh_out sh = sh_in sh"
  shows "\<exists>st'. kshell_read_exec (munix_drivers B) lc sh st = kshell_read_exec (munix_drivers B) lc (sh\<lparr>waiting_for_input := True\<rparr>) st' \<and>
    sh_ready online rx sh st' inp \<and> tty_frame st st'"
proof (cases "waiting_for_input sh")
  case True
  then have "sh\<lparr>waiting_for_input := True\<rparr> = sh" by simp
  then show ?thesis using assms(2) by (intro exI [of _ st]) simp
next
  case False
  obtain st' where p: "sh_printfs (munix_drivers B) (sh_in sh) [(''> '', [])] st = Some st'" "sh_ready online rx sh st' inp" "tty_frame st st'"
    using sh_printfs_ready [OF assms(1,2), of "[(''> '', [])]"] by blast
  have "kshell_read_exec (munix_drivers B) lc sh st = kshell_read_exec (munix_drivers B) lc (sh\<lparr>waiting_for_input := True\<rparr>) st'"
    using p(1) False assms(3) by (simp add: kshell_read_exec_def [of _ _ sh] kshell_read_exec_def [of _ _ "sh\<lparr>waiting_for_input := True\<rparr>"])
  then show ?thesis using p by blast
qed

lemma sh_upd_ready [simp]:
  "sh_ready online rx (sh\<lparr>waiting_for_input := b\<rparr>) st inp = sh_ready online rx sh st inp" "sh_tty (sh\<lparr>waiting_for_input := b\<rparr>) st = sh_tty sh st"
  "sh_ready online rx sh (st\<lparr>kmem := m\<rparr>) inp = sh_ready online rx sh st inp"
  by (simp_all add: sh_ready_def sh_term_def sh_tty_def serial_port_def serial_inp_def)

lemma typed_line:
  fixes st :: "('h, 'a) kstate_scheme"
  assumes uart: "uart B online rx tx busy" and typed: "line_typed online rx sh st ln rest"
  shows "\<exists>st1 m'. kshell_read_exec (munix_drivers B) lc sh st =
      line_result (munix_drivers B) lc (sh\<lparr>waiting_for_input := False\<rparr>) (sh_words (foldl edit [] ln @ [NL])) (st1\<lparr>kmem := m'\<rparr>) \<and>
    sh_ready online rx sh st1 rest \<and> tty_frame st st1 \<and> (\<forall>x. x < linebuf lc \<or> linebuf lc + SH_LINEBUFSZ \<le> x \<longrightarrow> m' x = kmem st x)"
proof -
  let ?L = "foldl edit [] ln @ [NL]"
  obtain st0 where p: "kshell_read_exec (munix_drivers B) lc sh st = kshell_read_exec (munix_drivers B) lc (sh\<lparr>waiting_for_input := True\<rparr>) st0"
    "sh_ready online rx sh st0 (ln @ NL # rest)" "tty_frame st st0"
    using read_exec_prompt [OF uart] typed unfolding line_typed_def by blast
  note d = sh_readyD [OF p(2) refl refl]
  let ?k = "sh_tty sh st0" and ?f = "kfiles st0 ! sh_in sh"
  have ln: "NL \<notin> set ln" "CTRL_D \<notin> set ln" "NUL \<notin> set ln" "length ln < SH_LINEBUFSZ - 1"
    using typed by (auto simp: line_typed_def plain_line_def)
  have len: "length ?L < SH_LINEBUFSZ" using length_foldl_edit [of "[]" ln] ln(4) by (simp add: SH_LINEBUFSZ_def)
  have L: "?L = foldl edit (line (ttys st0 ! ?k)) ln @ [NL]" "length (line (ttys st0 ! ?k)) + length ln < IBUFSZ"
    using d(9) ln(4) by (simp_all add: SH_LINEBUFSZ_def IBUFSZ_def)
  have tk: "take (SH_LINEBUFSZ - 1) ?L = ?L" "drop (SH_LINEBUFSZ - 1) ?L = []" using len by simp_all
  obtain st1 t' where rd: "tty_read (with_serial B no_drivers) ?f (SH_LINEBUFSZ - 1) (f_pos ?f) st0 = Some (?L, f_pos ?f, st1, int (length ?L))"
      "tty_eff (serial_port online) (serial_inp rx) ?k st0 t' rest st1" "tty_same (ttys st0 ! ?k) t'" "line t' = []" "\<not> ibuf_eol t'"
    using uart.serial_read_line [OF uart d(4,3) refl d(6-8,5) ln(1,2) L(2) d(2) L(1), of no_drivers "SH_LINEBUFSZ - 1" "f_pos ?f"]
    unfolding tk by blast
  have r1: "sh_ready online rx sh st1 rest" "tty_frame st0 st1"
    using sh_ready_eff [OF p(2) rd(2) _ _ rd(5,4)] rd(3) d(7) by (simp_all add: tty_same_def ISCOOKED_def)
  have "file_readstr (munix_drivers B) ?f SH_LINEBUFSZ st0 = Some (Some (?L @ [NUL]), ?f, st1, int (length ?L))"
    using rd(1) d(1) by (simp add: file_readstr_def munix_tty_read SH_LINEBUFSZ_def)
  moreover have "NUL \<notin> set ?L" using set_foldl_edit [of "[]" ln] ln(3) by auto
  ultimately obtain m' where m': "kshell_read_exec (munix_drivers B) lc (sh\<lparr>waiting_for_input := True\<rparr>) st0 =
      line_result (munix_drivers B) lc (sh\<lparr>waiting_for_input := False\<rparr>) (sh_words ?L) (st1\<lparr>kfiles := (kfiles st1)[sh_in sh := ?f], kmem := m'\<rparr>)"
      "\<forall>x. x < linebuf lc \<or> linebuf lc + length ?L < x \<longrightarrow> m' x = kmem st1 x"
    using read_exec_line [of "sh\<lparr>waiting_for_input := True\<rparr>" "munix_drivers B" st0 ?L ?f st1 lc] len by auto
  have k: "kfiles st1 = kfiles st0" "kmem st1 = kmem st" using r1(2) p(3) by (auto simp: tty_frame_def)
  then have "st1\<lparr>kfiles := (kfiles st1)[sh_in sh := ?f], kmem := m'\<rparr> = st1\<lparr>kmem := m'\<rparr>" by simp
  then show ?thesis using m' r1(1) tty_frame_trans [OF p(3) r1(2)] len k(2) unfolding p(1) by (intro exI [of _ st1] exI [of _ m']) auto
qed

text \<open>
  Property C18. A line typed at the terminal of a shell is executed: after the prompt, the characters that the serial port receives up to the newline
  go through the line editor of the terminal, the edited line is split into words, and the shell runs the command that they name
  with them as arguments (\<open>line_result\<close>). Nothing else in memory changes but the line buffer, nothing else of the kernel but the terminal,
  and input behind the newline stays pending.
\<close>

theorem kshell_typed_line:
  fixes st :: "('h, 'a) kstate_scheme"
  assumes "uart B online rx tx busy" "line_typed online rx sh st ln rest"
  shows "\<exists>st1 m'. kshell_read_exec (munix_drivers B) lc sh st =
      line_result (munix_drivers B) lc (sh\<lparr>waiting_for_input := False\<rparr>) (sh_words (foldl edit [] ln @ [NL])) (st1\<lparr>kmem := m'\<rparr>) \<and>
    sh_ready online rx sh st1 rest \<and> tty_frame st st1 \<and> (\<forall>x. x < linebuf lc \<or> linebuf lc + SH_LINEBUFSZ \<le> x \<longrightarrow> m' x = kmem st x)"
  by (rule typed_line [OF assms])

text \<open>
  Property C19. A command line of sixteen or more words ends the shell: the loop of \<open>kshell_run\<close> returns \<open>-E2BIG\<close> although more input may be
  waiting. No command is run: only the terminal, its port and the line buffer have changed, and the rest of the input is still to be read.
\<close>

theorem kshell_long_line_ends_shell:
  fixes st :: "('h, 'a) kstate_scheme"
  assumes "uart B online rx tx busy" "line_typed online rx sh st ln rest" "SH_ARGVSZ \<le> length (sh_words (foldl edit [] ln @ [NL]))"
  shows "\<exists>st1 m. kshell_run (munix_drivers B) lc sh st = Some (st1\<lparr>kmem := m\<rparr>, Return (err E2BIG)) \<and>
    sh_ready online rx sh (st1\<lparr>kmem := m\<rparr>) rest \<and> tty_frame st st1 \<and> (\<forall>x. x < linebuf lc \<or> linebuf lc + SH_LINEBUFSZ \<le> x \<longrightarrow> m x = kmem st x)"
proof -
  have "sh_words (foldl edit [] ln @ [NL]) \<noteq> []" using assms(3) by (auto simp: SH_ARGVSZ_def)
  then obtain st1 m' where "kshell_read_exec (munix_drivers B) lc sh st = Some (sh\<lparr>waiting_for_input := False\<rparr>, st1\<lparr>kmem := m'\<rparr>, Return (err E2BIG))"
      "sh_ready online rx sh (st1\<lparr>kmem := m'\<rparr>) rest" "tty_frame st st1" "\<forall>x. x < linebuf lc \<or> linebuf lc + SH_LINEBUFSZ \<le> x \<longrightarrow> m' x = kmem st x"
    using typed_line [OF assms(1,2), of lc] assms(3) by (auto simp: line_result_def)
  then show ?thesis by (intro exI [of _ st1] exI [of _ m']) (subst kshell_run.simps, simp)
qed

definition shell_state :: "string \<Rightarrow> uart8250 kstate" where
  "shell_state input = idle_state\<lparr>serials := [\<lparr>s_port = 0x3f8, s_flags = 0\<rparr>], hw := \<lparr>u_rx = input, u_tx = [], u_busy = 1, u_loop = False, u_lb = 0\<rparr>,
    ttys := [\<lparr>portdev = file0\<lparr>f_op := Some SerialDrv, f_driver_data := Some 0\<rparr>, t_flags = TTY_ECHO OR TTY_COOKED,
      initialized = True, ibuf_eol = False, ibuf_eof = False, ilen = 0, ibuf = replicate IBUFSZ NUL\<rparr>],
    kfiles := [file0\<lparr>f_op := Some TtyDrv, f_driver_data := Some 0\<rparr>]\<rparr>"

definition tty_shell :: kshell where
  "tty_shell = \<lparr>sh_in = 0, sh_out = 0, sh_err = 0, sh_cwd = ''/'', waiting_for_input = True\<rparr>"

definition locals0 :: locals where
  "locals0 = \<lparr>faddr = 0x1000, savedflags_addr = 0x1100, linebuf = 0x1200, old_ehdr = [], old_phdr = (\<lambda>i. [])\<rparr>"

lemma ifilter_plain: "ifilter \<lparr>s_port = p, s_flags = 0\<rparr> = (\<lambda>c. c)"
  by (rule ext) (simp add: ifilter_def)

lemma shell_state_tty:
  fixes st :: "uart8250 kstate"
  assumes "st = shell_state input"
  shows "kfiles st = [file0\<lparr>f_op := Some TtyDrv, f_driver_data := Some 0\<rparr>]" "length (ttys st) = 1"
    "line (ttys st ! 0) = []" "tty_ok (ttys st ! 0)" "ISCOOKED (ttys st ! 0)" "\<not> ibuf_eol (ttys st ! 0)"
    "serial_port (\<lambda>p u. p = 0x3f8 \<and> \<not> u_loop u) (portdev (ttys st ! 0)) st"
    "serial_inp (\<lambda>p. u_rx) (portdev (ttys st ! 0)) st = input"
  unfolding assms
  by (simp_all add: shell_state_def line_def tty_ok_def ISCOOKED_def TTY_ECHO_def TTY_COOKED_def serial_port_def serial_inp_def ifilter_plain)

lemma shell_state_typed:
  assumes "NL \<notin> set ln" "CTRL_D \<notin> set ln" "NUL \<notin> set ln" "length ln < SH_LINEBUFSZ - 1"
  shows "line_typed (\<lambda>p u. p = 0x3f8 \<and> \<not> u_loop u) (\<lambda>p. u_rx) tty_shell (shell_state (ln @ [NL])) ln []"
  using shell_state_tty [OF refl, of "ln @ [NL]"] assms by (simp add: line_typed_def plain_line_def sh_ready_def sh_term_def tty_shell_def sh_tty_def)

theorem kshell_typed_line_witness:
  "\<exists>st1 m'. kshell_read_exec (munix_drivers uart_bus) locals0 tty_shell (shell_state (([CHR ''p'', CHR ''x'', BS] @ ''wd'') @ [NL])) =
    line_result (munix_drivers uart_bus) locals0 (tty_shell\<lparr>waiting_for_input := False\<rparr>) [''pwd''] (st1\<lparr>kmem := m'\<rparr>)"
proof -
  let ?ln = "[CHR ''p'', CHR ''x'', BS] @ ''wd''"
  have typed: "line_typed (\<lambda>p u. p = 0x3f8 \<and> \<not> u_loop u) (\<lambda>p. u_rx) tty_shell (shell_state (?ln @ [NL])) ?ln []"
    by (rule shell_state_typed) (simp_all add: SH_LINEBUFSZ_def)
  have w: "sh_words (foldl edit [] ?ln @ [NL]) = [''pwd'']" by (simp add: edit_def sh_words.simps ctype_defs schar_def)
  from kshell_typed_line [OF u8250.uart_axioms typed, of locals0] show ?thesis unfolding w by blast
qed

theorem kshell_long_line_ends_shell_witness:
  "\<exists>st'. kshell_run (munix_drivers uart_bus) locals0 tty_shell (shell_state (concat (replicate 16 ''a '') @ [NL])) = Some (st', Return (err E2BIG))"
proof -
  let ?ln = "concat (replicate 16 ''a '')"
  have typed: "line_typed (\<lambda>p u. p = 0x3f8 \<and> \<not> u_loop u) (\<lambda>p. u_rx) tty_shell (shell_state (?ln @ [NL])) ?ln []"
    by (rule shell_state_typed) (simp_all add: SH_LINEBUFSZ_def eval_nat_numeral)
  have w: "SH_ARGVSZ \<le> length (sh_words (foldl edit [] ?ln @ [NL]))"
    by (simp add: edit_def sh_words.simps ctype_defs schar_def SH_ARGVSZ_def eval_nat_numeral)
  from kshell_long_line_ends_shell [OF u8250.uart_axioms typed w, of locals0] show ?thesis by blast
qed

end
