(* ===== verification/Kernel_Main.thy ===== *)
theory Kernel_Main
  imports Segments Boot Loading Kshell
begin

text \<open>
  The start of the kernel: paging in the processor (\<open>lib/arch/i386/cpu_pagemap.c\<close>), \<open>init_pm\<close> of \<open>kernel/pagemap.c\<close>,
  \<open>kernel/kernel.c\<close>, and the entry from the boot loader (\<open>boot_mb2.c\<close>). The state \<open>machine\<close> is that of the kernel with the
  registers of the processor and the static variables of \<open>kernel.c\<close>, \<open>log.c\<close> and \<open>boot_mb2.c\<close>.

  \<open>kernel_boots\<close> puts the components together: from a cold machine with an archive as its last boot module, \<open>_start_mb2\<close> comes to run
  the shell in a state where every driver is registered, the archive is mounted as the root, the page map of the kernel is
  in use, the descriptor tables are loaded and interrupts are enabled. From then on the timer can interrupt the kernel itself, although its handler
  relies on a current thread: \<open>irqs\<close> are the interrupts that arrive before the shell starts.
\<close>

section \<open>State\<close>

text \<open>\<open>log_set\<close> says whether the log file points to \<open>serial1\<close>; before that it is NULL. \<open>intr_flag\<close> is the interrupt flag.\<close>

record 'h machine = "'h kstate" +
  m_cpu :: cpu
  cr0 :: u32
  cr4 :: u32
  intr_flag :: bool
  serial1 :: vfile
  log_set :: bool
  m_boot_info :: boot_info
  mb2_magic :: u32
  mb2_boot_info :: u32

definition intr_isenabled :: "('h, 'a) machine_scheme \<Rightarrow> bool" where
  "intr_isenabled st = intr_flag st"

definition intr_setenabled :: "bool \<Rightarrow> ('h, 'a) machine_scheme \<Rightarrow> ('h, 'a) machine_scheme" where
  "intr_setenabled enabled st = st\<lparr>intr_flag := enabled\<rparr>"

section \<open>Paging: cpu\_pagemap.c\<close>

definition PM_LVL_ROOT :: nat where "PM_LVL_ROOT = 0"
definition CR0_PG :: u32 where "CR0_PG = push_bit 31 1"
definition CR4_PAE :: u32 where "CR4_PAE = push_bit 5 1"
definition CR4_PSE :: u32 where "CR4_PSE = push_bit 4 1"

definition pme_tostr :: "u32 \<Rightarrow> nat \<Rightarrow> string" where
  "pme_tostr pme lvl =
    (let paddr = pme_paddr pme lvl;
         flags = (if lvl = PM_LVL_ROOT then flag_text pme 12 ''.......TC...'' None else flag_text pme 12 ''...GLDATCUWP'' (Some ''---------sr-''))
     in fmt_text ''%#8x|%s'' [VWord paddr, VStr 0 flags])"

definition x86_pm_cpumode_tostr :: "('h, 'a) machine_scheme \<Rightarrow> string" where
  "x86_pm_cpumode_tostr st =
    (let bit01 = (\<lambda>w :: u32. VWord (if w \<noteq> 0 then 1 else 0));
         modename = (if cr0 st AND CR0_PG = 0 then ''page mapping disabled'' else if cr4 st AND CR4_PAE = 0 then ''32-bit paging'' else ''PAE paging'')
     in fmt_text ''%s'' [VStr 0 modename] @
        fmt_text (CHR 0x0a # CHR 0x09 # ''CR0.PG=%d, CR4.PAE=%d, CR4.PSE=%d'')
          [bit01 (cr0 st AND CR0_PG), bit01 (cr4 st AND CR4_PAE), bit01 (cr4 st AND CR4_PSE)] @
        fmt_text (CHR 0x0a # CHR 0x09 # ''CR3 = %#10zx ('') [VWord (cr3 st)] @ pme_tostr (cr3 st) PM_LVL_ROOT @ fmt_text '')'' [])"

text \<open>The early return for a root at address 0 skips the label \<open>exit\<close>: interrupts stay disabled.\<close>

definition init_cpu_pm :: "u32 \<Rightarrow> ('h, 'a) machine_scheme \<Rightarrow> ('h, 'a) machine_scheme \<times> int" where
  "init_cpu_pm root_pme st =
    (let intrs_enabled = intr_isenabled st;
         st = intr_setenabled False st;
         pgbit = cr0 st AND CR0_PG;
         pae = cr4 st AND CR4_PAE
     in if pgbit \<noteq> 0 \<and> pae \<noteq> 0 then (intr_setenabled intrs_enabled st, err ENOTSUP)
        else if pgbit \<noteq> 0 then (intr_setenabled intrs_enabled (st\<lparr>cr3 := root_pme\<rparr>), 0)
        else if pme_paddr root_pme PM_LVL_ROOT = 0 then (st, err EINVAL)
        else (intr_setenabled intrs_enabled
               (st\<lparr>cr4 := cr4 st AND NOT (CR4_PAE OR CR4_PSE), cr3 := root_pme, cr0 := cr0 st OR CR0_PG\<rparr>), 0))"

definition init_pm :: "('h, 'a) machine_scheme \<Rightarrow> (('h, 'a) machine_scheme \<times> int) option" where
  "init_pm st =
    map_option (\<lambda>(pm', root, res).
        let st = st\<lparr>pm := pm', kernel_addrspc := root\<rparr> in if res < 0 then (st, res) else init_cpu_pm root st)
      (addrspc_init (pm st) (kernel_addrspc st))"

section \<open>The kernel: kernel.c\<close>

definition init_log :: "('h, 'a) machine_scheme drivers \<Rightarrow> ('h, 'a) machine_scheme \<Rightarrow> ('h, 'a) machine_scheme \<times> int" where
  "init_log D st =
    (let (f, st, res) = file_open_dev D (MAKEDEV (of_nat MAJ_SERIAL) 1) st;
         st = st\<lparr>serial1 := f\<rparr>
     in if res < 0 then (st, res)
        else let st = st\<lparr>log_set := True\<rparr>;
                 (st, _) = file_ioctl D (serial1 st) SRL_SETFLAGS (SRL_ICRNL OR SRL_OCRNL) st
             in (st, 0))"

text \<open>A shell that returns is started again; the loop ends only when the shell gives up control.\<close>

partial_function (option) kernel_noreturn_inner ::
    "('h, 'a) kstate_scheme drivers \<Rightarrow> locals \<Rightarrow> ('h, 'a) kstate_scheme \<Rightarrow> (('h, 'a) kstate_scheme \<times> control) option" where
  "kernel_noreturn_inner D lc st =
    Option.bind (kshell_init_run D lc st) (\<lambda>(st, ctl). case ctl of Return res \<Rightarrow> kernel_noreturn_inner D lc st | _ \<Rightarrow> Some (st, ctl))"

text \<open>\<open>kernel_noreturn\<close> runs the loop on a fresh stack.\<close>

definition kernel_noreturn ::
    "('h, 'a) kstate_scheme drivers \<Rightarrow> locals \<Rightarrow> ('h, 'a) kstate_scheme \<Rightarrow> (('h, 'a) kstate_scheme \<times> control) option" where
  "kernel_noreturn D lc st = kernel_noreturn_inner D lc st"

text \<open>
  The interrupts \<open>irqs\<close> that arrive once they are enabled and before the first thread runs. The controller lets only the timer through, so
  the list stands for its ticks; an interrupt that returns lets the kernel go on. A tick that comes later in the shell has the same effect as one
  that comes first, because there is no thread before the shell starts a program.
\<close>

fun kernel_irqs ::
    "'h bus \<Rightarrow> ('h, 'a) kstate_scheme drivers \<Rightarrow> u8 list \<Rightarrow> ('h, 'a) kstate_scheme \<Rightarrow> (('h, 'a) kstate_scheme \<times> control) option" where
  "kernel_irqs B D [] st = Some (st, Return 0)"
| "kernel_irqs B D (ivec # irqs) st =
    Option.bind (interrupt_dispatch B D ivec st) (\<lambda>(st, ctl). case ctl of Return _ \<Rightarrow> kernel_irqs B D irqs st | _ \<Rightarrow> Some (st, ctl))"

definition kernel_main ::
    "'h bus \<Rightarrow> ('h, 'a) machine_scheme drivers \<Rightarrow> layout \<Rightarrow> locals \<Rightarrow> u8 list \<Rightarrow> ('h, 'a) machine_scheme \<Rightarrow> (('h, 'a) machine_scheme \<times> control) option" where
  "kernel_main B D L lc irqs st =
    (let (st, res) = init_driver_serial st
     in if res < 0 then Some (st, Return res)
        else let (st, _) = init_log D st
             in Option.bind (read_boot_info (kmem st) (mb2_magic st) (mb2_boot_info st) (m_boot_info st)) (\<lambda>(b, _, _).
                let st = st\<lparr>m_boot_info := b\<rparr>;
                    (c, _) = init_cpu L (m_cpu st);
                    st = st\<lparr>m_cpu := c\<rparr>
                in Option.bind (init_pm st) (\<lambda>(st, _).
                   let (st, _) = init_driver_ramdisk st;
                       (st, _) = init_driver_tty st;
                       (st, _) = init_driver_cpiofs st
                   in Option.bind (mount_initrd D (m_boot_info st) st) (\<lambda>(st, _).
                      let (st, _) = init_int_controller B st;
                          (st, _) = init_timer_interrupt B st;
                          st = intr_setenabled True st
                      in Option.bind (kernel_irqs B D irqs st) (\<lambda>(st, ctl). case ctl of
                           Return _ \<Rightarrow> Option.bind (kshell_init_run D lc st) (\<lambda>(st, ctl).
                             case ctl of Return _ \<Rightarrow> kernel_noreturn D lc st | _ \<Rightarrow> Some (st, ctl))
                         | _ \<Rightarrow> Some (st, ctl))))))"

definition start_mb2 ::
    "'h bus \<Rightarrow> ('h, 'a) machine_scheme drivers \<Rightarrow> layout \<Rightarrow> locals \<Rightarrow> u8 list \<Rightarrow> u32 \<Rightarrow> u32 \<Rightarrow> ('h, 'a) machine_scheme \<Rightarrow>
      (('h, 'a) machine_scheme \<times> control) option" where
  "start_mb2 B D L lc irqs magic info st = kernel_main B D L lc irqs (st\<lparr>mb2_magic := magic, mb2_boot_info := info\<rparr>)"

section \<open>The drivers of the kernel\<close>

lemma munix_ops: "dr_ops (munix_drivers B) SerialDrv = serial_ops B" "dr_ops (munix_drivers B) TtyDrv = tty_ops (with_serial B no_drivers)"
  by (simp_all add: munix_eq with_cpiofs_def with_ramdisk_def with_tty_def with_serial_def)

lemma dev_numbers: "MAJOR (MAKEDEV 2 1) = 2" "MINOR (MAKEDEV 2 1) = 1" "MAJOR (MAKEDEV 3 1) = 3" "MINOR (MAKEDEV 3 1) = 1"
  by (simp_all add: MAJOR_def MINOR_def MAKEDEV_def)

section \<open>What the start relies on of the serial port\<close>

text \<open>
  The first serial port passes the loopback test of its driver, is then in normal operation with its received characters kept, and does not react to
  writes to ports below its own.
\<close>

locale serial_board = uart B online rx tx busy
  for B :: "'h bus" and online :: "u16 \<Rightarrow> 'h \<Rightarrow> bool" and rx tx :: "u16 \<Rightarrow> 'h \<Rightarrow> string" and busy :: "u16 \<Rightarrow> 'h \<Rightarrow> nat" +
  assumes probe: "bus_in B 0x3f8 (bus_out B 0x0a 0x3f8 (bus_out B (MC_RTS OR MC_LOOP) (0x3f8 + POFF_MODEMCTL) h)) = (v, h1) \<Longrightarrow>
      h2 = bus_out B (MC_DTR OR MC_RTS OR MC_OUT1 OR MC_OUT2) (0x3f8 + POFF_MODEMCTL) h1 \<Longrightarrow>
      v = 0x0a \<and> online 0x3f8 h2 \<and> rx 0x3f8 h2 = rx 0x3f8 h"
    and other_port: "online 0x3f8 h \<Longrightarrow> q < 0x3f8 \<Longrightarrow> online 0x3f8 (bus_out B v q h) \<and> rx 0x3f8 (bus_out B v q h) = rx 0x3f8 h"
begin

text \<open>The effect of writes to other ports.\<close>

definition port_kept :: "('h, 'a) srstate_scheme \<Rightarrow> ('h, 'a) srstate_scheme \<Rightarrow> bool" where
  "port_kept st st' \<longleftrightarrow> (\<exists>h. st' = st\<lparr>hw := h\<rparr> \<and> (online 0x3f8 (hw st) \<longrightarrow> online 0x3f8 h \<and> rx 0x3f8 h = rx 0x3f8 (hw st)))"

lemma port_kept_refl: "port_kept st st"
  unfolding port_kept_def by (rule exI [of _ "hw st"]) simp

lemma port_kept_outb: "port_kept st st' \<Longrightarrow> q < 0x3f8 \<Longrightarrow> port_kept st (outb B v q st')"
  using other_port by (fastforce simp: port_kept_def outb_def)

lemma controller_kept: "port_kept st (fst (init_int_controller B st))"
  unfolding init_int_controller_def pic_init_def pic_init_single_def pic_set_mask_def Let_def split fst_conv
  by (intro port_kept_outb port_kept_refl) (simp_all add: PORT_PIC_MASTER_CMD_def PORT_PIC_SLAVE_CMD_def PORT_PIC_MASTER_DATA_def PORT_PIC_SLAVE_DATA_def)

lemma timer_kept: "port_kept st (fst (init_timer_interrupt B st))"
  unfolding init_timer_interrupt_def pit_set_irq_freq_def pit_send_cmd_def Let_def split fst_conv
  by (intro port_kept_outb port_kept_refl) (simp_all add: PIT_PORT_CH0_def PIT_PORT_MODE_CMD_def PIT_CH_IRQ_def)

lemma start_kept:
  "\<exists>h. fst (init_timer_interrupt B (fst (init_int_controller B st))) = st\<lparr>hw := h\<rparr> \<and>
    (online 0x3f8 (hw st) \<longrightarrow> online 0x3f8 h \<and> rx 0x3f8 h = rx 0x3f8 (hw st))"
  using controller_kept [of st] timer_kept [of "fst (init_int_controller B st)"] by (auto simp: port_kept_def)

lemma open_serial1:
  fixes st :: "('h, 'a) ttystate_scheme"
  assumes "chrdev_drivers st ! MAJ_SERIAL = Some SerialDrv" "s_port (serials st ! 0) = 0"
  shows "\<exists>h g. file_open_dev (munix_drivers B) (MAKEDEV (of_nat MAJ_SERIAL) 1) st =
      (g, st\<lparr>serials := (serials st)[0 := (serials st ! 0)\<lparr>s_port := 0x3f8\<rparr>], hw := h\<rparr>, 0) \<and>
    f_op g = Some SerialDrv \<and> f_driver_data g = Some 0 \<and> online 0x3f8 h \<and> rx 0x3f8 h = rx 0x3f8 (hw st)"
proof -
  obtain v h1 where h1: "bus_in B 0x3f8 (bus_out B 0x0a 0x3f8 (bus_out B (MC_RTS OR MC_LOOP) (0x3f8 + POFF_MODEMCTL) (hw st))) = (v, h1)"
    by force
  note p = probe [OF h1 refl]
  show ?thesis using p h1 assms(1,2)
    by (intro exI [of _ "bus_out B (MC_DTR OR MC_RTS OR MC_OUT1 OR MC_OUT2) (0x3f8 + POFF_MODEMCTL) h1"]) (simp add: file_open_dev_def file_open_dev_inner_def munix_ops serial_ops_def serial_open_dev_def PORT_NOS_def outb_def inb_def
        MAJ_SERIAL_def MAJORS_MAX_def dev_numbers Let_def)
qed

end

lemma serial_fields: "(s :: serial)\<lparr>s_port := p, s_flags := b\<rparr> = \<lparr>s_port = p, s_flags = b\<rparr>"
  by (cases s) simp

context serial_board
begin

lemma init_log_ok:
  fixes st :: "('h, 'a) machine_scheme"
  assumes "chrdev_drivers st ! MAJ_SERIAL = Some SerialDrv" "s_port (serials st ! 0) = 0" "serials st \<noteq> []"
  shows "\<exists>h g. init_log (munix_drivers B) st =
      (st\<lparr>serials := (serials st)[0 := \<lparr>s_port = 0x3f8, s_flags = SRL_ICRNL OR SRL_OCRNL\<rparr>], hw := h, serial1 := g, log_set := True\<rparr>, 0) \<and>
    f_op g = Some SerialDrv \<and> f_driver_data g = Some 0 \<and> online 0x3f8 h \<and> rx 0x3f8 h = rx 0x3f8 (hw st)"
proof -
  obtain h g where o: "file_open_dev (munix_drivers B) (MAKEDEV (of_nat MAJ_SERIAL) 1) st =
      (g, st\<lparr>serials := (serials st)[0 := (serials st ! 0)\<lparr>s_port := 0x3f8\<rparr>], hw := h\<rparr>, 0)"
    "f_op g = Some SerialDrv" "f_driver_data g = Some 0" "online 0x3f8 h" "rx 0x3f8 h = rx 0x3f8 (hw st)"
    using open_serial1 [OF assms(1,2)] by blast
  have "init_log (munix_drivers B) st =
      (st\<lparr>serials := (serials st)[0 := \<lparr>s_port = 0x3f8, s_flags = SRL_ICRNL OR SRL_OCRNL\<rparr>], hw := h, serial1 := g, log_set := True\<rparr>, 0)"
    using o(1-3) assms(3)
    by (simp add: init_log_def file_ioctl_def has_op_def munix_ops serial_ops_def serial_ioctl_def SRL_GETFLAGS_def SRL_SETFLAGS_def serial_fields)
  then show ?thesis using o(2-5) by blast
qed

end

section \<open>The page map of the kernel\<close>

lemma init_cpu_pm_on:
  assumes "cr0 st AND CR0_PG = 0" "pme_paddr root PM_LVL_ROOT \<noteq> 0"
  shows "init_cpu_pm root st = (st\<lparr>cr4 := cr4 st AND NOT (CR4_PAE OR CR4_PSE), cr3 := root, cr0 := cr0 st OR CR0_PG\<rparr>, 0)"
  using assms by (simp add: init_cpu_pm_def intr_setenabled_def intr_isenabled_def Let_def)

lemma kernel_translation:
  assumes "\<forall>q<2 ^ 20. walk st root q = (if q < 1024 then Some (ident_entry 0 q) else None)" "q < 2 ^ 20"
  shows "translation st root q = (if q < 1024 then Some (of_nat q * PAGESZ, 0) else None)"
proof -
  have "ident_entry 0 q AND (PME_USER OR PME_W) = 0" "pme_paddr (ident_entry 0 q) 2 = of_nat q * PAGESZ"
    using ident_entry_bits [OF assms(2), of 0] by simp_all
  moreover have "ident_entry 0 q AND x AND (PME_USER OR PME_W) = (ident_entry 0 q AND (PME_USER OR PME_W)) AND x" for x by (simp only: ac_simps)
  ultimately show ?thesis using assms by (simp add: translation_def)
qed

definition kernel_map :: "pmstate \<Rightarrow> u32 \<Rightarrow> bool" where
  "kernel_map st root \<longleftrightarrow> wf_pm st \<and> (\<forall>q<2 ^ 20. translation st root q = (if q < 1024 then Some (of_nat q * PAGESZ, 0) else None))"

lemma init_pm_ok:
  assumes "wf_pm (pm st)" "used (pm st) + 2 \<le> PHYSPAGES_MAX" "kernel_addrspc st = 0" "cr0 st AND CR0_PG = 0"
  shows "\<exists>pm' root. init_pm st = Some (st\<lparr>pm := pm', kernel_addrspc := root, cr4 := cr4 st AND NOT (CR4_PAE OR CR4_PSE), cr3 := root, cr0 := cr0 st OR CR0_PG\<rparr>, 0) \<and>
    kernel_map pm' root \<and> used pm' = used (pm st) + 2"
proof -
  obtain pm' root where i: "addrspc_init (pm st) 0 = Some (pm', root, 0)" "space_grows (pm st) 0 pm' root" "page_addr root" "root \<noteq> 0"
    "used pm' = used (pm st) + 2" "\<forall>q<2 ^ 20. walk pm' root q = (if q < 1024 then Some (ident_entry 0 q) else None)"
    using addrspc_init_ok [OF assms(1,2)] by blast
  have "pme_paddr root PM_LVL_ROOT \<noteq> 0"
    using i(3,4) by (simp add: pme_paddr_page)
  then have "init_pm st = Some (st\<lparr>pm := pm', kernel_addrspc := root, cr4 := cr4 st AND NOT (CR4_PAE OR CR4_PSE), cr3 := root, cr0 := cr0 st OR CR0_PG\<rparr>, 0)"
    using i(1) assms(3,4) by (simp add: init_pm_def init_cpu_pm_on)
  moreover have "kernel_map pm' root" using i(2) kernel_translation [OF i(6)] by (simp add: kernel_map_def space_grows_def)
  ultimately show ?thesis using i(5) by blast
qed

text \<open>An address space without a page map is refused when paging is off, but interrupts are left disabled.\<close>

lemma init_cpu_pm_no_root:
  "cr0 st AND CR0_PG = 0 \<Longrightarrow> pme_paddr root PM_LVL_ROOT = 0 \<Longrightarrow> init_cpu_pm root st = (st\<lparr>intr_flag := False\<rparr>, err EINVAL)"
  by (simp add: init_cpu_pm_def intr_setenabled_def Let_def)

lemma init_cpu_pm_pae:
  "cr0 st AND CR0_PG \<noteq> 0 \<Longrightarrow> cr4 st AND CR4_PAE \<noteq> 0 \<Longrightarrow> init_cpu_pm root st = (st, err ENOTSUP)"
  by (simp add: init_cpu_pm_def intr_setenabled_def intr_isenabled_def Let_def)

section \<open>From the boot loader to the shell\<close>

text \<open>The static variables of the kernel when the boot loader starts it: nothing is registered, mounted, allocated or running, and paging is off.\<close>

definition cold :: "('h, 'a) machine_scheme \<Rightarrow> bool" where
  "cold st \<longleftrightarrow> chrdev_drivers st = replicate MAJORS_MAX None \<and> fs_drivers st = replicate FSTYPES_MAX None \<and>
    superblocks st = replicate SB_MAX superblock0 \<and> clist (vfs_mount_list st) MountHead [] \<and> ramdisks st = replicate RAMDISKS_MAX ramdisk0 \<and>
    cfdatas st = replicate MAX_CPIO_OPEN cfdata0 \<and> serials st = replicate 2 \<lparr>s_port = 0, s_flags = 0\<rparr> \<and> ttys st = replicate TTY_CT tty0 \<and>
    kfiles st \<noteq> [] \<and> pm st = pm0 \<and> kernel_addrspc st = 0 \<and> pcb st = replicate PROCESS_MAX process0 \<and> next_pid st = 1 \<and>
    tcb st = replicate THREAD_MAX thread0 \<and> current_thread st = None \<and> sched_idle st \<and> cr0 st AND CR0_PG = 0 \<and> m_cpu st = cpu0 (m_cpu st)"

text \<open>
  What a boot loader hands over: a well-formed list of tags at address \<open>info\<close> of memory \<open>m\<close>, the last module of which, from \<open>lo\<close> to \<open>hi\<close> in the part of
  memory that the kernel maps but outside the area in which it will build its page tables, holds an archive with the entries \<open>es\<close> and a root.
\<close>

definition boot_image :: "mem \<Rightarrow> u32 \<Rightarrow> u32 \<Rightarrow> u32 \<Rightarrow> centry list \<Rightarrow> bool" where
  "boot_image m info lo hi es \<longleftrightarrow> good_entries es \<and> ''.'' \<in> ce_name ` set es \<and> outside_tables (unat lo) (unat hi) \<and>
    (\<exists>reserved xs c ys rest. let ts = xs @ Tag_module lo hi c # ys in
       holds m (unat info) (mb2_bytes reserved ts) \<and> length reserved = 4 \<and> (\<forall>t\<in>set ts. tag_ok t) \<and>
       unat info + length (mb2_bytes reserved ts) < 2 ^ 32 \<and> (\<forall>t\<in>set ys. \<not> (\<exists>s e c. t = Tag_module s e c)) \<and>
       0 < lo \<and> lo < hi \<and> unat hi \<le> USER_LOW \<and> mem_read m (unat lo) (unat (hi - lo)) = archive es @ rest)"

text \<open>The state in which the kernel starts its shell; \<open>st0\<close> is that in which it was started. The input at the first serial port is still pending.\<close>

definition booted ::
    "layout \<Rightarrow> (u16 \<Rightarrow> 'h \<Rightarrow> bool) \<Rightarrow> (u16 \<Rightarrow> 'h \<Rightarrow> string) \<Rightarrow> u32 \<Rightarrow> u32 \<Rightarrow> centry list \<Rightarrow> ('h, 'a) machine_scheme \<Rightarrow> ('h, 'a) machine_scheme \<Rightarrow> bool" where
  "booted L online rx lo hi es st0 st \<longleftrightarrow>
    chrdev_drivers st = [None, None, Some SerialDrv, Some TtyDrv, Some RamdiskDrv] \<and> fs_drivers st ! FS_CPIO = Some CpioFsDrv \<and>
    initrd_mounted st es \<and> ramdisks st = (replicate RAMDISKS_MAX ramdisk0)[0 := \<lparr>rd_addr = unat lo, rd_size = unat hi - unat lo, rd_name = ''initrd''\<rparr>] \<and>
    unat lo \<le> unat hi \<and> unat hi \<le> USER_LOW \<and> outside_tables (unat lo) (unat hi) \<and>
    kernel_map (pm st) (cr3 st) \<and> used (pm st) = 2 \<and> cr3 st = kernel_addrspc st \<and> cr0 st AND CR0_PG \<noteq> 0 \<and> cr4 st AND CR4_PAE = 0 \<and>
    m_cpu st = kernel_cpu L (m_cpu st0) \<and> intr_flag st \<and>
    serials st = [\<lparr>s_port = 0x3f8, s_flags = SRL_ICRNL OR SRL_OCRNL\<rparr>, \<lparr>s_port = 0, s_flags = 0\<rparr>] \<and> online 0x3f8 (hw st) \<and> rx 0x3f8 (hw st) = rx 0x3f8 (hw st0) \<and>
    f_op (serial1 st) = Some SerialDrv \<and> log_set st \<and>
    kmem st = kmem st0 \<and> cfdatas st = cfdatas st0 \<and> ttys st = ttys st0 \<and> kfiles st = kfiles st0 \<and> pcb st = pcb st0 \<and> next_pid st = next_pid st0 \<and>
    tcb st = tcb st0 \<and> current_thread st = None \<and> sched_idle st"

lemma paging_bits: "(x OR CR0_PG) AND CR0_PG \<noteq> 0" "(y AND NOT (CR4_PAE OR CR4_PSE)) AND CR4_PAE = 0"
proof -
  have "(x OR CR0_PG) AND CR0_PG = CR0_PG" by (rule bit_word_eqI) (auto simp: bit_simps)
  then show "(x OR CR0_PG) AND CR0_PG \<noteq> 0" by (simp add: CR0_PG_def)
  show "(y AND NOT (CR4_PAE OR CR4_PSE)) AND CR4_PAE = 0" by (rule bit_word_eqI) (auto simp: bit_simps)
qed

text \<open>The boot information that is read from such memory.\<close>

lemma boot_image_info:
  assumes "boot_image m info lo hi es"
  shows "\<exists>b log rest. read_boot_info m MULTIBOOT2_BOOTLOADER_MAGIC info b0 = Some (b, log, 0) \<and> initrd_addr b = unat lo \<and> 0 < unat lo \<and>
    unat lo + initrd_size b = unat hi \<and> 0 < initrd_size b \<and> unat hi \<le> USER_LOW \<and> mem_read m (initrd_addr b) (initrd_size b) = archive es @ rest"
proof -
  obtain reserved xs c ys rest where i: "let ts = xs @ Tag_module lo hi c # ys in
      holds m (unat info) (mb2_bytes reserved ts) \<and> length reserved = 4 \<and> (\<forall>t\<in>set ts. tag_ok t) \<and>
       unat info + length (mb2_bytes reserved ts) < 2 ^ 32 \<and> (\<forall>t\<in>set ys. \<not> (\<exists>s e c. t = Tag_module s e c)) \<and>
       0 < lo \<and> lo < hi \<and> unat hi \<le> USER_LOW \<and> mem_read m (unat lo) (unat (hi - lo)) = archive es @ rest"
    using assms unfolding boot_image_def by blast
  define ts where "ts = xs @ Tag_module lo hi c # ys"
  have ts: "holds m (unat info) (mb2_bytes reserved ts)" "length reserved = 4"
      "\<forall>t\<in>set ts. tag_ok t" "unat info + length (mb2_bytes reserved ts) < 2 ^ 32" "\<forall>t\<in>set ys. \<not> (\<exists>s e c. t = Tag_module s e c)"
      "0 < lo" "lo < hi" "unat hi \<le> USER_LOW" "mem_read m (unat lo) (unat (hi - lo)) = archive es @ rest"
    using i unfolding Let_def ts_def by blast+
  have sz: "unat (hi - lo) = unat hi - unat lo" "unat lo < unat hi" "0 < unat lo"
    using ts(6,7) by (simp_all add: unat_sub word_less_nat_alt word_le_nat_alt)
  let ?b = "foldl tag_effect b0 ts"
  have "initrd_addr ?b = unat lo" "initrd_size ?b = unat (hi - lo)" using initrd_last_module [OF ts(5)] unfolding ts_def by blast+
  then show ?thesis using read_boot_info_holds [OF ts(1-4)] ts(8,9) sz by (intro exI [of _ ?b]) auto
qed

lemma init_drivers:
  fixes st :: "('h, 'a) machine_scheme"
  assumes "chrdev_drivers st = (replicate MAJORS_MAX None)[MAJ_SERIAL := Some SerialDrv]" "fs_drivers st = replicate FSTYPES_MAX None"
  shows "fst (init_driver_cpiofs (fst (init_driver_tty (fst (init_driver_ramdisk st))))) =
    st\<lparr>chrdev_drivers := [None, None, Some SerialDrv, Some TtyDrv, Some RamdiskDrv], fs_drivers := (fs_drivers st)[FS_CPIO := Some CpioFsDrv]\<rparr>"
  using assms by (simp add: init_driver_cpiofs_def init_driver_tty_def init_driver_ramdisk_def chrdev_register_def chrdev_register_inner_def
      fs_register_def fs_register_inner_def MAJ_SERIAL_def MAJ_TTY_def MAJ_RAMDISK_def MAJORS_MAX_def FS_CPIO_def FSTYPES_MAX_def numeral_eq_Suc)

text \<open>The state before the RAM disk is mounted.\<close>

definition prepared ::
    "layout \<Rightarrow> u32 \<Rightarrow> 'h \<Rightarrow> vfile \<Rightarrow> boot_info \<Rightarrow> pmstate \<Rightarrow> u32 \<Rightarrow> ('h, 'a) machine_scheme \<Rightarrow> ('h, 'a) machine_scheme" where
  "prepared L info h g b pm' root st = st\<lparr>mb2_magic := MULTIBOOT2_BOOTLOADER_MAGIC, mb2_boot_info := info,
     serials := [\<lparr>s_port = 0x3f8, s_flags = SRL_ICRNL OR SRL_OCRNL\<rparr>, \<lparr>s_port = 0, s_flags = 0\<rparr>], hw := h, serial1 := g, log_set := True,
     m_boot_info := b, m_cpu := kernel_cpu L (m_cpu st), pm := pm', kernel_addrspc := root,
     cr4 := cr4 st AND NOT (CR4_PAE OR CR4_PSE), cr3 := root, cr0 := cr0 st OR CR0_PG,
     chrdev_drivers := [None, None, Some SerialDrv, Some TtyDrv, Some RamdiskDrv], fs_drivers := (fs_drivers st)[FS_CPIO := Some CpioFsDrv]\<rparr>"

definition shell_after ::
    "'h bus \<Rightarrow> locals \<Rightarrow> u8 list \<Rightarrow> ('h, 'a) machine_scheme \<Rightarrow> (('h, 'a) machine_scheme \<times> control) option" where
  "shell_after B lc irqs st =
    Option.bind (kernel_irqs B (munix_drivers B) irqs st) (\<lambda>(st, ctl). case ctl of
        Return _ \<Rightarrow> Option.bind (kshell_init_run (munix_drivers B) lc st) (\<lambda>(st, ctl).
          case ctl of Return _ \<Rightarrow> kernel_noreturn (munix_drivers B) lc st | _ \<Rightarrow> Some (st, ctl))
      | _ \<Rightarrow> Some (st, ctl))"

lemma timer_undefined:
  assumes "current_thread st = None"
  shows "\<exists>st'. kernel_irqs B (munix_drivers B) (IVEC_IRQ_0 # irqs) st = Some (st', Undefined_behaviour)"
proof -
  let ?s = "fst (pic_send_eoi B 0 (st\<lparr>irq_cts := (irq_cts st)[0 := irq_cts st ! 0 + 1]\<rparr>))"
  have "current_thread ?s = None" using assms by (simp add: pic_send_eoi_def outb_def Let_def)
  then have "thread_preempt ?s = Some (?s, Undefined_behaviour)" by (simp add: thread_preempt_def)
  then show ?thesis using irq_dispatch [of 0 B "munix_drivers B" st] by (simp add: handle_irq_def IRQ_TIMER_def IRQ_MAX_def)
qed

lemma kernel_prepares:
  fixes st :: "('h, 'a) machine_scheme"
  assumes board: "serial_board B online rx tx busy" and cold: "cold st"
    and r: "read_boot_info (kmem st) MULTIBOOT2_BOOTLOADER_MAGIC info (m_boot_info st) = Some (b, log, 0)"
  shows "\<exists>h g pm' root. \<forall>irqs. start_mb2 B (munix_drivers B) L lc irqs MULTIBOOT2_BOOTLOADER_MAGIC info st =
      Option.bind (mount_initrd (munix_drivers B) b (prepared L info h g b pm' root st)) (\<lambda>(st, _).
        shell_after B lc irqs (intr_setenabled True (fst (init_timer_interrupt B (fst (init_int_controller B st)))))) \<and>
    f_op g = Some SerialDrv \<and> online 0x3f8 h \<and> rx 0x3f8 h = rx 0x3f8 (hw st) \<and> kernel_map pm' root \<and> used pm' = 2"
proof -
  let ?s0 = "st\<lparr>mb2_magic := MULTIBOOT2_BOOTLOADER_MAGIC, mb2_boot_info := info, chrdev_drivers := (chrdev_drivers st)[MAJ_SERIAL := Some SerialDrv]\<rparr>"
  have d1: "init_driver_serial (st\<lparr>mb2_magic := MULTIBOOT2_BOOTLOADER_MAGIC, mb2_boot_info := info\<rparr>) = (?s0, 2)"
    using cold by (simp add: cold_def init_driver_serial_def chrdev_register_def chrdev_register_inner_def MAJ_SERIAL_def MAJORS_MAX_def)
  define ser where "ser = [\<lparr>s_port = 0x3f8, s_flags = SRL_ICRNL OR SRL_OCRNL\<rparr>, \<lparr>s_port = 0, s_flags = 0\<rparr>]"
  have ser: "(serials st)[0 := \<lparr>s_port = 0x3f8, s_flags = SRL_ICRNL OR SRL_OCRNL\<rparr>] = ser"
    using cold by (simp add: cold_def ser_def numeral_eq_Suc)
  obtain h g where l: "init_log (munix_drivers B) ?s0 = (?s0\<lparr>serials := ser, hw := h, serial1 := g, log_set := True\<rparr>, 0)"
      "f_op g = Some SerialDrv" "online 0x3f8 h" "rx 0x3f8 h = rx 0x3f8 (hw st)"
    using serial_board.init_log_ok [OF board, of ?s0] cold ser by (auto simp: cold_def MAJ_SERIAL_def MAJORS_MAX_def)
  let ?s2 = "?s0\<lparr>serials := ser, hw := h, serial1 := g, log_set := True, m_boot_info := b, m_cpu := kernel_cpu L (m_cpu st)\<rparr>"
  have c: "fst (init_cpu L (m_cpu st)) = kernel_cpu L (m_cpu st)" using cold by (simp add: kernel_cpu_def cold_def)
  define c4 where "c4 = cr4 st AND NOT (CR4_PAE OR CR4_PSE)"
  obtain pm' root where p: "init_pm ?s2 = Some (?s2\<lparr>pm := pm', kernel_addrspc := root, cr4 := c4, cr3 := root, cr0 := cr0 st OR CR0_PG\<rparr>, 0)"
      "kernel_map pm' root" "used pm' = 2"
    using init_pm_ok [of ?s2] cold pm0_wf(1) by (auto simp: cold_def used_pm0 PHYSPAGES_MAX_def c4_def)
  let ?s3 = "?s2\<lparr>pm := pm', kernel_addrspc := root, cr4 := c4, cr3 := root, cr0 := cr0 st OR CR0_PG\<rparr>"
  have d2: "fst (init_driver_cpiofs (fst (init_driver_tty (fst (init_driver_ramdisk ?s3))))) = prepared L info h g b pm' root st"
    using init_drivers [of ?s3] cold by (simp add: cold_def prepared_def c4_def ser_def)
  have mb: "m_boot_info (prepared L info h g b pm' root st) = b" by (simp add: prepared_def)
  show ?thesis
    using d1 l r p d2 c mb by (intro exI [of _ h] exI [of _ g] exI [of _ pm'] exI [of _ root]) (simp add: start_mb2_def kernel_main_def shell_after_def Let_def split_beta)
qed

lemma kernel_start:
  fixes st :: "('h, 'a) machine_scheme"
  assumes board: "serial_board B online rx tx busy" and cold: "cold st" and image: "boot_image (kmem st) info lo hi es"
  shows "\<exists>st'. (\<forall>irqs. start_mb2 B (munix_drivers B) L lc irqs MULTIBOOT2_BOOTLOADER_MAGIC info st = shell_after B lc irqs st') \<and>
    booted L online rx lo hi es st st'"
proof -
  obtain b log rest where b: "read_boot_info (kmem st) MULTIBOOT2_BOOTLOADER_MAGIC info (m_boot_info st) = Some (b, log, 0)"
      "initrd_addr b = unat lo" "0 < unat lo" "unat lo + initrd_size b = unat hi" "0 < initrd_size b" "unat hi \<le> USER_LOW" "mem_read (kmem st) (initrd_addr b) (initrd_size b) = archive es @ rest"
    using boot_image_info [OF image] by blast
  have ot: "outside_tables (unat lo) (unat hi)" using image by (simp add: boot_image_def)
  obtain h g pm' root where p: "\<forall>irqs. start_mb2 B (munix_drivers B) L lc irqs MULTIBOOT2_BOOTLOADER_MAGIC info st =
      Option.bind (mount_initrd (munix_drivers B) b (prepared L info h g b pm' root st)) (\<lambda>(st, _).
        shell_after B lc irqs (intr_setenabled True (fst (init_timer_interrupt B (fst (init_int_controller B st))))))"
      "f_op g = Some SerialDrv" "online 0x3f8 h" "rx 0x3f8 h = rx 0x3f8 (hw st)" "kernel_map pm' root" "used pm' = 2"
    using kernel_prepares [OF board cold b(1)] by blast
  define s4 where "s4 = prepared L info h g b pm' root st"
  define rd where "rd = (replicate RAMDISKS_MAX ramdisk0)[0 := \<lparr>rd_addr = unat lo, rd_size = unat hi - unat lo, rd_name = ''initrd''\<rparr>]"
  have rd: "(replicate RAMDISKS_MAX ramdisk0)[0 := \<lparr>rd_addr = initrd_addr b, rd_size = initrd_size b, rd_name = ''initrd''\<rparr>] = rd"
    unfolding rd_def b(2) b(4) [symmetric] by simp
  have "fresh_fs s4" using cold by (simp add: s4_def prepared_def cold_def fresh_fs_def MAJ_RAMDISK_def FS_CPIO_def FSTYPES_MAX_def)
  moreover have "initrd_addr b \<noteq> 0" "initrd_size b < 2 ^ 31" "mem_read (kmem s4) (initrd_addr b) (initrd_size b) = archive es @ rest"
    and rs: "ramdisks s4 = replicate RAMDISKS_MAX ramdisk0"
    using b cold by (simp_all add: s4_def prepared_def cold_def USER_LOW_def)
  ultimately obtain s5 sbs vml where m: "mount_initrd (munix_drivers B) b s4 = Some (s5, 0)" "initrd_mounted s5 es"
      "s5 = s4\<lparr>superblocks := sbs, vfs_mount_list := vml, ramdisks := rd\<rparr>"
    using mount_initrd_fresh [of s4 b es rest B] b(5) image unfolding rs rd boot_image_def by blast
  obtain h' where k: "fst (init_timer_interrupt B (fst (init_int_controller B s5))) = s5\<lparr>hw := h'\<rparr>"
      "online 0x3f8 (hw s5) \<longrightarrow> online 0x3f8 h' \<and> rx 0x3f8 h' = rx 0x3f8 (hw s5)"
    using serial_board.start_kept [OF board, of s5] by blast
  note s5 = m(3) [unfolded s4_def prepared_def]
  let ?st' = "s5\<lparr>hw := h', intr_flag := True\<rparr>"
  have "initrd_mounted ?st' es" using m(2) by (simp add: initrd_mounted_def mounts_ok_def disk_ok_def disk_content_def)
  moreover have "online 0x3f8 (hw ?st')" "rx 0x3f8 (hw ?st') = rx 0x3f8 (hw st)" using k(2) p(3,4) by (simp_all add: s5)
  moreover have "sched_idle ?st'" by (rule sched_idle_cong [of st]) (use cold in \<open>simp_all add: s5 cold_def\<close>)
  moreover have "cr0 ?st' AND CR0_PG \<noteq> 0" "cr4 ?st' AND CR4_PAE = 0"
    using paging_bits(1) [of "cr0 st"] paging_bits(2) [of "cr4 st"] by (simp_all add: s5)
  moreover have "unat lo \<le> unat hi" using b(4) by simp
  ultimately have "booted L online rx lo hi es st ?st'"
    using p(2,5,6) cold b(6) ot unfolding booted_def by (simp add: s5 rd_def cold_def FS_CPIO_def FSTYPES_MAX_def)
  then show ?thesis using p(1) m(1) k(1) unfolding s4_def [symmetric] by (auto simp: intr_setenabled_def)
qed

interpretation board8250: serial_board uart_bus "\<lambda>p u. p = 0x3f8 \<and> \<not> u_loop u" "\<lambda>p. u_rx" "\<lambda>p. u_tx" "\<lambda>p. u_busy"
proof
  fix h v h1 h2
  assume "bus_in uart_bus 0x3f8 (bus_out uart_bus 0x0a 0x3f8 (bus_out uart_bus (MC_RTS OR MC_LOOP) (0x3f8 + POFF_MODEMCTL) h)) = (v, h1)"
    "h2 = bus_out uart_bus (MC_DTR OR MC_RTS OR MC_OUT1 OR MC_OUT2) (0x3f8 + POFF_MODEMCTL) h1"
  then show "v = 0x0a \<and> (0x3f8 = (0x3f8 :: u16) \<and> \<not> u_loop h2) \<and> u_rx h2 = u_rx h"
    by (auto simp: uart_bus_def uart_in_def uart_out_def POFF_MODEMCTL_def POFF_LINESTAT_def MC_RTS_def MC_LOOP_def MC_DTR_def MC_OUT1_def MC_OUT2_def)
next
  fix h :: uart8250 and q v assume "0x3f8 = (0x3f8 :: u16) \<and> \<not> u_loop h" "q < (0x3f8 :: u16)"
  then show "(0x3f8 = (0x3f8 :: u16) \<and> \<not> u_loop (bus_out uart_bus v q h)) \<and> u_rx (bus_out uart_bus v q h) = u_rx h"
    by (auto simp: uart_bus_def uart_out_def POFF_MODEMCTL_def)
qed

text \<open>
  Property C2. The kernel comes up. Started by the boot loader on a cold machine with an archive as the last boot module, the kernel runs its shell in a state where every
  driver is registered, the archive is mounted as the root, paging is on with the kernel's own page map, which translates the first four megabytes to themselves without rights for user code, the
  descriptor tables are loaded, interrupts are enabled, and the first serial port works with the newline translation of the log and its input still pending; memory outside the page tables, processes and
  threads are as before. This holds when no interrupt arrives before the shell starts, and if the shell returns, it is started again. A timer interrupt that arrives first makes the start undefined, because its handler
  preempts a thread that does not exist.
\<close>

theorem kernel_boots:
  fixes st :: "('h, 'a) machine_scheme"
  assumes "serial_board B online rx tx busy" "cold st" "boot_image (kmem st) info lo hi es"
  shows "\<exists>st'. booted L online rx lo hi es st st' \<and>
    start_mb2 B (munix_drivers B) L lc [] MULTIBOOT2_BOOTLOADER_MAGIC info st =
      Option.bind (kshell_init_run (munix_drivers B) lc st') (\<lambda>(st, ctl).
        case ctl of Return _ \<Rightarrow> kernel_noreturn (munix_drivers B) lc st | _ \<Rightarrow> Some (st, ctl)) \<and>
    (\<forall>irqs. \<exists>st''. start_mb2 B (munix_drivers B) L lc (IVEC_IRQ_0 # irqs) MULTIBOOT2_BOOTLOADER_MAGIC info st = Some (st'', Undefined_behaviour))"
proof -
  obtain st' where s: "\<And>irqs. start_mb2 B (munix_drivers B) L lc irqs MULTIBOOT2_BOOTLOADER_MAGIC info st = shell_after B lc irqs st'"
      "booted L online rx lo hi es st st'"
    using kernel_start [OF assms] by blast
  have "current_thread st' = None" using s(2) by (simp add: booted_def)
  then have "\<exists>st''. start_mb2 B (munix_drivers B) L lc (IVEC_IRQ_0 # irqs) MULTIBOOT2_BOOTLOADER_MAGIC info st = Some (st'', Undefined_behaviour)" for irqs
    using timer_undefined [of st' B irqs] unfolding s(1) shell_after_def by (auto simp del: kernel_irqs.simps)
  then show ?thesis using s(2) unfolding s(1) by (auto simp: shell_after_def)
qed

text \<open>A small machine: the archive has one program, and the line \<open>prog a\<close> waits at the serial port, ended by a carriage return.\<close>

definition disk_end :: u32 where "disk_end = 0x4000 + of_nat (length (archive [root_entry, prog_entry]))"

definition boot_memory :: mem where
  "boot_memory = mem_write (mem_write (\<lambda>_. NUL) 64 (mb2_bytes ''....'' [Tag_module 0x4000 disk_end ''initrd'', Tag_end])) 0x4000 (archive [root_entry, prog_entry])"

definition cold_machine :: "uart8250 machine" where
  "cold_machine = \<lparr>chrdev_drivers = replicate MAJORS_MAX None, fs_drivers = replicate FSTYPES_MAX None, superblocks = replicate SB_MAX superblock0,
    vfs_mount_list = INIT_LIST_HEAD \<lparr>lh_next = (\<lambda>x. None), lh_prev = (\<lambda>x. None)\<rparr> MountHead, ramdisks = replicate RAMDISKS_MAX ramdisk0,
    kmem = boot_memory, cfdatas = replicate MAX_CPIO_OPEN cfdata0, serials = replicate 2 \<lparr>s_port = 0, s_flags = 0\<rparr>,
    hw = \<lparr>u_rx = ''prog a'' @ [CHR 0x0d], u_tx = [], u_busy = 0, u_loop = False, u_lb = 0\<rparr>, ttys = replicate TTY_CT tty0,
    kfiles = [file0], pm = pm0, kernel_addrspc = 0, cr3 = 0, tss_ss0 = 0x10, tss_esp0 = 0, pcb = replicate PROCESS_MAX process0, next_pid = 1, current_process = None,
    tcb = replicate THREAD_MAX thread0, next_tid = 1, current_thread = None, kstacks = 0x400000, ready_queue = \<lparr>lh_next = (\<lambda>_. None), lh_prev = (\<lambda>_. None)\<rparr>,
    proc_threads = \<lparr>lh_next = (\<lambda>_. None), lh_prev = (\<lambda>_. None)\<rparr>, irq_cts = replicate 16 0, m_cpu = cpu0 cpu_reset, cr0 = 0x11, cr4 = 0, intr_flag = False,
    serial1 = file0, log_set = False, m_boot_info = boot_info0, mb2_magic = 0, mb2_boot_info = 0\<rparr>"

lemma cold_machine_cold: "cold cold_machine"
proof -
  have "sched_idle cold_machine"
    by (simp add: sched_idle_def cold_machine_def tids_ok_def THREAD_MAX_def live_def thread0_def queue_ok0_def clist0_def INT_MAX_def)
  then show ?thesis by (simp add: cold_def cold_machine_def clist_INIT CR0_PG_def cpu0_def)
qed

lemma disk_end_unat: "unat disk_end = 0x4000 + length (archive [root_entry, prog_entry])" "(0x4000 :: u32) < disk_end" "unat (disk_end - 0x4000) = length (archive [root_entry, prog_entry])"
proof -
  let ?n = "length (archive [root_entry, prog_entry])"
  have n: "unat (of_nat ?n :: u32) = ?n" using prog_length by (intro unat_small) simp
  then show u: "unat disk_end = 0x4000 + ?n" unfolding disk_end_def using prog_length by (subst unat_add_lem [THEN iffD1]) simp_all
  show "unat (disk_end - 0x4000) = ?n" using n by (simp add: disk_end_def)
  have "0 < ?n" by (simp add: archive_def)
  then show "(0x4000 :: u32) < disk_end" unfolding word_less_nat_alt u by simp
qed

lemma boot_memory_image: "boot_image boot_memory 64 0x4000 disk_end [root_entry, prog_entry]"
proof -
  let ?ts = "[] @ Tag_module 0x4000 disk_end ''initrd'' # [Tag_end]"
  have len: "length (mb2_bytes ''....'' ?ts) < 100" by (simp add: mb2_bytes_def tag_room_def tag_size_def)
  have "mem_read boot_memory 64 (length (mb2_bytes ''....'' ?ts)) = mb2_bytes ''....'' ?ts"
    unfolding boot_memory_def using len by (subst mem_read_write_disjoint) (simp_all add: mem_read_write_same)
  then have "holds boot_memory (unat (64 :: u32)) (mb2_bytes ''....'' ?ts)" by (simp add: holds_def)
  moreover have "mem_read boot_memory (unat (0x4000 :: u32)) (unat (disk_end - 0x4000)) = archive [root_entry, prog_entry] @ []"
    unfolding disk_end_unat(3) by (simp add: boot_memory_def mem_read_write_same)
  moreover have "unat disk_end \<le> USER_LOW" using disk_end_unat(1) prog_length by (simp add: USER_LOW_def)
  moreover have "outside_tables (unat (0x4000 :: u32)) (unat disk_end)" using disk_end_unat(1) prog_length by (simp add: outside_tables_def PM_AREA_def)
  moreover have "\<forall>t\<in>set ?ts. tag_ok t" by simp
  moreover have "unat (64 :: u32) + length (mb2_bytes ''....'' ?ts) < 2 ^ 32" using len by simp
  ultimately show ?thesis unfolding boot_image_def Let_def using prog_good disk_end_unat(2)
    by (intro conjI exI [of _ "''....''"] exI [of _ "[]"] exI [of _ "''initrd''"] exI [of _ "[Tag_end]"]) (simp_all add: root_entry_def)
qed

theorem kernel_boots_witness:
  "\<exists>st' :: uart8250 machine. booted layout0 (\<lambda>p u. p = 0x3f8 \<and> \<not> u_loop u) (\<lambda>p. u_rx) 0x4000 disk_end [root_entry, prog_entry] cold_machine st' \<and>
    translation (pm st') (cr3 st') 0x123 = Some (0x123000, 0)"
proof -
  have "boot_image (kmem cold_machine) 64 0x4000 disk_end [root_entry, prog_entry]" using boot_memory_image by (simp add: cold_machine_def)
  from kernel_boots [OF board8250.serial_board_axioms cold_machine_cold this, of layout0 locals0]
  obtain st' where b: "booted layout0 (\<lambda>p u. p = 0x3f8 \<and> \<not> u_loop u) (\<lambda>p. u_rx) 0x4000 disk_end [root_entry, prog_entry] cold_machine st'" by blast
  then have "kernel_map (pm st') (cr3 st')" unfolding booted_def by blast
  then have "translation (pm st') (cr3 st') 0x123 = Some (of_nat 0x123 * PAGESZ, 0)" by (simp add: kernel_map_def)
  then show ?thesis using b by (auto simp: PAGESZ_def)
qed

section \<open>The end of the line\<close>

text \<open>\<open>kernel_noreturn\<close> does not return: when it ends at all, control has gone to user code, to a saved task, or is lost.\<close>

lemma kernel_noreturn_never:
  fixes st :: "('h, 'a) kstate_scheme"
  assumes "kernel_noreturn D lc st = Some r"
  shows "snd r \<noteq> Return res"
proof (rule kernel_noreturn_inner.raw_induct [OF _ assms [unfolded kernel_noreturn_def], where P = "\<lambda>D lc st r. snd r \<noteq> Return res"])
  fix rec :: "('h, 'a) kstate_scheme drivers \<Rightarrow> locals \<Rightarrow> ('h, 'a) kstate_scheme \<Rightarrow> (('h, 'a) kstate_scheme \<times> control) option" and D lc st r
  assume IH: "\<And>D lc st y. rec D lc st = Some y \<Longrightarrow> snd y \<noteq> Return res"
    and r: "Option.bind (kshell_init_run D lc st) (\<lambda>(st, ctl). case ctl of Return res \<Rightarrow> rec D lc st | _ \<Rightarrow> Some (st, ctl)) = Some r"
  then obtain s ctl where s: "kshell_init_run D lc st = Some (s, ctl)" "(case ctl of Return res \<Rightarrow> rec D lc s | _ \<Rightarrow> Some (s, ctl)) = Some r"
    by (auto simp: bind_eq_Some_conv)
  show "snd r \<noteq> Return res" using s(2) IH [of D lc s r] by (cases ctl) auto
qed

end
