(* ===== verification/Running.thy ===== *)
theory Running
  imports Kernel_Main
begin

text \<open>
  The components together: what happens from the start of the machine until a program runs that the user names at the terminal. The shell starts on the
  serial port (\<open>shell_starts\<close>), finds the program of a command line in the mounted archive (\<open>search_bin_finds\<close>), and executes it
  (\<open>exec_program_ok\<close>); \<open>boot_runs_program\<close> composes these steps with the start of the kernel.
\<close>

section \<open>The shell on the serial port\<close>

definition first_shell :: kshell where
  "first_shell = \<lparr>sh_in = 0, sh_out = 0, sh_err = 0, sh_cwd = ''/'', waiting_for_input = False\<rparr>"

definition log_port :: serial where
  "log_port = \<lparr>s_port = 0x3f8, s_flags = SRL_ICRNL OR SRL_OCRNL\<rparr>"

text \<open>The second terminal on the first serial port, which is open already.\<close>

definition open_tty :: "tty \<Rightarrow> vfile \<Rightarrow> tty" where
  "open_tty t p = t\<lparr>portdev := p, ilen := 0, initialized := True\<rparr>"

lemma open_tty1:
  fixes st :: "('h, 'a) kstate_scheme"
  assumes "chrdev_drivers st ! MAJ_TTY = Some TtyDrv" "chrdev_drivers st ! MAJ_SERIAL = Some SerialDrv" "s_port (serials st ! 0) \<noteq> 0"
    and "length (ttys st) = TTY_CT" "\<not> initialized (ttys st ! 1)"
  shows "\<exists>f p. file_open_dev (munix_drivers B) (MAKEDEV (of_nat MAJ_TTY) 1) st = (f, st\<lparr>ttys := (ttys st)[1 := open_tty (ttys st ! 1) p]\<rparr>, 0) \<and>
    f_op f = Some TtyDrv \<and> f_driver_data f = Some 1 \<and> f_op p = Some SerialDrv \<and> f_driver_data p = Some 0"
proof -
  obtain p where p: "file_open_dev (with_serial B no_drivers) (MAKEDEV 2 1) st = (p, st, 0)" "f_op p = Some SerialDrv" "f_driver_data p = Some 0"
    using assms(2,3) by (simp add: file_open_dev_def file_open_dev_inner_def with_serial_def serial_ops_def serial_open_dev_def PORT_NOS_def
        MAJ_SERIAL_def MAJORS_MAX_def dev_numbers Let_def)
  have "upd_tty 1 (\<lambda>t. t\<lparr>ilen := 0, initialized := True\<rparr>) (upd_tty 1 (\<lambda>t. t\<lparr>portdev := p\<rparr>) st) = st\<lparr>ttys := (ttys st)[1 := open_tty (ttys st ! 1) p]\<rparr>"
    using assms(4) by (simp add: upd_tty_def open_tty_def TTY_CT_def)
  then show ?thesis using p assms(1,5)
    by (simp add: file_open_dev_def [of "munix_drivers B"] file_open_dev_inner_def munix_ops tty_ops_def tty_open_dev_def MAJ_TTY_def MAJ_SERIAL_def MAJORS_MAX_def
        TTY_CT_def dev_numbers Let_def) blast
qed

lemma tty_setflags:
  "f_op f = Some TtyDrv \<Longrightarrow> f_driver_data f = Some k \<Longrightarrow>
    file_ioctl (munix_drivers B) f TTY_SETFLAGS fl st = (upd_tty k (\<lambda>t. t\<lparr>t_flags := fl\<rparr>) st, 0)"
  by (simp add: file_ioctl_def has_op_def munix_ops tty_ops_def tty_ioctl_def TTY_GETFLAGS_def TTY_SETFLAGS_def)

definition shell_result :: "('h, 'a) kstate_scheme \<times> control \<Rightarrow> ('h, 'a) kstate_scheme \<times> control" where
  "shell_result = (\<lambda>(st, ctl). (st, case ctl of Return res \<Rightarrow> Return (if res < 0 then res else 0) | _ \<Rightarrow> ctl))"

lemma shell_starts:
  fixes st :: "('h, 'a) kstate_scheme"
  assumes uart: "uart B online rx tx busy" and drv: "chrdev_drivers st ! MAJ_TTY = Some TtyDrv" "chrdev_drivers st ! MAJ_SERIAL = Some SerialDrv"
    and port: "serials st ! 0 = log_port" "online 0x3f8 (hw st)" and tty: "ttys st = replicate TTY_CT tty0" and files: "kfiles st \<noteq> []"
  shows "\<exists>st' f. kshell_init_run (munix_drivers B) lc st = map_option shell_result (kshell_run (munix_drivers B) lc first_shell st') \<and>
    sh_ready online rx first_shell st' (map (ifilter log_port) (rx 0x3f8 (hw st))) \<and> tty_frame (st\<lparr>kfiles := (kfiles st)[0 := f]\<rparr>) st'"
proof -
  have t1: "length (ttys st) = TTY_CT" "ttys st ! 1 = tty0" using tty by (simp_all add: TTY_CT_def)
  obtain f p where o: "file_open_dev (munix_drivers B) (MAKEDEV (of_nat MAJ_TTY) 1) st = (f, st\<lparr>ttys := (ttys st)[1 := open_tty tty0 p]\<rparr>, 0)"
    "f_op f = Some TtyDrv" "f_driver_data f = Some 1" "f_op p = Some SerialDrv" "f_driver_data p = Some 0"
    using open_tty1 [OF drv, of B] port(1) t1 by (auto simp: log_port_def tty0_def)
  let ?s1 = "st\<lparr>ttys := (ttys st)[1 := open_tty tty0 p], kfiles := (kfiles st)[0 := f]\<rparr>" and ?inp = "map (ifilter log_port) (rx 0x3f8 (hw st))"
  have trm: "sh_term online rx first_shell ?s1 ?inp (open_tty tty0 p)"
    using o port files t1(1) by (simp add: sh_term_def first_shell_def sh_tty_def open_tty_def serial_port_def serial_inp_def log_port_def TTY_CT_def)
  let ?banner = "[(KERNEL_NAME @ '' '' @ KERNEL_VERSION @ '' kshell %s'' @ [CHR 0x0a],
      [VStr 0 (take (SH_LINEBUFSZ - 1) (file_debugstr (munix_drivers B) (faddr lc) (Some (kfiles ?s1 ! 0)) ?s1))])]"
  obtain s2 where s2: "sh_printfs (munix_drivers B) 0 ?banner ?s1 = Some s2" "sh_term online rx first_shell s2 ?inp (open_tty tty0 p)" "tty_frame ?s1 s2"
    using sh_printfs_term [OF uart trm, of ?banner] by (auto simp: first_shell_def)
  have kf: "kfiles s2 ! 0 = f" using s2(3) files by (auto simp: tty_frame_def)
  let ?s3 = "upd_tty 1 (\<lambda>t. t\<lparr>t_flags := TTY_ECHO OR TTY_COOKED\<rparr>) s2" and ?t = "(open_tty tty0 p)\<lparr>t_flags := TTY_ECHO OR TTY_COOKED\<rparr>"
  have "sh_term online rx first_shell ?s3 ?inp ?t"
    using s2(2) kf o(2,3) by (simp add: sh_term_def first_shell_def sh_tty_def upd_tty_def serial_port_def serial_inp_def)
  moreover have "tty_ok ?t" "ISCOOKED ?t" "\<not> ibuf_eol ?t" "line ?t = []"
    by (simp_all add: tty_ok_def open_tty_def tty0_def ISCOOKED_def line_def TTY_ECHO_def TTY_COOKED_def)
  ultimately have rdy: "sh_ready online rx first_shell ?s3 ?inp" unfolding sh_ready_def by blast
  have fr: "tty_frame (st\<lparr>kfiles := (kfiles st)[0 := f]\<rparr>) ?s3"
    using s2(3) by (auto simp: tty_frame_def upd_tty_def) blast
  have fs: "sh_out first_shell = 0" "sh_in first_shell = 0" by (simp_all add: first_shell_def)
  have it: "kshell_init_tty (munix_drivers B) lc 0 ?s1 = Some (first_shell, ?s3, 0)"
    unfolding kshell_init_tty_def Let_def first_shell_def [symmetric] fs s2(1) bind.simps kf tty_setflags [OF o(2,3)] split by (simp add: reporterr_def)
  have "kshell_init_run (munix_drivers B) lc st = map_option shell_result (kshell_run (munix_drivers B) lc first_shell ?s3)"
    using o(1) it by (simp add: kshell_init_run_def shell_result_def Let_def)
  then show ?thesis using rdy fr by blast
qed

section \<open>Programs of the archive\<close>

text \<open>
  The command \<open>x\<close> names the program of entry \<open>e\<close> in \<open>/bin\<close> of an archive: it is no built-in command, \<open>/sbin\<close> does not have it, and the entry is a regular file.
\<close>

definition names_program :: "centry list \<Rightarrow> string \<Rightarrow> centry \<Rightarrow> bool" where
  "names_program es x e \<longleftrightarrow> x \<notin> fst ` set KSH_CMDS \<and> x \<noteq> '''' \<and> hd x \<noteq> CHR ''/'' \<and> NUL \<notin> set x \<and> length x < PATH_MAX - 6 \<and>
    ''sbin/'' @ x \<notin> ce_name ` set es \<and> (\<exists>xs ys. es = xs @ e # ys \<and> ce_name e = ''bin/'' @ x \<and> ce_name e \<notin> ce_name ` set xs) \<and>
    cpio_mode_to_dirtype (of_nat (ce_mode e)) = Some DT_REG"

text \<open>The archive can be searched and read, with the slot \<open>k\<close> for the next open file.\<close>

definition searchable :: "('h, 'a) kstate_scheme \<Rightarrow> centry list \<Rightarrow> nat \<Rightarrow> bool" where
  "searchable st es k \<longleftrightarrow> initrd_mounted st es \<and> good_entries es \<and> cfdata_alloc st = Some k \<and> length (cfdatas st) = MAX_CPIO_OPEN"

lemma searchable_slot:
  fixes st :: "('h, 'a) kstate_scheme"
  assumes "searchable st es k" "f_op (af c) = None"
  shows "searchable (st\<lparr>cfdatas := (cfdatas st)[k := c]\<rparr>) es k"
proof -
  have "initrd_mounted (st\<lparr>cfdatas := (cfdatas st)[k := c]\<rparr>) es = initrd_mounted st es"
    by (simp add: initrd_mounted_def mounts_ok_def disk_ok_def disk_content_def)
  then show ?thesis using assms by (simp add: searchable_def cfdata_alloc_again)
qed

lemma join_dir: "x \<noteq> '''' \<Longrightarrow> hd x \<noteq> CHR ''/'' \<Longrightarrow> NUL \<notin> set x \<Longrightarrow> join_text (Some (CHR ''/'' # d @ [c])) (Some x) = CHR ''/'' # (d @ [c] @ (if c = CHR ''/'' then '''' else ''/'') @ x)"
  by (cases x) (simp_all add: ch0_def)

lemma join_bin:
  assumes "x \<noteq> ''''" "hd x \<noteq> CHR ''/''" "NUL \<notin> set x"
  shows "join_text (Some ''/sbin'') (Some x) = CHR ''/'' # (''sbin/'' @ x)" "join_text (Some ''/bin'') (Some x) = CHR ''/'' # (''bin/'' @ x)"
  using join_dir [OF assms, of "''sbi''" "CHR ''n''"] join_dir [OF assms, of "''bi''" "CHR ''n''"] by simp_all

lemma search_bin_finds:
  fixes st :: "('h, 'a) kstate_scheme"
  assumes "searchable st es k" "names_program es x e"
  shows "\<exists>cf. kshell_search_bin (munix_drivers B) sh x st = Some (st\<lparr>cfdatas := cf\<rparr>, Some ''/bin'') \<and> searchable (st\<lparr>cfdatas := cf\<rparr>) es k"
proof -
  have x: "x \<noteq> ''''" "hd x \<noteq> CHR ''/''" "NUL \<notin> set x" "length x < PATH_MAX - 6" "''sbin/'' @ x \<notin> ce_name ` set es"
    and reg: "cpio_mode_to_dirtype (of_nat (ce_mode e)) = Some DT_REG"
    using assms(2) unfolding names_program_def by blast+
  obtain xs ys where e: "es = xs @ e # ys" "ce_name e = ''bin/'' @ x" "ce_name e \<notin> ce_name ` set xs" using assms(2) unfolding names_program_def by blast
  note s = assms(1) [unfolded searchable_def]
  have pl: "plain_name (''sbin/'' @ x)" "plain_name (ce_name e)" using x(4) e(2) by (simp_all add: plain_name_def PATH_MAX_def)
  obtain c where 1: "file_stat (munix_drivers B) (Some ''/sbin'') (Some x) st = Some (None, st\<lparr>cfdatas := (cfdatas st)[k := c]\<rparr>, err ENOENT)" "f_op (af c) = None"
    using initrd_stat_missing [of st es k "''sbin/'' @ x" "Some ''/sbin''" x B] s x(3,5) pl(1) join_bin(1) [OF x(1-3)] by auto
  let ?s1 = "st\<lparr>cfdatas := (cfdatas st)[k := c]\<rparr>"
  note s1 = searchable_slot [OF assms(1) 1(2)]
  obtain fs c' where 2: "file_stat (munix_drivers B) (Some ''/bin'') (Some x) ?s1 = Some (Some fs, ?s1\<lparr>cfdatas := (cfdatas ?s1)[k := c']\<rparr>, 0)"
    "Some (f_type fs) = Some DT_REG" "f_op (af c') = None"
    using initrd_stat [of ?s1 es k xs e ys "Some ''/bin''" x B] s1 [unfolded searchable_def] e pl(2) join_bin(2) [OF x(1-3)] reg by auto
  let ?s2 = "?s1\<lparr>cfdatas := (cfdatas ?s1)[k := c']\<rparr>"
  have "kshell_search_bin (munix_drivers B) sh x st = Some (?s2, Some ''/bin'')"
    using 1(1) 2(1,2) by (simp add: kshell_search_bin_def BIN_PATHS_def reporterr_def)
  moreover have "searchable ?s2 es k" using searchable_slot [OF s1 2(3)] .
  ultimately show ?thesis by (intro exI [of _ "(cfdatas ?s1)[k := c']"]) simp
qed

section \<open>A program runs\<close>

text \<open>
  The program with the bytes \<open>dat\<close> and the segments \<open>phs\<close> runs in slot \<open>p\<close> with the arguments \<open>argv\<close> at the stack pointer \<open>sp\<close>: it is the current process with the only live
  thread, user code has exactly the rights of the program, and memory is \<open>m\<close> with the segments loaded into it and the arguments on the stack.
\<close>

definition program_runs :: "nat \<Rightarrow> string \<Rightarrow> Elf32_Phdr list \<Rightarrow> string list \<Rightarrow> u32 \<Rightarrow> mem \<Rightarrow> ('h, 'a) kstate_scheme \<Rightarrow> bool" where
  "program_runs p dat phs argv sp m st \<longleftrightarrow> current_process st = Some p \<and> (\<exists>i. sched_ring st [i]) \<and>
    (\<forall>q<2 ^ 20. translation (pm st) (cr3 st) q = map_option (\<lambda>r. (of_nat q * PAGESZ, r)) (program_rights phs q)) \<and>
    args_at (kmem st) (unat sp) argv \<and> unat sp = unat USTACK_DFLT - (args_room argv + 4 * (length argv + 2)) \<and>
    (\<forall>a. a < unat sp \<or> unat USTACK_DFLT \<le> a \<longrightarrow> kmem st a = foldl (load_image dat) m phs a)"

lemma exec_program_ok:
  fixes st :: "('h, 'a) kstate_scheme"
  assumes "searchable st es k" "es = xs @ e # ys" "ce_name e \<notin> ce_name ` set xs" "plain_name (ce_name e)"
    and "join_text (Some dir) (Some (argv ! 0)) = CHR ''/'' # ce_name e"
    and "elf_image (ce_data e) eh phs" "\<forall>ph \<in> set phs. in_user_area (ce_data e) ph"
    and "disks_clear st" "process_alloc st = Some p" "p < length (pcb st)" "wf_pm (pm st)" "used (pm st) + 3 \<le> PHYSPAGES_MAX"
    and "sched_idle st" "\<exists>i < THREAD_MAX. tid (tcb st ! i) = 0" "args_room argv + 4 * (length argv + 2) \<le> unat USTACK_DFLT"
  shows "\<exists>st' sp. exec_program (munix_drivers B) lc sh dir argv st = Some (st', cpu_user_start (e_entry eh) sp) \<and>
    program_runs p (ce_data e) phs argv sp (kmem st) st'"
proof -
  note s = assms(1) [unfolded searchable_def]
  let ?m = "foldl (load_image (ce_data e)) (kmem st) phs"
  obtain f pm' root cf where l: "process_load_path (munix_drivers B) (old_ehdr lc) (old_phdr lc) p (Some dir) (argv ! 0) st =
      Some (loaded p ((new_process p (argv ! 0) st)\<lparr>addrspc := root, p_start_addr := e_entry eh, execfile := f\<rparr>) pm' root cf ?m st, 0)"
    "\<forall>q<2 ^ 20. translation pm' root q = map_option (\<lambda>r. (of_nat q * PAGESZ, r)) (program_rights phs q)"
    using process_load_ok [of st es k xs e ys "Some dir" "argv ! 0" eh phs p B "old_ehdr lc" "old_phdr lc"] s assms(2-8,10-12) by blast
  define P where "P = (new_process p (argv ! 0) st)\<lparr>addrspc := root, p_start_addr := e_entry eh, execfile := f\<rparr>"
  define P' where "P' = P\<lparr>fds := (fds P)[0 := Some (sh_in sh), 1 := Some (sh_out sh), 2 := Some (sh_err sh)]\<rparr>"
  let ?s = "loaded p P' pm' root cf ?m st"
  have P': "p_start_addr P' = e_entry eh" "ustack P' = USTACK_DFLT" by (simp_all add: P'_def P_def new_process_def)
  have pcb: "pcb ?s ! p = P'" "p < length (pcb ?s)" using assms(10) by simp_all
  have "sched_idle ?s" by (rule sched_idle_cong [OF assms(13)]) simp_all
  then obtain st' i sp where r: "process_start p argv ?s = Some (st', cpu_user_start (e_entry eh) sp)" "sched_ring st' [i]" "current_process st' = Some p"
      "pm st' = pm'" "cr3 st' = root" "args_at (kmem st') (unat sp) argv" "unat sp = unat USTACK_DFLT - (args_room argv + 4 * (length argv + 2))"
      "\<forall>a. a < unat sp \<or> unat USTACK_DFLT \<le> a \<longrightarrow> kmem st' a = ?m a"
    using process_start_ok [of ?s p argv] assms(14,15) pcb P' by auto
  have "upd_process p (\<lambda>q. q\<lparr>fds := (fds q)[0 := Some (sh_in sh), 1 := Some (sh_out sh), 2 := Some (sh_err sh)]\<rparr>) (loaded p P pm' root cf ?m st) = ?s"
    using assms(10) by (simp add: P'_def)
  then have "exec_program (munix_drivers B) lc sh dir argv st = Some (st', cpu_user_start (e_entry eh) sp)"
    using l(1) r(1) assms(9) by (simp add: exec_program_def reporterr_def P_def [symmetric] cpu_user_start_def)
  then show ?thesis using r l(2) unfolding program_runs_def by auto
qed

text \<open>
  What a kernel needs to run a program that is loaded as \<open>dat\<close>: a free slot \<open>p\<close>, page tables, no live thread, a free thread, and RAM disks outside the memory for programs and for page tables.
\<close>

definition can_run :: "('h, 'a) kstate_scheme \<Rightarrow> nat \<Rightarrow> bool" where
  "can_run st p \<longleftrightarrow> disks_clear st \<and> process_alloc st = Some p \<and> p < length (pcb st) \<and> wf_pm (pm st) \<and>
    used (pm st) + 3 \<le> PHYSPAGES_MAX \<and> sched_idle st \<and> (\<exists>i < THREAD_MAX. tid (tcb st ! i) = 0)"

definition good_program :: "string \<Rightarrow> Elf32_Ehdr \<Rightarrow> Elf32_Phdr list \<Rightarrow> bool" where
  "good_program dat eh phs \<longleftrightarrow> elf_image dat eh phs \<and> (\<forall>ph \<in> set phs. in_user_area dat ph)"

lemma can_run_cong [simp]:
  fixes st :: "('h, 'a) kstate_scheme"
  shows "can_run (st\<lparr>cfdatas := cf\<rparr>) p = can_run st p" "can_run (st\<lparr>kmem := m\<rparr>) p = can_run st p"
proof -
  have "sched_idle s' = sched_idle s" if "tcb s' = tcb s" "next_tid s' = next_tid s" "kstacks s' = kstacks s" "current_thread s' = current_thread s" "ready_queue s' = ready_queue s"
    for s s' :: "('h, 'a) kstate_scheme" using that sched_idle_cong [of s s'] sched_idle_cong [of s' s] by auto
  from this [of "st\<lparr>cfdatas := cf\<rparr>" st] this [of "st\<lparr>kmem := m\<rparr>" st]
  show "can_run (st\<lparr>cfdatas := cf\<rparr>) p = can_run st p" "can_run (st\<lparr>kmem := m\<rparr>) p = can_run st p"
    by (simp_all add: can_run_def disks_clear_def disks_outside_def process_alloc_def)
qed

lemma can_run_tty:
  fixes st :: "('h, 'a) kstate_scheme"
  assumes "can_run st p" "tty_frame st st'"
  shows "can_run st' p"
proof -
  obtain h ts where st': "st' = st\<lparr>hw := h, ttys := ts\<rparr>" using assms(2) by (auto simp: tty_frame_def)
  have "sched_idle st'" by (rule sched_idle_cong [of st]) (use assms(1) in \<open>simp_all add: st' can_run_def\<close>)
  then show ?thesis using assms(1) by (simp add: st' can_run_def disks_clear_def disks_outside_def process_alloc_def)
qed

lemma words_room:
  assumes "length (sh_words s) < SH_ARGVSZ" "length s < SH_LINEBUFSZ"
  shows "args_room (sh_words s) + 4 * (length (sh_words s) + 2) \<le> 0x1000"
proof -
  have "sum_list (map str_room ws) \<le> length ws * 260" if "\<forall>w\<in>set ws. length w < 256" for ws
    using that
  proof (induction ws)
    case (Cons w ws)
    then show ?case using str_room_bounds(2) [of w] by simp
  qed simp
  moreover have "\<forall>w\<in>set (sh_words s). length w < 256" using sh_words_length assms(2) by (fastforce simp: SH_LINEBUFSZ_def)
  ultimately have "args_room (sh_words s) \<le> length (sh_words s) * 260" unfolding args_room_def by blast
  then show ?thesis using assms(1) by (simp add: SH_ARGVSZ_def)
qed

lemma builtin_None: "x \<notin> fst ` set cmds \<Longrightarrow> kshell_search_builtins cmds x = None"
  by (auto simp: kshell_search_builtins_def find_None_iff image_iff)

lemma line_runs_program:
  fixes st :: "('h, 'a) kstate_scheme"
  assumes "searchable st es k" "names_program es x e" "good_program (ce_data e) eh phs" "can_run st p"
    and "argv = x # args" "length argv < SH_ARGVSZ" "args_room argv + 4 * (length argv + 2) \<le> unat USTACK_DFLT"
  shows "\<exists>st' sp. line_result (munix_drivers B) lc sh argv st = Some (sh, st', cpu_user_start (e_entry eh) sp) \<and> program_runs p (ce_data e) phs argv sp (kmem st) st'"
proof -
  obtain cf where f: "kshell_search_bin (munix_drivers B) sh x st = Some (st\<lparr>cfdatas := cf\<rparr>, Some ''/bin'')" "searchable (st\<lparr>cfdatas := cf\<rparr>) es k"
    using search_bin_finds [OF assms(1,2)] by blast
  obtain xs ys where e: "es = xs @ e # ys" "ce_name e = ''bin/'' @ x" "ce_name e \<notin> ce_name ` set xs" using assms(2) unfolding names_program_def by blast
  have x: "x \<noteq> ''''" "hd x \<noteq> CHR ''/''" "NUL \<notin> set x" "length x < PATH_MAX - 6" "kshell_search_builtins KSH_CMDS x = None"
    using assms(2) builtin_None unfolding names_program_def by blast+
  have pl: "plain_name (ce_name e)" using x(4) e(2) by (simp add: plain_name_def PATH_MAX_def)
  have cr: "can_run (st\<lparr>cfdatas := cf\<rparr>) p" using assms(4) by simp
  have j: "join_text (Some ''/bin'') (Some (argv ! 0)) = CHR ''/'' # ce_name e" using join_bin(2) [OF x(1-3)] assms(5) e(2) by simp
  obtain st' sp where r: "exec_program (munix_drivers B) lc sh ''/bin'' argv (st\<lparr>cfdatas := cf\<rparr>) = Some (st', cpu_user_start (e_entry eh) sp)"
      "program_runs p (ce_data e) phs argv sp (kmem st) st'"
    using exec_program_ok [OF f(2) e(1,3) pl j, of eh phs p B lc sh] assms(3,7) cr unfolding good_program_def can_run_def by auto
  have "exec_args (munix_drivers B) lc sh argv st = Some (st', cpu_user_start (e_entry eh) sp)"
    using f(1) r(1) x(5) assms(5) by (simp add: exec_args_def)
  then show ?thesis using r(2) assms(5,6) by (auto simp: line_result_def)
qed

section \<open>From the terminal to user code\<close>

text \<open>The line buffer of the shell is outside the memory \<open>lo\<close> to \<open>hi\<close> of a RAM disk.\<close>

definition buffer_outside :: "locals \<Rightarrow> nat \<Rightarrow> nat \<Rightarrow> bool" where
  "buffer_outside lc lo hi \<longleftrightarrow> linebuf lc + SH_LINEBUFSZ \<le> lo \<or> hi \<le> linebuf lc"

definition same_but_buffer :: "locals \<Rightarrow> mem \<Rightarrow> mem \<Rightarrow> bool" where
  "same_but_buffer lc m m' \<longleftrightarrow> (\<forall>x. x < linebuf lc \<or> linebuf lc + SH_LINEBUFSZ \<le> x \<longrightarrow> m' x = m x)"

lemma searchable_tty:
  fixes st :: "('h, 'a) kstate_scheme"
  assumes "searchable st es k" "tty_frame st st1" "same_but_buffer lc (kmem st) m"
    and "buffer_outside lc (rd_addr (ramdisks st ! 0)) (rd_addr (ramdisks st ! 0) + rd_size (ramdisks st ! 0))"
  shows "searchable (st1\<lparr>kmem := m\<rparr>) es k"
proof -
  obtain h ts where st1: "st1 = st\<lparr>hw := h, ttys := ts\<rparr>" using assms(2) by (auto simp: tty_frame_def)
  have "mem_read m (rd_addr (ramdisks st ! 0)) (rd_size (ramdisks st ! 0)) = mem_read (kmem st) (rd_addr (ramdisks st ! 0)) (rd_size (ramdisks st ! 0))"
    using assms(3,4) by (auto simp: mem_read_def same_but_buffer_def buffer_outside_def)
  then show ?thesis using assms(1)
    by (simp add: st1 searchable_def initrd_mounted_def mounts_ok_def disk_ok_def disk_content_def cfdata_alloc_def)
qed

lemma shell_runs_program:
  fixes st :: "('h, 'a) kstate_scheme"
  assumes "uart B online rx tx busy" "line_typed online rx sh st ln rest" "sh_words (foldl edit [] ln @ [NL]) = x # args" "length (x # args) < SH_ARGVSZ"
    and "searchable st es k" "names_program es x e" "good_program (ce_data e) eh phs" "can_run st p"
    and "buffer_outside lc (rd_addr (ramdisks st ! 0)) (rd_addr (ramdisks st ! 0) + rd_size (ramdisks st ! 0))"
  shows "\<exists>st' sp m. kshell_run (munix_drivers B) lc sh st = Some (st', cpu_user_start (e_entry eh) sp) \<and>
    program_runs p (ce_data e) phs (x # args) sp m st' \<and> same_but_buffer lc (kmem st) m"
proof -
  let ?argv = "x # args"
  obtain st1 m where t: "kshell_read_exec (munix_drivers B) lc sh st = line_result (munix_drivers B) lc (sh\<lparr>waiting_for_input := False\<rparr>) ?argv (st1\<lparr>kmem := m\<rparr>)"
      "tty_frame st st1" "same_but_buffer lc (kmem st) m"
    using typed_line [OF assms(1,2), of lc] unfolding assms(3) same_but_buffer_def by blast
  have "length (foldl edit [] ln @ [NL]) < SH_LINEBUFSZ"
    using length_foldl_edit [of "[]" ln] assms(2) by (simp add: line_typed_def plain_line_def SH_LINEBUFSZ_def)
  then have room: "args_room ?argv + 4 * (length ?argv + 2) \<le> unat USTACK_DFLT"
    using words_room [of "foldl edit [] ln @ [NL]"] assms(3,4) by (simp add: USTACK_DFLT_def)
  have "can_run (st1\<lparr>kmem := m\<rparr>) p" using can_run_tty [OF assms(8) t(2)] by simp
  then obtain st' sp where r: "line_result (munix_drivers B) lc (sh\<lparr>waiting_for_input := False\<rparr>) ?argv (st1\<lparr>kmem := m\<rparr>) =
      Some (sh\<lparr>waiting_for_input := False\<rparr>, st', cpu_user_start (e_entry eh) sp)" "program_runs p (ce_data e) phs ?argv sp m st'"
    using line_runs_program [OF searchable_tty [OF assms(5) t(2,3) assms(9)] assms(6,7) _ refl assms(4) room, of p B lc "sh\<lparr>waiting_for_input := False\<rparr>"] by auto
  have "kshell_run (munix_drivers B) lc sh st = Some (st', cpu_user_start (e_entry eh) sp)"
    unfolding kshell_run.simps [of _ lc sh st] t(1) r(1) by (simp add: cpu_user_start_def)
  then show ?thesis using r(2) t(3) by blast
qed

text \<open>What the cold and the booted state have for the shell.\<close>

lemma cold_tables:
  assumes "cold st"
  shows "ttys st = replicate TTY_CT tty0" "kfiles st \<noteq> []" "cfdatas st = replicate MAX_CPIO_OPEN cfdata0" "pcb st = replicate PROCESS_MAX process0" "tcb st = replicate THREAD_MAX thread0"
  using assms by (simp_all add: cold_def)

lemma booted_ready:
  fixes st :: "('h, 'a) machine_scheme"
  assumes "booted L online rx lo hi es st0 st" "cold st0"
  shows "chrdev_drivers st ! MAJ_TTY = Some TtyDrv" "chrdev_drivers st ! MAJ_SERIAL = Some SerialDrv" "serials st ! 0 = log_port" "online 0x3f8 (hw st)"
    "ttys st = replicate TTY_CT tty0" "kfiles st \<noteq> []" "rx 0x3f8 (hw st) = rx 0x3f8 (hw st0)" "kmem st = kmem st0"
    "rd_addr (ramdisks st ! 0) = unat lo" "unat lo + rd_size (ramdisks st ! 0) = unat hi"
  using assms(1) cold_tables [OF assms(2)] by (simp_all add: booted_def MAJ_TTY_def MAJ_SERIAL_def log_port_def RAMDISKS_MAX_def)

lemma booted_searchable:
  fixes st :: "('h, 'a) machine_scheme"
  assumes "booted L online rx lo hi es st0 st" "cold st0" "good_entries es"
  shows "searchable st es 0"
  using assms(1,3) cold_tables(3) [OF assms(2)]
  by (simp add: searchable_def booted_def cfdata_alloc_def cfdata0_def file0_def MAX_CPIO_OPEN_def numeral_eq_Suc)

lemma booted_can_run:
  fixes st :: "('h, 'a) machine_scheme"
  assumes "booted L online rx lo hi es st0 st" "cold st0"
  shows "can_run st 0"
proof -
  have rd: "ramdisks st = (replicate RAMDISKS_MAX ramdisk0)[0 := \<lparr>rd_addr = unat lo, rd_size = unat hi - unat lo, rd_name = ''initrd''\<rparr>]"
    and lh: "unat lo \<le> unat hi" "unat hi \<le> USER_LOW" "outside_tables (unat lo) (unat hi)" and t: "pcb st = pcb st0" "tcb st = tcb st0" "sched_idle st" "kernel_map (pm st) (cr3 st)" "used (pm st) = 2"
    using assms(1) unfolding booted_def by blast+
  have "disks_clear st" unfolding disks_clear_def disks_outside_def rd using lh by (simp add: nth_list_update ramdisk0_def) (simp add: outside_tables_def)
  moreover have "process_alloc st = Some 0" "0 < length (pcb st)"
    using t(1) cold_tables(4) [OF assms(2)] by (simp_all add: process_alloc_def PROCESS_MAX_def numeral_eq_Suc process0_def)
  moreover have "\<exists>i<THREAD_MAX. tid (tcb st ! i) = 0"
    using t(2) cold_tables(5) [OF assms(2)] by (intro exI [of _ 0]) (simp add: THREAD_MAX_def thread0_def)
  ultimately show ?thesis using t(3-5) by (simp add: can_run_def kernel_map_def PHYSPAGES_MAX_def)
qed

text \<open>The shell's file is the only difference to the kernel that started it, apart from the terminal.\<close>

lemma shell_file_frame:
  fixes st :: "('h, 'a) kstate_scheme"
  assumes "tty_frame (st\<lparr>kfiles := fs\<rparr>) st'" "searchable st es k" "can_run st p"
  shows "searchable st' es k" "can_run st' p" "ramdisks st' = ramdisks st" "kmem st' = kmem st"
proof -
  obtain h ts where st': "st' = st\<lparr>kfiles := fs, hw := h, ttys := ts\<rparr>" using assms(1) by (auto simp: tty_frame_def)
  have "sched_idle st'" by (rule sched_idle_cong [of st]) (use assms(3) in \<open>simp_all add: st' can_run_def\<close>)
  then show "can_run st' p" using assms(3) by (simp add: st' can_run_def disks_clear_def disks_outside_def process_alloc_def)
  show "searchable st' es k" using assms(2) by (simp add: st' searchable_def initrd_mounted_def mounts_ok_def disk_ok_def disk_content_def cfdata_alloc_def)
qed (use assms(1) in \<open>auto simp: tty_frame_def\<close>)

text \<open>
  Property C1. From the boot loader to user code. When a cold machine is started with an archive as its last boot module, and the first line that its serial port
  receives names a program of \<open>/bin\<close> in the archive, the kernel sets up its drivers, processor and page map, mounts the archive, starts the shell, loads the program and
  enters user mode at its entry point: the program is the only process, its first thread the only thread, it has exactly the pages of its segments and stack with their rights, the words of the edited
  line are its arguments on the stack, and apart from the page tables, the stack and the line buffer of the shell, memory is as the boot loader left it with the segments loaded into it.
  The archive and the line buffer must be outside the area of the page tables, and no timer interrupt may arrive before the program runs, while there is no thread that it could preempt.
\<close>

theorem boot_runs_program:
  fixes st :: "('h, 'a) machine_scheme"
  assumes "serial_board B online rx tx busy" "cold st" "boot_image (kmem st) info lo hi es"
    and "map (ifilter log_port) (rx 0x3f8 (hw st)) = ln @ NL # rest" "plain_line ln"
    and "sh_words (foldl edit [] ln @ [NL]) = x # args" "length (x # args) < SH_ARGVSZ"
    and "names_program es x e" "good_program (ce_data e) eh phs" "buffer_outside lc (unat lo) (unat hi)" "outside_tables (linebuf lc) (linebuf lc + SH_LINEBUFSZ)"
  shows "\<exists>st' sp m. start_mb2 B (munix_drivers B) L lc [] MULTIBOOT2_BOOTLOADER_MAGIC info st = Some (st', cpu_user_start (e_entry eh) sp) \<and>
    program_runs 0 (ce_data e) phs (x # args) sp m st' \<and> same_but_buffer lc (kmem st) m"
proof -
  have uart: "uart B online rx tx busy" using assms(1) by (simp add: serial_board_def)
  obtain s1 where k: "start_mb2 B (munix_drivers B) L lc [] MULTIBOOT2_BOOTLOADER_MAGIC info st =
      Option.bind (kshell_init_run (munix_drivers B) lc s1) (\<lambda>(st, ctl).
        case ctl of Return _ \<Rightarrow> kernel_noreturn (munix_drivers B) lc st | _ \<Rightarrow> Some (st, ctl))"
      "booted L online rx lo hi es st s1"
    using kernel_start [OF assms(1-3), of L lc] by (auto simp: shell_after_def)
  note c = booted_ready [OF k(2) assms(2)]
  have se: "searchable s1 es 0" using booted_searchable [OF k(2) assms(2)] assms(3) by (simp add: boot_image_def)
  note cr = booted_can_run [OF k(2) assms(2)]
  obtain s2 f where sh: "kshell_init_run (munix_drivers B) lc s1 = map_option shell_result (kshell_run (munix_drivers B) lc first_shell s2)"
      "sh_ready online rx first_shell s2 (ln @ NL # rest)" "tty_frame (s1\<lparr>kfiles := (kfiles s1)[0 := f]\<rparr>) s2"
    using shell_starts [OF uart c(1-6), of lc] unfolding c(7) assms(4) by blast
  have "line_typed online rx first_shell s2 ln rest" using sh(2) assms(5) by (simp add: line_typed_def first_shell_def)
  moreover note fr = shell_file_frame [OF sh(3) se cr]
  ultimately obtain st' sp m where r: "kshell_run (munix_drivers B) lc first_shell s2 = Some (st', cpu_user_start (e_entry eh) sp)"
      "program_runs 0 (ce_data e) phs (x # args) sp m st'" "same_but_buffer lc (kmem st) m"
    using shell_runs_program [OF uart _ assms(6,7) _ assms(8,9), of first_shell s2 rest 0 0 lc] assms(10) unfolding fr(3,4) c(8,9,10) by blast
  then show ?thesis using k(1) sh(1) by (auto simp: shell_result_def cpu_user_start_def)
qed

theorem boot_runs_program_witness:
  "\<exists>(st' :: uart8250 machine) sp m. start_mb2 uart_bus (munix_drivers uart_bus) layout0 locals0 [] MULTIBOOT2_BOOTLOADER_MAGIC 64 cold_machine =
      Some (st', cpu_user_start 0x400054 sp) \<and> program_runs 0 tiny_elf [tiny_seg] [''prog'', ''a''] sp m st'"
proof -
  have inp: "map (ifilter log_port) (u_rx (hw cold_machine)) = ''prog a'' @ NL # []"
    by (simp add: cold_machine_def log_port_def ifilter_def SRL_ICRNL_def SRL_OCRNL_def)
  have pl: "plain_line ''prog a''" by (simp add: plain_line_def SH_LINEBUFSZ_def)
  have w: "sh_words (foldl edit [] ''prog a'' @ [NL]) = [''prog'', ''a'']" by (simp add: edit_def sh_words.simps ctype_defs schar_def)
  have nm: "names_program [root_entry, prog_entry] ''prog'' prog_entry"
    unfolding names_program_def
    by (intro conjI exI [of _ "[root_entry]"] exI [of _ "[]"]) (simp_all add: KSH_CMDS_def root_entry_def prog_entry_def PATH_MAX_def cpio_mode_to_dirtype_def CM_FT_MASK_def CM_FT_DIR_def CM_FT_CHR_def CM_FT_BLK_def)
  have gp: "good_program (ce_data prog_entry) tiny_ehdr [tiny_seg]" using tiny_image tiny_area(1) by (simp add: good_program_def prog_entry_def)
  have bo: "buffer_outside locals0 (unat (0x4000 :: u32)) (unat disk_end)" by (simp add: buffer_outside_def locals0_def SH_LINEBUFSZ_def)
  have ot: "outside_tables (linebuf locals0) (linebuf locals0 + SH_LINEBUFSZ)" by (simp add: outside_tables_def locals0_def SH_LINEBUFSZ_def PM_AREA_def)
  have im: "boot_image (kmem cold_machine) 64 0x4000 disk_end [root_entry, prog_entry]" using boot_memory_image by (simp add: cold_machine_def)
  have "length [''prog'', ''a''] < SH_ARGVSZ" by (simp add: SH_ARGVSZ_def)
  from boot_runs_program [OF board8250.serial_board_axioms cold_machine_cold im inp pl w this nm gp bo ot, of layout0] show ?thesis
    by (auto simp: tiny_fields prog_entry_def)
qed

end
