(* ===== verification/Kernel_Types.thy ===== *)
theory Kernel_Types
  imports Interrupts
begin

text \<open>
  The types of the kernel state. Static arrays of the kernel are lists here, so that their lengths are part of the type that every operation has to keep, and so are
  the tables of file descriptors of the processes, whose entries have to name open files of the kernel. \<open>kernel_typed\<close> says so, and no system call, interrupt or resumed task breaks it.
\<close>

section \<open>Typed states\<close>

definition array_sizes :: "('h, 'a) kstate_scheme \<Rightarrow> nat list" where
  "array_sizes st =
    [length (chrdev_drivers st), length (fs_drivers st), length (superblocks st), length (ramdisks st), length (cfdatas st), length (serials st),
     length (ttys st), length (pcb st), length (tcb st), length (irq_cts st), length (physpages (pm st)), length (kfiles st)]"

definition fd_tables :: "('h, 'a) kstate_scheme \<Rightarrow> nat option list set" where
  "fd_tables st = fds ` set (pcb st)"

definition kernel_typed :: "nat \<Rightarrow> ('h, 'a) kstate_scheme \<Rightarrow> bool" where
  "kernel_typed files st \<longleftrightarrow>
    array_sizes st = [MAJORS_MAX, FSTYPES_MAX, SB_MAX, RAMDISKS_MAX, MAX_CPIO_OPEN, length PORT_NOS,
      TTY_CT, PROCESS_MAX, THREAD_MAX, unat IRQ_MAX, PHYSPAGES_MAX, files] \<and>
    (\<forall>t\<in>fd_tables st. length t = FD_MAX \<and> (\<forall>i. Some i \<in> set t \<longrightarrow> i < files))"

text \<open>The effect of an operation that keeps the types: a process keeps its table of descriptors or gets an empty one.\<close>

definition same_types :: "('h, 'a) kstate_scheme \<Rightarrow> ('h, 'a) kstate_scheme \<Rightarrow> bool" where
  "same_types st st' \<longleftrightarrow> array_sizes st' = array_sizes st \<and> fd_tables st' \<subseteq> insert (fds process0) (fd_tables st)"

lemma same_types_refl [simp]: "same_types st st"
  by (auto simp: same_types_def)

lemma same_types_trans: "same_types st st' \<Longrightarrow> same_types st' st'' \<Longrightarrow> same_types st st''"
  by (auto simp: same_types_def)

lemma same_types_typed: "same_types st st' \<Longrightarrow> kernel_typed files st \<Longrightarrow> kernel_typed files st'"
  by (fastforce simp: same_types_def kernel_typed_def process0_def FD_MAX_def)

lemmas types_defs = same_types_def array_sizes_def fd_tables_def

lemma types_update [simp]:
  "same_types st (st\<lparr>tcb := (tcb st)[i := t]\<rparr>)" "same_types st (st\<lparr>ready_queue := q\<rparr>)" "same_types st (st\<lparr>proc_threads := h\<rparr>)"
  "same_types st (st\<lparr>current_thread := ct\<rparr>)" "same_types st (st\<lparr>current_process := cp\<rparr>)" "same_types st (st\<lparr>next_tid := n\<rparr>)"
  "same_types st (st\<lparr>irq_cts := (irq_cts st)[i := v]\<rparr>)" "same_types st (st\<lparr>kfiles := (kfiles st)[i := f]\<rparr>)" "same_types st (st\<lparr>cr3 := r\<rparr>)"
  "same_types st (st\<lparr>hw := hh\<rparr>)" "same_types st (st\<lparr>ttys := (ttys st)[i := y]\<rparr>)"
  by (auto simp: types_defs)

lemma types_upd_thread [simp]: "same_types st (upd_thread i f st)"
  by (simp add: upd_thread_def)

section \<open>Threads\<close>

lemma types_choose:
  fixes st :: "('h, 'a) kstate_scheme"
  assumes "choose_next_thread st = Some r"
  shows "same_types st (fst r)"
proof (rule choose_next_thread.raw_induct [OF _ assms, where P = "\<lambda>st r. same_types st (fst r)"])
  fix rec and st :: "('h, 'a) kstate_scheme" and r
  assume IH: "\<And>(st :: ('h, 'a) kstate_scheme) y. rec st = Some y \<Longrightarrow> same_types st (fst y)"
    and body: "(case list_first_entry (ready_queue st) ReadyQ of
       None \<Rightarrow> Some (st, No_thread)
     | Some ReadyQ \<Rightarrow> Some (st, Not_a_thread)
     | Some (TQueue t) \<Rightarrow>
         (case runstate (tcb st ! t) of
            RS_NEW \<Rightarrow> Some (st, Chosen t)
          | RS_READY \<Rightarrow> Some (st, Chosen t)
          | RS_EXITED \<Rightarrow>
              (case list_rotate_left (ready_queue st) ReadyQ of
                 None \<Rightarrow> Some (st, Not_a_thread)
               | Some h \<Rightarrow> rec (st\<lparr>ready_queue := h\<rparr>)))) = Some r"
  have "fst r = st \<or> (\<exists>h. rec (st\<lparr>ready_queue := h\<rparr>) = Some r)"
    using body by (auto split: option.splits qnode.splits runstate.splits)
  then show "same_types st (fst r)"
    using IH same_types_trans [OF types_update(2)] same_types_refl by metis
qed

lemma types_sched_add: "sched_add t st = Some st' \<Longrightarrow> same_types st st'"
  by (auto simp: sched_add_def)

lemma types_thread_switch: "same_types st (fst (thread_switch k o' i' st))"
  by (auto simp: thread_switch_def Let_def upd_thread_def cpu_user_kstack_set_def types_defs split: option.splits runstate.splits)

lemma types_schedule: "schedule k st = Some r \<Longrightarrow> same_types st (fst r)"
proof -
  assume s: "schedule k st = Some r"
  show ?thesis
  proof (cases "requeue_current st")
    case None
    then show ?thesis using s by (auto simp: schedule_def)
  next
    case (Some st1)
    then have 1: "same_types st st1" by (auto simp: requeue_current_def types_sched_add split: option.splits if_splits)
    obtain c where c: "choose_next_thread st1 = Some c" using s Some by (auto simp: schedule_def switch_to_next_def)
    have "same_types (fst c) (fst r)"
      using s Some c same_types_trans [OF types_update(2) types_thread_switch]
      by (cases c) (auto simp: schedule_def switch_to_next_def sched_remove_def Let_def split: choice.splits)
    then show ?thesis using 1 types_choose [OF c] same_types_trans by blast
  qed
qed

lemma types_yield: "thread_yield k st = Some r \<Longrightarrow> same_types st (fst r)"
  by (auto simp: thread_yield_def split: option.splits dest!: types_schedule intro: same_types_trans [OF types_upd_thread])

lemma types_preempt: "thread_preempt st = Some r \<Longrightarrow> same_types st (fst r)"
  by (auto simp: thread_preempt_def split: option.splits dest!: types_schedule intro: same_types_trans [OF types_upd_thread])

lemma types_exit: "thread_exit s st = Some r \<Longrightarrow> same_types st (fst r)"
  by (auto simp: thread_exit_def split: option.splits dest!: types_schedule intro: same_types_trans [OF types_upd_thread])

lemma types_thread_close: "same_types st (thread_close i st)"
  by (auto simp: thread_close_def types_defs)

lemma types_create: "same_types st (fst (thread_create p a u st))"
  by (auto simp: thread_create_def Let_def upd_thread_def sched_add_def types_defs split: option.splits)

lemma types_join_loop:
  fixes st :: "('h, 'a) kstate_scheme"
  assumes "join_loop i st = Some r"
  shows "same_types st (fst r)"
proof (rule join_loop.raw_induct [OF _ assms, where P = "\<lambda>i st r. same_types st (fst r)"])
  fix rec i and st :: "('h, 'a) kstate_scheme" and r
  assume IH: "\<And>i (st :: ('h, 'a) kstate_scheme) y. rec i st = Some y \<Longrightarrow> same_types st (fst y)"
    and body: "(if runstate (tcb st ! i) \<noteq> RS_EXITED
     then Option.bind (thread_yield (After_join i) st) (\<lambda>(st, ctl).
            case ctl of Return _ \<Rightarrow> rec i st | _ \<Rightarrow> Some (st, ctl))
     else Some (thread_close i st, Return (exit_status (tcb st ! i)))) = Some r"
  show "same_types st (fst r)"
  proof (cases "runstate (tcb st ! i) = RS_EXITED")
    case True
    then show ?thesis using body types_thread_close by auto
  next
    case False
    then obtain y where y: "thread_yield (After_join i) st = Some y" using body by (auto split: bind_splits)
    have "fst r = fst y \<or> rec i (fst y) = Some r" using body False y by (cases y) (auto split: control.splits)
    then show ?thesis using types_yield [OF y] IH same_types_trans by metis
  qed
qed

lemma types_join: "thread_join t st = Some r \<Longrightarrow> same_types st (fst r)"
  by (auto simp: thread_join_def split: option.splits dest: types_join_loop)

lemma types_resume: "task_resume k st = Some r \<Longrightarrow> same_types st (fst r)"
  by (cases k) (auto dest: types_join_loop)

section \<open>Files\<close>

lemma types_only_hw: "only_hw st st' \<Longrightarrow> same_types st st'"
  by (auto simp: only_hw_def)

lemma types_tty_write:
  fixes st :: "('h, 'a) kstate_scheme"
  assumes "tty_write (with_serial B no_drivers) f s off st = Some (off', st', r)"
  shows "same_types st st'"
proof -
  obtain p st1 where w: "file_write (with_serial B no_drivers) (portdev (ttys st ! the (f_driver_data f))) s st = Some (p, st1, r)"
      "st' = upd_tty (the (f_driver_data f)) (\<lambda>t. t\<lparr>portdev := p\<rparr>) st1"
    using assms by (auto simp: tty_write_def Let_def)
  show ?thesis
    using same_types_trans [OF types_only_hw [OF serial_file_write_same [OF w(1)]] types_update(11)] w(2) by (simp add: upd_tty_def)
qed

lemma types_file_write:
  fixes st :: "('h, 'a) kstate_scheme"
  assumes "file_write (munix_drivers B) f s st = Some (f', st', r)"
  shows "same_types st st'"
  using munix_write_cases [OF assms] types_only_hw types_tty_write by blast

lemma types_file_close:
  fixes st :: "('h, 'a) kstate_scheme"
  shows "same_types st (fst (file_close (munix_drivers B) f st))"
  by (auto simp: file_close_def has_op_def munix_release cpio_file_release_def cfdata_free_def upd_cf_def types_defs
      split: option.splits bind_splits if_splits prod.splits)

section \<open>Page maps\<close>

definition pages_kept :: "walkst \<Rightarrow> walkst \<Rightarrow> bool" where
  "pages_kept ws ws' \<longleftrightarrow> length (physpages (w_pm ws')) = length (physpages (w_pm ws))"

lemma pages_kept_trans: "pages_kept ws ws' \<Longrightarrow> pages_kept ws' ws'' \<Longrightarrow> pages_kept ws ws''"
  by (simp add: pages_kept_def)

lemma pages_kept_write [simp]: "pages_kept ws (write_pme e v ws') = pages_kept ws ws'"
  by (cases e) (simp_all add: pages_kept_def)

lemma pages_kept_loop:
  assumes "\<And>e ws r. body e ws = Some r \<Longrightarrow> pages_kept ws (fst r)"
  shows "table_loop n body tbl lvl m ws = Some r \<Longrightarrow> pages_kept ws (fst r)"
proof (induction n arbitrary: ws)
  case (Suc n)
  show ?case
  proof (cases "w_size ws = 0")
    case True
    then show ?thesis using Suc.prems by (auto simp: pages_kept_def)
  next
    case False
    then obtain ws1 res where b: "body (TblEntry tbl (w_offsets ws ! lvl)) ws = Some (ws1, res)"
      using Suc.prems by (auto split: option.splits)
    then have 1: "pages_kept ws ws1" using assms by fastforce
    have "fst r = ws1 \<or> (\<exists>os. fst r = ws1\<lparr>w_offsets := os\<rparr>) \<or> (\<exists>os. table_loop n body tbl lvl m (ws1\<lparr>w_offsets := os\<rparr>) = Some r)"
      using Suc.prems False b by (auto simp: Let_def split: if_splits)
    then show ?thesis using 1 Suc.IH by (auto simp: pages_kept_def)
  qed
qed simp

lemma pages_kept_page [simp]:
  "pages_kept ws (ws'\<lparr>w_pm := physpage_free g (w_pm ws')\<rparr>) = pages_kept ws ws'" "pages_kept ws (ws'\<lparr>w_pm := physpage_close g (w_pm ws')\<rparr>) = pages_kept ws ws'"
  "pages_kept ws (ws'\<lparr>w_size := sz\<rparr>) = pages_kept ws ws'"
  by (simp_all add: pages_kept_def physpage_free_def physpage_close_def upd_page_def)

lemma pages_kept_unmap: "addrspc_unmap_recursive lvl e ws = Some r \<Longrightarrow> pages_kept ws (fst r)"
proof (induction "lvlct X86_PAGING_32 - lvl" arbitrary: lvl e ws r rule: less_induct)
  case less
  note body = less.prems [unfolded addrspc_unmap_recursive.simps [of lvl e ws]]
  have acc: "pages_kept ws (ws\<lparr>w_pm := p\<rparr>)" if "physpage_access g (w_pm ws) = (t, p)" for g t p
    using that by (auto simp: pages_kept_def physpage_access_def upd_page_def Let_def)
  have refl: "pages_kept ws ws" by (simp add: pages_kept_def)
  have l: "lvl + 1 < lvlct X86_PAGING_32" using body by (auto split: if_splits)
  have IH: "pages_kept ws' q"
    if "table_loop n (addrspc_unmap_recursive (Suc lvl)) tbl k m ws' = Some (q, res)" for ws' n tbl k m q res
    using pages_kept_loop [OF _ that] less.hyps [of "lvl + 1"] l by fastforce
  show ?case
    using body refl
    by (auto simp: Let_def split: if_splits option.splits prod.splits dest!: IH acc dest: pages_kept_trans)
qed

section \<open>Processes and interrupts\<close>

lemma types_cleanup:
  assumes "on_addrspc p addrspc_cleanup st = Some (st', res)"
  shows "same_types st st'"
proof -
  obtain pm' root where c: "addrspc_cleanup (pm st) (addrspc (pcb st ! p)) = Some (pm', root, res)"
    and st': "st' = upd_process p (\<lambda>q. q\<lparr>addrspc := root\<rparr>) (st\<lparr>pm := pm'\<rparr>)"
    using assms by (auto simp: on_addrspc_def)
  have "length (physpages pm') = length (physpages (pm st))"
    using c by (auto simp: addrspc_cleanup_def addrspc_unmap_def Let_def pages_kept_def dest!: pages_kept_unmap)
  moreover have "fds ` set ((pcb st)[p := (pcb st ! p)\<lparr>addrspc := root\<rparr>]) \<subseteq> fds ` set (pcb st)"
  proof (cases "p < length (pcb st)")
    case True
    then show ?thesis by (auto dest!: subsetD [OF set_update_subset_insert])
  qed (simp add: list_update_beyond)
  ultimately show ?thesis unfolding st' by (auto simp: types_defs upd_process_def)
qed

lemma types_reset: "same_types st (reset_process p process0 st)"
proof -
  have "fds ` set ((pcb st)[p := process0]) \<subseteq> insert (fds process0) (fds ` set (pcb st))"
    by (auto dest!: subsetD [OF set_update_subset_insert])
  then show ?thesis by (simp add: types_defs reset_process_def)
qed

lemma types_process_close:
  assumes "process_close (munix_drivers B) p st = Some st'"
  shows "same_types st st'"
proof -
  let ?s = "pm_set_root (kernel_addrspc st) (if current_process st = Some p then st\<lparr>current_process := None\<rparr> else st)"
  obtain st1 res where o: "on_addrspc p addrspc_cleanup ?s = Some (st1, res)"
      "st' = reset_process p process0 (fst (file_close (munix_drivers B) (execfile (pcb st1 ! p)) st1))"
    using assms by (auto simp: process_close_def Let_def split: if_splits)
  have "same_types st ?s" by (auto simp: types_defs pm_set_root_def)
  from same_types_trans [OF same_types_trans [OF this types_cleanup [OF o(1)]] same_types_trans [OF types_file_close types_reset]]
  show ?thesis unfolding o(2) .
qed

lemma types_syscall:
  assumes "syscall_dispatch (munix_drivers B) number arg1 arg2 arg3 st = Some r"
  shows "same_types st (fst r)"
proof -
  have "same_types st (fst r)" if "process_exit (munix_drivers B) s st = Some r" for s
    using that by (auto simp: process_exit_def split: option.splits dest!: types_process_close intro!: same_types_trans [OF _ types_upd_thread])
  moreover have "same_types st (fst r)" if "process_write (munix_drivers B) fd src cnt st = Some r" for fd src cnt
    using that by (auto simp: process_write_def file_write_from_def split: option.splits if_splits dest!: types_file_write intro!: same_types_trans [OF _ types_update(8)])
  ultimately show ?thesis
    using assms by (auto simp: syscall_dispatch_def types_create split: if_splits option.splits dest: types_yield types_exit types_join)
qed

lemma types_eoi: "same_types st (fst (pic_send_eoi B irq st))"
  by (auto simp: pic_send_eoi_def Let_def outb_def types_defs)

lemma types_interrupt:
  assumes "interrupt_dispatch B (munix_drivers B) ivec st = Some r"
  shows "same_types st (fst r)"
proof -
  have "same_types st (fst r)" if "handle_exception (munix_drivers B) st = Some r"
    using that by (auto simp: handle_exception_def process_kill_def split: option.splits if_splits dest!: types_process_close)
  moreover have "same_types st (fst r)" if h: "handle_irq B ivec st = Some r"
  proof -
    define st1 where "st1 = fst (pic_send_eoi B (ivec - IVEC_IRQ_0)
      (st\<lparr>irq_cts := (irq_cts st)[unat (ivec - IVEC_IRQ_0) := irq_cts st ! unat (ivec - IVEC_IRQ_0) + 1]\<rparr>))"
    have "thread_preempt st1 = Some r \<or> r = (st1, Return 0)" using h by (auto simp: handle_irq_def Let_def st1_def split: if_splits)
    moreover have "same_types st st1" unfolding st1_def by (rule same_types_trans [OF types_update(7) types_eoi])
    ultimately show ?thesis using types_preempt same_types_trans by fastforce
  qed
  ultimately show ?thesis using assms by (auto simp: interrupt_dispatch_def split: if_splits)
qed

lemma types_kstep: "kstep B s s' \<Longrightarrow> same_types (fst s) (fst s')"
  by (cases rule: kstep.cases) (auto dest: types_syscall types_interrupt types_resume)

section \<open>The property\<close>


lemma two_threads_typed: "kernel_typed 0 two_threads"
proof -
  have "fd_tables two_threads = {fds process0}"
    by (simp add: fd_tables_def two_threads_def kst_def ttystate.extend_def kstate.fields_def boot_st_def PROCESS_MAX_def)
  then show ?thesis
    by (simp add: kernel_typed_def array_sizes_def two_threads_def kst_def ttystate.extend_def kstate.fields_def boot_st_def pm0_def
        PORT_NOS_def IRQ_MAX_def process0_def FD_MAX_def PROCESS_MAX_def THREAD_MAX_def MAX_CPIO_OPEN_def)
qed


end
