(* ===== verification/Plane.thy ===== *)
theory Plane
  imports Vfs
begin

text \<open>
  The programs that draw: \<open>process/plane.c\<close> on a terminal, and \<open>process/plane-raw.c\<close> in the video memory.

  A program has its memory and the text that it has written (\<open>uprog\<close>). What the text looks like is said by \<open>term_step\<close>, a terminal
  that knows the escape sequences of ECMA-48 the programs use: cursor position and movement, foreground colour, erasing; it does not scroll. Both programs share their
  drawing code apart from \<open>draw_char\<close>, which is a parameter here. The locale \<open>canvas\<close> is what the drawing code relies on, and both the terminal and
  the video memory have it. The numbers that \<open>fprintf\<close> returns are used nowhere.
\<close>

section \<open>Output\<close>

record uprog =
  umem :: mem
  uout :: string

definition U_GREY_ON_BLACK :: u8 where "U_GREY_ON_BLACK = 0x07"
definition U_ED_CUR_TO_END :: int where "U_ED_CUR_TO_END = 0"
definition U_ED_CUR_TO_START :: int where "U_ED_CUR_TO_START = 1"
definition U_ED_SCREEN :: int where "U_ED_SCREEN = 2"

definition ESC :: char where "ESC = CHR 0x1b"

definition fprintf_stdout :: "string \<Rightarrow> va_slot list \<Rightarrow> 'a uprog_scheme \<Rightarrow> 'a uprog_scheme" where
  "fprintf_stdout fm va st = st\<lparr>uout := uout st @ fmt_text fm va\<rparr>"

definition fprintf_setpos :: "int \<Rightarrow> int \<Rightarrow> 'a uprog_scheme \<Rightarrow> 'a uprog_scheme" where
  "fprintf_setpos r c = fprintf_stdout (ESC # ''[%d;%dH'') [VWord (of_int (r + 1)), VWord (of_int (c + 1))]"

definition fprintf_setcolor :: "int \<Rightarrow> 'a uprog_scheme \<Rightarrow> 'a uprog_scheme" where
  "fprintf_setcolor fg = fprintf_stdout (ESC # ''[38;5;%dm'') [VWord (of_int fg)]"

definition fprintf_erasedisplay :: "int \<Rightarrow> 'a uprog_scheme \<Rightarrow> 'a uprog_scheme" where
  "fprintf_erasedisplay erasemode = fprintf_stdout (ESC # ''[%dJ'') [VWord (of_int erasemode)]"

definition fprintf_reset :: "'a uprog_scheme \<Rightarrow> 'a uprog_scheme" where
  "fprintf_reset st = fprintf_erasedisplay U_ED_CUR_TO_END (fprintf_setcolor (uint U_GREY_ON_BLACK) st)"

definition screen_rows :: int where "screen_rows = 25"
definition screen_cols :: int where "screen_cols = 80"

definition on_screen :: "int \<Rightarrow> int \<Rightarrow> bool" where
  "on_screen r c \<longleftrightarrow> 0 \<le> r \<and> r < screen_rows \<and> 0 \<le> c \<and> c < screen_cols"

definition draw_char :: "int \<Rightarrow> int \<Rightarrow> char \<Rightarrow> u8 \<Rightarrow> 'a uprog_scheme \<Rightarrow> 'a uprog_scheme" where
  "draw_char r c ch color st =
    (if on_screen r c
     then fprintf_stdout ''%c'' [VWord (of_int (schar ch))] (fprintf_setcolor (uint color) (fprintf_setpos r c st))
     else st)"

text \<open>The cell at row \<open>r\<close> and column \<open>c\<close> of the video memory has two bytes, the character and its colour.\<close>

definition screen_addr :: nat where "screen_addr = 0xb8000"

definition colorchar_bytes :: "char \<Rightarrow> u8 \<Rightarrow> string" where
  "colorchar_bytes ch color = [ch, to_char (uint color)]"

definition draw_char_raw :: "int \<Rightarrow> int \<Rightarrow> char \<Rightarrow> u8 \<Rightarrow> 'a uprog_scheme \<Rightarrow> 'a uprog_scheme" where
  "draw_char_raw r c ch color st =
    (if on_screen r c
     then st\<lparr>umem := mem_write (umem st) (screen_addr + 2 * nat (r * screen_cols + c)) (colorchar_bytes ch color)\<rparr>
     else st)"

section \<open>Drawing\<close>

type_synonym 's painter = "int \<Rightarrow> int \<Rightarrow> char \<Rightarrow> u8 \<Rightarrow> 's \<Rightarrow> 's"

text \<open>The loops of \<open>draw_art\<close> over the characters of a row and over the rows, with the width found so far.\<close>

fun draw_row :: "'s painter \<Rightarrow> string \<Rightarrow> int \<Rightarrow> int \<Rightarrow> u8 \<Rightarrow> int \<Rightarrow> 's \<times> int \<Rightarrow> 's \<times> int" where
  "draw_row draw [] r c color artcol sw = sw"
| "draw_row draw (ch # rowchars) r c color artcol (st, width) =
    draw_row draw rowchars r c color (artcol + 1)
      (draw r (c + artcol) ch color st, if artcol > width then artcol else width)"

fun draw_rows :: "'s painter \<Rightarrow> string list \<Rightarrow> int \<Rightarrow> int \<Rightarrow> u8 \<Rightarrow> int \<Rightarrow> 's \<times> int \<Rightarrow> 's \<times> int" where
  "draw_rows draw [] r c color artrow sw = sw"
| "draw_rows draw (rowchars # art) r c color artrow sw =
    draw_rows draw art r c color (artrow + 1) (draw_row draw rowchars (r + artrow) c color 0 sw)"

definition draw_art :: "'s painter \<Rightarrow> string list \<Rightarrow> int \<Rightarrow> int \<Rightarrow> u8 \<Rightarrow> 's \<Rightarrow> 's \<times> int" where
  "draw_art draw art r c color st = draw_rows draw art r c color 0 (st, 0)"

text \<open>\<open>delay_loop\<close> counts to \<open>1 << slowdown\<close>; \<^const>\<open>None\<close> is a shift that C leaves undefined.\<close>

function delay_rounds :: "u32 \<Rightarrow> u32 \<Rightarrow> u32" where
  "delay_rounds delay_loops i = (if i < delay_loops then delay_rounds delay_loops (i + 1) else i)"
  by auto
termination
proof (relation "measure (\<lambda>(n, i). unat (n - i))")
  fix n i :: u32
  assume "i < n"
  then have "unat (n - (i + 1)) < unat (n - i)"
    by (metis diff_diff_eq measure_unat right_minus_eq order_less_irrefl)
  then show "((n, i + 1), (n, i)) \<in> measure (\<lambda>(n, i). unat (n - i))" by simp
qed simp

declare delay_rounds.simps [simp del]

definition delay_loop :: "int \<Rightarrow> u32 option" where
  "delay_loop slowdown = (if 0 \<le> slowdown \<and> slowdown < 31 then Some (delay_rounds (push_bit (nat slowdown) 1) 0) else None)"

partial_function (option) fly_loop :: "'s painter \<Rightarrow> string list \<Rightarrow> int \<Rightarrow> u8 \<Rightarrow> int \<Rightarrow> int \<Rightarrow> int \<Rightarrow> 's \<Rightarrow> 's option" where
  "fly_loop draw art r color slowdown c width st =
    (if c \<ge> - width
     then (case draw_art draw art r c color st of (st, width) \<Rightarrow>
            Option.bind (delay_loop slowdown) (\<lambda>_. fly_loop draw art r color slowdown (c - 1) width st))
     else Some st)"

definition fly_with :: "'s painter \<Rightarrow> string list \<Rightarrow> int \<Rightarrow> u8 \<Rightarrow> int \<Rightarrow> 's \<Rightarrow> 's option" where
  "fly_with draw art altitude color slowdown st =
    fly_loop draw art (screen_rows - altitude) color slowdown screen_cols 0 st"

definition fly :: "string list \<Rightarrow> int \<Rightarrow> u8 \<Rightarrow> int \<Rightarrow> 'a uprog_scheme \<Rightarrow> 'a uprog_scheme option" where
  "fly art altitude color slowdown st = map_option fprintf_reset (fly_with draw_char art altitude color slowdown st)"

definition fly_raw :: "string list \<Rightarrow> int \<Rightarrow> u8 \<Rightarrow> int \<Rightarrow> 'a uprog_scheme \<Rightarrow> 'a uprog_scheme option" where
  "fly_raw art altitude color slowdown st = fly_with draw_char_raw art altitude color slowdown st"

section \<open>The command line of plane\<close>

definition plane_art :: "string list" where
  "plane_art =
    [''     ___       _  '',
     '' | __'' @ [CHR 0x5c] @ ''_'' @ [CHR 0x5c] @ ''_o____/_| '',
     '' <[___'' @ [CHR 0x5c] @ ''_'' @ [CHR 0x5c] @ ''_-----<  '',
     '' |  o'' @ [CHR 0x27] @ ''            '']"

definition plane_help :: "string list" where
  "plane_help =
    [''plane switches: '',
     ''   -s N    set slowdown    busy wait for 2^N loops per frame '',
     ''   -c N    set color       use N as color byte '',
     ''   -a N    set altitude    fly at row N from bottom '']"

text \<open>The \<open>atoi\<close> of \<open>plane.c\<close> computes with \<open>int\<close>; \<^const>\<open>None\<close> is a signed overflow.\<close>

fun plane_digits :: "int \<Rightarrow> string \<Rightarrow> int option" where
  "plane_digits i [] = Some i"
| "plane_digits i (ch # a) =
    (if 48 \<le> schar ch \<and> schar ch \<le> 57
     then let i = i * 10 + (schar ch - 48) in if i \<le> INT_MAX then plane_digits i a else None
     else Some i)"

definition plane_atoi :: "string \<Rightarrow> int option" where
  "plane_atoi a = plane_digits 0 (skip_spaces a)"

record plane_opts =
  o_plane :: "string list"
  o_altitude :: int
  o_color :: u8
  o_slowdown :: int
  o_helpmode :: bool

definition plane_defaults :: plane_opts where
  "plane_defaults = \<lparr>o_plane = plane_art, o_altitude = 22, o_color = U_GREY_ON_BLACK, o_slowdown = 24, o_helpmode = False\<rparr>"

text \<open>A character of an argument; behind its end is the terminator.\<close>

definition arg_char :: "string \<Rightarrow> nat \<Rightarrow> char" where
  "arg_char s i = (s @ [NUL]) ! i"

text \<open>The loop over \<open>argv\<close>. A switch that wants a number takes the next argument; behind the last one is NULL, which \<open>atoi\<close> would dereference.\<close>

fun plane_args :: "string list \<Rightarrow> plane_opts \<Rightarrow> plane_opts option" where
  "plane_args [] opts = Some opts"
| "plane_args (a # argv) opts =
    (if arg_char a 0 = CHR ''-''
     then if arg_char a 1 = CHR ''a'' \<or> arg_char a 1 = CHR ''c'' \<or> arg_char a 1 = CHR ''s''
       then case argv of
              [] \<Rightarrow> None
            | n # argv \<Rightarrow> Option.bind (plane_atoi n) (\<lambda>v.
                plane_args argv
                  (if arg_char a 1 = CHR ''a'' then opts\<lparr>o_altitude := v\<rparr>
                   else if arg_char a 1 = CHR ''c'' then opts\<lparr>o_color := of_int v\<rparr>
                   else opts\<lparr>o_slowdown := v\<rparr>))
       else if arg_char a 1 = CHR ''e'' then plane_args argv (opts\<lparr>o_plane := plane_help\<rparr>)
       else plane_args argv (opts\<lparr>o_helpmode := True\<rparr>)
     else plane_args argv (opts\<lparr>o_helpmode := True\<rparr>))"

definition plane_main :: "string list \<Rightarrow> 'a uprog_scheme \<Rightarrow> ('a uprog_scheme \<times> int) option" where
  "plane_main argv st = Option.bind (plane_args (tl argv) plane_defaults) (\<lambda>opts.
    if o_helpmode opts
    then Some (fprintf_reset (fst (draw_art draw_char plane_help (screen_rows - o_altitude opts) 0 (o_color opts) st)), 0)
    else map_option (\<lambda>st. (st, 0)) (fly (o_plane opts) (o_altitude opts) (o_color opts) (o_slowdown opts) st))"

definition plane_raw_start :: "string list \<Rightarrow> 'a uprog_scheme \<Rightarrow> ('a uprog_scheme \<times> int) option" where
  "plane_raw_start argv st = Option.bind (plane_args (tl argv) plane_defaults) (\<lambda>opts.
    if o_helpmode opts
    then Some (fst (draw_art draw_char_raw plane_help (screen_rows - o_altitude opts) 0 (o_color opts) st), 0)
    else map_option (\<lambda>st. (st, 0)) (fly_raw (o_plane opts) (o_altitude opts) (o_color opts) (o_slowdown opts) st))"

section \<open>Drawing on a canvas\<close>

definition art_width :: "string list \<Rightarrow> nat" where
  "art_width art = foldr (\<lambda>row. max (length row - 1)) art 0"

lemma art_width_ge: "i < length art \<Longrightarrow> length (art ! i) - 1 \<le> art_width art"
proof (induction art arbitrary: i)
  case (Cons row art)
  then show ?case by (cases i) (fastforce simp: art_width_def)+
qed simp

definition drawable :: "string list \<Rightarrow> bool" where
  "drawable art \<longleftrightarrow> (\<forall>row\<in>set art. \<forall>ch\<in>set row. isprint (schar ch))"

lemma draw_row_width: "0 \<le> artcol \<Longrightarrow> snd (draw_row draw row r c col artcol (st, w)) =
    (if row = [] then w else max w (artcol + int (length row) - 1))"
proof (induction row arbitrary: artcol st w)
  case (Cons ch row)
  then show ?case by (auto simp: max_def)
qed simp

lemma draw_rows_width: "0 \<le> w \<Longrightarrow> snd (draw_rows draw art r c col artrow (st, w)) = max w (int (art_width art))"
proof (induction art arbitrary: artrow st w)
  case (Cons row art)
  obtain st1 w1 where 1: "draw_row draw row (r + artrow) c col 0 (st, w) = (st1, w1)" by force
  have "w1 = (if row = [] then w else max w (int (length row) - 1))"
    using draw_row_width [of 0 draw row "r + artrow" c col st w] 1 by simp
  then show ?case using Cons.IH [of w1 "artrow + 1" st1] Cons.prems 1 by (auto simp: art_width_def max_def of_nat_diff Suc_le_eq)
qed (simp add: art_width_def)

lemma draw_art_width: "snd (draw_art draw art r c col st) = int (art_width art)"
  by (simp add: draw_art_def draw_rows_width)

text \<open>What a cell shows when the art has flown by, where it showed \<open>old\<close> before: the last character of the row, if there is one.\<close>

definition flown :: "string list \<Rightarrow> int \<Rightarrow> u8 \<Rightarrow> int \<Rightarrow> char \<times> int \<Rightarrow> char \<times> int" where
  "flown art r col x old =
    (if r \<le> x \<and> x < r + int (length art) \<and> art ! nat (x - r) \<noteq> [] then (last (art ! nat (x - r)), uint col) else old)"

text \<open>The canvas is a state \<open>st\<close> with cells; \<open>good\<close> states can be drawn on.\<close>

locale canvas =
  fixes draw :: "'s painter"
    and cell :: "'s \<Rightarrow> int \<Rightarrow> int \<Rightarrow> char \<times> int"
    and good :: "'s \<Rightarrow> bool"
  assumes draw_good: "good st \<Longrightarrow> isprint (schar ch) \<Longrightarrow> good (draw r c ch col st)"
    and draw_cell: "good st \<Longrightarrow> isprint (schar ch) \<Longrightarrow> on_screen x y \<Longrightarrow>
      cell (draw r c ch col st) x y = (if x = r \<and> y = c then (ch, uint col) else cell st x y)"
begin

lemma row_cells:
  assumes "good st" "\<forall>ch\<in>set row. isprint (schar ch)"
  shows "good (fst (draw_row draw row r c col k (st, w))) \<and> (on_screen x y \<longrightarrow>
    cell (fst (draw_row draw row r c col k (st, w))) x y =
      (if x = r \<and> c + k \<le> y \<and> y < c + k + int (length row) then (row ! nat (y - c - k), uint col) else cell st x y))"
  using assms
proof (induction row arbitrary: k st w)
  case (Cons ch row)
  let ?st = "draw r (c + k) ch col st"
  have g: "good ?st" using Cons.prems by (auto intro: draw_good)
  have n: "nat (y - c - k) = Suc (nat (y - c - (k + 1)))" if "c + k < y" using that by linarith
  show ?case
    using Cons.IH [OF g, of "k + 1"] Cons.prems draw_cell [of st ch x y r "c + k" col] by (auto simp: n)
qed auto

lemma rows_cells:
  assumes "good st" "drawable art"
  shows "good (fst (draw_rows draw art r c col k (st, w))) \<and> (on_screen x y \<longrightarrow>
    cell (fst (draw_rows draw art r c col k (st, w))) x y =
      (if r + k \<le> x \<and> x < r + k + int (length art) \<and> c \<le> y \<and> y < c + int (length (art ! nat (x - r - k)))
       then (art ! nat (x - r - k) ! nat (y - c), uint col) else cell st x y))"
  using assms
proof (induction art arbitrary: k st w)
  case (Cons row art)
  obtain st1 w1 where 1: "draw_row draw row (r + k) c col 0 (st, w) = (st1, w1)" by force
  have row: "\<forall>ch\<in>set row. isprint (schar ch)" "drawable art" using Cons.prems by (auto simp: drawable_def)
  note cells = row_cells [OF Cons.prems(1) row(1), of "r + k" c col 0 w x y, unfolded 1]
  have n: "nat (x - r - k) = Suc (nat (x - r - (k + 1)))" if "r + k < x" using that by linarith
  consider "x = r + k" | "x < r + k" | "r + k < x" by linarith
  then show ?case using Cons.IH [of st1 "k + 1" w1] cells row(2) 1 by cases (auto simp: n)
qed auto

lemma art_cells:
  assumes "good st" "drawable art"
  shows "good (fst (draw_art draw art r c col st))"
    and "on_screen x y \<Longrightarrow> cell (fst (draw_art draw art r c col st)) x y =
      (if r \<le> x \<and> x < r + int (length art) \<and> c \<le> y \<and> y < c + int (length (art ! nat (x - r)))
       then (art ! nat (x - r) ! nat (y - c), uint col) else cell st x y)"
  using rows_cells [OF assms, of r c col 0 0 x y] by (simp_all add: draw_art_def)

text \<open>The loop of \<open>fly\<close> from column \<open>c\<close> on: every cell that a row passes keeps the last character of the row.\<close>

lemma fly_loop_cells:
  assumes "good st" "drawable art" "0 \<le> slow" "slow < 31" "- int (art_width art) - 1 \<le> c"
  shows "\<exists>st'. fly_loop draw art r col slow c (int (art_width art)) st = Some st' \<and> good st' \<and>
    (\<forall>x y. on_screen x y \<longrightarrow> cell st' x y =
      (if r \<le> x \<and> x < r + int (length art) \<and> art ! nat (x - r) \<noteq> [] \<and> y < c + int (length (art ! nat (x - r)))
       then (last (art ! nat (x - r)), uint col) else cell st x y))"
  using assms(1,5)
proof (induction "nat (c + int (art_width art) + 1)" arbitrary: c st)
  case 0
  have "\<not> y < c + int (length (art ! nat (x - r)))" if "on_screen x y" "r \<le> x" "x < r + int (length art)" for x y
  proof -
    have "nat (x - r) < length art" using that by linarith
    then show ?thesis using 0 that(1) art_width_ge [of "nat (x - r)" art] by (auto simp: on_screen_def)
  qed
  then show ?case using 0 by (subst fly_loop.simps) (auto simp: on_screen_def)
next
  case (Suc k)
  let ?st = "fst (draw_art draw art r c col st)"
  have st: "draw_art draw art r c col st = (?st, int (art_width art))" by (simp add: prod_eq_iff draw_art_width)
  have k: "k = nat (c - 1 + int (art_width art) + 1)" "- int (art_width art) - 1 \<le> c - 1" using Suc.hyps(2) by linarith+
  obtain st' where st': "fly_loop draw art r col slow (c - 1) (int (art_width art)) ?st = Some st'" "good st'"
    "\<And>x y. on_screen x y \<Longrightarrow> cell st' x y =
      (if r \<le> x \<and> x < r + int (length art) \<and> art ! nat (x - r) \<noteq> [] \<and> y < c - 1 + int (length (art ! nat (x - r)))
       then (last (art ! nat (x - r)), uint col) else cell ?st x y)"
    using Suc.hyps(1) [OF k(1) art_cells(1) [OF Suc.prems(1) assms(2)] k(2)] by blast
  have "fly_loop draw art r col slow c (int (art_width art)) st = Some st'"
    using k(2) assms(3,4) st'(1) by (subst fly_loop.simps, subst st) (simp add: delay_loop_def)
  moreover have "cell st' x y =
      (if r \<le> x \<and> x < r + int (length art) \<and> art ! nat (x - r) \<noteq> [] \<and> y < c + int (length (art ! nat (x - r)))
       then (last (art ! nat (x - r)), uint col) else cell st x y)" if "on_screen x y" for x y
  proof -
    define row where "row = art ! nat (x - r)"
    have l: "c \<le> y" "row ! nat (y - c) = last row"
      if row: "row \<noteq> []" and y: "y < c + int (length row)" "\<not> y < c - 1 + int (length row)"
    proof -
      show "c \<le> y" using row y by (cases row) auto
      have "nat (y - c) = length row - 1" using y by linarith
      then show "row ! nat (y - c) = last row" using row by (simp add: last_conv_nth)
    qed
    show ?thesis
      using st'(3) [OF that] art_cells(2) [OF Suc.prems(1) assms(2) that, of r c col] l unfolding row_def [symmetric]
      by (cases "row = []") auto
  qed
  ultimately show ?case using st'(2) by blast
qed

text \<open>The last frame starts \<open>width\<close> columns left of the screen.\<close>

lemma fly_loop_last:
  assumes "good st" "drawable art" "- int (art_width art) \<le> c" "fly_loop draw art r col slow c (int (art_width art)) st = Some st'"
  shows "\<exists>st0. good st0 \<and> st' = fst (draw_art draw art r (- int (art_width art)) col st0)"
  using assms
proof (induction "nat (c + int (art_width art))" arbitrary: c st)
  case (0 c st)
  then have c: "c = - int (art_width art)" by linarith
  have "fly_loop draw art r col slow (c - 1) (int (art_width art)) st1 = Some st1" for st1
    by (subst fly_loop.simps) (simp add: c)
  then show ?case using 0 draw_art_width [of draw art r c col st] unfolding c
    by (subst (asm) fly_loop.simps) (auto simp: bind_eq_Some_conv split: prod.splits)
next
  case (Suc k)
  let ?st = "fst (draw_art draw art r c col st)"
  have k: "k = nat (c - 1 + int (art_width art))" "- int (art_width art) \<le> c - 1" using Suc.hyps(2) by linarith+
  have "fly_loop draw art r col slow (c - 1) (int (art_width art)) ?st = Some st'"
    using Suc.prems draw_art_width [of draw art r c col st]
    by (subst (asm) fly_loop.simps) (auto simp: bind_eq_Some_conv split: prod.splits)
  then show ?case using Suc.hyps(1) [OF k(1) art_cells(1) [OF Suc.prems(1,2)] Suc.prems(2) k(2)] by blast
qed

lemma fly_cells:
  assumes "good st" "drawable art" "0 \<le> slow" "slow < 31"
  shows "\<exists>st' st0. fly_with draw art alt col slow st = Some st' \<and> good st' \<and>
    good st0 \<and> st' = fst (draw_art draw art (screen_rows - alt) (- int (art_width art)) col st0) \<and>
    (\<forall>x y. on_screen x y \<longrightarrow> cell st' x y = flown art (screen_rows - alt) col x (cell st x y))"
proof -
  have w: "fly_loop draw art r col slow screen_cols 0 st = fly_loop draw art r col slow screen_cols (int (art_width art)) st" for r
    by (subst (1 2) fly_loop.simps) (simp add: screen_cols_def)
  have y: "y < screen_cols + int n" if "on_screen x y" for x y and n
    using that by (auto simp: on_screen_def)
  from fly_loop_cells [OF assms, of screen_cols "screen_rows - alt" col] obtain st' where st':
    "fly_loop draw art (screen_rows - alt) col slow screen_cols (int (art_width art)) st = Some st'" "good st'"
    "\<forall>x y. on_screen x y \<longrightarrow> cell st' x y = flown art (screen_rows - alt) col x (cell st x y)"
    using y by (fastforce simp: screen_cols_def flown_def)
  from fly_loop_last [OF assms(1,2) _ this(1)] obtain st0 where
    "good st0" "st' = fst (draw_art draw art (screen_rows - alt) (- int (art_width art)) col st0)"
    by (auto simp: screen_cols_def)
  then show ?thesis using st' w by (auto simp: fly_with_def)
qed

end

section \<open>The video memory as a canvas\<close>

definition cell_raw :: "'a uprog_scheme \<Rightarrow> int \<Rightarrow> int \<Rightarrow> char \<times> int" where
  "cell_raw st x y =
    (let a = screen_addr + 2 * nat (x * screen_cols + y) in (umem st a, uchar (umem st (a + 1))))"

lemma cell_pos_inj:
  assumes "on_screen x y" "on_screen r c"
  shows "nat (x * screen_cols + y) = nat (r * screen_cols + c) \<longleftrightarrow> x = r \<and> y = c"
proof
  assume "nat (x * screen_cols + y) = nat (r * screen_cols + c)"
  then have "x * 80 + y = r * 80 + c" using assms by (auto simp: on_screen_def screen_cols_def)
  moreover have "0 \<le> y" "y < 80" "0 \<le> c" "c < 80" using assms by (auto simp: on_screen_def screen_cols_def)
  ultimately show "x = r \<and> y = c" by (cases x r rule: linorder_cases) linarith+
qed simp

lemma uchar_color: "uchar (to_char (uint (col :: u8))) = uint col"
  using unsigned_less [where ?'a = int, of col] by simp

interpretation video: canvas draw_char_raw cell_raw "\<lambda>st :: 'a uprog_scheme. True"
proof
  fix st :: "'a uprog_scheme" and ch r c x y and col :: u8
  assume on: "on_screen x y"
  show "cell_raw (draw_char_raw r c ch col st) x y = (if x = r \<and> y = c then (ch, uint col) else cell_raw st x y)"
  proof (cases "on_screen r c")
    case True
    define p q where "p = nat (x * screen_cols + y)" and "q = nat (r * screen_cols + c)"
    have "p = q \<longleftrightarrow> x = r \<and> y = c" using cell_pos_inj [OF on True] by (simp add: p_def q_def)
    then show ?thesis
      using True uchar_color [of col]
      by (auto simp: cell_raw_def draw_char_raw_def Let_def p_def [symmetric] q_def [symmetric] mem_write_def colorchar_bytes_def nth_Cons')
  next
    case False
    then show ?thesis using on by (auto simp: draw_char_raw_def)
  qed
qed simp

section \<open>The terminal as a canvas\<close>

text \<open>A control sequence has numeric parameters, the last one first in \<open>Csi\<close>.\<close>

datatype tmode = Ground | Escape | Csi nat "nat list"

record terminal =
  t_mode :: tmode
  t_row :: int
  t_col :: int
  t_fg :: nat
  t_cells :: "int \<Rightarrow> int \<Rightarrow> char \<times> int"

definition t_put :: "char \<Rightarrow> terminal \<Rightarrow> terminal" where
  "t_put ch t = t\<lparr>t_cells := (t_cells t)(t_row t := (t_cells t (t_row t))(t_col t := (ch, int (t_fg t)))),
    t_col := min (t_col t + 1) (screen_cols - 1)\<rparr>"

definition t_erase :: "(int \<Rightarrow> int \<Rightarrow> bool) \<Rightarrow> terminal \<Rightarrow> terminal" where
  "t_erase P t = t\<lparr>t_cells := (\<lambda>r c. if P r c then (CHR '' '', int (t_fg t)) else t_cells t r c)\<rparr>"

definition behind_cursor :: "terminal \<Rightarrow> int \<Rightarrow> int \<Rightarrow> bool" where
  "behind_cursor t r c \<longleftrightarrow> t_row t < r \<or> t_row t = r \<and> t_col t \<le> c"

definition t_control :: "char \<Rightarrow> nat list \<Rightarrow> terminal \<Rightarrow> terminal" where
  "t_control ch ps t =
    (if ch = CHR ''H'' \<and> length ps = 2 then t\<lparr>t_row := int (ps ! 0) - 1, t_col := int (ps ! 1) - 1\<rparr>
     else if ch = CHR ''m'' \<and> length ps = 3 \<and> take 2 ps = [38, 5] then t\<lparr>t_fg := ps ! 2\<rparr>
     else if ch = CHR ''A'' \<and> length ps = 1 then t\<lparr>t_row := max 0 (t_row t - int (ps ! 0))\<rparr>
     else if ch = CHR ''B'' \<and> length ps = 1 then t\<lparr>t_row := t_row t + int (ps ! 0)\<rparr>
     else if ch = CHR ''G'' \<and> length ps = 1 then t\<lparr>t_col := int (ps ! 0) - 1\<rparr>
     else if ch = CHR ''J'' \<and> ps = [0] then t_erase (behind_cursor t) t
     else if ch = CHR ''J'' \<and> ps = [1] then t_erase (\<lambda>r c. \<not> behind_cursor t r c \<or> r = t_row t \<and> c = t_col t) t
     else if ch = CHR ''J'' \<and> ps = [2] then t_erase (\<lambda>r c. True) t
     else t)"

definition term_step :: "char \<Rightarrow> terminal \<Rightarrow> terminal" where
  "term_step ch t =
    (case t_mode t of
       Ground \<Rightarrow> if ch = ESC then t\<lparr>t_mode := Escape\<rparr> else if isprint (schar ch) then t_put ch t else t
     | Escape \<Rightarrow> t\<lparr>t_mode := (if ch = CHR ''['' then Csi 0 [] else Ground)\<rparr>
     | Csi n ns \<Rightarrow>
         if isdigit (schar ch) then t\<lparr>t_mode := Csi (n * 10 + nat (schar ch - 48)) ns\<rparr>
         else if ch = CHR '';'' then t\<lparr>t_mode := Csi 0 (n # ns)\<rparr>
         else t_control ch (rev (n # ns)) (t\<lparr>t_mode := Ground\<rparr>))"

definition term0 :: terminal where
  "term0 = \<lparr>t_mode = Ground, t_row = 0, t_col = 0, t_fg = 7, t_cells = (\<lambda>_ _. (CHR '' '', 7))\<rparr>"

definition picture :: "'a uprog_scheme \<Rightarrow> terminal" where
  "picture st = fold term_step (uout st) term0"

definition ground :: "'a uprog_scheme \<Rightarrow> bool" where
  "ground st \<longleftrightarrow> t_mode (picture st) = Ground"

lemma picture_printf: "picture (fprintf_stdout fm va st) = fold term_step (fmt_text fm va) (picture st)"
  by (simp add: picture_def fprintf_stdout_def)

lemma digits_step:
  "t_mode t = Csi n ns \<Longrightarrow> \<forall>d\<in>set ds. d < 10 \<Longrightarrow> fold term_step (map digit_char ds) t = t\<lparr>t_mode := Csi (horner 10 n ds) ns\<rparr>"
proof (induction ds arbitrary: n t)
  case Nil
  then show ?case by (cases t) simp
next
  case (Cons d ds)
  then have "term_step (digit_char d) t = t\<lparr>t_mode := Csi (n * 10 + d) ns\<rparr>"
    by (simp add: term_step_def schar_digit_char isdigit_def)
  then show ?case using Cons.IH [of "t\<lparr>t_mode := Csi (n * 10 + d) ns\<rparr>" "n * 10 + d"] Cons.prems by simp
qed

text \<open>A number from the text is the parameter of the control sequence.\<close>

lemma dec_text_step:
  assumes "t_mode t = Csi 0 ns" "0 \<le> i" "i < 2 ^ 31"
  shows "fold term_step (dec_text i) t = t\<lparr>t_mode := Csi (nat i) ns\<rparr>"
proof -
  have "nat i < 2 ^ 64" using assms(3) by simp
  note md = min1_digits_props [of 10 "nat i", OF _ this, simplified]
  show ?thesis using digits_step [OF assms(1) md(1)] md(2) assms(2) by (simp add: dec_text_def)
qed

lemma control_text:
  assumes "t_mode t = Ground"
  shows "term_step (CHR ''['') (term_step ESC t) = t\<lparr>t_mode := Csi 0 []\<rparr>"
  using assms by (simp add: term_step_def)

lemma setpos_step:
  assumes "ground st" "- 1 \<le> r" "r < 2 ^ 31 - 1" "- 1 \<le> c" "c < 2 ^ 31 - 1"
  shows "picture (fprintf_setpos r c st) = picture st\<lparr>t_row := r, t_col := c\<rparr>"
proof -
  have "fmt_text (ESC # ''[%d;%dH'') [VWord (of_int (r + 1)), VWord (of_int (c + 1))] =
      ESC # CHR ''['' # dec_text (r + 1) @ CHR '';'' # dec_text (c + 1) @ ''H''"
    using assms printf_d [of "r + 1"] printf_d [of "c + 1"] by (simp add: fmt_text_def printf_lit ESC_def del: of_int_add)
  then have "picture (fprintf_setpos r c st) =
      fold term_step (dec_text (r + 1) @ CHR '';'' # dec_text (c + 1) @ ''H'') ((picture st)\<lparr>t_mode := Csi 0 []\<rparr>)"
    using assms(1) control_text [of "picture st"] by (simp add: fprintf_setpos_def picture_printf ground_def)
  also have "\<dots> = (picture st)\<lparr>t_mode := Ground, t_row := r, t_col := c\<rparr>"
    using assms by (simp add: dec_text_step term_step_def isdigit_def schar_def t_control_def)
  finally show ?thesis using assms(1) by (simp add: ground_def)
qed

lemma setcolor_step:
  assumes "ground st" "0 \<le> fg" "fg < 2 ^ 31"
  shows "picture (fprintf_setcolor fg st) = (picture st)\<lparr>t_fg := nat fg\<rparr>"
proof -
  have "fmt_text (ESC # ''[38;5;%dm'') [VWord (of_int fg)] = ESC # CHR ''['' # ''38;5;'' @ dec_text fg @ ''m''"
    using assms printf_d [of fg] by (simp add: fmt_text_def printf_lit ESC_def)
  then have "picture (fprintf_setcolor fg st) = fold term_step (''38;5;'' @ dec_text fg @ ''m'') ((picture st)\<lparr>t_mode := Csi 0 []\<rparr>)"
    using assms(1) control_text [of "picture st"] by (simp add: fprintf_setcolor_def picture_printf ground_def)
  also have "\<dots> = (picture st)\<lparr>t_mode := Ground, t_fg := nat fg\<rparr>"
    using assms by (simp add: dec_text_step term_step_def isdigit_def schar_def t_control_def)
  finally show ?thesis using assms(1) by (simp add: ground_def)
qed

lemma erasedisplay_step:
  assumes "ground st"
  shows "picture (fprintf_erasedisplay U_ED_CUR_TO_END st) = t_erase (behind_cursor (picture st)) (picture st)"
    and "picture (fprintf_erasedisplay U_ED_SCREEN st) = t_erase (\<lambda>r c. True) (picture st)"
proof -
  have t: "fmt_text (ESC # ''[%dJ'') [VWord (of_int i)] = ESC # CHR ''['' # dec_text i @ ''J''" if "0 \<le> i" "i < 2 ^ 31" for i
    using that printf_d [of i] by (simp add: fmt_text_def printf_lit ESC_def)
  have p: "picture (fprintf_erasedisplay i st) = fold term_step (dec_text i @ ''J'') ((picture st)\<lparr>t_mode := Csi 0 []\<rparr>)"
    if "0 \<le> i" "i < 2 ^ 31" for i
    using assms(1) control_text [of "picture st"] t [OF that]
    by (simp add: fprintf_erasedisplay_def picture_printf ground_def)
  have m: "t\<lparr>t_mode := Ground\<rparr> = t" if "t_mode t = Ground" for t :: terminal using that by simp
  show "picture (fprintf_erasedisplay U_ED_CUR_TO_END st) = t_erase (behind_cursor (picture st)) (picture st)"
    using assms p [of 0] m [of "picture st"]
    by (simp add: U_ED_CUR_TO_END_def dec_text_step term_step_def isdigit_def schar_def t_control_def ground_def)
  show "picture (fprintf_erasedisplay U_ED_SCREEN st) = t_erase (\<lambda>r c. True) (picture st)"
    using assms p [of 2] m [of "picture st"]
    by (simp add: U_ED_SCREEN_def dec_text_step term_step_def isdigit_def schar_def t_control_def ground_def)
qed

lemma printf_ch:
  assumes "to_char (uint v) = ch" "ch \<noteq> NUL"
  shows "printf_text (CHR ''%'' # CHR ''c'' # fm) (VWord v # args) = prepend [ch] (printf_text fm args)"
  using assms by (intro printf_conv) (simp add: spec_text_eval)

lemma printf_printable:
  assumes "isprint (schar ch)"
  shows "fmt_text ''%c'' [VWord (of_int (schar ch))] = [ch]"
proof -
  have "0 \<le> schar ch" "schar ch < 2 ^ 32" using assms schar_range [of ch] by (auto simp: isprint_def)
  then have "uint (of_int (schar ch) :: u32) = schar ch" by (simp add: uint_word_of_int)
  then have "to_char (uint (of_int (schar ch) :: u32)) = ch" "ch \<noteq> NUL" using assms by (auto simp: isprint_def)
  then show ?thesis using printf_ch [of _ ch "''''" "[]"] by (simp add: fmt_text_def)
qed

lemma draw_char_picture:
  assumes "ground st" "isprint (schar ch)" "on_screen r c"
  shows "picture (draw_char r c ch col st) = t_put ch ((picture st)\<lparr>t_row := r, t_col := c, t_fg := unat col\<rparr>)"
proof -
  have b: "- 1 \<le> r" "r < 2 ^ 31 - 1" "- 1 \<le> c" "c < 2 ^ 31 - 1"
    using assms(3) by (auto simp: on_screen_def screen_rows_def screen_cols_def)
  have col: "0 \<le> uint col" "uint col < 2 ^ 31" using unsigned_less [where ?'a = int, of col] by auto
  let ?s = "fprintf_setpos r c st" and ?t = "fprintf_setcolor (uint col) (fprintf_setpos r c st)"
  have g: "ground ?s" using assms(1) setpos_step [OF assms(1) b] by (simp add: ground_def)
  have p: "picture ?t = (picture st)\<lparr>t_row := r, t_col := c, t_fg := unat col\<rparr>"
    using setpos_step [OF assms(1) b] setcolor_step [OF g col] by simp
  have "ch \<noteq> ESC" using assms(2) by (auto simp: ESC_def isprint_def isgraph_def schar_def)
  then show ?thesis
    using assms p by (simp add: draw_char_def picture_printf printf_printable term_step_def ground_def)
qed

interpretation tterm: canvas draw_char "\<lambda>st. t_cells (picture st)" "ground :: 'a uprog_scheme \<Rightarrow> bool"
proof
  fix st :: "'a uprog_scheme" and ch r c and col :: u8
  assume a: "ground st" "isprint (schar ch)"
  show "ground (draw_char r c ch col st)"
    using a draw_char_picture [OF a, of r c col] by (cases "on_screen r c") (auto simp: draw_char_def ground_def t_put_def)
  fix x y
  assume on: "on_screen x y"
  show "t_cells (picture (draw_char r c ch col st)) x y = (if x = r \<and> y = c then (ch, uint col) else t_cells (picture st) x y)"
  proof (cases "on_screen r c")
    case True
    then show ?thesis using draw_char_picture [OF a True, of col] by (simp add: t_put_def)
  qed (use on in \<open>auto simp: draw_char_def\<close>)
qed

section \<open>Flying\<close>

lemma plane_drawable: "drawable plane_art" "drawable plane_help"
  by (simp_all add: drawable_def plane_art_def plane_help_def isprint_def isgraph_def schar_def Let_def)

lemma draw_row_snoc:
  "fst (draw_row draw (row @ [ch]) r c col k (st, w)) = draw r (c + k + int (length row)) ch col (fst (draw_row draw row r c col k (st, w)))"
proof (induction row arbitrary: k st w)
  case (Cons a row)
  then show ?case by (simp add: algebra_simps)
qed simp

lemma draw_rows_snoc:
  "draw_rows draw (art @ [row]) r c col k sw = draw_row draw row (r + k + int (length art)) c col 0 (draw_rows draw art r c col k sw)"
proof (induction art arbitrary: k sw)
  case (Cons a art)
  then show ?case by (simp add: algebra_simps)
qed simp

text \<open>After the last frame the cursor is behind the one character of the last row that is on the screen.\<close>

lemma last_frame_cursor:
  fixes col :: u8
  assumes "ground st" "drawable art" "art \<noteq> []" "length (last art) = art_width art + 1" "on_screen (r + int (length art) - 1) 0"
  defines "p \<equiv> picture (fst (draw_art draw_char art r (- int (art_width art)) col st))"
  shows "t_row p = r + int (length art) - 1 \<and> t_col p = 1"
proof -
  obtain front row ch where art: "art = front @ [row @ [ch]]" "length row = art_width art"
    using assms(3,4) by (metis append_butlast_last_id length_0_conv length_append_singleton add_is_0 zero_neq_one Suc_eq_plus1 nat.inject)
  define c where "c = - int (length row)"
  obtain st1 w1 where 1: "draw_rows draw_char front r c col 0 (st, 0) = (st1, w1)" by force
  have d: "drawable front" "\<forall>a\<in>set row. isprint (schar a)" "isprint (schar ch)" using assms(2) unfolding art(1) by (auto simp: drawable_def)
  have "ground st1" using tterm.rows_cells [OF assms(1) d(1), of r c col 0 0] 1 by simp
  then have g: "ground (fst (draw_row draw_char row (r + int (length front)) c col 0 (st1, w1)))"
    using tterm.row_cells [OF _ d(2)] by blast
  have on: "on_screen (r + int (length front)) 0" using assms(5) unfolding art(1) by simp
  have "fst (draw_art draw_char art r c col st) =
      draw_char (r + int (length front)) 0 ch col (fst (draw_row draw_char row (r + int (length front)) c col 0 (st1, w1)))"
    using draw_row_snoc [of draw_char row ch "r + int (length front)" c col 0 st1 w1]
    by (simp add: draw_art_def art(1) draw_rows_snoc 1) (simp add: c_def)
  then have "p = t_put ch ((picture (fst (draw_row draw_char row (r + int (length front)) c col 0 (st1, w1))))
      \<lparr>t_row := r + int (length front), t_col := 0, t_fg := unat col\<rparr>)"
    using draw_char_picture [OF g d(3) on, of col] by (simp add: p_def c_def flip: art(2))
  then show ?thesis by (simp add: t_put_def art(1) screen_cols_def)
qed

lemma reset_picture:
  assumes "ground st"
  shows "picture (fprintf_reset st) = t_erase (behind_cursor (picture st)) ((picture st)\<lparr>t_fg := 7\<rparr>)" "ground (fprintf_reset st)"
proof -
  have c: "picture (fprintf_setcolor (uint U_GREY_ON_BLACK) st) = (picture st)\<lparr>t_fg := 7\<rparr>"
    using setcolor_step [OF assms, of 7] by (simp add: U_GREY_ON_BLACK_def)
  then have "ground (fprintf_setcolor (uint U_GREY_ON_BLACK) st)" using assms by (simp add: ground_def)
  from erasedisplay_step(1) [OF this] show p: "picture (fprintf_reset st) = t_erase (behind_cursor (picture st)) ((picture st)\<lparr>t_fg := 7\<rparr>)"
    by (simp add: fprintf_reset_def c behind_cursor_def [abs_def])
  show "ground (fprintf_reset st)" using assms by (simp add: ground_def p t_erase_def)
qed

text \<open>
  Property C30. What the two planes leave on the screen. Let the art have no control characters, let its last row be as long as any other and fly
  on the screen, and let the delay be defined. Then \<open>fly\<close> of \<open>plane.c\<close> and of \<open>plane-raw.c\<close> end. In the video memory every cell that a row of the art has
  passed keeps the last character of the row, in the colour of the plane, and every other cell of the screen is as before. If the terminal showed at the
  start what the video memory showed, it shows the same at the end in the rows above the last row of the art and in the first cell of that row. The cells
  from there on are blank and grey, because \<open>plane.c\<close> ends with \<open>fprintf_reset\<close>, which erases from the cursor to the end of the display;
  \<open>plane-raw.c\<close> leaves them.
\<close>

theorem plane_variants_draw:
  assumes "drawable art" "0 \<le> slow" "slow < 31" "ground st"
    and "\<forall>x y. on_screen x y \<longrightarrow> t_cells (picture st) x y = cell_raw vst x y"
    and "art \<noteq> []" "length (last art) = art_width art + 1"
    and lastrow: "lastrow = screen_rows - alt + int (length art) - 1" "on_screen lastrow 0"
  shows "\<exists>st' vst'. fly art alt col slow st = Some st' \<and> fly_raw art alt col slow vst = Some vst' \<and> ground st' \<and>
    (\<forall>x y. on_screen x y \<longrightarrow> cell_raw vst' x y = flown art (screen_rows - alt) col x (cell_raw vst x y) \<and>
      t_cells (picture st') x y = (if x < lastrow \<or> x = lastrow \<and> y = 0 then cell_raw vst' x y else (CHR '' '', 7)))"
proof -
  from tterm.fly_cells [OF assms(4,1-3), of alt col] obtain st1 st0 where st1: "fly_with draw_char art alt col slow st = Some st1" "ground st1"
    "ground st0" "st1 = fst (draw_art draw_char art (screen_rows - alt) (- int (art_width art)) col st0)"
    "\<forall>x y. on_screen x y \<longrightarrow> t_cells (picture st1) x y = flown art (screen_rows - alt) col x (t_cells (picture st) x y)" by metis
  from video.fly_cells [OF TrueI assms(1-3), of alt col vst] obtain vst' where vst': "fly_with draw_char_raw art alt col slow vst = Some vst'"
    "\<forall>x y. on_screen x y \<longrightarrow> cell_raw vst' x y = flown art (screen_rows - alt) col x (cell_raw vst x y)" by metis
  have "t_row (picture st1) = lastrow" "t_col (picture st1) = 1"
    using last_frame_cursor [OF st1(3) assms(1,6,7), of "screen_rows - alt" col] lastrow unfolding st1(4) by simp_all
  then have "t_cells (picture (fprintf_reset st1)) x y =
      (if x < lastrow \<or> x = lastrow \<and> y = 0 then t_cells (picture st1) x y else (CHR '' '', 7))" if "on_screen x y" for x y
    using that unfolding reset_picture(1) [OF st1(2)] by (auto simp: t_erase_def behind_cursor_def on_screen_def)
  then show ?thesis
    using st1(1,5) vst' reset_picture(2) [OF st1(2)] assms(5) by (auto simp: fly_def fly_raw_def)
qed

definition empty_screen :: uprog where
  "empty_screen = \<lparr>umem = \<lambda>a. if even a then CHR '' '' else CHR 0x07, uout = ''''\<rparr>"

theorem plane_variants_draw_witness:
  "\<exists>st' vst'. fly plane_art 22 U_GREY_ON_BLACK 24 empty_screen = Some st' \<and>
    fly_raw plane_art 22 U_GREY_ON_BLACK 24 empty_screen = Some vst' \<and> cell_raw vst' 4 10 = (CHR '' '', 7) \<and>
    t_cells (picture st') 4 10 = (CHR '' '', 7) \<and> t_cells (picture st') 20 0 = (CHR '' '', 7)"
proof -
  have g: "ground empty_screen" "\<forall>x y. on_screen x y \<longrightarrow> t_cells (picture empty_screen) x y = cell_raw empty_screen x y"
    by (simp_all add: empty_screen_def ground_def picture_def term0_def cell_raw_def screen_addr_def uchar_def Let_def)
  have "plane_art \<noteq> []" "length (last plane_art) = art_width plane_art + 1"
    "6 = screen_rows - 22 + int (length plane_art) - 1" "on_screen 6 0"
    by (simp_all add: plane_art_def art_width_def on_screen_def screen_rows_def screen_cols_def)
  from plane_variants_draw [OF plane_drawable(1) _ _ g this, of 24 U_GREY_ON_BLACK] obtain st' vst' where
    "fly plane_art 22 U_GREY_ON_BLACK 24 empty_screen = Some st'"
    "fly_raw plane_art 22 U_GREY_ON_BLACK 24 empty_screen = Some vst'"
    "\<And>x y. on_screen x y \<Longrightarrow> cell_raw vst' x y = flown plane_art (screen_rows - 22) U_GREY_ON_BLACK x (cell_raw empty_screen x y) \<and>
      t_cells (picture st') x y = (if x < 6 \<or> x = 6 \<and> y = 0 then cell_raw vst' x y else (CHR '' '', 7))" by auto
  moreover have "on_screen 4 10" "on_screen 20 0" by (simp_all add: on_screen_def screen_rows_def screen_cols_def)
  moreover have "flown plane_art (screen_rows - 22) U_GREY_ON_BLACK 4 (cell_raw empty_screen 4 10) = (CHR '' '', 7)"
    by (simp add: flown_def plane_art_def screen_rows_def U_GREY_ON_BLACK_def)
  ultimately show ?thesis by (intro exI conjI) auto
qed

text \<open>Whatever the switches are, the plane and the help text that \<open>-e\<close> flies instead end in spaces, so that they wipe their traces.\<close>

lemma plane_args_plane:
  "plane_args argv opts = Some opts' \<Longrightarrow> o_plane opts \<in> {plane_art, plane_help} \<Longrightarrow> o_plane opts' \<in> {plane_art, plane_help}"
proof (induction argv opts rule: plane_args.induct)
  case (2 a argv opts)
  define k where "k = arg_char a 1"
  note IH = 2 [folded k_def]
  consider "arg_char a 0 = CHR ''-''" "k \<in> {CHR ''a'', CHR ''c'', CHR ''s''}" | "arg_char a 0 = CHR ''-''" "k = CHR ''e''"
    | "arg_char a 0 = CHR ''-''" "k \<notin> {CHR ''a'', CHR ''c'', CHR ''s'', CHR ''e''}" | "arg_char a 0 \<noteq> CHR ''-''" by blast
  then show ?case
  proof cases
    case 1
    with IH(5) obtain n argv' v where n: "argv = n # argv'" "plane_atoi n = Some v"
      "plane_args argv' (if k = CHR ''a'' then opts\<lparr>o_altitude := v\<rparr> else if k = CHR ''c'' then opts\<lparr>o_color := of_int v\<rparr>
        else opts\<lparr>o_slowdown := v\<rparr>) = Some opts'"
      unfolding plane_args.simps(2) k_def [symmetric] by (auto split: list.splits simp: bind_eq_Some_conv simp del: plane_args.simps(2))
    show ?thesis using IH(1) [OF 1(1) _ n] 1(2) IH(6) by auto
  qed (use IH in \<open>auto simp: k_def simp del: One_nat_def\<close>)
qed simp

lemma flown_plane:
  assumes "art \<in> {plane_art, plane_help}"
  shows "flown art r col x old = (if r \<le> x \<and> x < r + 4 then (CHR '' '', uint col) else old)"
proof -
  have l: "length art = 4" using assms by (auto simp: plane_art_def plane_help_def)
  have "art ! k \<noteq> [] \<and> last (art ! k) = CHR '' ''" if "k < 4" for k
    using assms that by (auto simp: plane_art_def plane_help_def less_Suc_eq numeral_eq_Suc)
  moreover have "nat (x - r) < 4" if "x < r + 4" using that by linarith
  ultimately show ?thesis using l by (auto simp: flown_def)
qed

theorem plane_leaves_no_trace:
  assumes "plane_args (tl argv) plane_defaults = Some opts" "\<not> o_helpmode opts" "0 \<le> o_slowdown opts" "o_slowdown opts < 31"
  shows "\<exists>st'. plane_raw_start argv st = Some (st', 0) \<and>
    (\<forall>x y. on_screen x y \<longrightarrow> cell_raw st' x y =
      (if screen_rows - o_altitude opts \<le> x \<and> x < screen_rows - o_altitude opts + 4 then (CHR '' '', uint (o_color opts)) else cell_raw st x y))"
proof -
  have art: "o_plane opts \<in> {plane_art, plane_help}"
    using plane_args_plane [OF assms(1)] by (simp add: plane_defaults_def)
  then have "drawable (o_plane opts)" using plane_drawable by auto
  from video.fly_cells [OF TrueI this assms(3,4), of "o_altitude opts" "o_color opts" st] obtain st' where
    "fly_with draw_char_raw (o_plane opts) (o_altitude opts) (o_color opts) (o_slowdown opts) st = Some st'"
    "\<forall>x y. on_screen x y \<longrightarrow> cell_raw st' x y = flown (o_plane opts) (screen_rows - o_altitude opts) (o_color opts) x (cell_raw st x y)"
    by metis
  then show ?thesis using assms(1,2) by (simp add: plane_raw_start_def fly_raw_def flown_plane [OF art])
qed

end
