(* ===== verification/Eraser.thy ===== *)
theory Eraser
  imports Plane "HOL-Library.Signed_Division"
begin

text \<open>
  The program that erases memory: \<open>process/eraser.c\<close> on a terminal, and \<open>process/eraser-raw.c\<close> in the video memory.

  The programs share their loops apart from the output of a cell of the map, which is a parameter here (\<open>shower\<close>); the locale \<open>map_display\<close> says
  which memory the output may change. Arguments are strings in the memory that the program erases, read again before they are used.

  The parameter \<open>spare\<close> says which addresses the program can write to without losing itself: they are mapped for it, and hold neither its code, its
  static data, its stack, nor the array \<open>argv\<close>. Processes are linked at 5 MiB, which is where the example of the help text erases. \<^const>\<open>None\<close> is a
  range with an address that is not spare, a division by zero, an undefined shift, or a NULL dereference.
\<close>

section \<open>Arguments\<close>

definition DARK_RED :: u8 where "DARK_RED = 0x04"

definition eraser_help :: "string \<Rightarrow> string list" where
  "eraser_help name =
    [''eraser args: '',
     ''   -s N    set slowdown    busy wait for 2^N loops per frame '',
     ''   N:M     erase M bytes starting at address N '',
     '''',
     ''example: '',
     ''   # Erase 0x4000 bytes starting at 5 MiB '',
     ''   '' @ name @ '' -s 22 0x500000:0x4000 '',
     '''',
     ''tip: '',
     ''   # Use the readelf tool to see what addresses to target '',
     ''   readelf -l out/i386-elf/process/eraser '']"

text \<open>The \<open>atoi\<close> of the program has the text of the one in the C library.\<close>

definition eraser_atoi :: "string \<Rightarrow> int" where
  "eraser_atoi a = atoi a"

fun after_colon :: "string \<Rightarrow> string" where
  "after_colon [] = []"
| "after_colon (ch # a) = (if ch = CHR '':'' then a else after_colon a)"

definition parse_mn :: "string \<Rightarrow> u32 \<times> u32" where
  "parse_mn a = (of_int (eraser_atoi a), of_int (eraser_atoi (after_colon a)))"

partial_function (option) arg_string :: "mem \<Rightarrow> nat \<Rightarrow> string option" where
  "arg_string m a = (if m a = NUL then Some [] else Option.bind (arg_string m (a + 1)) (\<lambda>s. Some (m a # s)))"

lemma arg_string_cstr: "cstr m a s \<Longrightarrow> arg_string m a = Some s"
proof (induction s arbitrary: a)
  case Nil
  then show ?case by (subst arg_string.simps) simp
next
  case (Cons c s)
  then show ?case by (subst arg_string.simps) simp
qed

fun arg_strings :: "mem \<Rightarrow> nat list \<Rightarrow> string list option" where
  "arg_strings m [] = Some []"
| "arg_strings m (a # argv) = Option.bind (arg_string m a) (\<lambda>s. map_option ((#) s) (arg_strings m argv))"

record eraser_opts =
  e_slowdown :: int
  e_helpmode :: bool
  e_min :: u32
  e_max :: u32

definition eraser_defaults :: eraser_opts where
  "eraser_defaults = \<lparr>e_slowdown = 20, e_helpmode = False, e_min = - 1, e_max = 0\<rparr>"

fun eraser_args :: "string list \<Rightarrow> eraser_opts \<Rightarrow> eraser_opts option" where
  "eraser_args [] opts = Some opts"
| "eraser_args (a # argv) opts =
    (if arg_char a 0 = CHR ''-''
     then if arg_char a 1 = CHR ''s''
       then case argv of
              [] \<Rightarrow> None
            | n # argv \<Rightarrow> eraser_args argv (opts\<lparr>e_slowdown := eraser_atoi n\<rparr>)
       else eraser_args argv (opts\<lparr>e_helpmode := True\<rparr>)
     else let (addr, sz) = parse_mn a;
              opts = (if addr < e_min opts then opts\<lparr>e_min := addr\<rparr> else opts);
              opts = (if addr + sz > e_max opts then opts\<lparr>e_max := addr + sz\<rparr> else opts)
          in eraser_args argv opts)"

section \<open>Erasing\<close>

text \<open>The cells of the map. Each stands for \<open>apc\<close> addresses; the loops go over the bytes of one cell.\<close>

function scan_cell :: "mem \<Rightarrow> u32 \<Rightarrow> u32 \<Rightarrow> u32 \<Rightarrow> u32 \<Rightarrow> bool \<Rightarrow> u32 \<times> bool" where
  "scan_cell m endbyte apc i byte found_data =
    (if byte < endbyte \<and> i < apc
     then scan_cell m endbyte apc (i + 1) (byte + 1) (if m (unat byte) \<noteq> NUL then True else found_data)
     else (byte, found_data))"
  by auto
termination
proof (relation "measure (\<lambda>(m, e, n, i, b, f). unat (e - b))")
  fix m :: mem and e n i b :: u32 and f :: bool
  assume "b < e \<and> i < n"
  then have "unat (e - (b + 1)) < unat (e - b)"
    by (metis diff_diff_eq measure_unat right_minus_eq order_less_irrefl)
  then show "((m, e, n, i + 1, b + 1, if m (unat b) \<noteq> NUL then True else f), (m, e, n, i, b, f)) \<in> measure (\<lambda>(m, e, n, i, b, f). unat (e - b))"
    by simp
qed simp

function erase_cell :: "mem \<Rightarrow> u32 \<Rightarrow> u32 \<Rightarrow> u32 \<Rightarrow> u32 \<Rightarrow> bool \<Rightarrow> u32 \<times> bool \<times> mem" where
  "erase_cell m endbyte apc i byte found_data =
    (if byte < endbyte \<and> i < apc
     then if m (unat byte) \<noteq> NUL
       then erase_cell (m(unat byte := NUL)) endbyte apc (i + 1) (byte + 1) True
       else erase_cell m endbyte apc (i + 1) (byte + 1) found_data
     else (byte, found_data, m))"
  by auto
termination
proof (relation "measure (\<lambda>(m, e, n, i, b, f). unat (e - b))")
  fix m :: mem and e n i b :: u32 and f :: bool
  assume "b < e \<and> i < n"
  then have "unat (e - (b + 1)) < unat (e - b)"
    by (metis diff_diff_eq measure_unat right_minus_eq order_less_irrefl)
  then show "((m(unat b := NUL), e, n, i + 1, b + 1, True), (m, e, n, i, b, f)) \<in> measure (\<lambda>(m, e, n, i, b, f). unat (e - b))"
    "((m, e, n, i + 1, b + 1, f), (m, e, n, i, b, f)) \<in> measure (\<lambda>(m, e, n, i, b, f). unat (e - b))"
    by simp_all
qed simp

declare scan_cell.simps [simp del] erase_cell.simps [simp del]

type_synonym 's shower = "int \<Rightarrow> char \<Rightarrow> u8 \<Rightarrow> 's \<Rightarrow> 's"

definition indicator :: "bool \<Rightarrow> char" where
  "indicator found_data = (if found_data then CHR ''x'' else CHR ''_'')"

partial_function (option) scan_loop ::
    "'a uprog_scheme shower \<Rightarrow> u32 \<Rightarrow> u32 \<Rightarrow> int \<Rightarrow> u32 \<Rightarrow> int \<Rightarrow> 'a uprog_scheme \<Rightarrow> 'a uprog_scheme option" where
  "scan_loop out endbyte apc slow byte cpos st =
    (if byte < endbyte
     then let (byte, found_data) = scan_cell (umem st) endbyte apc 0 byte False;
              st = out cpos (indicator found_data) U_GREY_ON_BLACK st
          in Option.bind (delay_loop slow) (\<lambda>_. scan_loop out endbyte apc slow byte (cpos + 1) st)
     else Some st)"

partial_function (option) erase_loop ::
    "'a uprog_scheme shower \<Rightarrow> u32 \<Rightarrow> u32 \<Rightarrow> int \<Rightarrow> u32 \<Rightarrow> int \<Rightarrow> 'a uprog_scheme \<Rightarrow> 'a uprog_scheme option" where
  "erase_loop out endbyte apc slow byte cpos st =
    (if byte < endbyte
     then let (byte, found_data, m) = erase_cell (umem st) endbyte apc 0 byte False;
              st = out cpos (indicator found_data) DARK_RED (st\<lparr>umem := m\<rparr>)
          in Option.bind (delay_loop slow) (\<lambda>_. erase_loop out endbyte apc slow byte (cpos + 1) st)
     else Some st)"

definition erase_with ::
    "(nat \<Rightarrow> bool) \<Rightarrow> 'a uprog_scheme shower \<Rightarrow> u32 \<Rightarrow> u32 \<Rightarrow> u32 \<Rightarrow> u32 \<Rightarrow> int \<Rightarrow> 'a uprog_scheme \<Rightarrow> 'a uprog_scheme option" where
  "erase_with spare out addr_min addr_max addr sz slow st =
    (let endbyte = addr + sz;
         apc = (addr_max - addr_min) div of_int (screen_rows * screen_cols)
     in if apc = 0 then None
        else if \<exists>byte\<in>{unat addr..<unat endbyte}. \<not> spare byte then None
        else let cpos = sint ((addr - addr_min) div apc)
             in Option.bind (scan_loop out endbyte apc slow addr cpos st) (\<lambda>st. erase_loop out endbyte apc slow addr cpos st))"

text \<open>\<open>eraser.c\<close> draws the cell on the terminal, \<open>eraser-raw.c\<close> writes to the cell that \<open>cc\<close> points to, whether it is on the screen or not.\<close>

definition show_cell :: "'a uprog_scheme shower" where
  "show_cell cpos ch col st = draw_char (cpos sdiv screen_cols) (cpos smod screen_cols) ch col st"

definition show_cell_raw :: "'a uprog_scheme shower" where
  "show_cell_raw cpos ch col st =
    st\<lparr>umem := mem_write (umem st) (unat (of_int (int screen_addr + 2 * cpos) :: u32)) (colorchar_bytes ch col)\<rparr>"

definition erase :: "(nat \<Rightarrow> bool) \<Rightarrow> u32 \<Rightarrow> u32 \<Rightarrow> u32 \<Rightarrow> u32 \<Rightarrow> int \<Rightarrow> 'a uprog_scheme \<Rightarrow> 'a uprog_scheme option" where
  "erase spare addr_min addr_max addr sz slow st = erase_with spare show_cell addr_min addr_max addr sz slow st"

definition erase_raw :: "(nat \<Rightarrow> bool) \<Rightarrow> u32 \<Rightarrow> u32 \<Rightarrow> u32 \<Rightarrow> u32 \<Rightarrow> int \<Rightarrow> 'a uprog_scheme \<Rightarrow> 'a uprog_scheme option" where
  "erase_raw spare addr_min addr_max addr sz slow st = erase_with spare show_cell_raw addr_min addr_max addr sz slow st"

text \<open>The second loop of \<open>main\<close> over the arguments. It does not skip the value of \<open>-s\<close>.\<close>

fun erase_ranges :: "(nat \<Rightarrow> bool) \<Rightarrow> 'a uprog_scheme shower \<Rightarrow> nat list \<Rightarrow> eraser_opts \<Rightarrow> 'a uprog_scheme \<Rightarrow> 'a uprog_scheme option" where
  "erase_ranges spare out [] opts st = Some st"
| "erase_ranges spare out (a # argv) opts st = Option.bind (arg_string (umem st) a) (\<lambda>s.
    if arg_char s 0 \<noteq> CHR ''-''
    then let (addr, sz) = parse_mn s
         in Option.bind (erase_with spare out (e_min opts) (e_max opts) addr sz (e_slowdown opts) st) (erase_ranges spare out argv opts)
    else erase_ranges spare out argv opts st)"

definition eraser_main :: "(nat \<Rightarrow> bool) \<Rightarrow> nat list \<Rightarrow> 'a uprog_scheme \<Rightarrow> ('a uprog_scheme \<times> int) option" where
  "eraser_main spare argv st = Option.bind (arg_strings (umem st) (tl argv)) (\<lambda>ss. Option.bind (eraser_args ss eraser_defaults) (\<lambda>opts.
    if length argv = 1 \<or> e_helpmode opts
    then Some (fprintf_reset (fst (draw_art draw_char (eraser_help ''eraser'') 3 0 U_GREY_ON_BLACK st)), 0)
    else map_option (\<lambda>st. (st, 0)) (erase_ranges spare show_cell (tl argv) opts (fprintf_erasedisplay U_ED_SCREEN st))))"

definition eraser_raw_start :: "(nat \<Rightarrow> bool) \<Rightarrow> nat list \<Rightarrow> 'a uprog_scheme \<Rightarrow> ('a uprog_scheme \<times> int) option" where
  "eraser_raw_start spare argv st = Option.bind (arg_strings (umem st) (tl argv)) (\<lambda>ss. Option.bind (eraser_args ss eraser_defaults) (\<lambda>opts.
    if length argv = 1 \<or> e_helpmode opts
    then Some (fst (draw_art draw_char_raw (eraser_help ''eraser-raw'') 3 0 U_GREY_ON_BLACK st), 0)
    else map_option (\<lambda>st. (st, 0)) (erase_ranges spare show_cell_raw (tl argv) opts st)))"

section \<open>One cell\<close>

definition cell_end :: "u32 \<Rightarrow> u32 \<Rightarrow> u32 \<Rightarrow> u32 \<Rightarrow> nat" where
  "cell_end endbyte apc i byte = min (unat endbyte) (unat byte + (unat apc - unat i))"

definition data_in :: "mem \<Rightarrow> nat \<Rightarrow> nat \<Rightarrow> bool" where
  "data_in m a b \<longleftrightarrow> (\<exists>x\<in>{a..<b}. m x \<noteq> NUL)"

definition wipe :: "nat \<Rightarrow> nat \<Rightarrow> mem \<Rightarrow> mem" where
  "wipe a b m = (\<lambda>x. if a \<le> x \<and> x < b then NUL else m x)"

lemma unat_next: "(a :: u32) < b \<Longrightarrow> unat (a + 1) = unat a + 1"
proof -
  assume "a < b"
  then have "unat a + 1 < 2 ^ 32" using unat_u32_lt [of b] by (simp add: word_less_nat_alt)
  then show ?thesis by (simp add: unat_word_ariths)
qed

lemma wipe_trans: "a \<le> b \<Longrightarrow> b \<le> c \<Longrightarrow> wipe b c (wipe a b m) = wipe a c m"
  by (rule ext) (auto simp: wipe_def)

lemma wipe_empty [simp]: "b \<le> a \<Longrightarrow> wipe a b m = m"
  by (rule ext) (auto simp: wipe_def)

lemma cell_end_step: "byte < endbyte \<Longrightarrow> i < apc \<Longrightarrow> cell_end endbyte apc (i + 1) (byte + 1) = cell_end endbyte apc i byte"
  by (simp add: cell_end_def unat_next word_less_nat_alt)

lemma cell_end_stop: "byte \<le> endbyte \<Longrightarrow> \<not> (byte < endbyte \<and> i < apc) \<Longrightarrow> cell_end endbyte apc i byte = unat byte"
  by (auto simp: cell_end_def word_less_nat_alt word_le_nat_alt)

lemma cell_end_ge: "byte < endbyte \<Longrightarrow> i < apc \<Longrightarrow> unat byte + 1 \<le> cell_end endbyte apc i byte"
  by (simp add: cell_end_def word_less_nat_alt)

lemma data_in_step: "a < b \<Longrightarrow> data_in m a b \<longleftrightarrow> m a \<noteq> NUL \<or> data_in m (a + 1) b"
  by (auto simp: data_in_def) (metis Suc_leI le_neq_implies_less atLeastLessThan_iff)

lemma scan_cell_spec:
  "byte \<le> endbyte \<Longrightarrow> scan_cell m endbyte apc i byte f =
    (of_nat (cell_end endbyte apc i byte), f \<or> data_in m (unat byte) (cell_end endbyte apc i byte))"
proof (induction m endbyte apc i byte f rule: scan_cell.induct)
  case (1 m endbyte apc i byte f)
  show ?case
  proof (cases "byte < endbyte \<and> i < apc")
    case True
    then have "byte + 1 \<le> endbyte" by (metis inc_le)
    then show ?thesis
      using 1 True cell_end_step [of byte endbyte i apc] cell_end_ge [of byte endbyte i apc]
        data_in_step [of "unat byte" "cell_end endbyte apc i byte" m]
      by (subst scan_cell.simps) (auto simp: unat_next)
  next
    case False
    then show ?thesis using 1(2) by (subst scan_cell.simps) (auto simp: cell_end_stop data_in_def)
  qed
qed

lemma erase_cell_spec:
  "byte \<le> endbyte \<Longrightarrow> erase_cell m endbyte apc i byte f =
    (of_nat (cell_end endbyte apc i byte), f \<or> data_in m (unat byte) (cell_end endbyte apc i byte),
     wipe (unat byte) (cell_end endbyte apc i byte) m)"
proof (induction m endbyte apc i byte f rule: erase_cell.induct)
  case (1 m endbyte apc i byte f)
  let ?e = "cell_end endbyte apc i byte"
  show ?case
  proof (cases "byte < endbyte \<and> i < apc")
    case True
    then have b: "byte + 1 \<le> endbyte" by (metis inc_le)
    note e = cell_end_step [of byte endbyte i apc] cell_end_ge [of byte endbyte i apc] data_in_step [of "unat byte" ?e m]
    have w: "wipe (unat byte + 1) ?e (m(unat byte := NUL)) = wipe (unat byte) ?e m"
      "m (unat byte) = NUL \<Longrightarrow> wipe (unat byte + 1) ?e m = wipe (unat byte) ?e m"
      using e(2) True by (auto simp: wipe_def fun_eq_iff not_less_eq_eq le_less_Suc_eq)
    show ?thesis
      using 1(1) [OF True _ b] 1(2) [OF True _ b] True e w unat_next [of byte endbyte]
      by (subst erase_cell.simps) auto
  next
    case False
    then show ?thesis using 1(3) by (subst erase_cell.simps) (auto simp: cell_end_stop data_in_def)
  qed
qed

section \<open>The cells of a range\<close>

text \<open>The cell \<open>cpos\<close> starts at \<open>byte\<close> or before it, counted from the lowest address \<open>lo\<close>. There are fewer than 4000 cells, twice the size of the screen.\<close>

definition at_cell :: "nat \<Rightarrow> u32 \<Rightarrow> u32 \<Rightarrow> u32 \<Rightarrow> int \<Rightarrow> bool" where
  "at_cell lo endbyte apc byte cpos \<longleftrightarrow> byte \<le> endbyte \<and> 0 < apc \<and> 0 \<le> cpos \<and> (byte < endbyte \<longrightarrow>
    int (unat endbyte) - int lo < 4000 * int (unat apc) \<and> cpos * int (unat apc) \<le> int (unat byte) - int lo)"

lemma at_cell_bound:
  assumes "at_cell lo endbyte apc byte cpos" "byte < endbyte"
  shows "0 \<le> cpos" "cpos < 4000"
proof -
  have "uint byte < uint endbyte" using assms(2) by (simp add: word_less_def)
  moreover have "uint endbyte - int lo < 4000 * uint apc" "cpos * uint apc \<le> uint byte - int lo"
    using assms by (auto simp: at_cell_def)
  ultimately have "cpos * uint apc < 4000 * uint apc" by linarith
  then show "0 \<le> cpos" "cpos < 4000" using assms by (auto simp: at_cell_def mult_less_cancel_right)
qed

lemma next_cell:
  assumes "at_cell lo endbyte apc byte cpos" "byte < endbyte"
  defines "byte' \<equiv> of_nat (cell_end endbyte apc 0 byte) :: u32"
  shows "unat byte' = cell_end endbyte apc 0 byte" "byte < byte'" "byte' \<le> endbyte" "at_cell lo endbyte apc byte' (cpos + 1)"
proof -
  have a: "0 < unat apc" using assms(1) by (simp add: at_cell_def word_less_nat_alt)
  show u: "unat byte' = cell_end endbyte apc 0 byte"
    using unat_u32_lt [of endbyte] by (simp add: byte'_def cell_end_def unat_of_nat)
  show "byte < byte'" "byte' \<le> endbyte"
    using u a assms(2) by (auto simp: word_less_nat_alt word_le_nat_alt cell_end_def)
  moreover have "unat byte' = unat byte + unat apc" if "byte' < endbyte"
    using u that by (simp add: word_less_nat_alt cell_end_def)
  ultimately show "at_cell lo endbyte apc byte' (cpos + 1)"
    using assms(1,2) by (auto simp: at_cell_def algebra_simps)
qed

locale map_display =
  fixes out :: "'a uprog_scheme shower"
    and V :: "nat set"
  assumes out_mem: "0 \<le> cpos \<Longrightarrow> cpos < 4000 \<Longrightarrow> x \<notin> V \<Longrightarrow> umem (out cpos ch col st) x = umem st x"
begin

lemma scan_loop_ok:
  assumes "0 \<le> slow" "slow < 31" "at_cell lo endbyte apc byte cpos"
  shows "\<exists>st'. scan_loop out endbyte apc slow byte cpos st = Some st' \<and> (\<forall>x. x \<notin> V \<longrightarrow> umem st' x = umem st x)"
  using assms(3)
proof (induction "unat endbyte - unat byte" arbitrary: byte cpos st rule: less_induct)
  case less
  show ?case
  proof (cases "byte < endbyte")
    case True
    define ce where "ce = cell_end endbyte apc 0 byte"
    note n = next_cell [OF less.prems True, folded ce_def]
    let ?st = "out cpos (indicator (data_in (umem st) (unat byte) ce)) U_GREY_ON_BLACK st"
    obtain st' where "scan_loop out endbyte apc slow (of_nat ce) (cpos + 1) ?st = Some st'" "\<forall>x. x \<notin> V \<longrightarrow> umem st' x = umem ?st x"
      using less.hyps [of "of_nat ce" "cpos + 1" ?st] n True by (force simp: word_less_nat_alt word_le_nat_alt)
    then show ?thesis
      using True assms(1,2) at_cell_bound [OF less.prems True] out_mem
      by (subst scan_loop.simps) (simp add: scan_cell_spec ce_def [symmetric] delay_loop_def)
  qed (simp add: scan_loop.simps)
qed

lemma erase_loop_ok:
  assumes "0 \<le> slow" "slow < 31" "at_cell lo endbyte apc byte cpos"
  shows "\<exists>st'. erase_loop out endbyte apc slow byte cpos st = Some st' \<and>
    (\<forall>x. x \<notin> V \<longrightarrow> umem st' x = wipe (unat byte) (unat endbyte) (umem st) x)"
  using assms(3)
proof (induction "unat endbyte - unat byte" arbitrary: byte cpos st rule: less_induct)
  case less
  show ?case
  proof (cases "byte < endbyte")
    case True
    define ce where "ce = cell_end endbyte apc 0 byte"
    note n = next_cell [OF less.prems True, folded ce_def]
    let ?st = "out cpos (indicator (data_in (umem st) (unat byte) ce)) DARK_RED (st\<lparr>umem := wipe (unat byte) ce (umem st)\<rparr>)"
    obtain st' where st': "erase_loop out endbyte apc slow (of_nat ce) (cpos + 1) ?st = Some st'"
      "\<forall>x. x \<notin> V \<longrightarrow> umem st' x = wipe ce (unat endbyte) (umem ?st) x"
      using less.hyps [of "of_nat ce" "cpos + 1" ?st] n True by (force simp: word_less_nat_alt word_le_nat_alt)
    have "wipe ce (unat endbyte) (umem ?st) x = wipe (unat byte) (unat endbyte) (umem st) x" if "x \<notin> V" for x
      using out_mem [OF at_cell_bound [OF less.prems True] that] n by (auto simp: wipe_def word_less_nat_alt word_le_nat_alt)
    then show ?thesis
      using st' True assms(1,2) by (subst erase_loop.simps) (simp add: erase_cell_spec ce_def [symmetric] delay_loop_def)
  next
    case False
    then show ?thesis by (subst erase_loop.simps) (simp add: word_less_nat_alt)
  qed
qed

lemma erase_ok:
  assumes "0 \<le> slow" "slow < 31" "unat lo + 2000 \<le> unat hi"
    and "sz = 0 \<or> lo \<le> addr \<and> unat addr + unat sz \<le> unat hi"
    and "\<forall>x. unat addr \<le> x \<and> x < unat addr + unat sz \<longrightarrow> spare x"
  shows "\<exists>st'. erase_with spare out lo hi addr sz slow st = Some st' \<and>
    (\<forall>x. x \<notin> V \<longrightarrow> umem st' x = wipe (unat addr) (unat addr + unat sz) (umem st) x)"
proof -
  define apc where "apc = (hi - lo) div of_int (screen_rows * screen_cols)"
  have lh: "unat (hi - lo) = unat hi - unat lo" using assms(3) by (simp add: unat_sub word_le_nat_alt)
  then have apc: "unat apc = (unat hi - unat lo) div 2000"
    by (simp add: apc_def screen_rows_def screen_cols_def unat_div_distrib)
  moreover have ge1: "1 \<le> (unat hi - unat lo) div 2000" using assms(3) by linarith
  ultimately have pos: "0 < apc" by (simp add: word_less_nat_alt)
  define cpos where "cpos = sint ((addr - lo) div apc)"
  show ?thesis
  proof (cases "sz = 0")
    case True
    then show ?thesis using pos
      unfolding erase_with_def Let_def apc_def [symmetric] by (simp add: scan_loop.simps [of _ addr] erase_loop.simps [of _ addr])
  next
    case False
    then have a: "lo \<le> addr" "unat addr + unat sz \<le> unat hi" using assms(4) by auto
    then have e: "unat (addr + sz) = unat addr + unat sz" using unat_u32_lt [of hi] by (simp add: unat_word_ariths)
    have q: "unat ((addr - lo) div apc) = (unat addr - unat lo) div unat apc"
      using a by (simp add: unat_div_distrib unat_sub)
    have w: "(addr - lo) div apc = of_nat ((unat addr - unat lo) div unat apc)" by (simp flip: q)
    have rng: "unat hi - unat lo < 4000 * unat apc"
      using apc ge1 div_mult_mod_eq [of "unat hi - unat lo" 2000] mod_less_divisor [of 2000 "unat hi - unat lo"] by linarith
    have "(unat addr - unat lo) div unat apc < 4000"
      using rng a by (simp add: less_mult_imp_div_less word_le_nat_alt)
    then have c: "cpos = int ((unat addr - unat lo) div unat apc)"
      unfolding cpos_def by (subst w) (simp add: sint_nat_u32)
    have "int ((unat addr - unat lo) div unat apc * unat apc) \<le> int (unat addr - unat lo)" unfolding of_nat_le_iff by simp
    then have "cpos * int (unat apc) \<le> int (unat addr) - int (unat lo)"
      using a unfolding c by (simp only: of_nat_mult of_nat_diff word_le_nat_alt)
    moreover have "int (unat (addr + sz)) - int (unat lo) < 4000 * int (unat apc)" using e a rng by linarith
    ultimately have at: "at_cell (unat lo) (addr + sz) apc addr cpos"
      using pos e c by (simp add: at_cell_def word_le_nat_alt)
    obtain st1 where st1: "scan_loop out (addr + sz) apc slow addr cpos st = Some st1" "\<forall>x. x \<notin> V \<longrightarrow> umem st1 x = umem st x"
      using scan_loop_ok [OF assms(1,2) at] by blast
    obtain st' where "erase_loop out (addr + sz) apc slow addr cpos st1 = Some st'"
      "\<forall>x. x \<notin> V \<longrightarrow> umem st' x = wipe (unat addr) (unat (addr + sz)) (umem st1) x"
      using erase_loop_ok [OF assms(1,2) at] by blast
    then show ?thesis
      using st1 pos e assms(5) unfolding erase_with_def Let_def apc_def [symmetric] cpos_def [symmetric] by (auto simp: wipe_def)
  qed
qed

end

section \<open>The command line\<close>

definition range_arg :: "string \<Rightarrow> bool" where
  "range_arg s \<longleftrightarrow> arg_char s 0 \<noteq> CHR ''-''"

text \<open>The addresses that the arguments name.\<close>

definition wanted :: "string list \<Rightarrow> nat \<Rightarrow> bool" where
  "wanted ss x \<longleftrightarrow> (\<exists>s\<in>set ss. range_arg s \<and> (case parse_mn s of (addr, sz) \<Rightarrow> unat addr \<le> x \<and> x < unat addr + unat sz))"

text \<open>A command line of ranges that do not wrap around, and of \<open>-s N\<close> where \<open>N\<close> does not look like a range with bytes in it.\<close>

fun erase_line :: "string list \<Rightarrow> bool" where
  "erase_line [] = True"
| "erase_line (a # argv) =
    (if range_arg a then case parse_mn a of (addr, sz) \<Rightarrow> unat addr + unat sz < 2 ^ 32 \<and> erase_line argv
     else arg_char a 1 = CHR ''s'' \<and> (case argv of [] \<Rightarrow> False | n # argv \<Rightarrow> (range_arg n \<longrightarrow> snd (parse_mn n) = 0) \<and> erase_line argv))"

definition in_bounds :: "eraser_opts \<Rightarrow> string \<Rightarrow> bool" where
  "in_bounds opts s \<longleftrightarrow> (range_arg s \<longrightarrow> (case parse_mn s of (addr, sz) \<Rightarrow>
    sz = 0 \<or> e_min opts \<le> addr \<and> unat addr + unat sz \<le> unat (e_max opts)))"

text \<open>The first loop finds bounds for all ranges.\<close>

definition widen :: "u32 \<times> u32 \<Rightarrow> eraser_opts \<Rightarrow> eraser_opts" where
  "widen r opts = opts\<lparr>e_min := min (e_min opts) (fst r), e_max := max (e_max opts) (fst r + snd r)\<rparr>"

lemma eraser_args_range: "range_arg a \<Longrightarrow> eraser_args (a # argv) opts = eraser_args argv (widen (parse_mn a) opts)"
proof -
  assume "range_arg a"
  moreover have "(let (addr, sz) = r; opts = (if addr < e_min opts then opts\<lparr>e_min := addr\<rparr> else opts);
      opts = (if addr + sz > e_max opts then opts\<lparr>e_max := addr + sz\<rparr> else opts) in f opts) = f (widen r opts)"
    for r and f :: "eraser_opts \<Rightarrow> eraser_opts option"
    by (cases opts) (auto simp: widen_def min_def max_def Let_def split: prod.split)
  ultimately show ?thesis by (simp only: eraser_args.simps range_arg_def if_False)
qed

lemma eraser_args_bounds:
  "erase_line ss \<Longrightarrow> eraser_args ss opts = Some opts' \<Longrightarrow>
   e_helpmode opts' = e_helpmode opts \<and> e_min opts' \<le> e_min opts \<and> e_max opts \<le> e_max opts' \<and> (\<forall>s\<in>set ss. in_bounds opts' s)"
proof (induction "length ss" arbitrary: ss opts rule: less_induct)
  case less
  show ?case
  proof (cases ss)
    case Nil
    then show ?thesis using less.prems by simp
  next
    case (Cons a argv)
    show ?thesis
    proof (cases "range_arg a")
      case True
      obtain addr sz where p: "parse_mn a = (addr, sz)" by force
      have l: "unat addr + unat sz < 2 ^ 32" "erase_line argv" using less.prems(1) True p Cons by auto
      then have e: "unat (addr + sz) = unat addr + unat sz" by (simp add: unat_word_ariths)
      have "eraser_args argv (widen (addr, sz) opts) = Some opts'"
        using less.prems(2) eraser_args_range [OF True, of argv opts] Cons p by simp
      from less.hyps [OF _ l(2) this] have IH: "e_helpmode opts' = e_helpmode opts" "e_min opts' \<le> e_min opts" "e_min opts' \<le> addr"
        "e_max opts \<le> e_max opts'" "addr + sz \<le> e_max opts'" "\<forall>s\<in>set argv. in_bounds opts' s"
        using Cons by (simp_all add: widen_def)
      then have "in_bounds opts' a" using e unfolding in_bounds_def p by (simp add: word_le_nat_alt)
      then show ?thesis using IH Cons by simp
    next
      case False
      then obtain n argv' where n: "argv = n # argv'" "arg_char a 1 = CHR ''s''" "range_arg n \<longrightarrow> snd (parse_mn n) = 0" "erase_line argv'"
        using less.prems(1) Cons by (auto split: list.splits)
      have "in_bounds opts' a" "in_bounds opts' n" using False n(3) by (auto simp: in_bounds_def)
      then show ?thesis using less.hyps [of argv' "opts\<lparr>e_slowdown := eraser_atoi n\<rparr>"] less.prems(2) False n Cons
        by (simp add: range_arg_def)
    qed
  qed
qed

text \<open>The arguments \<open>ss\<close> at the addresses \<open>argv\<close>, apart from a set of addresses.\<close>

definition args_apart :: "(nat \<Rightarrow> bool) \<Rightarrow> mem \<Rightarrow> nat list \<Rightarrow> string list \<Rightarrow> bool" where
  "args_apart P m argv ss \<longleftrightarrow> list_all2 (\<lambda>a s. cstr m a s \<and> (\<forall>x\<in>{a..a + length s}. \<not> P x)) argv ss"

lemma cstr_same: "cstr m a s \<Longrightarrow> \<forall>x\<in>{a..a + length s}. m' x = m x \<Longrightarrow> cstr m' a s"
proof (induction s arbitrary: a)
  case (Cons c s)
  then show ?case by simp
qed simp

lemma args_apart_same:
  assumes "args_apart P m argv ss" "\<And>x. \<not> P x \<Longrightarrow> m' x = m x"
  shows "args_apart P m' argv ss"
  using assms(1) unfolding args_apart_def
  by (rule list_all2_mono) (auto intro: cstr_same simp: assms(2))

lemma arg_strings_args: "args_apart P m argv ss \<Longrightarrow> arg_strings m argv = Some ss"
proof (induction argv arbitrary: ss)
  case (Cons a argv)
  then show ?case by (auto simp: args_apart_def list_all2_Cons1 arg_string_cstr)
qed (simp add: args_apart_def)

context map_display
begin

lemma ranges_ok:
  assumes "0 \<le> e_slowdown opts" "e_slowdown opts < 31" "unat (e_min opts) + 2000 \<le> unat (e_max opts)"
    and "\<forall>s\<in>set ss. in_bounds opts s" "args_apart (\<lambda>x. x \<in> V \<or> wanted all x) (umem st) argv ss" "set ss \<subseteq> set all"
    and sp: "\<forall>x. wanted all x \<longrightarrow> spare x"
  shows "\<exists>st'. erase_ranges spare out argv opts st = Some st' \<and>
    (\<forall>x. x \<notin> V \<longrightarrow> umem st' x = (if wanted ss x then NUL else umem st x))"
  using assms(4-6)
proof (induction argv arbitrary: ss st)
  case Nil
  then show ?case by (simp add: args_apart_def wanted_def)
next
  case (Cons a argv)
  then obtain s ss' where ss: "ss = s # ss'" "cstr (umem st) a s" "args_apart (\<lambda>x. x \<in> V \<or> wanted all x) (umem st) argv ss'"
    by (auto simp: args_apart_def list_all2_Cons1)
  have s: "arg_string (umem st) a = Some s" by (rule arg_string_cstr [OF ss(2)])
  show ?case
  proof (cases "range_arg s")
    case True
    obtain addr sz where p: "parse_mn s = (addr, sz)" by force
    then have b: "sz = 0 \<or> e_min opts \<le> addr \<and> unat addr + unat sz \<le> unat (e_max opts)"
      using Cons.prems(1) ss(1) True by (simp add: in_bounds_def)
    have all: "wanted all x" if "unat addr \<le> x" "x < unat addr + unat sz" for x
      using that True p ss(1) Cons.prems(3) by (auto simp: wanted_def)
    then have "\<forall>x. unat addr \<le> x \<and> x < unat addr + unat sz \<longrightarrow> spare x" using sp by blast
    from erase_ok [OF assms(1-3) b this, of st] obtain st1 where st1:
      "erase_with spare out (e_min opts) (e_max opts) addr sz (e_slowdown opts) st = Some st1"
      "\<forall>x. x \<notin> V \<longrightarrow> umem st1 x = wipe (unat addr) (unat addr + unat sz) (umem st) x" by blast
    have w: "wanted ss x \<longleftrightarrow> unat addr \<le> x \<and> x < unat addr + unat sz \<or> wanted ss' x" for x
      using ss(1) True p by (auto simp: wanted_def)
    have "args_apart (\<lambda>x. x \<in> V \<or> wanted all x) (umem st1) argv ss'"
      by (rule args_apart_same [OF ss(3)]) (use st1(2) all in \<open>auto simp: wipe_def\<close>)
    from Cons.IH [OF _ this] obtain st' where "erase_ranges spare out argv opts st1 = Some st'"
      "\<forall>x. x \<notin> V \<longrightarrow> umem st' x = (if wanted ss' x then NUL else umem st1 x)" using Cons.prems ss(1) by auto
    then show ?thesis using s st1 True p by (auto simp: range_arg_def w wipe_def)
  next
    case False
    then have "wanted ss x \<longleftrightarrow> wanted ss' x" for x using ss(1) by (simp add: wanted_def)
    then show ?thesis using Cons.IH [of ss' st] Cons.prems ss s False by (simp add: range_arg_def)
  qed
qed

end

interpretation tmap: map_display show_cell "{}"
  by standard (simp add: show_cell_def draw_char_def fprintf_setpos_def fprintf_setcolor_def fprintf_stdout_def)

text \<open>The map of \<open>eraser-raw.c\<close> may take 8000 bytes, where the screen has 4000.\<close>

interpretation vmap: map_display show_cell_raw "{screen_addr..<screen_addr + 8000}"
proof
  fix cpos :: int and x :: nat and ch col and st :: "'a uprog_scheme"
  assume a: "0 \<le> cpos" "cpos < 4000" "x \<notin> {screen_addr..<screen_addr + 8000}"
  define n where "n = screen_addr + 2 * nat cpos"
  have n: "int screen_addr + 2 * cpos = int n" "n < 4294967296" "screen_addr \<le> n" "n < screen_addr + 7999"
    using a by (simp_all add: n_def) (simp add: screen_addr_def)
  have "unat (of_int (int screen_addr + 2 * cpos) :: u32) = n"
    unfolding n(1) of_int_of_nat_eq using n(2) by (simp add: unat_of_nat)
  then show "umem (show_cell_raw cpos ch col st) x = umem st x"
    using a(3) n(3,4) by (auto simp: show_cell_raw_def colorchar_bytes_def intro!: mem_write_outside)
qed

section \<open>What is erased\<close>

text \<open>A command line with a delay and one range, as it stands in the memory of the program. The help text has it with 5 MiB, the other one starts at 6 MiB.\<close>

definition one_range :: "string \<Rightarrow> string list" where
  "one_range r = [''-s'', ''22'', r]"

definition one_range_mem :: "string \<Rightarrow> mem" where
  "one_range_mem r = mem_write (mem_write (mem_write (\<lambda>_. CHR ''z'') 100 (''-s'' @ [NUL])) 110 (''22'' @ [NUL])) 120 (r @ [NUL])"

definition help_range :: string where "help_range = ''0x500000:0x4000''"
definition free_range :: string where "free_range = ''0x600000:0x4000''"

lemma range_parse:
  "parse_mn help_range = (0x500000, 0x4000)" "parse_mn free_range = (0x600000, 0x4000)" "parse_mn ''22'' = (22, 0)" "eraser_atoi ''22'' = 22"
  by code_simp+

lemma range_first: "(help_range @ [NUL]) ! 0 = CHR ''0''" "(free_range @ [NUL]) ! 0 = CHR ''0''"
  by (simp_all add: help_range_def free_range_def)

lemma free_range_args:
  "eraser_args (one_range free_range) eraser_defaults = Some \<lparr>e_slowdown = 22, e_helpmode = False, e_min = 0x600000, e_max = 0x604000\<rparr>"
  "eraser_args (one_range help_range) eraser_defaults = Some \<lparr>e_slowdown = 22, e_helpmode = False, e_min = 0x500000, e_max = 0x504000\<rparr>"
  unfolding one_range_def
  by (simp_all add: arg_char_def range_parse range_first eraser_defaults_def Let_def)

lemma free_range_wanted: "wanted (one_range free_range) x \<longleftrightarrow> 0x600000 \<le> x \<and> x < 0x604000"
  by (auto simp: wanted_def one_range_def range_arg_def arg_char_def range_parse range_first)

lemma one_range_args:
  assumes "\<And>x. P x \<Longrightarrow> 140 < x"
  shows "args_apart P (one_range_mem free_range) [100, 110, 120] (one_range free_range)"
    and "args_apart P (one_range_mem help_range) [100, 110, 120] (one_range help_range)"
  using assms unfolding args_apart_def
  by (force simp: one_range_def one_range_mem_def free_range_def help_range_def mem_write_def)+

lemma free_range_apart: "args_apart (wanted (one_range free_range)) (one_range_mem free_range) [100, 110, 120] (one_range free_range)"
  by (rule one_range_args) (simp add: free_range_wanted)

text \<open>
  Property C29. \<open>eraser.c\<close> erases what the arguments name and nothing else. On a command line of ranges and delays, where the ranges span at least 2000 addresses and
  contain none of the arguments and only addresses that the program does not need for itself, the program ends with result 0, every byte in one of the
  ranges is zero, and every other byte is as before.
\<close>

theorem eraser_erases:
  assumes "erase_line ss" "eraser_args ss eraser_defaults = Some opts" "args_apart (wanted ss) (umem st) argv ss"
    and "0 \<le> e_slowdown opts" "e_slowdown opts < 31" "unat (e_min opts) + 2000 \<le> unat (e_max opts)" "\<forall>x. wanted ss x \<longrightarrow> spare x"
  shows "\<exists>st'. eraser_main spare (prog # argv) st = Some (st', 0) \<and> (\<forall>x. umem st' x = (if wanted ss x then NUL else umem st x))"
proof -
  let ?st = "fprintf_erasedisplay U_ED_SCREEN st"
  have m: "umem ?st = umem st" by (simp add: fprintf_erasedisplay_def fprintf_stdout_def)
  have b: "\<forall>s\<in>set ss. in_bounds opts s" "\<not> e_helpmode opts"
    using eraser_args_bounds [OF assms(1,2)] by (auto simp: eraser_defaults_def)
  have ne: "argv \<noteq> []" using assms(2,3,6) by (auto simp: args_apart_def eraser_defaults_def)
  have "args_apart (\<lambda>x. x \<in> {} \<or> wanted ss x) (umem ?st) argv ss" unfolding m using assms(3) by simp
  from tmap.ranges_ok [OF assms(4-6) b(1) this order_refl assms(7)] obtain st' where
    "erase_ranges spare show_cell argv opts ?st = Some st'" "\<forall>x. umem st' x = (if wanted ss x then NUL else umem st x)"
    unfolding m by blast
  then show ?thesis using arg_strings_args [OF assms(3)] assms(2) b(2) ne by (simp add: eraser_main_def)
qed

theorem eraser_erases_witness:
  "\<exists>st'. eraser_main (\<lambda>x. x \<in> {0x600000..<0x700000}) [90, 100, 110, 120] \<lparr>umem = one_range_mem free_range, uout = ''''\<rparr> = Some (st', 0) \<and>
    (\<forall>x. umem st' x = (if wanted (one_range free_range) x then NUL else umem \<lparr>umem = one_range_mem free_range, uout = ''''\<rparr> x))"
  by (rule eraser_erases [OF _ free_range_args(1)])
    (simp_all add: free_range_apart free_range_wanted, simp add: one_range_def range_arg_def arg_char_def range_parse range_first)

text \<open>The example of the help text erases from the address at which the program is linked, so the program does not survive it.\<close>

lemma eraser_help_example:
  assumes "\<not> spare 0x500000"
  shows "eraser_main spare [90, 100, 110, 120] \<lparr>umem = one_range_mem help_range, uout = out\<rparr> = None"
proof -
  have "args_apart (\<lambda>_. False) (one_range_mem help_range) [100, 110, 120] (one_range help_range)" by (rule one_range_args) simp
  then have s: "arg_string (one_range_mem help_range) 100 = Some ''-s''" "arg_string (one_range_mem help_range) 110 = Some ''22''"
    "arg_string (one_range_mem help_range) 120 = Some help_range"
    by (simp_all add: args_apart_def one_range_def arg_string_cstr)
  have e: "erase_with spare show_cell 0x500000 0x504000 22 0 22 st = Some st"
    "erase_with spare show_cell 0x500000 0x504000 0x500000 0x4000 22 st = None" for st :: uprog
    using assms by (auto simp: erase_with_def screen_rows_def screen_cols_def scan_loop.simps erase_loop.simps)
  show ?thesis
    using s free_range_args(2)
    by (simp add: eraser_main_def one_range_def arg_char_def range_parse range_first e fprintf_erasedisplay_def fprintf_stdout_def)
qed

theorem eraser_raw_erases:
  assumes "erase_line ss" "eraser_args ss eraser_defaults = Some opts"
    and "args_apart (\<lambda>x. x \<in> {screen_addr..<screen_addr + 8000} \<or> wanted ss x) (umem st) argv ss"
    and "0 \<le> e_slowdown opts" "e_slowdown opts < 31" "unat (e_min opts) + 2000 \<le> unat (e_max opts)" "\<forall>x. wanted ss x \<longrightarrow> spare x"
  shows "\<exists>st'. eraser_raw_start spare (prog # argv) st = Some (st', 0) \<and>
    (\<forall>x. x \<notin> {screen_addr..<screen_addr + 8000} \<longrightarrow> umem st' x = (if wanted ss x then NUL else umem st x))"
proof -
  have b: "\<forall>s\<in>set ss. in_bounds opts s" "\<not> e_helpmode opts"
    using eraser_args_bounds [OF assms(1,2)] by (auto simp: eraser_defaults_def)
  have ne: "argv \<noteq> []" using assms(2,3,6) by (auto simp: args_apart_def eraser_defaults_def)
  show ?thesis
    using vmap.ranges_ok [OF assms(4-6) b(1) assms(3) order_refl assms(7)] arg_strings_args [OF assms(3)] assms(2) b(2) ne
    by (auto simp: eraser_raw_start_def)
qed

text \<open>Fewer than 2000 addresses between the lowest and the highest make the programs divide by zero.\<close>

lemma erase_small_range: "lo \<le> hi \<Longrightarrow> unat hi < unat lo + 2000 \<Longrightarrow> erase_with spare out lo hi addr sz slow st = None"
proof -
  assume a: "lo \<le> hi" "unat hi < unat lo + 2000"
  then have "unat ((hi - lo) div of_int (screen_rows * screen_cols)) = 0"
    by (simp add: screen_rows_def screen_cols_def unat_div_distrib unat_sub word_le_nat_alt)
  then show ?thesis by (simp add: erase_with_def unat_eq_zero)
qed

end
