(* ===== verification/User_Threads.thy ===== *)
theory User_Threads
  imports C_Base
begin

text \<open>
  User-space threads and mutexes (\<open>mulibc/threads.c\<close>, its Munix branches) and two programs that use them:
  the data race demonstration (\<open>process/datarace.c\<close>) and the dining philosophers (\<open>process/philosophers.c\<close>).

  A thread library call that enters the kernel has the result of the system call as a parameter. The programs are modelled
  as interleavings: a step executes one atomic access to shared memory of one thread. The lock loop of \<open>mtx_lock\<close> tries
  again whenever its thread is scheduled. \<open>race_init\<close> is the state when \<open>main\<close> has started all its threads, which it can for up to \<open>THRD_MAX\<close> of them.
\<close>

section \<open>Thread slots: mulibc/threads.c\<close>

definition THRD_MAX :: nat where "THRD_MAX = 8"
definition THRD_STACKSZ :: u32 where "THRD_STACKSZ = 4096"

record uthrd =
  ktid :: int
  inuse :: bool
  ustack_base :: u32

definition thrd_success :: int where "thrd_success = 0"
definition thrd_busy :: int where "thrd_busy = err EBUSY"

text \<open>\<open>atomic_flag_test_and_set\<close> returns the old value and sets the flag.\<close>

definition atomic_flag_test_and_set :: "bool \<Rightarrow> bool \<times> bool" where
  "atomic_flag_test_and_set flag = (flag, True)"

definition atomic_flag_clear :: "bool \<Rightarrow> bool" where
  "atomic_flag_clear flag = False"

definition thrd_ok :: "nat \<Rightarrow> bool" where
  "thrd_ok thrd \<longleftrightarrow> thrd < THRD_MAX"

fun thrd_alloc_from :: "nat \<Rightarrow> nat \<Rightarrow> uthrd list \<Rightarrow> (nat \<times> uthrd list) option" where
  "thrd_alloc_from 0 i us = None"
| "thrd_alloc_from (Suc k) i us =
    (let (old, flag) = atomic_flag_test_and_set (inuse (us ! i));
         us = us[i := (us ! i)\<lparr>inuse := flag\<rparr>]
     in if \<not> old then Some (i, us) else thrd_alloc_from k (Suc i) us)"

definition thrd_alloc :: "uthrd list \<Rightarrow> (nat \<times> uthrd list) option" where
  "thrd_alloc us = thrd_alloc_from THRD_MAX 0 us"

definition thrd_free :: "nat \<Rightarrow> uthrd list \<Rightarrow> uthrd list" where
  "thrd_free thrd us =
    (if \<not> thrd_ok thrd then us else us[thrd := (us ! thrd)\<lparr>inuse := atomic_flag_clear (inuse (us ! thrd))\<rparr>])"

text \<open>
  \<open>thrd_create\<close> with the address \<open>ustacks\<close> of the stack array and the system call as a function of the stack pointer.
  It returns the thread handle that it stores, if any.
\<close>

definition thrd_create :: "u32 \<Rightarrow> (u32 \<Rightarrow> int) \<Rightarrow> uthrd list \<Rightarrow> nat option \<times> uthrd list \<times> int" where
  "thrd_create ustacks syscall_thrd_create us =
    (case thrd_alloc us of
       None \<Rightarrow> (None, us, err ENOMEM)
     | Some (ut, us) \<Rightarrow>
         (let us = us[ut := (us ! ut)\<lparr>ustack_base := ustacks + of_nat ut * THRD_STACKSZ\<rparr>];
              stackptr = ustack_base (us ! ut) + THRD_STACKSZ;
              res = syscall_thrd_create stackptr
          in if res < 0 then (None, thrd_free ut us, res)
             else if res > 0 then (Some ut, us[ut := (us ! ut)\<lparr>ktid := res\<rparr>], 0)
             else (None, thrd_free ut us, res)))"

definition thrd_join :: "(int \<Rightarrow> int) \<Rightarrow> nat \<Rightarrow> uthrd list \<Rightarrow> uthrd list \<times> int" where
  "thrd_join syscall_thrd_join thrd us =
    (if \<not> thrd_ok thrd then (us, err ESRCH)
     else let res = syscall_thrd_join (ktid (us ! thrd))
          in if res < 0 then (us, res) else (thrd_free thrd us, 0))"

section \<open>Mutexes\<close>

record mtx =
  mtx_flag :: bool

definition mtx_init :: "mtx \<Rightarrow> mtx \<times> int" where
  "mtx_init m = (m\<lparr>mtx_flag := atomic_flag_clear (mtx_flag m)\<rparr>, thrd_success)"

definition mtx_destroy :: "mtx \<Rightarrow> mtx" where
  "mtx_destroy m = m"

definition mtx_trylock :: "mtx \<Rightarrow> mtx \<times> int" where
  "mtx_trylock m =
    (let (old, flag) = atomic_flag_test_and_set (mtx_flag m); m = m\<lparr>mtx_flag := flag\<rparr>
     in if \<not> old then (m, thrd_success) else (m, thrd_busy))"

text \<open>One round of the loop of \<open>mtx_lock\<close>: the new mutex and whether the loop ends.\<close>

definition mtx_lock_round :: "mtx \<Rightarrow> mtx \<times> bool" where
  "mtx_lock_round m =
    (let (old, flag) = atomic_flag_test_and_set (mtx_flag m) in (m\<lparr>mtx_flag := flag\<rparr>, \<not> old))"

definition mtx_unlock :: "mtx \<Rightarrow> mtx \<times> int" where
  "mtx_unlock m = (m\<lparr>mtx_flag := atomic_flag_clear (mtx_flag m)\<rparr>, thrd_success)"

section \<open>The data race demonstration\<close>

definition step_ct :: u32 where "step_ct = 1"

record dshared =
  shared_split :: u32
  shared_oneline :: u32
  shared_atomic :: u32
  dmutex :: mtx
  shared_split_mtx :: u32
  shared_oneline_mtx :: u32

text \<open>The points of \<open>thread_main\<close> between two accesses to shared memory; \<open>x += step\<close> is a read and a write.\<close>

datatype dpc = Loop | Split_rd | Split_wr | One_rd | One_wr | Atomic_add | Lock
  | Mtx_split_rd | Mtx_split_wr | Mtx_one_rd | Mtx_one_wr | Unlock | Next | Finished

record dthread =
  pc :: dpc
  di :: u32
  tmp :: u32
  reg :: u32

definition thread_main_step :: "u32 \<Rightarrow> dthread \<Rightarrow> dshared \<Rightarrow> dthread \<times> dshared" where
  "thread_main_step count t s =
    (case pc t of
       Loop \<Rightarrow> (t\<lparr>pc := if di t < count then Split_rd else Finished\<rparr>, s)
     | Split_rd \<Rightarrow> (t\<lparr>tmp := shared_split s, pc := Split_wr\<rparr>, s)
     | Split_wr \<Rightarrow> (t\<lparr>pc := One_rd\<rparr>, s\<lparr>shared_split := tmp t + step_ct\<rparr>)
     | One_rd \<Rightarrow> (t\<lparr>reg := shared_oneline s, pc := One_wr\<rparr>, s)
     | One_wr \<Rightarrow> (t\<lparr>pc := Atomic_add\<rparr>, s\<lparr>shared_oneline := reg t + step_ct\<rparr>)
     | Atomic_add \<Rightarrow> (t\<lparr>pc := Lock\<rparr>, s\<lparr>shared_atomic := shared_atomic s + step_ct\<rparr>)
     | Lock \<Rightarrow>
         (let (m, locked) = mtx_lock_round (dmutex s)
          in (t\<lparr>pc := if locked then Mtx_split_rd else Lock\<rparr>, s\<lparr>dmutex := m\<rparr>))
     | Mtx_split_rd \<Rightarrow> (t\<lparr>tmp := shared_split_mtx s, pc := Mtx_split_wr\<rparr>, s)
     | Mtx_split_wr \<Rightarrow> (t\<lparr>pc := Mtx_one_rd\<rparr>, s\<lparr>shared_split_mtx := tmp t + step_ct\<rparr>)
     | Mtx_one_rd \<Rightarrow> (t\<lparr>reg := shared_oneline_mtx s, pc := Mtx_one_wr\<rparr>, s)
     | Mtx_one_wr \<Rightarrow> (t\<lparr>pc := Unlock\<rparr>, s\<lparr>shared_oneline_mtx := reg t + step_ct\<rparr>)
     | Unlock \<Rightarrow> (t\<lparr>pc := Next\<rparr>, s\<lparr>dmutex := fst (mtx_unlock (dmutex s))\<rparr>)
     | Next \<Rightarrow> (t\<lparr>di := di t + 1, pc := Loop\<rparr>, s)
     | Finished \<Rightarrow> (t, s))"

inductive race_step :: "u32 \<Rightarrow> dthread list \<times> dshared \<Rightarrow> dthread list \<times> dshared \<Rightarrow> bool" for count where
  Run: "j < length ts \<Longrightarrow> pc (ts ! j) \<noteq> Finished \<Longrightarrow> thread_main_step count (ts ! j) s = (t', s') \<Longrightarrow>
    race_step count (ts, s) (ts[j := t'], s')"

definition dthread0 :: dthread where "dthread0 = \<lparr>pc = Loop, di = 0, tmp = 0, reg = 0\<rparr>"

definition race_init :: "nat \<Rightarrow> dthread list \<times> dshared" where
  "race_init n = (replicate n dthread0,
     \<lparr>shared_split = 0, shared_oneline = 0, shared_atomic = 0, dmutex = fst (mtx_init \<lparr>mtx_flag = False\<rparr>),
      shared_split_mtx = 0, shared_oneline_mtx = 0\<rparr>)"

section \<open>Interleavings that can always end\<close>

text \<open>
  Threads that spin on a lock have no bound on their number of steps. What can be promised under every schedule is that no reachable
  state is a dead end: a step system with an invariant in which some step makes progress until all is over can always be run to
  its end.
\<close>

locale terminable =
  fixes step :: "'s \<Rightarrow> 's \<Rightarrow> bool" and inv over :: "'s \<Rightarrow> bool" and left :: "'s \<Rightarrow> nat"
  assumes inv_step: "inv s \<Longrightarrow> step s s' \<Longrightarrow> inv s'"
    and progress: "inv s \<Longrightarrow> \<not> over s \<Longrightarrow> \<exists>s'. step s s' \<and> left s' < left s"
begin

lemma inv_reachable: "step\<^sup>*\<^sup>* s s' \<Longrightarrow> inv s \<Longrightarrow> inv s'"
  by (induction rule: rtranclp_induct) (auto intro: inv_step)

lemma can_end: "inv s \<Longrightarrow> \<exists>s'. step\<^sup>*\<^sup>* s s' \<and> over s'"
proof (induction "left s" arbitrary: s rule: less_induct)
  case less
  show ?case
  proof (cases "over s")
    case False
    then obtain s1 where s1: "step s s1" "left s1 < left s" using progress less.prems by blast
    then obtain s' where "step\<^sup>*\<^sup>* s1 s'" "over s'" using less.hyps inv_step less.prems by blast
    then show ?thesis using s1(1) by (meson converse_rtranclp_into_rtranclp)
  qed auto
qed

end

section \<open>Mutual exclusion and exact counts\<close>

definition in_cs :: "dpc \<Rightarrow> bool" where
  "in_cs p \<longleftrightarrow> p \<in> {Mtx_split_rd, Mtx_split_wr, Mtx_one_rd, Mtx_one_wr, Unlock}"

text \<open>How often a thread has updated each of the counters.\<close>

definition did :: "dpc set \<Rightarrow> dthread \<Rightarrow> u32" where
  "did ps t = di t + (if pc t \<in> ps then 1 else 0)"

definition after_atomic :: "dpc set" where
  "after_atomic = {Lock, Mtx_split_rd, Mtx_split_wr, Mtx_one_rd, Mtx_one_wr, Unlock, Next}"

definition after_split :: "dpc set" where
  "after_split = {Mtx_one_rd, Mtx_one_wr, Unlock, Next}"

definition after_one :: "dpc set" where
  "after_one = {Unlock, Next}"

definition updates :: "dpc set \<Rightarrow> dthread list \<Rightarrow> u32" where
  "updates ps ts = sum_list (map (did ps) ts)"

definition bounds_inv :: "u32 \<Rightarrow> dthread \<Rightarrow> bool" where
  "bounds_inv count t \<longleftrightarrow> (if pc t = Finished then di t = count else if pc t = Loop then di t \<le> count else di t < count)"

definition excl_inv :: "dthread list \<Rightarrow> dshared \<Rightarrow> bool" where
  "excl_inv ts s \<longleftrightarrow> (\<forall>j < length ts. \<forall>k < length ts. in_cs (pc (ts ! j)) \<longrightarrow> in_cs (pc (ts ! k)) \<longrightarrow> j = k) \<and>
    (mtx_flag (dmutex s) \<longleftrightarrow> (\<exists>j < length ts. in_cs (pc (ts ! j))))"

definition reads_inv :: "dthread \<Rightarrow> dshared \<Rightarrow> bool" where
  "reads_inv t s \<longleftrightarrow> (pc t = Mtx_split_wr \<longrightarrow> tmp t = shared_split_mtx s) \<and> (pc t = Mtx_one_wr \<longrightarrow> reg t = shared_oneline_mtx s)"

definition sums_inv :: "dthread list \<Rightarrow> dshared \<Rightarrow> bool" where
  "sums_inv ts s \<longleftrightarrow> shared_atomic s = step_ct * updates after_atomic ts \<and> shared_split_mtx s = step_ct * updates after_split ts \<and>
    shared_oneline_mtx s = step_ct * updates after_one ts"

definition race_inv :: "u32 \<Rightarrow> dthread list \<times> dshared \<Rightarrow> bool" where
  "race_inv count = (\<lambda>(ts, s). (\<forall>j < length ts. bounds_inv count (ts ! j) \<and> reads_inv (ts ! j) s) \<and> excl_inv ts s \<and> sums_inv ts s)"

lemma sum_list_upd:
  fixes f :: "'a \<Rightarrow> 'b :: ab_group_add"
  shows "j < length ts \<Longrightarrow> sum_list (map f (ts[j := t])) = sum_list (map f ts) - f (ts ! j) + f t"
proof (induction ts arbitrary: j)
  case (Cons a ts)
  then show ?case by (cases j) (simp_all add: algebra_simps)
qed simp

lemma updates_upd: "j < length ts \<Longrightarrow> updates ps (ts[j := t]) = updates ps ts - did ps (ts ! j) + did ps t"
  unfolding updates_def by (rule sum_list_upd)

lemma race_inv_init: "race_inv count (race_init n)"
  by (simp add: race_inv_def race_init_def dthread0_def bounds_inv_def reads_inv_def excl_inv_def sums_inv_def updates_def did_def
      after_atomic_def after_split_def after_one_def in_cs_def map_replicate_const sum_list_replicate mtx_init_def atomic_flag_clear_def)

lemma word_Suc_le: "i < count \<Longrightarrow> i + 1 \<le> (count :: u32)"
  by (metis add.commute inc_le)

lemmas main_step_defs = thread_main_step_def mtx_lock_round_def atomic_flag_test_and_set_def mtx_unlock_def atomic_flag_clear_def

lemma step_bounds: "bounds_inv count t \<Longrightarrow> thread_main_step count t s = (t', s') \<Longrightarrow> bounds_inv count t'"
  by (cases "pc t") (auto simp: bounds_inv_def main_step_defs word_Suc_le split: if_splits)

text \<open>What a step does to the critical section and its lock.\<close>

lemma step_cs:
  assumes "thread_main_step count t s = (t', s')"
  shows "(if pc t = Lock \<and> \<not> mtx_flag (dmutex s) then in_cs (pc t') \<and> mtx_flag (dmutex s')
     else if pc t = Unlock then \<not> in_cs (pc t') \<and> \<not> mtx_flag (dmutex s')
     else in_cs (pc t') = in_cs (pc t) \<and> mtx_flag (dmutex s') = mtx_flag (dmutex s))"
  using assms by (cases "pc t") (auto simp: in_cs_def main_step_defs split: if_splits)

lemma step_excl:
  assumes step: "thread_main_step count (ts ! j) s = (t', s')" and j: "j < length ts" and inv: "excl_inv ts s"
  shows "excl_inv (ts[j := t']) s'"
proof -
  let ?cs = "\<lambda>k. in_cs (pc (ts ! k))" and ?cs' = "\<lambda>k. in_cs (pc (ts[j := t'] ! k))"
  have nth: "?cs' k = (if k = j then in_cs (pc t') else ?cs k)" for k using j by simp
  have uniq: "\<And>i k. i < length ts \<Longrightarrow> k < length ts \<Longrightarrow> ?cs i \<Longrightarrow> ?cs k \<Longrightarrow> i = k"
    and flag: "mtx_flag (dmutex s) \<longleftrightarrow> (\<exists>k < length ts. ?cs k)" using inv by (auto simp: excl_inv_def)
  consider (lock) "pc (ts ! j) = Lock" "\<not> mtx_flag (dmutex s)" | (unlock) "pc (ts ! j) = Unlock"
    | (other) "\<not> (pc (ts ! j) = Lock \<and> \<not> mtx_flag (dmutex s))" "pc (ts ! j) \<noteq> Unlock" by blast
  then show ?thesis
  proof cases
    case lock
    then have "in_cs (pc t')" "mtx_flag (dmutex s')" using step_cs [OF step] by simp_all
    then show ?thesis using lock(2) flag j unfolding excl_inv_def nth by auto
  next
    case unlock
    then have "\<not> in_cs (pc t')" "\<not> mtx_flag (dmutex s')" "?cs j" using step_cs [OF step] by (simp_all add: in_cs_def)
    then have "\<not> ?cs' k" if "k < length ts" for k using uniq [OF j that] unfolding nth by (metis (full_types))
    then show ?thesis using \<open>\<not> mtx_flag (dmutex s')\<close> unfolding excl_inv_def by simp
  next
    case other
    then have "in_cs (pc t') = ?cs j" "mtx_flag (dmutex s') = mtx_flag (dmutex s)" using step_cs [OF step] by (auto split: if_splits)
    then have "?cs' k = ?cs k" for k unfolding nth by auto
    then show ?thesis using inv \<open>mtx_flag (dmutex s') = mtx_flag (dmutex s)\<close> unfolding excl_inv_def by simp
  qed
qed

lemma outside_cs_frame:
  assumes "\<not> in_cs (pc t)"
  shows "shared_split_mtx (snd (thread_main_step count t s)) = shared_split_mtx s"
    "shared_oneline_mtx (snd (thread_main_step count t s)) = shared_oneline_mtx s"
  using assms by (cases "pc t"; simp add: in_cs_def main_step_defs split: prod.split)+

lemma step_outside:
  assumes "thread_main_step count t s = (t', s')" "\<not> in_cs (pc t)"
  shows "shared_split_mtx s' = shared_split_mtx s" "shared_oneline_mtx s' = shared_oneline_mtx s"
  using outside_cs_frame [OF assms(2), of count s] assms(1) by simp_all

lemma step_reads: "reads_inv t s \<Longrightarrow> thread_main_step count t s = (t', s') \<Longrightarrow> reads_inv t' s'"
  by (cases "pc t") (auto simp: reads_inv_def main_step_defs split: if_splits)

lemma step_sums:
  assumes "thread_main_step count t s = (t', s')" "reads_inv t s"
  shows "shared_atomic s' = shared_atomic s + step_ct * (did after_atomic t' - did after_atomic t)"
    "shared_split_mtx s' = shared_split_mtx s + step_ct * (did after_split t' - did after_split t)"
    "shared_oneline_mtx s' = shared_oneline_mtx s + step_ct * (did after_one t' - did after_one t)"
proof -
  have "shared_atomic s' = shared_atomic s + (did after_atomic t' - did after_atomic t)"
    using assms(1) by (cases "pc t") (auto simp: did_def after_atomic_def main_step_defs step_ct_def split: if_splits)
  moreover have "shared_split_mtx s' = shared_split_mtx s + (did after_split t' - did after_split t)"
    using assms by (cases "pc t") (auto simp: reads_inv_def did_def after_split_def main_step_defs step_ct_def split: if_splits)
  moreover have "shared_oneline_mtx s' = shared_oneline_mtx s + (did after_one t' - did after_one t)"
    using assms by (cases "pc t") (auto simp: reads_inv_def did_def after_one_def main_step_defs step_ct_def split: if_splits)
  ultimately show "shared_atomic s' = shared_atomic s + step_ct * (did after_atomic t' - did after_atomic t)"
    "shared_split_mtx s' = shared_split_mtx s + step_ct * (did after_split t' - did after_split t)"
    "shared_oneline_mtx s' = shared_oneline_mtx s + step_ct * (did after_one t' - did after_one t)"
    by (simp_all add: step_ct_def)
qed

lemma updates_grow: "(c :: u32) * u + c * (d' - d) = c * (u - d + d')"
  by (simp add: algebra_simps)

lemma race_inv_step:
  assumes "race_inv count st" "race_step count st st'"
  shows "race_inv count st'"
  using assms(2)
proof cases
  case (Run j ts s t' s')
  let ?t = "ts ! j" and ?ts = "ts[j := t']"
  note step = Run(5)
  have inv: "\<And>k. k < length ts \<Longrightarrow> bounds_inv count (ts ! k) \<and> reads_inv (ts ! k) s" "excl_inv ts s" "sums_inv ts s"
    using assms(1) Run(1) by (auto simp: race_inv_def)
  have nth: "?ts ! k = (if k = j then t' else ts ! k)" for k using Run(3) by simp
  have "excl_inv ?ts s'" by (rule step_excl [OF step Run(3) inv(2)])
  moreover have "sums_inv ?ts s'"
    using inv(3) step_sums [OF step] inv(1) [OF Run(3)] unfolding sums_inv_def updates_upd [OF Run(3)]
    by (metis updates_grow)
  moreover have "bounds_inv count (?ts ! k) \<and> reads_inv (?ts ! k) s'" if k: "k < length ts" for k
  proof (cases "k = j")
    case True
    then show ?thesis using step_bounds [OF _ step] step_reads [OF _ step] inv(1) [OF Run(3)] by (simp add: nth)
  next
    case False
    have "\<not> in_cs (pc (ts ! k)) \<or> \<not> in_cs (pc ?t)" using inv(2) k Run(3) False by (auto simp: excl_inv_def)
    then show ?thesis using False inv(1) [OF k] step_outside [OF step] by (auto simp: nth reads_inv_def in_cs_def)
  qed
  ultimately show ?thesis using Run(2) by (simp add: race_inv_def)
qed

section \<open>Runs\<close>

text \<open>A schedule, the list of the threads in the order in which they take a step, determines a run.\<close>

definition race_sched1 :: "u32 \<Rightarrow> nat \<Rightarrow> dthread list \<times> dshared \<Rightarrow> dthread list \<times> dshared" where
  "race_sched1 count j st =
    (if j < length (fst st) then
       let (t', s') = thread_main_step count (fst st ! j) (snd st) in ((fst st)[j := t'], s')
     else st)"

definition race_run :: "u32 \<Rightarrow> nat list \<Rightarrow> dthread list \<times> dshared \<Rightarrow> dthread list \<times> dshared" where
  "race_run count js st = fold (race_sched1 count) js st"

lemma race_sched1_reach: "(race_step count)\<^sup>*\<^sup>* st (race_sched1 count j st)"
proof (cases "j < length (fst st) \<and> pc (fst st ! j) \<noteq> Finished")
  case True
  moreover obtain ts s t' s' where "st = (ts, s)" "thread_main_step count (ts ! j) s = (t', s')" by (metis surj_pair)
  ultimately show ?thesis by (auto simp: race_sched1_def intro!: r_into_rtranclp race_step.Run)
next
  case False
  then have "race_sched1 count j st = st" by (cases st) (auto simp: race_sched1_def thread_main_step_def)
  then show ?thesis by simp
qed

lemma race_run_reach: "(race_step count)\<^sup>*\<^sup>* st (race_run count js st)"
proof (induction js arbitrary: st)
  case (Cons j js)
  then show ?case using race_sched1_reach [of count st j] by (simp add: race_run_def) (meson rtranclp_trans)
qed (simp add: race_run_def)

definition all_finished :: "dthread list \<Rightarrow> bool" where
  "all_finished ts \<longleftrightarrow> (\<forall>t \<in> set ts. pc t = Finished)"

text \<open>The number of steps that a thread has left when it never waits for the mutex.\<close>

definition dpc_left :: "dpc \<Rightarrow> nat" where
  "dpc_left p = (case p of Loop \<Rightarrow> 13 | Split_rd \<Rightarrow> 12 | Split_wr \<Rightarrow> 11 | One_rd \<Rightarrow> 10 | One_wr \<Rightarrow> 9 | Atomic_add \<Rightarrow> 8 | Lock \<Rightarrow> 7
     | Mtx_split_rd \<Rightarrow> 6 | Mtx_split_wr \<Rightarrow> 5 | Mtx_one_rd \<Rightarrow> 4 | Mtx_one_wr \<Rightarrow> 3 | Unlock \<Rightarrow> 2 | Next \<Rightarrow> 1 | Finished \<Rightarrow> 0)"

definition steps_left :: "u32 \<Rightarrow> dthread \<Rightarrow> nat" where
  "steps_left count t = 13 * (unat count - unat (di t)) + dpc_left (pc t)"

lemma unat_word_Suc: "(i :: u32) < count \<Longrightarrow> unat (i + 1) = Suc (unat i)"
  using unsigned_less [where ?'a = nat, of count] by (simp add: word_less_nat_alt unat_word_ariths)

lemma step_progress:
  assumes "bounds_inv count t" "pc t \<noteq> Finished" "pc t = Lock \<longrightarrow> \<not> mtx_flag (dmutex s)"
  shows "steps_left count (fst (thread_main_step count t s)) < steps_left count t"
proof (cases "pc t = Next")
  case True
  then have "unat (di t) < unat count" "unat (di t + 1) = Suc (unat (di t))"
    using assms(1) unat_word_Suc by (auto simp: bounds_inv_def word_less_nat_alt)
  then show ?thesis using True by (simp add: steps_left_def dpc_left_def thread_main_step_def)
next
  case False
  then show ?thesis using assms by (cases "pc t") (auto simp: steps_left_def dpc_left_def bounds_inv_def main_step_defs)
qed

lemma race_can_progress:
  assumes inv: "race_inv count (ts, s)" and unfinished: "\<not> all_finished ts"
  obtains j where "j < length ts" "pc (ts ! j) \<noteq> Finished" "pc (ts ! j) = Lock \<longrightarrow> \<not> mtx_flag (dmutex s)"
proof (cases "mtx_flag (dmutex s)")
  case True
  then obtain j where "j < length ts" "in_cs (pc (ts ! j))" using inv by (auto simp: race_inv_def excl_inv_def)
  then show thesis by (intro that [of j]) (auto simp: in_cs_def)
next
  case False
  obtain j where "j < length ts" "pc (ts ! j) \<noteq> Finished" using unfinished by (auto simp: all_finished_def in_set_conv_nth)
  then show thesis using False by (intro that [of j]) auto
qed

lemma sum_list_upd_less:
  fixes f :: "'a \<Rightarrow> nat"
  shows "j < length ts \<Longrightarrow> f t < f (ts ! j) \<Longrightarrow> sum_list (map f (ts[j := t])) < sum_list (map f ts)"
proof (induction ts arbitrary: j)
  case (Cons a ts)
  then show ?case by (cases j) simp_all
qed simp

interpretation race: terminable "race_step count" "race_inv count" "\<lambda>st. all_finished (fst st)"
    "\<lambda>st. sum_list (map (steps_left count) (fst st))" for count
proof
  fix st st'
  assume inv: "race_inv count st"
  show "race_inv count st'" if "race_step count st st'" using race_inv_step [OF inv that] .
  obtain ts s where st: "st = (ts, s)" by (cases st)
  show "\<exists>st'. race_step count st st' \<and> sum_list (map (steps_left count) (fst st')) < sum_list (map (steps_left count) (fst st))"
    if "\<not> all_finished (fst st)"
  proof -
    obtain j where j: "j < length ts" "pc (ts ! j) \<noteq> Finished" "pc (ts ! j) = Lock \<longrightarrow> \<not> mtx_flag (dmutex s)"
      using race_can_progress inv \<open>\<not> all_finished (fst st)\<close> st by (metis fst_conv)
    obtain t' s' where step: "thread_main_step count (ts ! j) s = (t', s')" by force
    have go: "race_step count st (ts[j := t'], s')" using race_step.Run [OF j(1,2) step] st by simp
    have "bounds_inv count (ts ! j)" using inv j(1) st by (simp add: race_inv_def)
    then have "steps_left count t' < steps_left count (ts ! j)" using step_progress [OF _ j(2,3)] step by (metis fst_conv)
    then show ?thesis using go st sum_list_upd_less [OF j(1), of "steps_left count" t'] by (metis fst_conv)
  qed
qed

lemma updates_finished:
  assumes "\<forall>j < length ts. bounds_inv count (ts ! j)" "all_finished ts" "Finished \<notin> ps"
  shows "updates ps ts = of_nat (length ts) * count"
proof -
  have "did ps t = count" if mem: "t \<in> set ts" for t
  proof -
    obtain j where "j < length ts" "t = ts ! j" using mem by (auto simp: in_set_conv_nth)
    then have "bounds_inv count t" "pc t = Finished" using assms(1,2) mem by (auto simp: all_finished_def)
    then show ?thesis using assms(3) by (simp add: did_def bounds_inv_def)
  qed
  then have "map (did ps) ts = replicate (length ts) count" by (simp add: map_replicate_const [symmetric])
  then show ?thesis unfolding updates_def by (metis sum_list_replicate)
qed

lemma race_counters:
  assumes "race_inv count (ts, s)" "all_finished ts"
  defines "v \<equiv> of_nat (length ts) * count * step_ct"
  shows "shared_atomic s = v" "shared_split_mtx s = v" "shared_oneline_mtx s = v"
proof -
  have "updates ps ts = of_nat (length ts) * count" if "Finished \<notin> ps" for ps
    using updates_finished [OF _ assms(2) that, of count] assms(1) by (simp add: race_inv_def)
  then show "shared_atomic s = v" "shared_split_mtx s = v" "shared_oneline_mtx s = v"
    unfolding v_def using assms(1) by (simp_all add: race_inv_def sums_inv_def after_atomic_def after_split_def after_one_def mult.commute)
qed

lemma race_step_length: "(race_step count)\<^sup>*\<^sup>* st st' \<Longrightarrow> length (fst st') = length (fst st)"
  by (induction rule: rtranclp_induct) (auto elim: race_step.cases)

text \<open>
  Property C14. In the data race demonstration with up to \<open>THRD_MAX\<close> threads, so that \<open>main\<close> can start them all, the threads exclude each other from the code between \<open>mtx_lock\<close> and
  \<open>mtx_unlock\<close>, under every schedule. When all threads have returned, the atomic counter and the two counters under the
  mutex have the value that the program prints as the expected one, the number of threads times the count, modulo the
  width of the counters. And the mutex never blocks the program for good: every reachable state has a run in which all
  threads return.
\<close>

theorem datarace_counts:
  assumes "(race_step count)\<^sup>*\<^sup>* (race_init n) (ts, s)" "n \<le> THRD_MAX"
  shows "(\<forall>j < length ts. \<forall>k < length ts. in_cs (pc (ts ! j)) \<and> in_cs (pc (ts ! k)) \<longrightarrow> j = k)
    \<and> (all_finished ts \<longrightarrow> shared_atomic s = of_nat n * count * step_ct \<and> shared_split_mtx s = of_nat n * count * step_ct
      \<and> shared_oneline_mtx s = of_nat n * count * step_ct)
    \<and> (\<exists>st'. (race_step count)\<^sup>*\<^sup>* (ts, s) st' \<and> all_finished (fst st'))"
proof (intro conjI impI)
  have inv: "race_inv count (ts, s)" "length ts = n"
    using race.inv_reachable [OF assms(1) race_inv_init] race_step_length [OF assms(1)] by (simp_all add: race_init_def)
  show "\<forall>j < length ts. \<forall>k < length ts. in_cs (pc (ts ! j)) \<and> in_cs (pc (ts ! k)) \<longrightarrow> j = k"
    using inv(1) unfolding race_inv_def excl_inv_def by simp
  show "\<exists>st'. (race_step count)\<^sup>*\<^sup>* (ts, s) st' \<and> all_finished (fst st')" by (rule race.can_end [OF inv(1)])
  assume fin: "all_finished ts"
  then show "shared_atomic s = of_nat n * count * step_ct" "shared_split_mtx s = of_nat n * count * step_ct"
    "shared_oneline_mtx s = of_nat n * count * step_ct"
    using race_counters [OF inv(1)] inv(2) by simp_all
qed

definition two_by_turns :: "nat list" where
  "two_by_turns = concat (replicate 12 [0, 1]) @ concat (replicate 6 [1]) @ [0, 0, 0, 0]"

definition lockstep_run :: "dthread list \<times> dshared" where
  "lockstep_run = race_run 1 (two_by_turns @ replicate 12 1) (race_init 2)"

lemma lockstep_run_eval:
  "all_finished (fst lockstep_run) \<and> shared_split (snd lockstep_run) = 1 \<and> shared_oneline (snd lockstep_run) = 1 \<and>
   shared_split_mtx (snd lockstep_run) = 2"
  by code_simp

lemma lockstep_run_reach: "(race_step 1)\<^sup>*\<^sup>* (race_init 2) (fst lockstep_run, snd lockstep_run)"
  using race_run_reach by (simp add: lockstep_run_def)

theorem datarace_counts_witness:
  "shared_split (snd lockstep_run) = 1 \<and> shared_atomic (snd lockstep_run) = of_nat 2 * 1 * step_ct"
proof -
  have "2 \<le> THRD_MAX" by (simp add: THRD_MAX_def)
  then show ?thesis using datarace_counts [OF lockstep_run_reach] lockstep_run_eval by blast
qed

section \<open>The thread slots\<close>

lemma inuse_again: "inuse (us ! i) \<Longrightarrow> us[i := (us ! i)\<lparr>inuse := True\<rparr>] = us"
  by (metis (full_types) list_update_id uthrd.surjective uthrd.update_convs(2))

lemma thrd_alloc_from_None:
  "i + k \<le> length us \<Longrightarrow> thrd_alloc_from k i us = None \<longleftrightarrow> (\<forall>m. i \<le> m \<and> m < i + k \<longrightarrow> inuse (us ! m))"
proof (induction k i us rule: thrd_alloc_from.induct)
  case (2 k i us)
  have split: "(\<forall>m. i \<le> m \<and> m < i + Suc k \<longrightarrow> inuse (us ! m)) \<longleftrightarrow>
      inuse (us ! i) \<and> (\<forall>m. Suc i \<le> m \<and> m < Suc i + k \<longrightarrow> inuse (us ! m))"
    (is "?all \<longleftrightarrow> ?here \<and> ?rest")
  proof
    assume "?here \<and> ?rest"
    then show ?all by (metis Suc_leI add_Suc_right add_Suc_shift le_neq_implies_less)
  qed auto
  note same = inuse_again [of us i]
  show ?case
    using 2 same unfolding split by (cases "inuse (us ! i)") (simp_all add: atomic_flag_test_and_set_def)
qed auto

lemma thrd_alloc_from_Some:
  "thrd_alloc_from k i us = Some (j, us') \<Longrightarrow> i + k \<le> length us \<Longrightarrow>
   i \<le> j \<and> j < i + k \<and> \<not> inuse (us ! j) \<and> (\<forall>m. i \<le> m \<and> m < j \<longrightarrow> inuse (us ! m)) \<and> us' = us[j := (us ! j)\<lparr>inuse := True\<rparr>]"
proof (induction k i us rule: thrd_alloc_from.induct)
  case (2 k i us)
  show ?case
  proof (cases "inuse (us ! i)")
    case True
    have "Suc i \<le> j \<and> j < Suc i + k \<and> \<not> inuse (us ! j) \<and> (\<forall>m. Suc i \<le> m \<and> m < j \<longrightarrow> inuse (us ! m)) \<and>
        us' = us[j := (us ! j)\<lparr>inuse := True\<rparr>]"
      using 2 True by (simp add: atomic_flag_test_and_set_def inuse_again)
    then show ?thesis using True by (metis Suc_leD Suc_leI add_Suc_right add_Suc_shift le_neq_implies_less)
  next
    case False
    then show ?thesis using 2(2) by (auto simp: atomic_flag_test_and_set_def)
  qed
qed simp

lemma map_inuse_free:
  "j < length us \<Longrightarrow> j < THRD_MAX \<Longrightarrow> map inuse (thrd_free j us) = (map inuse us)[j := False]"
  by (simp add: thrd_free_def thrd_ok_def map_update atomic_flag_clear_def)

text \<open>
  The thread slots of the C library. \<open>thrd_create\<close> takes the lowest free slot, or fails with \<open>ENOMEM\<close> when all
  \<open>THRD_MAX\<close> are taken; the new thread starts at the end of the stack that belongs to its slot; when the system call fails the
  slot is free again. After a successful \<open>thrd_join\<close> of a thread just created, the same slots are taken as before it was created.
\<close>

theorem thrd_create_join_slots:
  assumes len: "length us = THRD_MAX"
  shows "case thrd_create ustacks sys us of
      (None, us', r) \<Rightarrow> map inuse us' = map inuse us \<and>
        ((\<forall>u \<in> set us. inuse u) \<and> r = err ENOMEM \<or> r \<le> 0 \<and> (\<exists>ut < THRD_MAX. r = sys (ustacks + of_nat ut * THRD_STACKSZ + THRD_STACKSZ)))
    | (Some ut, us', r) \<Rightarrow> r = 0 \<and> ut < THRD_MAX \<and> \<not> inuse (us ! ut) \<and> (\<forall>m < ut. inuse (us ! m)) \<and>
        map inuse us' = (map inuse us)[ut := True] \<and>
        ktid (us' ! ut) = sys (ustacks + of_nat ut * THRD_STACKSZ + THRD_STACKSZ) \<and> ktid (us' ! ut) > 0 \<and>
        (\<forall>sysj. sysj (ktid (us' ! ut)) \<ge> 0 \<longrightarrow>
          snd (thrd_join sysj ut us') = 0 \<and> map inuse (fst (thrd_join sysj ut us')) = map inuse us)"
proof (cases "thrd_alloc us")
  case None
  then have "\<forall>m < THRD_MAX. inuse (us ! m)" using thrd_alloc_from_None [of 0 THRD_MAX us] len by (simp add: thrd_alloc_def)
  then have "\<forall>u \<in> set us. inuse u" using len by (auto simp: in_set_conv_nth)
  then show ?thesis using None by (simp add: thrd_create_def)
next
  case (Some p)
  obtain ut us1 where p: "p = (ut, us1)" by (cases p)
  have ut: "ut < THRD_MAX" "\<not> inuse (us ! ut)" "\<forall>m < ut. inuse (us ! m)" "us1 = us[ut := (us ! ut)\<lparr>inuse := True\<rparr>]"
    using thrd_alloc_from_Some [of THRD_MAX 0 us ut us1] Some p len by (auto simp: thrd_alloc_def)
  let ?r = "sys (ustacks + of_nat ut * THRD_STACKSZ + THRD_STACKSZ)"
  have free: "(map inuse us)[ut := False] = map inuse us" using ut(1,2) len by (metis (full_types) list_update_id nth_map)
  have len1: "length us1 = THRD_MAX" using ut(4) len by simp
  let ?us = "us1[ut := (us1 ! ut)\<lparr>ustack_base := ustacks + of_nat ut * THRD_STACKSZ\<rparr>]"
  have taken: "map inuse ?us = (map inuse us)[ut := True]" using ut len by (simp add: map_update)
  have create: "thrd_create ustacks sys us =
      (if ?r > 0 then (Some ut, ?us[ut := (?us ! ut)\<lparr>ktid := ?r\<rparr>], 0) else (None, thrd_free ut ?us, ?r))"
    using Some p ut(1) len1 by (simp add: thrd_create_def Let_def)
  show ?thesis
  proof (cases "?r > 0")
    case True
    let ?us' = "?us[ut := (?us ! ut)\<lparr>ktid := ?r\<rparr>]"
    have ms: "map inuse ?us' = (map inuse us)[ut := True]" using taken ut(1) len1 by (simp add: map_update)
    then have "map inuse (thrd_free ut ?us') = map inuse us" using map_inuse_free [of ut ?us'] ut(1) len1 free by simp
    then show ?thesis using True ut(1-3) ms len1 by (simp add: create thrd_join_def thrd_ok_def)
  next
    case False
    have "map inuse (thrd_free ut ?us) = map inuse us" using map_inuse_free [of ut ?us] ut(1) len1 free taken by simp
    moreover have "\<exists>ua < THRD_MAX. ?r = sys (ustacks + of_nat ua * THRD_STACKSZ + THRD_STACKSZ)" using ut(1) by blast
    ultimately show ?thesis using False by (simp add: create)
  qed
qed

definition eight_slots :: "uthrd list" where
  "eight_slots = replicate 8 \<lparr>ktid = 0, inuse = False, ustack_base = 0\<rparr>"

theorem thrd_create_join_slots_witness:
  "length eight_slots = THRD_MAX \<and> (\<exists>us'. thrd_create 0x5000 (\<lambda>sp. 7) eight_slots = (Some 0, us', 0) \<and> ktid (us' ! 0) = 7)"
proof -
  have len: "length eight_slots = THRD_MAX" by (simp add: eight_slots_def THRD_MAX_def)
  obtain us' where "thrd_create 0x5000 (\<lambda>sp. 7) eight_slots = (Some 0, us', 0)"
    by (simp add: thrd_create_def thrd_alloc_def THRD_MAX_def eight_slots_def eval_nat_numeral atomic_flag_test_and_set_def Let_def)
  then show ?thesis using thrd_create_join_slots [OF len, of "\<lambda>sp. 7" "0x5000"] len by auto
qed

end
