(* ===== verification/Philosophers.thy ===== *)
theory Philosophers
  imports User_Threads
begin

text \<open>
  The dining philosophers (\<open>process/philosophers.c\<close>) on the mutexes of the C library. Every philosopher is a thread that runs
  \<open>phl_main\<close>; a step executes one operation on a shared mutex, or the thread's own assignments up to the next one. What
  \<open>phl_print\<close> prints is recorded as a frame of the values that its format strings show; the delay loops have no effect.
  \<open>phl_init\<close> is the table when \<open>main\<close> has started a thread for every philosopher, which it can for up to \<open>THRD_MAX\<close> of them.
\<close>

section \<open>The program\<close>

datatype phl_state = PHL_THINKING | PHL_HUNGRY | PHL_EATING | PHL_FULL

text \<open>The points of the loop of \<open>phl_main\<close>, and where a thread is: at a point, or in \<open>phl_print\<close> before or after its \<open>mtx_lock\<close>.\<close>

datatype ppoint = Think | Get_hungry | Pick_a | Took_a | Pick_b | Took_b | Eat | Full | Put_b | Left_b | Put_a | Left_a | Next_round

datatype ppc = At ppoint | Print ppoint | Printing ppoint | Exit_lock | Exiting | Done

record philosopher =
  phil_id :: nat
  left_handed :: bool
  fork_right :: nat
  fork_left :: nat
  have_right :: bool
  have_left :: bool
  phl_st :: phl_state
  meal_ct :: u32
  loop_i :: u32
  ppc :: ppc

record phl_frame =
  hpos :: nat
  shown_meals :: u32
  shown_right :: bool
  shown_st :: phl_state
  shown_left :: bool

record phl_shared =
  forks :: "mtx list"
  print_mtx :: mtx
  frames :: "phl_frame list"
  exited :: bool

definition PHL_ART_W :: nat where "PHL_ART_W = 5"

definition phl_print_frame :: "philosopher \<Rightarrow> phl_frame" where
  "phl_print_frame phl =
    \<lparr>hpos = phil_id phl * (PHL_ART_W + 4) + 1, shown_meals = meal_ct phl, shown_right = have_right phl,
     shown_st = phl_st phl, shown_left = have_left phl\<rparr>"

text \<open>The four choices by handedness at the start of \<open>phl_main\<close>.\<close>

definition forka :: "philosopher \<Rightarrow> nat" where
  "forka phl = (if left_handed phl then fork_left phl else fork_right phl)"

definition forkb :: "philosopher \<Rightarrow> nat" where
  "forkb phl = (if left_handed phl then fork_right phl else fork_left phl)"

definition set_has_a :: "bool \<Rightarrow> philosopher \<Rightarrow> philosopher" where
  "set_has_a v phl = (if left_handed phl then phl\<lparr>have_left := v\<rparr> else phl\<lparr>have_right := v\<rparr>)"

definition set_has_b :: "bool \<Rightarrow> philosopher \<Rightarrow> philosopher" where
  "set_has_b v phl = (if left_handed phl then phl\<lparr>have_right := v\<rparr> else phl\<lparr>have_left := v\<rparr>)"

definition lock_fork :: "nat \<Rightarrow> phl_shared \<Rightarrow> phl_shared \<times> bool" where
  "lock_fork f sh = (let (m, locked) = mtx_lock_round (forks sh ! f) in (sh\<lparr>forks := (forks sh)[f := m]\<rparr>, locked))"

definition unlock_fork :: "nat \<Rightarrow> phl_shared \<Rightarrow> phl_shared" where
  "unlock_fork f sh = sh\<lparr>forks := (forks sh)[f := fst (mtx_unlock (forks sh ! f))]\<rparr>"

definition lock_print :: "phl_shared \<Rightarrow> phl_shared \<times> bool" where
  "lock_print sh = (let (m, locked) = mtx_lock_round (print_mtx sh) in (sh\<lparr>print_mtx := m\<rparr>, locked))"

definition phl_print_end :: "philosopher \<Rightarrow> phl_shared \<Rightarrow> phl_shared" where
  "phl_print_end phl sh =
    sh\<lparr>frames := frames sh @ [phl_print_frame phl], print_mtx := fst (mtx_unlock (print_mtx sh))\<rparr>"

definition phl_main_step :: "u32 \<Rightarrow> bool \<Rightarrow> philosopher \<Rightarrow> phl_shared \<Rightarrow> philosopher \<times> phl_shared" where
  "phl_main_step phl_loops exit_first_finished phl sh =
    (case ppc phl of
       At Think \<Rightarrow>
         (if loop_i phl < phl_loops then phl\<lparr>phl_st := PHL_THINKING, ppc := Print Get_hungry\<rparr>
          else if exit_first_finished then phl\<lparr>ppc := Exit_lock\<rparr>
          else phl\<lparr>ppc := Done\<rparr>, sh)
     | At Get_hungry \<Rightarrow> (phl\<lparr>phl_st := PHL_HUNGRY, ppc := Print Pick_a\<rparr>, sh)
     | At Pick_a \<Rightarrow>
         (let (sh', locked) = lock_fork (forka phl) sh
          in (if locked then phl\<lparr>ppc := At Took_a\<rparr> else phl, sh'))
     | At Took_a \<Rightarrow> (set_has_a True phl\<lparr>ppc := Print Pick_b\<rparr>, sh)
     | At Pick_b \<Rightarrow>
         (let (sh', locked) = lock_fork (forkb phl) sh
          in (if locked then phl\<lparr>ppc := At Took_b\<rparr> else phl, sh'))
     | At Took_b \<Rightarrow> (set_has_b True phl\<lparr>ppc := Print Eat\<rparr>, sh)
     | At Eat \<Rightarrow> (phl\<lparr>phl_st := PHL_EATING, meal_ct := meal_ct phl + 1, ppc := Print Full\<rparr>, sh)
     | At Full \<Rightarrow> (phl\<lparr>phl_st := PHL_FULL, ppc := Print Put_b\<rparr>, sh)
     | At Put_b \<Rightarrow> (phl\<lparr>ppc := At Left_b\<rparr>, unlock_fork (forkb phl) sh)
     | At Left_b \<Rightarrow> (set_has_b False phl\<lparr>ppc := Print Put_a\<rparr>, sh)
     | At Put_a \<Rightarrow> (phl\<lparr>ppc := At Left_a\<rparr>, unlock_fork (forka phl) sh)
     | At Left_a \<Rightarrow> (set_has_a False phl\<lparr>ppc := Print Next_round\<rparr>, sh)
     | At Next_round \<Rightarrow> (phl\<lparr>loop_i := loop_i phl + 1, ppc := At Think\<rparr>, sh)
     | Print p \<Rightarrow> (let (sh', locked) = lock_print sh in (if locked then phl\<lparr>ppc := Printing p\<rparr> else phl, sh'))
     | Printing p \<Rightarrow> (phl\<lparr>ppc := At p\<rparr>, phl_print_end phl sh)
     | Exit_lock \<Rightarrow> (let (sh', locked) = lock_print sh in (if locked then phl\<lparr>ppc := Exiting\<rparr> else phl, sh'))
     | Exiting \<Rightarrow> (phl, sh\<lparr>exited := True\<rparr>)
     | Done \<Rightarrow> (phl, sh))"

text \<open>The set-up by \<open>main\<close>: philosopher \<open>i\<close> sits between the forks \<open>i\<close> and \<open>i + 1\<close>; the option \<open>-l\<close> makes the last one left-handed.\<close>

definition phl_setup :: "bool \<Rightarrow> nat \<Rightarrow> nat \<Rightarrow> philosopher" where
  "phl_setup lefty n i =
    \<lparr>phil_id = i, left_handed = (lefty \<and> i = n - 1), fork_right = i, fork_left = (i + 1) mod n,
     have_right = False, have_left = False, phl_st = PHL_THINKING, meal_ct = 0, loop_i = 0, ppc = At Think\<rparr>"

definition phl_init :: "bool \<Rightarrow> nat \<Rightarrow> philosopher list \<times> phl_shared" where
  "phl_init lefty n =
    (map (phl_setup lefty n) [0..<n],
     \<lparr>forks = replicate n (fst (mtx_init \<lparr>mtx_flag = False\<rparr>)), print_mtx = fst (mtx_init \<lparr>mtx_flag = False\<rparr>),
      frames = [], exited = False\<rparr>)"

text \<open>The threads interleave until all have returned or one has ended the process by \<open>_exit\<close>.\<close>

inductive phl_step :: "u32 \<Rightarrow> bool \<Rightarrow> philosopher list \<times> phl_shared \<Rightarrow> philosopher list \<times> phl_shared \<Rightarrow> bool"
  for phl_loops exit_first where
  Turn: "j < length ts \<Longrightarrow> ppc (ts ! j) \<noteq> Done \<Longrightarrow> \<not> exited sh \<Longrightarrow>
    phl_main_step phl_loops exit_first (ts ! j) sh = (t', sh') \<Longrightarrow>
    phl_step phl_loops exit_first (ts, sh) (ts[j := t'], sh')"

definition phl_over :: "philosopher list \<times> phl_shared \<Rightarrow> bool" where
  "phl_over st \<longleftrightarrow> exited (snd st) \<or> (\<forall>t \<in> set (fst st). ppc t = Done)"

section \<open>Who owns which mutex\<close>

datatype resource = Fork nat | Printer

text \<open>
  What a philosopher owns are the mutexes that it has locked and not yet unlocked at its point of the program. In \<open>phl_print\<close> it owns the
  forks that it owns at the point to which the call returns.
\<close>

definition point :: "ppc \<Rightarrow> ppoint option" where
  "point p = (case p of At q \<Rightarrow> Some q | Print q \<Rightarrow> Some q | Printing q \<Rightarrow> Some q | _ \<Rightarrow> None)"

definition own :: "philosopher \<Rightarrow> resource set" where
  "own t =
    (if point (ppc t) \<in> {Some Took_a, Some Pick_b, Some Took_b, Some Eat, Some Full, Some Put_b, Some Left_b, Some Put_a} then {Fork (forka t)} else {}) \<union>
    (if point (ppc t) \<in> {Some Took_b, Some Eat, Some Full, Some Put_b} then {Fork (forkb t)} else {}) \<union>
    (case ppc t of Printing q \<Rightarrow> {Printer} | Exiting \<Rightarrow> {Printer} | _ \<Rightarrow> {})"

definition taken :: "phl_shared \<Rightarrow> resource \<Rightarrow> bool" where
  "taken sh r = (case r of Fork f \<Rightarrow> f < length (forks sh) \<and> mtx_flag (forks sh ! f) | Printer \<Rightarrow> mtx_flag (print_mtx sh))"

definition ownership :: "nat \<Rightarrow> (nat \<Rightarrow> 'r set) \<Rightarrow> ('r \<Rightarrow> bool) \<Rightarrow> bool" where
  "ownership n owns tk \<longleftrightarrow> (\<forall>r. tk r \<longleftrightarrow> (\<exists>j < n. r \<in> owns j)) \<and> (\<forall>r j k. j < n \<and> k < n \<and> r \<in> owns j \<and> r \<in> owns k \<longrightarrow> j = k)"

text \<open>The fields of \<open>main\<close>'s set-up never change.\<close>

definition seat :: "philosopher \<Rightarrow> nat \<times> bool \<times> nat \<times> nat" where
  "seat t = (phil_id t, left_handed t, fork_right t, fork_left t)"

text \<open>
  The hands follow the forks one assignment later; \<open>phl_print\<close> is never called between the two. \<open>private_inv\<close> is what a philosopher
  keeps of its own fields.
\<close>

definition has_a :: "philosopher \<Rightarrow> bool" where
  "has_a t = (if left_handed t then have_left t else have_right t)"

definition has_b :: "philosopher \<Rightarrow> bool" where
  "has_b t = (if left_handed t then have_right t else have_left t)"

lemma has_hands [simp]:
  "has_a (t\<lparr>ppc := q\<rparr>) = has_a t" "has_b (t\<lparr>ppc := q\<rparr>) = has_b t"
  "has_a (set_has_a v t) = v" "has_b (set_has_a v t) = has_b t" "has_a (set_has_b v t) = has_a t" "has_b (set_has_b v t) = v"
  "has_a (t\<lparr>phl_st := s\<rparr>) = has_a t" "has_b (t\<lparr>phl_st := s\<rparr>) = has_b t" "has_a (t\<lparr>meal_ct := m\<rparr>) = has_a t" "has_b (t\<lparr>meal_ct := m\<rparr>) = has_b t"
  "has_a (t\<lparr>loop_i := i\<rparr>) = has_a t" "has_b (t\<lparr>loop_i := i\<rparr>) = has_b t"
  by (simp_all add: has_a_def has_b_def set_has_a_def set_has_b_def)

lemma set_has_fields [simp]:
  "ppc (set_has_a v t) = ppc t" "phl_st (set_has_a v t) = phl_st t" "meal_ct (set_has_a v t) = meal_ct t" "loop_i (set_has_a v t) = loop_i t"
  "ppc (set_has_b v t) = ppc t" "phl_st (set_has_b v t) = phl_st t" "meal_ct (set_has_b v t) = meal_ct t" "loop_i (set_has_b v t) = loop_i t"
  by (simp_all add: set_has_a_def set_has_b_def)

definition private_inv :: "u32 \<Rightarrow> philosopher \<Rightarrow> bool" where
  "private_inv loops t \<longleftrightarrow>
    has_a t = (point (ppc t) \<in> {Some Pick_b, Some Took_b, Some Eat, Some Full, Some Put_b, Some Left_b, Some Put_a, Some Left_a}) \<and>
    has_b t = (point (ppc t) \<in> {Some Eat, Some Full, Some Put_b, Some Left_b}) \<and>
    (\<forall>p. ppc t = Print p \<or> ppc t = Printing p \<longrightarrow> p \<notin> {Took_a, Took_b, Left_b, Left_a}) \<and>
    (phl_st t = PHL_EATING \<longleftrightarrow> point (ppc t) = Some Full) \<and>
    meal_ct t = loop_i t + (if point (ppc t) \<in> {Some Full, Some Put_b, Some Left_b, Some Put_a, Some Left_a, Some Next_round} then 1 else 0) \<and>
    (if point (ppc t) = None then loop_i t = loops else if ppc t = At Think then loop_i t \<le> loops else loop_i t < loops)"

definition table_inv :: "u32 \<Rightarrow> bool \<Rightarrow> nat \<Rightarrow> philosopher list \<times> phl_shared \<Rightarrow> bool" where
  "table_inv loops lefty n = (\<lambda>(ts, sh). length ts = n \<and> length (forks sh) = n \<and>
    (\<forall>j < n. seat (ts ! j) = seat (phl_setup lefty n j) \<and> private_inv loops (ts ! j)) \<and>
    ownership n (\<lambda>j. own (ts ! j)) (taken sh))"

lemma ownership_taken: "ownership n owns tk \<Longrightarrow> tk r \<longleftrightarrow> (\<exists>j < n. r \<in> owns j)"
  by (simp add: ownership_def)

lemma ownership_unique: "ownership n owns tk \<Longrightarrow> j < n \<Longrightarrow> k < n \<Longrightarrow> r \<in> owns j \<Longrightarrow> r \<in> owns k \<Longrightarrow> j = k"
  by (auto simp: ownership_def)

lemma ownership_take:
  assumes "ownership n owns tk" "j < n" "\<not> tk r"
  shows "ownership n (owns(j := insert r (owns j))) (tk(r := True))"
  using assms by (auto simp: ownership_def)

lemma ownership_drop:
  assumes own: "ownership n owns tk" and j: "j < n" "r \<in> owns j"
  shows "ownership n (owns(j := owns j - {r})) (tk(r := False))"
  unfolding ownership_def
proof (intro conjI allI impI)
  fix q
  have "r \<notin> owns k" if "k < n" "k \<noteq> j" for k using ownership_unique [OF own j(1) that(1) j(2)] that(2) by blast
  then have "(\<exists>k < n. q \<in> (owns(j := owns j - {r})) k) \<longleftrightarrow> q \<noteq> r \<and> (\<exists>k < n. q \<in> owns k)" by (auto split: if_splits) (metis DiffI singletonD)
  then show "(tk(r := False)) q \<longleftrightarrow> (\<exists>k < n. q \<in> (owns(j := owns j - {r})) k)" using ownership_taken [OF own, of q] by simp
next
  fix q i k
  assume "i < n \<and> k < n \<and> q \<in> (owns(j := owns j - {r})) i \<and> q \<in> (owns(j := owns j - {r})) k"
  then show "i = k" using ownership_unique [OF own, of i k q] by (auto split: if_splits)
qed

section \<open>Steps and the invariant\<close>

lemmas phl_step_defs = phl_main_step_def lock_fork_def unlock_fork_def lock_print_def phl_print_end_def
  mtx_lock_round_def mtx_unlock_def atomic_flag_test_and_set_def atomic_flag_clear_def set_has_a_def set_has_b_def

lemma hands_print:
  assumes "private_inv loops t" "fork_right t \<noteq> fork_left t" "ppc t = Print p \<or> ppc t = Printing p"
  shows "have_right t = (Fork (fork_right t) \<in> own t)" "have_left t = (Fork (fork_left t) \<in> own t)"
proof -
  have pt: "point (ppc t) = Some p" using assms(3) by (auto simp: point_def)
  have ne: "forka t \<noteq> forkb t" using assms(2) by (simp add: forka_def forkb_def)
  have np: "p \<notin> {Took_a, Took_b, Left_b, Left_a}" using assms(1,3) unfolding private_inv_def by blast
  have h: "has_a t = (p \<in> {Pick_b, Took_b, Eat, Full, Put_b, Left_b, Put_a, Left_a})" "has_b t = (p \<in> {Eat, Full, Put_b, Left_b})"
    using assms(1) unfolding private_inv_def pt by simp_all
  have "Fork (forka t) \<in> own t \<longleftrightarrow> p \<in> {Took_a, Pick_b, Took_b, Eat, Full, Put_b, Left_b, Put_a}" "Fork (forkb t) \<in> own t \<longleftrightarrow> p \<in> {Took_b, Eat, Full, Put_b}"
    using ne unfolding own_def pt by (auto split: ppc.splits if_splits)
  then have "has_a t = (Fork (forka t) \<in> own t)" "has_b t = (Fork (forkb t) \<in> own t)" unfolding h using np by auto
  then show "have_right t = (Fork (fork_right t) \<in> own t)" "have_left t = (Fork (fork_left t) \<in> own t)"
    by (simp_all add: has_a_def has_b_def forka_def forkb_def split: if_splits)
qed

lemma taken_fork_upd:
  "f < length (forks sh) \<Longrightarrow> taken (sh\<lparr>forks := (forks sh)[f := (forks sh ! f)\<lparr>mtx_flag := b\<rparr>]\<rparr>) = (taken sh)(Fork f := b)"
  by (auto simp: taken_def fun_eq_iff nth_list_update split: resource.split)

lemma taken_print_upd [simp]:
  "taken (sh\<lparr>print_mtx := m\<rparr>) = (taken sh)(Printer := mtx_flag m)"
  "taken (sh\<lparr>frames := fs\<rparr>) = taken sh"
  "taken (sh\<lparr>exited := b\<rparr>) = taken sh"
  by (auto simp: taken_def fun_eq_iff split: resource.split)

lemma lock_fork_cases:
  assumes "f < length (forks sh)"
  obtains "taken sh (Fork f)" "snd (lock_fork f sh) = False" "taken (fst (lock_fork f sh)) = taken sh"
  | "\<not> taken sh (Fork f)" "snd (lock_fork f sh) = True" "taken (fst (lock_fork f sh)) = (taken sh)(Fork f := True)"
  using assms taken_fork_upd [OF assms, of True]
  by (cases "taken sh (Fork f)") (auto simp: lock_fork_def mtx_lock_round_def atomic_flag_test_and_set_def taken_def fun_upd_idem)

lemma taken_unlock_fork: "f < length (forks sh) \<Longrightarrow> taken (unlock_fork f sh) = (taken sh)(Fork f := False)"
  by (simp add: unlock_fork_def mtx_unlock_def atomic_flag_clear_def taken_fork_upd)

lemma lock_print_cases:
  obtains "taken sh Printer" "snd (lock_print sh) = False" "taken (fst (lock_print sh)) = taken sh"
  | "\<not> taken sh Printer" "snd (lock_print sh) = True" "taken (fst (lock_print sh)) = (taken sh)(Printer := True)"
  by (cases "taken sh Printer")
    (auto simp: lock_print_def mtx_lock_round_def atomic_flag_test_and_set_def taken_def fun_upd_idem_iff)

text \<open>A step takes a free resource, gives one back, or changes no ownership.\<close>

definition transfer :: "'r set \<Rightarrow> 'r set \<Rightarrow> ('r \<Rightarrow> bool) \<Rightarrow> ('r \<Rightarrow> bool) \<Rightarrow> bool" where
  "transfer o1 o2 tk1 tk2 \<longleftrightarrow>
    (\<exists>r. \<not> tk1 r \<and> o2 = insert r o1 \<and> tk2 = tk1(r := True)) \<or>
    (\<exists>r \<in> o1. o2 = o1 - {r} \<and> tk2 = tk1(r := False)) \<or> o2 = o1 \<and> tk2 = tk1"

lemma transfer_ownership:
  assumes "ownership n owns tk" "j < n" "transfer (owns j) o2 tk tk2"
  shows "ownership n (owns(j := o2)) tk2"
  using assms(3) ownership_take [OF assms(1,2)] ownership_drop [OF assms(1,2)] assms(1)
  unfolding transfer_def by (elim disjE exE bexE conjE) (simp_all add: fun_upd_idem)

lemmas own_defs = own_def point_def forka_def forkb_def

lemma transfer_refl [simp]: "transfer x x t t"
  by (simp add: transfer_def)

lemma transfer_take: "\<not> tk r \<Longrightarrow> transfer x (insert r x) tk (tk(r := True))"
  by (auto simp: transfer_def)

lemma own_set_has [simp]:
  "own ((set_has_a v t)\<lparr>ppc := q\<rparr>) = own (t\<lparr>ppc := q\<rparr>)" "own ((set_has_b v t)\<lparr>ppc := q\<rparr>) = own (t\<lparr>ppc := q\<rparr>)"
  by (simp_all add: own_def forka_def forkb_def set_has_a_def set_has_b_def)

lemma own_other [simp]:
  "own (t\<lparr>phl_st := s, ppc := q\<rparr>) = own (t\<lparr>ppc := q\<rparr>)" "own (t\<lparr>phl_st := s, meal_ct := m, ppc := q\<rparr>) = own (t\<lparr>ppc := q\<rparr>)"
  "own (t\<lparr>loop_i := i, ppc := q\<rparr>) = own (t\<lparr>ppc := q\<rparr>)"
  by (simp_all add: own_def forka_def forkb_def)

lemma own_points:
  "own (t\<lparr>ppc := Print p\<rparr>) = own (t\<lparr>ppc := At p\<rparr>)"
  "p \<in> {Think, Get_hungry, Pick_a, Left_a, Next_round} \<Longrightarrow> own (t\<lparr>ppc := At p\<rparr>) = {}"
  "p \<in> {Took_a, Pick_b, Left_b, Put_a} \<Longrightarrow> own (t\<lparr>ppc := At p\<rparr>) = {Fork (forka t)}"
  "p \<in> {Took_b, Eat, Full, Put_b} \<Longrightarrow> own (t\<lparr>ppc := At p\<rparr>) = {Fork (forka t), Fork (forkb t)}"
  "own (t\<lparr>ppc := Exit_lock\<rparr>) = {}" "own (t\<lparr>ppc := Done\<rparr>) = {}"
  by (auto simp: own_def point_def forka_def forkb_def)

text \<open>A step at any other point touches no mutex.\<close>

lemma quiet_step:
  assumes "ppc t = At p" "p \<notin> {Pick_a, Pick_b, Put_b, Put_a}" "phl_main_step loops ex t sh = (t', sh')"
  shows "own t' = own t" "sh' = sh"
proof -
  have "own (t\<lparr>ppc := At p\<rparr>) = own t" using assms(1) by (cases t) simp
  moreover have "own t' = own (t\<lparr>ppc := At p\<rparr>) \<and> sh' = sh"
    using assms(2,3) unfolding phl_main_step_def assms(1) ppc.case by (cases p) (auto simp: own_points split: if_splits)
  ultimately show "own t' = own t" "sh' = sh" by simp_all
qed

lemma step_transfer:
  assumes ab: "forka t \<noteq> forkb t" "forka t < length (forks sh)" "forkb t < length (forks sh)"
    and step: "phl_main_step loops ex t sh = (t', sh')"
  shows "transfer (own t) (own t') (taken sh) (taken sh')"
proof (cases "ppc t")
  case (At p)
  show ?thesis
  proof (cases p)
    case Pick_a
    then show ?thesis using At step ab(1)
      by (cases rule: lock_fork_cases [OF ab(2)])
        (auto simp: phl_main_step_def case_prod_beta Let_def transfer_def own_defs set_has_a_def)
  next
    case Pick_b
    then show ?thesis using At step ab(1)
      by (cases rule: lock_fork_cases [OF ab(3)])
        (auto simp: phl_main_step_def case_prod_beta Let_def transfer_def own_defs set_has_b_def)
  next
    case Put_b
    then have "own t' = own t - {Fork (forkb t)}" "Fork (forkb t) \<in> own t" "sh' = unlock_fork (forkb t) sh"
      using At step ab(1) by (auto simp: phl_main_step_def own_defs set_has_b_def)
    then show ?thesis using taken_unlock_fork [OF ab(3)] by (auto simp: transfer_def)
  next
    case Put_a
    then have "own t' = own t - {Fork (forka t)}" "Fork (forka t) \<in> own t" "sh' = unlock_fork (forka t) sh"
      using At step ab(1) by (auto simp: phl_main_step_def own_defs set_has_a_def)
    then show ?thesis using taken_unlock_fork [OF ab(2)] by (auto simp: transfer_def)
  qed (use quiet_step [OF At _ step] in simp_all)
next
  case (Print p)
  then have t': "t' = (if snd (lock_print sh) then t\<lparr>ppc := Printing p\<rparr> else t)" "sh' = fst (lock_print sh)"
    using step by (simp_all add: phl_main_step_def case_prod_beta Let_def)
  have "own (t\<lparr>ppc := Printing p\<rparr>) = insert Printer (own t)" using Print by (simp add: own_defs)
  then show ?thesis using transfer_take by (cases rule: lock_print_cases [of sh]) (simp_all add: t')
next
  case (Printing p)
  then have t': "t' = t\<lparr>ppc := At p\<rparr>" "sh' = phl_print_end t sh" using step by (simp_all add: phl_main_step_def)
  have tk: "taken (phl_print_end t sh) = (taken sh)(Printer := False)" by (simp add: phl_print_end_def mtx_unlock_def atomic_flag_clear_def)
  have "own (t\<lparr>ppc := At p\<rparr>) = own t - {Printer}" "Printer \<in> own t" using Printing by (simp_all add: own_defs Un_Diff)
  then show ?thesis unfolding t' tk by (auto simp: transfer_def)
next
  case Exit_lock
  then have t': "t' = (if snd (lock_print sh) then t\<lparr>ppc := Exiting\<rparr> else t)" "sh' = fst (lock_print sh)"
    using step by (simp_all add: phl_main_step_def case_prod_beta Let_def)
  have "own (t\<lparr>ppc := Exiting\<rparr>) = insert Printer (own t)" using Exit_lock by (simp add: own_defs)
  then show ?thesis using transfer_take by (cases rule: lock_print_cases [of sh]) (simp_all add: t')
next
  case Exiting
  then have "t' = t" "sh' = sh\<lparr>exited := True\<rparr>" using step by (simp_all add: phl_main_step_def)
  then show ?thesis by simp
next
  case Done
  then have "t' = t" "sh' = sh" using step by (simp_all add: phl_main_step_def)
  then show ?thesis by simp
qed
lemma step_seat:
  assumes "phl_main_step loops ex t sh = (t', sh')"
  shows "seat t' = seat t" "length (forks sh') = length (forks sh)"
proof -
  have "seat (fst (phl_main_step loops ex t sh)) = seat t"
    by (simp add: phl_main_step_def seat_def set_has_a_def set_has_b_def case_prod_beta Let_def split: ppc.split ppoint.split)
  then show "seat t' = seat t" using assms by simp
  have "length (forks (snd (phl_main_step loops ex t sh))) = length (forks sh)"
    by (simp add: phl_main_step_def lock_fork_def unlock_fork_def lock_print_def phl_print_end_def case_prod_beta Let_def
        split: ppc.split ppoint.split)
  then show "length (forks sh') = length (forks sh)" using assms by simp
qed

lemma forks_distinct: "forka t \<noteq> forkb t \<longleftrightarrow> fork_right t \<noteq> fork_left t"
  by (auto simp: forka_def forkb_def)

lemma step_private:
  assumes "private_inv loops t"
  shows "private_inv loops (fst (phl_main_step loops ex t sh))"
proof (cases "ppc t")
  case (At p)
  then show ?thesis using assms
    by (cases p) (auto simp: phl_main_step_def private_inv_def point_def case_prod_beta Let_def word_Suc_le)
next
  case (Print p)
  then show ?thesis using assms by (cases "snd (lock_print sh)"; cases p) (simp_all add: phl_main_step_def private_inv_def point_def case_prod_beta Let_def)
next
  case (Printing p)
  then show ?thesis using assms by (cases p) (simp_all add: phl_main_step_def private_inv_def point_def order_less_imp_le)
qed (use assms in \<open>simp_all add: phl_main_step_def private_inv_def point_def case_prod_beta Let_def\<close>)
lemma seat_forks:
  assumes "seat t = seat (phl_setup lefty n j)" "j < n" "2 \<le> n"
  shows "forka t < n" "forkb t < n" "fork_right t \<noteq> fork_left t"
proof -
  have t: "fork_right t = j" "fork_left t = (j + 1) mod n" using assms(1) by (simp_all add: seat_def phl_setup_def)
  show "forka t < n" "forkb t < n" using assms t by (simp_all add: forka_def forkb_def)
  show "fork_right t \<noteq> fork_left t" using assms unfolding t by (cases "j + 1 = n") simp_all
qed

lemma table_inv_init: "table_inv loops lefty n (phl_init lefty n)"
proof -
  have "own (phl_setup lefty n j) = {}" for j by (simp add: phl_setup_def own_defs)
  moreover have "private_inv loops (phl_setup lefty n j)" for j
    by (simp add: private_inv_def own_defs has_a_def has_b_def phl_setup_def)
  moreover have "\<not> taken (snd (phl_init lefty n)) r" for r
    by (cases r) (simp_all add: taken_def phl_init_def mtx_init_def atomic_flag_clear_def)
  ultimately show ?thesis by (simp add: table_inv_def phl_init_def ownership_def cong: conj_cong)
qed

lemma table_inv_step:
  assumes inv: "table_inv loops lefty n st" and n: "2 \<le> n" and step: "phl_step loops ex st st'"
  shows "table_inv loops lefty n st'"
  using step
proof cases
  case (Turn j ts sh t' sh')
  have len: "length ts = n" "length (forks sh) = n" and own: "ownership n (\<lambda>j. own (ts ! j)) (taken sh)"
    and each: "\<And>k. k < n \<Longrightarrow> seat (ts ! k) = seat (phl_setup lefty n k) \<and> private_inv loops (ts ! k)"
    using inv Turn(1) by (auto simp: table_inv_def)
  have j: "j < n" using Turn(3) len by simp
  note forks = seat_forks [OF conjunct1 [OF each [OF j]] j n]
  have "transfer (own (ts ! j)) (own t') (taken sh) (taken sh')"
    by (rule step_transfer [OF _ _ _ Turn(6)]) (use forks len in \<open>simp_all add: forks_distinct\<close>)
  then have "ownership n ((\<lambda>j. own (ts ! j))(j := own t')) (taken sh')" by (rule transfer_ownership [OF own j])
  moreover have "(\<lambda>j. own (ts ! j))(j := own t') = (\<lambda>k. own (ts[j := t'] ! k))" using j len by (auto simp: fun_eq_iff)
  moreover have "seat t' = seat (ts ! j)" "length (forks sh') = length (forks sh)" using step_seat [OF Turn(6)] by simp_all
  moreover have "private_inv loops t'" using step_private [OF conjunct2 [OF each [OF j]]] Turn(6) by (metis fst_conv)
  ultimately show ?thesis using each len j Turn(2) by (simp add: table_inv_def nth_list_update)
qed

lemma table_inv_reachable:
  "(phl_step loops ex)\<^sup>*\<^sup>* (phl_init lefty n) st \<Longrightarrow> 2 \<le> n \<Longrightarrow> table_inv loops lefty n st"
  by (induction rule: rtranclp_induct) (auto intro: table_inv_init table_inv_step)

text \<open>
  Property C15. Under every schedule a mutex, a fork or that of the printer, is locked exactly while some philosopher owns it, and no two philosophers own
  the same; a philosopher who eats owns both of its forks, so that two who eat at the same time share none. While a philosopher prints, it owns
  the printer, and the hands that it shows are exactly the forks that it owns. A philosopher who has returned has eaten as many meals as the loop count asks for.
\<close>

theorem philosophers_exclusion:
  assumes "(phl_step loops ex)\<^sup>*\<^sup>* (phl_init lefty n) (ts, sh)" "2 \<le> n" "j < n" "k < n"
  shows "(\<forall>r. taken sh r \<longleftrightarrow> (\<exists>i<n. r \<in> own (ts ! i))) \<and> (j \<noteq> k \<longrightarrow> own (ts ! j) \<inter> own (ts ! k) = {}) \<and>
    (phl_st (ts ! j) = PHL_EATING \<longrightarrow> {Fork (fork_right (ts ! j)), Fork (fork_left (ts ! j))} \<subseteq> own (ts ! j)) \<and>
    (j \<noteq> k \<and> phl_st (ts ! j) = PHL_EATING \<and> phl_st (ts ! k) = PHL_EATING \<longrightarrow>
      {fork_right (ts ! j), fork_left (ts ! j)} \<inter> {fork_right (ts ! k), fork_left (ts ! k)} = {}) \<and>
    (\<forall>p. ppc (ts ! j) = Printing p \<longrightarrow> Printer \<in> own (ts ! j) \<and>
      shown_right (phl_print_frame (ts ! j)) = (Fork (fork_right (ts ! j)) \<in> own (ts ! j)) \<and>
      shown_left (phl_print_frame (ts ! j)) = (Fork (fork_left (ts ! j)) \<in> own (ts ! j))) \<and>
    (ppc (ts ! j) = Done \<longrightarrow> meal_ct (ts ! j) = loops)"
proof -
  have inv: "ownership n (\<lambda>j. own (ts ! j)) (taken sh)" "\<And>k. k < n \<Longrightarrow> private_inv loops (ts ! k)"
    "seat (ts ! j) = seat (phl_setup lefty n j)"
    using table_inv_reachable [OF assms(1,2)] assms(3) by (auto simp: table_inv_def)
  have eats: "Fork (fork_right (ts ! k)) \<in> own (ts ! k) \<and> Fork (fork_left (ts ! k)) \<in> own (ts ! k)"
    if "k < n" "phl_st (ts ! k) = PHL_EATING" for k
    using inv(2) [OF that(1)] that(2) by (auto simp: private_inv_def own_defs)
  have hands: "Printer \<in> own (ts ! j) \<and> shown_right (phl_print_frame (ts ! j)) = (Fork (fork_right (ts ! j)) \<in> own (ts ! j)) \<and>
      shown_left (phl_print_frame (ts ! j)) = (Fork (fork_left (ts ! j)) \<in> own (ts ! j))" if "ppc (ts ! j) = Printing p" for p
    using hands_print [OF inv(2) [OF assms(3)] seat_forks(3) [OF inv(3) assms(3,2)]] that by (simp add: phl_print_frame_def own_def)
  have apart: "j \<noteq> k \<longrightarrow> own (ts ! j) \<inter> own (ts ! k) = {}" using ownership_unique [OF inv(1) assms(3,4)] by blast
  have "ppc (ts ! j) = Done \<longrightarrow> meal_ct (ts ! j) = loops" using inv(2) [OF assms(3)] by (simp add: private_inv_def point_def)
  moreover have "{fork_right (ts ! j), fork_left (ts ! j)} \<inter> {fork_right (ts ! k), fork_left (ts ! k)} = {}"
    if "j \<noteq> k" "phl_st (ts ! j) = PHL_EATING" "phl_st (ts ! k) = PHL_EATING"
    using eats [OF assms(3) that(2)] eats [OF assms(4) that(3)] ownership_unique [OF inv(1) assms(3,4)] that(1) by fastforce
  ultimately show ?thesis using hands apart eats [OF assms(3)] ownership_taken [OF inv(1)] by blast
qed

section \<open>One left-handed philosopher prevents deadlock\<close>

text \<open>What a philosopher waits for, and the steps left when it never waits.\<close>

definition waits_for :: "philosopher \<Rightarrow> resource option" where
  "waits_for t = (case ppc t of At Pick_a \<Rightarrow> Some (Fork (forka t)) | At Pick_b \<Rightarrow> Some (Fork (forkb t))
     | Print p \<Rightarrow> Some Printer | Exit_lock \<Rightarrow> Some Printer | _ \<Rightarrow> None)"

definition blocked :: "philosopher \<Rightarrow> phl_shared \<Rightarrow> bool" where
  "blocked t sh \<longleftrightarrow> (\<exists>r. waits_for t = Some r \<and> taken sh r)"

definition point_left :: "ppoint \<Rightarrow> nat" where
  "point_left p = (case p of Think \<Rightarrow> 29 | Get_hungry \<Rightarrow> 26 | Pick_a \<Rightarrow> 23 | Took_a \<Rightarrow> 22 | Pick_b \<Rightarrow> 19 | Took_b \<Rightarrow> 18 | Eat \<Rightarrow> 15 | Full \<Rightarrow> 12
     | Put_b \<Rightarrow> 9 | Left_b \<Rightarrow> 8 | Put_a \<Rightarrow> 5 | Left_a \<Rightarrow> 4 | Next_round \<Rightarrow> 1)"

definition ppc_left :: "ppc \<Rightarrow> nat" where
  "ppc_left q = (case q of At p \<Rightarrow> point_left p | Printing p \<Rightarrow> point_left p + 1 | Print p \<Rightarrow> point_left p + 2
     | Exit_lock \<Rightarrow> 2 | Exiting \<Rightarrow> 1 | Done \<Rightarrow> 0)"

definition phl_left :: "u32 \<Rightarrow> philosopher \<Rightarrow> nat" where
  "phl_left loops t = 29 * (unat loops - unat (loop_i t)) + ppc_left (ppc t)"

definition table_left :: "u32 \<Rightarrow> philosopher list \<times> phl_shared \<Rightarrow> nat" where
  "table_left loops st = sum_list (map (phl_left loops) (fst st)) + (if exited (snd st) then 0 else 1)"

lemma step_left:
  assumes "private_inv loops t" "ppc t \<noteq> Done" "ppc t \<noteq> Exiting" "\<not> blocked t sh"
    and forks: "forka t < length (forks sh)" "forkb t < length (forks sh)"
  shows "phl_left loops (fst (phl_main_step loops ex t sh)) < phl_left loops t"
proof (cases "ppc t")
  case (At p)
  show ?thesis
  proof (cases p)
    case Pick_a
    then show ?thesis using At assms(4)
      by (cases rule: lock_fork_cases [OF forks(1)])
        (simp_all add: blocked_def waits_for_def phl_main_step_def case_prod_beta Let_def phl_left_def ppc_left_def point_left_def set_has_a_def)
  next
    case Pick_b
    then show ?thesis using At assms(4)
      by (cases rule: lock_fork_cases [OF forks(2)])
        (simp_all add: blocked_def waits_for_def phl_main_step_def case_prod_beta Let_def phl_left_def ppc_left_def point_left_def set_has_b_def)
  next
    case Next_round
    then have "loop_i t < loops" using At assms(1) by (simp add: private_inv_def point_def)
    then have "unat (loop_i t) < unat loops" "unat (loop_i t + 1) = Suc (unat (loop_i t))"
      using unat_word_Suc by (simp_all add: word_less_nat_alt)
    then show ?thesis using At Next_round by (simp add: phl_main_step_def phl_left_def ppc_left_def point_left_def)
  qed (use At in \<open>simp_all add: phl_main_step_def phl_left_def ppc_left_def point_left_def set_has_a_def set_has_b_def\<close>)
next
  case (Print p)
  then show ?thesis using assms(4)
    by (cases rule: lock_print_cases [of sh])
      (simp_all add: blocked_def waits_for_def phl_main_step_def case_prod_beta Let_def phl_left_def ppc_left_def)
next
  case Exit_lock
  then show ?thesis using assms(4)
    by (cases rule: lock_print_cases [of sh])
      (simp_all add: blocked_def waits_for_def phl_main_step_def case_prod_beta Let_def phl_left_def ppc_left_def)
qed (use assms in \<open>simp_all add: phl_main_step_def phl_left_def ppc_left_def\<close>)

text \<open>With the last philosopher left-handed all forks are picked up in ascending order.\<close>

lemma lefty_ascending:
  assumes "seat t = seat (phl_setup True n j)" "j < n" "2 \<le> n"
  shows "forka t < forkb t"
proof -
  have t: "fork_right t = j" "fork_left t = (j + 1) mod n" "left_handed t = (j = n - 1)"
    using assms(1) by (simp_all add: seat_def phl_setup_def)
  show ?thesis using assms(2,3) unfolding forka_def forkb_def t by (cases "j = n - 1") simp_all
qed

text \<open>Whoever owns something while everybody is blocked stands before its second fork.\<close>

lemma blocked_owner:
  assumes "blocked t sh" "r \<in> own t" "\<not> taken sh Printer"
  shows "ppc t = At Pick_b \<and> r = Fork (forka t) \<and> taken sh (Fork (forkb t))"
  using assms by (auto simp: blocked_def waits_for_def own_def point_def split: ppc.splits ppoint.splits if_splits)

lemma blocked_owner_free:
  assumes "blocked t sh" "own t = {}" "\<not> taken sh Printer"
  shows "taken sh (Fork (forka t))"
  using assms by (auto simp: blocked_def waits_for_def own_def point_def split: ppc.splits ppoint.splits if_splits)

lemma somebody_can_go:
  assumes inv: "table_inv loops True n (ts, sh)" and n: "2 \<le> n" and left: "i < n" "ppc (ts ! i) \<noteq> Done"
  shows "\<exists>j < n. ppc (ts ! j) \<noteq> Done \<and> \<not> blocked (ts ! j) sh"
proof (rule ccontr)
  assume "\<not> ?thesis"
  then have stuck: "\<And>j. j < n \<Longrightarrow> ppc (ts ! j) \<noteq> Done \<Longrightarrow> blocked (ts ! j) sh" by blast
  have own: "ownership n (\<lambda>j. own (ts ! j)) (taken sh)" and seat: "\<And>k. k < n \<Longrightarrow> seat (ts ! k) = seat (phl_setup True n k)"
    using inv by (auto simp: table_inv_def)
  have owner: "\<exists>j < n. r \<in> own (ts ! j) \<and> blocked (ts ! j) sh" if tk: "taken sh r" for r
  proof -
    obtain j where "j < n" "r \<in> own (ts ! j)" using ownership_taken [OF own] tk by blast
    then show ?thesis using stuck [of j] by (force simp: own_def point_def)
  qed
  have printer: "\<not> taken sh Printer"
  proof
    assume "taken sh Printer"
    then obtain j where "j < n" "Printer \<in> own (ts ! j)" "blocked (ts ! j) sh" using owner by blast
    then show False by (auto simp: own_def blocked_def waits_for_def split: ppc.splits ppoint.splits if_splits)
  qed
  have climb: "\<exists>g > f. taken sh (Fork g)" if tk: "taken sh (Fork f)" for f
  proof -
    obtain j where "j < n" "Fork f \<in> own (ts ! j)" "blocked (ts ! j) sh" using owner tk by blast
    then show ?thesis using blocked_owner [OF _ _ printer] lefty_ascending [OF seat _ n] by blast
  qed
  obtain f where f: "taken sh (Fork f)"
  proof (cases "own (ts ! i) = {}")
    case True
    then show thesis using blocked_owner_free [OF stuck [OF left] True printer] that by blast
  next
    case False
    then show thesis using ownership_taken [OF own] blocked_owner [OF stuck [OF left] _ printer] that left(1) by blast
  qed
  have "finite {g. taken sh (Fork g)}" by (rule finite_subset [of _ "{..< length (forks sh)}"]) (auto simp: taken_def)
  then show False using f climb Max_ge [of "{g. taken sh (Fork g)}"] Max_in [of "{g. taken sh (Fork g)}"]
    by (metis empty_iff leD mem_Collect_eq)
qed
definition lefty_inv :: "u32 \<Rightarrow> nat \<Rightarrow> philosopher list \<times> phl_shared \<Rightarrow> bool" where
  "lefty_inv loops n st \<longleftrightarrow> 2 \<le> n \<and> table_inv loops True n st"

lemma lefty_progress:
  assumes inv: "lefty_inv loops n st" and over: "\<not> phl_over st"
  shows "\<exists>st'. phl_step loops ex st st' \<and> table_left loops st' < table_left loops st"
proof -
  obtain ts sh where st: "st = (ts, sh)" by (cases st)
  have n: "2 \<le> n" and tab: "table_inv loops True n (ts, sh)" using inv st by (simp_all add: lefty_inv_def)
  have len: "length ts = n" "length (forks sh) = n" using tab by (simp_all add: table_inv_def)
  have run: "\<not> exited sh" using over st by (simp add: phl_over_def)
  obtain i where "i < n" "ppc (ts ! i) \<noteq> Done" using over st len by (auto simp: phl_over_def in_set_conv_nth)
  then obtain j where j: "j < n" "ppc (ts ! j) \<noteq> Done" "\<not> blocked (ts ! j) sh" using somebody_can_go [OF tab n] by blast
  obtain t' sh' where step: "phl_main_step loops ex (ts ! j) sh = (t', sh')" by force
  have go: "phl_step loops ex st (ts[j := t'], sh')" using phl_step.Turn [OF _ j(2) run step] j(1) len st by simp
  show ?thesis
  proof (cases "ppc (ts ! j) = Exiting")
    case True
    then have "t' = ts ! j" "exited sh'" using step by (auto simp: phl_main_step_def)
    then show ?thesis using go run st by (auto simp: table_left_def intro!: exI [of _ "(ts[j := t'], sh')"])
  next
    case False
    have "seat (ts ! j) = seat (phl_setup True n j)" "private_inv loops (ts ! j)" using tab j(1) by (simp_all add: table_inv_def)
    then have "phl_left loops t' < phl_left loops (ts ! j)"
      using step_left [OF _ j(2) False j(3), of loops ex] seat_forks [OF _ j(1) n] len step by (metis fst_conv)
    then have "sum_list (map (phl_left loops) (ts[j := t'])) < sum_list (map (phl_left loops) ts)"
      using sum_list_upd_less [of j ts "phl_left loops" t'] j(1) len by simp
    then show ?thesis using go run st by (intro exI [of _ "(ts[j := t'], sh')"]) (auto simp: table_left_def)
  qed
qed

interpretation table: terminable "phl_step loops ex" "lefty_inv loops n" phl_over "table_left loops" for loops ex n
proof
  show "lefty_inv loops n st'" if "lefty_inv loops n st" "phl_step loops ex st st'" for st st'
    using that(1) table_inv_step [OF _ _ that(2)] by (simp add: lefty_inv_def)
  show "\<exists>st'. phl_step loops ex st st' \<and> table_left loops st' < table_left loops st"
    if "lefty_inv loops n st" "\<not> phl_over st" for st
    using that by (rule lefty_progress)
qed

text \<open>
  Property C16. With the option \<open>-l\<close> the philosophers never deadlock: from every reachable state, under every schedule before it,
  there is a run to the end of the program, in which all have returned or one has ended the process. (The program starts with all its threads for
  up to \<open>THRD_MAX\<close> philosophers.)
\<close>

theorem philosophers_lefty_live:
  assumes "(phl_step loops ex)\<^sup>*\<^sup>* (phl_init True n) st" "2 \<le> n"
  shows "\<exists>st'. (phl_step loops ex)\<^sup>*\<^sup>* st st' \<and> phl_over st'"
proof -
  have "lefty_inv loops n (phl_init True n)" using assms(2) table_inv_init by (simp add: lefty_inv_def)
  then show ?thesis using table.inv_reachable [OF assms(1)] table.can_end by blast
qed

theorem philosophers_lefty_live_witness:
  "\<exists>st'. (phl_step 100 False)\<^sup>*\<^sup>* (phl_init True 3) st' \<and> phl_over st'"
  using philosophers_lefty_live [of 100 False 3 "phl_init True 3"] by simp

section \<open>Without it they can deadlock\<close>

text \<open>A philosopher that runs on its own.\<close>

definition phl_solo :: "u32 \<Rightarrow> bool \<Rightarrow> philosopher \<times> phl_shared \<Rightarrow> philosopher \<times> phl_shared" where
  "phl_solo loops ex p = (if exited (snd p) then p else phl_main_step loops ex (fst p) (snd p))"

lemma phl_solo_reach:
  assumes "j < length ts"
  shows "(phl_step loops ex)\<^sup>*\<^sup>* (ts, sh) (ts[j := fst ((phl_solo loops ex ^^ m) (ts ! j, sh))], snd ((phl_solo loops ex ^^ m) (ts ! j, sh)))"
proof (induction m)
  case (Suc m)
  obtain t1 sh1 where m: "(phl_solo loops ex ^^ m) (ts ! j, sh) = (t1, sh1)" by force
  obtain t2 sh2 where s: "phl_solo loops ex (t1, sh1) = (t2, sh2)" by force
  have "(phl_step loops ex)\<^sup>*\<^sup>* (ts[j := t1], sh1) (ts[j := t2], sh2)"
  proof (cases "exited sh1 \<or> ppc t1 = Done")
    case True
    then have "t2 = t1" "sh2 = sh1" using s by (auto simp: phl_solo_def phl_main_step_def split: if_splits)
    then show ?thesis by simp
  next
    case False
    then have "phl_step loops ex (ts[j := t1], sh1) ((ts[j := t1])[j := t2], sh2)"
      using assms s by (intro phl_step.Turn) (auto simp: phl_solo_def)
    then show ?thesis by auto
  qed
  then show ?case using Suc m s by simp
qed simp

definition phl_waiting :: "nat \<Rightarrow> nat \<Rightarrow> philosopher" where
  "phl_waiting n j = (phl_setup False n j)\<lparr>have_right := True, phl_st := PHL_HUNGRY, ppc := At Pick_b\<rparr>"

definition half_table :: "nat \<Rightarrow> nat \<Rightarrow> phl_frame list \<Rightarrow> philosopher list \<times> phl_shared" where
  "half_table n k fs =
    (map (\<lambda>j. if j < k then phl_waiting n j else phl_setup False n j) [0..<n],
     \<lparr>forks = map (\<lambda>j. \<lparr>mtx_flag = j < k\<rparr>) [0..<n], print_mtx = \<lparr>mtx_flag = False\<rparr>, frames = fs, exited = False\<rparr>)"

lemma snd_half_table:
  "snd (half_table n k fs) =
    \<lparr>forks = map (\<lambda>j. \<lparr>mtx_flag = j < k\<rparr>) [0..<n], print_mtx = \<lparr>mtx_flag = False\<rparr>, frames = fs, exited = False\<rparr>"
  by (simp add: half_table_def)

lemma solo_to_waiting:
  assumes "k < n" "0 < loops"
  obtains fs' where "(phl_solo loops ex ^^ 10) (phl_setup False n k, snd (half_table n k fs)) =
      (phl_waiting n k, (snd (half_table n k fs))\<lparr>forks := (forks (snd (half_table n k fs)))[k := \<lparr>mtx_flag = True\<rparr>], frames := fs'\<rparr>)"
  using assms by (simp add: half_table_def eval_nat_numeral phl_solo_def phl_step_defs forka_def phl_setup_def phl_waiting_def)

lemma half_table_next:
  assumes "k < n" "0 < loops"
  shows "\<exists>fs'. (phl_step loops ex)\<^sup>*\<^sup>* (half_table n k fs) (half_table n (Suc k) fs')"
proof -
  let ?sh = "snd (half_table n k fs)"
  obtain fs' where run: "(phl_solo loops ex ^^ 10) (phl_setup False n k, ?sh) =
      (phl_waiting n k, ?sh\<lparr>forks := (forks ?sh)[k := \<lparr>mtx_flag = True\<rparr>], frames := fs'\<rparr>)"
    by (rule solo_to_waiting [OF assms])
  have "(forks ?sh)[k := \<lparr>mtx_flag = True\<rparr>] = map (\<lambda>j. \<lparr>mtx_flag = j < Suc k\<rparr>) [0..<n]"
    using assms(1) by (intro nth_equalityI) (auto simp: half_table_def nth_list_update less_Suc_eq)
  moreover have "(fst (half_table n k fs))[k := phl_waiting n k] = fst (half_table n (Suc k) fs')"
    using assms(1) by (intro nth_equalityI) (auto simp: half_table_def nth_list_update less_Suc_eq)
  ultimately show ?thesis
    using phl_solo_reach [of k "fst (half_table n k fs)" loops ex ?sh 10] assms(1) run
    by (auto simp: half_table_def intro!: exI [of _ fs'])
qed

lemma half_table_0: "phl_init False n = half_table n 0 []"
  by (auto simp: phl_init_def half_table_def mtx_init_def atomic_flag_clear_def map_replicate_trivial [symmetric])

lemma half_table_reach: "k \<le> n \<Longrightarrow> 0 < loops \<Longrightarrow> \<exists>fs. (phl_step loops ex)\<^sup>*\<^sup>* (phl_init False n) (half_table n k fs)"
proof (induction k)
  case 0
  show ?case using half_table_0 by auto
next
  case (Suc k)
  then show ?case using half_table_next [of k n loops ex] by (meson Suc_le_lessD less_imp_le rtranclp_trans)
qed

text \<open>
  Property C17. When all philosophers are right-handed, they can deadlock for every number of them that the program can start, from two up to
  \<open>THRD_MAX\<close>: a state is reachable in which the program is not over, every philosopher holds its right fork, and no step of any of them changes anything any more.
\<close>

theorem philosophers_deadlock:
  assumes "2 \<le> n" "n \<le> THRD_MAX" "0 < loops"
  shows "\<exists>st. (phl_step loops ex)\<^sup>*\<^sup>* (phl_init False n) st \<and> \<not> phl_over st \<and> (\<forall>t \<in> set (fst st). have_right t)
    \<and> (\<forall>st'. phl_step loops ex st st' \<longrightarrow> st' = st)"
proof -
  obtain fs where reach: "(phl_step loops ex)\<^sup>*\<^sup>* (phl_init False n) (half_table n n fs)"
    using half_table_reach [of n n loops ex] assms(3) by blast
  let ?st = "half_table n n fs"
  have "st' = ?st" if "phl_step loops ex ?st st'" for st'
    using that
  proof cases
    case (Turn j ts sh t' sh')
    have j: "j < n" "ts ! j = phl_waiting n j" "sh = snd ?st" using Turn(1,3) by (auto simp: half_table_def)
    have f: "forkb (phl_waiting n j) < n" using assms(1) by (simp add: forkb_def phl_waiting_def phl_setup_def)
    have "(forks sh)[forkb (phl_waiting n j) := \<lparr>mtx_flag = True\<rparr>] = forks sh"
      using f j(3) by (intro nth_equalityI) (auto simp: half_table_def nth_list_update)
    then have "t' = ts ! j" "sh' = sh" using Turn(6) j f
      by (auto simp: phl_step_defs phl_waiting_def half_table_def)
    then show ?thesis using Turn(1,2) by simp
  qed
  moreover have "\<not> phl_over ?st" using assms(1) by (simp add: phl_over_def half_table_def phl_waiting_def) (metis gr_zeroI not_numeral_le_zero)
  moreover have "\<forall>t \<in> set (fst ?st). have_right t" by (simp add: half_table_def phl_waiting_def)
  ultimately show ?thesis using reach by blast
qed

theorem philosophers_deadlock_witness:
  "\<exists>st. (phl_step 100 False)\<^sup>*\<^sup>* (phl_init False 3) st \<and> \<not> phl_over st \<and> (\<forall>st'. phl_step 100 False st st' \<longrightarrow> st' = st)"
  using philosophers_deadlock [of 3 100 False] by (auto simp: THRD_MAX_def)

text \<open>One of three philosophers runs alone until it eats.\<close>

definition one_eats :: "philosopher \<times> phl_shared" where
  "one_eats = (phl_solo 100 False ^^ (5 + 10)) (phl_setup False 3 0, snd (phl_init False 3))"

lemma solo_eats:
  assumes "\<not> exited sh" "\<not> mtx_flag (print_mtx sh)" "\<not> mtx_flag (forks sh ! forkb (phl_waiting n k))"
  shows "phl_st (fst ((phl_solo loops ex ^^ 5) (phl_waiting n k, sh))) = PHL_EATING"
    "have_right (fst ((phl_solo loops ex ^^ 5) (phl_waiting n k, sh)))"
  using assms by (simp_all add: eval_nat_numeral phl_solo_def phl_step_defs forkb_def phl_setup_def phl_waiting_def)

lemma one_eats_eval: "phl_st (fst one_eats) = PHL_EATING \<and> have_right (fst one_eats)"
proof -
  obtain fs' where "(phl_solo 100 False ^^ 10) (phl_setup False 3 0, snd (half_table 3 0 [])) =
      (phl_waiting 3 0, (snd (half_table 3 0 []))\<lparr>forks := (forks (snd (half_table 3 0 [])))[0 := \<lparr>mtx_flag = True\<rparr>], frames := fs'\<rparr>)"
    by (rule solo_to_waiting [of 0 3 100]) simp_all
  moreover have "forkb (phl_waiting 3 0) = 1" by (simp add: forkb_def phl_waiting_def phl_setup_def)
  ultimately show ?thesis unfolding one_eats_def half_table_0 funpow_add comp_apply
    by (simp add: solo_eats snd_half_table)
qed

theorem philosophers_exclusion_witness:
  "phl_st (fst one_eats) = PHL_EATING \<and> Fork (fork_right (fst one_eats)) \<in> own (fst one_eats) \<and> taken (snd one_eats) (Fork (fork_left (fst one_eats)))"
proof -
  have ts: "fst (phl_init False 3) ! 0 = phl_setup False 3 0" "length (fst (phl_init False 3)) = 3" by (simp_all add: phl_init_def)
  have "(phl_step 100 False)\<^sup>*\<^sup>* (phl_init False 3) ((fst (phl_init False 3))[0 := fst one_eats], snd one_eats)"
    using phl_solo_reach [of 0 "fst (phl_init False 3)" 100 False "snd (phl_init False 3)" "5 + 10"] ts by (simp add: one_eats_def)
  then show ?thesis using philosophers_exclusion [of 100 False False 3 _ "snd one_eats" 0 1] one_eats_eval ts by fastforce
qed

end
