(* ===== verification/User_Mains.thy ===== *)
theory User_Mains
  imports Plane Serial Philosophers
begin

text \<open>
  The remaining user programs: \<open>process/hello.c\<close> and \<open>hello-raw.c\<close>, and the \<open>main\<close> functions of \<open>datarace.c\<close> and \<open>philosophers.c\<close>
  with the output of the philosophers. The threads of these programs are modelled in \<open>User_Threads\<close> and \<open>Philosophers\<close>.

  A command line is the list of its arguments; behind the last one is NULL, and \<^const>\<open>None\<close> says that it is dereferenced, that a shift is undefined, or that the threads cannot all be created.
\<close>

section \<open>Hello\<close>

definition LF :: char where "LF = CHR 0x0a"
definition CR :: char where "CR = CHR 0x0d"

definition progname_of :: "string list \<Rightarrow> string" where
  "progname_of argv = (if argv \<noteq> [] then argv ! 0 else ''hello'')"

definition hello_main :: "string list \<Rightarrow> 'a uprog_scheme \<Rightarrow> 'a uprog_scheme \<times> int" where
  "hello_main argv st =
    (let st = fprintf_stdout (''Hello, world!'' @ [LF]) [] st;
         st = fprintf_stdout (''This is the %s program speaking!'' @ [LF]) [VStr 0 (progname_of argv)] st
     in (st, 0))"

text \<open>\<open>hello-raw.c\<close> has no system calls; it drives the serial port itself.\<close>

definition com1 :: u16 where "com1 = 0x3f8"

partial_function (option) raw_writech :: "'h bus \<Rightarrow> u16 \<Rightarrow> char \<Rightarrow> 'h \<Rightarrow> 'h option" where
  "raw_writech B port ch h =
    (let (v, h) = bus_in B (port + POFF_LINESTAT) h
     in if v AND LS_THRE = 0 then raw_writech B port ch h else Some (bus_out B (of_int (schar ch)) port h))"

fun raw_writestr :: "'h bus \<Rightarrow> u16 \<Rightarrow> string \<Rightarrow> 'h \<Rightarrow> 'h option" where
  "raw_writestr B port [] h = Some h"
| "raw_writestr B port (ch # s) h = Option.bind (raw_writech B port ch h) (raw_writestr B port s)"

definition hello_raw_start :: "'h bus \<Rightarrow> string list \<Rightarrow> 'h \<Rightarrow> ('h \<times> int) option" where
  "hello_raw_start B argv h =
    Option.bind (raw_writestr B com1 (''Hello, world!'' @ [CR, LF]) h) (\<lambda>h.
    Option.bind (raw_writestr B com1 ''This is the '' h) (\<lambda>h.
    Option.bind (raw_writestr B com1 (progname_of argv) h) (\<lambda>h.
    Option.bind (raw_writestr B com1 ('' program speaking!'' @ [CR, LF]) h) (\<lambda>h. Some (h, 0)))))"

section \<open>The main function of datarace\<close>

record race_opts =
  r_nthreads :: u32
  r_count :: u32
  r_helpmode :: bool

definition race_defaults :: race_opts where
  "race_defaults = \<lparr>r_nthreads = 2, r_count = 1000 * 1000, r_helpmode = False\<rparr>"

definition shift_count :: "int \<Rightarrow> u32 option" where
  "shift_count p = (if 0 \<le> p \<and> p < 31 then Some (push_bit (nat p) 1) else None)"

fun race_args :: "string list \<Rightarrow> race_opts \<Rightarrow> race_opts option" where
  "race_args [] opts = Some opts"
| "race_args (a # argv) opts =
    (if arg_char a 0 = CHR ''-''
     then if arg_char a 1 = CHR ''n'' \<or> arg_char a 1 = CHR ''c'' \<or> arg_char a 1 = CHR ''p''
       then case argv of
              [] \<Rightarrow> None
            | v # argv \<Rightarrow>
                if arg_char a 1 = CHR ''n'' then race_args argv (opts\<lparr>r_nthreads := of_int (atoi v)\<rparr>)
                else if arg_char a 1 = CHR ''c'' then race_args argv (opts\<lparr>r_count := of_int (atoi v)\<rparr>)
                else Option.bind (shift_count (atoi v)) (\<lambda>c. race_args argv (opts\<lparr>r_count := c\<rparr>))
       else race_args argv (opts\<lparr>r_helpmode := True\<rparr>)
     else race_args argv (opts\<lparr>r_helpmode := True\<rparr>))"

definition race_show_help :: "string \<Rightarrow> string" where
  "race_show_help progname =
    fmt_text (''%s - data race demonstration'' @ [LF] @ ''   -n N    set number of threads (default 2)'' @ [LF] @
       ''   -c C    set count (default 1 million)'' @ [LF] @ ''   -p P    set count to 2^P'' @ [LF] @
       ''   -h      display help'' @ [LF, LF] @ ''example'' @ [LF] @ ''   %s -n 4'' @ [LF])
      [VStr 0 progname, VStr 0 progname]"

definition race_line :: "string \<Rightarrow> u32 \<Rightarrow> string" where
  "race_line label v = fmt_text (label @ ''%10lu'' @ [LF]) [VWord v]"

text \<open>The report when all threads are joined; \<open>s\<close> are the shared variables then.\<close>

definition race_report :: "race_opts \<Rightarrow> dshared \<Rightarrow> string" where
  "race_report opts s =
    race_line ''Expected result:    '' (r_nthreads opts * r_count opts * step_ct) @
    race_line ''shared_split:       '' (shared_split s) @
    race_line ''shared_oneline:     '' (shared_oneline s) @
    race_line ''shared_atomic:      '' (shared_atomic s) @
    race_line ''shared_split_mtx:   '' (shared_split_mtx s) @
    race_line ''shared_oneline_mtx: '' (shared_oneline_mtx s)"

text \<open>
  What \<open>main\<close> prints; \<open>s\<close> are the shared variables when all threads are joined. The array of thread handles has at least one element. When one of more than \<open>THRD_MAX\<close> threads
  cannot be created, \<open>main\<close> goes on and joins a handle that was never set, which is undefined.
\<close>

definition race_main :: "string list \<Rightarrow> dshared \<Rightarrow> string option" where
  "race_main argv s = Option.bind (race_args (tl argv) race_defaults) (\<lambda>opts.
    if r_helpmode opts then Some (race_show_help (argv ! 0))
    else if r_nthreads opts = 0 \<or> THRD_MAX < unat (r_nthreads opts) then None
    else Some (fmt_text (''Spawning %zu threads to each add '' @ ''%10lu'' @ '' to result.'' @ [LF]) [VWord (r_nthreads opts), VWord (r_count opts)] @
         race_report opts s))"

section \<open>The main function of philosophers\<close>

record phl_opts =
  p_nthreads :: u32
  p_loops :: u32
  p_slowdown :: u32
  p_exit :: bool
  p_lefty :: bool
  p_helpmode :: bool

definition phl_defaults :: phl_opts where
  "phl_defaults = \<lparr>p_nthreads = 3, p_loops = 100, p_slowdown = 24, p_exit = False, p_lefty = False, p_helpmode = False\<rparr>"

fun phl_args :: "string list \<Rightarrow> phl_opts \<Rightarrow> phl_opts option" where
  "phl_args [] opts = Some opts"
| "phl_args (a # argv) opts =
    (if arg_char a 0 = CHR ''-''
     then if arg_char a 1 = CHR ''n'' \<or> arg_char a 1 = CHR ''c'' \<or> arg_char a 1 = CHR ''s''
       then case argv of
              [] \<Rightarrow> None
            | v # argv \<Rightarrow>
                if arg_char a 1 = CHR ''n'' then phl_args argv (opts\<lparr>p_nthreads := of_int (atoi v)\<rparr>)
                else if arg_char a 1 = CHR ''c'' then phl_args argv (opts\<lparr>p_loops := of_int (atoi v)\<rparr>)
                else phl_args argv (opts\<lparr>p_slowdown := of_int (atoi v)\<rparr>)
       else if arg_char a 1 = CHR ''l'' then phl_args argv (opts\<lparr>p_lefty := True\<rparr>)
       else if arg_char a 1 = CHR ''e'' then phl_args argv (opts\<lparr>p_exit := True\<rparr>)
       else phl_args argv (opts\<lparr>p_helpmode := True\<rparr>)
     else phl_args argv (opts\<lparr>p_helpmode := True\<rparr>))"

definition phl_show_help :: "phl_opts \<Rightarrow> string \<Rightarrow> string" where
  "phl_show_help opts progname =
    fmt_text (''%s - the dining philosophers'' @ [LF] @ ''    -n N    set number of philosophers (default %zu)'' @ [LF] @
       ''    -c C    set loop count (default %zu)'' @ [LF] @ ''    -s S    set slowdown (busy wait 2^S loops, default %zu)'' @ [LF] @
       ''    -l      make one philosopher left-handed'' @ [LF] @ ''    -e      exit when the first philosopher finishes'' @ [LF] @
       ''    -h      display help'' @ [LF, LF] @ ''example'' @ [LF] @ ''   %s -n 5'' @ [LF])
      [VStr 0 progname, VWord (p_nthreads opts), VWord (p_loops opts), VWord (p_slowdown opts), VStr 0 progname]"

text \<open>
  The start of the program: the help text, or the threads with their loop count. The last philosopher is made left-handed by an assignment to
  \<open>philosophers[nthreads - 1]\<close>. The arrays have at least one element, and for more than \<open>THRD_MAX\<close> philosophers \<open>main\<close> joins a handle that was never set; both are undefined.
\<close>

definition phl_main_start :: "string list \<Rightarrow> (string, u32 \<times> bool \<times> philosopher list \<times> phl_shared) sum option" where
  "phl_main_start argv = Option.bind (phl_args (tl argv) phl_defaults) (\<lambda>opts.
    if p_helpmode opts then Some (Inl (phl_show_help opts (argv ! 0)))
    else if p_nthreads opts = 0 \<or> THRD_MAX < unat (p_nthreads opts) then None
    else Some (Inr (p_loops opts, p_exit opts, phl_init (p_lefty opts) (unat (p_nthreads opts)))))"

section \<open>The output of a philosopher\<close>

definition fprintf_cursor_up :: "int \<Rightarrow> 'a uprog_scheme \<Rightarrow> 'a uprog_scheme" where
  "fprintf_cursor_up lines = fprintf_stdout (ESC # ''[%dA'') [VWord (of_int lines)]"

definition fprintf_cursor_down :: "int \<Rightarrow> 'a uprog_scheme \<Rightarrow> 'a uprog_scheme" where
  "fprintf_cursor_down lines = fprintf_stdout (ESC # ''[%dB'') [VWord (of_int lines)]"

definition fprintf_cursor_horiz :: "int \<Rightarrow> 'a uprog_scheme \<Rightarrow> 'a uprog_scheme" where
  "fprintf_cursor_horiz c = fprintf_stdout (ESC # ''[%dG'') [VWord (of_int (c + 1))]"

fun PHL_ART :: "phl_state \<Rightarrow> string" where
  "PHL_ART PHL_THINKING = ''(-.-)''"
| "PHL_ART PHL_HUNGRY = ''('' @ [CHR 0x27] @ ''/'' @ [CHR 0x27] @ '')''"
| "PHL_ART PHL_EATING = ''(^O^)''"
| "PHL_ART PHL_FULL = ''(^.^)''"

fun PHL_TXT :: "phl_state \<Rightarrow> string" where
  "PHL_TXT PHL_THINKING = ''think''"
| "PHL_TXT PHL_HUNGRY = ''hngry''"
| "PHL_TXT PHL_EATING = '' eat ''"
| "PHL_TXT PHL_FULL = ''full''"

definition phl_print_out :: "phl_frame \<Rightarrow> 'a uprog_scheme \<Rightarrow> 'a uprog_scheme" where
  "phl_print_out fr st =
    (let st = fprintf_cursor_up 4 st;
         st = fprintf_cursor_horiz (int (hpos fr)) st;
         st = fprintf_stdout ''  %*u  '' [VWord (of_nat PHL_ART_W), VWord (shown_meals fr)] st;
         st = fprintf_cursor_down 1 st;
         st = fprintf_cursor_horiz (int (hpos fr)) st;
         st = fprintf_stdout ''%c %s %c''
                [VWord (of_int (schar (if shown_right fr then CHR ''>'' else CHR ''_''))), VStr 0 (PHL_ART (shown_st fr)),
                 VWord (of_int (schar (if shown_left fr then CHR ''<'' else CHR ''_'')))] st;
         st = fprintf_cursor_down 1 st;
         st = fprintf_cursor_horiz (int (hpos fr)) st;
         st = fprintf_stdout ''  %*.*s  '' [VWord (of_nat PHL_ART_W), VWord (of_nat PHL_ART_W), VStr 0 (PHL_TXT (shown_st fr))] st;
         st = fprintf_cursor_down 2 st
     in fprintf_cursor_horiz 0 st)"

section \<open>What hello says\<close>

context uart
begin

lemma raw_writech_uart:
  "online p h \<Longrightarrow> \<exists>h'. raw_writech B p c h = Some h' \<and> tx p h' = tx p h @ [c] \<and> rx p h' = rx p h \<and> online p h'"
proof (induction "busy p h" arbitrary: h rule: less_induct)
  case less
  obtain v h1 where 1: "bus_in B (p + POFF_LINESTAT) h = (v, h1)" by force
  note l = linestat [OF less.prems 1]
  show ?case
  proof (cases "busy p h = 0")
    case True
    then show ?thesis using l data_out [of p h1, OF _ _ refl, of c] 1 by (subst raw_writech.simps) auto
  next
    case False
    then have "busy p h1 < busy p h" "online p h1" using l by simp_all
    then show ?thesis using less.hyps [of h1] l False 1 by (subst raw_writech.simps) auto
  qed
qed

lemma raw_writestr_uart:
  "online p h \<Longrightarrow> \<exists>h'. raw_writestr B p s h = Some h' \<and> tx p h' = tx p h @ s \<and> rx p h' = rx p h \<and> online p h'"
proof (induction s arbitrary: h)
  case (Cons c s)
  obtain h1 where h1: "raw_writech B p c h = Some h1" "tx p h1 = tx p h @ [c]" "rx p h1 = rx p h" "online p h1"
    using raw_writech_uart [OF Cons.prems] by blast
  then show ?case using Cons.IH [OF h1(4)] by simp
qed simp

lemma hello_raw_uart:
  assumes "online com1 h"
  shows "\<exists>h'. hello_raw_start B argv h = Some (h', 0) \<and> rx com1 h' = rx com1 h \<and>
    tx com1 h' = tx com1 h @ ''Hello, world!'' @ [CR, LF] @ ''This is the '' @ progname_of argv @ '' program speaking!'' @ [CR, LF]"
proof -
  note w = raw_writestr_uart [of com1]
  obtain h1 where 1: "raw_writestr B com1 (''Hello, world!'' @ [CR, LF]) h = Some h1" "tx com1 h1 = tx com1 h @ ''Hello, world!'' @ [CR, LF]"
    "rx com1 h1 = rx com1 h" "online com1 h1" using w [OF assms] by blast
  obtain h2 where 2: "raw_writestr B com1 ''This is the '' h1 = Some h2" "tx com1 h2 = tx com1 h1 @ ''This is the ''"
    "rx com1 h2 = rx com1 h1" "online com1 h2" using w [OF 1(4)] by blast
  obtain h3 where 3: "raw_writestr B com1 (progname_of argv) h2 = Some h3" "tx com1 h3 = tx com1 h2 @ progname_of argv"
    "rx com1 h3 = rx com1 h2" "online com1 h3" using w [OF 2(4)] by blast
  obtain h4 where 4: "raw_writestr B com1 ('' program speaking!'' @ [CR, LF]) h3 = Some h4"
    "tx com1 h4 = tx com1 h3 @ '' program speaking!'' @ [CR, LF]" "rx com1 h4 = rx com1 h3" using w [OF 3(4)] by blast
  show ?thesis using 1 2 3 4 by (simp add: hello_raw_start_def del: append_Cons raw_writestr.simps)
qed

end

lemma hello_text:
  "fmt_text (''Hello, world!'' @ [LF]) [] = ''Hello, world!'' @ [LF]"
  "fmt_text (''This is the %s program speaking!'' @ [LF]) [VStr 0 s] = ''This is the '' @ s @ '' program speaking!'' @ [LF]"
  by (simp_all add: fmt_text_def printf_lit printf_s LF_def)

text \<open>
  Property C32. The two versions of hello say the same. On a working serial port \<open>hello-raw.c\<close> ends and transmits just what the serial driver transmits when it is given the
  text that \<open>hello.c\<close> prints, on a port with the translation of newlines that the kernel turns on, for every program name of 7-bit characters without a newline; neither touches
  the input. (At a character above 127 the driver stops its write, while \<open>hello-raw.c\<close> sends it.)
\<close>

theorem hello_variants_same:
  assumes "uart B online rx tx busy" "online com1 (hw st)" "s_port (serials st ! k) = com1" "s_flags (serials st ! k) AND SRL_OCRNL \<noteq> 0"
    and "f_op f = Some SerialDrv" "f_driver_data f = Some k"
    and "LF \<notin> set (progname_of argv)" "\<forall>ch\<in>set (progname_of argv). 0 \<le> schar ch" "uout u = ''''"
  defines "said \<equiv> uout (fst (hello_main argv u))"
  shows "\<exists>h1 h2. hello_raw_start B argv (hw st) = Some (h1, 0) \<and>
    file_write (with_serial B D) f said st = Some (f, st\<lparr>hw := h2\<rparr>, int (length said)) \<and>
    tx com1 h1 = tx com1 h2 \<and> rx com1 h1 = rx com1 (hw st) \<and> rx com1 h2 = rx com1 (hw st)"
proof -
  let ?port = "serials st ! k"
  have plain: "concat (map (ofilter ?port) s) = s" if "LF \<notin> set s" for s
    using that by (induction s) (auto simp: ofilter_def LF_def)
  have text_eq: "said = ''Hello, world!'' @ [LF] @ ''This is the '' @ progname_of argv @ '' program speaking!'' @ [LF]"
    using assms(9) unfolding said_def hello_main_def Let_def fst_conv fprintf_stdout_def hello_text by (simp del: append_Cons)
  then have "concat (map (ofilter ?port) said) =
      concat (map (ofilter ?port) ''Hello, world!'') @ ofilter ?port LF @ concat (map (ofilter ?port) ''This is the '') @
      concat (map (ofilter ?port) (progname_of argv)) @ concat (map (ofilter ?port) '' program speaking!'') @ ofilter ?port LF"
    by (simp del: append_Cons)
  also have "\<dots> = ''Hello, world!'' @ [CR, LF] @ ''This is the '' @ progname_of argv @ '' program speaking!'' @ [CR, LF]"
    using assms(4,7) by (simp add: plain LF_def [symmetric] del: append_Cons list.map concat.simps) (simp add: ofilter_def LF_def CR_def)
  finally have out: "concat (map (ofilter ?port) said) = \<dots>" .
  have "0 \<le> schar ch" if "ch \<in> set said" for ch using that assms(8) by (auto simp: text_eq LF_def schar_def)
  then obtain h2 where w: "serial_write_loop B k said st = Some (None, st\<lparr>hw := h2\<rparr>)" "tx com1 h2 = tx com1 (hw st) @ concat (map (ofilter ?port) said)"
      "rx com1 h2 = rx com1 (hw st)"
    using uart.write_loop_uart [OF assms(1,2) assms(3) [symmetric] refl, of said] by blast
  obtain h1 where r: "hello_raw_start B argv (hw st) = Some (h1, 0)" "tx com1 h1 = tx com1 h2" "rx com1 h1 = rx com1 (hw st)"
    using uart.hello_raw_uart [OF assms(1,2), of argv] unfolding w(2) out by blast
  have "said \<noteq> []" by (simp add: text_eq)
  then have "file_write (with_serial B D) f said st = Some (f, st\<lparr>hw := h2\<rparr>, int (length said))" using w(1) assms(5,6) by (simp add: file_write_serial)
  then show ?thesis using r w(3) by blast
qed

theorem hello_variants_same_witness:
  "\<exists>h1 h2. hello_raw_start uart_bus [''/bin/hello''] (hw (serial_st '''')) = Some (h1, 0) \<and> u_tx h1 = u_tx h2 \<and>
    file_write (with_serial uart_bus no_drivers) (file0\<lparr>f_op := Some SerialDrv, f_driver_data := Some 0\<rparr>)
      (uout (fst (hello_main [''/bin/hello''] \<lparr>umem = \<lambda>_. NUL, uout = ''''\<rparr>))) (serial_st '''') =
    Some (file0\<lparr>f_op := Some SerialDrv, f_driver_data := Some 0\<rparr>, (serial_st '''')\<lparr>hw := h2\<rparr>,
      int (length (uout (fst (hello_main [''/bin/hello''] \<lparr>umem = \<lambda>_. NUL, uout = ''''\<rparr>)))))"
proof -
  let ?f = "file0\<lparr>f_op := Some SerialDrv, f_driver_data := Some 0\<rparr>" and ?u = "\<lparr>umem = \<lambda>_. NUL, uout = ''''\<rparr>"
  have "com1 = 0x3f8 \<and> \<not> u_loop (hw (serial_st ''''))" "s_port (serials (serial_st '''') ! 0) = com1" "s_flags (serials (serial_st '''') ! 0) AND SRL_OCRNL \<noteq> 0"
    "LF \<notin> set (progname_of [''/bin/hello''])" "\<forall>ch\<in>set (progname_of [''/bin/hello'']). 0 \<le> schar ch"
    by (simp_all add: serial_st_def com1_def SRL_ICRNL_def SRL_OCRNL_def progname_of_def LF_def schar_def)
  from hello_variants_same [OF u8250.uart_axioms this(1-3) _ _ this(4,5), of ?f ?u no_drivers] show ?thesis by auto
qed

section \<open>What datarace reports\<close>

text \<open>When all threads have returned, the report shows the expected number for the counters with an atomic update or a mutex.\<close>

theorem race_report_expected:
  assumes "race_args (tl argv) race_defaults = Some opts" "\<not> r_helpmode opts" "0 < r_nthreads opts \<and> unat (r_nthreads opts) \<le> THRD_MAX"
    and "(race_step (r_count opts))\<^sup>*\<^sup>* (race_init (unat (r_nthreads opts))) (ts, s)" "all_finished ts"
  defines "v \<equiv> r_nthreads opts * r_count opts * step_ct"
  shows "\<exists>start. race_main argv s = Some (start @
    race_line ''Expected result:    '' v @ race_line ''shared_split:       '' (shared_split s) @
    race_line ''shared_oneline:     '' (shared_oneline s) @ race_line ''shared_atomic:      '' v @
    race_line ''shared_split_mtx:   '' v @ race_line ''shared_oneline_mtx: '' v)"
proof -
  have inv: "race_inv (r_count opts) (ts, s)" "length ts = unat (r_nthreads opts)"
    using race.inv_reachable [OF assms(4) race_inv_init] race_step_length [OF assms(4)] by (simp_all add: race_init_def)
  have "shared_atomic s = v" "shared_split_mtx s = v" "shared_oneline_mtx s = v"
    using race_counters [OF inv(1) assms(5)] inv(2) by (simp_all add: v_def)
  then show ?thesis using assms(1-3) by (auto simp: race_main_def race_report_def v_def)
qed

section \<open>What a philosopher looks like\<close>

lemma cursor_step:
  assumes "ground st" "0 \<le> i" "i < 2 ^ 31"
  shows "picture (fprintf_cursor_up i st) = (picture st)\<lparr>t_row := max 0 (t_row (picture st) - i)\<rparr>"
    and "picture (fprintf_cursor_down i st) = (picture st)\<lparr>t_row := t_row (picture st) + i\<rparr>"
    and "i < 2 ^ 31 - 1 \<Longrightarrow> picture (fprintf_cursor_horiz i st) = (picture st)\<lparr>t_col := i\<rparr>"
proof -
  have t: "fmt_text (ESC # CHR ''['' # CHR ''%'' # CHR ''d'' # [ch]) [VWord (of_int k)] = ESC # CHR ''['' # dec_text k @ [ch]"
    if "ch \<noteq> CHR ''%''" "0 \<le> k" "k < 2 ^ 31" for ch k
    using that printf_d [of k] by (simp add: fmt_text_def printf_lit ESC_def)
  have p: "picture (fprintf_stdout (ESC # CHR ''['' # CHR ''%'' # CHR ''d'' # [ch]) [VWord (of_int k)] st) =
      t_control ch [nat k] (picture st)"
    if "ch \<noteq> CHR ''%''" "ch \<noteq> CHR '';''" "\<not> isdigit (schar ch)" "0 \<le> k" "k < 2 ^ 31" for ch k
  proof -
    have m: "t\<lparr>t_mode := Ground\<rparr> = t" if "t_mode t = Ground" for t :: terminal using that by simp
    have g: "t_mode (picture st) = Ground" using assms(1) by (simp add: ground_def)
    then have "picture (fprintf_stdout (ESC # CHR ''['' # CHR ''%'' # CHR ''d'' # [ch]) [VWord (of_int k)] st) =
        t_control ch [nat k] ((picture st)\<lparr>t_mode := Ground\<rparr>)"
      using that t [OF that(1,4,5)] control_text [of "picture st"] by (simp add: picture_printf dec_text_step term_step_def)
    then show ?thesis unfolding m [OF g] .
  qed
  show "picture (fprintf_cursor_up i st) = (picture st)\<lparr>t_row := max 0 (t_row (picture st) - i)\<rparr>"
    using p [of "CHR ''A''" i] assms by (simp add: fprintf_cursor_up_def t_control_def isdigit_def schar_def)
  show "picture (fprintf_cursor_down i st) = (picture st)\<lparr>t_row := t_row (picture st) + i\<rparr>"
    using p [of "CHR ''B''" i] assms by (simp add: fprintf_cursor_down_def t_control_def isdigit_def schar_def)
  show "picture (fprintf_cursor_horiz i st) = (picture st)\<lparr>t_col := i\<rparr>" if "i < 2 ^ 31 - 1"
    using p [of "CHR ''G''" "i + 1"] assms that
    by (simp add: fprintf_cursor_horiz_def t_control_def isdigit_def schar_def nat_add_distrib del: of_int_add)
qed

text \<open>Plain text that fits into the row.\<close>

definition t_text :: "string \<Rightarrow> terminal \<Rightarrow> terminal" where
  "t_text s t = t\<lparr>t_cells := (\<lambda>x y. if x = t_row t \<and> t_col t \<le> y \<and> y < t_col t + int (length s)
      then (s ! nat (y - t_col t), int (t_fg t)) else t_cells t x y), t_col := t_col t + int (length s)\<rparr>"

lemma text_step:
  "t_mode t = Ground \<Longrightarrow> \<forall>ch\<in>set s. isprint (schar ch) \<Longrightarrow> t_col t + int (length s) < screen_cols \<Longrightarrow>
   fold term_step s t = t_text s t"
proof (induction s arbitrary: t)
  case Nil
  then show ?case by (cases t) (auto simp: t_text_def fun_eq_iff)
next
  case (Cons ch s)
  have "ch \<noteq> ESC" using Cons.prems(2) by (auto simp: ESC_def isprint_def schar_def)
  then have "term_step ch t = t_put ch t" using Cons.prems(1,2) by (simp add: term_step_def)
  also have "\<dots> = t\<lparr>t_cells := (t_cells t)(t_row t := (t_cells t (t_row t))(t_col t := (ch, int (t_fg t)))), t_col := t_col t + 1\<rparr>"
    using Cons.prems(3) by (simp add: t_put_def)
  finally have 1: "term_step ch t = \<dots>" .
  have n: "nat (y - t_col t) = Suc (nat (y - (t_col t + 1)))" if "t_col t < y" for y using that by linarith
  show ?case using Cons.IH [of "term_step ch t"] Cons.prems 1 by (auto simp: t_text_def fun_eq_iff n)
qed

lemma picture_text:
  assumes "ground st" "fmt_text fm va = s" "\<forall>ch\<in>set s. isprint (schar ch)" "t_col (picture st) + int (length s) < screen_cols"
  shows "picture (fprintf_stdout fm va st) = t_text s (picture st)"
  using assms text_step [of "picture st" s] by (simp add: picture_printf ground_def)

lemma printf_wu:
  assumes "unat m < 10 ^ 5"
  shows "\<exists>s. fmt_text ''  %*u  '' [VWord (of_nat PHL_ART_W), VWord m] = ''  '' @ s @ ''  '' \<and> length s = 5 \<and> (\<forall>ch\<in>set s. isprint (schar ch))"
proof -
  let ?d = "map digit_char (min1_digits 10 (unat m))" and ?b = "unat m < 2 ^ 64"
  have b: ?b using assms by simp
  note md = min1_digits_props [of 10 "unat m", OF _ b, simplified]
  have l: "length ?d \<le> 5" using digits_of_length [of 10 "unat m" 5] assms by (auto simp: min1_digits_def)
  have pr: "\<forall>ch\<in>set ?d. isprint (schar ch)" using md(1) by (auto simp: schar_digit_char isprint_def)
  have d: "replicate (1 - length (rev (itoa_digits 10 (unat m)))) (CHR ''0'') @ rev (itoa_digits 10 (unat m)) = ?d"
    by (simp add: min1_digits_def itoa_digits_map rev_map digit_char_0)
  have p: "(if fs_p (fmtspec_init\<lparr>fs_w := 5\<rparr>) = WP_NONE then 1 else nat (fs_p (fmtspec_init\<lparr>fs_w := 5\<rparr>))) = 1"
    by (simp add: fmtspec_init_def WP_NONE_def)
  have nt: "number_text (fmtspec_init\<lparr>fs_w := 5\<rparr>) '''' (unat m) 10 False False = conv.Done (replicate (5 - length ?d) (CHR '' '') @ ?d)"
    unfolding number_text_def Let_def p d using l by (simp add: fmtspec_init_def WP_NONE_def DIGITBUFSZ_def pad_text_def)
  have "printf_text ''%*u  '' [VWord (of_nat PHL_ART_W), VWord m] = prepend (replicate (5 - length ?d) (CHR '' '') @ ?d) (printf_text ''  '' [])"
    by (rule printf_conv) (use nt in \<open>simp add: spec_text_eval PHL_ART_W_def star_wp_def set_wp_def unsigned_text_def va_arg_unsigned_def\<close>)
  then have "fmt_text ''  %*u  '' [VWord (of_nat PHL_ART_W), VWord m] = ''  '' @ (replicate (5 - length ?d) (CHR '' '') @ ?d) @ ''  ''"
    by (simp add: fmt_text_def printf_lit)
  moreover have "length (replicate (5 - length ?d) (CHR '' '') @ ?d) = 5" using l by simp
  moreover have "\<forall>ch\<in>set (replicate (5 - length ?d) (CHR '' '') @ ?d). isprint (schar ch)" using pr by (auto simp: isprint_def schar_def)
  ultimately show ?thesis by blast
qed

definition hands_text :: "phl_frame \<Rightarrow> string" where
  "hands_text fr = (if shown_right fr then CHR ''>'' else CHR ''_'') # CHR '' '' # PHL_ART (shown_st fr) @
    [CHR '' '', if shown_left fr then CHR ''<'' else CHR ''_'']"

lemma hands_printed:
  "fmt_text ''%c %s %c'' [VWord (of_int (schar (if shown_right fr then CHR ''>'' else CHR ''_''))), VStr 0 (PHL_ART (shown_st fr)),
     VWord (of_int (schar (if shown_left fr then CHR ''<'' else CHR ''_'')))] = hands_text fr"
proof -
  have c: "to_char (uint (of_int (schar ch) :: u32)) = ch" if "0 \<le> schar ch" for ch
    using that schar_range [of ch] by (simp add: uint_word_of_int)
  have "printf_text ''%c %s %c'' [VWord (of_int (schar a)), VStr 0 s, VWord (of_int (schar b))] =
      prepend [a] (prepend '' '' (prepend s (prepend '' '' (prepend [b] (printf_text '''' [])))))"
    if "0 < schar a" "0 < schar b" for a b s
  proof -
    have "a \<noteq> NUL" "b \<noteq> NUL" using that by auto
    then show ?thesis using printf_ch [OF c, of a] printf_ch [OF c, of b] that by (simp add: printf_lit printf_s del: printf_nil)
  qed
  then show ?thesis by (simp add: fmt_text_def hands_text_def schar_def)
qed

lemma hands_text_props: "length (hands_text fr) = 9" "\<forall>ch\<in>set (hands_text fr). isprint (schar ch)"
  by (cases "shown_st fr"; simp add: hands_text_def isprint_def schar_def)+

lemma txt_printed:
  "\<exists>s. fmt_text ''  %*.*s  '' [VWord (of_nat PHL_ART_W), VWord (of_nat PHL_ART_W), VStr 0 (PHL_TXT p)] = s \<and> length s = 9 \<and>
    (\<forall>ch\<in>set s. isprint (schar ch))"
proof -
  have l: "length (PHL_TXT p) \<le> 5" "\<forall>ch\<in>set (PHL_TXT p). isprint (schar ch)" by (cases p; simp add: isprint_def schar_def)+
  have "printf_text ''%*.*s  '' [VWord (of_nat PHL_ART_W), VWord (of_nat PHL_ART_W), VStr 0 (PHL_TXT p)] =
      prepend (replicate (5 - length (PHL_TXT p)) (CHR '' '') @ PHL_TXT p) (printf_text ''  '' [])"
    by (rule printf_conv) (use l in \<open>simp add: spec_text_eval PHL_ART_W_def star_wp_def set_wp_def\<close>)
  then have "fmt_text ''  %*.*s  '' [VWord (of_nat PHL_ART_W), VWord (of_nat PHL_ART_W), VStr 0 (PHL_TXT p)] =
      ''  '' @ replicate (5 - length (PHL_TXT p)) (CHR '' '') @ PHL_TXT p @ ''  ''"
    by (simp add: fmt_text_def printf_lit)
  then show ?thesis using l by (auto simp: isprint_def schar_def)
qed

lemma print_row:
  assumes "ground st" "0 \<le> h" "fmt_text fm va = s" "length s = 9" "\<forall>ch\<in>set s. isprint (schar ch)" "h + 9 < screen_cols"
  shows "picture (fprintf_stdout fm va (fprintf_cursor_horiz h st)) = t_text s ((picture st)\<lparr>t_col := h\<rparr>)"
proof -
  have p: "picture (fprintf_cursor_horiz h st) = (picture st)\<lparr>t_col := h\<rparr>"
    by (rule cursor_step(3) [OF assms(1,2)]) (use assms(6) in \<open>simp_all add: screen_cols_def\<close>)
  then have "ground (fprintf_cursor_horiz h st)" using assms(1) by (simp add: ground_def)
  from picture_text [OF this assms(3,5)] show ?thesis using p assms(4,6) by simp
qed

lemma phl_print_picture:
  assumes "ground st" "hpos fr < 70" "unat (shown_meals fr) < 10 ^ 5" "4 \<le> t_row (picture st)"
  shows "\<exists>s1 s3. length s1 = 9 \<and> length s3 = 9 \<and> picture (phl_print_out fr st) =
    (t_text s3 ((t_text (hands_text fr) ((t_text s1 ((picture st)\<lparr>t_row := t_row (picture st) - 4, t_col := int (hpos fr)\<rparr>))
      \<lparr>t_row := t_row (picture st) - 3, t_col := int (hpos fr)\<rparr>))\<lparr>t_row := t_row (picture st) - 2, t_col := int (hpos fr)\<rparr>))
      \<lparr>t_row := t_row (picture st), t_col := 0\<rparr>"
proof -
  let ?h = "int (hpos fr)" and ?t = "picture st"
  have h: "0 \<le> ?h" "?h + 9 < screen_cols" using assms(2) by (simp_all add: screen_cols_def)
  obtain s1 where s1: "fmt_text ''  %*u  '' [VWord (of_nat PHL_ART_W), VWord (shown_meals fr)] = s1" "length s1 = 9" "\<forall>ch\<in>set s1. isprint (schar ch)"
    using printf_wu [OF assms(3)] by (auto simp: isprint_def schar_def)
  obtain s3 where s3: "fmt_text ''  %*.*s  '' [VWord (of_nat PHL_ART_W), VWord (of_nat PHL_ART_W), VStr 0 (PHL_TXT (shown_st fr))] = s3"
    "length s3 = 9" "\<forall>ch\<in>set s3. isprint (schar ch)" using txt_printed by blast
  define a where "a = fprintf_cursor_up 4 st"
  define b where "b = fprintf_stdout ''  %*u  '' [VWord (of_nat PHL_ART_W), VWord (shown_meals fr)] (fprintf_cursor_horiz ?h a)"
  define c where "c = fprintf_cursor_down 1 b"
  define d where "d = fprintf_stdout ''%c %s %c''
    [VWord (of_int (schar (if shown_right fr then CHR ''>'' else CHR ''_''))), VStr 0 (PHL_ART (shown_st fr)),
     VWord (of_int (schar (if shown_left fr then CHR ''<'' else CHR ''_'')))] (fprintf_cursor_horiz ?h c)"
  define e where "e = fprintf_cursor_down 1 d"
  define f where "f = fprintf_stdout ''  %*.*s  '' [VWord (of_nat PHL_ART_W), VWord (of_nat PHL_ART_W), VStr 0 (PHL_TXT (shown_st fr))]
    (fprintf_cursor_horiz ?h e)"
  define g where "g = fprintf_cursor_down 2 f"
  have out: "phl_print_out fr st = fprintf_cursor_horiz 0 g"
    unfolding phl_print_out_def Let_def a_def b_def c_def d_def e_def f_def g_def ..
  have a: "picture a = ?t\<lparr>t_row := t_row ?t - 4\<rparr>" using cursor_step(1) [OF assms(1), of 4] assms(4) by (simp add: a_def)
  then have ga: "ground a" using assms(1) by (simp add: ground_def)
  have b: "picture b = t_text s1 ((picture a)\<lparr>t_col := ?h\<rparr>)" unfolding b_def by (rule print_row [OF ga h(1) s1 h(2)])
  then have gb: "ground b" using ga by (simp add: ground_def t_text_def)
  have c: "picture c = (picture b)\<lparr>t_row := t_row (picture b) + 1\<rparr>" unfolding c_def by (rule cursor_step(2) [OF gb]) simp_all
  then have gc: "ground c" using gb by (simp add: ground_def)
  have d: "picture d = t_text (hands_text fr) ((picture c)\<lparr>t_col := ?h\<rparr>)"
    unfolding d_def by (rule print_row [OF gc h(1) hands_printed hands_text_props h(2)])
  then have gd: "ground d" using gc by (simp add: ground_def t_text_def)
  have e: "picture e = (picture d)\<lparr>t_row := t_row (picture d) + 1\<rparr>" unfolding e_def by (rule cursor_step(2) [OF gd]) simp_all
  then have ge: "ground e" using gd by (simp add: ground_def)
  have f: "picture f = t_text s3 ((picture e)\<lparr>t_col := ?h\<rparr>)" unfolding f_def by (rule print_row [OF ge h(1) s3 h(2)])
  then have gf: "ground f" using ge by (simp add: ground_def t_text_def)
  have g: "picture g = (picture f)\<lparr>t_row := t_row (picture f) + 2\<rparr>" unfolding g_def by (rule cursor_step(2) [OF gf]) simp_all
  then have gg: "ground g" using gf by (simp add: ground_def)
  have "picture (phl_print_out fr st) = (picture g)\<lparr>t_col := 0\<rparr>" unfolding out by (rule cursor_step(3) [OF gg]) simp_all
  then show ?thesis using s1(2) s3(2) by (intro exI [of _ s1] exI [of _ s3]) (simp add: a b c d e f g t_text_def)
qed

text \<open>The cells of philosopher \<open>i\<close> when the cursor is in row \<open>r\<close>.\<close>

definition in_frame :: "int \<Rightarrow> nat \<Rightarrow> int \<Rightarrow> int \<Rightarrow> bool" where
  "in_frame r i x y \<longleftrightarrow> r - 4 \<le> x \<and> x \<le> r - 2 \<and> int i * 9 + 1 \<le> y \<and> y < int i * 9 + 10"

text \<open>
  Property C31. What \<open>phl_print\<close> prints makes the terminal show the philosopher, for one of eight philosophers who had fewer than 100000 meals each: the middle line of the frame has the
  hands and the face of the state, the cursor is back at the start of its row, and the cells outside the own frame, those of every other philosopher among them, are as before.
\<close>

theorem phl_print_shows_philosopher:
  assumes "ground st" "phil_id phl < THRD_MAX" "unat (meal_ct phl) < 10 ^ 5" "4 \<le> t_row (picture st)"
  defines "t \<equiv> picture st" and "t' \<equiv> picture (phl_print_out (phl_print_frame phl) st)"
  shows "t_mode t' = Ground \<and> t_row t' = t_row t \<and> t_col t' = 0 \<and>
    (\<forall>k<9. fst (t_cells t' (t_row t - 3) (int (phil_id phl) * 9 + 1 + int k)) = hands_text (phl_print_frame phl) ! k) \<and>
    (\<forall>x y. (\<not> in_frame (t_row t) (phil_id phl) x y \<or> (\<exists>j. j \<noteq> phil_id phl \<and> in_frame (t_row t) j x y)) \<longrightarrow> t_cells t' x y = t_cells t x y)"
proof -
  let ?fr = "phl_print_frame phl"
  have h: "hpos ?fr = phil_id phl * 9 + 1" "shown_meals ?fr = meal_ct phl" by (simp_all add: phl_print_frame_def PHL_ART_W_def)
  have "hpos ?fr < 70" using assms(2) h(1) by (simp add: THRD_MAX_def)
  from phl_print_picture [OF assms(1) this _ assms(4)] obtain s1 s3 where s: "length s1 = 9" "length s3 = 9"
    and t': "t' = (t_text s3 ((t_text (hands_text ?fr) ((t_text s1 (t\<lparr>t_row := t_row t - 4, t_col := int (hpos ?fr)\<rparr>))
      \<lparr>t_row := t_row t - 3, t_col := int (hpos ?fr)\<rparr>))\<lparr>t_row := t_row t - 2, t_col := int (hpos ?fr)\<rparr>))
      \<lparr>t_row := t_row t, t_col := 0\<rparr>"
    using assms(3) h(2) unfolding t_def t'_def by auto
  have m: "t_mode t = Ground" using assms(1) by (simp add: t_def ground_def)
  have cells: "t_cells t' x y = t_cells t x y" if "\<not> in_frame (t_row t) (phil_id phl) x y" for x y
    using that s h(1) hands_text_props(1) by (auto simp: t' t_text_def in_frame_def)
  have "\<not> in_frame (t_row t) (phil_id phl) x y" if "j \<noteq> phil_id phl" "in_frame (t_row t) j x y" for j x y
    using that by (cases j "phil_id phl" rule: linorder_cases) (auto simp: in_frame_def)
  moreover have "fst (t_cells t' (t_row t - 3) (int (phil_id phl) * 9 + 1 + int k)) = hands_text ?fr ! k" if "k < 9" for k
    using that h(1) hands_text_props(1) by (simp add: t' t_text_def)
  moreover have "t_mode t' = Ground \<and> t_row t' = t_row t \<and> t_col t' = 0" by (simp add: t' t_text_def m)
  ultimately show ?thesis using cells by blast
qed

text \<open>A philosopher at the fifth line of an empty screen.\<close>

definition five_lines :: "unit uprog_scheme" where
  "five_lines = \<lparr>umem = \<lambda>_. NUL, uout = ESC # ''[6;1H''\<rparr>"

theorem phl_print_shows_philosopher_witness:
  "t_row (picture (phl_print_out (phl_print_frame (phl_setup False 3 1)) five_lines)) = 5 \<and>
   fst (t_cells (picture (phl_print_out (phl_print_frame (phl_setup False 3 1)) five_lines)) 2 13) = CHR ''-''"
proof -
  have "t_mode (picture five_lines) = Ground \<and> t_row (picture five_lines) = 5"
    by (simp add: picture_def five_lines_def term0_def term_step_def ESC_def isdigit_def schar_def t_control_def)
  moreover have "hands_text (phl_print_frame (phl_setup False 3 1)) ! 3 = CHR ''-''"
    by (simp add: hands_text_def phl_print_frame_def phl_setup_def)
  ultimately show ?thesis
    using phl_print_shows_philosopher [of five_lines "phl_setup False 3 1"]
    by (auto simp: ground_def phl_setup_def THRD_MAX_def dest!: spec [of _ "3 :: nat"])
qed

end
