(* ===== verification/Spec2Isabelle.thy ===== *)
theory Spec2Isabelle
  imports Running Kernel_Types Eraser User_Mains
begin

text \<open>
  \<^bold>\<open>A verification library for the Munix kernel.\<close>

  Munix is a small teaching operating system for the i386 (\<open>src/src\<close>): a kernel with drivers for the serial
  port, terminals and RAM disks, a virtual file system with a CPIO archive as its root, page maps, processes loaded from
  ELF files, preemptively scheduled threads, a freestanding C library, and a few user programs. This library models the C
  code definition by definition (names are those of the source) and proves what makes the parts correct.

  \<^bold>\<open>Parts and theories.\<close> Every theory opens with a text on what it holds.

  \<^item> \<open>Munix_Prelude\<close>: types shared by all theories: machine words, memory as a function from addresses to
    characters, C strings in memory; the collection \<open>cmem\<close> of facts on memory.
  \<^item> \<open>C_Base\<close>: \<open>core/errno.h\<close>, \<open>ctype.h\<close>, \<open>macros.h\<close>, \<open>types.h\<close>. \<open>C_String\<close>: \<open>core/string.c\<close> and \<open>stdlib.c\<close>
    on memory. \<open>Linked_List\<close>: \<open>core/list.h\<close> on a heap of nodes; \<open>clist\<close> abstracts a circular list to a
    sequence, and the locale \<open>intrusive_queue\<close> is the queue that the scheduler uses.
  \<^item> \<open>Sprintf\<close>: \<open>core/sprintf.c\<close>; \<open>printf_text\<close> is the reference text that \<open>snprintf\<close> is shown to store.
    \<open>Text_Util\<close>: \<open>core/path.c\<close>, \<open>string_strerror.c\<close>, \<open>drivers/log.c\<close> and \<open>mulibc/stdio.c\<close>, on top of it.
  \<^item> \<open>Pagemap\<close>: \<open>kernel/pagemap.c\<close> and \<open>cpu_pagemap.h\<close>; \<open>walk\<close> is the translation that the processor does. \<open>Page_Count\<close> counts the pages
    that mappings take for page tables.
  \<^item> \<open>Vfs\<close>: \<open>drivers/vfs_file.c\<close> and \<open>vfs_fs.c\<close>. A driver is a record of functions over the kernel state; an open file
    names its driver. The locales \<open>readable_device\<close>, \<open>fs_driver\<close> and \<open>vfs_devices\<close> are the contracts between the VFS,
    devices and file systems.
  \<^item> \<open>Ramdisk\<close>, \<open>Cpiofs\<close>, \<open>Serial\<close>, \<open>Tty\<close>: the drivers of \<open>drivers/chrdev\<close> and \<open>drivers/fs\<close>. \<open>Cpio_Archive\<close> defines
    archives and shows that the file system reads them. \<open>Devices\<close> puts the drivers together
    (\<open>munix_drivers\<close>) and mounts the initial RAM disk (\<open>kernel/kernel.c\<close>).
  \<^item> \<open>Elf\<close>: \<open>drivers/fileformat/elf.c\<close>; the locale \<open>file_source\<close> is what the loader needs of a file.
  \<^item> \<open>Threads\<close>: the thread part of \<open>kernel/process.c\<close> and \<open>kernel/scheduler.c\<close>; \<open>kstate\<close> is the state of the whole kernel.
    \<open>sched_ring\<close> abstracts the scheduler to the ring of live threads; the locale \<open>round_robin\<close> has what follows for
    any number of timer ticks.
  \<^item> \<open>Process\<close>: the process part of \<open>kernel/process.c\<close> and \<open>kernel/syscall_dispatch.c\<close>.
  \<^item> \<open>Interrupts\<close>: \<open>drivers/chip/intctl_8259.c\<close>, \<open>pit_8253.c\<close> and \<open>kernel/interrupt.c\<close>, and the step relation \<open>kstep\<close> of
    the kernel with its user threads. \<open>Kernel_Types\<close> shows that the static arrays keep their sizes under these steps.
  \<^item> \<open>Segments\<close>: \<open>x86_seg.c\<close> and \<open>cpu_interrupt.c\<close>, descriptors and gates as the processor reads them. \<open>Boot\<close>: \<open>boot_mb2.c\<close>, the scan of the
    Multiboot tags. \<open>Loading\<close>: \<open>process_load_path\<close> on an archive, page maps and ELF segments together.
  \<^item> \<open>Kshell\<close>: \<open>kernel/kshell.c\<close>; \<open>sh_words\<close> is the reference for the words of a command line.
  \<^item> \<open>Kernel_Main\<close>: \<open>kernel/kernel.c\<close>, \<open>cpu_pagemap.c\<close> and the entry from the boot loader, with the locale \<open>serial_board\<close> for a machine whose first serial port
    works. \<open>Running\<close> composes all of it, from the boot loader to the first instruction of a program that the user names at the terminal.
  \<^item> \<open>User_Threads\<close>: \<open>mulibc/threads.c\<close> and the threads of \<open>process/datarace.c\<close> under every interleaving (\<open>race_step\<close>);
    the locale \<open>terminable\<close> is what keeps spinning threads from a dead end. \<open>Philosophers\<close>: \<open>process/philosophers.c\<close> on the same
    mutexes; \<open>ownership\<close> relates the flags of the mutexes to their owners.
  \<^item> \<open>Plane\<close>: \<open>process/plane.c\<close> and \<open>plane-raw.c\<close>. A terminal (\<open>term_step\<close>) gives a meaning to the escape sequences that programs write; the locale \<open>canvas\<close> is
    what the drawing code needs, and both the terminal and the video memory have it. \<open>Eraser\<close>: \<open>process/eraser.c\<close> and \<open>eraser-raw.c\<close>, with the locale
    \<open>map_display\<close>. \<open>User_Mains\<close>: \<open>process/hello.c\<close>, \<open>hello-raw.c\<close>, and command lines and output of \<open>datarace.c\<close> and \<open>philosophers.c\<close>.

  \<^bold>\<open>State.\<close> The records extend each other in the order of the drivers: \<open>vfs\<close>, \<open>rdstate\<close>, \<open>cpstate\<close>,
  \<open>srstate\<close>, \<open>ttystate\<close>, \<open>kstate\<close>, \<open>machine\<close>. A user program has its own memory and output (\<open>uprog\<close>). Operations are functions from state to state; static arrays are lists and a pointer
  into one is an index. Linked list nodes are addresses of a heap. The RAM and the mapped user pages are one byte
  array \<open>kmem\<close>, since the kernel maps every page to the physical page with the same address. Page tables are arrays of entries at their addresses in the area from 1 MiB on
  (\<open>pmstate\<close>), which \<open>kmem\<close> does not show; theorems that use both have the hypothesis that archives and buffers lie outside that area (\<open>outside_tables\<close>). The image
  of the kernel, its static data and its stacks are not part of \<open>kmem\<close> either.

  \<^bold>\<open>Results.\<close> C integers of fixed width are words, \<open>int\<close> results are integers with negative error numbers
  (\<open>err\<close>). Operations that can fail to return are \<^typ>\<open>'a option\<close>, with \<^const>\<open>None\<close> for an endless loop; loops
  whose end is not evident are \<open>partial_function\<close>s, so that both termination and divergence are theorems. A NULL
  dereference in the list operations is \<^const>\<open>None\<close>; \<open>conv\<close> separates undefined behaviour of the formatter, and
  \<open>control\<close> says how a kernel operation gives up control: it returns, starts user code, restores a
  saved task, ends in \<open>kernel_noreturn\<close>, or is undefined. Thread ids are 32-bit: their counter is undefined behind \<open>INT_MAX\<close>; the counters of yields,
  preemptions and processes wrap (\<open>int32\<close>), as on the processor. A read or write of a file through a NULL pointer transfers nothing (\<open>file_read_to\<close>, \<open>file_write_from\<close>). The only fuel is that of \<open>table_loop\<close>: its 1024
  iterations are as many as a page table has entries.

  \<^bold>\<open>Parameters.\<close> I/O ports are a parameter (\<open>bus\<close>) with the contracts \<open>uart\<close>, \<open>serial_board\<close> and \<open>pic_masks\<close>; concrete devices show
  that they can be met. The write system call under \<open>vfprintf\<close> and \<open>_logf\<close>, the addresses of buffers, the placement of the kernel in memory (\<open>layout\<close>), and the
  addresses and old bytes of local variables (\<open>locals\<close>) are parameters as well, and so are the interrupts that arrive between the enabling of interrupts and the shell (\<open>irqs\<close> of
  \<open>kernel_main\<close>), and the addresses that the eraser may clear without losing itself (\<open>spare\<close>).

  \<^bold>\<open>What is shown.\<close> Memory and strings: copies, comparisons, searches and number parsing meet their
  specifications. Formatting: \<open>snprintf\<close> stores the longest prefix of the reference text that fits and returns the full
  length; integers round trip; log lines and \<open>printf\<close> output are complete. Lists: all operations refine operations
  on sequences. Page maps: mapping a range gives exactly the requested translations, keeps all others and
  other address spaces; unmapping has a defect, which is proved. Files: archives are found, opened and read
  correctly through mounts and RAM disks, up to a fully mounted initial RAM disk. Terminal and serial port: line
  editing, newline translation. ELF: segments arrive in memory. Threads: yield, preemption, exit, creation and join refine operations on the
  ring of live threads, preemption is fair, and the invariant holds in every reachable state of the
  kernel with arbitrary user threads. Processes: the first thread enters user mode with the argument layout of the
  ABI; loading puts the segments into memory and maps exactly the pages of the program. Descriptors: the processor reads from the
  tables what the code meant, and user code can raise only the system call. Boot: the tags are read as the specification lays them out. Shell: a typed line is
  edited, split and executed. The whole: from a cold machine the kernel boots, mounts its archive and runs the program that is named at the
  terminal. User programs: the mutex excludes and never blocks for good, philosophers can deadlock when all are
  right-handed and not when one is left-handed, the eraser erases what it is told to, and the version of hello for the bare machine sends what that for the C library prints,
  and the two planes leave the same picture up to the cursor, behind which the one on the terminal erases.
  Defects of the code are stated as theorems about the model where they matter: unmapping outside the range,
  reads behind the end of a file, endless loops on truncated archives, on truncated executables and on segments at address 0, lost output above 7 bits, a full
  terminal line, the exit of the last thread, a timer interrupt before there is a thread, and the example of the eraser's help text.

  \<^bold>\<open>Not modelled.\<close> Assembly (interrupt entry, system call stubs, start-up code), attributes and format macros have no model; what the C code relies on of
  them is written into the definitions that use it. Log messages of the kernel and debug strings have no effect on the state; they are left out, apart from
  those of the boot information and of descriptors, so the characters that the log sends to the serial port are not part of its output. Timer
  interrupts are steps of user code (\<open>kstep\<close>), or arrive before the shell starts (\<open>irqs\<close>); they are not interleaved with the code of the shell, during which one would be
  undefined in the same way. A user pointer that is given to \<open>write\<close> is read from the memory as it is; a page fault is an interrupt step of its own. Interrupt handlers run with the null selector that the code loads into the
  data segment registers (\<open>with_kernel_data\<close>), but the model does not let memory accesses through it fault. User programs of threads start with all their threads; the ninth \<open>thrd_create\<close> fails, and properties that depend on it are
  stated for up to \<open>THRD_MAX\<close> threads. Of the headers \<open>elf.h\<close> and
  \<open>multiboot2.h\<close> only the structs and constants in use are modelled. Of the user programs, those that do nothing or divide by zero at once, and
  \<open>process/threads.c\<close>, a test that prints around \<open>thrd_create\<close> and \<open>thrd_join\<close>, are left out; programs see their code and static data as immutable.
\<close>

end
